(* ===== verification/Rtp_Prelude.thy ===== *)
theory Rtp_Prelude
  imports Main "HOL-Library.Word"
begin

text \<open>
  The vocabulary every component shares: the machine integer types, the big and little
  endian encodings of \<^verbatim>\<open>to_be_bytes\<close> and \<^verbatim>\<open>from_be_bytes\<close>, checked slices, the saturating
  operations of the standard library, and the generic facts on words and lists that the
  component proofs rest on.  Unsigned integers are words of their width, so that additions
  wrap as \<^verbatim>\<open>wrapping_add\<close> does; \<^verbatim>\<open>usize\<close> values that count elements of a vector are
  natural numbers.
\<close>

unbundle bit_operations_syntax

section \<open>Types\<close>

type_synonym u8 = "8 word"
type_synonym u16 = "16 word"
type_synonym u32 = "32 word"
type_synonym u64 = "64 word"
type_synonym bytes = "u8 list"

text \<open>A point in time and a duration, both in nanoseconds (\<^verbatim>\<open>std::time::Instant\<close> counts
  from an arbitrary epoch; subtraction of a later instant saturates at zero).\<close>

type_synonym instant = nat
type_synonym duration = nat

named_theorems byte_simps \<open>lengths and round trips of the byte encodings\<close>
named_theorems invs \<open>invariants that the operations of a component keep\<close>

section \<open>Byte encodings\<close>

definition be16 :: "u16 \<Rightarrow> bytes" where
  "be16 w = [ucast (drop_bit 8 w), ucast w]"

definition be32 :: "u32 \<Rightarrow> bytes" where
  "be32 w = [ucast (drop_bit 24 w), ucast (drop_bit 16 w), ucast (drop_bit 8 w), ucast w]"

definition le16 :: "u16 \<Rightarrow> bytes" where
  "le16 w = [ucast w, ucast (drop_bit 8 w)]"

definition le32 :: "u32 \<Rightarrow> bytes" where
  "le32 w = [ucast w, ucast (drop_bit 8 w), ucast (drop_bit 16 w), ucast (drop_bit 24 w)]"

definition from_be16 :: "u8 \<Rightarrow> u8 \<Rightarrow> u16" where
  "from_be16 a b = push_bit 8 (ucast a) OR ucast b"

definition from_be32 :: "u8 \<Rightarrow> u8 \<Rightarrow> u8 \<Rightarrow> u8 \<Rightarrow> u32" where
  "from_be32 a b c d =
     push_bit 24 (ucast a) OR push_bit 16 (ucast b) OR push_bit 8 (ucast c) OR ucast d"

text \<open>The reads \<^verbatim>\<open>u16::from_be_bytes([data[i], data[i + 1]])\<close> and its 32 bit sibling.\<close>

definition be16_at :: "bytes \<Rightarrow> nat \<Rightarrow> u16" where
  "be16_at data i = from_be16 (data ! i) (data ! (i + 1))"

definition be32_at :: "bytes \<Rightarrow> nat \<Rightarrow> u32" where
  "be32_at data i =
     from_be32 (data ! i) (data ! (i + 1)) (data ! (i + 2)) (data ! (i + 3))"

lemma length_be16 [simp, byte_simps]: "length (be16 w) = 2"
  by (simp add: be16_def)

lemma length_be32 [simp, byte_simps]: "length (be32 w) = 4"
  by (simp add: be32_def)

lemma length_le16 [simp, byte_simps]: "length (le16 w) = 2"
  by (simp add: le16_def)

lemma length_le32 [simp, byte_simps]: "length (le32 w) = 4"
  by (simp add: le32_def)

lemma from_be16_split [simp]: "from_be16 (ucast (drop_bit 8 w)) (ucast w) = w"
  by (rule bit_word_eqI) (auto simp: from_be16_def bit_simps)

lemma from_be32_split [simp]:
  "from_be32 (ucast (drop_bit 24 w)) (ucast (drop_bit 16 w)) (ucast (drop_bit 8 w)) (ucast w) = w"
  by (rule bit_word_eqI) (auto simp: from_be32_def bit_simps not_less le_diff_conv2 split: nat_diff_split_asm)

lemma bit_u8_ge: "8 \<le> n \<Longrightarrow> bit (b :: u8) n \<longleftrightarrow> False"
  by (auto dest: bit_imp_le_length)

lemma be16_from_be16 [simp]: "be16 (from_be16 a b) = [a, b]"
  by (auto simp: be16_def from_be16_def bit_simps bit_u8_ge intro!: bit_word_eqI)

lemma be32_from_be32 [simp]: "be32 (from_be32 a b c d) = [a, b, c, d]"
  by (auto simp: be32_def from_be32_def bit_simps bit_u8_ge intro!: bit_word_eqI)

lemma be16_nth [simp]:
  "be16 w ! 0 = ucast (drop_bit 8 w)" "be16 w ! Suc 0 = ucast w"
  by (simp_all add: be16_def)

lemma be32_nth [simp]:
  "be32 w ! 0 = ucast (drop_bit 24 w)" "be32 w ! Suc 0 = ucast (drop_bit 16 w)"
  "be32 w ! 2 = ucast (drop_bit 8 w)" "be32 w ! 3 = ucast w"
  by (simp_all add: be32_def numeral_eq_Suc)

lemma be16_inj [simp]: "be16 a = be16 b \<longleftrightarrow> a = b"
proof
  assume "be16 a = be16 b"
  then have "from_be16 (be16 a ! 0) (be16 a ! Suc 0) = from_be16 (be16 b ! 0) (be16 b ! Suc 0)"
    by simp
  then show "a = b" by simp
qed simp

lemma be32_inj [simp]: "be32 a = be32 b \<longleftrightarrow> a = b"
proof
  assume "be32 a = be32 b"
  then have "from_be32 (be32 a ! 0) (be32 a ! Suc 0) (be32 a ! 2) (be32 a ! 3) =
    from_be32 (be32 b ! 0) (be32 b ! Suc 0) (be32 b ! 2) (be32 b ! 3)"
    by simp
  then show "a = b" by simp
qed simp

lemma xor_cancel_right: "a XOR c = b XOR c \<longleftrightarrow> a = (b :: 'a::len word)"
proof
  assume "a XOR c = b XOR c"
  then have "(a XOR c) XOR c = (b XOR c) XOR c" by simp
  then show "a = b" by (simp add: xor.assoc)
qed simp

lemma be16_at_append [byte_simps]: "length xs = i \<Longrightarrow> be16_at (xs @ be16 w @ ys) i = w"
  by (simp add: be16_at_def be16_def nth_append)

lemma be32_at_append [byte_simps]: "length xs = i \<Longrightarrow> be32_at (xs @ be32 w @ ys) i = w"
  by (simp add: be32_at_def be32_def nth_append)

section \<open>Slices\<close>

text \<open>\<open>sub_range xs a b\<close> is \<^verbatim>\<open>xs[a..b]\<close> where it is in range; \<open>get_range\<close> is
  \<^verbatim>\<open>xs.get(a..b)\<close>.\<close>

definition sub_range :: "'a list \<Rightarrow> nat \<Rightarrow> nat \<Rightarrow> 'a list" where
  "sub_range xs a b = take (b - a) (drop a xs)"

definition get_range :: "'a list \<Rightarrow> nat \<Rightarrow> nat \<Rightarrow> 'a list option" where
  "get_range xs a b = (if a \<le> b \<and> b \<le> length xs then Some (sub_range xs a b) else None)"

lemma length_sub_range [simp]: "length (sub_range xs a b) = min (b - a) (length xs - a)"
  by (simp add: sub_range_def)

lemma sub_range_append_exact [simp]:
  "length xs = a \<Longrightarrow> a + length ys = b \<Longrightarrow> sub_range (xs @ ys @ zs) a b = ys"
  by (auto simp: sub_range_def)

lemma nth_sub_range: "a + i < b \<Longrightarrow> b \<le> length xs \<Longrightarrow> sub_range xs a b ! i = xs ! (a + i)"
  by (simp add: sub_range_def)

lemma take_append_sub_range: "a \<le> b \<Longrightarrow> take a xs @ sub_range xs a b = take b xs"
  by (simp add: sub_range_def flip: take_add)

lemma sub_range_0 [simp]: "sub_range xs 0 b = take b xs"
  by (simp add: sub_range_def)

lemma take_2_nth: "2 \<le> length xs \<Longrightarrow> take 2 xs = [xs ! 0, xs ! 1]"
  by (cases xs; cases "tl xs") (auto simp: numeral_2_eq_2)

lemma sub_range_2_nth: "a + 2 \<le> length xs \<Longrightarrow> sub_range xs a (a + 2) = [xs ! a, xs ! (a + 1)]"
  using take_2_nth [of "drop a xs"] by (simp add: sub_range_def)

lemma sub_range_4_nth:
  "a + 4 \<le> length xs \<Longrightarrow>
   sub_range xs a (a + 4) = [xs ! a, xs ! (a + 1), xs ! (a + 2), xs ! (a + 3)]"
  by (rule nth_equalityI)
     (auto simp: sub_range_def less_Suc_eq numeral_eq_Suc)

lemma sub_range_be16: "a + 2 \<le> length xs \<Longrightarrow> be16 (be16_at xs a) = sub_range xs a (a + 2)"
  using sub_range_2_nth [of a xs] by (simp add: be16_at_def)

lemma sub_range_be32: "a + 4 \<le> length xs \<Longrightarrow> be32 (be32_at xs a) = sub_range xs a (a + 4)"
  using sub_range_4_nth [of a xs] by (simp add: be32_at_def)

section \<open>Saturating and checked operations\<close>

definition sat_add :: "'a::len word \<Rightarrow> 'a word \<Rightarrow> 'a word" where
  "sat_add a b = (if a + b < a then - 1 else a + b)"

definition sat_sub :: "'a::len word \<Rightarrow> 'a word \<Rightarrow> 'a word" where
  "sat_sub a b = (if a < b then 0 else a - b)"

lemma unat_sat_sub [simp]: "unat (sat_sub a b) = unat a - unat b"
  by (auto simp: sat_sub_def word_less_nat_alt unat_sub_if')

text \<open>A 32 bit value read as two's complement (\<^verbatim>\<open>x as i32\<close>), and the wrapped results of
  signed arithmetic.\<close>

definition wrap_i32 :: "int \<Rightarrow> int" where
  "wrap_i32 x = (x + 2147483648) mod 4294967296 - 2147483648"

definition wrap_i64 :: "int \<Rightarrow> int" where
  "wrap_i64 x = (x + 9223372036854775808) mod 18446744073709551616 - 9223372036854775808"

lemma wrap_i64_id [simp]:
  "- 9223372036854775808 \<le> x \<Longrightarrow> x < 9223372036854775808 \<Longrightarrow> wrap_i64 x = x"
  by (simp add: wrap_i64_def)

lemma wrap_i32_id [simp]: "- 2147483648 \<le> x \<Longrightarrow> x < 2147483648 \<Longrightarrow> wrap_i32 x = x"
  by (simp add: wrap_i32_def)

text \<open>Rust's \<^verbatim>\<open>/\<close> on signed integers truncates towards zero.\<close>

definition trunc_div :: "int \<Rightarrow> int \<Rightarrow> int" where
  "trunc_div a b = sgn a * sgn b * (\<bar>a\<bar> div \<bar>b\<bar>)"

section \<open>Properties of all bytes\<close>

text \<open>A decidable property of a byte may be checked on the 256 values.\<close>

lemma byte_cases:
  assumes "\<forall>n \<in> set [0..<256]. P (word_of_nat n)"
  shows "P (b :: u8)"
proof -
  have "unat b < 256" using unsigned_less [of b] by simp
  then have "unat b \<in> set [0..<256]" by simp
  with assms have "P (word_of_nat (unat b))" by blast
  then show ?thesis by simp
qed

lemma u16_lt: "unat (w :: u16) < 65536"
  using unsigned_less [of w] by simp

lemma u32_lt: "unat (w :: u32) < 4294967296"
  using unsigned_less [of w] by simp

lemma u8_lt: "unat (w :: u8) < 256"
  using unsigned_less [of w] by simp

lemma unat_ucast_mod:
  "unat (ucast (w :: 'a::len word) :: 'b::len word) = unat w mod 2 ^ LENGTH('b)"
  by (simp add: unsigned_ucast_eq take_bit_eq_mod)

section \<open>Lists\<close>

lemma find_index_update:
  "i < length xs \<Longrightarrow> xs[i := y] ! j = (if i = j then y else xs ! j)"
  by (cases "j = i") auto

end
