(* ===== verification/Wire_Format.thy ===== *)
theory Wire_Format
  imports Rtp_Prelude
begin

text \<open>
  The contract of a self-delimiting header on the wire: a serialiser, a parser that reads a
  prefix of a datagram, the header's length, and the values that can be serialised
  faithfully.  What the rest of the library needs of RTP headers (payloads start right
  behind them, two different headers never share their bytes, a parsed datagram splits into
  header and payload) is proved here once from that contract.
\<close>

locale wire_format =
  fixes encode :: "'a \<Rightarrow> bytes"
    and decode :: "bytes \<Rightarrow> 'a option"
    and wf_value :: "'a \<Rightarrow> bool"
    and size_of :: "'a \<Rightarrow> nat"
  assumes decode_encode: "wf_value x \<Longrightarrow> decode (encode x @ rest) = Some x"
    and decode_wf: "decode d = Some x \<Longrightarrow> wf_value x"
    and decode_size: "decode d = Some x \<Longrightarrow> size_of x \<le> length d"
    and encode_take: "decode d = Some x \<Longrightarrow> encode x = take (size_of x) d"
    and length_encode: "length (encode x) = size_of x"
begin

lemma decode_split: "decode d = Some x \<Longrightarrow> d = encode x @ drop (size_of x) d"
  by (simp add: encode_take)

lemma decode_payload: "wf_value x \<Longrightarrow> drop (size_of x) (encode x @ p) = p"
  by (simp add: length_encode)

lemma encode_inj:
  assumes "wf_value x" "wf_value y" "encode x @ p = encode y @ q"
  shows "x = y \<and> p = q"
proof -
  have "Some x = Some y"
    using assms decode_encode by metis
  with assms(3) show ?thesis by simp
qed

lemma decode_other_payload:
  assumes "decode d = Some x"
  shows "decode (take (size_of x) d @ rest) = Some x"
  using decode_encode [OF decode_wf [OF assms], of rest] encode_take [OF assms] by simp

end

end
