(* ===== verification/Rtp_Header.thy ===== *)
theory Rtp_Header
  imports Wire_Format
begin

text \<open>
  RTP headers and packets: \<^verbatim>\<open>src/src/rtp/header.rs\<close> and the read-only helpers of
  \<^verbatim>\<open>src/src/rtp/mod.rs\<close>.  A header is a record of the source's fields; \<open>RtpHeader_parse\<close>
  and \<open>RtpHeader_to_bytes\<close> are its two codecs, \<open>wf_header\<close> the headers that survive the
  trip.
\<close>

section \<open>The header\<close>

record RtpHeader =
  h_version :: u8
  h_padding :: bool
  h_extension :: bool
  h_csrc_count :: u8
  h_marker :: bool
  h_payload_type :: u8
  h_sequence :: u16
  h_timestamp :: u32
  h_ssrc :: u32
  h_csrc :: "u32 list"
  h_extension_data :: "bytes option"

definition RtpHeader_new :: "u8 \<Rightarrow> u16 \<Rightarrow> u32 \<Rightarrow> u32 \<Rightarrow> RtpHeader" where
  "RtpHeader_new payload_type sequence timestamp ssrc =
     \<lparr> h_version = 2, h_padding = False, h_extension = False, h_csrc_count = 0,
       h_marker = False, h_payload_type = payload_type, h_sequence = sequence,
       h_timestamp = timestamp, h_ssrc = ssrc, h_csrc = [], h_extension_data = None \<rparr>"

definition with_marker :: "RtpHeader \<Rightarrow> RtpHeader" where
  "with_marker h = h\<lparr>h_marker := True\<rparr>"

definition RtpHeader_default :: RtpHeader where
  "RtpHeader_default = RtpHeader_new 0 0 0 0"

text \<open>\<^verbatim>\<open>RtpHeader::parse\<close>, with its early returns in the source's order.\<close>

definition RtpHeader_parse :: "bytes \<Rightarrow> RtpHeader option" where
  "RtpHeader_parse data =
    (if length data < 12 then None
     else
      let version = drop_bit 6 (data ! 0) AND 3 in
      if version \<noteq> 2 then None
      else
       let extension = (data ! 0 AND 16 \<noteq> 0);
           csrc_count = data ! 0 AND 15;
           csrc_end = 12 + unat csrc_count * 4 in
       if length data < csrc_end then None
       else
        let header = \<lparr> h_version = version, h_padding = (data ! 0 AND 32 \<noteq> 0),
              h_extension = extension, h_csrc_count = csrc_count,
              h_marker = (data ! 1 AND 128 \<noteq> 0), h_payload_type = data ! 1 AND 127,
              h_sequence = be16_at data 2, h_timestamp = be32_at data 4,
              h_ssrc = be32_at data 8,
              h_csrc = map (\<lambda>i. be32_at data (12 + i * 4)) [0..<unat csrc_count],
              h_extension_data = None \<rparr> in
        if extension then
          if length data < csrc_end + 4 then None
          else
           let ext_end = csrc_end + 4 + unat (be16_at data (csrc_end + 2)) * 4 in
           if length data < ext_end then None
           else Some (header\<lparr>h_extension_data := Some (sub_range data csrc_end ext_end)\<rparr>)
        else Some header)"

text \<open>\<^verbatim>\<open>to_bytes\<close>: the CSRC count on the wire is the length of the list, cut to four bits.\<close>

definition header_byte0 :: "RtpHeader \<Rightarrow> u8" where
  "header_byte0 h = push_bit 6 (h_version h) OR (if h_padding h then 32 else 0) OR
     (if h_extension h then 16 else 0) OR (word_of_nat (length (h_csrc h)) AND 15)"

definition header_byte1 :: "RtpHeader \<Rightarrow> u8" where
  "header_byte1 h = (if h_marker h then 128 else 0) OR (h_payload_type h AND 127)"

definition RtpHeader_to_bytes :: "RtpHeader \<Rightarrow> bytes" where
  "RtpHeader_to_bytes h =
     [header_byte0 h, header_byte1 h] @ be16 (h_sequence h) @ be32 (h_timestamp h) @
     be32 (h_ssrc h) @ concat (map be32 (h_csrc h)) @
     (case h_extension_data h of None \<Rightarrow> [] | Some ext \<Rightarrow> ext)"

definition header_length :: "RtpHeader \<Rightarrow> nat" where
  "header_length h = 12 + length (h_csrc h) * 4 +
     (case h_extension_data h of None \<Rightarrow> 0 | Some ext \<Rightarrow> length ext)"

section \<open>Packets\<close>

record RtpPacket =
  p_header :: RtpHeader
  p_payload :: bytes

definition RtpPacket_new :: "RtpHeader \<Rightarrow> bytes \<Rightarrow> RtpPacket" where
  "RtpPacket_new header payload = \<lparr>p_header = header, p_payload = payload\<rparr>"

definition RtpPacket_simple :: "u8 \<Rightarrow> u16 \<Rightarrow> u32 \<Rightarrow> u32 \<Rightarrow> bytes \<Rightarrow> RtpPacket" where
  "RtpPacket_simple payload_type sequence timestamp ssrc payload =
     \<lparr>p_header = RtpHeader_new payload_type sequence timestamp ssrc, p_payload = payload\<rparr>"

definition RtpPacket_parse :: "bytes \<Rightarrow> RtpPacket option" where
  "RtpPacket_parse data =
    (case RtpHeader_parse data of
       None \<Rightarrow> None
     | Some header \<Rightarrow>
         let payload_offset = header_length header in
         if payload_offset > length data then None
         else Some \<lparr>p_header = header, p_payload = drop payload_offset data\<rparr>)"

definition RtpPacket_to_bytes :: "RtpPacket \<Rightarrow> bytes" where
  "RtpPacket_to_bytes p = RtpHeader_to_bytes (p_header p) @ p_payload p"

section \<open>The helpers of the module\<close>

definition parse_rtp :: "bytes \<Rightarrow> (RtpHeader \<times> bytes) option" where
  "parse_rtp data =
    (if length data < 12 then None
     else case RtpHeader_parse data of
       None \<Rightarrow> None
     | Some header \<Rightarrow>
         let payload_offset = header_length header in
         if payload_offset \<le> length data then Some (header, drop payload_offset data)
         else None)"

definition parse_payload_type :: "bytes \<Rightarrow> u8 option" where
  "parse_payload_type data = (if length data < 2 then None else Some (data ! 1 AND 127))"

definition parse_sequence :: "bytes \<Rightarrow> u16 option" where
  "parse_sequence data = (if length data < 4 then None else Some (be16_at data 2))"

definition parse_timestamp :: "bytes \<Rightarrow> u32 option" where
  "parse_timestamp data = (if length data < 8 then None else Some (be32_at data 4))"

definition parse_ssrc :: "bytes \<Rightarrow> u32 option" where
  "parse_ssrc data = (if length data < 12 then None else Some (be32_at data 8))"

section \<open>Well-formed headers\<close>

text \<open>
  The headers \<open>RtpHeader_to_bytes\<close> writes faithfully: version 2, a payload type of seven
  bits, at most fifteen CSRCs (the count field agrees with the list), and extension data
  present exactly when the flag is set, its length being the one it declares.
\<close>

definition wf_extension :: "bytes \<Rightarrow> bool" where
  "wf_extension ext \<longleftrightarrow> 4 \<le> length ext \<and> length ext = 4 + unat (be16_at ext 2) * 4"

definition wf_header :: "RtpHeader \<Rightarrow> bool" where
  "wf_header h \<longleftrightarrow> h_version h = 2 \<and> h_payload_type h AND 127 = h_payload_type h \<and>
     length (h_csrc h) \<le> 15 \<and> h_csrc_count h = word_of_nat (length (h_csrc h)) \<and>
     (case h_extension_data h of None \<Rightarrow> \<not> h_extension h
      | Some ext \<Rightarrow> h_extension h \<and> wf_extension ext)"

lemma wf_RtpHeader_new [simp, intro]:
  "pt AND 127 = pt \<Longrightarrow> wf_header (RtpHeader_new pt sq ts ss)"
  by (simp add: wf_header_def RtpHeader_new_def)

lemma wf_with_marker [simp]: "wf_header (with_marker h) = wf_header h"
  by (simp add: wf_header_def with_marker_def split: option.split)

lemma header_length_new [simp]: "header_length (RtpHeader_new pt sq ts ss) = 12"
  by (simp add: header_length_def RtpHeader_new_def)

lemma header_length_with_marker [simp]: "header_length (with_marker h) = header_length h"
  by (simp add: header_length_def with_marker_def)

lemma length_concat_be32 [simp, byte_simps]: "length (concat (map be32 ws)) = length ws * 4"
  by (induction ws) auto

lemma length_to_bytes [simp, byte_simps]:
  "length (RtpHeader_to_bytes h) = header_length h"
  by (simp add: RtpHeader_to_bytes_def header_length_def split: option.splits)

section \<open>The first two bytes\<close>

lemma byte0_fields_aux:
  "\<forall>n \<in> set [0..<16]. \<forall>p \<in> set [True, False]. \<forall>x \<in> set [True, False].
     let b = push_bit 6 2 OR (if p then 32 else 0) OR (if x then 16 else 0) OR
             ((word_of_nat n :: u8) AND 15) in
     drop_bit 6 b AND 3 = 2 \<and> (b AND 32 \<noteq> 0) = p \<and> (b AND 16 \<noteq> 0) = x \<and>
     b AND 15 = word_of_nat n \<and> unat (b AND 15) = n"
  by code_simp

lemma byte0_fields:
  assumes "h_version h = 2" "length (h_csrc h) \<le> 15"
  shows "drop_bit 6 (header_byte0 h) AND 3 = 2"
    and "(header_byte0 h AND 32 \<noteq> 0) = h_padding h"
    and "(header_byte0 h AND 16 \<noteq> 0) = h_extension h"
    and "header_byte0 h AND 15 = word_of_nat (length (h_csrc h))"
    and "unat (header_byte0 h AND 15) = length (h_csrc h)"
proof -
  have n: "length (h_csrc h) \<in> set [0..<16]" using assms(2) by simp
  have p: "h_padding h \<in> set [True, False]" and x: "h_extension h \<in> set [True, False]"
    by simp_all
  have eq: "header_byte0 h = push_bit 6 2 OR (if h_padding h then 32 else 0) OR
      (if h_extension h then 16 else 0) OR (word_of_nat (length (h_csrc h)) AND 15)"
    by (simp add: header_byte0_def assms(1))
  note fields = byte0_fields_aux [rule_format, OF n p x, unfolded Let_def, folded eq]
  show "drop_bit 6 (header_byte0 h) AND 3 = 2"
    "(header_byte0 h AND 32 \<noteq> 0) = h_padding h"
    "(header_byte0 h AND 16 \<noteq> 0) = h_extension h"
    "header_byte0 h AND 15 = word_of_nat (length (h_csrc h))"
    "unat (header_byte0 h AND 15) = length (h_csrc h)"
    using fields by blast+
qed

lemma flag_bit: "(if b AND 2 ^ n \<noteq> 0 then 2 ^ n else 0) = b AND (2 ^ n :: 'a :: len word)"
  unfolding and_exp_eq_0_iff_not_bit by (rule bit_word_eqI) (auto simp: bit_simps)

lemma flag_bits:
  "(if b AND 128 \<noteq> 0 then 128 else 0) = b AND (128 :: u8)" "(if b AND 32 \<noteq> 0 then 32 else 0) = b AND (32 :: u8)"
  "(if b AND 16 \<noteq> 0 then 16 else 0) = b AND (16 :: u8)"
proof -
  have p: "(128 :: u8) = 2 ^ 7" "(32 :: u8) = 2 ^ 5" "(16 :: u8) = 2 ^ 4" by simp_all
  show "(if b AND 128 \<noteq> 0 then 128 else 0) = b AND (128 :: u8)" "(if b AND 32 \<noteq> 0 then 32 else 0) = b AND (32 :: u8)"
    "(if b AND 16 \<noteq> 0 then 16 else 0) = b AND (16 :: u8)"
    unfolding p by (rule flag_bit)+
qed

lemma byte1_split: "(if b AND 128 \<noteq> 0 then 128 else 0) OR (b AND 127 AND 127) = (b :: u8)"
proof -
  have "(if b AND 128 \<noteq> 0 then 128 else 0) OR (b AND 127 AND 127) = (b AND 128) OR (b AND 127)"
    by (simp only: flag_bits and.assoc and.idem)
  also have "\<dots> = b AND (128 OR 127)" by (simp only: bit.conj_disj_distrib)
  also have "(128 OR 127 :: u8) = - 1" by code_simp
  finally show ?thesis by simp
qed

lemma byte1_fields:
  "header_byte1 h AND 127 = h_payload_type h AND 127"
  "(header_byte1 h AND 128 \<noteq> 0) = h_marker h"
  by (simp_all add: header_byte1_def word_ao_dist and.assoc)

lemma byte0_split:
  "drop_bit 6 b AND 3 = 2 \<Longrightarrow>
   push_bit 6 2 OR (if b AND 32 \<noteq> 0 then 32 else 0) OR (if b AND 16 \<noteq> 0 then 16 else 0) OR
   (word_of_nat (unat (b AND 15)) AND 15) = (b :: u8)"
proof -
  assume v: "drop_bit 6 b AND 3 = 2"
  have m: "(192 :: u8) = push_bit 6 (mask 2)" "(3 :: u8) = mask 2" by (simp_all add: mask_eq_exp_minus_1)
  have "b AND 192 = push_bit 6 (drop_bit 6 b AND 3)"
    unfolding m by (rule bit_word_eqI) (auto simp: bit_simps)
  moreover have "word_of_nat (unat (b AND 15)) AND 15 = b AND 15" by (simp add: and.assoc)
  ultimately have "push_bit 6 2 OR (if b AND 32 \<noteq> 0 then 32 else 0) OR (if b AND 16 \<noteq> 0 then 16 else 0) OR
   (word_of_nat (unat (b AND 15)) AND 15) = (b AND 192) OR (b AND 32) OR (b AND 16) OR (b AND 15)"
    by (simp only: flag_bits v)
  also have "\<dots> = b AND (192 OR 32 OR 16 OR 15)" by (simp only: bit.conj_disj_distrib)
  also have "(192 OR 32 OR 16 OR 15 :: u8) = - 1" by code_simp
  finally show ?thesis by simp
qed

lemma and_15_le: "unat (b AND 15 :: u8) \<le> 15"
proof -
  have "b AND 15 \<le> (15 :: u8)" by (rule word_and_le1)
  then show ?thesis by (simp add: word_le_nat_alt)
qed

lemma and_127_idem [simp]: "b AND 127 AND 127 = b AND (127 :: u8)"
  by (simp add: and.assoc)

section \<open>The CSRC list\<close>

lemma be32_at_concat:
  "i < length ws \<Longrightarrow> length xs = k \<Longrightarrow>
   be32_at (xs @ concat (map be32 ws) @ ys) (k + i * 4) = ws ! i"
proof (induction ws arbitrary: xs i k)
  case Nil
  then show ?case by simp
next
  case (Cons w ws)
  show ?case
  proof (cases i)
    case 0
    with Cons.prems show ?thesis
      using be32_at_append [of xs k w "concat (map be32 ws) @ ys"] by simp
  next
    case (Suc j)
    with Cons.prems have "be32_at ((xs @ be32 w) @ concat (map be32 ws) @ ys) ((k + 4) + j * 4) = ws ! j"
      by (intro Cons.IH) simp_all
    with Suc show ?thesis by (simp add: algebra_simps)
  qed
qed

lemma concat_be32_at:
  "k + n * 4 \<le> length data \<Longrightarrow>
   concat (map be32 (map (\<lambda>i. be32_at data (k + i * 4)) [0..<n])) = sub_range data k (k + n * 4)"
proof (induction n)
  case 0
  then show ?case by (simp add: sub_range_def)
next
  case (Suc n)
  have "be32 (be32_at data (k + n * 4)) = sub_range data (k + n * 4) (k + n * 4 + 4)"
    using Suc.prems by (intro sub_range_be32) simp
  with Suc take_add [of "n * 4" 4 "drop k data"] show ?case
    by (simp add: sub_range_def algebra_simps)
qed

section \<open>Round trips\<close>

lemma RtpHeader_parse_wf:
  assumes "RtpHeader_parse data = Some h"
  shows "wf_header h"
  using assms and_15_le [of "data ! 0"]
  by (auto simp: RtpHeader_parse_def wf_header_def wf_extension_def Let_def be16_at_def
      nth_sub_range split: if_splits)

lemma RtpHeader_parse_length:
  assumes "RtpHeader_parse data = Some h"
  shows "header_length h \<le> length data \<and> 12 \<le> header_length h"
  using assms
  by (auto simp: RtpHeader_parse_def header_length_def Let_def algebra_simps split: if_splits)

lemma fixed_part_bytes:
  assumes "12 \<le> length data"
  shows "[data ! 0, data ! 1] @ be16 (be16_at data 2) @ be32 (be32_at data 4) @
    be32 (be32_at data 8) = take 12 data"
proof -
  have t: "take 12 data = take 8 data @ sub_range data 8 12"
    "take 8 data = take 4 data @ sub_range data 4 8"
    "take 4 data = take 2 data @ sub_range data 2 4"
    by (simp_all add: take_append_sub_range)
  have w: "be16 (be16_at data 2) = sub_range data 2 4" "be32 (be32_at data 4) = sub_range data 4 8"
    "be32 (be32_at data 8) = sub_range data 8 12"
    using assms sub_range_be16 [of 2 data] sub_range_be32 [of 4 data] sub_range_be32 [of 8 data]
    by simp_all
  have "[data ! 0, data ! 1] = take 2 data"
    using assms by (simp add: take_2_nth)
  with t w show ?thesis by (simp only: append.assoc)
qed

lemma RtpHeader_to_bytes_parse:
  assumes "RtpHeader_parse data = Some h"
  shows "RtpHeader_to_bytes h = take (header_length h) data"
proof -
  define n where "n = unat (data ! 0 AND 15)"
  define c where "c = 12 + n * 4"
  define e where "e = c + 4 + unat (be16_at data (c + 2)) * 4"
  have len: "12 \<le> length data" "c \<le> length data"
    and v: "drop_bit 6 (data ! 0) AND 3 = 2"
    using assms by (auto simp: RtpHeader_parse_def Let_def c_def n_def split: if_splits)
  have csrc: "h_csrc h = map (\<lambda>i. be32_at data (12 + i * 4)) [0..<n]"
    and rest: "h_version h = 2" "h_padding h = (data ! 0 AND 32 \<noteq> 0)"
      "h_extension h = (data ! 0 AND 16 \<noteq> 0)" "h_marker h = (data ! 1 AND 128 \<noteq> 0)"
      "h_payload_type h = data ! 1 AND 127" "h_sequence h = be16_at data 2"
      "h_timestamp h = be32_at data 4" "h_ssrc h = be32_at data 8"
    using assms by (auto simp: RtpHeader_parse_def Let_def n_def split: if_splits)
  have ext: "h_extension_data h = None \<or> h_extension_data h = Some (sub_range data c e) \<and> e \<le> length data"
    using assms by (auto simp: RtpHeader_parse_def Let_def n_def c_def e_def split: if_splits)
  have "length (h_csrc h) = n" by (simp add: csrc)
  then have b0: "header_byte0 h = data ! 0"
    using byte0_split [OF v] by (simp add: header_byte0_def rest n_def)
  have b1: "header_byte1 h = data ! 1"
    using byte1_split [of "data ! 1"] by (simp add: header_byte1_def rest)
  have cs: "concat (map be32 (h_csrc h)) = sub_range data 12 c"
    using concat_be32_at [of 12 n data] len by (simp add: csrc c_def)
  have pre: "[header_byte0 h, header_byte1 h] @ be16 (h_sequence h) @ be32 (h_timestamp h) @
      be32 (h_ssrc h) = take 12 data"
    using fixed_part_bytes [OF len(1)] by (simp add: b0 b1 rest)
  have "take 12 data @ sub_range data 12 c = take c data"
    by (rule take_append_sub_range) (simp add: c_def)
  with pre cs have "RtpHeader_to_bytes h = take c data @
      (case h_extension_data h of None \<Rightarrow> [] | Some ext \<Rightarrow> ext)"
    unfolding RtpHeader_to_bytes_def by (metis append.assoc)
  moreover have "take c data @ sub_range data c e = take e data"
    by (rule take_append_sub_range) (simp add: e_def)
  ultimately show ?thesis
    using ext len \<open>length (h_csrc h) = n\<close>
    by (auto simp: header_length_def c_def e_def min_def add.assoc)
qed

lemma to_bytes_reads:
  fixes h rest
  defines "d \<equiv> RtpHeader_to_bytes h @ rest"
  shows "d ! 0 = header_byte0 h" "d ! Suc 0 = header_byte1 h" "be16_at d 2 = h_sequence h"
    "be32_at d 4 = h_timestamp h" "be32_at d 8 = h_ssrc h"
    "i < length (h_csrc h) \<Longrightarrow> be32_at d (12 + i * 4) = h_csrc h ! i"
proof -
  let ?bs = "[header_byte0 h, header_byte1 h]"
  let ?tl = "case h_extension_data h of None \<Rightarrow> [] | Some ext \<Rightarrow> ext"
  let ?cs = "concat (map be32 (h_csrc h))"
  show "d ! 0 = header_byte0 h" "d ! Suc 0 = header_byte1 h"
    by (simp_all add: d_def RtpHeader_to_bytes_def)
  have "d = ?bs @ be16 (h_sequence h) @ (be32 (h_timestamp h) @ be32 (h_ssrc h) @ ?cs @ ?tl @ rest)"
    by (simp add: d_def RtpHeader_to_bytes_def)
  then show "be16_at d 2 = h_sequence h" by (simp only:) (rule be16_at_append, simp)
  have "d = (?bs @ be16 (h_sequence h)) @ be32 (h_timestamp h) @ (be32 (h_ssrc h) @ ?cs @ ?tl @ rest)"
    by (simp add: d_def RtpHeader_to_bytes_def)
  then show "be32_at d 4 = h_timestamp h" by (simp only:) (rule be32_at_append, simp)
  have "d = (?bs @ be16 (h_sequence h) @ be32 (h_timestamp h)) @ be32 (h_ssrc h) @ (?cs @ ?tl @ rest)"
    by (simp add: d_def RtpHeader_to_bytes_def)
  then show "be32_at d 8 = h_ssrc h" by (simp only:) (rule be32_at_append, simp)
  have "d = (?bs @ be16 (h_sequence h) @ be32 (h_timestamp h) @ be32 (h_ssrc h)) @ ?cs @ (?tl @ rest)"
    by (simp add: d_def RtpHeader_to_bytes_def)
  then show "i < length (h_csrc h) \<Longrightarrow> be32_at d (12 + i * 4) = h_csrc h ! i"
    by (simp only:) (rule be32_at_concat, simp_all)
qed

lemma to_bytes_extension:
  assumes "h_extension_data h = Some ext" "wf_extension ext" "c = 12 + length (h_csrc h) * 4"
  shows "be16_at (RtpHeader_to_bytes h @ rest) (c + 2) = be16_at ext 2"
    and "sub_range (RtpHeader_to_bytes h @ rest) c (c + length ext) = ext"
proof -
  define pre where "pre = [header_byte0 h, header_byte1 h] @ be16 (h_sequence h) @
    be32 (h_timestamp h) @ be32 (h_ssrc h) @ concat (map be32 (h_csrc h))"
  have d: "RtpHeader_to_bytes h @ rest = pre @ ext @ rest" and c: "length pre = c"
    using assms by (simp_all add: RtpHeader_to_bytes_def pre_def)
  show "be16_at (RtpHeader_to_bytes h @ rest) (c + 2) = be16_at ext 2"
    using assms(2) by (simp add: d be16_at_def nth_append c wf_extension_def)
  show "sub_range (RtpHeader_to_bytes h @ rest) c (c + length ext) = ext"
    by (simp add: d c)
qed

lemma RtpHeader_parse_to_bytes:
  assumes wf: "wf_header h"
  shows "RtpHeader_parse (RtpHeader_to_bytes h @ rest) = Some h"
proof -
  let ?d = "RtpHeader_to_bytes h @ rest"
  let ?n = "length (h_csrc h)"
  have f: "h_version h = 2" "?n \<le> 15" "h_payload_type h AND 127 = h_payload_type h"
    "h_csrc_count h = word_of_nat ?n"
    using wf by (simp_all add: wf_header_def)
  note b0 = byte0_fields [OF f(1,2)]
  have cs: "map (\<lambda>i. be32_at ?d (12 + i * 4)) [0..<?n] = h_csrc h"
    by (rule nth_equalityI) (simp_all add: to_bytes_reads)
  have len: "length ?d = header_length h + length rest" by simp
  show ?thesis
  proof (cases "h_extension_data h")
    case None
    with wf have "\<not> h_extension h" by (simp add: wf_header_def)
    with None len cs b0 show ?thesis
      by (auto simp: RtpHeader_parse_def to_bytes_reads byte1_fields f header_length_def
          intro!: RtpHeader.equality)
  next
    case (Some ext)
    with wf have x: "h_extension h" "wf_extension ext" by (simp_all add: wf_header_def)
    note ex = to_bytes_extension [OF Some x(2) refl, of rest]
    have "length ext = 4 + unat (be16_at ext 2) * 4" using x(2) by (simp add: wf_extension_def)
    with Some len cs b0 x ex show ?thesis
      by (auto simp: RtpHeader_parse_def to_bytes_reads byte1_fields f header_length_def add.assoc
          intro!: RtpHeader.equality)
  qed
qed

section \<open>The header is a wire format\<close>

interpretation rtp_wire: wire_format RtpHeader_to_bytes RtpHeader_parse wf_header header_length
  by unfold_locales
     (simp_all add: RtpHeader_parse_to_bytes RtpHeader_parse_wf RtpHeader_parse_length
       RtpHeader_to_bytes_parse)

lemma RtpPacket_parse_eq:
  "RtpPacket_parse d =
    map_option (\<lambda>h. \<lparr>p_header = h, p_payload = drop (header_length h) d\<rparr>) (RtpHeader_parse d)"
  by (auto simp: RtpPacket_parse_def Let_def not_less dest: RtpHeader_parse_length
      split: option.splits)

lemma parse_rtp_eq:
  "parse_rtp d = map_option (\<lambda>p. (p_header p, p_payload p)) (RtpPacket_parse d)"
proof (cases "RtpHeader_parse d")
  case None
  then show ?thesis by (simp add: parse_rtp_def RtpPacket_parse_eq)
next
  case (Some h)
  from RtpHeader_parse_length [OF Some] have "header_length h \<le> length d" "\<not> length d < 12"
    by simp_all
  with Some show ?thesis by (simp add: parse_rtp_def RtpPacket_parse_eq)
qed

lemma RtpPacket_parse_to_bytes:
  "wf_header (p_header p) \<Longrightarrow> RtpPacket_parse (RtpPacket_to_bytes p) = Some p"
  by (simp add: RtpPacket_parse_eq RtpPacket_to_bytes_def rtp_wire.decode_encode
      rtp_wire.decode_payload)

lemma RtpPacket_simple_to_bytes:
  "pt AND 127 = pt \<Longrightarrow>
   parse_rtp (RtpPacket_to_bytes (RtpPacket_simple pt sq ts ss payload)) =
     Some (RtpHeader_new pt sq ts ss, payload)"
  by (simp add: parse_rtp_eq RtpPacket_parse_to_bytes RtpPacket_simple_def wf_RtpHeader_new)

text \<open>The fields the quick readers take from a serialised header.\<close>

lemma parse_fields_to_bytes:
  "parse_payload_type (RtpHeader_to_bytes h @ d) = Some (h_payload_type h AND 127)"
  "parse_sequence (RtpHeader_to_bytes h @ d) = Some (h_sequence h)"
  "parse_timestamp (RtpHeader_to_bytes h @ d) = Some (h_timestamp h)"
  "parse_ssrc (RtpHeader_to_bytes h @ d) = Some (h_ssrc h)"
  by (simp_all add: parse_payload_type_def parse_sequence_def parse_timestamp_def
      parse_ssrc_def to_bytes_reads header_length_def byte1_fields)

lemma parse_fields_of_header:
  assumes "RtpHeader_parse d = Some h"
  shows "parse_payload_type d = Some (h_payload_type h)" "parse_sequence d = Some (h_sequence h)"
    "parse_timestamp d = Some (h_timestamp h)" "parse_ssrc d = Some (h_ssrc h)"
  using assms
  by (auto simp: RtpHeader_parse_def Let_def parse_payload_type_def parse_sequence_def
      parse_timestamp_def parse_ssrc_def split: if_splits)

section \<open>Properties\<close>

text \<open>C14: serialising a packet with a well-formed header (at most fifteen CSRCs, a coherent
  extension) and parsing the bytes again, by either of the two parsers of the crate, gives
  back the header with all its fields and the payload.\<close>

theorem rtp_packet_roundtrip:
  assumes "wf_header (p_header p)"
  shows "RtpPacket_parse (RtpPacket_to_bytes p) = Some p \<and>
    parse_rtp (RtpPacket_to_bytes p) = Some (p_header p, p_payload p)"
  using assms by (simp add: parse_rtp_eq RtpPacket_parse_to_bytes)

theorem rtp_packet_roundtrip_witness:
  "let h = (RtpHeader_new 111 7 960 3735928559)
         \<lparr>h_csrc_count := 1, h_csrc := [5], h_extension := True,
          h_extension_data := Some [190, 222, 0, 1, 1, 2, 3, 4]\<rparr>;
       p = RtpPacket_new h [9, 9] in
   wf_header h \<and> RtpPacket_parse (RtpPacket_to_bytes p) = Some p \<and>
   parse_rtp (RtpPacket_to_bytes p) = Some (p_header p, p_payload p)"
proof -
  let ?h = "(RtpHeader_new 111 7 960 3735928559)
         \<lparr>h_csrc_count := 1, h_csrc := [5], h_extension := True,
          h_extension_data := Some [190, 222, 0, 1, 1, 2, 3, 4]\<rparr>"
  have wf: "wf_header ?h" by code_simp
  show ?thesis
    using rtp_packet_roundtrip [of "RtpPacket_new ?h [9, 9]"] wf
    by (simp add: RtpPacket_new_def Let_def)
qed

text \<open>C36: parsing loses nothing: whatever datagram the parser accepts is the serialisation
  of what it returned, so a forwarded packet leaves byte for byte as it came, and the parsed
  header is well-formed.\<close>

theorem rtp_parse_lossless:
  assumes "RtpPacket_parse d = Some p"
  shows "RtpPacket_to_bytes p = d \<and> wf_header (p_header p)"
proof -
  obtain h where h: "RtpHeader_parse d = Some h"
      "p = \<lparr>p_header = h, p_payload = drop (header_length h) d\<rparr>"
    using assms by (auto simp: RtpPacket_parse_eq)
  with rtp_wire.decode_split [OF h(1)] rtp_wire.decode_wf [OF h(1)] show ?thesis
    by (simp add: RtpPacket_to_bytes_def)
qed

theorem rtp_parse_lossless_witness:
  "let d = [176, 136, 0, 1, 0, 0, 0, 160, 18, 52, 86, 120, 190, 222, 0, 1, 1, 2, 3, 4, 222, 173] in
   \<exists>p. RtpPacket_parse d = Some p \<and> RtpPacket_to_bytes p = d \<and> wf_header (p_header p)"
proof -
  let ?d = "[176, 136, 0, 1, 0, 0, 0, 160, 18, 52, 86, 120, 190, 222, 0, 1, 1, 2, 3, 4, 222, 173] :: bytes"
  have "RtpPacket_parse ?d \<noteq> None" by code_simp
  then obtain p where "RtpPacket_parse ?d = Some p" by blast
  with rtp_parse_lossless [OF this] show ?thesis by (auto simp: Let_def)
qed

end
