(* ===== verification/Text_Utils.thy ===== *)
theory Text_Utils
  imports Rtp_Prelude
begin

text \<open>
  The string functions of Rust's standard library that the SDP code and the error messages
  use, over ASCII text (a \<open>string\<close> is a list of characters): \<^verbatim>\<open>trim\<close>, \<^verbatim>\<open>lines\<close>, \<^verbatim>\<open>split\<close>,
  \<^verbatim>\<open>splitn\<close>, \<^verbatim>\<open>split_whitespace\<close>, \<^verbatim>\<open>strip_prefix\<close>, the integer parsers and the decimal and
  hexadecimal formats.
\<close>

definition ccode :: "char \<Rightarrow> nat" where
  "ccode c = of_char c"

definition is_ws :: "char \<Rightarrow> bool" where
  "is_ws c \<longleftrightarrow> ccode c = 32 \<or> (9 \<le> ccode c \<and> ccode c \<le> 13)"

definition trim_start :: "string \<Rightarrow> string" where
  "trim_start s = dropWhile is_ws s"

definition trim :: "string \<Rightarrow> string" where
  "trim s = rev (dropWhile is_ws (rev (dropWhile is_ws s)))"

text \<open>\<^verbatim>\<open>split(c)\<close>: always at least one part.\<close>

fun split_on :: "char \<Rightarrow> string \<Rightarrow> string list" where
  "split_on c [] = [[]]"
| "split_on c (x # xs) =
    (if x = c then [] # split_on c xs
     else case split_on c xs of [] \<Rightarrow> [[x]] | p # ps \<Rightarrow> (x # p) # ps)"

text \<open>\<^verbatim>\<open>splitn(n, c)\<close>: the last part is not split further.\<close>

fun splitn :: "nat \<Rightarrow> char \<Rightarrow> string \<Rightarrow> string list" where
  "splitn 0 c s = []"
| "splitn (Suc 0) c s = [s]"
| "splitn (Suc (Suc n)) c s =
    (case dropWhile (\<lambda>x. x \<noteq> c) s of
       [] \<Rightarrow> [s]
     | _ # rest \<Rightarrow> takeWhile (\<lambda>x. x \<noteq> c) s # splitn (Suc n) c rest)"

text \<open>\<^verbatim>\<open>lines()\<close>: a carriage return before the line feed belongs to the line ending, and a
  final line ending does not start another line.\<close>

definition strip_cr :: "string \<Rightarrow> string" where
  "strip_cr s = (if s \<noteq> [] \<and> ccode (last s) = 13 then butlast s else s)"

definition newline :: char where
  "newline = char_of (10 :: nat)"

definition carriage_return :: char where
  "carriage_return = char_of (13 :: nat)"

definition lines_of :: "string \<Rightarrow> string list" where
  "lines_of s =
    (let parts = split_on newline s in
     map strip_cr (butlast parts) @ (if last parts = [] then [] else [last parts]))"

definition split_whitespace :: "string \<Rightarrow> string list" where
  "split_whitespace s = filter (\<lambda>w. w \<noteq> [])
     (split_on (CHR '' '') (map (\<lambda>c. if is_ws c then CHR '' '' else c) s))"

text \<open>\<^verbatim>\<open>split_once(char::is_whitespace)\<close>.\<close>

definition split_once_ws :: "string \<Rightarrow> (string \<times> string) option" where
  "split_once_ws s =
    (case dropWhile (\<lambda>c. \<not> is_ws c) s of
       [] \<Rightarrow> None
     | _ # rest \<Rightarrow> Some (takeWhile (\<lambda>c. \<not> is_ws c) s, rest))"

definition starts_with :: "string \<Rightarrow> string \<Rightarrow> bool" where
  "starts_with s p \<longleftrightarrow> take (length p) s = p"

definition strip_prefix :: "string \<Rightarrow> string \<Rightarrow> string option" where
  "strip_prefix p s = (if starts_with s p then Some (drop (length p) s) else None)"

definition is_upper_char :: "char \<Rightarrow> bool" where
  "is_upper_char c \<longleftrightarrow> 65 \<le> ccode c \<and> ccode c \<le> 90"

definition is_lower_char :: "char \<Rightarrow> bool" where
  "is_lower_char c \<longleftrightarrow> 97 \<le> ccode c \<and> ccode c \<le> 122"

definition is_digit_char :: "char \<Rightarrow> bool" where
  "is_digit_char c \<longleftrightarrow> 48 \<le> ccode c \<and> ccode c \<le> 57"

definition to_upper_char :: "char \<Rightarrow> char" where
  "to_upper_char c = (if is_lower_char c then char_of (ccode c - 32) else c)"

definition to_lower_char :: "char \<Rightarrow> char" where
  "to_lower_char c = (if is_upper_char c then char_of (ccode c + 32) else c)"

definition to_uppercase :: "string \<Rightarrow> string" where
  "to_uppercase = map to_upper_char"

definition to_lowercase :: "string \<Rightarrow> string" where
  "to_lowercase = map to_lower_char"

text \<open>\<^verbatim>\<open>str::parse\<close> for unsigned integers: an optional plus sign, at least one digit, and
  no overflow (\<open>bound\<close> is the first value out of range).\<close>

definition digits_value :: "string \<Rightarrow> nat" where
  "digits_value s = foldl (\<lambda>n c. n * 10 + (ccode c - 48)) 0 s"

definition parse_uint :: "nat \<Rightarrow> string \<Rightarrow> nat option" where
  "parse_uint bound s =
    (let ds = (case s of c # cs \<Rightarrow> if c = CHR ''+'' then cs else s | [] \<Rightarrow> s) in
     if ds \<noteq> [] \<and> list_all is_digit_char ds \<and> digits_value ds < bound
     then Some (digits_value ds) else None)"

definition digit_char :: "nat \<Rightarrow> char" where
  "digit_char n = char_of (if n < 10 then 48 + n else 87 + n)"

fun show_nat :: "nat \<Rightarrow> string" where
  "show_nat n = (if n < 10 then [digit_char n] else show_nat (n div 10) @ [digit_char (n mod 10)])"

declare show_nat.simps [simp del]

text \<open>The format \<^verbatim>\<open>{:04x}\<close> of a 16 bit value.\<close>

definition show_hex4 :: "u16 \<Rightarrow> string" where
  "show_hex4 w = map (\<lambda>k. digit_char (unat (drop_bit k w AND 15))) [12, 8, 4, 0]"

section \<open>Lemmas\<close>

lemma trim_no_ws: "s \<noteq> [] \<Longrightarrow> \<not> is_ws (hd s) \<Longrightarrow> \<not> is_ws (last s) \<Longrightarrow> trim s = s"
proof -
  assume a: "s \<noteq> []" "\<not> is_ws (hd s)" "\<not> is_ws (last s)"
  have "dropWhile is_ws s = s" using a by (cases s) auto
  moreover have "dropWhile is_ws (rev s) = rev s" using a by (cases s rule: rev_cases) auto
  ultimately show ?thesis by (simp add: trim_def)
qed

lemma split_on_no_sep: "c \<notin> set s \<Longrightarrow> split_on c s = [s]"
  by (induction s) auto

lemma split_on_append: "c \<notin> set s \<Longrightarrow> split_on c (s @ c # t) = s # split_on c t"
  by (induction s) auto

lemma split_on_not_Nil [simp]: "split_on c s \<noteq> []"
  by (induction s) (auto split: list.splits)

lemma splitn_sep:
  "c \<notin> set s \<Longrightarrow> splitn (Suc (Suc n)) c (s @ c # t) = s # splitn (Suc n) c t"
proof -
  assume c: "c \<notin> set s"
  then have "takeWhile (\<lambda>x. x \<noteq> c) (s @ c # t) = s" "dropWhile (\<lambda>x. x \<noteq> c) (s @ c # t) = c # t"
    by (induction s) auto
  then show ?thesis by simp
qed

lemma strip_prefix_append [simp]: "strip_prefix p (p @ s) = Some s"
  by (simp add: strip_prefix_def starts_with_def)

text \<open>The line of an SDP text that ends in a carriage return and a line feed.\<close>

definition crlf :: "string \<Rightarrow> string" where
  "crlf line = line @ [carriage_return, newline]"

lemma lines_of_crlf: "newline \<notin> set line \<Longrightarrow> lines_of (crlf line @ rest) = line # lines_of rest"
proof -
  assume "newline \<notin> set line"
  moreover have ne: "newline \<noteq> carriage_return" by code_simp
  ultimately have "newline \<notin> set (line @ [carriage_return])" by simp
  from split_on_append [OF this, of rest]
  have "split_on newline (crlf line @ rest) = (line @ [carriage_return]) # split_on newline rest"
    by (simp add: crlf_def)
  moreover have "strip_cr (line @ [carriage_return]) = line"
    by (simp add: strip_cr_def carriage_return_def ccode_def)
  ultimately show ?thesis by (simp add: lines_of_def Let_def)
qed

lemma lines_of_Nil [simp]: "lines_of [] = []"
  by (simp add: lines_of_def Let_def)

lemma lines_of_concat_crlf:
  "\<forall>l\<in>set ls. newline \<notin> set l \<Longrightarrow> lines_of (concat (map crlf ls)) = ls"
  by (induction ls) (simp_all add: lines_of_crlf)

lemma split_whitespace_word:
  assumes "w \<noteq> []" "\<forall>c\<in>set w. \<not> is_ws c"
  shows "split_whitespace (w @ CHR '' '' # rest) = w # split_whitespace rest"
    and "split_whitespace w = [w]"
proof -
  have sp: "is_ws (CHR '' '')" by code_simp
  have id: "map (\<lambda>c. if is_ws c then CHR '' '' else c) w = w"
    using assms(2) by (induction w) auto
  have n: "CHR '' '' \<notin> set w" using assms(2) sp by auto
  show "split_whitespace (w @ CHR '' '' # rest) = w # split_whitespace rest"
    using assms(1) sp by (simp add: split_whitespace_def id split_on_append [OF n])
  show "split_whitespace w = [w]"
    using assms(1) by (simp add: split_whitespace_def id split_on_no_sep [OF n])
qed

lemma split_once_ws_word:
  "\<forall>c\<in>set w. \<not> is_ws c \<Longrightarrow> is_ws s \<Longrightarrow> split_once_ws (w @ s # rest) = Some (w, rest)"
proof -
  assume w: "\<forall>c\<in>set w. \<not> is_ws c" and s: "is_ws s"
  then have "dropWhile (\<lambda>c. \<not> is_ws c) (w @ s # rest) = s # rest"
    "takeWhile (\<lambda>c. \<not> is_ws c) (w @ s # rest) = w"
    by (induction w) auto
  then show ?thesis by (simp add: split_once_ws_def)
qed

end
