(* ===== verification/Errors.thy ===== *)
theory Errors
  imports Text_Utils
begin

text \<open>
  The error type of the crate, \<^verbatim>\<open>src/src/error.rs\<close>.  A fallible operation returns
  \<open>error + 'a\<close>, with \<open>Inl\<close> for \<^verbatim>\<open>Err\<close>.  An \<^verbatim>\<open>io::Error\<close> is kept as its kind, which is all
  the crate looks at.
\<close>

datatype io_error_kind = ConnectionReset | ConnectionRefused | OtherIo string

datatype error =
    Codec string
  | Rtp string
  | Rtcp string
  | Srtp string
  | SrtpReplay
  | Device string
  | Network io_error_kind
  | Stun string
  | InvalidParameter string

definition io_message :: "io_error_kind \<Rightarrow> string" where
  "io_message k =
    (case k of ConnectionReset \<Rightarrow> ''connection reset'' | ConnectionRefused \<Rightarrow> ''connection refused''
     | OtherIo s \<Rightarrow> s)"

text \<open>The \<^verbatim>\<open>Display\<close> texts of the \<^verbatim>\<open>#[error(...)]\<close> attributes.\<close>

fun error_display :: "error \<Rightarrow> string" where
  "error_display (Codec m) = ''codec error: '' @ m"
| "error_display (Rtp m) = ''RTP error: '' @ m"
| "error_display (Rtcp m) = ''RTCP error: '' @ m"
| "error_display (Srtp m) = ''SRTP error: '' @ m"
| "error_display SrtpReplay = ''SRTP replay: packet already received or outside the replay window''"
| "error_display (Device m) = ''device error: '' @ m"
| "error_display (Network k) = ''network error: '' @ io_message k"
| "error_display (Stun m) = ''STUN error: '' @ m"
| "error_display (InvalidParameter m) = ''invalid parameter: '' @ m"

definition is_ok :: "error + 'a \<Rightarrow> bool" where
  "is_ok r \<longleftrightarrow> (case r of Inl _ \<Rightarrow> False | Inr _ \<Rightarrow> True)"

lemma is_ok_simps [simp]: "is_ok (Inr x)" "\<not> is_ok (Inl e)"
  by (simp_all add: is_ok_def)

end
