(* ===== verification/Srtp_Crypto.thy ===== *)
theory Srtp_Crypto
  imports Rtp_Header Errors
begin

text \<open>
  The cryptographic plumbing of \<^verbatim>\<open>src/src/srtp.rs\<close>: initialisation vectors, key derivation,
  the counter mode cipher and the authentication tags.  AES itself and HMAC-SHA1 are other
  crates' code and stay parameters: \<open>ks key iv i\<close> is byte \<open>i\<close> of the AES-CTR key stream
  for a key and an initial counter block, \<open>mac key message\<close> the 20 byte HMAC.
\<close>

type_synonym keystream = "bytes \<Rightarrow> bytes \<Rightarrow> nat \<Rightarrow> u8"
type_synonym hmac = "bytes \<Rightarrow> bytes \<Rightarrow> bytes"

definition AUTH_TAG_LEN :: nat where "AUTH_TAG_LEN = 10"
definition MASTER_KEY_LEN :: nat where "MASTER_KEY_LEN = 16"
definition MASTER_SALT_LEN :: nat where "MASTER_SALT_LEN = 14"
definition KEYING_MATERIAL_LEN :: nat where
  "KEYING_MATERIAL_LEN = MASTER_KEY_LEN + MASTER_SALT_LEN"
definition SESSION_KEY_LEN :: nat where "SESSION_KEY_LEN = 16"
definition SESSION_SALT_LEN :: nat where "SESSION_SALT_LEN = 14"
definition SESSION_AUTH_KEY_LEN :: nat where "SESSION_AUTH_KEY_LEN = 20"

definition LABEL_RTP_CIPHER :: u8 where "LABEL_RTP_CIPHER = 0"
definition LABEL_RTP_AUTH :: u8 where "LABEL_RTP_AUTH = 1"
definition LABEL_RTP_SALT :: u8 where "LABEL_RTP_SALT = 2"
definition LABEL_RTCP_CIPHER :: u8 where "LABEL_RTCP_CIPHER = 3"
definition LABEL_RTCP_AUTH :: u8 where "LABEL_RTCP_AUTH = 4"
definition LABEL_RTCP_SALT :: u8 where "LABEL_RTCP_SALT = 5"

section \<open>Header length\<close>

definition rtp_header_len :: "bytes \<Rightarrow> nat option" where
  "rtp_header_len packet =
    (if packet = [] then None
     else
      let cc = unat (packet ! 0 AND 15);
          len = 12 + cc * 4 in
      if packet ! 0 AND 16 \<noteq> 0 then
        (case get_range packet (len + 2) (len + 4) of
           None \<Rightarrow> None
         | Some words \<Rightarrow>
             let len = len + 4 + unat (from_be16 (words ! 0) (words ! 1)) * 4 in
             if length packet \<ge> len then Some len else None)
      else if length packet \<ge> len then Some len else None)"

section \<open>Initialisation vectors\<close>

text \<open>\<^verbatim>\<open>for i in 0..SESSION_SALT_LEN { iv[i] ^= session_salt[i]; }\<close>\<close>

definition xor_salt :: "bytes \<Rightarrow> bytes \<Rightarrow> bytes" where
  "xor_salt iv salt =
     map (\<lambda>i. if i < SESSION_SALT_LEN then iv ! i XOR salt ! i else iv ! i) [0..<length iv]"

definition build_iv :: "bytes \<Rightarrow> u32 \<Rightarrow> u32 \<Rightarrow> u16 \<Rightarrow> bytes" where
  "build_iv session_salt ssrc roc seq =
     xor_salt ([0, 0, 0, 0] @ be32 ssrc @ be32 roc @ be16 seq @ [0, 0]) session_salt"

definition build_rtcp_iv :: "bytes \<Rightarrow> u32 \<Rightarrow> u32 \<Rightarrow> bytes" where
  "build_rtcp_iv session_salt ssrc index =
     xor_salt ([0, 0, 0, 0] @ be32 ssrc @ [0, 0] @ be32 index @ [0, 0]) session_salt"

section \<open>Cipher and tags\<close>

definition xor_stream :: "(nat \<Rightarrow> u8) \<Rightarrow> bytes \<Rightarrow> bytes" where
  "xor_stream stream data = map2 (\<lambda>b i. b XOR stream i) data [0..<length data]"

definition aes_128_cm_encrypt :: "keystream \<Rightarrow> bytes \<Rightarrow> bytes \<Rightarrow> bytes \<Rightarrow> bytes" where
  "aes_128_cm_encrypt ks key iv data = xor_stream (ks key iv) data"

definition compute_rtp_auth_tag :: "hmac \<Rightarrow> bytes \<Rightarrow> bytes \<Rightarrow> u32 \<Rightarrow> bytes" where
  "compute_rtp_auth_tag mac auth_key authenticated_portion roc =
     take AUTH_TAG_LEN (mac auth_key (authenticated_portion @ be32 roc))"

definition compute_rtcp_auth_tag :: "hmac \<Rightarrow> bytes \<Rightarrow> bytes \<Rightarrow> bytes" where
  "compute_rtcp_auth_tag mac auth_key authenticated_portion =
     take AUTH_TAG_LEN (mac auth_key authenticated_portion)"

definition constant_time_eq :: "bytes \<Rightarrow> bytes \<Rightarrow> bool" where
  "constant_time_eq a b \<longleftrightarrow> length a = length b \<and> list_all2 (=) a b"

section \<open>Key derivation\<close>

definition prf_iv :: "bytes \<Rightarrow> u8 \<Rightarrow> bytes" where
  "prf_iv master_salt label =
     map (\<lambda>i. (if i = 7 then label else 0) XOR master_salt ! i) [0..<14] @ [0, 0]"

definition prf_aes_cm :: "keystream \<Rightarrow> bytes \<Rightarrow> bytes \<Rightarrow> u8 \<Rightarrow> nat \<Rightarrow> error + bytes" where
  "prf_aes_cm ks master_key master_salt label n =
    (if length master_key \<noteq> 16
     then Inl (Srtp (''AES-CM master key must be 16 bytes, got '' @ show_nat (length master_key)))
     else Inr (xor_stream (ks master_key (prf_iv master_salt label)) (replicate n 0)))"

definition derive_session_key :: "keystream \<Rightarrow> bytes \<Rightarrow> bytes \<Rightarrow> u8 \<Rightarrow> error + bytes" where
  "derive_session_key ks master_key master_salt label =
     prf_aes_cm ks master_key master_salt label SESSION_KEY_LEN"

definition derive_session_salt :: "keystream \<Rightarrow> bytes \<Rightarrow> bytes \<Rightarrow> u8 \<Rightarrow> error + bytes" where
  "derive_session_salt ks master_key master_salt label =
     prf_aes_cm ks master_key master_salt label SESSION_SALT_LEN"

definition derive_session_auth_key :: "keystream \<Rightarrow> bytes \<Rightarrow> bytes \<Rightarrow> u8 \<Rightarrow> error + bytes" where
  "derive_session_auth_key ks master_key master_salt label =
     prf_aes_cm ks master_key master_salt label SESSION_AUTH_KEY_LEN"

section \<open>The contract of a stream cipher\<close>

text \<open>Encryption is its own inverse and keeps the length: all that decryption relies on.\<close>

locale involutive_cipher =
  fixes cipher :: "bytes \<Rightarrow> bytes \<Rightarrow> bytes \<Rightarrow> bytes"
  assumes cipher_twice: "cipher key iv (cipher key iv data) = data"
    and cipher_length: "length (cipher key iv data) = length data"
begin

lemma cipher_inj: "cipher key iv x = cipher key iv y \<Longrightarrow> x = y"
  by (metis cipher_twice)

lemma cipher_tail:
  "n \<le> length p \<Longrightarrow>
   let out = take n p @ cipher key iv (drop n p) in
     take n out @ cipher key iv (drop n out) = p \<and> length out = length p"
  by (simp add: cipher_twice cipher_length)

end

lemma length_xor_stream [simp]: "length (xor_stream s d) = length d"
  by (simp add: xor_stream_def)

lemma nth_xor_stream [simp]: "i < length d \<Longrightarrow> xor_stream s d ! i = d ! i XOR s i"
  by (simp add: xor_stream_def)

lemma xor_stream_twice [simp]: "xor_stream s (xor_stream s d) = d"
  by (rule nth_equalityI) (simp_all add: xor.assoc)

interpretation aes_cm: involutive_cipher "aes_128_cm_encrypt ks" for ks
  by unfold_locales (simp_all add: aes_128_cm_encrypt_def)

lemma constant_time_eq_iff [simp]: "constant_time_eq a b \<longleftrightarrow> a = b"
  by (auto simp: constant_time_eq_def list.rel_eq)

section \<open>Header length and the header parser\<close>

text \<open>The length depends on the bytes of the header only.\<close>

lemma rtp_header_len_bounds:
  "rtp_header_len p = Some n \<Longrightarrow> 12 \<le> n \<and> n \<le> length p"
  by (auto simp: rtp_header_len_def Let_def split: if_splits option.splits)

lemma rtp_header_len_prefix:
  assumes "rtp_header_len p = Some n"
  shows "rtp_header_len (take n p @ q) = Some n"
proof -
  let ?l = "12 + unat (p ! 0 AND 15) * 4"
  note b = rtp_header_len_bounds [OF assms]
  have p0: "(take n p @ q) ! 0 = p ! 0" "p \<noteq> []" using b by (auto simp: nth_append)
  show ?thesis
  proof (cases "p ! 0 AND 16 = 0")
    case True
    with assms p0 b show ?thesis
      by (auto simp: rtp_header_len_def Let_def split: if_splits)
  next
    case False
    with assms p0 have n: "?l + 4 \<le> length p" "n = ?l + 4 + unat (be16_at p (?l + 2)) * 4"
      by (auto simp: rtp_header_len_def Let_def get_range_def be16_at_def nth_sub_range
          split: if_splits)
    then have "be16_at (take n p @ q) (?l + 2) = be16_at p (?l + 2)"
      using b by (simp add: be16_at_def nth_append)
    with False p0 n b show ?thesis
      by (simp add: rtp_header_len_def Let_def get_range_def be16_at_def nth_sub_range)
  qed
qed

text \<open>Where the RTP parser accepts a packet, both modules agree on where its payload starts.\<close>

lemma rtp_header_len_parse:
  assumes "RtpHeader_parse p = Some h"
  shows "rtp_header_len p = Some (header_length h)"
  using assms
  by (auto simp: RtpHeader_parse_def rtp_header_len_def header_length_def Let_def get_range_def
      nth_sub_range be16_at_def algebra_simps split: if_splits)

section \<open>Distinct initialisation vectors\<close>

lemma xor_salt_inj:
  assumes "xor_salt x salt = xor_salt y salt" "length x = length y"
  shows "x = y"
proof (rule nth_equalityI [OF assms(2)])
  fix i assume "i < length x"
  then have "xor_salt x salt ! i = xor_salt y salt ! i" "i < length y"
    using assms by simp_all
  with \<open>i < length x\<close> show "x ! i = y ! i"
    by (auto simp: xor_salt_def xor_cancel_right split: if_splits)
qed

lemma build_iv_inj:
  "build_iv salt ssrc roc seq = build_iv salt ssrc' roc' seq' \<longleftrightarrow>
   ssrc = ssrc' \<and> roc = roc' \<and> seq = seq'"
  by (auto simp: build_iv_def dest!: xor_salt_inj)

lemma build_rtcp_iv_inj:
  "build_rtcp_iv salt ssrc index = build_rtcp_iv salt ssrc' index' \<longleftrightarrow>
   ssrc = ssrc' \<and> index = index'"
  by (auto simp: build_rtcp_iv_def dest!: xor_salt_inj)

lemma prf_iv_inj: "prf_iv salt l = prf_iv salt l' \<longleftrightarrow> l = l'"
proof
  assume "prf_iv salt l = prf_iv salt l'"
  then have "prf_iv salt l ! 7 = prf_iv salt l' ! 7" by simp
  then show "l = l'" by (simp add: prf_iv_def nth_append xor_cancel_right)
qed simp

lemma length_prf: "prf_aes_cm ks k s l n = Inr out \<Longrightarrow> length out = n"
  by (auto simp: prf_aes_cm_def split: if_splits)

lemma length_rtp_tag: "length (mac k m) = 20 \<Longrightarrow> length (take AUTH_TAG_LEN (mac k m)) = AUTH_TAG_LEN"
  by (simp add: AUTH_TAG_LEN_def)

end
