(* ===== verification/Replay_Window.thy ===== *)
theory Replay_Window
  imports Rtp_Prelude
begin

text \<open>
  The sliding replay window of \<^verbatim>\<open>src/src/srtp.rs\<close> (RFC 3711, section 3.3.2): the highest
  packet index accepted so far and a bitmap of the 64 indices at and below it.  Its
  specification is the set of all indices accepted so far; \<open>window_rel\<close> relates the two,
  and the locale \<open>replay_filter\<close> is what the SRTP and the SRTCP receive paths rely on.
\<close>

section \<open>The window\<close>

definition REPLAY_WINDOW :: u64 where
  "REPLAY_WINDOW = 64"

record ReplayWindow =
  w_highest :: "u64 option"
  w_seen :: u64

definition ReplayWindow_default :: ReplayWindow where
  "ReplayWindow_default = \<lparr>w_highest = None, w_seen = 0\<rparr>"

text \<open>\<^verbatim>\<open>1 << n\<close> on 64 bits: the shift amount is taken modulo the width.\<close>

definition one_shl :: "u64 \<Rightarrow> u64" where
  "one_shl n = push_bit (unat n mod 64) 1"

definition admits :: "ReplayWindow \<Rightarrow> u64 \<Rightarrow> bool" where
  "admits w index =
    (case w_highest w of
       None \<Rightarrow> True
     | Some highest \<Rightarrow>
         if index > highest then True
         else let behind = highest - index in
           behind < REPLAY_WINDOW \<and> w_seen w AND one_shl behind = 0)"

definition accept :: "ReplayWindow \<Rightarrow> u64 \<Rightarrow> ReplayWindow" where
  "accept w index =
    (case w_highest w of
       Some highest \<Rightarrow>
         if index \<le> highest then w\<lparr>w_seen := w_seen w OR one_shl (highest - index)\<rparr>
         else
           let ahead = index - highest;
               seen = (if ahead \<ge> REPLAY_WINDOW then 0 else push_bit (unat ahead) (w_seen w)) in
           w\<lparr>w_seen := seen OR 1, w_highest := Some index\<rparr>
     | None \<Rightarrow> w\<lparr>w_seen := 1, w_highest := Some index\<rparr>)"

section \<open>The contract of a replay filter\<close>

text \<open>
  A filter that is asked whether it admits an index and told which it accepted, together
  with the set of indices its state stands for.
\<close>

locale replay_filter =
  fixes blank :: 'w
    and num :: "'i \<Rightarrow> nat"
    and admitted :: "'w \<Rightarrow> 'i \<Rightarrow> bool"
    and record_index :: "'w \<Rightarrow> 'i \<Rightarrow> 'w"
    and stands_for :: "'w \<Rightarrow> nat set \<Rightarrow> bool"
  assumes blank_empty: "stands_for blank {}"
    and admitted_fresh: "stands_for w S \<Longrightarrow> admitted w i \<Longrightarrow> num i \<notin> S"
    and record_insert:
      "stands_for w S \<Longrightarrow> admitted w i \<Longrightarrow> stands_for (record_index w i) (insert (num i) S)"
    and newer_admitted: "stands_for w S \<Longrightarrow> \<forall>j\<in>S. j < num i \<Longrightarrow> admitted w i"
begin

text \<open>Offering a list of indices one after the other: those that were admitted, in order.\<close>

fun offer :: "'w \<Rightarrow> 'i list \<Rightarrow> 'i list" where
  "offer w [] = []"
| "offer w (i # is) = (if admitted w i then i # offer (record_index w i) is else offer w is)"

lemma offer_fresh: "stands_for w S \<Longrightarrow> num ` set (offer w is) \<inter> S = {}"
proof (induction "is" arbitrary: w S)
  case Nil
  then show ?case by simp
next
  case (Cons i "is")
  show ?case
  proof (cases "admitted w i")
    case True
    with Cons have "num ` set (offer (record_index w i) is) \<inter> insert (num i) S = {}"
      using record_insert by blast
    with True Cons.prems admitted_fresh show ?thesis by auto
  next
    case False
    with Cons show ?thesis by simp
  qed
qed

lemma offer_distinct: "stands_for w S \<Longrightarrow> distinct (map num (offer w is))"
proof (induction "is" arbitrary: w S)
  case Nil
  then show ?case by simp
next
  case (Cons i "is")
  show ?case
  proof (cases "admitted w i")
    case True
    with Cons.prems have "stands_for (record_index w i) (insert (num i) S)"
      by (rule record_insert)
    with True Cons.IH offer_fresh show ?thesis by fastforce
  next
    case False
    with Cons show ?thesis by auto
  qed
qed

lemma offer_increasing:
  "stands_for w S \<Longrightarrow> sorted_wrt (\<lambda>i j. num i < num j) is \<Longrightarrow>
   \<forall>i\<in>set is. \<forall>j\<in>S. j < num i \<Longrightarrow> offer w is = is"
proof (induction "is" arbitrary: w S)
  case Nil
  then show ?case by simp
next
  case (Cons i "is")
  then have "admitted w i" using newer_admitted by simp
  moreover from this Cons.prems have "offer (record_index w i) is = is"
    by (intro Cons.IH [of _ "insert (num i) S"] record_insert) auto
  ultimately show ?case by simp
qed

end

section \<open>The window implements the set\<close>

definition window_rel :: "ReplayWindow \<Rightarrow> nat set \<Rightarrow> bool" where
  "window_rel w S \<longleftrightarrow>
    (case w_highest w of
       None \<Rightarrow> S = {} \<and> w_seen w = 0
     | Some h \<Rightarrow> unat h \<in> S \<and> (\<forall>i\<in>S. i \<le> unat h) \<and>
         (\<forall>k<64. bit (w_seen w) k \<longleftrightarrow> k \<le> unat h \<and> unat h - k \<in> S))"

lemma window_rel_default: "window_rel ReplayWindow_default {}"
  by (simp add: window_rel_def ReplayWindow_default_def)

lemma and_one_shl: "(x AND one_shl n = 0) \<longleftrightarrow> \<not> bit x (unat n mod 64)"
  by (simp add: one_shl_def push_bit_eq_mult and_exp_eq_0_iff_not_bit)

lemma bit_one_shl: "k < 64 \<Longrightarrow> bit (one_shl n) k \<longleftrightarrow> k = unat n mod 64"
  by (auto simp: one_shl_def bit_simps)

lemma unat_behind: "i \<le> (h :: u64) \<Longrightarrow> unat (h - i) = unat h - unat i"
  by (rule unat_sub)

text \<open>What the window admits, in terms of the set it stands for.\<close>

lemma admits_iff:
  assumes rel: "window_rel w S"
  shows "admits w i \<longleftrightarrow>
    (\<forall>h. w_highest w = Some h \<longrightarrow> unat h < unat i \<or> (unat h - unat i < 64 \<and> unat i \<notin> S))"
proof (cases "w_highest w")
  case None
  then show ?thesis by (simp add: admits_def)
next
  case (Some h)
  show ?thesis
  proof (cases "h < i")
    case True
    with Some show ?thesis by (simp add: admits_def word_less_nat_alt)
  next
    case False
    then have le: "i \<le> h" by simp
    then have le': "unat i \<le> unat h" by (simp add: word_le_nat_alt)
    have small: "h - i < REPLAY_WINDOW \<longleftrightarrow> unat h - unat i < 64"
      by (simp add: word_less_nat_alt REPLAY_WINDOW_def unat_behind [OF le])
    have "bit (w_seen w) (unat h - unat i) \<longleftrightarrow> unat i \<in> S" if "unat h - unat i < 64"
      using rel Some that le' by (simp add: window_rel_def)
    with False Some small le' show ?thesis
      by (auto simp: admits_def and_one_shl unat_behind [OF le] Let_def)
  qed
qed

lemma window_rel_accept:
  assumes rel: "window_rel w S" and adm: "admits w i"
  shows "window_rel (accept w i) (insert (unat i) S)"
proof (cases "w_highest w")
  case None
  with rel show ?thesis by (auto simp: accept_def window_rel_def bit_1_iff)
next
  case (Some h)
  show ?thesis
  proof (cases "i \<le> h")
    case True
    then have le: "unat i \<le> unat h" by (simp add: word_le_nat_alt)
    with adm Some have near: "unat h - unat i < 64" by (simp add: admits_iff [OF rel])
    have "bit (w_seen w OR one_shl (h - i)) k \<longleftrightarrow> k \<le> unat h \<and> (unat h - k = unat i \<or> unat h - k \<in> S)"
      if "k < 64" for k
      using rel Some that near le
      by (auto simp: window_rel_def bit_or_iff bit_one_shl unat_behind [OF True])
    with Some rel True le show ?thesis
      by (simp add: accept_def window_rel_def)
  next
    case False
    then have lt: "unat h < unat i" and "h \<le> i" by (simp_all add: word_le_nat_alt)
    note ahead = unat_behind [OF \<open>h \<le> i\<close>]
    define seen where "seen = (if i - h \<ge> REPLAY_WINDOW then 0 else push_bit (unat (i - h)) (w_seen w))"
    have S: "\<forall>j\<in>S. j \<le> unat h" "\<forall>k<64. bit (w_seen w) k \<longleftrightarrow> k \<le> unat h \<and> unat h - k \<in> S"
      using rel Some by (simp_all add: window_rel_def)
    have "bit (seen OR 1) k \<longleftrightarrow> k \<le> unat i \<and> (unat i - k = unat i \<or> unat i - k \<in> S)"
      if k: "k < 64" for k
    proof (cases "k < unat i - unat h")
      case True
      then have "unat i - k \<notin> S" using S(1) lt by fastforce
      with True lt show ?thesis
        by (auto simp: seen_def bit_or_iff bit_1_iff bit_push_bit_iff ahead)
    next
      case False
      then have "\<not> i - h \<ge> REPLAY_WINDOW" "unat i - k = unat h - (k - (unat i - unat h))"
        using k lt by (simp_all add: REPLAY_WINDOW_def word_le_nat_alt ahead)
      with False k lt S(2) show ?thesis
        by (auto simp: seen_def bit_or_iff bit_1_iff bit_push_bit_iff ahead)
    qed
    with Some False S(1) lt show ?thesis
      by (auto simp: accept_def window_rel_def seen_def Let_def)
  qed
qed

lemma admits_fresh:
  assumes "window_rel w S" "admits w i"
  shows "unat i \<notin> S"
proof (cases "w_highest w")
  case None
  with assms show ?thesis by (simp add: window_rel_def)
next
  case (Some h)
  with assms show ?thesis
    using admits_iff [OF assms(1), of i] by (auto simp: window_rel_def not_le)
qed

lemma admits_newer:
  assumes "window_rel w S" "\<forall>j\<in>S. j < unat i"
  shows "admits w i"
  using assms by (auto simp: admits_iff [OF assms(1)] window_rel_def)

interpretation rwin: replay_filter ReplayWindow_default unat admits accept window_rel
  by unfold_locales
     (auto intro: window_rel_default window_rel_accept admits_newer dest: admits_fresh)

end
