(* ===== verification/Srtp_Context.thy ===== *)
theory Srtp_Context
  imports Srtp_Crypto Replay_Window
begin

text \<open>
  The SRTP context of \<^verbatim>\<open>src/src/srtp.rs\<close>: \<^verbatim>\<open>SrtpContext\<close> with the state it keeps for sending and
  for each remote source, and its four packet operations.  An operation takes the context
  and returns the result together with the context after it, on the error paths too.
  The key stream \<open>ks\<close> and the tag function \<open>mac\<close> are parameters (see \<^verbatim>\<open>Srtp_Crypto\<close>).
\<close>

section \<open>State\<close>

definition MAX_RX_SOURCES :: nat where
  "MAX_RX_SOURCES = 64"

record SendState =
  tx_roc :: u32
  tx_s_l :: u16
  tx_initialized :: bool

definition SendState_default :: SendState where
  "SendState_default = \<lparr>tx_roc = 0, tx_s_l = 0, tx_initialized = False\<rparr>"

record RecvState =
  rs_ssrc :: u32
  rs_roc :: u32
  rs_s_l :: u16
  rs_window :: ReplayWindow

definition RecvState_new :: "u32 \<Rightarrow> RecvState" where
  "RecvState_new ssrc =
     \<lparr>rs_ssrc = ssrc, rs_roc = 0, rs_s_l = 0, rs_window = ReplayWindow_default\<rparr>"

definition estimate_roc :: "RecvState \<Rightarrow> u16 \<Rightarrow> u32" where
  "estimate_roc st seq =
    (if w_highest (rs_window st) = None then rs_roc st
     else
      let diff = int (unat seq) - int (unat (rs_s_l st)) in
      if diff > 32768 then rs_roc st - 1
      else if diff < - 32768 then rs_roc st + 1
      else rs_roc st)"

record SrtpContext =
  session_key :: bytes
  session_salt :: bytes
  session_auth_key :: bytes
  rtcp_session_key :: bytes
  rtcp_session_salt :: bytes
  rtcp_session_auth_key :: bytes
  tx :: SendState
  rx :: "RecvState list"
  srtcp_index :: u32
  rtcp_rx :: "(u32 \<times> ReplayWindow) list"

section \<open>Construction\<close>

definition SrtpContext_new :: "keystream \<Rightarrow> bytes \<Rightarrow> bytes \<Rightarrow> error + SrtpContext" where
  "SrtpContext_new ks master_key master_salt =
    (if length master_key \<noteq> MASTER_KEY_LEN then
       Inl (Srtp (''master key must be '' @ show_nat MASTER_KEY_LEN @ '' bytes, got '' @
         show_nat (length master_key)))
     else if length master_salt \<noteq> MASTER_SALT_LEN then
       Inl (Srtp (''master salt must be '' @ show_nat MASTER_SALT_LEN @ '' bytes, got '' @
         show_nat (length master_salt)))
     else
       (case derive_session_key ks master_key master_salt LABEL_RTP_CIPHER of Inl e \<Rightarrow> Inl e | Inr k \<Rightarrow>
       (case derive_session_salt ks master_key master_salt LABEL_RTP_SALT of Inl e \<Rightarrow> Inl e | Inr s \<Rightarrow>
       (case derive_session_auth_key ks master_key master_salt LABEL_RTP_AUTH of Inl e \<Rightarrow> Inl e | Inr a \<Rightarrow>
       (case derive_session_key ks master_key master_salt LABEL_RTCP_CIPHER of Inl e \<Rightarrow> Inl e | Inr rk \<Rightarrow>
       (case derive_session_salt ks master_key master_salt LABEL_RTCP_SALT of Inl e \<Rightarrow> Inl e | Inr rs \<Rightarrow>
       (case derive_session_auth_key ks master_key master_salt LABEL_RTCP_AUTH of Inl e \<Rightarrow> Inl e | Inr ra \<Rightarrow>
         Inr \<lparr> session_key = k, session_salt = s, session_auth_key = a,
               rtcp_session_key = rk, rtcp_session_salt = rs, rtcp_session_auth_key = ra,
               tx = SendState_default, rx = [], srtcp_index = 0, rtcp_rx = [] \<rparr>)))))))"

text \<open>The base64 crate is the parameter \<open>b64_decode\<close>, which returns the text of its error.\<close>

definition SrtpContext_from_base64 ::
  "keystream \<Rightarrow> (string \<Rightarrow> string + bytes) \<Rightarrow> string \<Rightarrow> error + SrtpContext" where
  "SrtpContext_from_base64 ks b64_decode b64_key_material =
    (case b64_decode (trim b64_key_material) of
       Inl e \<Rightarrow> Inl (Srtp (''base64 decode error: '' @ e))
     | Inr decoded \<Rightarrow>
         if length decoded < KEYING_MATERIAL_LEN then
           Inl (Srtp (''keying material too short: '' @ show_nat (length decoded) @
             '' bytes, need '' @ show_nat KEYING_MATERIAL_LEN))
         else SrtpContext_new ks (take MASTER_KEY_LEN decoded)
                (sub_range decoded MASTER_KEY_LEN KEYING_MATERIAL_LEN))"

text \<open>The random keying material is an argument.\<close>

definition SrtpContext_generate ::
  "keystream \<Rightarrow> (bytes \<Rightarrow> string) \<Rightarrow> bytes \<Rightarrow> error + (SrtpContext \<times> string)" where
  "SrtpContext_generate ks b64_encode material =
    (let b64 = b64_encode material in
     case SrtpContext_new ks (take MASTER_KEY_LEN material) (drop MASTER_KEY_LEN material) of
       Inl e \<Rightarrow> Inl e
     | Inr ctx \<Rightarrow> Inr (ctx, b64))"

section \<open>Sending RTP\<close>

definition next_send_state :: "SendState \<Rightarrow> u16 \<Rightarrow> SendState" where
  "next_send_state t seq =
    (let t1 = (if \<not> tx_initialized t then t\<lparr>tx_initialized := True\<rparr>
               else if seq = 0 \<and> tx_s_l t = 65535 then t\<lparr>tx_roc := tx_roc t + 1\<rparr>
               else t) in
     t1\<lparr>tx_s_l := seq\<rparr>)"

definition protect_rtp ::
  "keystream \<Rightarrow> hmac \<Rightarrow> SrtpContext \<Rightarrow> bytes \<Rightarrow> (error + bytes) \<times> SrtpContext" where
  "protect_rtp ks mac ctx rtp_packet =
    (if length rtp_packet < 12 then (Inl (Rtp ''RTP packet too short''), ctx)
     else case rtp_header_len rtp_packet of
       None \<Rightarrow> (Inl (Rtp ''RTP packet truncated''), ctx)
     | Some header_len \<Rightarrow>
        (let seq = be16_at rtp_packet 2;
             ssrc = be32_at rtp_packet 8;
             ctx' = ctx\<lparr>tx := next_send_state (tx ctx) seq\<rparr>;
             roc = tx_roc (tx ctx');
             iv = build_iv (session_salt ctx') ssrc roc seq;
             output = take header_len rtp_packet @
               aes_128_cm_encrypt ks (session_key ctx') iv (drop header_len rtp_packet);
             tag = compute_rtp_auth_tag mac (session_auth_key ctx') output roc in
         (Inr (output @ tag), ctx')))"

section \<open>Receiving RTP\<close>

text \<open>\<^verbatim>\<open>(u64::from(estimated_roc) << 16) | u64::from(seq)\<close>.\<close>

definition pkt_index :: "u32 \<Rightarrow> u16 \<Rightarrow> u64" where
  "pkt_index roc seq = push_bit 16 (ucast roc) OR ucast seq"

text \<open>\<^verbatim>\<open>iter().position(p)\<close>.\<close>

fun position :: "('a \<Rightarrow> bool) \<Rightarrow> 'a list \<Rightarrow> nat option" where
  "position p [] = None"
| "position p (x # xs) = (if p x then Some 0 else map_option Suc (position p xs))"

definition remember_source :: "SrtpContext \<Rightarrow> nat option \<Rightarrow> RecvState \<Rightarrow> SrtpContext" where
  "remember_source ctx pos st =
    (case pos of
       Some i \<Rightarrow> ctx\<lparr>rx := (rx ctx)[i := st]\<rparr>
     | None \<Rightarrow> ctx\<lparr>rx := rx ctx @ [st]\<rparr>)"

definition unprotect_rtp ::
  "keystream \<Rightarrow> hmac \<Rightarrow> SrtpContext \<Rightarrow> bytes \<Rightarrow> (error + bytes) \<times> SrtpContext" where
  "unprotect_rtp ks mac ctx srtp_packet =
    (if length srtp_packet < 12 + AUTH_TAG_LEN then (Inl (Srtp ''SRTP packet too short''), ctx)
     else
      let auth_boundary = length srtp_packet - AUTH_TAG_LEN;
          authenticated_portion = take auth_boundary srtp_packet;
          received_tag = drop auth_boundary srtp_packet in
      case rtp_header_len authenticated_portion of
        None \<Rightarrow> (Inl (Srtp ''SRTP packet truncated''), ctx)
      | Some header_len \<Rightarrow>
         (let seq = be16_at srtp_packet 2;
              ssrc = be32_at srtp_packet 8;
              pos = position (\<lambda>st. rs_ssrc st = ssrc) (rx ctx) in
          if pos = None \<and> length (rx ctx) \<ge> MAX_RX_SOURCES then
            (Inl (Srtp ''too many SRTP sources''), ctx)
          else
           let state = (case pos of None \<Rightarrow> RecvState_new ssrc | Some i \<Rightarrow> rx ctx ! i);
               estimated_roc = estimate_roc state seq;
               computed_tag = compute_rtp_auth_tag mac (session_auth_key ctx)
                 authenticated_portion estimated_roc in
           if \<not> constant_time_eq computed_tag received_tag then
             (Inl (Srtp ''SRTP authentication failed''), ctx)
           else
            let index = pkt_index estimated_roc seq in
            if \<not> admits (rs_window state) index then (Inl SrtpReplay, ctx)
            else
             let state1 = (if (case w_highest (rs_window state) of None \<Rightarrow> True | Some highest \<Rightarrow> index > highest)
                           then state\<lparr>rs_roc := estimated_roc, rs_s_l := seq\<rparr> else state);
                 state2 = state1\<lparr>rs_window := accept (rs_window state1) index\<rparr>;
                 ctx' = remember_source ctx pos state2;
                 iv = build_iv (session_salt ctx') ssrc estimated_roc seq;
                 output = take header_len authenticated_portion @
                   aes_128_cm_encrypt ks (session_key ctx') iv (drop header_len authenticated_portion) in
             (Inr output, ctx')))"

section \<open>RTCP\<close>

definition protect_rtcp ::
  "keystream \<Rightarrow> hmac \<Rightarrow> SrtpContext \<Rightarrow> bytes \<Rightarrow> (error + bytes) \<times> SrtpContext" where
  "protect_rtcp ks mac ctx rtcp_packet =
    (if length rtcp_packet < 8 then (Inl (Rtcp ''RTCP packet too short''), ctx)
     else
      let ssrc = be32_at rtcp_packet 4;
          index = srtcp_index ctx;
          ctx' = ctx\<lparr>srtcp_index := (srtcp_index ctx + 1) AND 0x7FFFFFFF\<rparr>;
          iv = build_rtcp_iv (rtcp_session_salt ctx') ssrc index;
          output = (if length rtcp_packet > 8
            then take 8 rtcp_packet @
              aes_128_cm_encrypt ks (rtcp_session_key ctx') iv (drop 8 rtcp_packet)
            else rtcp_packet);
          output = output @ be32 (index OR 0x80000000);
          tag = compute_rtcp_auth_tag mac (rtcp_session_auth_key ctx') output in
      (Inr (output @ tag), ctx'))"

definition unprotect_rtcp ::
  "keystream \<Rightarrow> hmac \<Rightarrow> SrtpContext \<Rightarrow> bytes \<Rightarrow> (error + bytes) \<times> SrtpContext" where
  "unprotect_rtcp ks mac ctx srtcp_packet =
    (if length srtcp_packet < 8 + 4 + AUTH_TAG_LEN then (Inl (Srtp ''SRTCP packet too short''), ctx)
     else
      let auth_boundary = length srtcp_packet - AUTH_TAG_LEN;
          authenticated_portion = take auth_boundary srtcp_packet;
          received_tag = drop auth_boundary srtcp_packet;
          computed_tag = compute_rtcp_auth_tag mac (rtcp_session_auth_key ctx) authenticated_portion in
      if \<not> constant_time_eq computed_tag received_tag then
        (Inl (Srtp ''SRTCP authentication failed''), ctx)
      else
       let index_offset = length authenticated_portion - 4;
           e_index = be32_at authenticated_portion index_offset;
           encrypted = (e_index AND 0x80000000 \<noteq> 0);
           index = e_index AND 0x7FFFFFFF;
           ssrc = be32_at authenticated_portion 4;
           pos = position (\<lambda>(s, _). s = ssrc) (rtcp_rx ctx) in
       if pos = None \<and> length (rtcp_rx ctx) \<ge> MAX_RX_SOURCES then
         (Inl (Srtp ''too many SRTCP sources''), ctx)
       else
        let window = (case pos of None \<Rightarrow> ReplayWindow_default | Some i \<Rightarrow> snd (rtcp_rx ctx ! i)) in
        if \<not> admits window (ucast index) then (Inl SrtpReplay, ctx)
        else
         let window' = accept window (ucast index);
             ctx' = (case pos of
                 Some i \<Rightarrow> ctx\<lparr>rtcp_rx := (rtcp_rx ctx)[i := (fst (rtcp_rx ctx ! i), window')]\<rparr>
               | None \<Rightarrow> ctx\<lparr>rtcp_rx := rtcp_rx ctx @ [(ssrc, window')]\<rparr>);
             output = take index_offset authenticated_portion;
             output = (if encrypted \<and> length output > 8
               then
                let ssrc = be32_at output 4;
                    iv = build_rtcp_iv (rtcp_session_salt ctx') ssrc index in
                take 8 output @ aes_128_cm_encrypt ks (rtcp_session_key ctx') iv (drop 8 output)
               else output) in
         (Inr output, ctx'))"

section \<open>SDP\<close>

definition sdp_crypto_of_line :: "string \<Rightarrow> string option" where
  "sdp_crypto_of_line line =
    (case strip_prefix ''a=crypto:'' (trim line) of
       None \<Rightarrow> None
     | Some rest \<Rightarrow>
         let parts = splitn 3 (CHR '' '') rest in
         if length parts \<ge> 3 \<and> parts ! 1 = ''AES_CM_128_HMAC_SHA1_80'' \<and>
            starts_with (parts ! 2) ''inline:''
         then Some (hd (split_on (CHR ''|'') (drop (length ''inline:'') (parts ! 2))))
         else None)"

fun first_some :: "('a \<Rightarrow> 'b option) \<Rightarrow> 'a list \<Rightarrow> 'b option" where
  "first_some f [] = None"
| "first_some f (x # xs) = (case f x of Some y \<Rightarrow> Some y | None \<Rightarrow> first_some f xs)"

definition parse_sdp_crypto :: "string \<Rightarrow> string option" where
  "parse_sdp_crypto sdp = first_some sdp_crypto_of_line (lines_of sdp)"

definition build_sdp_crypto_line :: "string \<Rightarrow> string" where
  "build_sdp_crypto_line b64_key =
     ''a=crypto:1 AES_CM_128_HMAC_SHA1_80 inline:'' @ b64_key @ [carriage_return, newline]"

end
