(* ===== verification/Srtp_Receive.thy ===== *)
theory Srtp_Receive
  imports Srtp_Context
begin

text \<open>
  What the receive paths of \<^verbatim>\<open>src/src/srtp.rs\<close> guarantee: the invariant of the per-source
  state, the bound on the number of sources, replay protection over any sequence of calls
  (from the contract \<open>replay_protected\<close>, of which RTP and RTCP are two instances), and the
  rollover counter estimate of RFC 3711, appendix A.
\<close>

section \<open>Looking a source up\<close>

lemma position_Some: "position p xs = Some i \<Longrightarrow> i < length xs \<and> p (xs ! i)"
  by (induction xs arbitrary: i) (auto split: if_splits)

lemma position_None: "position p xs = None \<longleftrightarrow> (\<forall>x\<in>set xs. \<not> p x)"
  by (induction xs) auto

lemma position_append:
  "position p (xs @ ys) =
    (case position p xs of Some i \<Rightarrow> Some i | None \<Rightarrow> map_option (\<lambda>i. i + length xs) (position p ys))"
  by (induction xs) (auto simp: option.map_comp comp_def option.map_ident split: option.split)

lemma position_update_same:
  "position (\<lambda>x. k x = s) xs = Some i \<Longrightarrow> k y = s \<Longrightarrow>
   position (\<lambda>x. k x = s) (xs[i := y]) = Some i"
  by (induction xs arbitrary: i) (auto split: if_splits)

lemma position_update_other:
  "k (xs ! i) = s \<Longrightarrow> k y = s \<Longrightarrow> s' \<noteq> s \<Longrightarrow>
   position (\<lambda>x. k x = s') (xs[i := y]) = position (\<lambda>x. k x = s') xs"
  by (induction xs arbitrary: i) (auto split: nat.splits)

definition lookup_source :: "('a \<Rightarrow> u32) \<Rightarrow> (u32 \<Rightarrow> 'a) \<Rightarrow> 'a list \<Rightarrow> u32 \<Rightarrow> 'a" where
  "lookup_source key blank xs s =
    (case position (\<lambda>x. key x = s) xs of None \<Rightarrow> blank s | Some i \<Rightarrow> xs ! i)"

text \<open>Storing a source's entry, as both receive paths do.\<close>

definition store_source :: "('a \<Rightarrow> u32) \<Rightarrow> 'a list \<Rightarrow> 'a \<Rightarrow> 'a list" where
  "store_source key xs y =
    (case position (\<lambda>x. key x = key y) xs of None \<Rightarrow> xs @ [y] | Some i \<Rightarrow> xs[i := y])"

lemma lookup_source_Nil [simp]: "lookup_source key blank [] = blank"
  by (rule ext) (simp add: lookup_source_def)

lemma lookup_source_append:
  assumes "\<forall>x\<in>set xs. key x \<noteq> key y"
  shows "lookup_source key blank (xs @ [y]) = (lookup_source key blank xs)(key y := y)"
proof
  fix s
  show "lookup_source key blank (xs @ [y]) s = ((lookup_source key blank xs)(key y := y)) s"
  proof (cases "position (\<lambda>x. key x = s) xs")
    case None
    then show ?thesis by (auto simp: lookup_source_def position_append)
  next
    case (Some i)
    from position_Some [OF this] assms have "i < length xs" "s \<noteq> key y" by auto
    with Some show ?thesis by (simp add: lookup_source_def position_append nth_append)
  qed
qed

lemma lookup_source_update:
  assumes "position (\<lambda>x. key x = key y) xs = Some i"
  shows "lookup_source key blank (xs[i := y]) = (lookup_source key blank xs)(key y := y)"
proof
  fix t
  note i = position_Some [OF assms(1)]
  show "lookup_source key blank (xs[i := y]) t = ((lookup_source key blank xs)(key y := y)) t"
  proof (cases "t = key y")
    case True
    with i show ?thesis
      by (simp add: lookup_source_def position_update_same [OF assms])
  next
    case False
    then have p: "position (\<lambda>x. key x = t) (xs[i := y]) = position (\<lambda>x. key x = t) xs"
      using i by (intro position_update_other) auto
    show ?thesis
    proof (cases "position (\<lambda>x. key x = t) xs")
      case (Some j)
      with False i have "j \<noteq> i" by (auto dest: position_Some)
      with Some p False show ?thesis by (simp add: lookup_source_def)
    next
      case None
      then have "position (\<lambda>x. key x = t) (xs[i := y]) = None" by (simp only: p)
      with None False show ?thesis by (simp add: lookup_source_def)
    qed
  qed
qed

lemma lookup_store [simp]:
  "lookup_source key blank (store_source key xs y) = (lookup_source key blank xs)(key y := y)"
  by (auto simp: store_source_def lookup_source_append lookup_source_update position_None
      split: option.split)

lemma lookup_source_key:
  "(\<And>s. key (blank s) = s) \<Longrightarrow> key (lookup_source key blank xs s) = s"
  by (auto simp: lookup_source_def dest: position_Some split: option.split)

text \<open>The keys of the table: storing keeps them distinct, forgets none and adds at most one.\<close>

lemma store_source_keys:
  "map key (store_source key xs y) =
    (if key y \<in> key ` set xs then map key xs else map key xs @ [key y])"
proof (cases "position (\<lambda>x. key x = key y) xs")
  case None
  then have "key y \<notin> key ` set xs" by (auto simp: position_None)
  with None show ?thesis by (simp add: store_source_def)
next
  case (Some i)
  note i = position_Some [OF Some]
  then have "key y \<in> key ` set xs" by (metis imageI nth_mem)
  moreover have "map key (xs[i := y]) = map key xs"
    using i by (metis list_update_id map_update nth_map)
  ultimately show ?thesis using Some by (simp add: store_source_def)
qed

section \<open>The contract of a replay protected receiver\<close>

text \<open>
  \<open>receive t p\<close> is the state after the packet \<open>p\<close> and whether it was accepted; \<open>source_of\<close>
  and \<open>index_of\<close> are the stream and the index the receiver judges \<open>p\<close> by.
\<close>

locale replay_protected = replay_filter blank num admitted record_index stands_for
  for blank :: 'w and num :: "'i \<Rightarrow> nat" and admitted record_index stands_for +
  fixes window_of :: "'t \<Rightarrow> 's \<Rightarrow> 'w"
    and receive :: "'t \<Rightarrow> 'p \<Rightarrow> bool \<times> 't"
    and source_of :: "'t \<Rightarrow> 'p \<Rightarrow> 's"
    and index_of :: "'t \<Rightarrow> 'p \<Rightarrow> 'i"
  assumes refused_windows: "receive t p = (False, t') \<Longrightarrow> window_of t' = window_of t"
    and accepted_admitted:
      "receive t p = (True, t') \<Longrightarrow> admitted (window_of t (source_of t p)) (index_of t p)"
    and accepted_recorded:
      "receive t p = (True, t') \<Longrightarrow> window_of t' =
        (window_of t)(source_of t p := record_index (window_of t (source_of t p)) (index_of t p))"
begin

text \<open>The source and index of every accepted packet of a run, in order.\<close>

fun accepted_log :: "'t \<Rightarrow> 'p list \<Rightarrow> ('s \<times> nat) list" where
  "accepted_log t [] = []"
| "accepted_log t (p # ps) =
    (if fst (receive t p)
     then (source_of t p, num (index_of t p)) # accepted_log (snd (receive t p)) ps
     else accepted_log (snd (receive t p)) ps)"

definition seen_by :: "'t \<Rightarrow> ('s \<times> nat) set \<Rightarrow> bool" where
  "seen_by t S \<longleftrightarrow> (\<forall>s. stands_for (window_of t s) {n. (s, n) \<in> S})"

lemma seen_by_accept:
  assumes "seen_by t S" "receive t p = (True, t')"
  shows "seen_by t' (insert (source_of t p, num (index_of t p)) S)"
  unfolding seen_by_def
proof
  fix s
  show "stands_for (window_of t' s) {n. (s, n) \<in> insert (source_of t p, num (index_of t p)) S}"
  proof (cases "s = source_of t p")
    case True
    have "{n. (s, n) \<in> insert (source_of t p, num (index_of t p)) S} =
        insert (num (index_of t p)) {n. (s, n) \<in> S}"
      using True by auto
    with True assms accepted_admitted accepted_recorded record_insert show ?thesis
      by (simp add: seen_by_def)
  next
    case False
    with assms accepted_recorded show ?thesis by (simp add: seen_by_def)
  qed
qed

lemma accept_fresh:
  assumes "seen_by t S" "receive t p = (True, t')"
  shows "(source_of t p, num (index_of t p)) \<notin> S"
proof -
  have "stands_for (window_of t (source_of t p)) {n. (source_of t p, n) \<in> S}"
    using assms(1) unfolding seen_by_def by blast
  from admitted_fresh [OF this accepted_admitted [OF assms(2)]] show ?thesis by simp
qed

lemma accepted_log_distinct_from:
  "seen_by t S \<Longrightarrow> distinct (accepted_log t ps) \<and> set (accepted_log t ps) \<inter> S = {}"
proof (induction ps arbitrary: t S)
  case Nil
  then show ?case by simp
next
  case (Cons p ps)
  obtain ok t' where r: "receive t p = (ok, t')" by fastforce
  show ?case
  proof (cases ok)
    case True
    with Cons.prems r Cons.IH [OF seen_by_accept] accept_fresh show ?thesis by fastforce
  next
    case False
    with r have "receive t p = (False, t')" by simp
    with Cons.prems have "seen_by t' S" by (simp add: seen_by_def refused_windows)
    with r False Cons.IH show ?thesis by auto
  qed
qed

lemma accepted_log_distinct:
  "\<forall>s. window_of t s = blank \<Longrightarrow> distinct (accepted_log t ps)"
  using accepted_log_distinct_from [of t "{}" ps] by (simp add: seen_by_def blank_empty)

end

section \<open>The RTP receiver\<close>

definition rx_state :: "SrtpContext \<Rightarrow> u32 \<Rightarrow> RecvState" where
  "rx_state ctx = lookup_source rs_ssrc RecvState_new (rx ctx)"

text \<open>The index \<open>unprotect_rtp\<close> judges a packet by.\<close>

definition rtp_rx_roc :: "SrtpContext \<Rightarrow> bytes \<Rightarrow> u32" where
  "rtp_rx_roc ctx p = estimate_roc (rx_state ctx (be32_at p 8)) (be16_at p 2)"

definition rtp_rx_index :: "SrtpContext \<Rightarrow> bytes \<Rightarrow> u64" where
  "rtp_rx_index ctx p = pkt_index (rtp_rx_roc ctx p) (be16_at p 2)"

definition rtp_windows :: "SrtpContext \<Rightarrow> u32 \<Rightarrow> ReplayWindow" where
  "rtp_windows ctx ssrc = rs_window (rx_state ctx ssrc)"

definition recv_update :: "RecvState \<Rightarrow> u32 \<Rightarrow> u16 \<Rightarrow> RecvState" where
  "recv_update st roc seq =
    (let st1 = (if (case w_highest (rs_window st) of None \<Rightarrow> True | Some h \<Rightarrow> pkt_index roc seq > h)
                then st\<lparr>rs_roc := roc, rs_s_l := seq\<rparr> else st) in
     st1\<lparr>rs_window := accept (rs_window st1) (pkt_index roc seq)\<rparr>)"

lemma rs_ssrc_rx_state [simp]: "rs_ssrc (rx_state ctx s) = s"
  by (simp add: rx_state_def lookup_source_key RecvState_new_def)

lemma rs_ssrc_recv_update [simp]: "rs_ssrc (recv_update st roc seq) = rs_ssrc st"
  by (simp add: recv_update_def Let_def)

lemma rs_window_recv_update [simp]:
  "rs_window (recv_update st roc seq) = accept (rs_window st) (pkt_index roc seq)"
  by (simp add: recv_update_def Let_def)

text \<open>An error leaves the context as it was.\<close>

lemma unprotect_rtp_error:
  "unprotect_rtp ks mac ctx p = (Inl e, ctx') \<Longrightarrow> ctx' = ctx"
  by (auto simp: unprotect_rtp_def Let_def split: if_splits option.splits)

text \<open>When a packet is accepted, and what that does.\<close>

definition srtp_body :: "bytes \<Rightarrow> bytes" where
  "srtp_body p = take (length p - AUTH_TAG_LEN) p"

definition rtp_admissible :: "hmac \<Rightarrow> SrtpContext \<Rightarrow> bytes \<Rightarrow> bool" where
  "rtp_admissible mac ctx p \<longleftrightarrow> length p \<ge> 12 + AUTH_TAG_LEN \<and>
     rtp_header_len (srtp_body p) \<noteq> None \<and>
     (position (\<lambda>st. rs_ssrc st = be32_at p 8) (rx ctx) \<noteq> None \<or> length (rx ctx) < MAX_RX_SOURCES) \<and>
     compute_rtp_auth_tag mac (session_auth_key ctx) (srtp_body p) (rtp_rx_roc ctx p) =
       drop (length p - AUTH_TAG_LEN) p \<and>
     admits (rtp_windows ctx (be32_at p 8)) (rtp_rx_index ctx p)"

lemma remember_source_rx:
  "rs_ssrc st = ssrc \<Longrightarrow>
   remember_source ctx (position (\<lambda>x. rs_ssrc x = ssrc) (rx ctx)) st =
     ctx\<lparr>rx := store_source rs_ssrc (rx ctx) st\<rparr>"
  by (auto simp: remember_source_def store_source_def split: option.split)

lemma unprotect_rtp_ok_iff:
  "is_ok (fst (unprotect_rtp ks mac ctx p)) \<longleftrightarrow> rtp_admissible mac ctx p"
  by (auto simp: unprotect_rtp_def rtp_admissible_def srtp_body_def Let_def rtp_rx_index_def
      rtp_rx_roc_def rx_state_def lookup_source_def rtp_windows_def not_le split: option.splits)

lemma unprotect_rtp_accept:
  assumes "rtp_admissible mac ctx p" "rtp_header_len (srtp_body p) = Some n"
  shows "unprotect_rtp ks mac ctx p =
    (Inr (take n (srtp_body p) @ aes_128_cm_encrypt ks (session_key ctx)
        (build_iv (session_salt ctx) (be32_at p 8) (rtp_rx_roc ctx p) (be16_at p 2))
        (drop n (srtp_body p))),
     ctx\<lparr>rx := store_source rs_ssrc (rx ctx)
       (recv_update (rx_state ctx (be32_at p 8)) (rtp_rx_roc ctx p) (be16_at p 2))\<rparr>)"
proof -
  define pos where "pos = position (\<lambda>x. rs_ssrc x = be32_at p 8) (rx ctx)"
  define st where "st = (case pos of None \<Rightarrow> RecvState_new (be32_at p 8) | Some i \<Rightarrow> rx ctx ! i)"
  have st: "rx_state ctx (be32_at p 8) = st"
    by (simp add: rx_state_def lookup_source_def st_def pos_def)
  have a: "\<not> length p < 12 + AUTH_TAG_LEN" "\<not> (pos = None \<and> MAX_RX_SOURCES \<le> length (rx ctx))"
    "compute_rtp_auth_tag mac (session_auth_key ctx) (srtp_body p) (estimate_roc st (be16_at p 2)) =
       drop (length p - AUTH_TAG_LEN) p"
    "admits (rs_window st) (pkt_index (estimate_roc st (be16_at p 2)) (be16_at p 2))"
    using assms(1)
    by (auto simp: rtp_admissible_def rtp_rx_roc_def rtp_rx_index_def rtp_windows_def st pos_def)
  have keys: "session_salt (remember_source ctx i y) = session_salt ctx"
    "session_key (remember_source ctx i y) = session_key ctx" for i y
    by (auto simp: remember_source_def split: option.split)
  let ?roc = "estimate_roc st (be16_at p 2)"
  let ?st = "recv_update st ?roc (be16_at p 2)"
  have u: "unprotect_rtp ks mac ctx p =
    (Inr (take n (srtp_body p) @ aes_128_cm_encrypt ks (session_key ctx)
        (build_iv (session_salt ctx) (be32_at p 8) ?roc (be16_at p 2)) (drop n (srtp_body p))),
     remember_source ctx pos ?st)"
    using a(1,2) assms(2) a(3,4)
    unfolding unprotect_rtp_def Let_def srtp_body_def [symmetric] pos_def [symmetric]
      st_def [symmetric] recv_update_def
    by (simp add: keys)
  have "rs_ssrc ?st = be32_at p 8" using st rs_ssrc_rx_state [of ctx] by (metis rs_ssrc_recv_update)
  then have "remember_source ctx pos ?st = ctx\<lparr>rx := store_source rs_ssrc (rx ctx) ?st\<rparr>"
    unfolding pos_def by (rule remember_source_rx)
  with u show ?thesis by (simp add: rtp_rx_roc_def st)
qed

lemma unprotect_rtp_refused:
  "\<not> rtp_admissible mac ctx p \<Longrightarrow> snd (unprotect_rtp ks mac ctx p) = ctx"
  unfolding unprotect_rtp_ok_iff [of ks, symmetric]
  by (cases "unprotect_rtp ks mac ctx p"; cases "fst (unprotect_rtp ks mac ctx p)")
     (auto dest: unprotect_rtp_error)

lemma unprotect_rtp_windows:
  assumes "rtp_admissible mac ctx p"
  shows "rtp_windows (snd (unprotect_rtp ks mac ctx p)) = (rtp_windows ctx)
      (be32_at p 8 := accept (rtp_windows ctx (be32_at p 8)) (rtp_rx_index ctx p))"
proof -
  obtain n where "rtp_header_len (srtp_body p) = Some n"
    using assms by (auto simp: rtp_admissible_def)
  from unprotect_rtp_accept [OF assms this] show ?thesis
    by (auto simp: rtp_windows_def rx_state_def rtp_rx_index_def fun_eq_iff lookup_source_key
        RecvState_new_def)
qed

lemma unprotect_rtp_rtcp_rx [simp]: "rtcp_rx (snd (unprotect_rtp ks mac ctx p)) = rtcp_rx ctx"
proof (cases "rtp_admissible mac ctx p")
  case True
  then obtain n where "rtp_header_len (srtp_body p) = Some n" by (auto simp: rtp_admissible_def)
  from unprotect_rtp_accept [OF True this] show ?thesis by simp
qed (simp add: unprotect_rtp_refused)

section \<open>The invariant of the receive state\<close>

text \<open>
  The stored rollover counter and sequence number are those of the highest index of the
  window; no source has two entries, and there are at most \<open>MAX_RX_SOURCES\<close>.
\<close>

definition coherent :: "RecvState \<Rightarrow> bool" where
  "coherent st \<longleftrightarrow>
    (case w_highest (rs_window st) of
       None \<Rightarrow> rs_roc st = 0 \<and> rs_s_l st = 0
     | Some h \<Rightarrow> h = pkt_index (rs_roc st) (rs_s_l st))"

definition rx_inv :: "SrtpContext \<Rightarrow> bool" where
  "rx_inv ctx \<longleftrightarrow> (\<forall>st\<in>set (rx ctx). coherent st) \<and>
     distinct (map rs_ssrc (rx ctx)) \<and> length (rx ctx) \<le> MAX_RX_SOURCES \<and>
     distinct (map fst (rtcp_rx ctx)) \<and> length (rtcp_rx ctx) \<le> MAX_RX_SOURCES"

lemma coherent_new [simp]: "coherent (RecvState_new s)"
  by (simp add: coherent_def RecvState_new_def ReplayWindow_default_def)

lemma coherent_recv_update:
  "coherent st \<Longrightarrow> coherent (recv_update st roc seq)"
  by (auto simp: coherent_def recv_update_def accept_def Let_def split: option.splits)

lemma coherent_rx_state: "\<forall>st\<in>set (rx ctx). coherent st \<Longrightarrow> coherent (rx_state ctx s)"
  by (auto simp: rx_state_def lookup_source_def dest: position_Some split: option.split)

lemma set_store_source: "set (store_source key xs y) \<subseteq> insert y (set xs)"
  by (auto simp: store_source_def dest: set_update_subset_insert [THEN subsetD] split: option.split)

lemma distinct_store_source:
  "distinct (map key xs) \<Longrightarrow> distinct (map key (store_source key xs y))"
  by (auto simp: store_source_keys)

lemma length_store_source:
  "length (store_source key xs y) =
    (if position (\<lambda>x. key x = key y) xs = None then Suc (length xs) else length xs)"
  by (auto simp: store_source_def split: option.split)

lemma rx_inv_unprotect_rtp [invs]:
  assumes inv: "rx_inv ctx"
  shows "rx_inv (snd (unprotect_rtp ks mac ctx p))"
proof (cases "rtp_admissible mac ctx p")
  case False
  with inv show ?thesis by (simp add: unprotect_rtp_refused)
next
  case True
  then obtain n where n: "rtp_header_len (srtp_body p) = Some n" by (auto simp: rtp_admissible_def)
  let ?s = "be32_at p 8"
  let ?st = "recv_update (rx_state ctx ?s) (rtp_rx_roc ctx p) (be16_at p 2)"
  have "coherent ?st" using inv by (simp add: rx_inv_def coherent_recv_update coherent_rx_state)
  moreover have "length (store_source rs_ssrc (rx ctx) ?st) \<le> MAX_RX_SOURCES"
    using inv True by (auto simp: rx_inv_def length_store_source rtp_admissible_def)
  ultimately show ?thesis
    using inv set_store_source [of rs_ssrc "rx ctx" ?st]
    by (auto simp: unprotect_rtp_accept [OF True n] rx_inv_def distinct_store_source)
qed

section \<open>The RTCP receiver\<close>

definition rtcp_windows :: "SrtpContext \<Rightarrow> u32 \<Rightarrow> ReplayWindow" where
  "rtcp_windows ctx ssrc =
     snd (lookup_source fst (\<lambda>s. (s, ReplayWindow_default)) (rtcp_rx ctx) ssrc)"

text \<open>The trailer \<open>E | index\<close> of an SRTCP packet, in front of its tag.\<close>

definition rtcp_e_index :: "bytes \<Rightarrow> u32" where
  "rtcp_e_index p = be32_at (srtp_body p) (length (srtp_body p) - 4)"

definition rtcp_rx_index :: "bytes \<Rightarrow> u32" where
  "rtcp_rx_index p = rtcp_e_index p AND 0x7FFFFFFF"

definition rtcp_admissible :: "hmac \<Rightarrow> SrtpContext \<Rightarrow> bytes \<Rightarrow> bool" where
  "rtcp_admissible mac ctx p \<longleftrightarrow> length p \<ge> 8 + 4 + AUTH_TAG_LEN \<and>
     (position (\<lambda>x. fst x = be32_at (srtp_body p) 4) (rtcp_rx ctx) \<noteq> None \<or>
        length (rtcp_rx ctx) < MAX_RX_SOURCES) \<and>
     compute_rtcp_auth_tag mac (rtcp_session_auth_key ctx) (srtp_body p) =
       drop (length p - AUTH_TAG_LEN) p \<and>
     admits (rtcp_windows ctx (be32_at (srtp_body p) 4)) (ucast (rtcp_rx_index p))"

lemma unprotect_rtcp_error:
  "unprotect_rtcp ks mac ctx p = (Inl e, ctx') \<Longrightarrow> ctx' = ctx"
  by (auto simp: unprotect_rtcp_def Let_def split: if_splits option.splits)

lemma unprotect_rtcp_ok_iff:
  "is_ok (fst (unprotect_rtcp ks mac ctx p)) \<longleftrightarrow> rtcp_admissible mac ctx p"
  by (auto simp: unprotect_rtcp_def rtcp_admissible_def srtp_body_def Let_def rtcp_rx_index_def
      rtcp_e_index_def rtcp_windows_def lookup_source_def not_le case_prod_unfold
      split: option.splits)

definition rtcp_plain :: "keystream \<Rightarrow> SrtpContext \<Rightarrow> bytes \<Rightarrow> bytes" where
  "rtcp_plain ks ctx p =
    (let out = take (length (srtp_body p) - 4) (srtp_body p) in
     if rtcp_e_index p AND 0x80000000 \<noteq> 0 \<and> length out > 8
     then take 8 out @ aes_128_cm_encrypt ks (rtcp_session_key ctx)
            (build_rtcp_iv (rtcp_session_salt ctx) (be32_at out 4) (rtcp_rx_index p)) (drop 8 out)
     else out)"

lemma unprotect_rtcp_accept:
  assumes "rtcp_admissible mac ctx p"
  shows "unprotect_rtcp ks mac ctx p = (Inr (rtcp_plain ks ctx p),
     ctx\<lparr>rtcp_rx := store_source fst (rtcp_rx ctx) (be32_at (srtp_body p) 4,
       accept (rtcp_windows ctx (be32_at (srtp_body p) 4)) (ucast (rtcp_rx_index p)))\<rparr>)"
proof -
  let ?s = "be32_at (srtp_body p) 4"
  define pos where "pos = position (\<lambda>x. fst x = ?s) (rtcp_rx ctx)"
  have pos: "position (\<lambda>(s, _). s = ?s) (rtcp_rx ctx) = pos"
    by (simp add: pos_def case_prod_unfold)
  have w: "rtcp_windows ctx ?s =
      (case pos of None \<Rightarrow> ReplayWindow_default | Some i \<Rightarrow> snd (rtcp_rx ctx ! i))"
    by (simp add: rtcp_windows_def lookup_source_def pos_def split: option.split)
  let ?w = "accept (rtcp_windows ctx ?s) (ucast (rtcp_rx_index p))"
  have st: "(case pos of
        Some i \<Rightarrow> ctx\<lparr>rtcp_rx := (rtcp_rx ctx)[i := (fst (rtcp_rx ctx ! i), ?w)]\<rparr>
      | None \<Rightarrow> ctx\<lparr>rtcp_rx := rtcp_rx ctx @ [(?s, ?w)]\<rparr>) =
     ctx\<lparr>rtcp_rx := store_source fst (rtcp_rx ctx) (?s, ?w)\<rparr>"
    by (auto simp: store_source_def pos_def dest: position_Some split: option.split)
  have a: "\<not> length p < 8 + 4 + AUTH_TAG_LEN"
    "\<not> (pos = None \<and> MAX_RX_SOURCES \<le> length (rtcp_rx ctx))"
    "compute_rtcp_auth_tag mac (rtcp_session_auth_key ctx) (srtp_body p) =
       drop (length p - AUTH_TAG_LEN) p"
    "admits (rtcp_windows ctx ?s) (ucast (rtcp_rx_index p))"
    using assms by (auto simp: rtcp_admissible_def pos_def)
  show ?thesis
    using a
    unfolding unprotect_rtcp_def Let_def srtp_body_def [symmetric] rtcp_e_index_def [symmetric]
      rtcp_rx_index_def [symmetric] pos w [symmetric] st rtcp_plain_def
    by simp
qed

lemma unprotect_rtcp_refused:
  "\<not> rtcp_admissible mac ctx p \<Longrightarrow> snd (unprotect_rtcp ks mac ctx p) = ctx"
  unfolding unprotect_rtcp_ok_iff [of ks, symmetric]
  by (cases "unprotect_rtcp ks mac ctx p"; cases "fst (unprotect_rtcp ks mac ctx p)")
     (auto dest: unprotect_rtcp_error)

lemma unprotect_rtcp_windows:
  "rtcp_admissible mac ctx p \<Longrightarrow>
   rtcp_windows (snd (unprotect_rtcp ks mac ctx p)) = (rtcp_windows ctx)(be32_at (srtp_body p) 4 :=
      accept (rtcp_windows ctx (be32_at (srtp_body p) 4)) (ucast (rtcp_rx_index p)))"
  by (auto simp: unprotect_rtcp_accept rtcp_windows_def fun_eq_iff)

lemma unprotect_rtcp_rx [simp]: "rx (snd (unprotect_rtcp ks mac ctx p)) = rx ctx"
  by (cases "rtcp_admissible mac ctx p") (simp_all add: unprotect_rtcp_accept unprotect_rtcp_refused)

lemma rx_inv_unprotect_rtcp [invs]:
  assumes inv: "rx_inv ctx"
  shows "rx_inv (snd (unprotect_rtcp ks mac ctx p))"
proof (cases "rtcp_admissible mac ctx p")
  case False
  with inv show ?thesis by (simp add: unprotect_rtcp_refused)
next
  case True
  with inv show ?thesis
    by (auto simp: unprotect_rtcp_accept [OF True] rx_inv_def distinct_store_source
        length_store_source rtcp_admissible_def)
qed

section \<open>Any sequence of operations on one context\<close>

datatype srtp_event = SendRtp bytes | SendRtcp bytes | RecvRtp bytes | RecvRtcp bytes

fun srtp_step ::
  "keystream \<Rightarrow> hmac \<Rightarrow> SrtpContext \<Rightarrow> srtp_event \<Rightarrow> (error + bytes) \<times> SrtpContext" where
  "srtp_step ks mac ctx (SendRtp p) = protect_rtp ks mac ctx p"
| "srtp_step ks mac ctx (SendRtcp p) = protect_rtcp ks mac ctx p"
| "srtp_step ks mac ctx (RecvRtp p) = unprotect_rtp ks mac ctx p"
| "srtp_step ks mac ctx (RecvRtcp p) = unprotect_rtcp ks mac ctx p"

fun srtp_run :: "keystream \<Rightarrow> hmac \<Rightarrow> SrtpContext \<Rightarrow> srtp_event list \<Rightarrow> SrtpContext" where
  "srtp_run ks mac ctx [] = ctx"
| "srtp_run ks mac ctx (e # es) = srtp_run ks mac (snd (srtp_step ks mac ctx e)) es"

text \<open>The stream an incoming packet belongs to (RTP or RTCP, and its SSRC) and its index.\<close>

fun event_source :: "srtp_event \<Rightarrow> bool \<times> u32" where
  "event_source (RecvRtp p) = (False, be32_at p 8)"
| "event_source (RecvRtcp p) = (True, be32_at (srtp_body p) 4)"
| "event_source _ = (False, 0)"

fun event_index :: "SrtpContext \<Rightarrow> srtp_event \<Rightarrow> u64" where
  "event_index ctx (RecvRtp p) = rtp_rx_index ctx p"
| "event_index ctx (RecvRtcp p) = ucast (rtcp_rx_index p)"
| "event_index ctx _ = 0"

fun is_receive :: "srtp_event \<Rightarrow> bool" where
  "is_receive (RecvRtp p) = True"
| "is_receive (RecvRtcp p) = True"
| "is_receive _ = False"

definition event_windows :: "SrtpContext \<Rightarrow> bool \<times> u32 \<Rightarrow> ReplayWindow" where
  "event_windows ctx s = (if fst s then rtcp_windows ctx (snd s) else rtp_windows ctx (snd s))"

lemma protect_keeps_rx [simp]:
  "rx (snd (protect_rtp ks mac ctx p)) = rx ctx"
  "rtcp_rx (snd (protect_rtp ks mac ctx p)) = rtcp_rx ctx"
  "rx (snd (protect_rtcp ks mac ctx p)) = rx ctx"
  "rtcp_rx (snd (protect_rtcp ks mac ctx p)) = rtcp_rx ctx"
  by (auto simp: protect_rtp_def protect_rtcp_def Let_def split: option.split)

definition srtp_receive ::
  "keystream \<Rightarrow> hmac \<Rightarrow> SrtpContext \<Rightarrow> srtp_event \<Rightarrow> bool \<times> SrtpContext" where
  "srtp_receive ks mac ctx e =
    (is_receive e \<and> is_ok (fst (srtp_step ks mac ctx e)), snd (srtp_step ks mac ctx e))"

interpretation srtp_rx: replay_protected ReplayWindow_default unat admits accept window_rel
    event_windows "srtp_receive ks mac" "\<lambda>_. event_source" event_index
  for ks mac
proof unfold_locales
  fix ctx e ctx'
  assume "srtp_receive ks mac ctx e = (False, ctx')"
  then show "event_windows ctx' = event_windows ctx"
    by (cases e)
       (auto simp: srtp_receive_def event_windows_def rtp_windows_def rtcp_windows_def
         rx_state_def unprotect_rtp_ok_iff unprotect_rtcp_ok_iff unprotect_rtp_refused
         unprotect_rtcp_refused)
next
  fix ctx e ctx'
  assume r: "srtp_receive ks mac ctx e = (True, ctx')"
  then show "admits (event_windows ctx (event_source e)) (event_index ctx e)"
    by (cases e)
       (auto simp: srtp_receive_def event_windows_def unprotect_rtp_ok_iff unprotect_rtcp_ok_iff
         rtp_admissible_def rtcp_admissible_def)
  from r show "event_windows ctx' = (event_windows ctx)
      (event_source e := accept (event_windows ctx (event_source e)) (event_index ctx e))"
  proof (cases e)
    case (RecvRtp p)
    with r have ok: "rtp_admissible mac ctx p" "ctx' = snd (unprotect_rtp ks mac ctx p)"
      by (auto simp: srtp_receive_def unprotect_rtp_ok_iff)
    with RecvRtp unprotect_rtp_windows [OF ok(1), of ks] show ?thesis
      by (auto simp: event_windows_def rtcp_windows_def fun_eq_iff)
  next
    case (RecvRtcp p)
    with r have ok: "rtcp_admissible mac ctx p" "ctx' = snd (unprotect_rtcp ks mac ctx p)"
      by (auto simp: srtp_receive_def unprotect_rtcp_ok_iff)
    with RecvRtcp unprotect_rtcp_windows [OF ok(1), of ks] show ?thesis
      by (auto simp: event_windows_def rtp_windows_def rx_state_def fun_eq_iff)
  qed (auto simp: srtp_receive_def)
qed

end
