(* ===== verification/Srtp_Transport.thy ===== *)
theory Srtp_Transport
  imports Srtp_Receive
begin

text \<open>
  Two \<^verbatim>\<open>SrtpContext\<close>s talking to each other, one built from the same key as the other:
  the rollover counter estimate, the round trip of one packet, of a stream under loss,
  reordering and rollover, and the properties of the SRTP component.
\<close>

section \<open>New contexts\<close>

lemma SrtpContext_new_state:
  assumes "SrtpContext_new ks k s = Inr ctx"
  shows "tx ctx = SendState_default" "rx ctx = []" "srtcp_index ctx = 0" "rtcp_rx ctx = []"
  using assms by (auto simp: SrtpContext_new_def split: if_splits sum.splits)

lemma rx_inv_new [invs]: "SrtpContext_new ks k s = Inr ctx \<Longrightarrow> rx_inv ctx"
  by (simp add: rx_inv_def SrtpContext_new_state MAX_RX_SOURCES_def)

lemma event_windows_new:
  "rx ctx = [] \<Longrightarrow> rtcp_rx ctx = [] \<Longrightarrow> event_windows ctx s = ReplayWindow_default"
  by (simp add: event_windows_def rtp_windows_def rtcp_windows_def rx_state_def RecvState_new_def)

text \<open>With valid key lengths construction cannot fail, and the keys depend on the key
  material only.\<close>

lemma SrtpContext_new_ok:
  "length k = 16 \<Longrightarrow> length s = 14 \<Longrightarrow> \<exists>ctx. SrtpContext_new ks k s = Inr ctx"
  by (simp add: SrtpContext_new_def MASTER_KEY_LEN_def MASTER_SALT_LEN_def derive_session_key_def
      derive_session_salt_def derive_session_auth_key_def prf_aes_cm_def)

section \<open>The index and its estimate\<close>

lemma unat_pkt_index [simp]: "unat (pkt_index roc seq) = unat roc * 65536 + unat seq"
proof -
  have "and (push_bit 16 (ucast roc) :: u64) (ucast seq) = 0"
    by (rule bit_word_eqI) (auto simp: bit_simps dest: bit_imp_le_length)
  then have "pkt_index roc seq = push_bit 16 (ucast roc) + ucast seq"
    by (simp add: pkt_index_def disjunctive_add_eq_or)
  moreover have "unat (push_bit 16 (ucast roc) :: u64) = unat roc * 65536"
    using u32_lt [of roc] by (simp add: push_bit_eq_mult unat_word_ariths unat_ucast_mod)
  moreover have "unat (ucast seq :: u64) = unat seq"
    using u16_lt [of seq] by (simp add: unat_ucast_mod)
  ultimately show ?thesis
    using u32_lt [of roc] u16_lt [of seq] by (simp add: unat_word_ariths)
qed

lemma pkt_index_inj: "pkt_index r s = pkt_index r' s' \<longleftrightarrow> r = r' \<and> s = s'"
proof
  assume "pkt_index r s = pkt_index r' s'"
  then have eq: "unat r * 65536 + unat s = unat r' * 65536 + unat s'"
    by (metis unat_pkt_index)
  then have "(unat r * 65536 + unat s) mod 65536 = (unat r' * 65536 + unat s') mod 65536" by simp
  then have "unat s = unat s'" using u16_lt [of s] u16_lt [of s'] by simp
  with eq have "unat r = unat r'" by simp
  with \<open>unat s = unat s'\<close> show "r = r' \<and> s = s'" by (simp add: word_unat_eq_iff)
qed simp

text \<open>The estimate is right for every packet less than \<open>2\<^sup>1\<^sup>5\<close> from the highest index seen.\<close>

lemma estimate_roc_near:
  assumes coh: "coherent st" and h: "w_highest (rs_window st) = Some h"
    and near: "\<bar>int (unat (pkt_index roc seq)) - int (unat h)\<bar> < 32768"
  shows "estimate_roc st seq = roc"
proof -
  let ?r = "unat (rs_roc st)" and ?s = "unat (rs_s_l st)"
  have hi: "unat h = ?r * 65536 + ?s" using coh h by (simp add: coherent_def)
  note bounds = u16_lt [of seq] u16_lt [of "rs_s_l st"]
  let ?q = "int (unat seq)" and ?p = "int ?s"
  have est: "estimate_roc st seq = (if ?q - ?p > 32768 then rs_roc st - 1
      else if ?q - ?p < - 32768 then rs_roc st + 1 else rs_roc st)"
    by (simp add: estimate_roc_def h Let_def)
  have d: "\<bar>int (unat roc) * 65536 + ?q - (int ?r * 65536 + ?p)\<bar> < 32768"
    using near unfolding hi unat_pkt_index by simp
  consider "unat roc = ?r" | "unat roc = ?r + 1" | "?r = unat roc + 1"
    using d bounds by linarith
  then show ?thesis
  proof cases
    case 1
    then have "roc = rs_roc st" by (simp add: word_unat_eq_iff)
    moreover have "\<not> ?q - ?p > 32768" "\<not> ?q - ?p < - 32768" using d 1 by linarith+
    ultimately show ?thesis by (simp only: est if_False)
  next
    case 2
    have "roc = word_of_nat (unat roc)" by simp
    also have "\<dots> = word_of_nat (?r + 1)" by (simp only: 2)
    also have "\<dots> = rs_roc st + 1" by simp
    finally have "roc = rs_roc st + 1" .
    moreover have "\<not> ?q - ?p > 32768" "?q - ?p < - 32768" using d 2 by linarith+
    ultimately show ?thesis by (simp only: est if_False if_True)
  next
    case 3
    have "rs_roc st = word_of_nat ?r" by simp
    also have "\<dots> = word_of_nat (unat roc + 1)" by (simp only: 3)
    also have "\<dots> = roc + 1" by simp
    finally have "roc = rs_roc st - 1" by simp
    moreover have "?q - ?p > 32768" using d 3 by linarith
    ultimately show ?thesis by (simp only: est if_False if_True)
  qed
qed

lemma estimate_roc_first: "estimate_roc (RecvState_new s) seq = 0"
  by (simp add: estimate_roc_def RecvState_new_def ReplayWindow_default_def)

section \<open>One packet\<close>

definition same_keys :: "SrtpContext \<Rightarrow> SrtpContext \<Rightarrow> bool" where
  "same_keys a b \<longleftrightarrow> session_key a = session_key b \<and> session_salt a = session_salt b \<and>
     session_auth_key a = session_auth_key b \<and> rtcp_session_key a = rtcp_session_key b \<and>
     rtcp_session_salt a = rtcp_session_salt b \<and> rtcp_session_auth_key a = rtcp_session_auth_key b"

text \<open>The SRTP packet for an RTP packet sent with rollover counter \<open>roc\<close>.\<close>

definition srtp_bytes :: "keystream \<Rightarrow> hmac \<Rightarrow> SrtpContext \<Rightarrow> u32 \<Rightarrow> bytes \<Rightarrow> bytes" where
  "srtp_bytes ks mac ctx roc p =
    (let n = the (rtp_header_len p);
         body = take n p @ aes_128_cm_encrypt ks (session_key ctx)
           (build_iv (session_salt ctx) (be32_at p 8) roc (be16_at p 2)) (drop n p) in
     body @ compute_rtp_auth_tag mac (session_auth_key ctx) body roc)"

lemma srtp_bytes_same_keys: "same_keys a b \<Longrightarrow> srtp_bytes ks mac a = srtp_bytes ks mac b"
  by (auto simp: srtp_bytes_def same_keys_def fun_eq_iff)

lemma protect_rtp_eq:
  assumes "rtp_header_len p = Some n"
  shows "protect_rtp ks mac ctx p =
    (let t = next_send_state (tx ctx) (be16_at p 2) in
     (Inr (srtp_bytes ks mac ctx (tx_roc t) p), ctx\<lparr>tx := t\<rparr>))"
  using rtp_header_len_bounds [OF assms] assms
  by (simp add: protect_rtp_def srtp_bytes_def Let_def)

lemma be_at_prefix:
  "i + 2 \<le> n \<Longrightarrow> n \<le> length p \<Longrightarrow> be16_at (take n p @ q) i = be16_at p i"
  "i + 4 \<le> n \<Longrightarrow> n \<le> length p \<Longrightarrow> be32_at (take n p @ q) i = be32_at p i"
  by (simp_all add: be16_at_def be32_at_def nth_append)

lemma unprotect_srtp_bytes:
  assumes mac: "\<forall>k m. length (mac k m) = 20" and n: "rtp_header_len p = Some n"
    and roc: "estimate_roc (rx_state ctx (be32_at p 8)) (be16_at p 2) = roc"
    and room: "position (\<lambda>st. rs_ssrc st = be32_at p 8) (rx ctx) \<noteq> None \<or>
      length (rx ctx) < MAX_RX_SOURCES"
    and adm: "admits (rtp_windows ctx (be32_at p 8)) (pkt_index roc (be16_at p 2))"
  shows "unprotect_rtp ks mac ctx (srtp_bytes ks mac ctx roc p) =
    (Inr p, ctx\<lparr>rx := store_source rs_ssrc (rx ctx)
       (recv_update (rx_state ctx (be32_at p 8)) roc (be16_at p 2))\<rparr>)"
proof -
  note b = rtp_header_len_bounds [OF n]
  define iv where "iv = build_iv (session_salt ctx) (be32_at p 8) roc (be16_at p 2)"
  define enc where "enc = aes_128_cm_encrypt ks (session_key ctx) iv"
  define body where "body = take n p @ enc (drop n p)"
  define tag where "tag = compute_rtp_auth_tag mac (session_auth_key ctx) body roc"
  have out: "srtp_bytes ks mac ctx roc p = body @ tag"
    by (simp add: srtp_bytes_def n body_def tag_def enc_def iv_def Let_def)
  have len: "length tag = AUTH_TAG_LEN" "length body = length p"
    using b by (simp_all add: tag_def compute_rtp_auth_tag_def mac AUTH_TAG_LEN_def body_def
        enc_def aes_cm.cipher_length)
  then have srtp: "srtp_body (body @ tag) = body" by (simp add: srtp_body_def)
  have fields: "be16_at (body @ tag) 2 = be16_at p 2" "be32_at (body @ tag) 8 = be32_at p 8"
    using b by (simp_all add: body_def be_at_prefix)
  have hl: "rtp_header_len body = Some n" using n by (simp add: body_def rtp_header_len_prefix)
  have rr: "rtp_rx_roc ctx (body @ tag) = roc" by (simp add: rtp_rx_roc_def fields roc)
  have "rtp_admissible mac ctx (body @ tag)"
    using b len room adm hl
    by (simp add: rtp_admissible_def srtp rr fields rtp_rx_index_def flip: tag_def)
  note acc = unprotect_rtp_accept [OF this, unfolded srtp, OF hl, of ks]
  have "take n body @ enc (drop n body) = p"
    using b by (simp add: body_def enc_def aes_cm.cipher_twice)
  then show ?thesis
    unfolding out acc rr fields by (simp add: enc_def iv_def)
qed

section \<open>The sender along a stream\<close>

fun protect_all ::
  "keystream \<Rightarrow> hmac \<Rightarrow> SrtpContext \<Rightarrow> bytes list \<Rightarrow> (error + bytes) list \<times> SrtpContext" where
  "protect_all ks mac ctx [] = ([], ctx)"
| "protect_all ks mac ctx (p # ps) =
    (let (r, ctx1) = protect_rtp ks mac ctx p; (rs, ctx2) = protect_all ks mac ctx1 ps in
     (r # rs, ctx2))"

fun unprotect_all ::
  "keystream \<Rightarrow> hmac \<Rightarrow> SrtpContext \<Rightarrow> bytes list \<Rightarrow> (error + bytes) list \<times> SrtpContext" where
  "unprotect_all ks mac ctx [] = ([], ctx)"
| "unprotect_all ks mac ctx (p # ps) =
    (let (r, ctx1) = unprotect_rtp ks mac ctx p; (rs, ctx2) = unprotect_all ks mac ctx1 ps in
     (r # rs, ctx2))"

text \<open>Complete RTP packets of one source, numbered consecutively from \<open>n\<close> on.\<close>

fun consecutive :: "nat \<Rightarrow> u32 \<Rightarrow> bytes list \<Rightarrow> bool" where
  "consecutive n ssrc [] \<longleftrightarrow> True"
| "consecutive n ssrc (p # ps) \<longleftrightarrow> be16_at p 2 = word_of_nat n \<and> be32_at p 8 = ssrc \<and>
     rtp_header_len p \<noteq> None \<and> consecutive (Suc n) ssrc ps"

definition roc_of :: "nat \<Rightarrow> u32" where
  "roc_of n = word_of_nat (n div 65536)"

lemma consecutive_nth:
  "consecutive n ssrc ps \<Longrightarrow> j < length ps \<Longrightarrow>
   be16_at (ps ! j) 2 = word_of_nat (n + j) \<and> be32_at (ps ! j) 8 = ssrc \<and>
   rtp_header_len (ps ! j) \<noteq> None"
proof (induction ps arbitrary: n j)
  case (Cons p ps)
  from Cons.prems Cons.IH [of "Suc n" "j - 1"] show ?case
    by (cases j) simp_all
qed simp

lemma unat_seq_of [simp]: "unat (word_of_nat n :: u16) = n mod 65536"
  by (simp add: unsigned_of_nat take_bit_eq_mod)

lemma index_of_nat: "n < 2 ^ 48 \<Longrightarrow> unat (pkt_index (roc_of n) (word_of_nat n)) = n"
  by (simp add: roc_of_def unsigned_of_nat take_bit_eq_mod)

definition sender_at :: "nat \<Rightarrow> SendState \<Rightarrow> bool" where
  "sender_at n t \<longleftrightarrow> tx_initialized t \<and> tx_roc t = roc_of n \<and> tx_s_l t = word_of_nat n"

lemma next_send_state_first:
  "n < 65536 \<Longrightarrow> sender_at n (next_send_state SendState_default (word_of_nat n))"
  by (simp add: sender_at_def next_send_state_def SendState_default_def roc_of_def)

text \<open>
  Packet numbers in the order in which they are protected: after \<open>a\<close> comes its successor, or any number of
  the same cycle of \<open>2\<^sup>1\<^sup>6\<close>, unless that looks like a wrap to the sender.
\<close>

fun wraps_in_order :: "nat \<Rightarrow> nat list \<Rightarrow> bool" where
  "wraps_in_order a [] \<longleftrightarrow> True"
| "wraps_in_order a (b # bs) \<longleftrightarrow>
    (b = Suc a \<or> (b div 65536 = a div 65536 \<and> \<not> (a mod 65536 = 65535 \<and> b mod 65536 = 0))) \<and> wraps_in_order b bs"

lemma wraps_in_order_upt: "wraps_in_order n [Suc n..<m]"
proof (induction "m - n" arbitrary: n)
  case (Suc k)
  then have "k = m - Suc n" by simp
  from Suc.hyps(1) [OF this] show ?case by (cases "Suc n < m") (simp_all add: upt_conv_Cons)
qed simp

lemma next_send_state_step:
  assumes "sender_at a t" "wraps_in_order a [b]"
  shows "sender_at b (next_send_state t (word_of_nat b))"
proof -
  have seq0: "(word_of_nat b :: u16) = 0 \<longleftrightarrow> b mod 65536 = 0" by (metis unat_eq_0 unat_seq_of)
  have sl: "(word_of_nat a :: u16) = 65535 \<longleftrightarrow> a mod 65536 = 65535" by (simp add: word_unat_eq_iff)
  show ?thesis
  proof (cases "b mod 65536 = 0 \<and> a mod 65536 = 65535")
    case True
    with assms(2) have "b div 65536 = Suc (a div 65536)" by (auto simp: div_Suc)
    with True seq0 sl assms(1) show ?thesis by (simp add: sender_at_def next_send_state_def roc_of_def Let_def)
  next
    case False
    have "b div 65536 = a div 65536" using assms(2) False by (auto simp: div_Suc mod_Suc)
    with False seq0 sl assms(1) show ?thesis by (auto simp: sender_at_def next_send_state_def roc_of_def Let_def)
  qed
qed

lemma header_len_SomeE:
  "rtp_header_len p \<noteq> None \<Longrightarrow> (\<And>n. rtp_header_len p = Some n \<Longrightarrow> thesis) \<Longrightarrow> thesis"
  by blast

lemma srtp_bytes_tx [simp]: "srtp_bytes ks mac (ctx\<lparr>tx := t\<rparr>) = srtp_bytes ks mac ctx"
  by (rule srtp_bytes_same_keys) (simp add: same_keys_def)

text \<open>Complete packets together with their numbers.\<close>

definition numbered :: "u32 \<Rightarrow> (nat \<times> bytes) list \<Rightarrow> bool" where
  "numbered ssrc xs \<longleftrightarrow>
    (\<forall>(n, p)\<in>set xs. be16_at p 2 = word_of_nat n \<and> be32_at p 8 = ssrc \<and> rtp_header_len p \<noteq> None)"

lemma numbered_Cons: "numbered ssrc ((n, p) # xs) \<longleftrightarrow>
    be16_at p 2 = word_of_nat n \<and> be32_at p 8 = ssrc \<and> rtp_header_len p \<noteq> None \<and> numbered ssrc xs"
  by (auto simp: numbered_def)

lemma numbered_consecutive: "consecutive n ssrc ps \<Longrightarrow> numbered ssrc (enumerate n ps)"
  by (induction n ssrc ps rule: consecutive.induct) (simp_all add: numbered_Cons, simp add: numbered_def)

definition sealed_as :: "keystream \<Rightarrow> hmac \<Rightarrow> SrtpContext \<Rightarrow> nat \<times> bytes \<Rightarrow> error + bytes" where
  "sealed_as ks mac ctx x = (case x of (n, p) \<Rightarrow> Inr (srtp_bytes ks mac ctx (roc_of n) p))"

lemma protect_all_from:
  "sender_at a (tx ctx) \<Longrightarrow> numbered ssrc xs \<Longrightarrow> wraps_in_order a (map fst xs) \<Longrightarrow>
   fst (protect_all ks mac ctx (map snd xs)) = map (sealed_as ks mac ctx) xs"
proof (induction xs arbitrary: a ctx)
  case (Cons x xs)
  obtain n p where x: "x = (n, p)" by fastforce
  let ?t = "next_send_state (tx ctx) (word_of_nat n)"
  obtain l where "rtp_header_len p = Some l" using Cons.prems(2) x by (auto simp: numbered_Cons)
  note pr = protect_rtp_eq [OF this, of ks mac ctx]
  have at: "sender_at n ?t" using Cons.prems(1,3) x by (intro next_send_state_step) auto
  have "fst (protect_all ks mac (ctx\<lparr>tx := ?t\<rparr>) (map snd xs)) = map (sealed_as ks mac ctx) xs"
    using Cons.IH [of n "ctx\<lparr>tx := ?t\<rparr>"] at Cons.prems(2,3) x by (simp add: numbered_Cons sealed_as_def)
  moreover have "tx_roc ?t = roc_of n" using at by (simp add: sender_at_def)
  ultimately show ?case using Cons.prems(2) x by (simp add: pr Let_def case_prod_unfold sealed_as_def numbered_Cons)
qed simp

lemma protect_all_fresh:
  assumes "tx ctx = SendState_default" "numbered ssrc ((n, p) # xs)" "n < 65536" "wraps_in_order n (map fst xs)"
  shows "fst (protect_all ks mac ctx (map snd ((n, p) # xs))) = map (sealed_as ks mac ctx) ((n, p) # xs)"
proof -
  let ?t = "next_send_state (tx ctx) (word_of_nat n)"
  have at: "sender_at n ?t" using next_send_state_first [OF assms(3)] by (simp add: assms(1))
  then have roc: "tx_roc ?t = roc_of n" by (simp add: sender_at_def)
  obtain l where "rtp_header_len p = Some l" using assms(2) by (auto simp: numbered_Cons)
  note pr = protect_rtp_eq [OF this, of ks mac ctx]
  have "fst (protect_all ks mac (ctx\<lparr>tx := ?t\<rparr>) (map snd xs)) = map (sealed_as ks mac ctx) xs"
    using protect_all_from [of n "ctx\<lparr>tx := ?t\<rparr>" ssrc xs ks mac] at assms(2,4) by (simp add: numbered_Cons sealed_as_def)
  with assms(2) roc show ?thesis by (simp add: pr Let_def case_prod_unfold sealed_as_def numbered_Cons)
qed

lemma protect_all_stream:
  assumes "tx ctx = SendState_default" "consecutive n ssrc ps" "n < 65536"
  shows "fst (protect_all ks mac ctx ps) = map (sealed_as ks mac ctx) (enumerate n ps)"
proof (cases ps)
  case (Cons p qs)
  have "numbered ssrc ((n, p) # enumerate (Suc n) qs)" using numbered_consecutive [OF assms(2)] Cons by simp
  moreover have "wraps_in_order n (map fst (enumerate (Suc n) qs))"
    by (simp only: map_fst_enumerate wraps_in_order_upt)
  ultimately show ?thesis using protect_all_fresh [OF assms(1) _ assms(3)] Cons by fastforce
qed simp

section \<open>The receiver along a stream\<close>

text \<open>
  A sequence of packet numbers that arrives without duplicates, no packet \<open>2\<^sup>1\<^sup>5\<close> or more
  ahead of the newest so far, and none 64 or more behind it.
\<close>

fun deliverable :: "nat set \<Rightarrow> nat \<Rightarrow> nat list \<Rightarrow> bool" where
  "deliverable S h [] \<longleftrightarrow> True"
| "deliverable S h (j # js) \<longleftrightarrow> j \<notin> S \<and> j < h + 32768 \<and> h < j + 64 \<and>
     deliverable (insert j S) (max h j) js"

definition in_sync :: "nat \<Rightarrow> u32 \<Rightarrow> nat set \<Rightarrow> nat \<Rightarrow> SrtpContext \<Rightarrow> bool" where
  "in_sync n ssrc S h ctx \<longleftrightarrow> coherent (rx_state ctx ssrc) \<and>
     window_rel (rtp_windows ctx ssrc) ((+) n ` S) \<and>
     map_option unat (w_highest (rtp_windows ctx ssrc)) = Some (n + h) \<and>
     position (\<lambda>st. rs_ssrc st = ssrc) (rx ctx) \<noteq> None"

lemma rx_state_store:
  "rx_state (ctx\<lparr>rx := store_source rs_ssrc (rx ctx) st\<rparr>) (rs_ssrc st) = st"
  by (simp add: rx_state_def)

lemma position_store:
  "key y = s \<Longrightarrow> position (\<lambda>x. key x = s) (store_source key xs y) \<noteq> None"
  by (cases "position (\<lambda>x. key x = key y) xs")
     (auto simp: store_source_def position_append position_update_same)

lemma highest_accept:
  "w_highest (accept w i) =
    (case w_highest w of None \<Rightarrow> Some i | Some h \<Rightarrow> Some (if i \<le> h then h else i))"
  by (auto simp: accept_def Let_def split: option.split)

lemma in_sync_after:
  fixes ctx roc seq st
  assumes "coherent (rx_state ctx ssrc)" "window_rel (rtp_windows ctx ssrc) ((+) n ` S)"
    and "admits (rtp_windows ctx ssrc) (pkt_index roc seq)" "unat (pkt_index roc seq) = n + j"
    and "case w_highest (rtp_windows ctx ssrc) of None \<Rightarrow> h' = j | Some x \<Rightarrow> unat x = n + h \<and> h' = max h j"
  shows "in_sync n ssrc (insert j S) h'
    (ctx\<lparr>rx := store_source rs_ssrc (rx ctx) (recv_update (rx_state ctx ssrc) roc seq)\<rparr>)"
proof -
  let ?st = "recv_update (rx_state ctx ssrc) roc seq"
  let ?c = "ctx\<lparr>rx := store_source rs_ssrc (rx ctx) ?st\<rparr>"
  have st: "rx_state ?c ssrc = ?st" using rx_state_store [of ctx ?st] by simp
  then have w: "rtp_windows ?c ssrc = accept (rtp_windows ctx ssrc) (pkt_index roc seq)"
    by (simp add: rtp_windows_def)
  have "window_rel (rtp_windows ?c ssrc) ((+) n ` insert j S)"
    using window_rel_accept [OF assms(2,3), unfolded assms(4)] by (simp add: w)
  moreover have "map_option unat (w_highest (rtp_windows ?c ssrc)) = Some (n + h')"
    using assms(4,5) by (auto simp: w highest_accept word_le_nat_alt split: option.splits)
  moreover have "position (\<lambda>x. rs_ssrc x = ssrc) (rx ?c) \<noteq> None"
    using position_store [of rs_ssrc ?st ssrc] by simp
  ultimately show ?thesis
    using assms(1) by (simp add: in_sync_def st coherent_recv_update)
qed

lemma receive_next:
  assumes mac: "\<forall>k m. length (mac k m) = 20"
    and p: "be16_at p 2 = word_of_nat (n + j)" "be32_at p 8 = ssrc" "rtp_header_len p \<noteq> None"
    and sync: "in_sync n ssrc S h ctx"
    and j: "j \<notin> S" "j < h + 32768" "h < j + 64" and bound: "n + j < 2 ^ 48"
  shows "\<exists>ctx'. unprotect_rtp ks mac ctx (srtp_bytes ks mac ctx (roc_of (n + j)) p) = (Inr p, ctx') \<and>
     in_sync n ssrc (insert j S) (max h j) ctx' \<and> same_keys ctx ctx'"
proof -
  obtain hh where hh: "w_highest (rtp_windows ctx ssrc) = Some hh" "unat hh = n + h"
    using sync by (auto simp: in_sync_def)
  have rel: "window_rel (rtp_windows ctx ssrc) ((+) n ` S)" and coh: "coherent (rx_state ctx ssrc)"
    using sync by (simp_all add: in_sync_def)
  let ?i = "pkt_index (roc_of (n + j)) (be16_at p 2)"
  have i: "unat ?i = n + j" using index_of_nat [OF bound] p(1) by (simp only:)
  have "\<bar>int (unat ?i) - int (unat hh)\<bar> < 32768" using j by (simp only: i hh)
  with coh hh(1) have est: "estimate_roc (rx_state ctx ssrc) (be16_at p 2) = roc_of (n + j)"
    by (intro estimate_roc_near) (simp_all add: rtp_windows_def)
  have adm: "admits (rtp_windows ctx ssrc) ?i"
    using j hh unfolding admits_iff [OF rel] i by auto
  obtain l where l: "rtp_header_len p = Some l" using p(3) by blast
  have room: "position (\<lambda>st. rs_ssrc st = be32_at p 8) (rx ctx) \<noteq> None \<or>
      length (rx ctx) < MAX_RX_SOURCES"
    using sync p(2) by (simp add: in_sync_def)
  note step = unprotect_srtp_bytes [OF mac l _ room, unfolded p(2), OF est adm, of ks]
  have "in_sync n ssrc (insert j S) (max h j) (ctx\<lparr>rx := store_source rs_ssrc (rx ctx)
      (recv_update (rx_state ctx ssrc) (roc_of (n + j)) (be16_at p 2))\<rparr>)"
    using coh rel adm i hh by (intro in_sync_after [where h = h]) simp_all
  with step show ?thesis by (simp add: same_keys_def)
qed

lemma receive_first:
  assumes mac: "\<forall>k m. length (mac k m) = 20"
    and p: "be16_at p 2 = word_of_nat (n + j)" "be32_at p 8 = ssrc" "rtp_header_len p \<noteq> None"
    and fresh: "rx ctx = []" and j: "n + j < 65536"
  shows "\<exists>ctx'. unprotect_rtp ks mac ctx (srtp_bytes ks mac ctx (roc_of (n + j)) p) = (Inr p, ctx') \<and>
     in_sync n ssrc {j} j ctx' \<and> same_keys ctx ctx'"
proof -
  have st: "rx_state ctx ssrc = RecvState_new ssrc" by (simp add: rx_state_def fresh)
  have w: "rtp_windows ctx ssrc = ReplayWindow_default"
    by (simp add: rtp_windows_def st RecvState_new_def)
  have roc: "roc_of (n + j) = 0" using j by (simp add: roc_of_def)
  let ?i = "pkt_index (roc_of (n + j)) (be16_at p 2)"
  have i: "unat ?i = n + j" using index_of_nat [of "n + j"] p(1) j by simp
  have adm: "admits (rtp_windows ctx ssrc) ?i"
    by (simp add: w admits_def ReplayWindow_default_def)
  have est: "estimate_roc (rx_state ctx ssrc) (be16_at p 2) = roc_of (n + j)"
    by (simp add: st estimate_roc_first roc)
  obtain l where l: "rtp_header_len p = Some l" using p(3) by blast
  have room: "position (\<lambda>st. rs_ssrc st = be32_at p 8) (rx ctx) \<noteq> None \<or>
      length (rx ctx) < MAX_RX_SOURCES"
    by (simp add: fresh MAX_RX_SOURCES_def)
  note step = unprotect_srtp_bytes [OF mac l _ room, unfolded p(2), OF est adm, of ks]
  have "in_sync n ssrc (insert j {}) j (ctx\<lparr>rx := store_source rs_ssrc (rx ctx)
      (recv_update (rx_state ctx ssrc) (roc_of (n + j)) (be16_at p 2))\<rparr>)"
    using adm i
    by (intro in_sync_after)
       (simp_all add: st w window_rel_default, simp add: ReplayWindow_default_def)
  with step show ?thesis by (simp add: same_keys_def)
qed

lemma receive_all:
  assumes mac: "\<forall>k m. length (mac k m) = 20"
    and ps: "consecutive n ssrc ps" "n + length ps \<le> 2 ^ 48"
  shows "in_sync n ssrc S h ctx \<Longrightarrow> same_keys c ctx \<Longrightarrow> deliverable S h js \<Longrightarrow>
    \<forall>j\<in>set js. j < length ps \<Longrightarrow>
    fst (unprotect_all ks mac ctx (map (\<lambda>j. srtp_bytes ks mac c (roc_of (n + j)) (ps ! j)) js)) =
      map (\<lambda>j. Inr (ps ! j)) js"
proof (induction js arbitrary: S h ctx)
  case Nil
  then show ?case by simp
next
  case (Cons j js)
  have j: "j < length ps" "j \<notin> S" "j < h + 32768" "h < j + 64" using Cons.prems by simp_all
  note pj = consecutive_nth [OF ps(1) j(1)]
  have "n + j < 2 ^ 48" using ps(2) j(1) by simp
  with receive_next [OF mac _ _ _ Cons.prems(1) j(2,3,4), of "ps ! j"] pj
  obtain ctx' where step: "unprotect_rtp ks mac ctx (srtp_bytes ks mac ctx (roc_of (n + j)) (ps ! j)) =
      (Inr (ps ! j), ctx')" "in_sync n ssrc (insert j S) (max h j) ctx'" "same_keys ctx ctx'"
    by blast
  have "same_keys c ctx'" using step(3) Cons.prems(2) by (simp add: same_keys_def)
  with Cons.IH [OF step(2)] Cons.prems step(1) srtp_bytes_same_keys [OF Cons.prems(2), of ks mac]
  show ?case by (simp add: case_prod_unfold)
qed

section \<open>SRTCP between two contexts\<close>

lemma and_7FFFFFFF: "unat (x AND 0x7FFFFFFF :: u32) = unat x mod 2147483648"
proof -
  have "x AND 0x7FFFFFFF = take_bit 31 x"
    by (simp add: take_bit_eq_mask mask_eq_exp_minus_1)
  then have "unat (x AND 0x7FFFFFFF) = take_bit 31 (unat x)"
    by (simp only: unsigned_take_bit_eq)
  then show ?thesis by (simp add: take_bit_eq_mod)
qed

lemma e_index_fields:
  assumes "unat (i :: u32) < 2147483648"
  shows "(i OR 0x80000000) AND 0x7FFFFFFF = i" "(i OR 0x80000000) AND 0x80000000 \<noteq> 0"
proof -
  have "i AND 0x7FFFFFFF = i"
    using assms by (simp add: word_unat_eq_iff and_7FFFFFFF)
  moreover have "(0x80000000 :: u32) AND 0x7FFFFFFF = 0" by simp
  ultimately show "(i OR 0x80000000) AND 0x7FFFFFFF = i"
    by (simp add: word_ao_dist)
  have "i AND 0x80000000 OR 0x80000000 = (0x80000000 :: u32)"
    by (rule bit_word_eqI) (auto simp: bit_simps)
  then show "(i OR 0x80000000) AND 0x80000000 \<noteq> 0"
    by (simp add: word_ao_dist)
qed

definition srtcp_bytes :: "keystream \<Rightarrow> hmac \<Rightarrow> SrtpContext \<Rightarrow> u32 \<Rightarrow> bytes \<Rightarrow> bytes" where
  "srtcp_bytes ks mac ctx index p =
    (let body = take 8 p @ aes_128_cm_encrypt ks (rtcp_session_key ctx)
           (build_rtcp_iv (rtcp_session_salt ctx) (be32_at p 4) index) (drop 8 p) @
           be32 (index OR 0x80000000) in
     body @ compute_rtcp_auth_tag mac (rtcp_session_auth_key ctx) body)"

lemma aes_empty [simp]: "aes_128_cm_encrypt ks k iv [] = []"
  by (simp add: aes_128_cm_encrypt_def xor_stream_def)

lemma protect_rtcp_eq:
  "8 \<le> length p \<Longrightarrow> protect_rtcp ks mac ctx p =
    (Inr (srtcp_bytes ks mac ctx (srtcp_index ctx) p),
     ctx\<lparr>srtcp_index := (srtcp_index ctx + 1) AND 0x7FFFFFFF\<rparr>)"
  by (auto simp: protect_rtcp_def srtcp_bytes_def Let_def)

lemma srtcp_bytes_same_keys: "same_keys a b \<Longrightarrow> srtcp_bytes ks mac a = srtcp_bytes ks mac b"
  by (auto simp: srtcp_bytes_def same_keys_def fun_eq_iff)

lemma unprotect_srtcp_bytes:
  assumes mac: "\<forall>k m. length (mac k m) = 20" and p: "8 \<le> length p"
    and i: "unat i < 2147483648"
    and room: "position (\<lambda>x. fst x = be32_at p 4) (rtcp_rx ctx) \<noteq> None \<or>
      length (rtcp_rx ctx) < MAX_RX_SOURCES"
    and adm: "admits (rtcp_windows ctx (be32_at p 4)) (ucast i)"
  shows "unprotect_rtcp ks mac ctx (srtcp_bytes ks mac ctx i p) =
    (Inr p, ctx\<lparr>rtcp_rx := store_source fst (rtcp_rx ctx)
       (be32_at p 4, accept (rtcp_windows ctx (be32_at p 4)) (ucast i))\<rparr>)"
proof -
  define enc where "enc = aes_128_cm_encrypt ks (rtcp_session_key ctx)
    (build_rtcp_iv (rtcp_session_salt ctx) (be32_at p 4) i)"
  define out where "out = take 8 p @ enc (drop 8 p)"
  define body where "body = out @ be32 (i OR 0x80000000)"
  define tag where "tag = compute_rtcp_auth_tag mac (rtcp_session_auth_key ctx) body"
  have bytes: "srtcp_bytes ks mac ctx i p = body @ tag"
    by (simp add: srtcp_bytes_def Let_def tag_def body_def out_def enc_def)
  have len: "length tag = AUTH_TAG_LEN" "length out = length p"
    using p mac by (simp_all add: tag_def compute_rtcp_auth_tag_def AUTH_TAG_LEN_def out_def
        enc_def aes_cm.cipher_length)
  have lb: "length body = length p + 4" by (simp add: body_def len)
  have sb: "srtp_body (body @ tag) = body" by (simp add: srtp_body_def len)
  have "be32_at (out @ be32 (i OR 0x80000000) @ []) (length p) = i OR 0x80000000"
    by (rule be32_at_append) (rule len)
  then have e: "rtcp_e_index (body @ tag) = i OR 0x80000000"
    unfolding rtcp_e_index_def sb lb by (simp add: body_def)
  then have idx: "rtcp_rx_index (body @ tag) = i"
    by (simp add: rtcp_rx_index_def e_index_fields [OF i])
  have ssrc: "be32_at body 4 = be32_at p 4" "be32_at out 4 = be32_at p 4"
    using p be_at_prefix(2) [of 4 8 p] by (simp_all add: body_def out_def)
  have "rtcp_admissible mac ctx (body @ tag)"
    using room adm p by (simp add: rtcp_admissible_def sb lb len ssrc idx flip: tag_def)
  note acc = unprotect_rtcp_accept [OF this, of ks, unfolded sb ssrc idx]
  have "take (length body - 4) body = out" by (simp add: lb len body_def)
  moreover have "take 8 out @ enc (drop 8 out) = p"
    using p by (simp add: out_def enc_def aes_cm.cipher_twice)
  moreover have "length p = 8 \<Longrightarrow> out = p"
    by (simp add: out_def enc_def)
  ultimately have "rtcp_plain ks ctx (body @ tag) = p"
    using p by (auto simp: rtcp_plain_def sb e idx ssrc len e_index_fields [OF i] simp flip: enc_def)
  with acc bytes show ?thesis by simp
qed

text \<open>A sender and a receiver, and a network that loses the packets not marked.\<close>

fun srtcp_link ::
  "keystream \<Rightarrow> hmac \<Rightarrow> SrtpContext \<Rightarrow> SrtpContext \<Rightarrow> (bytes \<times> bool) list \<Rightarrow> (error + bytes) list"
where
  "srtcp_link ks mac s r [] = []"
| "srtcp_link ks mac s r ((p, arrives) # xs) =
    (case protect_rtcp ks mac s p of
       (Inl e, s') \<Rightarrow> Inl e # srtcp_link ks mac s' r xs
     | (Inr q, s') \<Rightarrow>
         if arrives
         then let (res, r') = unprotect_rtcp ks mac r q in res # srtcp_link ks mac s' r' xs
         else srtcp_link ks mac s' r xs)"

definition rtcp_sync :: "nat \<Rightarrow> u32 set \<Rightarrow> SrtpContext \<Rightarrow> SrtpContext \<Rightarrow> bool" where
  "rtcp_sync k A s r \<longleftrightarrow> same_keys s r \<and> srtcp_index s = word_of_nat k \<and>
     (\<forall>ssrc. \<exists>S. window_rel (rtcp_windows r ssrc) S \<and> (\<forall>i\<in>S. i < k)) \<and>
     fst ` set (rtcp_rx r) \<subseteq> A \<and> distinct (map fst (rtcp_rx r))"

lemma rtcp_room:
  assumes "fst ` set xs \<subseteq> A" "distinct (map fst xs)" "finite A" "card A \<le> MAX_RX_SOURCES" "a \<in> A"
  shows "position (\<lambda>x. fst x = a) xs \<noteq> None \<or> length xs < MAX_RX_SOURCES"
proof (cases "a \<in> fst ` set xs")
  case True
  then show ?thesis by (auto simp: position_None)
next
  case False
  have "length xs = card (fst ` set xs)"
    using distinct_card [OF assms(2)] by simp
  also have "\<dots> < card A"
    using assms False by (intro psubset_card_mono) auto
  finally show ?thesis using assms(4) by simp
qed

lemma unat_index_of: "k < 2147483648 \<Longrightarrow> unat (word_of_nat k :: u32) = k"
  by (simp add: unsigned_of_nat take_bit_eq_mod)

lemma next_index:
  "Suc k < 2147483648 \<Longrightarrow> (word_of_nat k + 1) AND 0x7FFFFFFF = (word_of_nat (Suc k) :: u32)"
  by (simp add: word_unat_eq_iff and_7FFFFFFF unat_index_of unsigned_of_nat take_bit_eq_mod
      unat_word_ariths)

lemma rtcp_sync_step:
  assumes mac: "\<forall>k m. length (mac k m) = 20" and A: "finite A" "card A \<le> MAX_RX_SOURCES"
    and sync: "rtcp_sync k A s r" and k: "k < 2147483648"
    and p: "8 \<le> length p" "be32_at p 4 \<in> A"
  shows "\<exists>s' r'. protect_rtcp ks mac s p = (Inr (srtcp_bytes ks mac s (word_of_nat k) p), s') \<and>
    unprotect_rtcp ks mac r (srtcp_bytes ks mac s (word_of_nat k) p) = (Inr p, r') \<and>
    (Suc k < 2147483648 \<longrightarrow> rtcp_sync (Suc k) A s' r \<and> rtcp_sync (Suc k) A s' r')"
proof -
  let ?a = "be32_at p 4" and ?i = "word_of_nat k :: u32"
  have keys: "same_keys s r" and idx: "srtcp_index s = ?i"
    and win: "\<And>ssrc. \<exists>S. window_rel (rtcp_windows r ssrc) S \<and> (\<forall>i\<in>S. i < k)"
    and tab: "fst ` set (rtcp_rx r) \<subseteq> A" "distinct (map fst (rtcp_rx r))"
    using sync by (auto simp: rtcp_sync_def)
  define s' where "s' = s\<lparr>srtcp_index := (srtcp_index s + 1) AND 0x7FFFFFFF\<rparr>"
  have pr: "protect_rtcp ks mac s p = (Inr (srtcp_bytes ks mac s ?i p), s')"
    using protect_rtcp_eq [OF p(1)] by (simp add: idx s'_def)
  have ui: "unat (ucast ?i :: u64) = k" using k by (simp add: unat_ucast_mod unat_index_of)
  obtain S where S: "window_rel (rtcp_windows r ?a) S" "\<forall>i\<in>S. i < k" using win by blast
  have adm: "admits (rtcp_windows r ?a) (ucast ?i)"
    by (rule admits_newer [OF S(1)]) (simp add: S(2) ui)
  have i: "unat ?i < 2147483648" using k by (simp add: unat_index_of)
  define w where "w = accept (rtcp_windows r ?a) (ucast ?i)"
  define r' where "r' = r\<lparr>rtcp_rx := store_source fst (rtcp_rx r) (?a, w)\<rparr>"
  have un: "unprotect_rtcp ks mac r (srtcp_bytes ks mac s ?i p) = (Inr p, r')"
    using unprotect_srtcp_bytes [OF mac p(1) i rtcp_room [OF tab A p(2)] adm, of ks]
    by (simp add: r'_def w_def srtcp_bytes_same_keys [OF keys])
  have "window_rel w (insert k S)" using window_rel_accept [OF S(1) adm] by (simp add: ui w_def)
  moreover have "rtcp_windows r' = (rtcp_windows r)(?a := w)"
    by (auto simp: rtcp_windows_def r'_def)
  ultimately have win': "\<exists>S. window_rel (rtcp_windows r' ssrc) S \<and> (\<forall>i\<in>S. i < Suc k)" for ssrc
    using win [of ssrc] S(2) by (cases "ssrc = ?a") (force simp: less_Suc_eq)+
  have "fst ` set (rtcp_rx r') \<subseteq> insert ?a (fst ` set (rtcp_rx r))"
    using image_mono [OF set_store_source [of fst "rtcp_rx r" "(?a, w)"], of fst]
    by (simp add: r'_def)
  then have tab': "fst ` set (rtcp_rx r') \<subseteq> A"
    by (rule subset_trans) (simp add: tab(1) p(2))
  have tab2: "distinct (map fst (rtcp_rx r'))"
    using tab(2) by (simp add: r'_def distinct_store_source)
  have win1: "\<exists>S. window_rel (rtcp_windows r ssrc) S \<and> (\<forall>i\<in>S. i < Suc k)" for ssrc
    using win [of ssrc] less_SucI by blast
  have "rtcp_sync (Suc k) A s' r \<and> rtcp_sync (Suc k) A s' r'" if "Suc k < 2147483648"
  proof -
    have "srtcp_index s' = word_of_nat (Suc k)"
      using next_index [OF that] by (simp add: s'_def idx del: of_nat_Suc)
    moreover have "same_keys s' r" "same_keys s' r'"
      using keys by (simp_all add: same_keys_def s'_def r'_def)
    ultimately show ?thesis using win1 win' tab tab' tab2 by (simp add: rtcp_sync_def)
  qed
  with pr un show ?thesis by blast
qed

lemma srtcp_link_sync:
  assumes mac: "\<forall>k m. length (mac k m) = 20" and A: "finite A" "card A \<le> MAX_RX_SOURCES"
  shows "rtcp_sync k A s r \<Longrightarrow> k + length xs \<le> 2147483648 \<Longrightarrow>
    \<forall>(p, _)\<in>set xs. 8 \<le> length p \<and> be32_at p 4 \<in> A \<Longrightarrow>
    srtcp_link ks mac s r xs = map (Inr \<circ> fst) (filter snd xs)"
proof (induction xs arbitrary: k s r)
  case Nil
  then show ?case by simp
next
  case (Cons x xs)
  obtain p d where x: "x = (p, d)" by fastforce
  obtain s' r' where step:
    "protect_rtcp ks mac s p = (Inr (srtcp_bytes ks mac s (word_of_nat k) p), s')"
    "unprotect_rtcp ks mac r (srtcp_bytes ks mac s (word_of_nat k) p) = (Inr p, r')"
    "Suc k < 2147483648 \<longrightarrow> rtcp_sync (Suc k) A s' r \<and> rtcp_sync (Suc k) A s' r'"
    using rtcp_sync_step [OF mac A Cons.prems(1), of p ks] Cons.prems(2,3) x by auto
  have "srtcp_link ks mac s' r xs = map (Inr \<circ> fst) (filter snd xs) \<and>
      srtcp_link ks mac s' r' xs = map (Inr \<circ> fst) (filter snd xs)"
  proof (cases xs)
    case Nil
    then show ?thesis by simp
  next
    case (Cons y ys)
    with Cons.prems(2) have "Suc k < 2147483648" by simp
    with step(3) Cons.IH [of "Suc k" s' r] Cons.IH [of "Suc k" s' r'] Cons.prems(2,3)
    show ?thesis by simp
  qed
  with step(1,2) show ?case by (simp add: x)
qed

section \<open>Initialisation vectors\<close>

text \<open>The vector of a packet of RFC 3711, from its source and its 48 bit index.\<close>

definition packet_iv :: "bytes \<Rightarrow> u32 \<Rightarrow> nat \<Rightarrow> bytes" where
  "packet_iv salt ssrc k = build_iv salt ssrc (roc_of k) (word_of_nat k)"

lemma distinct_ivs:
  assumes "m \<le> 2 ^ 48"
  shows "distinct (map (packet_iv salt ssrc) [n..<m])"
proof -
  have "inj_on (packet_iv salt ssrc) {n..<m}"
  proof (rule inj_onI)
    fix j k assume jk: "j \<in> {n..<m}" "k \<in> {n..<m}"
      and "packet_iv salt ssrc j = packet_iv salt ssrc k"
    then have "pkt_index (roc_of j) (word_of_nat j) = pkt_index (roc_of k) (word_of_nat k)"
      by (simp add: packet_iv_def build_iv_inj)
    then have "unat (pkt_index (roc_of j) (word_of_nat j)) = unat (pkt_index (roc_of k) (word_of_nat k))"
      by (rule arg_cong)
    with jk assms index_of_nat [of j] index_of_nat [of k] show "j = k" by (simp only:) auto
  qed
  then show ?thesis by (simp add: distinct_map)
qed

end
