(* ===== verification/Srtp_Properties.thy ===== *)
theory Srtp_Properties
  imports Srtp_Transport
begin

text \<open>
  The properties of the SRTP component (\<^verbatim>\<open>src/src/srtp.rs\<close>), stated over whole runs of the
  context's operations and over pairs of contexts, each with an instance at a concrete key,
  key stream and tag function.
\<close>

section \<open>An example key stream, tag function and context\<close>

definition demo_ks :: keystream where
  "demo_ks k iv i = (k ! (i mod 16)) + (iv ! (i mod 16)) * 31 + word_of_nat (i * 7 + 3)"

definition demo_mac :: hmac where
  "demo_mac k m = replicate 20 (foldl (\<lambda>a b. a * 31 + b) 7 (k @ m))"

definition demo_key :: bytes where
  "demo_key = map word_of_nat [1..<17]"

definition demo_salt :: bytes where
  "demo_salt = map word_of_nat [21..<35]"

definition demo_ctx :: SrtpContext where
  "demo_ctx = projr (SrtpContext_new demo_ks demo_key demo_salt)"

lemma demo_mac_length [simp]: "length (demo_mac k m) = 20"
  by (simp add: demo_mac_def)

lemma demo_ctx_new: "SrtpContext_new demo_ks demo_key demo_salt = Inr demo_ctx"
  using SrtpContext_new_ok [of demo_key demo_salt demo_ks] by (auto simp: demo_ctx_def demo_key_def demo_salt_def)

definition demo_packet :: "u16 \<Rightarrow> bytes" where
  "demo_packet seq = [128, 0] @ be16 seq @ be32 160 @ be32 0x12345678 @ [1, 2, 3]"

lemma demo_packet_fields:
  "be16_at (demo_packet q) 2 = q" "be32_at (demo_packet q) 8 = 0x12345678"
  "rtp_header_len (demo_packet q) = Some 12"
proof -
  show "be16_at (demo_packet q) 2 = q"
    unfolding demo_packet_def by (rule be16_at_append) simp
  show "be32_at (demo_packet q) 8 = 0x12345678"
    using be32_at_append [of "[128, 0] @ be16 q @ be32 160" 8 "0x12345678" "[1, 2, 3]"]
    by (simp add: demo_packet_def)
  show "rtp_header_len (demo_packet q) = Some 12"
    by (simp add: demo_packet_def rtp_header_len_def)
qed

lemma consecutive_demo:
  "consecutive 65534 0x12345678 (map demo_packet [65534, 65535, 0, 1])"
  by (simp add: demo_packet_fields)

section \<open>Replay protection\<close>

text \<open>The stream and the index of every incoming packet a run of operations accepts.\<close>

fun srtp_accepted ::
  "keystream \<Rightarrow> hmac \<Rightarrow> SrtpContext \<Rightarrow> srtp_event list \<Rightarrow> ((bool \<times> u32) \<times> nat) list" where
  "srtp_accepted ks mac ctx [] = []"
| "srtp_accepted ks mac ctx (e # es) =
    (if is_receive e \<and> is_ok (fst (srtp_step ks mac ctx e))
     then (event_source e, unat (event_index ctx e)) # srtp_accepted ks mac (snd (srtp_step ks mac ctx e)) es
     else srtp_accepted ks mac (snd (srtp_step ks mac ctx e)) es)"

lemma srtp_accepted_log: "srtp_accepted ks mac ctx es = srtp_rx.accepted_log ks mac ctx es"
  by (induction es arbitrary: ctx) (simp_all add: srtp_receive_def)

text \<open>C1: replay protection.  Whatever sequence of RTP and RTCP packets a context sends and
  receives (genuine, replayed, reordered or forged), no two packets it accepts have the same
  kind, the same SSRC and the same packet index.\<close>

theorem srtp_no_replay:
  assumes "SrtpContext_new ks k s = Inr ctx"
  shows "distinct (srtp_accepted ks mac ctx es)"
  unfolding srtp_accepted_log
  by (rule srtp_rx.accepted_log_distinct)
     (simp add: event_windows_new SrtpContext_new_state [OF assms])

definition demo_srtp :: "u16 \<Rightarrow> bytes" where
  "demo_srtp seq = projr (fst (protect_rtp demo_ks demo_mac demo_ctx (demo_packet seq)))"

theorem srtp_no_replay_witness:
  "distinct (srtp_accepted demo_ks demo_mac demo_ctx
     [RecvRtp (demo_srtp 7), RecvRtp (demo_srtp 7), RecvRtp (demo_srtp 9), RecvRtp (demo_srtp 8)])
   \<and> srtp_accepted demo_ks demo_mac demo_ctx
     [RecvRtp (demo_srtp 7), RecvRtp (demo_srtp 7), RecvRtp (demo_srtp 9), RecvRtp (demo_srtp 8)]
     = [((False, 0x12345678), 7), ((False, 0x12345678), 9), ((False, 0x12345678), 8)]"
proof
  show "distinct (srtp_accepted demo_ks demo_mac demo_ctx
     [RecvRtp (demo_srtp 7), RecvRtp (demo_srtp 7), RecvRtp (demo_srtp 9), RecvRtp (demo_srtp 8)])"
    by (rule srtp_no_replay [OF demo_ctx_new])
  show "srtp_accepted demo_ks demo_mac demo_ctx
     [RecvRtp (demo_srtp 7), RecvRtp (demo_srtp 7), RecvRtp (demo_srtp 9), RecvRtp (demo_srtp 8)]
     = [((False, 0x12345678), 7), ((False, 0x12345678), 9), ((False, 0x12345678), 8)]"
    by code_simp
qed

section \<open>Errors and the state\<close>

text \<open>C21: an operation that fails, for any of its reasons (malformed packet, too many sources,
  a bad tag, a replay), leaves the context exactly as it was.\<close>

theorem srtp_error_no_change:
  assumes "srtp_step ks mac ctx e = (Inl err, ctx')"
  shows "ctx' = ctx"
  using assms
  by (cases e)
     (auto simp: protect_rtp_def protect_rtcp_def Let_def dest: unprotect_rtp_error
       unprotect_rtcp_error split: if_splits option.splits)

theorem srtp_error_no_change_witness:
  "snd (srtp_step demo_ks demo_mac demo_ctx (RecvRtp (replicate 40 128))) = demo_ctx \<and>
   fst (srtp_step demo_ks demo_mac demo_ctx (RecvRtp (replicate 40 128))) =
     Inl (Srtp ''SRTP authentication failed'')"
proof -
  let ?e = "RecvRtp (replicate 40 128)"
  have "fst (srtp_step demo_ks demo_mac demo_ctx ?e) = Inl (Srtp ''SRTP authentication failed'')"
    by code_simp
  then have "srtp_step demo_ks demo_mac demo_ctx ?e =
      (Inl (Srtp ''SRTP authentication failed''), snd (srtp_step demo_ks demo_mac demo_ctx ?e))"
    by (simp add: prod_eq_iff)
  with srtp_error_no_change [OF this] show ?thesis by simp
qed

definition known_sources :: "SrtpContext \<Rightarrow> u32 set \<times> u32 set" where
  "known_sources ctx = (rs_ssrc ` set (rx ctx), fst ` set (rtcp_rx ctx))"

lemma known_sources_step:
  "fst (known_sources ctx) \<subseteq> fst (known_sources (snd (srtp_step ks mac ctx e))) \<and>
   snd (known_sources ctx) \<subseteq> snd (known_sources (snd (srtp_step ks mac ctx e)))"
proof -
  have store: "key ` set xs \<subseteq> key ` set (store_source key xs y)" for key :: "'a \<Rightarrow> u32" and xs y
    using arg_cong [OF store_source_keys [of key xs y], of set] by (auto split: if_splits)
  show ?thesis
  proof (cases e)
    case (RecvRtp p)
    show ?thesis
    proof (cases "rtp_admissible mac ctx p")
      case True
      then obtain n where "rtp_header_len (srtp_body p) = Some n" by (auto simp: rtp_admissible_def)
      from unprotect_rtp_accept [OF True this] RecvRtp store show ?thesis
        by (simp add: known_sources_def)
    next
      case False
      with RecvRtp show ?thesis by (simp add: unprotect_rtp_refused)
    qed
  next
    case (RecvRtcp p)
    with store show ?thesis
      by (cases "rtcp_admissible mac ctx p")
         (simp_all add: known_sources_def unprotect_rtcp_accept unprotect_rtcp_refused)
  qed (simp_all add: known_sources_def)
qed

lemma rx_inv_step [invs]: "rx_inv ctx \<Longrightarrow> rx_inv (snd (srtp_step ks mac ctx e))"
  by (cases e) (simp_all add: rx_inv_unprotect_rtp rx_inv_unprotect_rtcp, simp_all add: rx_inv_def)

lemma srtp_run_append: "srtp_run ks mac ctx (es @ fs) = srtp_run ks mac (srtp_run ks mac ctx es) fs"
  by (induction es arbitrary: ctx) simp_all

lemma rx_inv_run [invs]: "rx_inv ctx \<Longrightarrow> rx_inv (srtp_run ks mac ctx es)"
  by (induction es arbitrary: ctx) (simp_all add: rx_inv_step)

lemma known_sources_run:
  "fst (known_sources ctx) \<subseteq> fst (known_sources (srtp_run ks mac ctx es)) \<and>
   snd (known_sources ctx) \<subseteq> snd (known_sources (srtp_run ks mac ctx es))"
proof (induction es arbitrary: ctx)
  case (Cons e es)
  with known_sources_step [of ctx ks mac e] show ?case
    by (metis (no_types, lifting) srtp_run.simps(2) subset_trans)
qed simp

text \<open>C22: the receive state is bounded and never forgets.  After any run of a new context the
  table of sources holds at most 64 RTP and 64 RTCP entries, no source twice, each stored
  rollover counter and sequence number being those of the newest packet in its window; and
  whatever follows, no source known at that point is dropped.\<close>

theorem srtp_sources_bounded:
  assumes "SrtpContext_new ks k s = Inr ctx"
  shows "rx_inv (srtp_run ks mac ctx es) \<and>
    fst (known_sources (srtp_run ks mac ctx es)) \<subseteq> fst (known_sources (srtp_run ks mac ctx (es @ fs))) \<and>
    snd (known_sources (srtp_run ks mac ctx es)) \<subseteq> snd (known_sources (srtp_run ks mac ctx (es @ fs)))"
  using rx_inv_run [OF rx_inv_new [OF assms]] known_sources_run
  by (simp add: srtp_run_append)

theorem srtp_sources_bounded_witness:
  "rx_inv (srtp_run demo_ks demo_mac demo_ctx [RecvRtp (demo_srtp 7)])"
  using srtp_sources_bounded [OF demo_ctx_new, of demo_mac "[RecvRtp (demo_srtp 7)]" "[]"] by simp

section \<open>A stream under loss, reordering and rollover\<close>

text \<open>The packets of one source, protected by a new context, some of which reach a second one.\<close>

lemma protected_stream_delivered:
  assumes "\<forall>k m. length (mac k m) = 20" "SrtpContext_new ks k s = Inr ctx"
    and "consecutive n ssrc ps" "n + length ps \<le> 2 ^ 48" "n < 65536"
    and "n + j < 65536" "deliverable {j} j js" "\<forall>i\<in>set (j # js). i < length ps"
  shows "\<exists>sent. fst (protect_all ks mac ctx ps) = map Inr sent \<and>
    fst (unprotect_all ks mac ctx (map ((!) sent) (j # js))) = map (\<lambda>i. Inr (ps ! i)) (j # js)"
proof -
  note new = SrtpContext_new_state [OF assms(2)]
  define sent where "sent = map (\<lambda>(i, p). srtp_bytes ks mac ctx (roc_of i) p) (enumerate n ps)"
  have out: "fst (protect_all ks mac ctx ps) = map Inr sent"
    unfolding sent_def protect_all_stream [OF new(1) assms(3,5)] by (simp add: case_prod_unfold sealed_as_def)
  have nth: "sent ! i = srtp_bytes ks mac ctx (roc_of (n + i)) (ps ! i)"
    if "i < length ps" for i
    using that by (simp add: sent_def nth_enumerate_eq)
  have j: "j < length ps" using assms(8) by simp
  with receive_first [OF assms(1) _ _ _ new(2) assms(6)] consecutive_nth [OF assms(3)]
  obtain ctx' where first:
      "unprotect_rtp ks mac ctx (srtp_bytes ks mac ctx (roc_of (n + j)) (ps ! j)) = (Inr (ps ! j), ctx')"
      "in_sync n ssrc {j} j ctx'" "same_keys ctx ctx'"
    by blast
  have "fst (unprotect_all ks mac ctx' (map (\<lambda>j. srtp_bytes ks mac ctx (roc_of (n + j)) (ps ! j)) js)) =
      map (\<lambda>i. Inr (ps ! i)) js"
    using receive_all [OF assms(1,3,4) first(2,3) assms(7)] assms(8) by simp
  moreover have "map ((!) sent) js = map (\<lambda>j. srtp_bytes ks mac ctx (roc_of (n + j)) (ps ! j)) js"
    using assms(8) nth by simp
  ultimately have rest: "fst (unprotect_all ks mac ctx' (map ((!) sent) js)) = map (\<lambda>i. Inr (ps ! i)) js"
    by (simp only:)
  have "fst (unprotect_all ks mac ctx (map ((!) sent) (j # js))) =
      map (\<lambda>i. Inr (ps ! i)) (j # js)"
    using first(1) nth [OF j] rest by (simp add: case_prod_unfold Let_def)
  with out show ?thesis by blast
qed

text \<open>C2: a stream survives the network.  The packets of one source, numbered consecutively
  (and wrapping the 16 bit sequence number as often as they like), are protected by a new
  context; a second context with the same key gets any selection of them in any order, as
  long as the first to arrive is from before the first wrap, none is a duplicate, none is
  \<open>2\<^sup>1\<^sup>5\<close> or more ahead of the newest so far nor 64 or more behind it.  Every packet sent is
  protected, and every packet that arrives is decrypted to exactly what was sent.\<close>

theorem srtp_stream_recovered:
  assumes "\<forall>k m. length (mac k m) = 20" "SrtpContext_new ks k s = Inr ctx"
    and "consecutive n ssrc ps" "n + length ps \<le> 2 ^ 48" "n < 65536"
    and "n + j < 65536" "deliverable {j} j js" "\<forall>i\<in>set (j # js). i < length ps"
  shows "\<exists>sent. fst (protect_all ks mac ctx ps) = map Inr sent \<and>
    fst (unprotect_all ks mac ctx (map ((!) sent) (j # js))) = map (\<lambda>i. Inr (ps ! i)) (j # js)"
  by (rule protected_stream_delivered [OF assms])

theorem srtp_stream_recovered_witness:
  "let ps = map demo_packet [65534, 65535, 0, 1] in
   \<exists>sent. fst (protect_all demo_ks demo_mac demo_ctx ps) = map Inr sent \<and>
    fst (unprotect_all demo_ks demo_mac demo_ctx (map ((!) sent) [0, 3, 1])) =
      map (\<lambda>i. Inr (ps ! i)) [0, 3, 1]"
proof -
  show ?thesis
    unfolding Let_def
    by (rule srtp_stream_recovered [OF _ demo_ctx_new consecutive_demo]) simp_all
qed

section \<open>SRTCP\<close>

text \<open>C20: a lossy SRTCP link.  Up to \<open>2\<^sup>3\<^sup>1\<close> RTCP packets of at least 8 bytes, from at most 64
  sources, are protected by a new context one after the other; a second context with the
  same key receives those the network does not lose, and recovers each of them.\<close>

theorem srtcp_link_recovered:
  assumes "\<forall>k m. length (mac k m) = 20" "SrtpContext_new ks k s = Inr ctx"
    and "length xs \<le> 2 ^ 31" "\<forall>(p, _)\<in>set xs. 8 \<le> length p"
    and "card ((\<lambda>(p, _). be32_at p 4) ` set xs) \<le> MAX_RX_SOURCES"
  shows "srtcp_link ks mac ctx ctx xs = map (Inr \<circ> fst) (filter snd xs)"
proof -
  let ?A = "(\<lambda>(p, _). be32_at p 4) ` set xs"
  note new = SrtpContext_new_state [OF assms(2)]
  have "rtcp_sync 0 ?A ctx ctx"
    using window_rel_default by (force simp: rtcp_sync_def new same_keys_def rtcp_windows_def)
  then show ?thesis
    using assms(3,4) by (intro srtcp_link_sync [OF assms(1) _ assms(5)]) auto
qed

definition demo_rtcp :: "u32 \<Rightarrow> bytes" where
  "demo_rtcp ssrc = [128, 200, 0, 6] @ be32 ssrc @ [1, 2, 3, 4]"

theorem srtcp_link_recovered_witness:
  "srtcp_link demo_ks demo_mac demo_ctx demo_ctx
     [(demo_rtcp 5, True), (demo_rtcp 6, False), (demo_rtcp 5, True)] =
   [Inr (demo_rtcp 5), Inr (demo_rtcp 5)]"
proof -
  let ?xs = "[(demo_rtcp 5, True), (demo_rtcp 6, False), (demo_rtcp 5, True)]"
  have "card ((\<lambda>(p, _). be32_at p 4) ` set ?xs) \<le> card (set ?xs)"
    by (rule card_image_le) simp
  also have "\<dots> \<le> length ?xs" by (rule card_length)
  finally have "card ((\<lambda>(p, _). be32_at p 4) ` set ?xs) \<le> MAX_RX_SOURCES"
    by (simp add: MAX_RX_SOURCES_def)
  then have "srtcp_link demo_ks demo_mac demo_ctx demo_ctx ?xs = map (Inr \<circ> fst) (filter snd ?xs)"
    by (intro srtcp_link_recovered [OF _ demo_ctx_new]) (simp_all add: demo_rtcp_def)
  then show ?thesis by simp
qed

section \<open>Initialisation vectors\<close>

lemma protect_all_nth:
  assumes "SrtpContext_new ks k s = Inr ctx" "consecutive n ssrc ps" "n < 65536" "i < length ps"
  shows "\<exists>hl tag. rtp_header_len (ps ! i) = Some hl \<and> fst (protect_all ks mac ctx ps) ! i =
    Inr (take hl (ps ! i) @
      aes_128_cm_encrypt ks (session_key ctx) (packet_iv (session_salt ctx) ssrc (n + i)) (drop hl (ps ! i)) @ tag)"
proof -
  note p = consecutive_nth [OF assms(2,4)]
  then obtain hl where hl: "rtp_header_len (ps ! i) = Some hl" by blast
  have "fst (protect_all ks mac ctx ps) ! i = Inr (srtp_bytes ks mac ctx (roc_of (n + i)) (ps ! i))"
    using protect_all_stream [OF SrtpContext_new_state(1) [OF assms(1)] assms(2,3)] assms(4)
    by (simp add: sealed_as_def nth_enumerate_eq)
  with p hl show ?thesis by (simp add: srtp_bytes_def packet_iv_def Let_def)
qed

text \<open>C23: no key stream is used twice.  The packets of one source, numbered consecutively, are protected by a
  new context, for as long as the 48 bit packet index lasts.  What comes out of \<^verbatim>\<open>protect_rtp\<close> for packet \<open>i\<close> is its
  header in the clear, its payload encrypted under the vector of its own packet index, and a tag;
  and these vectors are pairwise different.\<close>

theorem srtp_ivs_distinct:
  assumes "SrtpContext_new ks k s = Inr ctx" "consecutive n ssrc ps" "n < 65536"
    and "n + length ps \<le> 2 ^ 48"
  shows "\<exists>ivs. distinct ivs \<and> length ivs = length ps \<and>
    (\<forall>i<length ps. ivs ! i = packet_iv (session_salt ctx) ssrc (n + i) \<and>
      (\<exists>hl tag. rtp_header_len (ps ! i) = Some hl \<and> fst (protect_all ks mac ctx ps) ! i =
        Inr (take hl (ps ! i) @ aes_128_cm_encrypt ks (session_key ctx) (ivs ! i) (drop hl (ps ! i)) @ tag)))"
  by (rule exI [of _ "map (packet_iv (session_salt ctx) ssrc) [n..<n + length ps]"])
     (use distinct_ivs [OF assms(4)] protect_all_nth [OF assms(1-3), of _ mac] in \<open>simp add: nth_append\<close>)

theorem srtp_ivs_distinct_witness:
  "let ps = map demo_packet [65534, 65535, 0, 1] in
   \<exists>ivs. distinct ivs \<and> length ivs = 4 \<and> ivs ! 2 = packet_iv (session_salt demo_ctx) 0x12345678 65536 \<and>
    (\<exists>hl tag. rtp_header_len (ps ! 2) = Some hl \<and> fst (protect_all demo_ks demo_mac demo_ctx ps) ! 2 =
      Inr (take hl (ps ! 2) @ aes_128_cm_encrypt demo_ks (session_key demo_ctx) (ivs ! 2) (drop hl (ps ! 2)) @ tag))"
proof -
  define ps where "ps = map demo_packet [65534, 65535, 0, 1]"
  have ps: "consecutive 65534 0x12345678 ps" "length ps = 4" using consecutive_demo by (simp_all add: ps_def)
  obtain ivs where d: "distinct ivs" "length ivs = length ps"
    and i: "\<And>i. i < length ps \<Longrightarrow> ivs ! i = packet_iv (session_salt demo_ctx) 0x12345678 (65534 + i) \<and>
      (\<exists>hl tag. rtp_header_len (ps ! i) = Some hl \<and> fst (protect_all demo_ks demo_mac demo_ctx ps) ! i =
        Inr (take hl (ps ! i) @ aes_128_cm_encrypt demo_ks (session_key demo_ctx) (ivs ! i) (drop hl (ps ! i)) @ tag))"
    using srtp_ivs_distinct [OF demo_ctx_new ps(1), of demo_mac] ps(2) by auto
  from i [of 2] d ps(2) show ?thesis unfolding Let_def ps_def [symmetric] by auto
qed

lemma tx_protect_rtp:
  "rtp_header_len p \<noteq> None \<Longrightarrow>
   tx (snd (protect_rtp ks mac ctx p)) = next_send_state (tx ctx) (be16_at p 2)"
  by (auto simp: protect_rtp_eq Let_def)

text \<open>The rollover counter follows the order of the calls, not the sequence numbers.  Of a
  sender whose last packet was number 65534 of some cycle, the packets 65535, 0 and 1
  protected in this order advance the counter by one; with the first two exchanged (the
  session draws sequence numbers and protects packets under different locks) the wrap is
  never counted, and packet 1 goes out under the old counter.\<close>

theorem srtp_wrap_needs_order:
  assumes "sender_at n (tx ctx)" "n mod 65536 = 65534"
    and "\<forall>p\<in>{a, b, c}. rtp_header_len p \<noteq> None"
    and "be16_at a 2 = 65535" "be16_at b 2 = 0" "be16_at c 2 = 1"
  shows "tx_roc (tx (snd (protect_all ks mac ctx [a, b, c]))) = roc_of n + 1 \<and>
    tx_roc (tx (snd (protect_all ks mac ctx [b, a, c]))) = roc_of n"
proof -
  have t: "tx_initialized (tx ctx)" "tx_roc (tx ctx) = roc_of n" "tx_s_l (tx ctx) = 65534"
    using assms(1,2) by (simp_all add: sender_at_def word_unat_eq_iff)
  have fold: "tx (snd (protect_all ks mac ctx ps)) =
      foldl next_send_state (tx ctx) (map (\<lambda>p. be16_at p 2) ps)"
    if "set ps \<subseteq> {a, b, c}" for ps
    using that
  proof (induction ps arbitrary: ctx)
    case (Cons p ps)
    with assms(3) have "rtp_header_len p \<noteq> None" by auto
    from tx_protect_rtp [OF this, of ks mac ctx] Cons show ?case
      by (simp add: case_prod_unfold Let_def)
  qed simp
  have f: "tx (snd (protect_all ks mac ctx [a, b, c])) = foldl next_send_state (tx ctx) [65535, 0, 1]"
    "tx (snd (protect_all ks mac ctx [b, a, c])) = foldl next_send_state (tx ctx) [0, 65535, 1]"
    using fold [of "[a, b, c]"] fold [of "[b, a, c]"] by (simp_all add: assms(4-6) del: protect_all.simps)
  show ?thesis
    unfolding f using t by (simp add: next_send_state_def Let_def)
qed

definition demo_sending :: SrtpContext where
  "demo_sending = demo_ctx\<lparr>tx := \<lparr>tx_roc = 0, tx_s_l = 65534, tx_initialized = True\<rparr>\<rparr>"

theorem srtp_wrap_needs_order_witness:
  "tx_roc (tx (snd (protect_all demo_ks demo_mac demo_sending
     [demo_packet 0, demo_packet 65535, demo_packet 1]))) = 0"
proof -
  have "sender_at 65534 (tx demo_sending)"
    by (simp add: sender_at_def demo_sending_def roc_of_def)
  from srtp_wrap_needs_order [OF this, of "demo_packet 65535" "demo_packet 0" "demo_packet 1"]
  show ?thesis by (simp add: demo_packet_fields roc_of_def)
qed

section \<open>Key material and SDP\<close>

lemma sdp_crypto_line:
  assumes "key \<noteq> []" "\<forall>c\<in>set key. c \<noteq> CHR ''|'' \<and> \<not> is_ws c"
  shows "sdp_crypto_of_line (''a=crypto:1 AES_CM_128_HMAC_SHA1_80 inline:'' @ key) = Some key"
proof -
  let ?pre = "''a=crypto:1 AES_CM_128_HMAC_SHA1_80 inline:''"
  let ?suite = "''AES_CM_128_HMAC_SHA1_80''" and ?inline = "''inline:''"
  have "\<not> is_ws (hd (?pre @ key))" by code_simp
  moreover have "\<not> is_ws (last (?pre @ key))" using assms by simp
  ultimately have t: "trim (?pre @ key) = ?pre @ key" by (intro trim_no_ws) simp_all
  have s: "?pre @ key = ''a=crypto:'' @ (''1'' @ CHR '' '' # (?suite @ CHR '' '' # (?inline @ key)))"
    by simp
  have sp: "strip_prefix ''a=crypto:'' (?pre @ key) =
      Some (''1'' @ CHR '' '' # (?suite @ CHR '' '' # (?inline @ key)))"
    unfolding s by (rule strip_prefix_append)
  have n1: "CHR '' '' \<notin> set ?suite" and n2: "CHR '' '' \<notin> set ''1''" by code_simp+
  have "splitn (Suc (Suc (Suc 0))) (CHR '' '') (''1'' @ CHR '' '' # (?suite @ CHR '' '' # (?inline @ key))) =
      [''1'', ?suite, ?inline @ key]"
    unfolding splitn_sep [OF n2] splitn_sep [OF n1] by (simp only: splitn.simps(2))
  then have sn: "splitn 3 (CHR '' '') (''1'' @ CHR '' '' # (?suite @ CHR '' '' # (?inline @ key))) =
      [''1'', ?suite, ?inline @ key]"
    by (simp only: numeral_3_eq_3)
  have "split_on (CHR ''|'') key = [key]" using assms(2) by (intro split_on_no_sep) blast
  then show ?thesis
    unfolding sdp_crypto_of_line_def t sp option.case Let_def sn
    by (simp add: starts_with_def)
qed

text \<open>C37: the crypto attribute survives SDP.  The attribute line built from base64 key
  material, wherever it stands in a description whose lines before it carry no crypto
  attribute of the same suite, is parsed back to the same key material.\<close>

theorem sdp_crypto_roundtrip:
  assumes "key \<noteq> []" "\<forall>c\<in>set key. c \<noteq> CHR ''|'' \<and> \<not> is_ws c"
    and "\<forall>l\<in>set before. newline \<notin> set l \<and> sdp_crypto_of_line l = None"
  shows "parse_sdp_crypto (concat (map crlf before) @ build_sdp_crypto_line key @ rest) = Some key"
proof -
  let ?line = "''a=crypto:1 AES_CM_128_HMAC_SHA1_80 inline:'' @ key"
  have "is_ws newline" "newline \<notin> set ''a=crypto:1 AES_CM_128_HMAC_SHA1_80 inline:''"
    by code_simp+
  then have nl: "newline \<notin> set ?line" using assms(2) by (metis UnE set_append)
  have b: "build_sdp_crypto_line key = crlf ?line"
    by (simp add: build_sdp_crypto_line_def crlf_def)
  have "lines_of (concat (map crlf before) @ build_sdp_crypto_line key @ rest) =
      before @ ?line # lines_of rest"
    using assms(3)
  proof (induction before)
    case Nil
    show ?case by (simp only: b list.map concat.simps append_Nil lines_of_crlf [OF nl])
  next
    case (Cons l ls)
    then show ?case by (simp add: lines_of_crlf)
  qed
  moreover have "first_some sdp_crypto_of_line (before @ ?line # ls) = Some key" for ls
    using assms(3)
  proof (induction before)
    case Nil
    show ?case by (simp only: append_Nil first_some.simps sdp_crypto_line [OF assms(1,2)] option.case)
  next
    case (Cons l ls)
    then show ?case by simp
  qed
  ultimately show ?thesis by (simp only: parse_sdp_crypto_def)
qed

theorem sdp_crypto_roundtrip_witness:
  "parse_sdp_crypto (concat (map crlf [''v=0'', ''m=audio 4000 RTP/SAVP 0'']) @
     build_sdp_crypto_line ''WVNfX19zZW1jdGwgKCkgewkyMjA7fQp9'' @ ''a=sendrecv'') =
   Some ''WVNfX19zZW1jdGwgKCkgewkyMjA7fQp9''"
proof (rule sdp_crypto_roundtrip)
  show "\<forall>c\<in>set ''WVNfX19zZW1jdGwgKCkgewkyMjA7fQp9''. c \<noteq> CHR ''|'' \<and> \<not> is_ws c" by code_simp
  show "\<forall>l\<in>set [''v=0'', ''m=audio 4000 RTP/SAVP 0'']. newline \<notin> set l \<and> sdp_crypto_of_line l = None"
    by code_simp
qed simp

end
