(* ===== verification/Rtcp.thy ===== *)
theory Rtcp
  imports Rtp_Prelude
begin

text \<open>
  RTCP packets: \<^verbatim>\<open>src/src/rtp/rtcp.rs\<close>.  The system clock, which the sender report reads, is an
  argument: \<open>now\<close> is the time since the Unix epoch in nanoseconds.
\<close>

datatype RtcpType =
  SenderReport | ReceiverReport | SourceDescription | Goodbye | ApplicationDefined

definition RtcpType_from_byte :: "u8 \<Rightarrow> RtcpType option" where
  "RtcpType_from_byte b =
    (if b = 200 then Some SenderReport
     else if b = 201 then Some ReceiverReport
     else if b = 202 then Some SourceDescription
     else if b = 203 then Some Goodbye
     else if b = 204 then Some ApplicationDefined
     else None)"

record RtcpPacket =
  packet_type :: RtcpType
  rtcp_ssrc :: u32
  rtcp_data :: bytes

definition RtcpPacket_parse :: "bytes \<Rightarrow> RtcpPacket option" where
  "RtcpPacket_parse data =
    (if length data < 8 then None
     else
      let version = drop_bit 6 (data ! 0) AND 3 in
      if version \<noteq> 2 then None
      else
       case RtcpType_from_byte (data ! 1) of
         None \<Rightarrow> None
       | Some t \<Rightarrow> Some \<lparr>packet_type = t, rtcp_ssrc = be32_at data 4, rtcp_data = data\<rparr>)"

definition ntp_seconds :: "nat \<Rightarrow> u32" where
  "ntp_seconds now = word_of_nat (now div 1000000000 + 2208988800)"

definition ntp_fraction :: "nat \<Rightarrow> u32" where
  "ntp_fraction now = word_of_nat ((now mod 1000000000) * 2 ^ 32 div 1000000000)"

definition build_rtcp_sr :: "nat \<Rightarrow> u32 \<Rightarrow> u32 \<Rightarrow> u32 \<Rightarrow> u32 \<Rightarrow> bytes" where
  "build_rtcp_sr now ssrc packets_sent octets_sent rtp_ts =
     [0x80, 200] @ be16 6 @ be32 ssrc @ be32 (ntp_seconds now) @ be32 (ntp_fraction now) @
     be32 rtp_ts @ be32 packets_sent @ be32 octets_sent"

definition build_rtcp_rr :: "u32 \<Rightarrow> u32 \<Rightarrow> u8 \<Rightarrow> u32 \<Rightarrow> u32 \<Rightarrow> u32 \<Rightarrow> bytes" where
  "build_rtcp_rr ssrc remote_ssrc loss_fraction cumulative_lost highest_seq jitter =
     [0x81, 201] @ be16 7 @ be32 ssrc @ be32 remote_ssrc @
     be32 (push_bit 24 (ucast loss_fraction) OR (cumulative_lost AND 0x00FFFFFF)) @
     be32 highest_seq @ be32 jitter @ be32 0 @ be32 0"

definition build_rtcp_bye :: "u32 \<Rightarrow> bytes" where
  "build_rtcp_bye ssrc = [0x81, 203] @ be16 1 @ be32 ssrc"

section \<open>Reading reports\<close>

text \<open>
  RFC 3550 as a specification: the fields a receiver of the report reads.  The report count
  of the first byte, the length field in 32 bit words minus one, and the fields of a sender
  report and of a report block.
\<close>

definition rtcp_well_sized :: "bytes \<Rightarrow> bool" where
  "rtcp_well_sized d \<longleftrightarrow> length d = 4 * (unat (be16_at d 2) + 1)"

record SenderInfo =
  si_ssrc :: u32
  si_ntp_sec :: u32
  si_ntp_frac :: u32
  si_rtp_ts :: u32
  si_packets :: u32
  si_octets :: u32

definition read_sender_info :: "bytes \<Rightarrow> SenderInfo option" where
  "read_sender_info d =
    (if length d \<ge> 28 \<and> d ! 1 = 200 then
       Some \<lparr> si_ssrc = be32_at d 4, si_ntp_sec = be32_at d 8, si_ntp_frac = be32_at d 12,
              si_rtp_ts = be32_at d 16, si_packets = be32_at d 20, si_octets = be32_at d 24 \<rparr>
     else None)"

record ReportBlock =
  rb_ssrc :: u32
  rb_source :: u32
  rb_fraction :: u8
  rb_lost :: u32
  rb_highest :: u32
  rb_jitter :: u32

definition read_report_block :: "bytes \<Rightarrow> ReportBlock option" where
  "read_report_block d =
    (if length d \<ge> 32 \<and> d ! 1 = 201 \<and> d ! 0 AND 31 = 1 then
       Some \<lparr> rb_ssrc = be32_at d 4, rb_source = be32_at d 8, rb_fraction = d ! 12,
              rb_lost = be32_at d 12 AND 0x00FFFFFF, rb_highest = be32_at d 16,
              rb_jitter = be32_at d 20 \<rparr>
     else None)"

lemma be32_at_step: "be32_at (x # xs) (Suc i) = be32_at xs i"
  by (simp add: be32_at_def numeral_eq_Suc)

lemma be32_at_skip: "length xs = k \<Longrightarrow> be32_at (xs @ ys) (k + i) = be32_at ys i"
  by (simp add: be32_at_def nth_append)

lemma be32_at_here: "be32_at (be32 w @ ys) 0 = w"
  using be32_at_append [of "[]" 0 w ys] by simp

lemma be32_at_end: "be32_at (be32 w) 0 = w"
  using be32_at_here [of w "[]"] by simp

text \<open>Peeling off the words of a report in front of the one that is read.\<close>

lemma be32_at_be32 [simp]: "4 \<le> i \<Longrightarrow> be32_at (be32 w @ ys) i = be32_at ys (i - 4)"
  using be32_at_skip [of "be32 w" 4 ys "i - 4"] by (simp only: le_add_diff_inverse length_be32)

lemma be32_at_be16 [simp]: "2 \<le> i \<Longrightarrow> be32_at (be16 w @ ys) i = be32_at ys (i - 2)"
  using be32_at_skip [of "be16 w" 2 ys "i - 2"] by (simp only: le_add_diff_inverse length_be16)

lemma be32_at_Cons [simp]: "1 \<le> i \<Longrightarrow> be32_at (x # ys) i = be32_at ys (i - 1)"
  by (cases i) (simp_all add: be32_at_step)

lemmas report_reads = be32_at_here be32_at_end

lemma lost_word:
  "(push_bit 24 (ucast (f :: u8)) OR (l AND 0x00FFFFFF)) AND 0x00FFFFFF = (l :: u32) AND 0x00FFFFFF"
proof -
  have m: "(0x00FFFFFF :: u32) = mask 24" by (simp add: mask_eq_exp_minus_1)
  have "(push_bit 24 (ucast f) :: u32) AND 0x00FFFFFF = 0"
    unfolding m by (rule bit_word_eqI) (auto simp: bit_simps)
  then show ?thesis by (simp add: word_ao_dist and.assoc)
qed

lemma lost_byte:
  "ucast (drop_bit 24 (push_bit 24 (ucast (f :: u8)) OR ((l :: u32) AND 0x00FFFFFF))) = f"
proof -
  have m: "(0x00FFFFFF :: u32) = mask 24" by (simp add: mask_eq_exp_minus_1)
  show ?thesis unfolding m by (rule bit_word_eqI) (auto simp: bit_simps)
qed

section \<open>Properties\<close>

text \<open>C38: reports say what was asked for.  A sender report, a receiver report and a goodbye
  built by the crate have the length they declare and are accepted by its own parser as the
  packet type and the SSRC they were built for; a receiver of the sender report reads the
  NTP time of the clock, the timestamp and both counters, and a receiver of the receiver
  report reads the source, the fraction, the lower 24 bits of the loss count, the highest
  sequence number and the jitter.\<close>

theorem rtcp_reports_read_back:
  "rtcp_well_sized (build_rtcp_sr now ssrc ps os ts) \<and>
   rtcp_well_sized (build_rtcp_rr ssrc remote f l hs j) \<and>
   rtcp_well_sized (build_rtcp_bye ssrc) \<and>
   map_option (\<lambda>p. (packet_type p, rtcp_ssrc p)) (RtcpPacket_parse (build_rtcp_sr now ssrc ps os ts))
     = Some (SenderReport, ssrc) \<and>
   map_option (\<lambda>p. (packet_type p, rtcp_ssrc p)) (RtcpPacket_parse (build_rtcp_rr ssrc remote f l hs j))
     = Some (ReceiverReport, ssrc) \<and>
   map_option (\<lambda>p. (packet_type p, rtcp_ssrc p)) (RtcpPacket_parse (build_rtcp_bye ssrc))
     = Some (Goodbye, ssrc) \<and>
   read_sender_info (build_rtcp_sr now ssrc ps os ts) =
     Some \<lparr>si_ssrc = ssrc, si_ntp_sec = ntp_seconds now, si_ntp_frac = ntp_fraction now,
       si_rtp_ts = ts, si_packets = ps, si_octets = os\<rparr> \<and>
   read_report_block (build_rtcp_rr ssrc remote f l hs j) =
     Some \<lparr>rb_ssrc = ssrc, rb_source = remote, rb_fraction = f, rb_lost = l AND 0x00FFFFFF,
       rb_highest = hs, rb_jitter = j\<rparr>"
proof -
  have len: "be16_at ([a, b] @ be16 w @ xs) 2 = w" for a b w xs
    by (rule be16_at_append) simp
  have frac: "build_rtcp_rr ssrc remote f l hs j ! 12 = f"
    using lost_byte [of f l] by (simp add: build_rtcp_rr_def nth_append be32_nth(1) numeral_2_eq_2)
  have "rtcp_well_sized (build_rtcp_sr now ssrc ps os ts)"
    "rtcp_well_sized (build_rtcp_rr ssrc remote f l hs j)" "rtcp_well_sized (build_rtcp_bye ssrc)"
    unfolding rtcp_well_sized_def build_rtcp_sr_def build_rtcp_rr_def build_rtcp_bye_def len
    by simp_all
  moreover have "drop_bit 6 (128 :: u8) AND 3 = 2" "drop_bit 6 (129 :: u8) AND 3 = 2"
    "(129 :: u8) AND 31 = 1"
    by code_simp+
  ultimately show ?thesis
    using frac
    by (simp add: RtcpPacket_parse_def read_sender_info_def read_report_block_def lost_word
        RtcpType_from_byte_def build_rtcp_sr_def build_rtcp_rr_def build_rtcp_bye_def report_reads)
qed

end
