(* ===== verification/Seq_Numbers.thy ===== *)
theory Seq_Numbers
  imports Rtp_Prelude
begin

text \<open>
  RFC 3550's extension of the 16 bit sequence number, as the statistics
  (\<^verbatim>\<open>src/src/rtp/stats.rs\<close>) and the jitter buffer (\<^verbatim>\<open>src/src/jitter.rs\<close>) both compute it:
  a step of more than \<open>2\<^sup>1\<^sup>5\<close> down is a wrap forward, one of more than \<open>2\<^sup>1\<^sup>5\<close> up a packet
  from before the last wrap.
\<close>

definition wrapped_forward :: "u16 \<Rightarrow> u16 \<Rightarrow> bool" where
  "wrapped_forward prev seq \<longleftrightarrow> seq < prev \<and> prev - seq > 32768"

definition wrapped_back :: "u16 \<Rightarrow> u16 \<Rightarrow> bool" where
  "wrapped_back prev seq \<longleftrightarrow> seq > prev \<and> seq - prev > 32768"

lemma unat_of_nat_u16: "unat (word_of_nat n :: u16) = n mod 65536"
  by (simp add: unsigned_of_nat take_bit_eq_mod)

lemma unat_of_nat_u32: "unat (word_of_nat n :: u32) = n mod 4294967296"
  by (simp add: unsigned_of_nat take_bit_eq_mod)

lemma wrapped_forward_unat:
  "wrapped_forward prev seq \<longleftrightarrow> unat seq + 32768 < unat prev"
  by (auto simp: wrapped_forward_def word_less_nat_alt unat_sub_if')

lemma wrapped_back_unat:
  "wrapped_back prev seq \<longleftrightarrow> unat prev + 32768 < unat seq"
  by (auto simp: wrapped_back_def word_less_nat_alt unat_sub_if')

text \<open>The two tests are right about packet numbers less than \<open>2\<^sup>1\<^sup>5\<close> apart.\<close>

lemma cycle_cases:
  fixes e h :: nat
  assumes "e < h + 32768" "h < e + 32768"
  obtains (same) "e div 65536 = h div 65536"
      "\<not> wrapped_forward (word_of_nat h) (word_of_nat e)" "\<not> wrapped_back (word_of_nat h) (word_of_nat e)"
  | (forward) "e div 65536 = Suc (h div 65536)"
      "wrapped_forward (word_of_nat h) (word_of_nat e)" "\<not> wrapped_back (word_of_nat h) (word_of_nat e)"
  | (backward) "h div 65536 = Suc (e div 65536)"
      "\<not> wrapped_forward (word_of_nat h) (word_of_nat e)" "wrapped_back (word_of_nat h) (word_of_nat e)"
proof -
  define a b where ab: "a = e div 65536" "b = h div 65536"
  define x y where xy: "x = e mod 65536" "y = h mod 65536"
  have e: "e = a * 65536 + x" and h: "h = b * 65536 + y" by (simp_all add: ab xy)
  have b16: "x < 65536" "y < 65536" by (simp_all add: xy)
  note w = wrapped_forward_unat wrapped_back_unat unat_of_nat_u16 xy [symmetric] ab [symmetric]
  consider "a = b" | "a = Suc b" | "b = Suc a"
    using assms b16 unfolding e h by linarith
  then show ?thesis
  proof cases
    case 1
    then have "\<not> x + 32768 < y" "\<not> y + 32768 < x" using assms unfolding e h by linarith+
    with 1 same show ?thesis by (simp add: w)
  next
    case 2
    then have "x + 32768 < y" "\<not> y + 32768 < x" using assms unfolding e h by linarith+
    with 2 forward show ?thesis by (simp add: w)
  next
    case 3
    then have "\<not> x + 32768 < y" "y + 32768 < x" using assms unfolding e h by linarith+
    with 3 backward show ?thesis by (simp add: w)
  qed
qed

text \<open>A 16 bit cycle count or a 32 bit one in front of the sequence number.\<close>

lemma unat_extend:
  assumes "unat c < 65536"
  shows "unat (push_bit 16 c OR ucast (s :: u16) :: u32) = unat c * 65536 + unat s"
proof -
  have "and (push_bit 16 c) (ucast s :: u32) = 0"
    by (rule bit_word_eqI) (auto simp: bit_simps dest: bit_imp_le_length)
  then have "push_bit 16 c OR ucast s = push_bit 16 c + (ucast s :: u32)"
    by (simp add: disjunctive_add_eq_or)
  moreover have "unat (push_bit 16 c) = unat c * 65536"
    using assms by (simp add: push_bit_eq_mult unat_word_ariths)
  moreover have "unat (ucast s :: u32) = unat s"
    using u16_lt [of s] by (simp add: unat_ucast_mod)
  ultimately show ?thesis
    using assms u16_lt [of s] by (simp add: unat_word_ariths)
qed

lemma extend_number:
  assumes "n < 4294967296" "c = word_of_nat (n div 65536)"
  shows "push_bit 16 c OR ucast (word_of_nat n :: u16) = (word_of_nat n :: u32)"
proof -
  have "n div 65536 < 65536" using assms(1) by (simp add: less_mult_imp_div_less)
  then have c: "unat c = n div 65536" by (simp add: assms(2) unat_of_nat_u32)
  with assms(1) have "unat (push_bit 16 c OR ucast (word_of_nat n :: u16)) = unat (word_of_nat n :: u32)"
    by (simp add: unat_extend less_mult_imp_div_less unat_of_nat_u16 unat_of_nat_u32)
  then show ?thesis by (simp add: word_unat_eq_iff)
qed

end
