(* ===== verification/Ieee_Float.thy ===== *)
theory Ieee_Float
  imports Complex_Main Rtp_Prelude
begin

text \<open>
  The floating point of the source, \<^verbatim>\<open>f64\<close> and \<^verbatim>\<open>f32\<close>: a value is a rational number, an
  infinity or NaN, and every operation rounds its exact result to the nearest
  representable value, ties to even, as IEEE 754 and Rust's specification demand.  The sign
  of zero is not kept (nothing in the modelled code observes it).  Conversions to integers
  truncate and saturate, as Rust's \<^verbatim>\<open>as\<close> does.
\<close>

datatype fp = Fin rat | PInf | MInf | NaN

section \<open>Rounding\<close>

definition pow2 :: "int \<Rightarrow> rat" where
  "pow2 e = (if e \<ge> 0 then of_int (2 ^ nat e) else 1 / of_int (2 ^ nat (- e)))"

function bit_length :: "int \<Rightarrow> nat" where
  "bit_length n = (if n \<le> 0 then 0 else Suc (bit_length (n div 2)))"
  by pat_completeness auto
termination by (relation "measure nat") auto

declare bit_length.simps [simp del]

text \<open>The exponent of the leading binary digit of a positive rational.\<close>

definition ilog2 :: "rat \<Rightarrow> int" where
  "ilog2 x = (case quotient_of x of (n, d) \<Rightarrow>
     let e = int (bit_length n) - int (bit_length d) in
     if pow2 e \<le> x then e else e - 1)"

definition nearest_even :: "rat \<Rightarrow> int" where
  "nearest_even y =
    (let f = floor y; r = y - of_int f in
     if r < 1 / 2 then f else if r > 1 / 2 then f + 1 else if even f then f else f + 1)"

definition round_rat :: "nat \<Rightarrow> int \<Rightarrow> rat \<Rightarrow> rat" where
  "round_rat prec emin x =
    (if x = 0 then 0
     else let q = pow2 (max (ilog2 \<bar>x\<bar>) emin - int prec + 1) in of_int (nearest_even (x / q)) * q)"

record fp_format =
  fp_prec :: nat
  fp_emin :: int
  fp_emax :: int

definition F64 :: fp_format where
  "F64 = \<lparr>fp_prec = 53, fp_emin = - 1022, fp_emax = 1023\<rparr>"

definition F32 :: fp_format where
  "F32 = \<lparr>fp_prec = 24, fp_emin = - 126, fp_emax = 127\<rparr>"

definition fp_round :: "fp_format \<Rightarrow> rat \<Rightarrow> fp" where
  "fp_round F x =
    (let r = round_rat (fp_prec F) (fp_emin F) x in
     if r \<noteq> 0 \<and> ilog2 \<bar>r\<bar> > fp_emax F then (if r > 0 then PInf else MInf)
     else Fin r)"

section \<open>Arithmetic\<close>

fun fp_add :: "fp_format \<Rightarrow> fp \<Rightarrow> fp \<Rightarrow> fp" where
  "fp_add F (Fin x) (Fin y) = fp_round F (x + y)"
| "fp_add F NaN _ = NaN"
| "fp_add F _ NaN = NaN"
| "fp_add F PInf MInf = NaN"
| "fp_add F MInf PInf = NaN"
| "fp_add F PInf _ = PInf"
| "fp_add F MInf _ = MInf"
| "fp_add F _ PInf = PInf"
| "fp_add F _ MInf = MInf"

fun fp_neg :: "fp \<Rightarrow> fp" where
  "fp_neg (Fin x) = Fin (- x)"
| "fp_neg PInf = MInf"
| "fp_neg MInf = PInf"
| "fp_neg NaN = NaN"

definition fp_sub :: "fp_format \<Rightarrow> fp \<Rightarrow> fp \<Rightarrow> fp" where
  "fp_sub F x y = fp_add F x (fp_neg y)"

definition fp_inf :: "rat \<Rightarrow> fp" where
  "fp_inf s = (if s > 0 then PInf else if s < 0 then MInf else NaN)"

fun fp_mul :: "fp_format \<Rightarrow> fp \<Rightarrow> fp \<Rightarrow> fp" where
  "fp_mul F (Fin x) (Fin y) = fp_round F (x * y)"
| "fp_mul F NaN _ = NaN"
| "fp_mul F _ NaN = NaN"
| "fp_mul F (Fin x) PInf = fp_inf x"
| "fp_mul F (Fin x) MInf = fp_inf (- x)"
| "fp_mul F PInf (Fin y) = fp_inf y"
| "fp_mul F MInf (Fin y) = fp_inf (- y)"
| "fp_mul F PInf PInf = PInf"
| "fp_mul F MInf MInf = PInf"
| "fp_mul F PInf MInf = MInf"
| "fp_mul F MInf PInf = MInf"

text \<open>Division; a zero divisor is a positive zero.\<close>

fun fp_div :: "fp_format \<Rightarrow> fp \<Rightarrow> fp \<Rightarrow> fp" where
  "fp_div F (Fin x) (Fin y) = (if y = 0 then fp_inf x else fp_round F (x / y))"
| "fp_div F NaN _ = NaN"
| "fp_div F _ NaN = NaN"
| "fp_div F (Fin x) PInf = Fin 0"
| "fp_div F (Fin x) MInf = Fin 0"
| "fp_div F PInf (Fin y) = (if y < 0 then MInf else PInf)"
| "fp_div F MInf (Fin y) = (if y < 0 then PInf else MInf)"
| "fp_div F _ _ = NaN"

text \<open>\<^verbatim>\<open>x as f64\<close> for an integer and \<^verbatim>\<open>x as uN\<close>, \<^verbatim>\<open>x as iN\<close> for a float: truncated,
  saturated at the bounds of the type, and 0 for NaN.\<close>

definition fp_of_int :: "fp_format \<Rightarrow> int \<Rightarrow> fp" where
  "fp_of_int F n = fp_round F (of_int n)"

definition trunc_rat :: "rat \<Rightarrow> int" where
  "trunc_rat x = (if x \<ge> 0 then floor x else ceiling x)"

fun fp_to_int :: "int \<Rightarrow> int \<Rightarrow> fp \<Rightarrow> int" where
  "fp_to_int lo hi (Fin x) = max lo (min hi (trunc_rat x))"
| "fp_to_int lo hi PInf = hi"
| "fp_to_int lo hi MInf = lo"
| "fp_to_int lo hi NaN = 0"

fun fp_lt :: "fp \<Rightarrow> fp \<Rightarrow> bool" where
  "fp_lt (Fin x) (Fin y) = (x < y)"
| "fp_lt NaN _ = False"
| "fp_lt _ NaN = False"
| "fp_lt MInf MInf = False"
| "fp_lt MInf _ = True"
| "fp_lt _ PInf = True"
| "fp_lt _ _ = False"

section \<open>Lemmas\<close>

lemma pow2_pos [simp]: "0 < pow2 e"
  by (simp add: pow2_def)

lemma pow2_add: "pow2 (a + b) = pow2 a * pow2 b"
proof -
  have p: "pow2 e = (2 :: rat) powi e" for e
    by (simp add: pow2_def power_int_def field_simps)
  show ?thesis by (simp add: p power_int_add)
qed

lemma nearest_even_of_int [simp]: "nearest_even (of_int n) = n"
  by (simp add: nearest_even_def)

lemma nearest_even_mono: "x \<le> y \<Longrightarrow> nearest_even x \<le> nearest_even y"
proof -
  assume xy: "x \<le> y"
  then have f: "floor x \<le> floor y" by (rule floor_mono)
  show ?thesis
  proof (cases "floor x = floor y")
    case True
    with xy show ?thesis by (auto simp: nearest_even_def Let_def)
  next
    case False
    with f have "floor x + 1 \<le> floor y" by simp
    then show ?thesis by (auto simp: nearest_even_def Let_def)
  qed
qed

lemma bit_length_bounds: "0 < n \<Longrightarrow> 2 ^ (bit_length n - 1) \<le> n \<and> n < 2 ^ bit_length n"
proof (induction n rule: bit_length.induct)
  case (1 n)
  show ?case
  proof (cases "n div 2 \<le> 0")
    case True
    with 1(2) have "n = 1" by linarith
    then show ?thesis by (simp add: bit_length.simps)
  next
    case False
    let ?b = "bit_length (n div 2)"
    have ih: "2 ^ (?b - 1) \<le> n div 2" "n div 2 < 2 ^ ?b" using 1 False by auto
    have "?b \<noteq> 0" using False by (simp add: bit_length.simps [of "n div 2"])
    then have "2 ^ ?b = 2 * (2 :: int) ^ (?b - 1)" by (metis power_eq_if)
    with ih have "2 ^ ?b \<le> n" "n < 2 * 2 ^ ?b" by linarith+
    with 1(2) show ?thesis by (simp add: bit_length.simps [of n])
  qed
qed

lemma pow2_nat: "pow2 (int n) = of_int (2 ^ n)"
  by (simp add: pow2_def)

lemma pow2_strict: "a < b \<Longrightarrow> pow2 a < pow2 b"
proof -
  assume "a < b"
  then have "pow2 b = pow2 a * of_int (2 ^ nat (b - a))" "0 < nat (b - a)"
    using pow2_add [of a "b - a"] by (simp_all add: pow2_def [of "b - a"])
  moreover from this(2) have "(1 :: rat) < of_int (2 ^ nat (b - a))" by simp
  ultimately show ?thesis by (metis mult.right_neutral mult_less_cancel_left_pos pow2_pos)
qed

lemma pow2_less_iff [simp]: "pow2 a < pow2 b \<longleftrightarrow> a < b"
  by (metis linorder_less_linear order_less_asym pow2_strict)

lemma pow2_le_iff [simp]: "pow2 a \<le> pow2 b \<longleftrightarrow> a \<le> b"
  by (metis linorder_not_less pow2_less_iff)

lemma bit_length_pow2:
  assumes "0 < n"
  shows "pow2 (int (bit_length n) - 1) \<le> of_int n \<and> of_int n < pow2 (int (bit_length n))"
proof -
  have "0 < bit_length n" using assms by (simp add: bit_length.simps [of n])
  then have "pow2 (int (bit_length n) - 1) = of_int (2 ^ (bit_length n - 1))"
    using pow2_nat [of "bit_length n - 1"] by (simp add: of_nat_diff)
  then show ?thesis
    unfolding pow2_nat using bit_length_bounds [OF assms] by (simp only: of_int_le_iff of_int_less_iff)
qed

lemma ilog2_bounds:
  assumes "0 < x"
  shows "pow2 (ilog2 x) \<le> x \<and> x < pow2 (ilog2 x + 1)"
proof -
  obtain n d where q: "quotient_of x = (n, d)" by fastforce
  have d: "0 < d" and x: "x = of_int n / of_int d"
    using quotient_of_denom_pos [OF q] quotient_of_div [OF q] by simp_all
  with assms have n: "0 < n" by (simp add: zero_less_divide_iff)
  let ?bn = "bit_length n" and ?bd = "bit_length d"
  note bounds = bit_length_pow2 [OF n] bit_length_pow2 [OF d]
  have lo: "pow2 (int ?bn - int ?bd - 1) < x"
  proof -
    have "pow2 (int ?bn - int ?bd - 1) * of_int d < pow2 (int ?bn - int ?bd - 1) * pow2 (int ?bd)"
      using bounds(2) by simp
    also have "\<dots> = pow2 (int ?bn - 1)" by (simp add: algebra_simps flip: pow2_add)
    finally have "pow2 (int ?bn - int ?bd - 1) * of_int d < of_int n" using bounds(1) by linarith
    then show ?thesis using d unfolding x by (simp only: pos_less_divide_eq of_int_0_less_iff)
  qed
  have hi: "x < pow2 (int ?bn - int ?bd + 1)"
  proof -
    have "of_int n < pow2 (int ?bn)" using bounds(1) by blast
    also have "\<dots> = pow2 (int ?bn - int ?bd + 1) * pow2 (int ?bd - 1)" by (simp flip: pow2_add)
    also have "\<dots> \<le> pow2 (int ?bn - int ?bd + 1) * of_int d" using bounds(2) by simp
    finally show ?thesis using d unfolding x by (simp only: pos_divide_less_eq of_int_0_less_iff)
  qed
  show ?thesis
    using lo hi by (auto simp: ilog2_def q Let_def)
qed

text \<open>A value with at most \<open>p\<close> significant binary digits is its own rounding.\<close>

lemma round_rat_exact:
  assumes "x = of_int m * pow2 k" "\<bar>m\<bar> < 2 ^ p" "emin - int p + 1 \<le> k"
  shows "round_rat p emin x = x"
proof (cases "m = 0")
  case True
  then show ?thesis by (simp add: assms(1) round_rat_def)
next
  case False
  then have x0: "0 < \<bar>x\<bar>" by (simp add: assms(1) order_less_imp_not_eq2)
  define j where "j = max (ilog2 \<bar>x\<bar>) emin - int p + 1"
  have "\<bar>x\<bar> < pow2 (int p + k)"
  proof -
    have "\<bar>x\<bar> = of_int \<bar>m\<bar> * pow2 k" by (simp add: assms(1) abs_mult less_imp_le)
    also have "\<dots> < 2 ^ p * pow2 k"
      using assms(2) by (metis mult_less_cancel_right_pos of_int_less_iff of_int_numeral of_int_power pow2_pos)
    finally show ?thesis by (simp add: pow2_add pow2_def [of "int p"])
  qed
  with ilog2_bounds [OF x0] have "pow2 (ilog2 \<bar>x\<bar>) < pow2 (int p + k)" by linarith
  then have "j \<le> k" using assms(3) by (simp add: j_def)
  then have x: "x = of_int (m * 2 ^ nat (k - j)) * pow2 j"
    using pow2_add [of "k - j" j] by (simp add: assms(1) pow2_def [of "k - j"])
  then have ne: "nearest_even (x / pow2 j) = m * 2 ^ nat (k - j)"
    using pow2_pos [of j] nearest_even_of_int [of "m * 2 ^ nat (k - j)"]
    by (metis nonzero_mult_div_cancel_right order_less_imp_not_eq2)
  have "x \<noteq> 0" using x0 by simp
  then have "round_rat p emin x = of_int (nearest_even (x / pow2 j)) * pow2 j"
    by (simp add: round_rat_def Let_def j_def)
  with x ne show ?thesis by simp
qed

lemma ilog2_le: "0 < x \<Longrightarrow> x < pow2 (e + 1) \<Longrightarrow> ilog2 x \<le> e"
proof -
  assume "0 < x" "x < pow2 (e + 1)"
  with ilog2_bounds [of x] have "pow2 (ilog2 x) < pow2 (e + 1)" by linarith
  then show ?thesis by simp
qed

lemma fp_round_exact:
  assumes "x = of_int m * pow2 k" "\<bar>m\<bar> < 2 ^ fp_prec F" "fp_emin F - int (fp_prec F) + 1 \<le> k"
    and "\<bar>x\<bar> < pow2 (fp_emax F + 1)"
  shows "fp_round F x = Fin x"
proof (cases "x = 0")
  case False
  with ilog2_le [OF _ assms(4)] show ?thesis
    by (simp add: fp_round_def round_rat_exact [OF assms(1-3)] Let_def not_less)
qed (simp add: fp_round_def round_rat_def)

lemma fp_round_int_F64: "\<bar>n\<bar> < 2 ^ 53 \<Longrightarrow> fp_round F64 (of_int n) = Fin (of_int n)"
proof -
  assume n: "\<bar>n\<bar> < 2 ^ 53"
  then have "of_int \<bar>n\<bar> < (of_int (2 ^ 53) :: rat)" by (simp only: of_int_less_iff)
  also have "\<dots> = pow2 53" by (simp add: pow2_def)
  also have "\<dots> < pow2 (fp_emax F64 + 1)" by (simp add: F64_def)
  finally show ?thesis
    by (intro fp_round_exact [where m = n and k = 0]) (use n in \<open>simp_all add: F64_def pow2_def\<close>)
qed

lemma fp_of_int_F64: "\<bar>n\<bar> < 2 ^ 53 \<Longrightarrow> fp_of_int F64 n = Fin (of_int n)"
  by (simp add: fp_of_int_def fp_round_int_F64)

lemma fp_to_int_bounds: "lo \<le> hi \<Longrightarrow> lo \<le> 0 \<Longrightarrow> 0 \<le> hi \<Longrightarrow> lo \<le> fp_to_int lo hi x \<and> fp_to_int lo hi x \<le> hi"
  by (cases x) auto

lemma ilog2_eq: "pow2 e \<le> x \<Longrightarrow> x < pow2 (e + 1) \<Longrightarrow> ilog2 x = e"
proof -
  assume x: "pow2 e \<le> x" "x < pow2 (e + 1)"
  then have "0 < x" using pow2_pos [of e] by linarith
  with ilog2_bounds [OF this] x have "pow2 e < pow2 (ilog2 x + 1)" "pow2 (ilog2 x) < pow2 (e + 1)" by linarith+
  then show ?thesis by simp
qed

lemma nearest_even_eq: "\<bar>y - of_int m\<bar> < 1 / 2 \<Longrightarrow> nearest_even y = m"
proof -
  assume y: "\<bar>y - of_int m\<bar> < 1 / 2"
  then have f: "floor y = m \<or> floor y = m - 1" by linarith
  then show ?thesis
  proof
    assume "floor y = m"
    moreover from this have "of_int (floor y) = (of_int m :: rat)" by simp
    with y have "y - of_int (floor y) < 1 / 2" by linarith
    ultimately show ?thesis by (simp add: nearest_even_def Let_def)
  next
    assume l: "floor y = m - 1"
    then have "of_int (floor y) = (of_int m - 1 :: rat)" by simp
    with y have "y - of_int (floor y) > 1 / 2" by linarith
    then show ?thesis unfolding nearest_even_def Let_def l by simp
  qed
qed

end
