(* ===== verification/Rtp_Stats.thy ===== *)
theory Rtp_Stats
  imports Seq_Numbers Ieee_Float
begin

text \<open>
  RTP statistics: \<^verbatim>\<open>src/src/rtp/stats.rs\<close>.  The atomic counters of \<^verbatim>\<open>RtpCounters\<close> are the fields of
  a record; an operation is a function on it (each counter is updated by a relaxed atomic
  operation, and the receive side is driven by one task, so that its operations do not
  interleave with each other).
\<close>

section \<open>State\<close>

record RtpStats =
  st_packets_sent :: u64
  st_packets_received :: u64
  st_bytes_sent :: u64
  st_bytes_received :: u64
  st_packets_lost :: u64
  st_jitter_ms :: fp
  st_codec_name :: string
  st_extended_highest_seq :: u32
  st_seq_cycles :: u16

record RtpCounters =
  packets_sent :: u64
  packets_received :: u64
  bytes_sent :: u64
  bytes_received :: u64
  packets_lost :: u64
  jitter_us :: u64
  codec_name :: string
  highest_seq :: u32
  expected_packets :: u64
  initialized :: bool
  base_seq :: u32

definition RtpCounters_new :: "string \<Rightarrow> RtpCounters" where
  "RtpCounters_new name =
     \<lparr> packets_sent = 0, packets_received = 0, bytes_sent = 0, bytes_received = 0,
       packets_lost = 0, jitter_us = 0, codec_name = name, highest_seq = 0,
       expected_packets = 0, initialized = False, base_seq = 0 \<rparr>"

definition RtpCounters_default :: RtpCounters where
  "RtpCounters_default = RtpCounters_new ''unknown''"

section \<open>Operations\<close>

definition snapshot :: "RtpCounters \<Rightarrow> RtpStats \<times> RtpCounters" where
  "snapshot c =
    (let received = packets_received c;
         lost = sat_sub (expected_packets c) received;
         highest = highest_seq c in
     (\<lparr> st_packets_sent = packets_sent c, st_packets_received = received,
        st_bytes_sent = bytes_sent c, st_bytes_received = bytes_received c,
        st_packets_lost = lost,
        st_jitter_ms = fp_div F64 (fp_of_int F64 (uint (jitter_us c))) (Fin 1000),
        st_codec_name = codec_name c, st_extended_highest_seq = highest,
        st_seq_cycles = ucast (drop_bit 16 highest) \<rparr>,
      c\<lparr>packets_lost := lost\<rparr>))"

definition record_sent :: "RtpCounters \<Rightarrow> u64 \<Rightarrow> RtpCounters" where
  "record_sent c n = c\<lparr>packets_sent := packets_sent c + 1, bytes_sent := bytes_sent c + n\<rparr>"

definition next_cycles :: "u32 \<Rightarrow> u16 \<Rightarrow> u16 \<Rightarrow> u32" where
  "next_cycles cycles prev_seq seq =
    (if seq < prev_seq \<and> prev_seq - seq > 32768 then cycles + 1
     else if seq > prev_seq \<and> seq - prev_seq > 32768 then cycles - 1
     else cycles)"

definition record_received :: "RtpCounters \<Rightarrow> u64 \<Rightarrow> u16 \<Rightarrow> RtpCounters" where
  "record_received c n seq =
    (let c = c\<lparr>packets_received := packets_received c + 1, bytes_received := bytes_received c + n\<rparr> in
     if \<not> initialized c then
       c\<lparr>initialized := True, base_seq := ucast seq, highest_seq := ucast seq, expected_packets := 1\<rparr>
     else
      let prev_extended = highest_seq c;
          prev_seq = ucast (prev_extended AND 0xFFFF) :: u16;
          cycles = drop_bit 16 prev_extended;
          new_cycles = next_cycles cycles prev_seq seq;
          new_extended = push_bit 16 new_cycles OR ucast seq in
      if new_extended > prev_extended \<or> new_cycles > cycles then
        c\<lparr>highest_seq := new_extended, expected_packets := ucast (new_extended - base_seq c + 1)\<rparr>
      else c)"

definition update_jitter :: "RtpCounters \<Rightarrow> u64 \<Rightarrow> RtpCounters" where
  "update_jitter c transit_diff_us =
    (let prev_jitter = fp_of_int F64 (uint (jitter_us c));
         d = fp_of_int F64 (uint transit_diff_us);
         new_jitter = fp_add F64 prev_jitter (fp_div F64 (fp_sub F64 d prev_jitter) (Fin 16)) in
     c\<lparr>jitter_us := word_of_int (fp_to_int 0 (2 ^ 64 - 1) new_jitter)\<rparr>)"

definition reset_counters :: "RtpCounters \<Rightarrow> RtpCounters" where
  "reset_counters c =
     c\<lparr> packets_sent := 0, packets_received := 0, bytes_sent := 0, bytes_received := 0,
        packets_lost := 0, jitter_us := 0, highest_seq := 0, expected_packets := 0,
        initialized := False, base_seq := 0 \<rparr>"

definition extended_highest_seq :: "RtpCounters \<Rightarrow> u32" where
  "extended_highest_seq c = highest_seq c"

definition seq_cycles_of :: "RtpCounters \<Rightarrow> u16" where
  "seq_cycles_of c = ucast (drop_bit 16 (highest_seq c))"

section \<open>The extended sequence number\<close>

lemma low_16: "ucast ((word_of_nat h :: u32) AND 0xFFFF) = (word_of_nat h :: u16)"
proof -
  have m: "(0xFFFF :: u32) = mask 16" by (simp add: mask_eq_exp_minus_1)
  show ?thesis
    unfolding m by (rule bit_word_eqI) (auto simp: bit_simps)
qed

lemma high_16: "h < 4294967296 \<Longrightarrow> drop_bit 16 (word_of_nat h :: u32) = word_of_nat (h div 65536)"
proof -
  assume h: "h < 4294967296"
  have "unat (drop_bit 16 (word_of_nat h :: u32)) = drop_bit 16 (unat (word_of_nat h :: u32))"
    by (rule unat_drop_bit_eq)
  also have "\<dots> = h div 65536" using h by (simp add: unat_of_nat_u32 drop_bit_eq_div)
  finally have d: "unat (drop_bit 16 (word_of_nat h :: u32)) = h div 65536" .
  have "h div 65536 < 4294967296" using h by (simp add: less_mult_imp_div_less)
  with d show ?thesis by (simp only: word_unat_eq_iff unat_of_nat_u32 mod_less)
qed

text \<open>What the counters know of a source whose packets number from \<open>b\<close> on, the highest so
  far being \<open>h\<close>.\<close>

definition tracks :: "nat \<Rightarrow> nat \<Rightarrow> RtpCounters \<Rightarrow> bool" where
  "tracks b h c \<longleftrightarrow> initialized c \<and> b < 65536 \<and> b \<le> h \<and> Suc h < 4294967296 \<and>
     base_seq c = word_of_nat b \<and> highest_seq c = word_of_nat h \<and>
     unat (expected_packets c) = h - b + 1"

lemma tracks_first:
  "b < 65536 \<Longrightarrow> \<not> initialized c \<Longrightarrow> tracks b b (record_received c n (word_of_nat b))"
  by (simp add: tracks_def record_received_def Let_def word_unat_eq_iff unat_ucast_mod
      unat_of_nat_u16 unat_of_nat_u32)

lemma tracks_next:
  assumes t: "tracks b h c" and near: "e < h + 32768" "h < e + 32768" and e: "Suc e < 4294967296"
  shows "tracks b (max h e) (record_received c n (word_of_nat e))"
proof -
  let ?s = "word_of_nat e :: u16" and ?p = "word_of_nat h :: u16"
  have c: "initialized c" "b < 65536" "b \<le> h" "Suc h < 4294967296" "base_seq c = word_of_nat b"
    "highest_seq c = word_of_nat h" "unat (expected_packets c) = h - b + 1"
    using t by (simp_all add: tracks_def)
  define cyc where "cyc = (word_of_nat (h div 65536) :: u32)"
  define new where "new = (word_of_nat (e div 65536) :: u32)"
  have div_lt: "h div 65536 < 65536" "e div 65536 < 65536"
    using c(4) e by (simp_all add: less_mult_imp_div_less)
  have new_cycles: "next_cycles cyc ?p ?s = new"
    using near
    by (cases rule: cycle_cases [where e = e and h = h])
       (simp_all add: next_cycles_def wrapped_forward_def wrapped_back_def cyc_def new_def)
  have ext: "push_bit 16 new OR ucast ?s = (word_of_nat e :: u32)"
    using extend_number [of e] e by (simp add: new_def)
  have cyc: "drop_bit 16 (word_of_nat h :: u32) = cyc"
    unfolding cyc_def by (rule high_16) (use c(4) in simp)
  have "word_of_nat e > (word_of_nat h :: u32) \<longleftrightarrow> h < e"
    using c(4) e by (simp add: word_less_nat_alt unat_of_nat_u32)
  moreover have "new > cyc \<longrightarrow> h < e"
    using div_lt div_le_mono [of e h 65536]
    by (auto simp: word_less_nat_alt unat_of_nat_u32 new_def cyc_def not_less)
  ultimately have cond: "word_of_nat e > (word_of_nat h :: u32) \<or> new > cyc \<longleftrightarrow> h < e" by blast
  let ?c = "c\<lparr>packets_received := packets_received c + 1, bytes_received := bytes_received c + n\<rparr>"
  have step: "record_received c n ?s =
      (if h < e then ?c\<lparr>highest_seq := word_of_nat e,
        expected_packets := ucast (word_of_nat e - base_seq c + 1)\<rparr> else ?c)"
    using c(1,6) by (simp add: record_received_def Let_def low_16 cyc new_cycles ext cond)
  show ?thesis
  proof (cases "h < e")
    case True
    have "unat (word_of_nat e - base_seq c + 1 :: u32) = (e - b + 1) mod 4294967296"
    proof -
      have "word_of_nat e - base_seq c + 1 = (word_of_nat (e - b + 1) :: u32)"
        using True c(3,5) by (simp add: of_nat_diff)
      then show ?thesis by (simp only: unat_of_nat_u32)
    qed
    moreover have "e - b + 1 < 4294967296" using e by linarith
    ultimately show ?thesis
      using True c e by (simp add: step tracks_def unat_ucast_mod)
  next
    case False
    with c show ?thesis by (simp add: step tracks_def)
  qed
qed

section \<open>Streams\<close>

text \<open>Packet numbers that stay less than \<open>2\<^sup>1\<^sup>5\<close> from the highest seen before them.\<close>

fun in_reach :: "nat \<Rightarrow> nat list \<Rightarrow> bool" where
  "in_reach h [] \<longleftrightarrow> True"
| "in_reach h (e # es) \<longleftrightarrow> e < h + 32768 \<and> h < e + 32768 \<and> Suc e < 2 ^ 32 \<and> in_reach (max h e) es"

fun receive_stream :: "RtpCounters \<Rightarrow> (nat \<times> u64) list \<Rightarrow> RtpCounters" where
  "receive_stream c [] = c"
| "receive_stream c ((e, n) # es) = receive_stream (record_received c n (word_of_nat e)) es"

lemma tracks_stream:
  "tracks b h c \<Longrightarrow> in_reach h (map fst es) \<Longrightarrow>
   tracks b (foldl max h (map fst es)) (receive_stream c es)"
proof (induction es arbitrary: h c)
  case (Cons x es)
  obtain e n where x: "x = (e, n)" by fastforce
  with Cons tracks_next [of b h c e n] show ?case by simp
qed simp

lemma record_received_counts [simp]:
  "packets_received (record_received c n s) = packets_received c + 1"
  "bytes_received (record_received c n s) = bytes_received c + n"
  "packets_sent (record_received c n s) = packets_sent c"
  by (simp_all add: record_received_def Let_def)

lemma receive_stream_counts:
  "packets_received (receive_stream c es) = packets_received c + word_of_nat (length es)"
  "bytes_received (receive_stream c es) = bytes_received c + sum_list (map snd es)"
  by (induction es arbitrary: c) (auto simp: algebra_simps split: prod.splits)

lemma foldl_max: "foldl max h es = Max (insert h (set (es :: nat list)))"
proof (induction es arbitrary: h)
  case (Cons e es)
  have "Max (insert h (insert e (set es))) = Max (insert (max h e) (set es))"
    by (cases "set es = {}") (simp_all add: max.assoc)
  with Cons show ?case by simp
qed simp

text \<open>C19: the loss count survives wraps and reordering.  When a source's packets, the first of
  them numbered below 65536, arrive in any order that stays less than \<open>2\<^sup>1\<^sup>5\<close> numbers from
  the highest so far, the extended sequence number is that of the highest packet, the
  packets expected are those from the first to the highest, and a snapshot reports as lost
  exactly the expected packets that were not received.\<close>

theorem stats_stream_loss:
  fixes name :: string and n :: u64
  assumes "b < 65536" "in_reach b (map fst es)" "Suc (length es) < 2 ^ 64"
  defines "c \<equiv> receive_stream (RtpCounters_new name) ((b, n) # es)"
    and "peak \<equiv> Max (insert b (fst ` set es))"
  shows "unat (extended_highest_seq c) = peak \<and> unat (expected_packets c) = peak - b + 1 \<and>
    unat (packets_received c) = Suc (length es) \<and>
    unat (st_packets_lost (fst (snapshot c))) = (peak - b + 1) - Suc (length es)"
proof -
  have "tracks b b (record_received (RtpCounters_new name) n (word_of_nat b))"
    using assms(1) by (intro tracks_first) (simp_all add: RtpCounters_new_def)
  then have t: "tracks b peak c"
    using tracks_stream [OF _ assms(2)] by (simp add: c_def peak_def foldl_max)
  then have top: "unat (highest_seq c) = peak" "unat (expected_packets c) = peak - b + 1"
    by (simp_all add: tracks_def unat_of_nat_u32)
  have "packets_received c = word_of_nat (Suc (length es))"
    by (simp add: c_def receive_stream_counts RtpCounters_new_def)
  then have "unat (packets_received c) = Suc (length es)"
    using assms(3) by (simp add: unsigned_of_nat take_bit_eq_mod del: of_nat_Suc)
  with top show ?thesis
    by (simp add: extended_highest_seq_def snapshot_def Let_def)
qed

theorem stats_stream_loss_witness:
  "unat (st_packets_lost (fst (snapshot (receive_stream (RtpCounters_new ''PCMU'')
     [(65534, 160), (65536, 160), (65535, 160), (65540, 160)])))) = 3"
proof -
  have "in_reach 65534 (map fst [(65536, 160), (65535, 160), (65540, 160 :: u64)])" by simp
  from stats_stream_loss [OF _ this, of "''PCMU''" 160] show ?thesis by simp
qed

text \<open>A packet from before the first one upsets the loss count.  If the second packet to
  arrive is numbered more than \<open>2\<^sup>1\<^sup>5\<close> above the first (it was sent before the first, across
  a wrap, though not exactly one before it), the cycle count drops below zero, and until the next wrap more than four billion
  packets are reported lost although none is.\<close>

theorem stats_reorder_before_first:
  fixes name :: string and n n' :: u64
  assumes "unat s + 32768 < unat s'" "unat s' < unat s + 65535"
  defines "c \<equiv> record_received (record_received (RtpCounters_new name) n s) n' s'"
  shows "extended_highest_seq c = 0xFFFF0000 OR ucast s' \<and>
    4294934526 < unat (st_packets_lost (fst (snapshot c)))"
proof -
  define d where "d = record_received (RtpCounters_new name) n s"
  have c1: "initialized d" "base_seq d = ucast s" "highest_seq d = ucast s" "packets_received d = 1"
    by (simp_all add: d_def record_received_def RtpCounters_new_def Let_def)
  have m: "(0xFFFF :: u32) = mask 16" by (simp add: mask_eq_exp_minus_1)
  have prev: "ucast ((ucast s :: u32) AND 0xFFFF) = s"
    unfolding m by (rule bit_word_eqI) (auto simp: bit_simps)
  have cyc: "drop_bit 16 (ucast s :: u32) = 0"
    by (rule bit_word_eqI) (auto simp: bit_simps dest: bit_imp_le_length)
  have up: "s' > s \<and> s' - s > 32768" "\<not> s' < s"
    using assms(1) by (simp_all add: word_less_nat_alt unat_sub_if')
  have new: "next_cycles 0 s s' = - 1" using up by (simp add: next_cycles_def)
  have w: "NOT (mask 16) = (0xFFFF0000 :: u32)" "(0 :: u32) < - 1" by code_simp+
  have nw: "unat (0xFFFF0000 OR ucast s' :: u32) = 4294901760 + unat s'"
    using unat_extend [of "0xFFFF" s'] by (simp add: push_bit_eq_mult)
  define e where "e = (0xFFFF0000 OR ucast s' :: u32) - ucast s + 1"
  have "unat s < 65536" "unat s' < 65536" by (rule u16_lt)+
  then have "Suc (4294901760 + unat s' - unat s) < 4294967296" using assms(1,2) by linarith
  then have ue: "unat e = 4294901760 + unat s' - unat s + 1"
    using assms(1) u16_lt [of s'] by (simp add: e_def unat_word_ariths nw unat_sub_if' unat_ucast_mod)
  have c2: "c = d\<lparr>packets_received := packets_received d + 1, bytes_received := bytes_received d + n',
      highest_seq := 0xFFFF0000 OR ucast s', expected_packets := ucast e\<rparr>"
    unfolding c_def d_def [symmetric]
    by (simp add: record_received_def Let_def c1 prev cyc new w e_def)
  have "unat (expected_packets c) = unat e" "packets_received c = 2"
    using u32_lt [of e] by (simp_all add: c2 unat_ucast_mod c1)
  with ue assms(1) show ?thesis
    by (simp add: c2 extended_highest_seq_def snapshot_def Let_def unat_ucast_mod)
qed

theorem stats_reorder_before_first_witness:
  "4294934526 < unat (st_packets_lost (fst (snapshot
     (record_received (record_received (RtpCounters_new ''PCMU'') 160 5) 160 65530))))"
  using stats_reorder_before_first [of 5 65530 "''PCMU''" 160 160] by simp

section \<open>Jitter\<close>

lemma fp_round_sixteenth_F64:
  "\<bar>n\<bar> < 2 ^ 53 \<Longrightarrow> fp_round F64 (of_int n / 16) = Fin (of_int n / 16)"
proof -
  assume n: "\<bar>n\<bar> < 2 ^ 53"
  then have "of_int \<bar>n\<bar> < (of_int (2 ^ 53) :: rat)" by (simp only: of_int_less_iff)
  also have "\<dots> = pow2 53" by (simp add: pow2_def)
  also have "\<dots> < pow2 (fp_emax F64 + 1)" by (simp add: F64_def)
  finally have "of_int \<bar>n\<bar> < pow2 (fp_emax F64 + 1)" .
  then have "\<bar>of_int n / 16\<bar> < pow2 (fp_emax F64 + 1)" by (simp add: abs_if split: if_splits)
  then show ?thesis
    by (intro fp_round_exact [where m = n and k = "- 4"])
       (use n in \<open>simp_all add: F64_def pow2_def\<close>)
qed

text \<open>The jitter filter.  For deviations and an estimate below \<open>2\<^sup>4\<^sup>8\<close> microseconds the
  floating point update is exact up to the final truncation: the new estimate is the
  integer part of (15 * estimate + deviation) / 16, and so never exceeds the larger of the
  two.\<close>

theorem update_jitter_value:
  assumes "unat (jitter_us c) < 2 ^ 48" "unat d < 2 ^ 48"
  shows "unat (jitter_us (update_jitter c d)) = (15 * unat (jitter_us c) + unat d) div 16 \<and>
    unat (jitter_us (update_jitter c d)) \<le> max (unat (jitter_us c)) (unat d)"
proof -
  define p q where "p = unat (jitter_us c)" "q = unat d"
  have u: "uint (jitter_us c) = int p" "uint d = int q" by (simp_all add: p_q_def)
  have "p < 2 ^ 48" "q < 2 ^ 48" using assms by (simp_all add: p_q_def)
  then have b: "int p < 2 ^ 48" "int q < 2 ^ 48" by simp_all
  let ?s = "15 * int p + int q"
  have fp: "fp_add F64 (fp_of_int F64 (int p))
      (fp_div F64 (fp_sub F64 (fp_of_int F64 (int q)) (fp_of_int F64 (int p))) (Fin 16)) = Fin (of_int ?s / 16)"
  proof -
    have "fp_sub F64 (fp_of_int F64 (int q)) (fp_of_int F64 (int p)) = Fin (of_int (int q - int p))"
      using b fp_round_int_F64 [of "int q - int p"] by (simp add: fp_of_int_F64 fp_sub_def)
    moreover have "fp_div F64 (Fin (of_int (int q - int p))) (Fin 16) = Fin (of_int (int q - int p) / 16)"
      using b fp_round_sixteenth_F64 [of "int q - int p"] by simp
    moreover have "fp_add F64 (Fin (of_int (int p))) (Fin (of_int (int q - int p) / 16)) =
        fp_round F64 (of_int ?s / 16)"
    proof -
      have "x + (y - x) / 16 = (15 * x + y) / (16 :: rat)" for x y by (simp add: field_simps)
      then show ?thesis by (simp only: fp_add.simps of_int_diff of_int_add of_int_mult of_int_numeral)
    qed
    moreover have "fp_round F64 (of_int ?s / 16) = Fin (of_int ?s / 16)"
      using b by (intro fp_round_sixteenth_F64) simp
    ultimately show ?thesis using b by (simp only: fp_of_int_F64) (simp add: fp_of_int_F64)
  qed
  have "floor (of_int ?s / (16 :: rat)) = ?s div 16"
    using floor_divide_of_int_eq [of ?s 16, where 'a = rat] by simp
  then have t: "fp_to_int 0 (2 ^ 64 - 1) (Fin (of_int ?s / 16)) = ?s div 16"
    using b by (simp add: trunc_rat_def)
  have "jitter_us (update_jitter c d) = word_of_int (?s div 16)"
    unfolding update_jitter_def Let_def u fp t by simp
  moreover have "?s div 16 = int ((15 * p + q) div 16)" by (simp add: zdiv_int)
  ultimately have "unat (jitter_us (update_jitter c d)) = (15 * p + q) div 16"
    using b by (simp add: unsigned_of_nat take_bit_eq_mod)
  moreover have "(15 * p + q) div 16 \<le> max p q" by (simp add: max_def) linarith
  ultimately show ?thesis by (simp add: p_q_def)
qed

theorem update_jitter_value_witness:
  "unat (jitter_us (update_jitter ((RtpCounters_new ''PCMU'')\<lparr>jitter_us := 1000\<rparr>) 3000)) = 1125"
  using update_jitter_value [of "(RtpCounters_new ''PCMU'')\<lparr>jitter_us := 1000\<rparr>" 3000] by simp

end
