(* ===== verification/Stun.thy ===== *)
theory Stun
  imports Errors
begin

text \<open>
  The STUN client: \<^verbatim>\<open>src/src/stun.rs\<close>.  The message builder and parser are translated as they
  are; name resolution, the socket, the timeout and the random transaction ID are arguments
  of the functions that use them.
\<close>

definition DEFAULT_STUN_SERVERS :: "string list" where
  "DEFAULT_STUN_SERVERS =
     [''stun.l.google.com:19302'', ''stun1.l.google.com:19302'', ''stun2.l.google.com:19302'',
      ''stun3.l.google.com:19302'', ''stun4.l.google.com:19302'']"

definition STUN_BINDING_REQUEST :: u16 where "STUN_BINDING_REQUEST = 0x0001"
definition STUN_BINDING_RESPONSE :: u16 where "STUN_BINDING_RESPONSE = 0x0101"
definition STUN_MAGIC_COOKIE :: u32 where "STUN_MAGIC_COOKIE = 0x2112A442"
definition ATTR_MAPPED_ADDRESS :: u16 where "ATTR_MAPPED_ADDRESS = 0x0001"
definition ATTR_XOR_MAPPED_ADDRESS :: u16 where "ATTR_XOR_MAPPED_ADDRESS = 0x0020"

datatype IpAddr = V4 u32 | V6 bytes

record StunResult =
  public_ip :: IpAddr
  public_port :: u16
  local_ip :: IpAddr
  local_port :: u16

definition public_addr :: "StunResult \<Rightarrow> IpAddr \<times> u16" where
  "public_addr r = (public_ip r, public_port r)"

definition local_addr :: "StunResult \<Rightarrow> IpAddr \<times> u16" where
  "local_addr r = (local_ip r, local_port r)"

definition is_natted :: "StunResult \<Rightarrow> bool" where
  "is_natted r \<longleftrightarrow> public_ip r \<noteq> local_ip r \<or> public_port r \<noteq> local_port r"

section \<open>Messages\<close>

definition build_binding_request :: "bytes \<Rightarrow> bytes" where
  "build_binding_request transaction_id =
     be16 STUN_BINDING_REQUEST @ be16 0 @ be32 STUN_MAGIC_COOKIE @ transaction_id"

definition parse_xor_mapped_address :: "bytes \<Rightarrow> error + (IpAddr \<times> u16)" where
  "parse_xor_mapped_address data =
    (if length data < 8 then Inl (Stun ''XOR-MAPPED-ADDRESS too short'')
     else
      let family = data ! 1;
          xport = be16_at data 2;
          port = xport XOR ucast (drop_bit 16 STUN_MAGIC_COOKIE) in
      if family = 1 then Inr (V4 (be32_at data 4 XOR STUN_MAGIC_COOKIE), port)
      else if family = 2 then
        if length data < 20 then Inl (Stun ''XOR-MAPPED-ADDRESS IPv6 too short'')
        else Inl (Stun ''IPv6 STUN not yet supported'')
      else Inl (Stun (''Unknown address family: '' @ show_nat (unat family))))"

definition parse_mapped_address :: "bytes \<Rightarrow> error + (IpAddr \<times> u16)" where
  "parse_mapped_address data =
    (if length data < 8 then Inl (Stun ''MAPPED-ADDRESS too short'')
     else
      let family = data ! 1;
          port = be16_at data 2 in
      if family = 1 then Inr (V4 (from_be32 (data ! 4) (data ! 5) (data ! 6) (data ! 7)), port)
      else if family = 2 then Inl (Stun ''IPv6 STUN not yet supported'')
      else Inl (Stun (''Unknown address family: '' @ show_nat (unat family))))"

text \<open>\<^verbatim>\<open>(attr_len + 3) & !3\<close>.\<close>

definition padded :: "nat \<Rightarrow> nat" where
  "padded n = (n + 3) div 4 * 4"

text \<open>The loop over the attributes; \<open>limit\<close> is \<^verbatim>\<open>20 + msg_len\<close>.  The offset grows by at least
  four in every turn.\<close>

function parse_attributes :: "bytes \<Rightarrow> nat \<Rightarrow> nat \<Rightarrow> error + (IpAddr \<times> u16)" where
  "parse_attributes data limit offset =
    (if offset + 4 \<le> limit then
       let attr_type = be16_at data offset;
           attr_len = unat (be16_at data (offset + 2));
           offset' = offset + 4 in
       if offset' + attr_len > length data then Inl (Stun ''No mapped address in response'')
       else if attr_type = ATTR_XOR_MAPPED_ADDRESS then
         parse_xor_mapped_address (sub_range data offset' (offset' + attr_len))
       else if attr_type = ATTR_MAPPED_ADDRESS then
         parse_mapped_address (sub_range data offset' (offset' + attr_len))
       else parse_attributes data limit (offset' + padded attr_len)
     else Inl (Stun ''No mapped address in response''))"
  by pat_completeness auto
termination
  by (relation "measure (\<lambda>(data, limit, offset). limit - offset)") (auto simp: Let_def)

declare parse_attributes.simps [simp del]

definition parse_binding_response :: "bytes \<Rightarrow> bytes \<Rightarrow> error + (IpAddr \<times> u16)" where
  "parse_binding_response data expected_txn_id =
    (if length data < 20 then Inl (Stun ''Response too short'')
     else
      let msg_type = be16_at data 0 in
      if msg_type \<noteq> STUN_BINDING_RESPONSE then
        Inl (Stun (''Unexpected message type: 0x'' @ show_hex4 msg_type))
      else if be32_at data 4 \<noteq> STUN_MAGIC_COOKIE then Inl (Stun ''Invalid magic cookie'')
      else if sub_range data 8 20 \<noteq> expected_txn_id then Inl (Stun ''Transaction ID mismatch'')
      else
       let msg_len = unat (be16_at data 2) in
       if length data < 20 + msg_len then Inl (Stun ''Truncated message'')
       else parse_attributes data (20 + msg_len) 20)"

section \<open>Discovery\<close>

text \<open>The outcome of waiting for a datagram.\<close>

datatype wait_result = TimedOut | RecvFailed io_error_kind | Received bytes

text \<open>One query: what name resolution, the send, the receive and the local address of the socket
  give are arguments, as is the transaction ID.  A datagram of more than 512 bytes is cut.\<close>

definition discover_with_socket ::
  "string \<Rightarrow> (io_error_kind + 'addr list) \<Rightarrow> bytes \<Rightarrow> ('addr \<Rightarrow> bytes \<Rightarrow> io_error_kind option) \<Rightarrow>
   wait_result \<Rightarrow> (io_error_kind + (IpAddr \<times> u16)) \<Rightarrow> error + StunResult" where
  "discover_with_socket stun_server lookup transaction_id send_to recv local_address =
    (case lookup of
       Inl e \<Rightarrow> Inl (Network e)
     | Inr [] \<Rightarrow> Inl (Stun (''Could not resolve STUN server: '' @ stun_server))
     | Inr (stun_addr # _) \<Rightarrow>
        (case send_to stun_addr (build_binding_request transaction_id) of
           Some e \<Rightarrow> Inl (Network e)
         | None \<Rightarrow>
            (case recv of
               TimedOut \<Rightarrow> Inl (Stun ''STUN request timed out'')
             | RecvFailed e \<Rightarrow> Inl (Network e)
             | Received d \<Rightarrow>
                (case parse_binding_response (take 512 d) transaction_id of
                   Inl e \<Rightarrow> Inl e
                 | Inr (ip, port) \<Rightarrow>
                    (case local_address of
                       Inl e \<Rightarrow> Inl (Network e)
                     | Inr (lip, lport) \<Rightarrow>
                         Inr \<lparr>public_ip = ip, public_port = port, local_ip = lip,
                              local_port = lport\<rparr>)))))"

text \<open>The loop over the servers: the first success, or else the last error.\<close>

fun try_servers :: "(string \<Rightarrow> error + StunResult) \<Rightarrow> error option \<Rightarrow> string list \<Rightarrow> error + StunResult" where
  "try_servers query last_error [] =
     Inl (case last_error of None \<Rightarrow> Stun ''All STUN servers failed'' | Some e \<Rightarrow> e)"
| "try_servers query last_error (server # servers) =
    (case query server of
       Inr result \<Rightarrow> Inr result
     | Inl e \<Rightarrow> try_servers query (Some e) servers)"

definition discover_public_address :: "(string \<Rightarrow> error + StunResult) \<Rightarrow> error + StunResult" where
  "discover_public_address query = try_servers query None DEFAULT_STUN_SERVERS"

text \<open>\<open>bound\<close> is the outcome of binding the temporary socket.\<close>

definition discover :: "(io_error_kind + 'socket) \<Rightarrow> ('socket \<Rightarrow> string \<Rightarrow> error + StunResult) \<Rightarrow> error + StunResult" where
  "discover bound query =
    (case bound of Inl e \<Rightarrow> Inl (Network e) | Inr socket \<Rightarrow> discover_public_address (query socket))"

section \<open>A server's view\<close>

text \<open>RFC 5389 as a specification: attributes as type, length, value and padding, and a binding
  response made of them.\<close>

definition stun_attribute :: "u16 \<Rightarrow> bytes \<Rightarrow> bytes" where
  "stun_attribute t v = be16 t @ be16 (word_of_nat (length v)) @ v @ replicate (padded (length v) - length v) 0"

definition stun_response :: "bytes \<Rightarrow> bytes \<Rightarrow> bytes" where
  "stun_response txn attrs =
     be16 STUN_BINDING_RESPONSE @ be16 (word_of_nat (length attrs)) @ be32 STUN_MAGIC_COOKIE @ txn @ attrs"

definition xor_address :: "u32 \<Rightarrow> u16 \<Rightarrow> bytes" where
  "xor_address ip port =
     [0, 1] @ be16 (port XOR ucast (drop_bit 16 STUN_MAGIC_COOKIE)) @ be32 (ip XOR STUN_MAGIC_COOKIE)"

definition plain_address :: "u32 \<Rightarrow> u16 \<Rightarrow> bytes" where
  "plain_address ip port = [0, 1] @ be16 port @ be32 ip"

lemma padded_ge: "n \<le> padded n"
  unfolding padded_def by linarith

lemma xor_twice: "(x XOR y) XOR y = (x :: 'a::len word)"
  by (simp add: xor.assoc)

lemma parse_xor_address: "parse_xor_mapped_address (xor_address ip port) = Inr (V4 ip, port)"
proof -
  have "be16_at (xor_address ip port) 2 = port XOR ucast (drop_bit 16 STUN_MAGIC_COOKIE)"
    unfolding xor_address_def by (rule be16_at_append) simp
  moreover have "be32_at (xor_address ip port) 4 = ip XOR STUN_MAGIC_COOKIE"
    using be32_at_append [of "[0, 1] @ be16 (port XOR ucast (drop_bit 16 STUN_MAGIC_COOKIE))" 4
        "ip XOR STUN_MAGIC_COOKIE" "[]"] by (simp add: xor_address_def)
  moreover have "xor_address ip port ! 1 = 1" "length (xor_address ip port) = 8"
    by (simp_all add: xor_address_def)
  ultimately show ?thesis
    by (simp add: parse_xor_mapped_address_def Let_def xor_twice)
qed

lemma parse_plain_address: "parse_mapped_address (plain_address ip port) = Inr (V4 ip, port)"
proof -
  have "be16_at (plain_address ip port) 2 = port"
    unfolding plain_address_def by (rule be16_at_append) simp
  moreover have "from_be32 (plain_address ip port ! 4) (plain_address ip port ! 5)
      (plain_address ip port ! 6) (plain_address ip port ! 7) = ip"
    by (simp add: plain_address_def nth_append be32_nth)
  moreover have "plain_address ip port ! 1 = 1" "length (plain_address ip port) = 8"
    by (simp_all add: plain_address_def)
  ultimately show ?thesis by (simp add: parse_mapped_address_def Let_def)
qed

text \<open>One attribute at the offset: skipped when its type is another, parsed when it is not.\<close>

lemma length_attribute: "length v < 65536 \<Longrightarrow> length (stun_attribute t v) = 4 + padded (length v)"
  using padded_ge [of "length v"] by (simp add: stun_attribute_def)

lemma attribute_reads:
  assumes "length pre = k" "length v < 65536"
  shows "be16_at (pre @ stun_attribute t v @ rest) k = t"
    and "unat (be16_at (pre @ stun_attribute t v @ rest) (k + 2)) = length v"
    and "sub_range (pre @ stun_attribute t v @ rest) (k + 4) (k + 4 + length v) = v"
proof -
  let ?z = "replicate (padded (length v) - length v) (0 :: u8)"
  have d: "pre @ stun_attribute t v @ rest =
      pre @ be16 t @ (be16 (word_of_nat (length v)) @ v @ ?z @ rest)"
    "pre @ stun_attribute t v @ rest =
      (pre @ be16 t) @ be16 (word_of_nat (length v)) @ (v @ ?z @ rest)"
    "pre @ stun_attribute t v @ rest = (pre @ be16 t @ be16 (word_of_nat (length v))) @ v @ (?z @ rest)"
    by (simp_all add: stun_attribute_def)
  show "be16_at (pre @ stun_attribute t v @ rest) k = t"
    unfolding d(1) by (rule be16_at_append) (rule assms(1))
  have "be16_at (pre @ stun_attribute t v @ rest) (k + 2) = word_of_nat (length v)"
    unfolding d(2) by (rule be16_at_append) (simp add: assms(1))
  then show "unat (be16_at (pre @ stun_attribute t v @ rest) (k + 2)) = length v"
    using assms(2) by (simp add: unsigned_of_nat take_bit_eq_mod)
  show "sub_range (pre @ stun_attribute t v @ rest) (k + 4) (k + 4 + length v) = v"
    unfolding d(3) by (rule sub_range_append_exact) (simp_all add: assms(1))
qed

definition unknown_attribute :: "u16 \<times> bytes \<Rightarrow> bool" where
  "unknown_attribute a \<longleftrightarrow> fst a \<noteq> ATTR_XOR_MAPPED_ADDRESS \<and> fst a \<noteq> ATTR_MAPPED_ADDRESS \<and>
     length (snd a) < 65536"

definition attributes :: "(u16 \<times> bytes) list \<Rightarrow> bytes" where
  "attributes as = concat (map (\<lambda>(t, v). stun_attribute t v) as)"

lemma attributes_simps [simp]:
  "attributes [] = []" "attributes (a # as) = stun_attribute (fst a) (snd a) @ attributes as"
  by (simp_all add: attributes_def case_prod_unfold)

lemma parse_attributes_skip:
  "length pre = k \<Longrightarrow> \<forall>a\<in>set as. unknown_attribute a \<Longrightarrow> length v < 65536 \<Longrightarrow>
   limit \<ge> k + length (attributes as) + 4 \<Longrightarrow>
   parse_attributes (pre @ attributes as @ stun_attribute t v @ rest) limit k =
     parse_attributes ((pre @ attributes as) @ stun_attribute t v @ rest) limit (k + length (attributes as))"
proof (induction as arbitrary: pre k)
  case Nil
  then show ?case by simp
next
  case (Cons a as)
  let ?d = "pre @ attributes (a # as) @ stun_attribute t v @ rest"
  have a: "fst a \<noteq> ATTR_XOR_MAPPED_ADDRESS" "fst a \<noteq> ATTR_MAPPED_ADDRESS" "length (snd a) < 65536"
    using Cons.prems(2) by (simp_all add: unknown_attribute_def)
  have d: "?d = pre @ stun_attribute (fst a) (snd a) @ (attributes as @ stun_attribute t v @ rest)"
    by simp
  note reads = attribute_reads [OF Cons.prems(1) a(3), of "fst a" "attributes as @ stun_attribute t v @ rest", folded d]
  have len: "length (stun_attribute (fst a) (snd a)) = 4 + padded (length (snd a))"
    by (rule length_attribute [OF a(3)])
  have k': "length (pre @ stun_attribute (fst a) (snd a)) = k + 4 + padded (length (snd a))"
    using len Cons.prems(1) by simp
  have "k + 4 \<le> limit" "\<not> k + 4 + length (snd a) > length ?d"
    using Cons.prems(1,4) len padded_ge [of "length (snd a)"] by simp_all
  then have "parse_attributes ?d limit k = parse_attributes ?d limit (k + 4 + padded (length (snd a)))"
    using a reads by (subst parse_attributes.simps) (simp add: Let_def add.commute)
  also have "\<dots> = parse_attributes ((pre @ stun_attribute (fst a) (snd a)) @ attributes as @ stun_attribute t v @ rest)
      limit (k + 4 + padded (length (snd a)))" by simp
  also have "\<dots> = parse_attributes (((pre @ stun_attribute (fst a) (snd a)) @ attributes as) @ stun_attribute t v @ rest)
      limit (k + 4 + padded (length (snd a)) + length (attributes as))"
    using Cons.prems len by (intro Cons.IH [OF k']) auto
  finally show ?case using len by (simp add: add.assoc)
qed

lemma attr_types_differ [simp]:
  "ATTR_MAPPED_ADDRESS \<noteq> ATTR_XOR_MAPPED_ADDRESS" "ATTR_XOR_MAPPED_ADDRESS \<noteq> ATTR_MAPPED_ADDRESS"
  by code_simp+

lemma parse_attributes_address:
  assumes "length pre = k" "\<forall>a\<in>set as. unknown_attribute a" "length v < 65536"
    and "limit \<ge> k + length (attributes as) + 4"
    and "t = ATTR_XOR_MAPPED_ADDRESS \<and> f = parse_xor_mapped_address \<or>
      t = ATTR_MAPPED_ADDRESS \<and> f = parse_mapped_address"
  shows "parse_attributes (pre @ attributes as @ stun_attribute t v @ rest) limit k = f v"
proof -
  let ?k = "k + length (attributes as)"
  let ?d = "(pre @ attributes as) @ stun_attribute t v @ rest"
  have l: "length (pre @ attributes as) = ?k" using assms(1) by simp
  note reads = attribute_reads [OF l assms(3), of t rest]
  have "\<not> ?k + 4 + length v > length ?d"
    using assms(1) length_attribute [OF assms(3), of t] padded_ge [of "length v"] by simp
  with assms(4,5) reads have "parse_attributes ?d limit ?k = f v"
    by (subst parse_attributes.simps)
       (auto simp: Let_def add.commute)
  then show ?thesis using parse_attributes_skip [OF assms(1-4)] by simp
qed

lemma response_header:
  assumes "length txn = 12" "length attrs < 65536"
  shows "be16_at (stun_response txn attrs) 0 = STUN_BINDING_RESPONSE"
    and "unat (be16_at (stun_response txn attrs) 2) = length attrs"
    and "be32_at (stun_response txn attrs) 4 = STUN_MAGIC_COOKIE"
    and "sub_range (stun_response txn attrs) 8 20 = txn"
    and "length (stun_response txn attrs) = 20 + length attrs"
proof -
  let ?n = "word_of_nat (length attrs) :: u16"
  show "be16_at (stun_response txn attrs) 0 = STUN_BINDING_RESPONSE"
    unfolding stun_response_def using be16_at_append [of "[]" 0] by simp
  have "be16_at (stun_response txn attrs) 2 = ?n"
    unfolding stun_response_def by (rule be16_at_append) simp
  then show "unat (be16_at (stun_response txn attrs) 2) = length attrs"
    using assms(2) by (simp add: unsigned_of_nat take_bit_eq_mod)
  have d: "stun_response txn attrs = (be16 STUN_BINDING_RESPONSE @ be16 ?n) @ be32 STUN_MAGIC_COOKIE @ (txn @ attrs)"
    "stun_response txn attrs = (be16 STUN_BINDING_RESPONSE @ be16 ?n @ be32 STUN_MAGIC_COOKIE) @ txn @ attrs"
    by (simp_all add: stun_response_def)
  show "be32_at (stun_response txn attrs) 4 = STUN_MAGIC_COOKIE"
    unfolding d(1) by (rule be32_at_append) simp
  show "sub_range (stun_response txn attrs) 8 20 = txn"
    unfolding d(2) by (rule sub_range_append_exact) (simp_all add: assms(1))
  show "length (stun_response txn attrs) = 20 + length attrs"
    using assms(1) by (simp add: stun_response_def)
qed

lemma parse_attributes_sound:
  "parse_attributes d limit offset = Inr r \<Longrightarrow> limit \<le> length d \<Longrightarrow>
   \<exists>k n. offset \<le> k \<and> k + 4 + n \<le> length d \<and> n = unat (be16_at d (k + 2)) \<and>
     (be16_at d k = ATTR_XOR_MAPPED_ADDRESS \<and>
        parse_xor_mapped_address (sub_range d (k + 4) (k + 4 + n)) = Inr r \<or>
      be16_at d k = ATTR_MAPPED_ADDRESS \<and>
        parse_mapped_address (sub_range d (k + 4) (k + 4 + n)) = Inr r)"
proof (induction d limit offset rule: parse_attributes.induct)
  case (1 d limit offset)
  let ?n = "unat (be16_at d (offset + 2))"
  have in_range: "offset + 4 \<le> limit" "\<not> offset + 4 + ?n > length d"
    using 1(2) by (simp_all add: parse_attributes.simps [of d limit offset] Let_def split: if_splits)
  show ?case
  proof (cases "be16_at d offset = ATTR_XOR_MAPPED_ADDRESS \<or> be16_at d offset = ATTR_MAPPED_ADDRESS")
    case True
    with 1(2) in_range show ?thesis
      by (intro exI [of _ offset] exI [of _ ?n])
         (auto simp: parse_attributes.simps [of d limit offset] Let_def split: if_splits)
  next
    case False
    with 1(2) in_range have "parse_attributes d limit (offset + 4 + padded ?n) = Inr r"
      by (simp add: parse_attributes.simps [of d limit offset] Let_def)
    with 1(1) [OF in_range(1) refl refl refl in_range(2)] False 1(3)
    obtain k n where "offset + 4 + padded ?n \<le> k" "k + 4 + n \<le> length d" "n = unat (be16_at d (k + 2))"
      "be16_at d k = ATTR_XOR_MAPPED_ADDRESS \<and>
        parse_xor_mapped_address (sub_range d (k + 4) (k + 4 + n)) = Inr r \<or>
      be16_at d k = ATTR_MAPPED_ADDRESS \<and>
        parse_mapped_address (sub_range d (k + 4) (k + 4 + n)) = Inr r"
      by blast
    then show ?thesis by (intro exI [of _ k] exI [of _ n]) simp
  qed
qed

section \<open>Properties\<close>

text \<open>The client reads a server's answer.  From a binding response to its transaction, with
  any number of other attributes of any length before the address and anything behind it,
  the parser returns the address the server put in, XOR-mapped or plain.\<close>

theorem stun_response_parsed:
  assumes "length txn = 12" "\<forall>a\<in>set as. unknown_attribute a"
    and "length (attributes as @ stun_attribute t v @ rest) < 65536"
    and "(t, v) = (ATTR_XOR_MAPPED_ADDRESS, xor_address ip port) \<or>
      (t, v) = (ATTR_MAPPED_ADDRESS, plain_address ip port)"
  shows "parse_binding_response (stun_response txn (attributes as @ stun_attribute t v @ rest)) txn =
    Inr (V4 ip, port)"
proof -
  let ?attrs = "attributes as @ stun_attribute t v @ rest"
  let ?pre = "be16 STUN_BINDING_RESPONSE @ be16 (word_of_nat (length ?attrs)) @ be32 STUN_MAGIC_COOKIE @ txn"
  note h = response_header [OF assms(1,3)]
  have v: "length v = 8" using assms(4) by (auto simp: xor_address_def plain_address_def)
  obtain f where f: "t = ATTR_XOR_MAPPED_ADDRESS \<and> f = parse_xor_mapped_address \<or>
      t = ATTR_MAPPED_ADDRESS \<and> f = parse_mapped_address" "f v = Inr (V4 ip, port)"
    using assms(4) parse_xor_address [of ip port] parse_plain_address [of ip port] by blast
  have "parse_attributes (?pre @ attributes as @ stun_attribute t v @ rest) (20 + length ?attrs) 20 = f v"
    using assms(1,2) v f(1) by (intro parse_attributes_address) (simp_all add: stun_attribute_def)
  then have "parse_attributes (stun_response txn ?attrs) (20 + length ?attrs) 20 = f v"
    by (simp add: stun_response_def)
  with f(2) show ?thesis by (simp only: parse_binding_response_def h Let_def) simp
qed

definition demo_txn :: bytes where
  "demo_txn = map word_of_nat [1..<13]"

definition demo_response :: bytes where
  "demo_response = stun_response demo_txn (attributes [(0x8022, [65, 66, 67])] @
     stun_attribute ATTR_XOR_MAPPED_ADDRESS (xor_address 0xC0000201 32853) @ [])"

theorem stun_response_parsed_witness:
  "parse_binding_response demo_response demo_txn = Inr (V4 0xC0000201, 32853)"
  unfolding demo_response_def
  by (rule stun_response_parsed)
     (simp_all add: demo_txn_def unknown_attribute_def ATTR_XOR_MAPPED_ADDRESS_def
       ATTR_MAPPED_ADDRESS_def stun_attribute_def xor_address_def padded_def)

text \<open>C40: the client believes no other answer.  An address is returned only from a datagram that
  is a binding response with the magic cookie and the transaction ID of the request, whose
  declared length is there, and only out of one of its address attributes, read inside the
  datagram.\<close>

theorem stun_response_sound:
  assumes "parse_binding_response d txn = Inr r"
  shows "20 + unat (be16_at d 2) \<le> length d \<and> be16_at d 0 = STUN_BINDING_RESPONSE \<and>
    be32_at d 4 = STUN_MAGIC_COOKIE \<and> sub_range d 8 20 = txn \<and>
    (\<exists>k n. 20 \<le> k \<and> k + 4 + n \<le> length d \<and> n = unat (be16_at d (k + 2)) \<and>
      (be16_at d k = ATTR_XOR_MAPPED_ADDRESS \<and>
         parse_xor_mapped_address (sub_range d (k + 4) (k + 4 + n)) = Inr r \<or>
       be16_at d k = ATTR_MAPPED_ADDRESS \<and>
         parse_mapped_address (sub_range d (k + 4) (k + 4 + n)) = Inr r))"
proof -
  have h: "20 + unat (be16_at d 2) \<le> length d" "be16_at d 0 = STUN_BINDING_RESPONSE"
    "be32_at d 4 = STUN_MAGIC_COOKIE" "sub_range d 8 20 = txn"
    "parse_attributes d (20 + unat (be16_at d 2)) 20 = Inr r"
    using assms by (auto simp: parse_binding_response_def Let_def split: if_splits)
  with parse_attributes_sound [OF h(5,1)] show ?thesis by blast
qed

lemma try_servers_spec:
  "try_servers query e servers = Inr r \<longleftrightarrow>
    (\<exists>before s after. servers = before @ s # after \<and> query s = Inr r \<and>
      (\<forall>x\<in>set before. \<not> is_ok (query x)))"
proof (induction servers arbitrary: e)
  case Nil
  then show ?case by simp
next
  case (Cons s servers)
  let ?R = "\<lambda>servers. \<exists>before t after. servers = before @ t # after \<and> query t = Inr r \<and>
      (\<forall>x\<in>set before. \<not> is_ok (query x))"
  show ?case
  proof (cases "query s")
    case (Inl x)
    have "?R (s # servers) \<longleftrightarrow> ?R servers"
    proof
      assume "?R (s # servers)"
      then obtain before t after where o: "s # servers = before @ t # after" "query t = Inr r"
        "\<forall>x\<in>set before. \<not> is_ok (query x)" by blast
      with Inl show "?R servers" by (cases before) auto
    next
      assume "?R servers"
      then obtain before t after where o: "servers = before @ t # after" "query t = Inr r"
        "\<forall>x\<in>set before. \<not> is_ok (query x)" by blast
      with Inl show "?R (s # servers)" by (intro exI [of _ "s # before"]) auto
    qed
    with Inl Cons show ?thesis by simp
  next
    case (Inr x)
    have "?R (s # servers) \<longleftrightarrow> x = r"
    proof
      assume "?R (s # servers)"
      then obtain before t after where o: "s # servers = before @ t # after" "query t = Inr r"
        "\<forall>x\<in>set before. \<not> is_ok (query x)" by blast
      with Inr show "x = r" by (cases before) auto
    next
      assume "x = r"
      with Inr show "?R (s # servers)" by (intro exI [of _ "[]"] exI [of _ s] exI [of _ servers]) auto
    qed
    with Inr show ?thesis by simp
  qed
qed

lemma try_servers_error:
  "try_servers query e servers = Inl x \<Longrightarrow> servers \<noteq> [] \<Longrightarrow>
   (\<forall>s\<in>set servers. \<not> is_ok (query s)) \<and> query (last servers) = Inl x"
proof (induction servers arbitrary: e)
  case (Cons s servers)
  show ?case
  proof (cases "query s")
    case (Inl y)
    with Cons show ?thesis by (cases "servers = []") auto
  next
    case (Inr y)
    with Cons show ?thesis by simp
  qed
qed simp

lemma demo_response_accepted:
  "is_ok (parse_binding_response demo_response demo_txn)"
  by code_simp

theorem stun_response_sound_witness:
  "be16_at demo_response 0 = STUN_BINDING_RESPONSE \<and> sub_range demo_response 8 20 = demo_txn"
proof -
  obtain r where "parse_binding_response demo_response demo_txn = Inr r"
    using demo_response_accepted by (auto simp: is_ok_def split: sum.splits)
  from stun_response_sound [OF this] show ?thesis by blast
qed

text \<open>Discovery tries every server.  The servers are asked in order; the result is that of the
  first that answers, and an error, that of the last server, is returned only when every one
  of them failed.\<close>

theorem stun_discovery:
  "(discover_public_address query = Inr r \<longleftrightarrow>
     (\<exists>before s after. DEFAULT_STUN_SERVERS = before @ s # after \<and> query s = Inr r \<and>
       (\<forall>x\<in>set before. \<not> is_ok (query x)))) \<and>
   (discover_public_address query = Inl e \<longrightarrow>
     (\<forall>s\<in>set DEFAULT_STUN_SERVERS. \<not> is_ok (query s)) \<and>
     query (last DEFAULT_STUN_SERVERS) = Inl e)"
proof -
  have ne: "DEFAULT_STUN_SERVERS \<noteq> []" by (simp add: DEFAULT_STUN_SERVERS_def)
  show ?thesis
    unfolding discover_public_address_def
    using try_servers_spec [of query None DEFAULT_STUN_SERVERS r]
      try_servers_error [OF _ ne, of query None e] by blast
qed

definition demo_query :: "string \<Rightarrow> error + StunResult" where
  "demo_query s = Inl (Stun s)"

theorem stun_discovery_witness:
  "discover_public_address demo_query = Inl (Stun ''stun4.l.google.com:19302'') \<and>
   demo_query (last DEFAULT_STUN_SERVERS) = Inl (Stun ''stun4.l.google.com:19302'')"
proof -
  have d: "discover_public_address demo_query = Inl (Stun ''stun4.l.google.com:19302'')"
    by (simp add: discover_public_address_def DEFAULT_STUN_SERVERS_def demo_query_def)
  with stun_discovery [of demo_query _ "Stun ''stun4.l.google.com:19302''"] show ?thesis by blast
qed

end
