(* ===== verification/Codec.thy ===== *)
theory Codec
  imports Text_Utils
begin

text \<open>
  Codec types and their negotiation: \<^verbatim>\<open>src/src/codec/mod.rs\<close>, with the \<^verbatim>\<open>opus\<close> feature enabled.
  SDP text is ASCII.
\<close>

section \<open>The table of codecs\<close>

datatype CodecType = Pcmu | Pcma | G729 | G722 | Opus

fun payload_type :: "CodecType \<Rightarrow> u8" where
  "payload_type Pcmu = 0"
| "payload_type Pcma = 8"
| "payload_type G729 = 18"
| "payload_type G722 = 9"
| "payload_type Opus = 111"

fun codec_type_name :: "CodecType \<Rightarrow> string" where
  "codec_type_name Pcmu = ''PCMU''"
| "codec_type_name Pcma = ''PCMA''"
| "codec_type_name G729 = ''G729''"
| "codec_type_name G722 = ''G722''"
| "codec_type_name Opus = ''opus''"

fun clock_rate :: "CodecType \<Rightarrow> nat" where
  "clock_rate Opus = 48000"
| "clock_rate _ = 8000"

fun pcm_rate :: "CodecType \<Rightarrow> nat" where
  "pcm_rate Opus = 48000"
| "pcm_rate G722 = 16000"
| "pcm_rate _ = 8000"

definition PACKET_DURATION_MS :: nat where
  "PACKET_DURATION_MS = 20"

definition pcm_samples_per_packet :: "CodecType \<Rightarrow> nat" where
  "pcm_samples_per_packet c = pcm_rate c * PACKET_DURATION_MS div 1000"

definition rtp_ticks_per_packet :: "CodecType \<Rightarrow> nat" where
  "rtp_ticks_per_packet c = clock_rate c * PACKET_DURATION_MS div 1000"

definition channels :: "CodecType \<Rightarrow> u8" where
  "channels c = 1"

definition frame_duration_ms :: "CodecType \<Rightarrow> nat" where
  "frame_duration_ms c = (if c = G729 then 10 else 20)"

definition samples_per_frame :: "CodecType \<Rightarrow> nat" where
  "samples_per_frame c = pcm_rate c * frame_duration_ms c div 1000"

fun bitrate_kbps :: "CodecType \<Rightarrow> nat" where
  "bitrate_kbps G729 = 8"
| "bitrate_kbps Opus = 32"
| "bitrate_kbps _ = 64"

definition from_payload_type :: "u8 \<Rightarrow> CodecType option" where
  "from_payload_type pt =
    (if pt = 0 then Some Pcmu
     else if pt = 8 then Some Pcma
     else if pt = 18 then Some G729
     else if pt = 9 then Some G722
     else if pt = 111 then Some Opus
     else None)"

definition from_name :: "string \<Rightarrow> CodecType option" where
  "from_name name =
    (let n = to_uppercase name in
     if n \<in> set [''PCMU'', ''G711U''] then Some Pcmu
     else if n \<in> set [''PCMA'', ''G711A''] then Some Pcma
     else if n \<in> set [''G729'', ''G.729'', ''G729A'', ''G.729A'', ''G729B'', ''G.729B''] then Some G729
     else if n \<in> set [''G722'', ''G.722''] then Some G722
     else if n = ''OPUS'' then Some Opus
     else None)"

definition all_codecs :: "CodecType list" where
  "all_codecs = [Pcmu, Pcma, G729, G722, Opus]"

section \<open>Reading an offer\<close>

type_synonym rtpmap = "u8 \<times> string \<times> nat"

text \<open>The payload types of an \<^verbatim>\<open>m=audio\<close> line behind its prefix: port and transport are skipped.\<close>

definition audio_formats :: "string \<Rightarrow> u8 list" where
  "audio_formats rest =
     List.map_filter (\<lambda>w. map_option word_of_nat (parse_uint 256 w)) (drop 2 (split_whitespace rest))"

text \<open>An \<^verbatim>\<open>a=rtpmap\<close> line behind its prefix.\<close>

definition rtpmap_of :: "string \<Rightarrow> rtpmap option" where
  "rtpmap_of rest =
    (case split_once_ws rest of
       None \<Rightarrow> None
     | Some (pt, codec) \<Rightarrow>
        (case parse_uint 256 (trim pt) of
           None \<Rightarrow> None
         | Some pt \<Rightarrow>
            (let parts = split_on (CHR ''/'') (trim codec);
                 name = to_lowercase (hd parts) in
             case tl parts of
               [] \<Rightarrow> None
             | r # _ \<Rightarrow>
                (case parse_uint (2 ^ 32) r of
                   None \<Rightarrow> None
                 | Some rate \<Rightarrow> Some (word_of_nat pt, name, rate)))))"

text \<open>One turn of the loop over the lines.\<close>

definition offer_line :: "u8 list \<times> rtpmap list \<Rightarrow> string \<Rightarrow> u8 list \<times> rtpmap list" where
  "offer_line acc line =
    (let l = trim line in
     case strip_prefix ''m=audio '' l of
       Some rest \<Rightarrow> (if fst acc = [] then (audio_formats rest, snd acc) else acc)
     | None \<Rightarrow>
        (case strip_prefix ''a=rtpmap:'' l of
           None \<Rightarrow> acc
         | Some rest \<Rightarrow>
            (case rtpmap_of rest of
               None \<Rightarrow> acc
             | Some m \<Rightarrow> (fst acc, snd acc @ [m]))))"

definition codec_of_format :: "rtpmap list \<Rightarrow> u8 \<Rightarrow> CodecType option" where
  "codec_of_format rtpmaps pt =
    (case find (\<lambda>(map_pt, _, _). map_pt = pt) rtpmaps of
       Some (_, name, rate) \<Rightarrow>
         (case from_name name of
            None \<Rightarrow> None
          | Some codec \<Rightarrow> if clock_rate codec = rate then Some codec else None)
     | None \<Rightarrow> from_payload_type pt)"

fun choose_codec :: "rtpmap list \<Rightarrow> u8 list \<Rightarrow> (CodecType \<times> u8) option" where
  "choose_codec rtpmaps [] = None"
| "choose_codec rtpmaps (pt # pts) =
    (case codec_of_format rtpmaps pt of
       Some codec \<Rightarrow> Some (codec, pt)
     | None \<Rightarrow> choose_codec rtpmaps pts)"

definition negotiate_codec_with_pt :: "string \<Rightarrow> (CodecType \<times> u8) option" where
  "negotiate_codec_with_pt sdp =
    (let (offered, rtpmaps) = foldl offer_line ([], []) (lines_of sdp) in
     choose_codec rtpmaps offered)"

definition negotiate_codec :: "string \<Rightarrow> CodecType" where
  "negotiate_codec sdp = (case negotiate_codec_with_pt sdp of None \<Rightarrow> Pcmu | Some (codec, _) \<Rightarrow> codec)"

section \<open>Printing and parsing numbers\<close>

lemma ccode_digit: "n < 10 \<Longrightarrow> ccode (digit_char n) = 48 + n"
  by (simp add: digit_char_def ccode_def)

lemma digits_value_snoc: "digits_value (s @ [c]) = digits_value s * 10 + (ccode c - 48)"
  by (simp add: digits_value_def)

lemma show_nat_digits:
  "digits_value (show_nat n) = n \<and> list_all is_digit_char (show_nat n) \<and> show_nat n \<noteq> []"
proof (induction n rule: show_nat.induct)
  case (1 n)
  show ?case
  proof (cases "n < 10")
    case True
    then show ?thesis
      using ccode_digit [OF True]
      by (simp add: show_nat.simps [of n] digits_value_def is_digit_char_def)
  next
    case False
    then show ?thesis
      using 1 [OF False] ccode_digit [of "n mod 10"]
      by (simp add: show_nat.simps [of n] digits_value_snoc is_digit_char_def)
  qed
qed

lemma digit_not_ws: "is_digit_char c \<Longrightarrow> \<not> is_ws c \<and> c \<noteq> CHR ''+'' \<and> c \<noteq> CHR ''/''"
proof -
  assume "is_digit_char c"
  then have c: "48 \<le> ccode c" "ccode c \<le> 57" by (simp_all add: is_digit_char_def)
  have "ccode (CHR ''+'') = 43" "ccode (CHR ''/'') = 47" by code_simp+
  with c show ?thesis by (auto simp: is_ws_def)
qed

lemma parse_show_nat: "n < b \<Longrightarrow> parse_uint b (show_nat n) = Some n"
proof -
  assume n: "n < b"
  obtain c cs where s: "show_nat n = c # cs" using show_nat_digits [of n] by (cases "show_nat n") auto
  with show_nat_digits [of n] have "is_digit_char c" by auto
  with digit_not_ws have "c \<noteq> CHR ''+''" by blast
  with s show ?thesis using show_nat_digits [of n] n by (simp add: parse_uint_def Let_def)
qed

lemma show_nat_chars: "c \<in> set (show_nat n) \<Longrightarrow> is_digit_char c"
  using show_nat_digits [of n] by (auto simp: list_all_iff)

section \<open>Writing an offer\<close>

definition audio_line :: "nat \<Rightarrow> u8 list \<Rightarrow> string" where
  "audio_line port pts =
     ''m=audio '' @ show_nat port @ '' RTP/AVP'' @ concat (map (\<lambda>pt. '' '' @ show_nat (unat pt)) pts)"

definition rtpmap_line :: "rtpmap \<Rightarrow> string" where
  "rtpmap_line m = (case m of (pt, name, rate) \<Rightarrow>
     ''a=rtpmap:'' @ show_nat (unat pt) @ '' '' @ name @ ''/'' @ show_nat rate)"

definition good_map :: "rtpmap \<Rightarrow> bool" where
  "good_map m = (case m of (pt, name, rate) \<Rightarrow>
     (\<forall>c\<in>set name. \<not> is_ws c \<and> c \<noteq> CHR ''/'') \<and> name \<noteq> [] \<and> rate < 2 ^ 32)"

definition low_map :: "rtpmap \<Rightarrow> rtpmap" where
  "low_map m = (case m of (pt, name, rate) \<Rightarrow> (pt, to_lowercase name, rate))"

lemma show_nat_no_ws: "\<forall>c\<in>set (show_nat n). \<not> is_ws c"
  using show_nat_chars digit_not_ws by blast

lemma show_nat_ne: "show_nat n \<noteq> []"
  using show_nat_digits by blast

lemma space_ws: "is_ws (CHR '' '')"
  by code_simp

lemma split_formats:
  "split_whitespace (w @ concat (map (\<lambda>pt. '' '' @ show_nat (unat pt)) pts)) =
     w # map (\<lambda>pt. show_nat (unat pt)) pts"
  if "w \<noteq> []" "\<forall>c\<in>set w. \<not> is_ws c" for pts :: "u8 list"
  using that
proof (induction pts arbitrary: w)
  case Nil
  then show ?case by (simp add: split_whitespace_word)
next
  case (Cons pt pts)
  from Cons.IH [OF show_nat_ne show_nat_no_ws] Cons.prems show ?case
    by (simp add: split_whitespace_word)
qed

lemma audio_formats_line:
  "audio_formats (show_nat port @ '' RTP/AVP'' @ concat (map (\<lambda>pt. '' '' @ show_nat (unat pt)) pts)) = pts"
proof -
  have "\<forall>c\<in>set ''RTP/AVP''. \<not> is_ws c" by code_simp
  then have "split_whitespace (show_nat port @ '' RTP/AVP'' @ concat (map (\<lambda>pt. '' '' @ show_nat (unat pt)) pts)) =
      show_nat port # ''RTP/AVP'' # map (\<lambda>pt. show_nat (unat pt)) pts"
    using split_whitespace_word(1) [OF show_nat_ne show_nat_no_ws, of port] split_formats [of "''RTP/AVP''" pts]
    by simp
  moreover have "List.map_filter (\<lambda>w. map_option word_of_nat (parse_uint 256 w)) (map (\<lambda>pt. show_nat (unat pt)) pts) = pts"
    by (induction pts) (simp_all add: map_filter_simps parse_show_nat u8_lt)
  ultimately show ?thesis by (simp add: audio_formats_def)
qed

lemma last_show_nat: "\<not> is_ws (last (xs @ show_nat n))"
  using show_nat_no_ws [of n] show_nat_ne [of n] last_in_set by (metis last_append)

lemma trim_audio_line: "trim (audio_line port pts) = audio_line port pts"
proof (rule trim_no_ws)
  show "audio_line port pts \<noteq> []" by (simp add: audio_line_def)
  have "hd (audio_line port pts) = CHR ''m''" by (simp add: audio_line_def)
  moreover have "\<not> is_ws (CHR ''m'')" by code_simp
  ultimately show "\<not> is_ws (hd (audio_line port pts))" by simp
  show "\<not> is_ws (last (audio_line port pts))"
  proof (cases pts rule: rev_cases)
    case Nil
    have "last (audio_line port []) = CHR ''P''" by (simp add: audio_line_def)
    moreover have "\<not> is_ws (CHR ''P'')" by code_simp
    ultimately show ?thesis using Nil by simp
  next
    case (snoc qs q)
    have "audio_line port pts = (''m=audio '' @ show_nat port @ '' RTP/AVP'' @
        concat (map (\<lambda>pt. '' '' @ show_nat (unat pt)) qs) @ '' '') @ show_nat (unat q)"
      by (simp add: audio_line_def snoc)
    then show ?thesis by (simp only: last_show_nat not_False_eq_True)
  qed
qed

lemma rtpmap_of_line:
  assumes "good_map (pt, name, rate)"
  shows "rtpmap_of (show_nat (unat pt) @ '' '' @ name @ ''/'' @ show_nat rate) =
    Some (low_map (pt, name, rate))"
proof -
  have name: "\<forall>c\<in>set name. \<not> is_ws c" "CHR ''/'' \<notin> set name" "name \<noteq> []" "rate < 2 ^ 32"
    using assms by (auto simp: good_map_def)
  have o: "split_once_ws (show_nat (unat pt) @ CHR '' '' # (name @ ''/'' @ show_nat rate)) =
      Some (show_nat (unat pt), name @ ''/'' @ show_nat rate)"
    by (rule split_once_ws_word [OF show_nat_no_ws space_ws])
  have t1: "trim (show_nat (unat pt)) = show_nat (unat pt)"
    using show_nat_no_ws [of "unat pt"] show_nat_ne [of "unat pt"] by (intro trim_no_ws) auto
  have t2: "trim (name @ ''/'' @ show_nat rate) = name @ ''/'' @ show_nat rate"
  proof (rule trim_no_ws)
    show "\<not> is_ws (hd (name @ ''/'' @ show_nat rate))" using name(1,3) by simp
    show "\<not> is_ws (last (name @ ''/'' @ show_nat rate))"
      using last_show_nat [of "name @ ''/''" rate] by simp
  qed simp
  have "CHR ''/'' \<notin> set (show_nat rate)" using show_nat_chars digit_not_ws by blast
  then have "split_on (CHR ''/'') (name @ ''/'' @ show_nat rate) = [name, show_nat rate]"
    using split_on_append [OF name(2), of "show_nat rate"] by (simp add: split_on_no_sep)
  with o t1 t2 name(4) show ?thesis
    by (simp add: rtpmap_of_def parse_show_nat u8_lt low_map_def)
qed

lemma trim_rtpmap_line: "trim (rtpmap_line m) = rtpmap_line m"
proof (rule trim_no_ws)
  obtain pt name rate where m: "m = (pt, name, rate)" by (cases m) auto
  show "rtpmap_line m \<noteq> []" by (simp add: rtpmap_line_def m)
  have "hd (rtpmap_line m) = CHR ''a''" by (simp add: rtpmap_line_def m)
  moreover have "\<not> is_ws (CHR ''a'')" by code_simp
  ultimately show "\<not> is_ws (hd (rtpmap_line m))" by simp
  show "\<not> is_ws (last (rtpmap_line m))"
    using last_show_nat [of "''a=rtpmap:'' @ show_nat (unat pt) @ '' '' @ name @ ''/''" rate]
    by (simp add: rtpmap_line_def m)
qed

lemma offer_audio_line:
  "offer_line ([], maps) (audio_line port pts) = (pts, maps)"
proof -
  have "strip_prefix ''m=audio '' (audio_line port pts) =
      Some (show_nat port @ '' RTP/AVP'' @ concat (map (\<lambda>pt. '' '' @ show_nat (unat pt)) pts))"
    unfolding audio_line_def by (rule strip_prefix_append)
  then show ?thesis
    unfolding offer_line_def Let_def trim_audio_line by (simp only: option.case fst_conv snd_conv audio_formats_line) simp
qed

lemma offer_rtpmap_line:
  assumes "good_map m"
  shows "offer_line (pts, maps) (rtpmap_line m) = (pts, maps @ [low_map m])"
proof -
  obtain pt name rate where m: "m = (pt, name, rate)" by (cases m) auto
  have no: "strip_prefix ''m=audio '' (rtpmap_line m) = None"
    by (simp add: strip_prefix_def starts_with_def rtpmap_line_def m)
  have "strip_prefix ''a=rtpmap:'' (rtpmap_line m) = Some (show_nat (unat pt) @ '' '' @ name @ ''/'' @ show_nat rate)"
    unfolding rtpmap_line_def m prod.case by (rule strip_prefix_append)
  then show ?thesis
    unfolding offer_line_def Let_def trim_rtpmap_line no option.case
    using rtpmap_of_line [of pt name rate] assms by (simp only: option.case m fst_conv snd_conv)
qed

lemma offer_rtpmap_lines:
  "\<forall>m\<in>set ms. good_map m \<Longrightarrow>
   foldl offer_line (pts, maps) (map rtpmap_line ms) = (pts, maps @ map low_map ms)"
  by (induction ms arbitrary: maps) (simp_all add: offer_rtpmap_line)

lemma newline_ws: "is_ws newline"
  by code_simp

lemma no_newline_show_nat: "newline \<notin> set (show_nat n)"
  using show_nat_no_ws newline_ws by blast

lemma no_newline_audio: "newline \<notin> set (audio_line port pts)"
proof -
  have "newline \<notin> set ''m=audio ''" "newline \<notin> set '' RTP/AVP''" "newline \<noteq> CHR '' ''" by code_simp+
  then show ?thesis using no_newline_show_nat by (auto simp: audio_line_def)
qed

lemma no_newline_rtpmap: "good_map m \<Longrightarrow> newline \<notin> set (rtpmap_line m)"
proof -
  assume g: "good_map m"
  obtain pt name rate where m: "m = (pt, name, rate)" by (cases m) auto
  have "newline \<notin> set ''a=rtpmap:''" "newline \<noteq> CHR '' ''" "newline \<noteq> CHR ''/''" by code_simp+
  moreover have "newline \<notin> set name" using g m newline_ws by (auto simp: good_map_def)
  ultimately show ?thesis using no_newline_show_nat by (auto simp: rtpmap_line_def m)
qed

section \<open>What is chosen\<close>

lemma choose_codec_None: "choose_codec maps pts = None \<longleftrightarrow> (\<forall>pt\<in>set pts. codec_of_format maps pt = None)"
  by (induction pts) (auto split: option.splits)

lemma choose_codec_Some:
  "choose_codec maps pts = Some (c, pt) \<longleftrightarrow>
   (\<exists>before after. pts = before @ pt # after \<and> codec_of_format maps pt = Some c \<and>
     (\<forall>q\<in>set before. codec_of_format maps q = None))"
proof (induction pts)
  case Nil
  then show ?case by simp
next
  case (Cons q pts)
  let ?R = "\<lambda>pts. \<exists>before after. pts = before @ pt # after \<and> codec_of_format maps pt = Some c \<and>
     (\<forall>q\<in>set before. codec_of_format maps q = None)"
  show ?case
  proof (cases "codec_of_format maps q")
    case None
    have "?R (q # pts) \<longleftrightarrow> ?R pts"
    proof
      assume "?R (q # pts)"
      then obtain before after where o: "q # pts = before @ pt # after" "codec_of_format maps pt = Some c"
        "\<forall>q\<in>set before. codec_of_format maps q = None" by blast
      with None show "?R pts" by (cases before) auto
    next
      assume "?R pts"
      then obtain before after where "pts = before @ pt # after" "codec_of_format maps pt = Some c"
        "\<forall>q\<in>set before. codec_of_format maps q = None" by blast
      with None show "?R (q # pts)" by (intro exI [of _ "q # before"] exI [of _ after]) auto
    qed
    with None Cons show ?thesis by simp
  next
    case (Some d)
    have "?R (q # pts) \<longleftrightarrow> d = c \<and> q = pt"
    proof
      assume "?R (q # pts)"
      then obtain before after where o: "q # pts = before @ pt # after" "codec_of_format maps pt = Some c"
        "\<forall>q\<in>set before. codec_of_format maps q = None" by blast
      with Some show "d = c \<and> q = pt" by (cases before) auto
    next
      assume "d = c \<and> q = pt"
      with Some show "?R (q # pts)" by (intro exI [of _ "[]"] exI [of _ pts]) auto
    qed
    with Some show ?thesis by simp
  qed
qed

lemma upper_lower_char: "to_upper_char (to_lower_char c) = to_upper_char c"
proof -
  have "ccode c < 256" by (simp add: ccode_def)
  then show ?thesis
    by (auto simp: to_upper_char_def to_lower_char_def is_upper_char_def is_lower_char_def ccode_def)
qed

lemma from_name_lower: "from_name (to_lowercase n) = from_name n"
  by (simp add: from_name_def to_uppercase_def to_lowercase_def upper_lower_char comp_def)

section \<open>Properties\<close>

text \<open>The codec tables agree with each other.  A codec is found again by its payload type and
  by its name in any case; its packet is 20 ms of samples at the PCM rate and of ticks at
  the RTP clock, a whole number of codec frames, and \<open>all\<close> lists every codec once.\<close>

lemma codec_tables_consistent:
  "from_payload_type (payload_type c) = Some c \<and> from_name (codec_type_name c) = Some c \<and>
   from_name (to_lowercase (codec_type_name c)) = Some c \<and>
   50 * pcm_samples_per_packet c = pcm_rate c \<and> 50 * rtp_ticks_per_packet c = clock_rate c \<and>
   pcm_samples_per_packet c mod samples_per_frame c = 0 \<and>
   1000 * samples_per_frame c = pcm_rate c * frame_duration_ms c \<and>
   c \<in> set all_codecs \<and> distinct all_codecs"
proof -
  have n: "from_name (codec_type_name c) = Some c" by (cases c) (simp_all, code_simp+)
  show ?thesis
    unfolding from_name_lower n
    by (cases c)
       (simp_all add: from_payload_type_def pcm_samples_per_packet_def PACKET_DURATION_MS_def
         rtp_ticks_per_packet_def samples_per_frame_def frame_duration_ms_def all_codecs_def)
qed

text \<open>Negotiation reads the offer.  For a description with an audio line that offers the
  payload types \<open>pts\<close> over RTP/AVP and with any rtpmap lines (names without white space or
  slash, 32 bit rates), behind any lines of other kinds, the answer is the first payload type
  of the offer that means a supported codec, with that codec: the first rtpmap for the
  payload type decides, by name in any case and by clock rate, and the static assignment
  where there is none.\<close>

theorem negotiate_reads_offer:
  fixes port :: nat and pts :: "u8 list" and maps :: "rtpmap list"
  assumes "\<forall>l\<in>set before. newline \<notin> set l \<and> offer_line ([], []) l = ([], [])"
    and "pts \<noteq> []" "\<forall>m\<in>set maps. good_map m"
  defines "sdp \<equiv> concat (map crlf (before @ audio_line port pts # map rtpmap_line maps))"
    and "means \<equiv> codec_of_format (map low_map maps)"
  shows "(negotiate_codec_with_pt sdp = Some (c, pt) \<longleftrightarrow>
      (\<exists>xs ys. pts = xs @ pt # ys \<and> means pt = Some c \<and> (\<forall>q\<in>set xs. means q = None))) \<and>
    (negotiate_codec_with_pt sdp = None \<longleftrightarrow> (\<forall>q\<in>set pts. means q = None))"
proof -
  have "foldl offer_line ([], []) before = ([], [])"
    using assms(1) by (induction before) auto
  then have "foldl offer_line ([], []) (before @ audio_line port pts # map rtpmap_line maps) =
      (pts, map low_map maps)"
    using assms(3) by (simp add: offer_audio_line offer_rtpmap_lines)
  moreover have "lines_of sdp = before @ audio_line port pts # map rtpmap_line maps"
    unfolding sdp_def
    using assms(1,3) no_newline_audio no_newline_rtpmap by (intro lines_of_concat_crlf) auto
  ultimately have "negotiate_codec_with_pt sdp = choose_codec (map low_map maps) pts"
    by (simp add: negotiate_codec_with_pt_def)
  then show ?thesis by (simp add: choose_codec_Some choose_codec_None means_def)
qed

theorem negotiate_reads_offer_witness:
  "negotiate_codec_with_pt (concat (map crlf ([''v=0'', ''c=IN IP4 192.0.2.1''] @
     audio_line 4000 [96, 97, 0] # map rtpmap_line [(96, ''telephone-event'', 8000), (97, ''OPUS'', 48000)]))) =
   Some (Opus, 97)"
proof -
  have b: "\<forall>l\<in>set [''v=0'', ''c=IN IP4 192.0.2.1'']. newline \<notin> set l \<and> offer_line ([], []) l = ([], [])"
    by code_simp
  have "\<forall>c\<in>set ''telephone-event''. \<not> is_ws c \<and> c \<noteq> CHR ''/''"
    "\<forall>c\<in>set ''OPUS''. \<not> is_ws c \<and> c \<noteq> CHR ''/''" by code_simp+
  then have g: "\<forall>m\<in>set [(96, ''telephone-event'', 8000), (97, ''OPUS'', 48000)]. good_map m"
    by (simp add: good_map_def)
  have "from_name ''OPUS'' = Some Opus" "from_name ''telephone-event'' = None" by code_simp+
  then have c: "codec_of_format (map low_map [(96, ''telephone-event'', 8000), (97, ''OPUS'', 48000)]) 97 = Some Opus"
    "codec_of_format (map low_map [(96, ''telephone-event'', 8000), (97, ''OPUS'', 48000)]) 96 = None"
    by (simp_all add: codec_of_format_def low_map_def from_name_lower)
  have "\<exists>xs ys. [96, 97, 0 :: u8] = xs @ 97 # ys \<and>
      codec_of_format (map low_map [(96, ''telephone-event'', 8000), (97, ''OPUS'', 48000)]) 97 = Some Opus \<and>
      (\<forall>q\<in>set xs. codec_of_format (map low_map [(96, ''telephone-event'', 8000), (97, ''OPUS'', 48000)]) q = None)"
    using c by (intro exI [of _ "[96]"] exI [of _ "[0]"]) simp
  with negotiate_reads_offer [OF b _ g, of "[96, 97, 0]" 4000 Opus 97] show ?thesis by blast
qed

end
