(* ===== verification/Pcm.thy ===== *)
theory Pcm
  imports Rtp_Prelude
begin

text \<open>
  PCM samples.  A sample is an \<^verbatim>\<open>i16\<close>, a 16 bit word read as a signed number; arithmetic
  that the source does in \<^verbatim>\<open>i16\<close>, \<^verbatim>\<open>i32\<close> or \<^verbatim>\<open>i64\<close> is done on integers, with the
  saturation, clamping and truncation of the source written out.
\<close>

type_synonym i16 = "16 word"
type_synonym pcm = "i16 list"

definition i16_of_int :: "int \<Rightarrow> i16" where
  "i16_of_int = word_of_int"

definition is_i16 :: "int \<Rightarrow> bool" where
  "is_i16 x \<longleftrightarrow> - 32768 \<le> x \<and> x \<le> 32767"

definition is_i32 :: "int \<Rightarrow> bool" where
  "is_i32 x \<longleftrightarrow> - 2147483648 \<le> x \<and> x \<le> 2147483647"

text \<open>\<^verbatim>\<open>i16::saturating_add\<close>, \<^verbatim>\<open>clamp\<close> and division that truncates towards zero.\<close>

definition clamp :: "int \<Rightarrow> int \<Rightarrow> int \<Rightarrow> int" where
  "clamp lo hi x = max lo (min hi x)"

definition sat_i16 :: "int \<Rightarrow> int" where
  "sat_i16 = clamp (- 32768) 32767"

lemma sint_i16_bounds [simp]: "- 32768 \<le> sint (s :: i16)" "sint (s :: i16) \<le> 32767"
  using sint_ge [of s] sint_lt [of s] by simp_all

lemma is_i16_sint [simp]: "is_i16 (sint (s :: i16))"
  by (simp add: is_i16_def)

lemma sint_i16_of_int: "is_i16 x \<Longrightarrow> sint (i16_of_int x) = x"
  by (simp add: i16_of_int_def is_i16_def sint_word_ariths signed_take_bit_int_eq_self sint_sbintrunc')

lemma i16_of_int_sint [simp]: "i16_of_int (sint s) = s"
  by (simp add: i16_of_int_def)

lemma is_i16_sat [simp]: "is_i16 (sat_i16 x)"
  by (simp add: is_i16_def sat_i16_def clamp_def)

lemma sat_i16_id: "is_i16 x \<Longrightarrow> sat_i16 x = x"
  by (simp add: is_i16_def sat_i16_def clamp_def)

text \<open>Every \<^verbatim>\<open>u8\<close>, as a list to compute over.\<close>

definition all_u8 :: "u8 list" where
  "all_u8 = map word_of_nat [0..<256]"

lemma all_u8: "b \<in> set all_u8"
proof -
  have "b = word_of_nat (unat b)" "unat b < 256" using u8_lt [of b] by simp_all
  then show ?thesis unfolding all_u8_def by (metis atLeastLessThan_iff image_eqI le0 list.set_map set_upt)
qed

lemma u8_forall: "list_all P all_u8 \<Longrightarrow> P b"
  using all_u8 by (simp add: list_all_iff)

section \<open>Sign, segment and step of a byte\<close>

lemma u8_top_bit: "c AND 0x80 \<noteq> 0 \<longleftrightarrow> bit (c :: u8) 7"
proof -
  have "(0x80 :: u8) = 2 ^ 7" by simp
  then show ?thesis by (simp only: and_exp_eq_0_iff_not_bit not_not)
qed

lemma bit_0x80: "bit (0x80 :: u8) n \<longleftrightarrow> n = 7"
proof -
  have "(0x80 :: u8) = 2 ^ 7" by simp
  then show ?thesis by (simp only: bit_exp_iff) auto
qed
lemma bit_7_15: "bit (7 :: u8) n \<longleftrightarrow> n < 3" "bit (15 :: u8) n \<longleftrightarrow> n < 4"
proof -
  have m: "(7 :: u8) = mask 3" "(15 :: u8) = mask 4" by (simp_all add: mask_eq_exp_minus_1)
  show "bit (7 :: u8) n \<longleftrightarrow> n < 3" "bit (15 :: u8) n \<longleftrightarrow> n < 4" unfolding m bit_mask_iff by auto
qed
lemma u8_fields: "(c :: u8) = (if c AND 0x80 \<noteq> 0 then 0x80 else 0) OR push_bit 4 (drop_bit 4 c AND 7) OR (c AND 15)"
  unfolding u8_top_bit
proof (rule bit_word_eqI)
  fix n assume n: "n < LENGTH(8)"
  then have mid: "bit (push_bit 4 (drop_bit 4 c AND 7)) n \<longleftrightarrow> bit c n \<and> 4 \<le> n \<and> n < 7"
    unfolding bit_push_bit_iff bit_and_iff bit_drop_bit_eq bit_7_15 comp_def by auto
  have top: "bit (if bit c 7 then 0x80 else 0 :: u8) n \<longleftrightarrow> bit c n \<and> n = 7"
    by (cases "bit c 7") (simp_all only: if_True if_False bit_0x80 bit_0_eq, auto)
  show "bit c n \<longleftrightarrow> bit ((if bit c 7 then 0x80 else 0) OR push_bit 4 (drop_bit 4 c AND 7) OR (c AND 15)) n"
    unfolding bit_or_iff bit_and_iff bit_7_15 mid top using n by auto
qed

lemma u8_parts:
  obtains neg e m where "e < 8" "0 \<le> m" "m < 16"
    "c = ((if neg then 0x80 else 0) OR push_bit 4 (word_of_nat e) OR word_of_int m :: u8)"
proof -
  have "drop_bit 4 c AND 7 = take_bit 3 (drop_bit 4 c)" "c AND 15 = take_bit 4 c"
    by (simp_all add: take_bit_eq_mask mask_eq_exp_minus_1)
  then have "unat (drop_bit 4 c AND 7) < 8" "uint (c AND 15) < 16"
    using take_bit_nat_less_exp [of 3 "unat (drop_bit 4 c)"] take_bit_int_less_exp [of 4 "uint c"]
    by (simp_all add: unsigned_take_bit_eq)
  moreover have "word_of_nat (unat x) = x" "word_of_int (uint x) = x" for x :: u8 by simp_all
  then have "c = (if c AND 0x80 \<noteq> 0 then 0x80 else 0) OR push_bit 4 (word_of_nat (unat (drop_bit 4 c AND 7))) OR
      word_of_int (uint (c AND 15))"
    by (simp only: u8_fields [symmetric])
  ultimately show thesis
    using that [of "unat (drop_bit 4 c AND 7)" "uint (c AND 15)" "c AND 0x80 \<noteq> 0"] by simp
qed

end
