(* ===== verification/Checked_Int.thy ===== *)
theory Checked_Int
  imports Pcm "HOL-Library.Monad_Syntax"
begin

text \<open>
  Arithmetic that panics.  An overflowing addition, subtraction, multiplication or negation
  of \<^verbatim>\<open>i32\<close> values, an index past the end of an array and a \<^verbatim>\<open>clamp\<close> with crossed bounds
  stop the program (where overflow checks are compiled in): the result is \<open>None\<close>.  A shift to
  the left drops the bits it shifts out and a shift to the right of a signed value rounds
  down.
\<close>

definition i32 :: "int \<Rightarrow> int option" where
  "i32 x = (if is_i32 x then Some x else None)"

definition shl32 :: "int \<Rightarrow> nat \<Rightarrow> int" where
  "shl32 x n = signed_take_bit 31 (x * 2 ^ n)"

definition shr :: "int \<Rightarrow> nat \<Rightarrow> int" where
  "shr x n = x div 2 ^ n"

definition index :: "'a list \<Rightarrow> int \<Rightarrow> 'a option" where
  "index xs i = (if 0 \<le> i \<and> i < int (length xs) then Some (xs ! nat i) else None)"

definition clamp_checked :: "int \<Rightarrow> int \<Rightarrow> int \<Rightarrow> int option" where
  "clamp_checked lo hi x = (if lo \<le> hi then Some (clamp lo hi x) else None)"

lemma i32_Some: "- 2147483648 \<le> x \<Longrightarrow> x \<le> 2147483647 \<Longrightarrow> i32 x = Some x"
  by (simp add: i32_def is_i32_def)

lemma i32_SomeD: "i32 x = Some y \<Longrightarrow> y = x"
  by (simp add: i32_def split: if_splits)

lemma shl32_exact: "- 2147483648 \<le> x * 2 ^ n \<Longrightarrow> x * 2 ^ n \<le> 2147483647 \<Longrightarrow> shl32 x n = x * 2 ^ n"
  by (simp add: shl32_def signed_take_bit_int_eq_self)

lemma index_Some: "0 \<le> i \<Longrightarrow> i < int (length xs) \<Longrightarrow> index xs i = Some (xs ! nat i)"
  by (simp add: index_def)

lemma shr_bounds: "lo * 2 ^ n \<le> x \<Longrightarrow> x < (hi + 1) * 2 ^ n \<Longrightarrow> lo \<le> shr x n \<and> shr x n \<le> hi"
proof -
  assume lo: "lo * 2 ^ n \<le> x" and hi: "x < (hi + 1) * 2 ^ n"
  have "lo = lo * 2 ^ n div 2 ^ n" by simp
  also have "\<dots> \<le> x div 2 ^ n" using lo by (intro zdiv_mono1) simp_all
  finally have l: "lo \<le> shr x n" by (simp add: shr_def)
  have "x div 2 ^ n * 2 ^ n \<le> x" by (simp add: minus_mod_eq_div_mult [symmetric])
  with hi have "x div 2 ^ n * 2 ^ n < (hi + 1) * 2 ^ n" by linarith
  then have "x div 2 ^ n < hi + 1" by (rule mult_right_less_imp_less) simp
  with l show ?thesis by (simp add: shr_def)
qed

text \<open>A product of bounded factors.\<close>

lemma mult_bounds:
  assumes "\<bar>x\<bar> \<le> a" "\<bar>y\<bar> \<le> (b :: int)"
  shows "- (a * b) \<le> x * y \<and> x * y \<le> a * b"
proof -
  have "\<bar>x * y\<bar> \<le> a * b" unfolding abs_mult using assms by (intro mult_mono) auto
  then show ?thesis by (simp add: abs_le_iff)
qed

end
