(* ===== verification/Audio_Codec.thy ===== *)
theory Audio_Codec
  imports Checked_Int
begin

text \<open>
  What the media path relies on in an encoder and a decoder (the traits \<^verbatim>\<open>AudioEncoder\<close> and
  \<^verbatim>\<open>AudioDecoder\<close> of \<^verbatim>\<open>src/src/codec/mod.rs\<close>): a stream may be handed over in packets of any
  size that is a multiple of the codec's frame, and the encoded stream is the same.
\<close>

section \<open>Running a coder over packets\<close>

fun code_packets :: "('s \<Rightarrow> 'a list \<Rightarrow> ('b list \<times> 's) option) \<Rightarrow> 's \<Rightarrow> 'a list list \<Rightarrow> ('b list list \<times> 's) option" where
  "code_packets f s [] = Some ([], s)"
| "code_packets f s (p # ps) =
    do { (out, s) \<leftarrow> f s p;
         (outs, s) \<leftarrow> code_packets f s ps;
         Some (out # outs, s) }"

locale stream_coder =
  fixes code :: "'s \<Rightarrow> 'a list \<Rightarrow> ('b list \<times> 's) option"
    and frame :: nat
  assumes code_Nil: "code s [] = Some ([], s)"
    and code_append: "frame dvd length xs \<Longrightarrow>
      code s (xs @ ys) =
        do { (out, s) \<leftarrow> code s xs;
             (out', s) \<leftarrow> code s ys;
             Some (out @ out', s) }"
begin

lemma code_packets_concat:
  "\<forall>p\<in>set ps. frame dvd length p \<Longrightarrow>
   code s (concat ps) = map_option (\<lambda>(outs, s). (concat outs, s)) (code_packets code s ps)"
proof (induction ps arbitrary: s)
  case Nil
  then show ?case by (simp add: code_Nil)
next
  case (Cons p ps)
  then show ?case
    by (simp add: code_append split: Option.bind_split prod.splits)
qed

end

text \<open>A coder that never fails in the states of an invariant, and turns every frame of its input
  into \<open>unit\<close> elements of output.\<close>

locale framed_coder = stream_coder code frame
  for code :: "'s \<Rightarrow> 'a list \<Rightarrow> ('b list \<times> 's) option" and frame :: nat +
  fixes inv :: "'s \<Rightarrow> bool" and unit :: nat
  assumes code_framed: "inv s \<Longrightarrow> frame dvd length xs \<Longrightarrow>
    \<exists>out s'. code s xs = Some (out, s') \<and> inv s' \<and> length out = length xs div frame * unit"
begin

lemma packets_framed:
  "inv s \<Longrightarrow> \<forall>p\<in>set ps. frame dvd length p \<Longrightarrow>
   \<exists>outs s'. code_packets code s ps = Some (outs, s') \<and> inv s' \<and>
     map length outs = map (\<lambda>p. length p div frame * unit) ps \<and> code s (concat ps) = Some (concat outs, s')"
proof (induction ps arbitrary: s)
  case Nil
  then show ?case by (simp add: code_Nil)
next
  case (Cons p ps)
  then obtain out s1 where 1: "code s p = Some (out, s1)" "inv s1" "length out = length p div frame * unit"
    using code_framed [of s p] by auto
  with Cons.IH [of s1] Cons.prems obtain outs s2 where
    "code_packets code s1 ps = Some (outs, s2)" "inv s2"
    "map length outs = map (\<lambda>p. length p div frame * unit) ps" "code s1 (concat ps) = Some (concat outs, s2)"
    by auto
  with 1 Cons.prems show ?case by (simp add: code_append)
qed

end

text \<open>A coder that folds a step over its units.\<close>

fun fold_units :: "('s \<Rightarrow> 'a \<Rightarrow> ('b list \<times> 's) option) \<Rightarrow> 's \<Rightarrow> 'a list \<Rightarrow> ('b list \<times> 's) option" where
  "fold_units f s [] = Some ([], s)"
| "fold_units f s (x # xs) =
    do { (out, s) \<leftarrow> f s x;
         (out', s) \<leftarrow> fold_units f s xs;
         Some (out @ out', s) }"

lemma fold_units_append:
  "fold_units f s (xs @ ys) =
    do { (out, s) \<leftarrow> fold_units f s xs;
         (out', s) \<leftarrow> fold_units f s ys;
         Some (out @ out', s) }"
proof (induction xs arbitrary: s)
  case Nil
  then show ?case by (cases "fold_units f s ys") auto
next
  case (Cons x xs)
  then show ?case by (auto split: option.splits Option.bind_splits)
qed

lemma stream_coder_fold_units: "stream_coder (fold_units f) frame"
  by unfold_locales (simp_all add: fold_units_append)

end
