(* ===== verification/G711.thy ===== *)
theory G711
  imports Audio_Codec Codec
begin

text \<open>
  The two laws of G.711: \<^verbatim>\<open>src/src/codec/g711.rs\<close>.  The encoders and decoders have no state.
\<close>

section \<open>mu-law\<close>

definition ULAW_BIAS :: int where "ULAW_BIAS = 0x84"
definition ULAW_MAX :: int where "ULAW_MAX = 0x7FFF"

text \<open>The loop \<^verbatim>\<open>while exponent > 0 && (pcm & mask) == 0\<close>.\<close>

fun ulaw_exponent :: "int \<Rightarrow> nat \<Rightarrow> int \<Rightarrow> nat" where
  "ulaw_exponent pcm 0 mask_bit = 0"
| "ulaw_exponent pcm (Suc exponent) mask_bit =
    (if pcm AND mask_bit = 0 then ulaw_exponent pcm exponent (drop_bit 1 mask_bit) else Suc exponent)"

definition linear_to_ulaw :: "i16 \<Rightarrow> u8" where
  "linear_to_ulaw sample =
    (let s = sint sample;
         sign = (if s < 0 then 0x80 else 0);
         pcm = (if s < 0 then (if s = - 32768 then ULAW_MAX else - s) else s);
         pcm = sat_i16 (pcm + ULAW_BIAS);
         exponent = ulaw_exponent pcm 7 0x4000;
         mantissa = word_of_int (drop_bit (exponent + 3) pcm AND 0x0F) in
     NOT (sign OR push_bit 4 (word_of_nat exponent) OR mantissa))"

definition ulaw_to_linear :: "u8 \<Rightarrow> i16" where
  "ulaw_to_linear ulaw =
    (let ulaw = NOT ulaw;
         sign = ulaw AND 0x80;
         exponent = unat (drop_bit 4 ulaw AND 0x07);
         mantissa = uint (ulaw AND 0x0F);
         sample = push_bit exponent (push_bit 3 mantissa + ULAW_BIAS) - ULAW_BIAS in
     i16_of_int (if sign \<noteq> 0 then - sample else sample))"

section \<open>A-law\<close>

definition ALAW_SEG_END :: "int list" where
  "ALAW_SEG_END = [0x1F, 0x3F, 0x7F, 0xFF, 0x1FF, 0x3FF, 0x7FF, 0xFFF]"

text \<open>The loop \<^verbatim>\<open>while seg < 8 && sample > ALAW_SEG_END[seg]\<close>, over the bounds that are left.\<close>

fun alaw_segment :: "int \<Rightarrow> int list \<Rightarrow> nat \<Rightarrow> nat" where
  "alaw_segment sample [] seg = seg"
| "alaw_segment sample (bound # bounds) seg =
    (if sample > bound then alaw_segment sample bounds (seg + 1) else seg)"

definition linear_to_alaw :: "i16 \<Rightarrow> u8" where
  "linear_to_alaw sample =
    (let s = sint sample;
         sign = (if s \<ge> 0 then 0xD5 else 0x55);
         abs_sample = (if s \<ge> 0 then s else if s = - 32768 then 32767 else - s);
         sample = drop_bit 3 abs_sample;
         seg = alaw_segment sample ALAW_SEG_END 0;
         aval = (if seg \<ge> 8 then 0x7F
                 else if seg < 2 then word_of_int (drop_bit 1 sample)
                 else push_bit 4 (word_of_nat seg) OR word_of_int (drop_bit seg sample AND 0x0F)) in
     aval XOR sign)"

definition alaw_to_linear :: "u8 \<Rightarrow> i16" where
  "alaw_to_linear alaw =
    (let alaw = alaw XOR 0x55;
         seg = unat (drop_bit 4 (alaw AND 0x70));
         value = uint (push_bit 1 (alaw AND 0x0F) OR 1);
         sample = (if seg = 0 then push_bit 3 value else push_bit (seg + 2) (value OR 0x20)) in
     i16_of_int (if alaw AND 0x80 \<noteq> 0 then sample else - sample))"

section \<open>The encoders and decoders\<close>

text \<open>What \<^verbatim>\<open>encode\<close> returns and leaves in the output; \<^verbatim>\<open>decode\<close> only appends.\<close>

definition PcmuEncoder_encode :: "pcm \<Rightarrow> bytes \<Rightarrow> nat \<times> bytes" where
  "PcmuEncoder_encode pcm output = (length pcm, output @ map linear_to_ulaw pcm)"

definition PcmuDecoder_decode :: "bytes \<Rightarrow> pcm \<Rightarrow> pcm" where
  "PcmuDecoder_decode encoded output = output @ map ulaw_to_linear encoded"

definition PcmaEncoder_encode :: "pcm \<Rightarrow> bytes \<Rightarrow> nat \<times> bytes" where
  "PcmaEncoder_encode pcm output = (length pcm, output @ map linear_to_alaw pcm)"

definition PcmaDecoder_decode :: "bytes \<Rightarrow> pcm \<Rightarrow> pcm" where
  "PcmaDecoder_decode encoded output = output @ map alaw_to_linear encoded"

text \<open>\<^verbatim>\<open>payload_type\<close> and \<^verbatim>\<open>codec_type\<close> of the four types.\<close>

definition PcmuEncoder_payload_type :: u8 where "PcmuEncoder_payload_type = 0"
definition PcmaEncoder_payload_type :: u8 where "PcmaEncoder_payload_type = 8"

text \<open>The default of \<^verbatim>\<open>AudioDecoder::conceal_loss\<close>, which every decoder but Opus keeps.\<close>

definition conceal_loss :: "nat \<Rightarrow> bytes option \<Rightarrow> pcm \<Rightarrow> pcm" where
  "conceal_loss samples next_packet output = output @ replicate samples 0"

text \<open>The four coders keep no state and may be called with any number of samples or bytes.\<close>

interpretation pcmu_encoder: framed_coder "\<lambda>(s :: unit) pcm. Some (snd (PcmuEncoder_encode pcm []), s)" 1 "\<lambda>_. True" 1
  by unfold_locales (simp_all add: PcmuEncoder_encode_def)

interpretation pcma_encoder: framed_coder "\<lambda>(s :: unit) pcm. Some (snd (PcmaEncoder_encode pcm []), s)" 1 "\<lambda>_. True" 1
  by unfold_locales (simp_all add: PcmaEncoder_encode_def)

interpretation pcmu_decoder: framed_coder "\<lambda>(s :: unit) bs. Some (PcmuDecoder_decode bs [], s)" 1 "\<lambda>_. True" 1
  by unfold_locales (simp_all add: PcmuDecoder_decode_def)

interpretation pcma_decoder: framed_coder "\<lambda>(s :: unit) bs. Some (PcmaDecoder_decode bs [], s)" 1 "\<lambda>_. True" 1
  by unfold_locales (simp_all add: PcmaDecoder_decode_def)

section \<open>What the laws compute\<close>

text \<open>The magnitude a code stands for, by segment and step.\<close>

definition ulaw_value :: "nat \<Rightarrow> int \<Rightarrow> int" where
  "ulaw_value e m = (8 * m + 132) * 2 ^ e - 132"

definition alaw_value :: "nat \<Rightarrow> int \<Rightarrow> int" where
  "alaw_value e m = (if e = 0 then 16 * m + 8 else (2 * m + 33) * 2 ^ (e + 2))"

lemma ulaw_decode_table:
  "list_all (\<lambda>e. list_all (\<lambda>m. list_all (\<lambda>neg.
     sint (ulaw_to_linear (NOT ((if neg then 0x80 else 0) OR push_bit 4 (word_of_nat e) OR word_of_int m))) =
       (if neg then - ulaw_value e m else ulaw_value e m)) [True, False])
     [0..15]) [0..<8]"
  by code_simp

lemma alaw_decode_table:
  "list_all (\<lambda>e. list_all (\<lambda>m. list_all (\<lambda>neg.
     sint (alaw_to_linear ((push_bit 4 (word_of_nat e) OR word_of_int m) XOR (if neg then 0x55 else 0xD5))) =
       (if neg then - alaw_value e m else alaw_value e m)) [True, False])
     [0..15]) [0..<8]"
  by code_simp

lemma ulaw_decode:
  "e < 8 \<Longrightarrow> 0 \<le> m \<Longrightarrow> m < 16 \<Longrightarrow>
   sint (ulaw_to_linear (NOT ((if neg then 0x80 else 0) OR push_bit 4 (word_of_nat e) OR word_of_int m))) =
     (if neg then - ulaw_value e m else ulaw_value e m)"
  by (rule ulaw_decode_table [unfolded list_all_iff, rule_format]) simp_all

lemma alaw_decode:
  "e < 8 \<Longrightarrow> 0 \<le> m \<Longrightarrow> m < 16 \<Longrightarrow>
   sint (alaw_to_linear ((push_bit 4 (word_of_nat e) OR word_of_int m) XOR (if neg then 0x55 else 0xD5))) =
     (if neg then - alaw_value e m else alaw_value e m)"
  by (rule alaw_decode_table [unfolded list_all_iff, rule_format]) simp_all

lemma second_segment_table:
  "list_all (\<lambda>m. word_of_int (16 + m) = (push_bit 4 (word_of_nat 1) OR word_of_int m :: u8)) [0..15]"
  by code_simp

lemma second_segment:
  "0 \<le> m \<Longrightarrow> m < 16 \<Longrightarrow> word_of_int (16 + m) = (push_bit 4 (word_of_nat 1) OR word_of_int m :: u8)"
  by (rule second_segment_table [unfolded list_all_iff, rule_format]) simp

lemma int_and_15: "(x :: int) AND 15 = x mod 16"
  using take_bit_eq_mask [of 4 x] by (simp add: take_bit_eq_mod mask_eq_exp_minus_1)

lemma int_div_less: "0 < d \<Longrightarrow> (x :: int) < c * d \<Longrightarrow> x div d < c"
proof (rule ccontr)
  assume d: "0 < d" "x < c * d" and "\<not> x div d < c"
  then have "c * d \<le> x div d * d" by (intro mult_right_mono) simp_all
  moreover have "x div d * d \<le> x" using d(1) by (simp add: pos_mod_sign minus_mod_eq_div_mult [symmetric])
  ultimately show False using d(2) by simp
qed

lemma int_le_div: "0 < d \<Longrightarrow> c * d \<le> (x :: int) \<Longrightarrow> c \<le> x div d"
  by (metis nonzero_mult_div_cancel_right less_irrefl zdiv_mono1)

lemma int_and_exp: "0 \<le> p \<Longrightarrow> p < 2 ^ (k + 1) \<Longrightarrow> p AND 2 ^ k = 0 \<longleftrightarrow> p < (2 ^ k :: int)"
proof -
  assume p: "0 \<le> p" "p < 2 ^ (k + 1)"
  then have b: "p div 2 ^ k < 2" "0 \<le> p div 2 ^ k"
    by (auto intro!: int_div_less simp: pos_imp_zdiv_nonneg_iff)
  have "p div 2 ^ k = 0 \<longleftrightarrow> p < 2 ^ k"
    using p(1) by (auto simp: zdiv_eq_0_iff)
  moreover have "odd x \<longleftrightarrow> x \<noteq> 0" if "x < 2" "0 \<le> x" for x :: int using that by presburger
  then have "odd (p div 2 ^ k) \<longleftrightarrow> p div 2 ^ k \<noteq> 0" using b by blast
  ultimately show ?thesis by (simp add: and_exp_eq_0_iff_not_bit bit_iff_odd)
qed

lemma ulaw_exponent_range:
  "2 ^ 7 \<le> p \<Longrightarrow> p < 2 ^ (n + 8) \<Longrightarrow>
   ulaw_exponent p n (2 ^ (n + 7)) \<le> n \<and>
   2 ^ (ulaw_exponent p n (2 ^ (n + 7)) + 7) \<le> p \<and> p < 2 ^ (ulaw_exponent p n (2 ^ (n + 7)) + 8)"
proof (induction n)
  case 0
  then show ?case by simp
next
  case (Suc n)
  have p: "0 \<le> p" using Suc.prems(1) by simp
  have m: "p AND 2 ^ (Suc n + 7) = 0 \<longleftrightarrow> p < 2 ^ (Suc n + 7)"
    by (rule int_and_exp) (use p Suc.prems in simp_all)
  have d: "drop_bit 1 (2 ^ (Suc n + 7) :: int) = 2 ^ (n + 7)"
    by (simp add: drop_bit_eq_div power_add)
  show ?case
  proof (cases "p < 2 ^ (Suc n + 7)")
    case True
    then have "p < 2 ^ (n + 8)" by (simp add: add.commute)
    from Suc.IH [OF Suc.prems(1) this] m True d show ?thesis by simp
  next
    case False
    with m Suc.prems show ?thesis by simp
  qed
qed

text \<open>The magnitude that is encoded and its segment, step and reconstruction.\<close>

definition magnitude :: "int \<Rightarrow> int" where
  "magnitude s = (if s = - 32768 then 32767 else \<bar>s\<bar>)"

lemma magnitude_range: "is_i16 s \<Longrightarrow> 0 \<le> magnitude s \<and> magnitude s \<le> 32767"
  by (auto simp: magnitude_def is_i16_def)

lemma step_of_16: "16 \<le> x \<Longrightarrow> x < 32 \<Longrightarrow> x = 16 + x mod (16 :: int)"
  by presburger

lemma ulaw_code:
  obtains e m where "e < 8" "0 \<le> m" "m < 16"
    "min 32767 (magnitude (sint s) + 132) div 2 ^ (e + 3) = 16 + m"
    "linear_to_ulaw s = NOT ((if sint s < 0 then 0x80 else 0) OR push_bit 4 (word_of_nat e) OR word_of_int m)"
    "sint (ulaw_to_linear (linear_to_ulaw s)) = (if sint s < 0 then - ulaw_value e m else ulaw_value e m)"
proof -
  let ?p = "min 32767 (magnitude (sint s) + 132)"
  define e where "e = ulaw_exponent ?p 7 0x4000"
  define m where "m = ?p div 2 ^ (e + 3) mod 16"
  have p: "132 \<le> ?p" "?p \<le> 32767" using magnitude_range [OF is_i16_sint, of s] by auto
  have e: "e \<le> 7" "2 ^ (e + 7) \<le> ?p" "?p < 2 ^ (e + 8)"
    using ulaw_exponent_range [of ?p 7] p by (simp_all add: e_def)
  have q: "16 \<le> ?p div 2 ^ (e + 3)" "?p div 2 ^ (e + 3) < 32"
    using e(2,3) by (auto intro!: int_le_div int_div_less simp: power_add)
  have qm: "?p div 2 ^ (e + 3) = 16 + m" and m: "0 \<le> m" "m < 16"
    using step_of_16 [OF q] by (simp_all add: m_def)
  have "linear_to_ulaw s = NOT ((if sint s < 0 then 0x80 else 0) OR push_bit 4 (word_of_nat e) OR word_of_int m)"
  proof -
    have "sat_i16 ((if sint s < 0 then if sint s = - 32768 then ULAW_MAX else - sint s else sint s) + ULAW_BIAS) = ?p"
      using sint_i16_bounds [of s]
      by (auto simp: sat_i16_def clamp_def ULAW_MAX_def ULAW_BIAS_def magnitude_def)
    then show ?thesis
      by (simp add: linear_to_ulaw_def Let_def e_def m_def int_and_15 drop_bit_eq_div)
  qed
  then show thesis
    using that [of e m] ulaw_decode [of e m "sint s < 0"] e(1) m qm by simp
qed

lemma alaw_segment_range:
  "0 \<le> p \<Longrightarrow> p < 4096 \<Longrightarrow>
   (let g = alaw_segment p ALAW_SEG_END 0 in
    g < 8 \<and> (if g = 0 then p < 32 else 2 ^ (g + 4) \<le> p \<and> p < 2 ^ (g + 5)))"
  by (auto simp: ALAW_SEG_END_def Let_def)

lemma alaw_code:
  obtains e m where "e < 8" "0 \<le> m" "m < 16"
    "if e = 0 then magnitude (sint s) div 16 = m else magnitude (sint s) div 2 ^ (e + 3) = 16 + m"
    "linear_to_alaw s = (push_bit 4 (word_of_nat e) OR word_of_int m) XOR (if sint s < 0 then 0x55 else 0xD5)"
    "sint (alaw_to_linear (linear_to_alaw s)) = (if sint s < 0 then - alaw_value e m else alaw_value e m)"
proof -
  let ?a = "magnitude (sint s)"
  let ?p = "?a div 8"
  define e where "e = alaw_segment ?p ALAW_SEG_END 0"
  define m where "m = (if e < 2 then ?p div 2 mod 16 else ?p div 2 ^ e mod 16)"
  have a: "0 \<le> ?a" "?a \<le> 32767" using magnitude_range [OF is_i16_sint, of s] by auto
  then have p: "0 \<le> ?p" "?p < 4096" by simp_all
  then have e: "e < 8" "if e = 0 then ?p < 32 else 2 ^ (e + 4) \<le> ?p \<and> ?p < 2 ^ (e + 5)"
    using alaw_segment_range [OF p] by (simp_all add: e_def Let_def)
  have m: "0 \<le> m" "m < 16" by (simp_all add: m_def)
  have c0: "?a div 16 = m" if "e = 0"
    using that e(2) p by (simp add: m_def)
  have c1: "?a div 2 ^ (e + 3) = 16 + m" if "e \<noteq> 0"
  proof -
    have "16 \<le> ?p div 2 ^ e" "?p div 2 ^ e < 32"
      using that e(2) by (auto intro!: int_le_div int_div_less simp: power_add)
    then have "?p div 2 ^ e = 16 + ?p div 2 ^ e mod 16" by (rule step_of_16)
    moreover have "?a div 2 ^ (e + 3) = ?p div 2 ^ e"
      by (simp add: power_add zdiv_zmult2_eq mult.commute)
    moreover have "m = ?p div 2 ^ e mod 16" using that by (cases "e = 1") (auto simp: m_def)
    ultimately show ?thesis by simp
  qed
  have "linear_to_alaw s = (push_bit 4 (word_of_nat e) OR word_of_int m) XOR (if sint s < 0 then 0x55 else 0xD5)"
  proof -
    have d: "drop_bit 3 (if sint s \<ge> 0 then sint s else if sint s = - 32768 then 32767 else - sint s) = ?p"
      by (auto simp: magnitude_def drop_bit_eq_div)
    have "linear_to_alaw s =
        (if e \<ge> 8 then 0x7F else if e < 2 then word_of_int (drop_bit 1 ?p)
         else push_bit 4 (word_of_nat e) OR word_of_int (drop_bit e ?p AND 0x0F)) XOR
        (if sint s \<ge> 0 then 0xD5 else 0x55)"
      unfolding linear_to_alaw_def Let_def d e_def by (rule refl)
    moreover have "(if e < 2 then word_of_int (drop_bit 1 ?p)
        else push_bit 4 (word_of_nat e) OR word_of_int (drop_bit e ?p AND 0x0F)) =
        (push_bit 4 (word_of_nat e) OR word_of_int m :: u8)"
    proof (cases "e < 2")
      case True
      then consider "e = 0" | "e = 1" by linarith
      then show ?thesis
      proof cases
        case 1
        with e(2) p have "m = ?p div 2" by (simp add: m_def)
        with 1 show ?thesis by (simp add: drop_bit_eq_div)
      next
        case 2
        with e(2) have "32 \<le> ?p" "?p < 64" by simp_all
        then have "16 \<le> ?p div 2" "?p div 2 < 32" by linarith+
        from step_of_16 [OF this] 2 have "?p div 2 = 16 + m" by (simp add: m_def)
        with 2 second_segment [OF m] show ?thesis by (simp add: drop_bit_eq_div)
      qed
    qed (simp add: m_def drop_bit_eq_div int_and_15)
    moreover have "\<not> 8 \<le> e" using e(1) by simp
    moreover have "(if sint s \<ge> 0 then 0xD5 else 0x55) = (if sint s < 0 then 0x55 else 0xD5 :: u8)" by auto
    ultimately show ?thesis by (simp only: if_False)
  qed
  then show thesis
    using that [of e m] alaw_decode [of e m "sint s < 0"] e(1) m c0 c1 by (cases "e = 0") simp_all
qed

section \<open>Error and order\<close>

lemma cell_bounds:
  assumes "(p :: int) div 2 ^ (e + 3) = 16 + m"
  shows "8 * (16 + m) * 2 ^ e \<le> p" "p < 8 * (17 + m) * 2 ^ e"
proof -
  have "p = (16 + m) * (8 * 2 ^ e) + p mod (8 * 2 ^ e)"
  proof -
    have "p div (8 * 2 ^ e) = 16 + m" using assms by (simp add: power_add mult.commute)
    then show ?thesis using div_mult_mod_eq [of p "8 * 2 ^ e"] by metis
  qed
  moreover have "0 \<le> p mod (8 * 2 ^ e)" "p mod (8 * 2 ^ e) < 8 * 2 ^ e" by simp_all
  ultimately show "8 * (16 + m) * 2 ^ e \<le> p" "p < 8 * (17 + m) * 2 ^ e"
    unfolding distrib_right distrib_left by linarith+
qed

lemma pow_le_128: "e < 8 \<Longrightarrow> (2 :: int) ^ e \<le> 128"
  using power_increasing [of e 7 "2 :: int"] by simp



lemma cell_step:
  assumes "e < f" "0 \<le> m" "m < 16" "0 \<le> (n :: int)"
  shows "8 * (17 + m) * 2 ^ e \<le> 8 * (16 + n) * 2 ^ f"
proof -
  define x z y w :: int where "x = 2 ^ e" and "z = 2 ^ f" and "y = m * x" and "w = n * z"
  have "2 ^ Suc e \<le> (2 :: int) ^ f" using assms(1) by (intro power_increasing) auto
  then have "2 * x \<le> z" "1 \<le> x" by (simp_all add: x_def z_def)
  moreover have "y \<le> 15 * x" "0 \<le> w"
    unfolding y_def w_def using assms(2-4) by (auto intro!: mult_right_mono simp: x_def z_def)
  ultimately have "8 * (17 * x + y) \<le> 8 * (16 * z + w)" by simp
  then show ?thesis by (simp only: distrib_right mult.assoc x_def z_def y_def w_def)
qed

lemma cell_mono:
  assumes "p div 2 ^ (e + 3) = 16 + m" "q div 2 ^ (f + 3) = 16 + n" "p \<le> q"
    and "0 \<le> m" "m < 16" "0 \<le> n" "n < (16 :: int)"
  shows "(8 * m + 132) * 2 ^ e \<le> (8 * n + 132) * 2 ^ f \<and> e \<le> f"
proof -
  note pb = cell_bounds [OF assms(1)] and qb = cell_bounds [OF assms(2)]
  consider "f < e" | "e = f" | "e < f" by linarith
  then show ?thesis
  proof cases
    case 1
    from cell_step [OF this assms(6,7,4)] pb qb assms(3) show ?thesis by linarith
  next
    case 2
    from le_less_trans [OF order_trans [OF pb(1) assms(3)] qb(2)] 2 have "m \<le> n" by simp
    with 2 show ?thesis by simp
  next
    case 3
    have "(8 * m + 132) * 2 ^ e \<le> 8 * (17 + m) * 2 ^ e" by simp
    moreover have "8 * (16 + n) * 2 ^ f \<le> (8 * n + 132) * 2 ^ f" by simp
    ultimately show ?thesis using cell_step [OF 3 assms(4-6)] 3 by linarith
  qed
qed









section \<open>Encoding what was decoded\<close>

lemma cell_unique:
  assumes "p div 2 ^ (e + 3) = 16 + m" "p div 2 ^ (f + 3) = 16 + n"
    and "0 \<le> m" "m < 16" "0 \<le> n" "n < (16 :: int)"
  shows "e = f \<and> m = n"
  using cell_mono [OF assms(1,2) _ assms(3-6)] cell_mono [OF assms(2,1) _ assms(5,6,3,4)] assms(1,2) by auto

lemma ulaw_value_cell:
  assumes "e < 8" "0 \<le> m" "m < 16"
  shows "0 \<le> ulaw_value e m" "ulaw_value e m \<le> 32124" "(ulaw_value e m + 132) div 2 ^ (e + 3) = 16 + m"
    "ulaw_value e m = 0 \<longleftrightarrow> e = 0 \<and> m = 0"
proof -
  have "(8 * m + 132) * 2 ^ e div (8 * 2 ^ e) = (8 * m + 132) div 8" by simp
  also have "\<dots> = 16 + m" by simp
  finally show "(ulaw_value e m + 132) div 2 ^ (e + 3) = 16 + m"
    by (simp add: ulaw_value_def power_add mult.commute)
  have "(8 * m + 132) * 2 ^ e \<le> 252 * 128" using assms pow_le_128 by (intro mult_mono) auto
  then show "ulaw_value e m \<le> 32124" by (simp add: ulaw_value_def)
  have "132 * 1 \<le> (8 * m + 132) * (2 :: int) ^ e" using assms by (intro mult_mono) auto
  then show "0 \<le> ulaw_value e m" by (simp add: ulaw_value_def)
  show "ulaw_value e m = 0 \<longleftrightarrow> e = 0 \<and> m = 0"
  proof
    assume z: "ulaw_value e m = 0"
    have "132 * 2 ^ 1 \<le> (8 * m + 132) * (2 :: int) ^ e" if "e \<noteq> 0"
      using that assms(2) self_le_power [of 2 e] by (intro mult_mono) auto
    with z show "e = 0 \<and> m = 0" by (cases "e = 0") (auto simp: ulaw_value_def)
  qed (simp add: ulaw_value_def)
qed

lemma alaw_value_cell:
  assumes "e < 8" "0 \<le> m" "m < 16"
  shows "0 < alaw_value e m" "alaw_value e m \<le> 32256"
    "if e = 0 then alaw_value e m div 16 = m else alaw_value e m div 2 ^ (e + 3) = 16 + m"
proof -
  show "0 < alaw_value e m" using assms by (simp add: alaw_value_def)
  have "(2 * m + 33) * 2 ^ (e + 2) \<le> 63 * 512"
    using assms power_increasing [of "e + 2" 9 "2 :: int"] by (intro mult_mono) auto
  then show "alaw_value e m \<le> 32256" using assms by (simp add: alaw_value_def)
  have "(2 * m + 33) * 2 ^ (e + 2) div (2 * 2 ^ (e + 2)) = (2 * m + 33) div 2" by simp
  then show "if e = 0 then alaw_value e m div 16 = m else alaw_value e m div 2 ^ (e + 3) = 16 + m"
    by (simp add: alaw_value_def power_add mult.commute)
qed

lemma alaw_cell_unique:
  assumes "if e = 0 then p div 16 = m else p div 2 ^ (e + 3) = 16 + m"
    and "if f = 0 then p div 16 = n else p div 2 ^ (f + 3) = 16 + n"
    and "0 \<le> m" "m < 16" "0 \<le> n" "n < (16 :: int)"
  shows "e = f \<and> m = n"
proof -
  have big: "256 \<le> p" if "e \<noteq> 0" "p div 2 ^ (e + 3) = 16 + m" "0 \<le> m" for e m
  proof -
    have "8 * (16 + 0) * 2 ^ 1 \<le> 8 * (16 + m) * (2 :: int) ^ e"
      using self_le_power [of 2 e] that by (intro mult_mono) auto
    then show ?thesis using cell_bounds(1) [OF that(2)] by simp
  qed
  consider "e = 0" "f = 0" | "e = 0" "f \<noteq> 0" | "e \<noteq> 0" "f = 0" | "e \<noteq> 0" "f \<noteq> 0" by blast
  then show ?thesis
  proof cases
    case 2
    with big [of f n] assms show ?thesis by simp
  next
    case 3
    with big [of e m] assms show ?thesis by simp
  next
    case 4
    with cell_unique [of p e m f n] assms show ?thesis by simp
  qed (use assms in simp)
qed

lemma ulaw_recode: "linear_to_ulaw (ulaw_to_linear b) = (if b = 0x7F then 0xFF else b)"
proof -
  obtain e m neg where c: "e < 8" "0 \<le> m" "m < 16"
    "NOT b = ((if neg then 0x80 else 0) OR push_bit 4 (word_of_nat e) OR word_of_int m)"
    by (rule u8_parts)
  then have b: "b = NOT ((if neg then 0x80 else 0) OR push_bit 4 (word_of_nat e) OR word_of_int m)"
    by (metis bit.double_compl)
  let ?s = "ulaw_to_linear b"
  have s: "sint ?s = (if neg then - ulaw_value e m else ulaw_value e m)"
    unfolding b by (rule ulaw_decode [OF c(1-3)])
  obtain f n where d: "f < 8" "0 \<le> n" "n < 16"
    "min 32767 (magnitude (sint ?s) + 132) div 2 ^ (f + 3) = 16 + n"
    "linear_to_ulaw ?s = NOT ((if sint ?s < 0 then 0x80 else 0) OR push_bit 4 (word_of_nat f) OR word_of_int n)"
    by (rule ulaw_code)
  note v = ulaw_value_cell [OF c(1-3)]
  have "min 32767 (magnitude (sint ?s) + 132) = ulaw_value e m + 132"
    using v(1,2) by (simp add: s magnitude_def)
  with d(4) v(3) cell_unique [of "ulaw_value e m + 132" f n e m] c(2,3) d(2,3) have eq: "f = e" "n = m" by auto
  have neg: "sint ?s < 0 \<longleftrightarrow> neg \<and> \<not> (e = 0 \<and> m = 0)" using v(1,4) by (auto simp: s)
  show ?thesis
  proof (cases "neg \<and> e = 0 \<and> m = 0")
    case True
    with neg have "\<not> sint ?s < 0" by simp
    moreover from True have "b = 0x7F" unfolding b by simp
    ultimately show ?thesis using True unfolding d(5) eq by simp
  next
    case False
    with neg have "sint ?s < 0 \<longleftrightarrow> neg" by blast
    then have l: "linear_to_ulaw ?s = b" unfolding d(5) eq by (simp only: b [symmetric])
    have "b \<noteq> 0x7F"
    proof
      assume "b = 0x7F"
      then have "linear_to_ulaw ?s = 0xFF" by (simp only:) code_simp
      with l \<open>b = 0x7F\<close> show False by simp
    qed
    with l show ?thesis by simp
  qed
qed

lemma alaw_sign_table:
  "list_all (\<lambda>e. list_all (\<lambda>m. (0x80 OR push_bit 4 (word_of_nat e) OR word_of_int m) XOR 0x55 =
     (push_bit 4 (word_of_nat e) OR word_of_int m) XOR (0xD5 :: u8)) [0..15]) [0..<8]"
  by code_simp

lemma alaw_recode: "linear_to_alaw (alaw_to_linear b) = b"
proof -
  obtain e m pos where c: "e < 8" "0 \<le> m" "m < 16"
    "b XOR 0x55 = ((if pos then 0x80 else 0) OR push_bit 4 (word_of_nat e) OR word_of_int m)"
    by (rule u8_parts)
  have "b = (b XOR 0x55) XOR 0x55" by (simp add: xor.assoc)
  also have "\<dots> = (push_bit 4 (word_of_nat e) OR word_of_int m) XOR (if \<not> pos then 0x55 else 0xD5)"
    unfolding c(4) using alaw_sign_table c(1-3) by (cases pos) (auto simp: list_all_iff)
  finally have b: "b = (push_bit 4 (word_of_nat e) OR word_of_int m) XOR (if \<not> pos then 0x55 else 0xD5)" .
  let ?s = "alaw_to_linear b"
  have s: "sint ?s = (if \<not> pos then - alaw_value e m else alaw_value e m)"
    unfolding b by (rule alaw_decode [OF c(1-3)])
  obtain f n where d: "f < 8" "0 \<le> n" "n < 16"
    "if f = 0 then magnitude (sint ?s) div 16 = n else magnitude (sint ?s) div 2 ^ (f + 3) = 16 + n"
    "linear_to_alaw ?s = (push_bit 4 (word_of_nat f) OR word_of_int n) XOR (if sint ?s < 0 then 0x55 else 0xD5)"
    by (rule alaw_code)
  note v = alaw_value_cell [OF c(1-3)]
  have mag: "magnitude (sint ?s) = alaw_value e m" using v(1,2) by (simp add: s magnitude_def)
  from alaw_cell_unique [OF d(4) [unfolded mag] v(3) d(2,3) c(2,3)] have "f = e" "n = m" by simp_all
  moreover have "sint ?s < 0 \<longleftrightarrow> \<not> pos" using v(1) by (simp add: s)
  ultimately show ?thesis unfolding d(5) by (simp only: b [symmetric])
qed

section \<open>Properties\<close>



text \<open>Decoded samples are fixed points of both codes.  Encoding what a byte decodes to gives
  the byte back, so that a stream can be decoded and encoded again any number of times
  without further loss; the one exception is the negative zero of mu-law, \<^verbatim>\<open>0x7F\<close>, which
  becomes the positive zero \<^verbatim>\<open>0xFF\<close>.\<close>

theorem g711_recode:
  "PcmaEncoder_encode (PcmaDecoder_decode bs []) [] = (length bs, bs) \<and>
   PcmuEncoder_encode (PcmuDecoder_decode bs []) [] = (length bs, map (\<lambda>b. if b = 0x7F then 0xFF else b) bs)"
  by (simp add: PcmaEncoder_encode_def PcmaDecoder_decode_def PcmuEncoder_encode_def
      PcmuDecoder_decode_def comp_def alaw_recode ulaw_recode map_idI)

end
