(* ===== verification/G722.thy ===== *)
theory G722
  imports Audio_Codec
begin

text \<open>
  The G.722 codec: \<^verbatim>\<open>src/src/codec/g722.rs\<close>.  All arithmetic is on \<^verbatim>\<open>i32\<close> values and is
  checked: a result that does not fit, or an index past the end of a table, is \<open>None\<close>.
\<close>

section \<open>Tables\<close>

definition QMF :: "int list" where
  "QMF = [3, -11, 12, 32, -210, 951, 3876, -805, 362, -156, 53, -11]"

definition Q6 :: "int list" where
  "Q6 =
    [0, 35, 72, 110, 150, 190, 233, 276, 323, 370, 422, 473, 530, 587, 650, 714, 786, 858, 940,
     1023, 1121, 1219, 1339, 1458, 1612, 1765, 1980, 2195, 2557, 2919, 0, 0]"

definition ILN :: "int list" where
  "ILN =
    [0, 63, 62, 31, 30, 29, 28, 27, 26, 25, 24, 23, 22, 21, 20, 19, 18, 17, 16, 15, 14, 13, 12, 11,
     10, 9, 8, 7, 6, 5, 4, 0]"

definition ILP :: "int list" where
  "ILP =
    [0, 61, 60, 59, 58, 57, 56, 55, 54, 53, 52, 51, 50, 49, 48, 47, 46, 45, 44, 43, 42, 41, 40, 39,
     38, 37, 36, 35, 34, 33, 32, 0]"

definition WL :: "int list" where
  "WL = [-60, -30, 58, 172, 334, 538, 1198, 3042]"

definition RL42 :: "int list" where
  "RL42 = [0, 7, 6, 5, 4, 3, 2, 1, 7, 6, 5, 4, 3, 2, 1, 0]"

definition ILB :: "int list" where
  "ILB =
    [2048, 2093, 2139, 2186, 2233, 2282, 2332, 2383, 2435, 2489, 2543, 2599, 2656, 2714, 2774, 2834,
     2896, 2960, 3025, 3091, 3158, 3228, 3298, 3371, 3444, 3520, 3597, 3676, 3756, 3838, 3922, 4008]"

definition QM4 :: "int list" where
  "QM4 =
    [0, -20456, -12896, -8968, -6288, -4240, -2584, -1200, 20456, 12896, 8968, 6288, 4240, 2584,
     1200, 0]"

definition QM6 :: "int list" where
  "QM6 =
    [-136, -136, -136, -136, -24808, -21904, -19008, -16704, -14984, -13512, -12280, -11192, -10232,
     -9360, -8576, -7856, -7192, -6576, -6000, -5456, -4944, -4464, -4008, -3576, -3168, -2776,
     -2400, -2032, -1688, -1360, -1040, -728, 24808, 21904, 19008, 16704, 14984, 13512, 12280,
     11192, 10232, 9360, 8576, 7856, 7192, 6576, 6000, 5456, 4944, 4464, 4008, 3576, 3168, 2776,
     2400, 2032, 1688, 1360, 1040, 728, 432, 136, -432, -136]"

definition QM2 :: "int list" where "QM2 = [-7408, -1616, 7408, 1616]"
definition IHN :: "int list" where "IHN = [0, 1, 0]"
definition IHP :: "int list" where "IHP = [0, 3, 2]"
definition WH :: "int list" where "WH = [0, -214, 798]"
definition RH2 :: "int list" where "RH2 = [2, 1, 2, 1]"

definition saturate :: "int \<Rightarrow> int" where
  "saturate x = clamp (- 32768) 32767 x"

section \<open>One band\<close>

record Band =
  b_s :: int
  b_sp :: int
  b_sz :: int
  b_r :: "int list"
  b_a :: "int list"
  b_ap :: "int list"
  b_p :: "int list"
  b_d :: "int list"
  b_b :: "int list"
  b_bp :: "int list"
  b_nb :: int
  b_det :: int

definition Band_new :: "int \<Rightarrow> Band" where
  "Band_new det =
    \<lparr>b_s = 0, b_sp = 0, b_sz = 0, b_r = replicate 3 0, b_a = replicate 3 0, b_ap = replicate 3 0,
     b_p = replicate 3 0, b_d = replicate 7 0, b_b = replicate 7 0, b_bp = replicate 7 0,
     b_nb = 0, b_det = det\<rparr>"

definition Band_scale :: "Band \<Rightarrow> int \<Rightarrow> int \<Rightarrow> int \<Rightarrow> Band option" where
  "Band_scale band w max_nb shift =
    do { t \<leftarrow> i32 (b_nb band * 127);
         nb \<leftarrow> i32 (shr t 7 + w);
         nb \<leftarrow> clamp_checked 0 max_nb nb;
         let wd1 = shr nb 6 AND 31;
         wd2 \<leftarrow> i32 (shift - shr nb 11);
         level \<leftarrow> index ILB wd1;
         let wd3 = (if wd2 < 0 then shl32 level (nat (- wd2)) else shr level (nat wd2));
         Some (band\<lparr>b_nb := nb, b_det := shl32 wd3 2\<rparr>) }"

text \<open>The steps of \<^verbatim>\<open>predict\<close>, block by block.  The sign of a value is its bit 15 and above.\<close>

definition sign15 :: "int \<Rightarrow> int" where
  "sign15 x = shr x 15"

definition recons :: "int \<Rightarrow> Band \<Rightarrow> Band option" where
  "recons d band =
    do { r0 \<leftarrow> i32 (b_s band + d);
         p0 \<leftarrow> i32 (b_sz band + d);
         Some (band\<lparr>b_d := (b_d band)[0 := d], b_r := (b_r band)[0 := saturate r0],
           b_p := (b_p band)[0 := saturate p0]\<rparr>) }"

definition uppol2 :: "Band \<Rightarrow> Band option" where
  "uppol2 band =
    do { let p = b_p band; let a = b_a band;
         let wd1 = saturate (shl32 (a ! 1) 2);
         neg \<leftarrow> i32 (- wd1);
         let wd2 = min (if sign15 (p ! 0) = sign15 (p ! 1) then neg else wd1) 32767;
         wd3 \<leftarrow> i32 (shr wd2 7 + (if sign15 (p ! 0) = sign15 (p ! 2) then 128 else - 128));
         leak \<leftarrow> i32 (a ! 2 * 32512);
         wd3 \<leftarrow> i32 (wd3 + shr leak 15);
         ap2 \<leftarrow> clamp_checked (- 12288) 12288 wd3;
         Some (band\<lparr>b_ap := (b_ap band)[2 := ap2]\<rparr>) }"

definition uppol1 :: "Band \<Rightarrow> Band option" where
  "uppol1 band =
    do { let p = b_p band;
         let wd1 = (if sign15 (p ! 0) = sign15 (p ! 1) then 192 else - 192);
         leak \<leftarrow> i32 (b_a band ! 1 * 32640);
         wd2 \<leftarrow> i32 (wd1 + shr leak 15);
         lim \<leftarrow> i32 (15360 - b_ap band ! 2);
         let limit = saturate lim;
         low \<leftarrow> i32 (- limit);
         ap1 \<leftarrow> clamp_checked low limit (saturate wd2);
         Some (band\<lparr>b_ap := (b_ap band)[1 := ap1]\<rparr>) }"

definition upzero_tap :: "int \<Rightarrow> nat \<Rightarrow> Band \<Rightarrow> Band option" where
  "upzero_tap d i band =
    do { let step = (if d = 0 then 0 else 128);
         let wd2 = (if sign15 (b_d band ! i) = sign15 d then step else - step);
         leak \<leftarrow> i32 (b_b band ! i * 32640);
         t \<leftarrow> i32 (wd2 + shr leak 15);
         Some (band\<lparr>b_bp := (b_bp band)[i := saturate t]\<rparr>) }"

fun upzero :: "int \<Rightarrow> nat list \<Rightarrow> Band \<Rightarrow> Band option" where
  "upzero d [] band = Some band"
| "upzero d (i # is) band = do { band \<leftarrow> upzero_tap d i band; upzero d is band }"

definition delay7 :: "nat \<Rightarrow> Band \<Rightarrow> Band" where
  "delay7 i band = band\<lparr>b_d := (b_d band)[i := b_d band ! (i - 1)], b_b := (b_b band)[i := b_bp band ! i]\<rparr>"

definition delay3 :: "nat \<Rightarrow> Band \<Rightarrow> Band" where
  "delay3 i band = band\<lparr>b_r := (b_r band)[i := b_r band ! (i - 1)], b_p := (b_p band)[i := b_p band ! (i - 1)],
     b_a := (b_a band)[i := b_ap band ! i]\<rparr>"

definition delaya :: "Band \<Rightarrow> Band" where
  "delaya band = fold delay3 [2, 1] (fold delay7 [6, 5, 4, 3, 2, 1] band)"

definition filtep :: "Band \<Rightarrow> Band option" where
  "filtep band =
    do { let r = b_r band; let a = b_a band;
         r1 \<leftarrow> i32 (r ! 1 + r ! 1);
         t1 \<leftarrow> i32 (a ! 1 * saturate r1);
         r2 \<leftarrow> i32 (r ! 2 + r ! 2);
         t2 \<leftarrow> i32 (a ! 2 * saturate r2);
         sp \<leftarrow> i32 (shr t1 15 + shr t2 15);
         Some (band\<lparr>b_sp := saturate sp\<rparr>) }"

fun filtez_sum :: "Band \<Rightarrow> nat list \<Rightarrow> int \<Rightarrow> int option" where
  "filtez_sum band [] sz = Some sz"
| "filtez_sum band (i # is) sz =
    do { dd \<leftarrow> i32 (b_d band ! i + b_d band ! i);
         t \<leftarrow> i32 (b_b band ! i * saturate dd);
         sz \<leftarrow> i32 (sz + shr t 15);
         filtez_sum band is sz }"

definition filtez :: "Band \<Rightarrow> Band option" where
  "filtez band =
    do { sz \<leftarrow> filtez_sum band [6, 5, 4, 3, 2, 1] 0;
         Some (band\<lparr>b_sz := saturate sz\<rparr>) }"

definition predic :: "Band \<Rightarrow> Band option" where
  "predic band = do { s \<leftarrow> i32 (b_sp band + b_sz band); Some (band\<lparr>b_s := saturate s\<rparr>) }"

definition Band_predict :: "Band \<Rightarrow> int \<Rightarrow> Band option" where
  "Band_predict band d =
    do { band \<leftarrow> recons d band;
         band \<leftarrow> uppol2 band;
         band \<leftarrow> uppol1 band;
         band \<leftarrow> upzero d [1, 2, 3, 4, 5, 6] band;
         band \<leftarrow> filtep (delaya band);
         band \<leftarrow> filtez band;
         predic band }"

definition LOW_MAX_NB :: int where "LOW_MAX_NB = 18432"
definition HIGH_MAX_NB :: int where "HIGH_MAX_NB = 22528"
definition LOW_SHIFT :: int where "LOW_SHIFT = 8"
definition HIGH_SHIFT :: int where "HIGH_SHIFT = 10"

section \<open>The quadrature mirror filters\<close>

text \<open>\<^verbatim>\<open>self.x.copy_within(2.., 0)\<close> and the two stores behind it.\<close>

definition shift_in :: "int list \<Rightarrow> int \<Rightarrow> int \<Rightarrow> int list" where
  "shift_in x a b = (drop 2 x @ drop (length x - 2) x)[22 := a, 23 := b]"

text \<open>The two sums over the even and the odd places.\<close>

fun qmf_sums :: "int list \<Rightarrow> nat list \<Rightarrow> int \<Rightarrow> int \<Rightarrow> (int \<times> int) option" where
  "qmf_sums x [] even_places odd_places = Some (even_places, odd_places)"
| "qmf_sums x (i # is) even_places odd_places =
    do { t \<leftarrow> i32 (x ! (2 * i) * QMF ! i);
         even_places \<leftarrow> i32 (even_places + t);
         t \<leftarrow> i32 (x ! (2 * i + 1) * QMF ! (11 - i));
         odd_places \<leftarrow> i32 (odd_places + t);
         qmf_sums x is even_places odd_places }"

definition qmf :: "int list \<Rightarrow> (int \<times> int) option" where
  "qmf x = qmf_sums x [0..<12] 0 0"

section \<open>The two bands\<close>

text \<open>What encoder and decoder do alike with the code of a band: adapt the scale and predict.\<close>

definition adapt_low :: "Band \<Rightarrow> int \<Rightarrow> Band option" where
  "adapt_low low ilow =
    do { let ril = shr ilow 2;
         q \<leftarrow> index QM4 ril;
         t \<leftarrow> i32 (b_det low * q);
         let dlow = shr t 15;
         k \<leftarrow> index RL42 ril;
         w \<leftarrow> index WL k;
         low \<leftarrow> Band_scale low w LOW_MAX_NB LOW_SHIFT;
         Band_predict low dlow }"

definition dhigh_of :: "Band \<Rightarrow> int \<Rightarrow> int option" where
  "dhigh_of high ihigh =
    do { q \<leftarrow> index QM2 ihigh;
         t \<leftarrow> i32 (b_det high * q);
         Some (shr t 15) }"

definition adapt_high :: "Band \<Rightarrow> int \<Rightarrow> int \<Rightarrow> Band option" where
  "adapt_high high ihigh dhigh =
    do { k \<leftarrow> index RH2 ihigh;
         w \<leftarrow> index WH k;
         high \<leftarrow> Band_scale high w HIGH_MAX_NB HIGH_SHIFT;
         Band_predict high dhigh }"

section \<open>Encoder\<close>

record G722Encoder =
  e_x :: "int list"
  e_low :: Band
  e_high :: Band
  e_pending :: "i16 option"

definition G722Encoder_new :: G722Encoder where
  "G722Encoder_new = \<lparr>e_x = replicate 24 0, e_low = Band_new 32, e_high = Band_new 8, e_pending = None\<rparr>"

text \<open>The loop \<^verbatim>\<open>while i < 30 && wd >= (Q6[i] * self.low.det) >> 12\<close>.\<close>

function quantl :: "int \<Rightarrow> int \<Rightarrow> nat \<Rightarrow> nat option" where
  "quantl det wd i =
    (if i < 30 then
       do { t \<leftarrow> i32 (Q6 ! i * det);
            if wd \<ge> shr t 12 then quantl det wd (i + 1) else Some i }
     else Some i)"
  by pat_completeness auto
termination by (relation "measure (\<lambda>(det, wd, i). 30 - i)") auto

declare quantl.simps [simp del]

definition magnitude_of :: "int \<Rightarrow> int option" where
  "magnitude_of el = (if el \<ge> 0 then Some el else do { t \<leftarrow> i32 (el + 1); i32 (- t) })"

definition low_code :: "Band \<Rightarrow> int \<Rightarrow> int option" where
  "low_code low xlow =
    do { t \<leftarrow> i32 (xlow - b_s low);
         let el = saturate t;
         wd \<leftarrow> magnitude_of el;
         i \<leftarrow> quantl (b_det low) wd 1;
         index (if el < 0 then ILN else ILP) (int i) }"

definition high_code :: "Band \<Rightarrow> int \<Rightarrow> int option" where
  "high_code high xhigh =
    do { t \<leftarrow> i32 (xhigh - b_s high);
         let eh = saturate t;
         wd \<leftarrow> magnitude_of eh;
         t \<leftarrow> i32 (564 * b_det high);
         let mih = (if wd \<ge> shr t 12 then 2 else 1 :: nat);
         index (if eh < 0 then IHN else IHP) (int mih) }"

definition encode_pair :: "G722Encoder \<Rightarrow> i16 \<Rightarrow> i16 \<Rightarrow> (u8 \<times> G722Encoder) option" where
  "encode_pair enc a b =
    do { let x = shift_in (e_x enc) (sint a) (sint b);
         (sum_odd, sum_even) \<leftarrow> qmf x;
         t \<leftarrow> i32 (sum_even + sum_odd);
         let xlow = shr t 14;
         t \<leftarrow> i32 (sum_even - sum_odd);
         let xhigh = shr t 14;
         ilow \<leftarrow> low_code (e_low enc) xlow;
         low \<leftarrow> adapt_low (e_low enc) ilow;
         ihigh \<leftarrow> high_code (e_high enc) xhigh;
         dhigh \<leftarrow> dhigh_of (e_high enc) ihigh;
         high \<leftarrow> adapt_high (e_high enc) ihigh dhigh;
         Some (word_of_int (shl32 ihigh 6 OR ilow), enc\<lparr>e_x := x, e_low := low, e_high := high\<rparr>) }"

text \<open>The loop over the pairs; a single sample left over is held.\<close>

fun encode_pairs :: "G722Encoder \<Rightarrow> pcm \<Rightarrow> (bytes \<times> G722Encoder) option" where
  "encode_pairs enc [] = Some ([], enc)"
| "encode_pairs enc [a] = Some ([], enc\<lparr>e_pending := Some a\<rparr>)"
| "encode_pairs enc (a # b # rest) =
    do { (byte, enc) \<leftarrow> encode_pair enc a b;
         (out, enc) \<leftarrow> encode_pairs enc rest;
         Some (byte # out, enc) }"

text \<open>The bytes \<^verbatim>\<open>encode\<close> appends and the encoder it leaves.\<close>

definition G722_encode :: "G722Encoder \<Rightarrow> pcm \<Rightarrow> (bytes \<times> G722Encoder) option" where
  "G722_encode enc pcm =
    (case e_pending enc of
       None \<Rightarrow> encode_pairs enc pcm
     | Some a \<Rightarrow>
        (case pcm of
           [] \<Rightarrow> Some ([], enc)
         | b # rest \<Rightarrow>
             do { (byte, enc) \<leftarrow> encode_pair (enc\<lparr>e_pending := None\<rparr>) a b;
                  (out, enc) \<leftarrow> encode_pairs enc rest;
                  Some (byte # out, enc) }))"

section \<open>Decoder\<close>

record G722Decoder =
  d_x :: "int list"
  d_low :: Band
  d_high :: Band

definition G722Decoder_new :: G722Decoder where
  "G722Decoder_new = \<lparr>d_x = replicate 24 0, d_low = Band_new 32, d_high = Band_new 8\<rparr>"

definition decode_byte :: "G722Decoder \<Rightarrow> u8 \<Rightarrow> (pcm \<times> G722Decoder) option" where
  "decode_byte dec byte =
    do { let code = uint byte;
         let ilow = code AND 0x3F;
         let ihigh = shr code 6 AND 0x03;
         q \<leftarrow> index QM6 ilow;
         t \<leftarrow> i32 (b_det (d_low dec) * q);
         t \<leftarrow> i32 (b_s (d_low dec) + shr t 15);
         let rlow = clamp (- 16384) 16383 t;
         low \<leftarrow> adapt_low (d_low dec) ilow;
         dhigh \<leftarrow> dhigh_of (d_high dec) ihigh;
         t \<leftarrow> i32 (dhigh + b_s (d_high dec));
         let rhigh = clamp (- 16384) 16383 t;
         high \<leftarrow> adapt_high (d_high dec) ihigh dhigh;
         sum \<leftarrow> i32 (rlow + rhigh);
         difference \<leftarrow> i32 (rlow - rhigh);
         let x = shift_in (d_x dec) sum difference;
         (out2, out1) \<leftarrow> qmf x;
         Some ([i16_of_int (saturate (shr out1 11)), i16_of_int (saturate (shr out2 11))],
           dec\<lparr>d_x := x, d_low := low, d_high := high\<rparr>) }"

definition G722_decode :: "G722Decoder \<Rightarrow> bytes \<Rightarrow> (pcm \<times> G722Decoder) option" where
  "G722_decode = fold_units decode_byte"

section \<open>The invariant of a band\<close>

definition all16 :: "int list \<Rightarrow> bool" where
  "all16 xs \<longleftrightarrow> (\<forall>v\<in>set xs. is_i16 v)"

definition band_ok :: "Band \<Rightarrow> bool" where
  "band_ok band \<longleftrightarrow>
     is_i16 (b_s band) \<and> is_i16 (b_sp band) \<and> is_i16 (b_sz band) \<and>
     length (b_r band) = 3 \<and> all16 (b_r band) \<and> length (b_a band) = 3 \<and> all16 (b_a band) \<and>
     length (b_ap band) = 3 \<and> all16 (b_ap band) \<and> length (b_p band) = 3 \<and> all16 (b_p band) \<and>
     length (b_d band) = 7 \<and> all16 (b_d band) \<and> length (b_b band) = 7 \<and> all16 (b_b band) \<and>
     length (b_bp band) = 7 \<and> all16 (b_bp band) \<and>
     0 \<le> b_nb band \<and> b_nb band \<le> 22528 \<and> 0 \<le> b_det band \<and> b_det band \<le> 32764"

lemma is_i16_saturate [simp]: "is_i16 (saturate x)"
  by (simp add: saturate_def clamp_def is_i16_def)

lemma all16_nth [intro]: "all16 xs \<Longrightarrow> i < length xs \<Longrightarrow> is_i16 (xs ! i)"
  by (simp add: all16_def)

lemma all16_update [simp]: "all16 xs \<Longrightarrow> is_i16 v \<Longrightarrow> all16 (xs[i := v])"
  using set_update_subset_insert [of xs i v] by (auto simp: all16_def)

lemma all16_replicate [simp]: "is_i16 v \<Longrightarrow> all16 (replicate n v)"
  by (simp add: all16_def)

lemma is_i16_0 [simp]: "is_i16 0"
  by (simp add: is_i16_def)

lemma i32_sum16: "is_i16 u \<Longrightarrow> is_i16 v \<Longrightarrow> i32 (u + v) = Some (u + v)"
  by (simp add: is_i16_def i32_Some)

lemma i32_diff16: "is_i16 u \<Longrightarrow> is_i16 v \<Longrightarrow> i32 (u - v) = Some (u - v)"
  by (simp add: is_i16_def i32_Some)

lemma i32_prod16:
  assumes "is_i16 u" "is_i16 v"
  shows "i32 (u * v) = Some (u * v)" "- 32768 \<le> shr (u * v) 15" "shr (u * v) 15 \<le> 32768"
proof -
  have b: "- (32768 * 32768) \<le> u * v \<and> u * v \<le> 32768 * 32768"
    using assms by (intro mult_bounds) (auto simp: is_i16_def)
  then show "i32 (u * v) = Some (u * v)" by (intro i32_Some) simp_all
  have "- 32768 \<le> shr (u * v) 15 \<and> shr (u * v) 15 \<le> 32768"
    using b by (intro shr_bounds) simp_all
  then show "- 32768 \<le> shr (u * v) 15" "shr (u * v) 15 \<le> 32768" by simp_all
qed

lemma i16_32512: "is_i16 32512" and i16_32640: "is_i16 32640"
  by (simp_all add: is_i16_def)

lemmas leak_32512 = i32_prod16 [OF _ i16_32512]
lemmas leak_32640 = i32_prod16 [OF _ i16_32640]

lemma Band_new_ok: "0 \<le> det \<Longrightarrow> det \<le> 32764 \<Longrightarrow> band_ok (Band_new det)"
  by (simp add: band_ok_def Band_new_def)

lemma recons_ok:
  "band_ok B \<Longrightarrow> is_i16 d \<Longrightarrow> \<exists>B'. recons d B = Some B' \<and> band_ok B'"
  by (auto simp: recons_def band_ok_def i32_sum16)

lemma uppol2_ok:
  assumes B: "band_ok B"
  shows "\<exists>B'. uppol2 B = Some B' \<and> band_ok B' \<and> - 12288 \<le> b_ap B' ! 2 \<and> b_ap B' ! 2 \<le> 12288"
proof -
  have a2: "is_i16 (b_a B ! 2)" using B by (auto simp: band_ok_def)
  define wd1 where "wd1 = saturate (shl32 (b_a B ! 1) 2)"
  have w: "is_i16 wd1" by (simp add: wd1_def)
  then have neg: "i32 (- wd1) = Some (- wd1)" by (simp add: is_i16_def i32_Some)
  define wd2 where "wd2 = min (if sign15 (b_p B ! 0) = sign15 (b_p B ! 1) then - wd1 else wd1) 32767"
  have "- 32768 \<le> wd2" "wd2 \<le> 32767" using w by (auto simp: wd2_def is_i16_def)
  then have s: "- 256 \<le> shr wd2 7 \<and> shr wd2 7 \<le> 255" by (intro shr_bounds) simp_all
  define wd3 where "wd3 = shr wd2 7 + (if sign15 (b_p B ! 0) = sign15 (b_p B ! 2) then 128 else - 128)"
  have w3: "- 384 \<le> wd3" "wd3 \<le> 383" using s by (auto simp: wd3_def)
  note l = leak_32512 [OF a2]
  have c: "clamp_checked (- 12288) 12288 (wd3 + shr (b_a B ! 2 * 32512) 15) =
      Some (clamp (- 12288) 12288 (wd3 + shr (b_a B ! 2 * 32512) 15))"
    by (simp add: clamp_checked_def)
  have i: "i32 wd3 = Some wd3" "i32 (wd3 + shr (b_a B ! 2 * 32512) 15) = Some (wd3 + shr (b_a B ! 2 * 32512) 15)"
    using w3 l by (simp_all add: i32_Some)
  have u: "uppol2 B = Some (B\<lparr>b_ap := (b_ap B)[2 := clamp (- 12288) 12288 (wd3 + shr (b_a B ! 2 * 32512) 15)]\<rparr>)"
    unfolding uppol2_def Let_def
    by (simp only: wd1_def [symmetric] neg bind.bind_lunit l(1) c wd2_def [symmetric] wd3_def [symmetric] i)
  have "is_i16 (clamp (- 12288) 12288 x)" for x by (auto simp: is_i16_def clamp_def min_def max_def)
  moreover have "(b_ap B)[2 := clamp (- 12288) 12288 x] ! 2 = clamp (- 12288) 12288 x" for x
    using B by (simp add: band_ok_def)
  ultimately show ?thesis unfolding u using B by (simp add: band_ok_def clamp_def)
qed

lemma uppol1_ok:
  assumes B: "band_ok B" and ap: "- 12288 \<le> b_ap B ! 2" "b_ap B ! 2 \<le> 12288"
  shows "\<exists>B'. uppol1 B = Some B' \<and> band_ok B'"
proof -
  have a1: "is_i16 (b_a B ! 1)" using B by (auto simp: band_ok_def)
  define wd1 :: int where "wd1 = (if sign15 (b_p B ! 0) = sign15 (b_p B ! 1) then 192 else - 192)"
  note l = leak_32640 [OF a1]
  have "i32 (wd1 + shr (b_a B ! 1 * 32640) 15) = Some (wd1 + shr (b_a B ! 1 * 32640) 15)"
    using l by (auto simp: wd1_def i32_Some)
  moreover have "i32 (15360 - b_ap B ! 2) = Some (15360 - b_ap B ! 2)" using ap by (simp add: i32_Some)
  moreover have sat: "saturate (15360 - b_ap B ! 2) = 15360 - b_ap B ! 2"
    using ap by (simp add: saturate_def clamp_def)
  moreover have "i32 (- (15360 - b_ap B ! 2)) = Some (- (15360 - b_ap B ! 2))" using ap by (simp add: i32_Some)
  moreover have c: "clamp_checked (- (15360 - b_ap B ! 2)) (15360 - b_ap B ! 2) x =
      Some (clamp (- (15360 - b_ap B ! 2)) (15360 - b_ap B ! 2) x)" for x
    using ap by (simp add: clamp_checked_def)
  ultimately have u: "uppol1 B = Some (B\<lparr>b_ap := (b_ap B)[1 := clamp (- (15360 - b_ap B ! 2)) (15360 - b_ap B ! 2)
      (saturate (wd1 + shr (b_a B ! 1 * 32640) 15))]\<rparr>)"
    unfolding uppol1_def Let_def by (simp only: wd1_def [symmetric] bind.bind_lunit l(1))
  have "is_i16 (clamp (- (15360 - b_ap B ! 2)) (15360 - b_ap B ! 2) x)" for x
    using ap by (auto simp: is_i16_def clamp_def)
  then show ?thesis unfolding u using B by (simp add: band_ok_def)
qed

lemma upzero_ok:
  "band_ok B \<Longrightarrow> \<forall>i\<in>set is. i < 7 \<Longrightarrow> \<exists>B'. upzero d is B = Some B' \<and> band_ok B'"
proof (induction "is" arbitrary: B)
  case (Cons i "is")
  have b: "is_i16 (b_b B ! i)" using Cons.prems by (auto simp: band_ok_def)
  note l = leak_32640 [OF b]
  define wd2 :: int where
    "wd2 = (if sign15 (b_d B ! i) = sign15 d then if d = 0 then 0 else 128 else - (if d = 0 then 0 else 128))"
  have "- 128 \<le> wd2" "wd2 \<le> 128" by (simp_all add: wd2_def)
  with l have "i32 (wd2 + shr (b_b B ! i * 32640) 15) = Some (wd2 + shr (b_b B ! i * 32640) 15)"
    by (simp add: i32_Some)
  then have u: "upzero_tap d i B = Some (B\<lparr>b_bp := (b_bp B)[i := saturate (wd2 + shr (b_b B ! i * 32640) 15)]\<rparr>)"
    unfolding upzero_tap_def Let_def by (simp only: wd2_def [symmetric] bind.bind_lunit l(1))
  from Cons.prems(1) have "band_ok (B\<lparr>b_bp := (b_bp B)[i := saturate (wd2 + shr (b_b B ! i * 32640) 15)]\<rparr>)"
    by (simp add: band_ok_def)
  from Cons.IH [OF this] Cons.prems(2) show ?case by (simp add: u)
qed simp

lemma delay7_ok: "band_ok B \<Longrightarrow> i < 7 \<Longrightarrow> band_ok (delay7 i B)"
  by (simp add: band_ok_def delay7_def all16_nth)

lemma delay3_ok: "band_ok B \<Longrightarrow> i < 3 \<Longrightarrow> band_ok (delay3 i B)"
  by (simp add: band_ok_def delay3_def all16_nth)

lemma delaya_ok: "band_ok B \<Longrightarrow> band_ok (delaya B)"
  by (simp add: delaya_def delay7_ok delay3_ok)

lemma filtep_ok:
  assumes B: "band_ok B"
  shows "\<exists>B'. filtep B = Some B' \<and> band_ok B'"
proof -
  have i: "is_i16 (b_r B ! 1)" "is_i16 (b_r B ! 2)" "is_i16 (b_a B ! 1)" "is_i16 (b_a B ! 2)"
    using B by (auto simp: band_ok_def)
  note p1 = i32_prod16 [OF i(3) is_i16_saturate [of "b_r B ! 1 + b_r B ! 1"]]
  note p2 = i32_prod16 [OF i(4) is_i16_saturate [of "b_r B ! 2 + b_r B ! 2"]]
  have "i32 (shr (b_a B ! 1 * saturate (b_r B ! 1 + b_r B ! 1)) 15 + shr (b_a B ! 2 * saturate (b_r B ! 2 + b_r B ! 2)) 15) =
    Some (shr (b_a B ! 1 * saturate (b_r B ! 1 + b_r B ! 1)) 15 + shr (b_a B ! 2 * saturate (b_r B ! 2 + b_r B ! 2)) 15)"
    using p1 p2 by (simp add: i32_Some)
  then have "filtep B = Some (B\<lparr>b_sp := saturate (shr (b_a B ! 1 * saturate (b_r B ! 1 + b_r B ! 1)) 15 +
      shr (b_a B ! 2 * saturate (b_r B ! 2 + b_r B ! 2)) 15)\<rparr>)"
    unfolding filtep_def Let_def by (simp only: i32_sum16 [OF i(1) i(1)] i32_sum16 [OF i(2) i(2)] p1(1) p2(1) bind.bind_lunit)
  then show ?thesis using B by (simp add: band_ok_def)
qed

lemma filtez_sum_ok:
  "band_ok B \<Longrightarrow> \<forall>i\<in>set is. i < 7 \<Longrightarrow> \<bar>sz\<bar> + 32768 * int (length is) \<le> 2147483647 \<Longrightarrow>
   \<exists>r. filtez_sum B is sz = Some r"
proof (induction "is" arbitrary: sz)
  case (Cons i "is")
  have i: "is_i16 (b_d B ! i)" "is_i16 (b_b B ! i)" using Cons.prems by (auto simp: band_ok_def)
  note p = i32_prod16 [OF i(2) is_i16_saturate [of "b_d B ! i + b_d B ! i"]]
  let ?t = "shr (b_b B ! i * saturate (b_d B ! i + b_d B ! i)) 15"
  have t: "i32 (sz + ?t) = Some (sz + ?t)" using p Cons.prems(3) by (intro i32_Some) simp_all
  have "\<bar>sz + ?t\<bar> + 32768 * int (length is) \<le> 2147483647" using p Cons.prems(3) by simp
  from Cons.IH [OF Cons.prems(1) _ this] Cons.prems(2) show ?case
    unfolding filtez_sum.simps by (simp only: i32_sum16 [OF i(1) i(1)] p(1) t bind.bind_lunit) simp
qed simp

lemma filtez_ok: "band_ok B \<Longrightarrow> \<exists>B'. filtez B = Some B' \<and> band_ok B'"
proof -
  assume B: "band_ok B"
  obtain r where "filtez_sum B [6, 5, 4, 3, 2, 1] 0 = Some r"
    using filtez_sum_ok [OF B, of "[6, 5, 4, 3, 2, 1]" 0] by (simp del: filtez_sum.simps) blast
  then have "filtez B = Some (B\<lparr>b_sz := saturate r\<rparr>)" unfolding filtez_def by (simp only: bind.bind_lunit)
  with B show ?thesis by (simp add: band_ok_def)
qed

lemma predic_ok: "band_ok B \<Longrightarrow> \<exists>B'. predic B = Some B' \<and> band_ok B'"
  by (auto simp: predic_def band_ok_def i32_sum16)

lemma predict_ok:
  assumes "band_ok B" "is_i16 d"
  shows "\<exists>B'. Band_predict B d = Some B' \<and> band_ok B'"
proof -
  obtain B1 where 1: "recons d B = Some B1" "band_ok B1" using recons_ok [OF assms] by blast
  obtain B2 where 2: "uppol2 B1 = Some B2" "band_ok B2" "- 12288 \<le> b_ap B2 ! 2" "b_ap B2 ! 2 \<le> 12288"
    using uppol2_ok [OF 1(2)] by blast
  obtain B3 where 3: "uppol1 B2 = Some B3" "band_ok B3" using uppol1_ok [OF 2(2-4)] by blast
  obtain B4 where 4: "upzero d [1, 2, 3, 4, 5, 6] B3 = Some B4" "band_ok B4"
    using upzero_ok [OF 3(2), of "[1, 2, 3, 4, 5, 6]" d] by auto
  obtain B5 where 5: "filtep (delaya B4) = Some B5" "band_ok B5" using filtep_ok [OF delaya_ok [OF 4(2)]] by blast
  obtain B6 where 6: "filtez B5 = Some B6" "band_ok B6" using filtez_ok [OF 5(2)] by blast
  from predic_ok [OF 6(2)] show ?thesis
    unfolding Band_predict_def by (simp only: 1(1) 2(1) 3(1) 4(1) 5(1) 6(1) bind.bind_lunit)
qed

lemma int_and_31: "(x :: int) AND 31 = x mod 32"
  using take_bit_eq_mask [of 5 x] by (simp add: take_bit_eq_mod mask_eq_exp_minus_1)

lemma int_and_63: "(x :: int) AND 63 = x mod 64"
  using take_bit_eq_mask [of 6 x] by (simp add: take_bit_eq_mod mask_eq_exp_minus_1)

lemma int_and_3: "(x :: int) AND 3 = x mod 4"
  using take_bit_eq_mask [of 2 x] by (simp add: take_bit_eq_mod mask_eq_exp_minus_1)

text \<open>Reads of the tables.\<close>

lemma index_range:
  assumes "list_all (\<lambda>v. lo \<le> v \<and> v \<le> hi) xs" "0 \<le> i" "i < int (length xs)"
  shows "\<exists>v. index xs i = Some v \<and> lo \<le> v \<and> v \<le> hi"
  using assms nth_mem [of "nat i" xs] by (simp add: index_Some list_all_iff)

lemma table_ranges:
  "list_all (\<lambda>v. 2048 \<le> v \<and> v \<le> 4008) ILB" "list_all (\<lambda>v. - 20456 \<le> v \<and> v \<le> 20456) QM4"
  "list_all (\<lambda>v. - 24808 \<le> v \<and> v \<le> 24808) QM6" "list_all (\<lambda>v. - 7408 \<le> v \<and> v \<le> 7408) QM2"
  "list_all (\<lambda>v. - 214 \<le> v \<and> v \<le> 3042) WL" "list_all (\<lambda>v. - 214 \<le> v \<and> v \<le> 3042) WH"
  "list_all (\<lambda>v. 0 \<le> v \<and> v \<le> 7) RL42" "list_all (\<lambda>v. 0 \<le> v \<and> v \<le> 2) RH2"
  by (simp_all add: ILB_def QM4_def QM6_def QM2_def WL_def WH_def RL42_def RH2_def)

lemma table_lengths:
  "length ILB = 32" "length QM4 = 16" "length QM6 = 64" "length QM2 = 4" "length WL = 8" "length WH = 3"
  "length RL42 = 16" "length RH2 = 4" "length ILN = 32" "length ILP = 32" "length IHN = 3" "length IHP = 3"
  by (simp_all add: ILB_def QM4_def QM6_def QM2_def WL_def WH_def RL42_def RH2_def ILN_def ILP_def IHN_def IHP_def)

lemma shr_le: "0 \<le> x \<Longrightarrow> 0 \<le> shr x n \<and> shr x n \<le> x"
  using zdiv_mono2 [of x 1 "2 ^ n"] by (simp add: shr_def pos_imp_zdiv_nonneg_iff)

lemma scale_ok:
  assumes B: "band_ok B" and w: "- 214 \<le> w" "w \<le> 3042"
    and m: "0 \<le> max_nb" "max_nb \<le> 22528" "max_nb < (shift + 2) * 2048" "shift \<le> 10"
  shows "\<exists>B'. Band_scale B w max_nb shift = Some B' \<and> band_ok B'"
proof -
  have nb: "0 \<le> b_nb B" "b_nb B \<le> 22528" using B by (simp_all add: band_ok_def)
  then have "0 \<le> shr (b_nb B * 127) 7 \<and> shr (b_nb B * 127) 7 \<le> 22528" by (intro shr_bounds) simp_all
  with nb w have i: "i32 (b_nb B * 127) = Some (b_nb B * 127)"
    "i32 (shr (b_nb B * 127) 7 + w) = Some (shr (b_nb B * 127) 7 + w)" by (simp_all add: i32_Some)
  define nb' where "nb' = clamp 0 max_nb (shr (b_nb B * 127) 7 + w)"
  have nb': "0 \<le> nb'" "nb' \<le> max_nb" using m(1) by (auto simp: nb'_def clamp_def)
  have c: "clamp_checked 0 max_nb (shr (b_nb B * 127) 7 + w) = Some nb'"
    using m(1) by (simp add: clamp_checked_def nb'_def)
  have k: "0 \<le> shr nb' 11 \<and> shr nb' 11 \<le> shift + 1" using nb' m(3) by (intro shr_bounds) simp_all
  then have s: "i32 (shift - shr nb' 11) = Some (shift - shr nb' 11)" using m(4) by (intro i32_Some) simp_all
  obtain level where l: "index ILB (shr nb' 6 AND 31) = Some level" "2048 \<le> level" "level \<le> 4008"
    using index_range [OF table_ranges(1), of "shr nb' 6 AND 31"] by (auto simp: int_and_31 table_lengths)
  define wd3 where "wd3 = (if shift - shr nb' 11 < 0 then shl32 level (nat (- (shift - shr nb' 11)))
     else shr level (nat (shift - shr nb' 11)))"
  have "0 \<le> wd3 \<and> wd3 \<le> 8016"
  proof (cases "shift - shr nb' 11 < 0")
    case True
    with k have "shift - shr nb' 11 = - 1" by simp
    with l show ?thesis by (simp add: wd3_def shl32_exact)
  next
    case False
    with shr_le [of level "nat (shift - shr nb' 11)"] l show ?thesis by (simp add: wd3_def)
  qed
  then have d: "0 \<le> shl32 wd3 2" "shl32 wd3 2 \<le> 32064" by (simp_all add: shl32_exact)
  have "Band_scale B w max_nb shift = Some (B\<lparr>b_nb := nb', b_det := shl32 wd3 2\<rparr>)"
    unfolding Band_scale_def Let_def by (simp only: i c s l(1) bind.bind_lunit wd3_def)
  with B nb' d m(2) show ?thesis by (simp add: band_ok_def)
qed

lemma det_product:
  assumes "band_ok B" "- 24808 \<le> q" "q \<le> 24808"
  shows "i32 (b_det B * q) = Some (b_det B * q)" "is_i16 (shr (b_det B * q) 15)"
proof -
  have b: "- (32764 * 24808) \<le> b_det B * q \<and> b_det B * q \<le> 32764 * 24808"
    using assms by (intro mult_bounds) (auto simp: band_ok_def)
  then show "i32 (b_det B * q) = Some (b_det B * q)" by (intro i32_Some) simp_all
  have "- 24808 \<le> shr (b_det B * q) 15 \<and> shr (b_det B * q) 15 \<le> 24808"
    using b by (intro shr_bounds) simp_all
  then show "is_i16 (shr (b_det B * q) 15)" by (simp add: is_i16_def)
qed

lemma adapt_low_ok:
  assumes B: "band_ok B" and i: "0 \<le> ilow" "ilow < 64"
  shows "\<exists>B'. adapt_low B ilow = Some B' \<and> band_ok B'"
proof -
  have r: "0 \<le> shr ilow 2 \<and> shr ilow 2 \<le> 15" using i by (intro shr_bounds) simp_all
  then obtain q where q: "index QM4 (shr ilow 2) = Some q" "- 20456 \<le> q" "q \<le> 20456"
    using index_range [OF table_ranges(2), of "shr ilow 2"] by (auto simp: table_lengths)
  obtain k where k: "index RL42 (shr ilow 2) = Some k" "0 \<le> k" "k \<le> 7"
    using r index_range [OF table_ranges(7), of "shr ilow 2"] by (auto simp: table_lengths)
  obtain w where w: "index WL k = Some w" "- 214 \<le> w" "w \<le> 3042"
    using k index_range [OF table_ranges(5), of k] by (auto simp: table_lengths)
  have p: "i32 (b_det B * q) = Some (b_det B * q)" "is_i16 (shr (b_det B * q) 15)"
    using q by (auto intro: det_product [OF B])
  obtain B1 where B1: "Band_scale B w LOW_MAX_NB LOW_SHIFT = Some B1" "band_ok B1"
    using scale_ok [OF B w(2,3), of LOW_MAX_NB LOW_SHIFT] by (auto simp: LOW_MAX_NB_def LOW_SHIFT_def)
  from predict_ok [OF B1(2) p(2)] show ?thesis
    unfolding adapt_low_def Let_def by (simp only: q(1) p(1) k(1) w(1) B1(1) bind.bind_lunit)
qed

lemma dhigh_ok:
  assumes B: "band_ok B" and i: "0 \<le> ihigh" "ihigh < 4"
  shows "\<exists>d. dhigh_of B ihigh = Some d \<and> is_i16 d"
proof -
  obtain q where q: "index QM2 ihigh = Some q" "- 7408 \<le> q" "q \<le> 7408"
    using i index_range [OF table_ranges(4), of ihigh] by (auto simp: table_lengths)
  then have "i32 (b_det B * q) = Some (b_det B * q)" "is_i16 (shr (b_det B * q) 15)"
    by (auto intro: det_product [OF B])
  then show ?thesis unfolding dhigh_of_def by (simp add: q(1))
qed

lemma adapt_high_ok:
  assumes B: "band_ok B" and i: "0 \<le> ihigh" "ihigh < 4" and d: "is_i16 d"
  shows "\<exists>B'. adapt_high B ihigh d = Some B' \<and> band_ok B'"
proof -
  obtain k where k: "index RH2 ihigh = Some k" "0 \<le> k" "k \<le> 2"
    using i index_range [OF table_ranges(8), of ihigh] by (auto simp: table_lengths)
  obtain w where w: "index WH k = Some w" "- 214 \<le> w" "w \<le> 3042"
    using k index_range [OF table_ranges(6), of k] by (auto simp: table_lengths)
  obtain B1 where B1: "Band_scale B w HIGH_MAX_NB HIGH_SHIFT = Some B1" "band_ok B1"
    using scale_ok [OF B w(2,3), of HIGH_MAX_NB HIGH_SHIFT] by (auto simp: HIGH_MAX_NB_def HIGH_SHIFT_def)
  from predict_ok [OF B1(2) d] show ?thesis
    unfolding adapt_high_def by (simp only: k(1) w(1) B1(1) bind.bind_lunit)
qed

section \<open>The filters stay in range\<close>

definition taps :: "(nat \<Rightarrow> nat) \<Rightarrow> nat list \<Rightarrow> int" where
  "taps f is = sum_list (map (\<lambda>i. \<bar>QMF ! f i\<bar>) is)"

lemma qmf_sums_ok:
  assumes "length x = 24" "all16 x"
  shows "\<forall>i\<in>set is. i < 12 \<Longrightarrow> \<bar>e\<bar> + 32768 * taps (\<lambda>i. i) is \<le> 2000000000 \<Longrightarrow>
    \<bar>f\<bar> + 32768 * taps (\<lambda>i. 11 - i) is \<le> 2000000000 \<Longrightarrow>
    \<exists>e' f'. qmf_sums x is e f = Some (e', f') \<and>
      \<bar>e'\<bar> \<le> \<bar>e\<bar> + 32768 * taps (\<lambda>i. i) is \<and> \<bar>f'\<bar> \<le> \<bar>f\<bar> + 32768 * taps (\<lambda>i. 11 - i) is"
proof (induction "is" arbitrary: e f)
  case Nil
  then show ?case by (simp add: taps_def)
next
  case (Cons i "is")
  have pos: "0 \<le> taps g is" for g unfolding taps_def by (rule sum_list_nonneg) auto
  have step: "i32 (x ! j * QMF ! k) = Some (x ! j * QMF ! k) \<and> i32 (s + x ! j * QMF ! k) = Some (s + x ! j * QMF ! k) \<and>
      \<bar>s + x ! j * QMF ! k\<bar> \<le> \<bar>s\<bar> + 32768 * \<bar>QMF ! k\<bar>"
    if "j < 24" "\<bar>s\<bar> + 32768 * \<bar>QMF ! k\<bar> \<le> 2000000000" for j k s
  proof -
    have "is_i16 (x ! j)" using that assms by auto
    then have "\<bar>x ! j\<bar> \<le> 32768" by (auto simp: is_i16_def)
    then have "\<bar>x ! j * QMF ! k\<bar> \<le> 32768 * \<bar>QMF ! k\<bar>"
      unfolding abs_mult by (rule mult_right_mono) simp
    with that(2) show ?thesis by (auto intro!: i32_Some)
  qed
  let ?e = "e + x ! (2 * i) * QMF ! i" and ?f = "f + x ! (2 * i + 1) * QMF ! (11 - i)"
  have t: "taps g (i # is) = \<bar>QMF ! g i\<bar> + taps g is" for g by (simp add: taps_def)
  have i: "2 * i < 24" "2 * i + 1 < 24" using Cons.prems(1) by auto
  have 1: "i32 (x ! (2 * i) * QMF ! i) = Some (x ! (2 * i) * QMF ! i)" "i32 ?e = Some ?e"
    "\<bar>?e\<bar> \<le> \<bar>e\<bar> + 32768 * \<bar>QMF ! i\<bar>"
    using step [OF i(1), of e i] Cons.prems(2) pos [of "\<lambda>i. i"] by (auto simp: t)
  have 2: "i32 (x ! (2 * i + 1) * QMF ! (11 - i)) = Some (x ! (2 * i + 1) * QMF ! (11 - i))" "i32 ?f = Some ?f"
    "\<bar>?f\<bar> \<le> \<bar>f\<bar> + 32768 * \<bar>QMF ! (11 - i)\<bar>"
    using step [OF i(2), of f "11 - i"] Cons.prems(3) pos [of "\<lambda>i. 11 - i"] by (auto simp: t)
  have "\<bar>?e\<bar> + 32768 * taps (\<lambda>i. i) is \<le> \<bar>e\<bar> + 32768 * taps (\<lambda>i. i) (i # is)"
    "\<bar>?f\<bar> + 32768 * taps (\<lambda>i. 11 - i) is \<le> \<bar>f\<bar> + 32768 * taps (\<lambda>i. 11 - i) (i # is)"
    using 1(3) 2(3) by (simp_all add: t)
  with Cons.IH [of ?e ?f] Cons.prems obtain e' f' where
    "qmf_sums x is ?e ?f = Some (e', f')" "\<bar>e'\<bar> \<le> \<bar>e\<bar> + 32768 * taps (\<lambda>i. i) (i # is)"
    "\<bar>f'\<bar> \<le> \<bar>f\<bar> + 32768 * taps (\<lambda>i. 11 - i) (i # is)" by fastforce
  then show ?case unfolding qmf_sums.simps by (simp only: 1(1,2) 2(1,2) bind.bind_lunit) blast
qed

lemma qmf_ok:
  assumes "length x = 24" "all16 x"
  shows "\<exists>e f. qmf x = Some (e, f) \<and> \<bar>e\<bar> \<le> 212402176 \<and> \<bar>f\<bar> \<le> 212402176"
proof -
  have t: "taps (\<lambda>i. i) [0..<12] = 6482" "taps (\<lambda>i. 11 - i) [0..<12] = 6482"
    by (simp_all add: taps_def QMF_def upt_rec)
  show ?thesis
    using qmf_sums_ok [OF assms, of "[0..<12]" 0 0] unfolding t qmf_def by auto
qed

lemma shift_in_ok:
  "length x = 24 \<Longrightarrow> all16 x \<Longrightarrow> is_i16 a \<Longrightarrow> is_i16 b \<Longrightarrow>
   length (shift_in x a b) = 24 \<and> all16 (shift_in x a b)"
  by (auto simp: shift_in_def all16_def dest!: in_set_dropD set_update_subset_insert [THEN subsetD])

section \<open>Encoder and decoder never fail\<close>

definition enc_ok :: "G722Encoder \<Rightarrow> bool" where
  "enc_ok enc \<longleftrightarrow> length (e_x enc) = 24 \<and> all16 (e_x enc) \<and> band_ok (e_low enc) \<and> band_ok (e_high enc)"

definition dec_ok :: "G722Decoder \<Rightarrow> bool" where
  "dec_ok dec \<longleftrightarrow> length (d_x dec) = 24 \<and> all16 (d_x dec) \<and> band_ok (d_low dec) \<and> band_ok (d_high dec)"

lemma enc_ok_new: "enc_ok G722Encoder_new"
  by (simp add: enc_ok_def G722Encoder_new_def Band_new_ok)

lemma dec_ok_new: "dec_ok G722Decoder_new"
  by (simp add: dec_ok_def G722Decoder_new_def Band_new_ok)

lemma quantl_ok:
  "0 \<le> det \<Longrightarrow> det \<le> 32764 \<Longrightarrow> 1 \<le> i \<Longrightarrow> i \<le> 30 \<Longrightarrow> \<exists>j. quantl det wd i = Some j \<and> 1 \<le> j \<and> j \<le> 30"
proof (induction det wd i rule: quantl.induct)
  case (1 det wd i)
  have "list_all (\<lambda>v. 0 \<le> v \<and> v \<le> 2919) Q6" "length Q6 = 32" by (simp_all add: Q6_def)
  then have "i < 30 \<Longrightarrow> 0 \<le> Q6 ! i \<and> Q6 ! i \<le> 2919" by (simp add: list_all_length)
  then have "i < 30 \<Longrightarrow> - (2919 * 32764) \<le> Q6 ! i * det \<and> Q6 ! i * det \<le> 2919 * 32764"
    using 1(2,3) by (intro mult_bounds) auto
  then have t: "i < 30 \<Longrightarrow> i32 (Q6 ! i * det) = Some (Q6 ! i * det)" by (auto intro!: i32_Some)
  show ?case
  proof (cases "i < 30")
    case True
    then show ?thesis
      using 1(1) [OF True t [OF True]] 1(2-5) t [OF True] by (subst quantl.simps) simp
  qed (use 1(4,5) in \<open>subst quantl.simps, simp\<close>)
qed

lemma magnitude_of_ok: "is_i16 el \<Longrightarrow> \<exists>wd. magnitude_of el = Some wd"
  by (auto simp: magnitude_of_def is_i16_def i32_Some)

lemma low_code_ok:
  assumes B: "band_ok B" and x: "\<bar>x\<bar> \<le> 30000"
  shows "\<exists>c. low_code B x = Some c \<and> 4 \<le> c \<and> c < 64"
proof -
  have "i32 (x - b_s B) = Some (x - b_s B)"
    using B x by (intro i32_Some) (auto simp: band_ok_def is_i16_def)
  moreover obtain wd where "magnitude_of (saturate (x - b_s B)) = Some wd"
    using magnitude_of_ok [OF is_i16_saturate] by blast
  moreover obtain i where i: "quantl (b_det B) wd 1 = Some i" "1 \<le> i" "i \<le> 30"
    using quantl_ok [of "b_det B" 1 wd] B by (auto simp: band_ok_def)
  moreover have "\<exists>c. index (if neg then ILN else ILP) (int i) = Some c \<and> 4 \<le> c \<and> c < 64" for neg
  proof -
    have "list_all (\<lambda>k. 4 \<le> ILN ! k \<and> ILN ! k < 64 \<and> 4 \<le> ILP ! k \<and> ILP ! k < 64) [1..<31]"
      by (simp add: upt_rec ILN_def ILP_def)
    then have "4 \<le> ILN ! i \<and> ILN ! i < 64 \<and> 4 \<le> ILP ! i \<and> ILP ! i < 64"
      using i(2,3) by (simp add: list_all_iff)
    then show ?thesis using i(3) by (simp add: index_def table_lengths)
  qed
  ultimately show ?thesis unfolding low_code_def Let_def by simp
qed

lemma high_code_ok:
  assumes B: "band_ok B" and x: "\<bar>x\<bar> \<le> 30000"
  shows "\<exists>c. high_code B x = Some c \<and> 0 \<le> c \<and> c < 4"
proof -
  have "i32 (x - b_s B) = Some (x - b_s B)"
    using B x by (intro i32_Some) (auto simp: band_ok_def is_i16_def)
  moreover obtain wd where "magnitude_of (saturate (x - b_s B)) = Some wd"
    using magnitude_of_ok [OF is_i16_saturate] by blast
  moreover have "i32 (564 * b_det B) = Some (564 * b_det B)"
    using B by (intro i32_Some) (auto simp: band_ok_def)
  moreover have "\<exists>c. index (if neg then IHN else IHP) (int (if b then 2 else 1)) = Some c \<and> 0 \<le> c \<and> c < 4" for neg b
    by (simp add: index_def IHN_def IHP_def)
  ultimately show ?thesis unfolding high_code_def Let_def by simp
qed

text \<open>The codes of the two bands in one byte.\<close>

lemma byte_codes:
  assumes "0 \<le> c" "c < 64" "0 \<le> h" "h < 4"
  shows "uint (word_of_int (shl32 h 6 OR c) :: u8) AND 0x3F = c"
    "shr (uint (word_of_int (shl32 h 6 OR c) :: u8)) 6 AND 0x03 = h"
proof -
  have c: "c = take_bit 6 c" using assms by (simp add: take_bit_int_eq_self)
  have "push_bit 6 h + c = push_bit 6 h OR c"
  proof (rule disjunctive_add)
    fix n show "\<not> bit (push_bit 6 h) n \<or> \<not> bit c n"
      by (subst c) (auto simp: bit_push_bit_iff bit_take_bit_iff)
  qed
  moreover have "shl32 h 6 = push_bit 6 h" using assms by (simp add: shl32_exact push_bit_eq_mult)
  ultimately have u: "shl32 h 6 OR c = h * 64 + c" by (simp add: push_bit_eq_mult)
  have "uint (word_of_int (h * 64 + c) :: u8) = h * 64 + c"
    using assms by (subst uint_word_of_int) simp
  then show "uint (word_of_int (shl32 h 6 OR c) :: u8) AND 0x3F = c"
    "shr (uint (word_of_int (shl32 h 6 OR c) :: u8)) 6 AND 0x03 = h"
    using assms by (simp_all add: u int_and_63 int_and_3 shr_def)
qed

text \<open>One turn of the encoder: it succeeds, keeps the invariant, and its byte carries the codes it
  adapted its bands with.\<close>

lemma encode_pair_ok:
  assumes "enc_ok enc"
  shows "\<exists>byte enc' c h d. encode_pair enc a b = Some (byte, enc') \<and> enc_ok enc' \<and>
    e_pending enc' = e_pending enc \<and> 4 \<le> c \<and> c < 64 \<and> 0 \<le> h \<and> h < 4 \<and>
    uint byte AND 0x3F = c \<and> shr (uint byte) 6 AND 0x03 = h \<and>
    adapt_low (e_low enc) c = Some (e_low enc') \<and> dhigh_of (e_high enc) h = Some d \<and>
    adapt_high (e_high enc) h d = Some (e_high enc')"
proof -
  let ?x = "shift_in (e_x enc) (sint a) (sint b)"
  have B: "band_ok (e_low enc)" "band_ok (e_high enc)" using assms by (simp_all add: enc_ok_def)
  have x: "length ?x = 24" "all16 ?x" using shift_in_ok assms by (auto simp: enc_ok_def)
  obtain e f where q: "qmf ?x = Some (e, f)" "\<bar>e\<bar> \<le> 212402176" "\<bar>f\<bar> \<le> 212402176"
    using qmf_ok [OF x] by blast
  have s: "i32 (f + e) = Some (f + e)" "i32 (f - e) = Some (f - e)" using q(2,3) by (auto intro!: i32_Some)
  have "- 25928 \<le> shr (f + e) 14 \<and> shr (f + e) 14 \<le> 25928" "- 25928 \<le> shr (f - e) 14 \<and> shr (f - e) 14 \<le> 25928"
    using q(2,3) by (auto intro!: shr_bounds)
  then have r: "\<bar>shr (f + e) 14\<bar> \<le> 30000" "\<bar>shr (f - e) 14\<bar> \<le> 30000" by auto
  obtain c where c: "low_code (e_low enc) (shr (f + e) 14) = Some c" "4 \<le> c" "c < 64"
    using low_code_ok [OF B(1) r(1)] by blast
  obtain h where h: "high_code (e_high enc) (shr (f - e) 14) = Some h" "0 \<le> h" "h < 4"
    using high_code_ok [OF B(2) r(2)] by blast
  obtain low where low: "adapt_low (e_low enc) c = Some low" "band_ok low"
    using adapt_low_ok [OF B(1), of c] c by auto
  obtain d where d: "dhigh_of (e_high enc) h = Some d" "is_i16 d" using dhigh_ok [OF B(2) h(2,3)] by blast
  obtain high where high: "adapt_high (e_high enc) h d = Some high" "band_ok high"
    using adapt_high_ok [OF B(2) h(2,3) d(2)] by blast
  have "encode_pair enc a b = Some (word_of_int (shl32 h 6 OR c), enc\<lparr>e_x := ?x, e_low := low, e_high := high\<rparr>)"
    unfolding encode_pair_def Let_def
    by (simp only: q(1) s c(1) h(1) low(1) d(1) high(1) bind.bind_lunit prod.case)
  moreover have "enc_ok (enc\<lparr>e_x := ?x, e_low := low, e_high := high\<rparr>)"
    using x low(2) high(2) by (simp add: enc_ok_def)
  moreover have "0 \<le> c" using c(2) by simp
  ultimately show ?thesis
    using byte_codes [OF \<open>0 \<le> c\<close> c(3) h(2,3)] c(2,3) h(2,3) low(1) d(1) high(1) by fastforce
qed

text \<open>One byte of the decoder: it succeeds for every byte.\<close>

lemma decode_byte_ok:
  assumes "dec_ok dec"
  shows "\<exists>s1 s2 dec' d. decode_byte dec byte = Some ([s1, s2], dec') \<and> dec_ok dec' \<and>
    adapt_low (d_low dec) (uint byte AND 0x3F) = Some (d_low dec') \<and>
    dhigh_of (d_high dec) (shr (uint byte) 6 AND 0x03) = Some d \<and>
    adapt_high (d_high dec) (shr (uint byte) 6 AND 0x03) d = Some (d_high dec')"
proof -
  let ?c = "uint byte AND 0x3F" and ?h = "shr (uint byte) 6 AND 0x03"
  have B: "band_ok (d_low dec)" "band_ok (d_high dec)" using assms by (simp_all add: dec_ok_def)
  have c: "0 \<le> ?c" "?c < 64" and h: "0 \<le> ?h" "?h < 4" by (simp_all add: int_and_63 int_and_3)
  obtain q where q: "index QM6 ?c = Some q" "- 24808 \<le> q" "q \<le> 24808"
    using c index_range [OF table_ranges(3), of ?c] by (auto simp: table_lengths)
  note p = det_product [OF B(1) q(2,3)]
  have i16: "is_i16 (b_s (d_low dec))" "is_i16 (b_s (d_high dec))" using B by (simp_all add: band_ok_def)
  obtain low where low: "adapt_low (d_low dec) ?c = Some low" "band_ok low"
    using adapt_low_ok [OF B(1) c] by blast
  obtain d where d: "dhigh_of (d_high dec) ?h = Some d" "is_i16 d" using dhigh_ok [OF B(2) h] by blast
  obtain high where high: "adapt_high (d_high dec) ?h d = Some high" "band_ok high"
    using adapt_high_ok [OF B(2) h d(2)] by blast
  let ?rlow = "clamp (- 16384) 16383 (b_s (d_low dec) + shr (b_det (d_low dec) * q) 15)"
  let ?rhigh = "clamp (- 16384) 16383 (d + b_s (d_high dec))"
  have r: "- 16384 \<le> clamp (- 16384) 16383 v \<and> clamp (- 16384) 16383 v \<le> 16383" for v by (simp add: clamp_def)
  have s: "is_i16 (?rlow + ?rhigh)" "is_i16 (?rlow - ?rhigh)"
    using r [of "b_s (d_low dec) + shr (b_det (d_low dec) * q) 15"] r [of "d + b_s (d_high dec)"]
    unfolding is_i16_def by linarith+
  then have s32: "i32 (?rlow + ?rhigh) = Some (?rlow + ?rhigh)" "i32 (?rlow - ?rhigh) = Some (?rlow - ?rhigh)"
    by (auto simp: is_i16_def intro!: i32_Some)
  let ?x = "shift_in (d_x dec) (?rlow + ?rhigh) (?rlow - ?rhigh)"
  have x: "length ?x = 24" "all16 ?x" using shift_in_ok [OF _ _ s] assms by (auto simp: dec_ok_def)
  obtain e f where f: "qmf ?x = Some (e, f)" using qmf_ok [OF x] by blast
  have "decode_byte dec byte = Some ([i16_of_int (saturate (shr f 11)), i16_of_int (saturate (shr e 11))],
      dec\<lparr>d_x := ?x, d_low := low, d_high := high\<rparr>)"
    unfolding decode_byte_def Let_def
    by (simp only: q(1) p(1) i32_sum16 [OF i16(1) p(2)] low(1) d(1) i32_sum16 [OF d(2) i16(2)] high(1) s32 f
        bind.bind_lunit prod.case)
  moreover have "dec_ok (dec\<lparr>d_x := ?x, d_low := low, d_high := high\<rparr>)"
    using x low(2) high(2) by (simp add: dec_ok_def)
  ultimately show ?thesis using low(1) d(1) high(1) by fastforce
qed

section \<open>Streams\<close>

definition pending_samples :: "G722Encoder \<Rightarrow> pcm" where
  "pending_samples enc = (case e_pending enc of None \<Rightarrow> [] | Some a \<Rightarrow> [a])"

lemma clear_pending: "e_pending enc = None \<Longrightarrow> enc\<lparr>e_pending := None\<rparr> = enc"
  by (cases enc) simp

text \<open>The held sample goes in front of the samples of the call.\<close>

lemma encode_with_pending:
  "G722_encode enc pcm = encode_pairs (enc\<lparr>e_pending := None\<rparr>) (pending_samples enc @ pcm)"
  by (cases "e_pending enc"; cases pcm) (simp_all add: G722_encode_def pending_samples_def clear_pending)

lemma encode_pair_pending:
  "encode_pair enc a b = Some (byte, enc') \<Longrightarrow> e_pending enc' = e_pending enc"
  by (auto simp: encode_pair_def Let_def split: Option.bind_splits prod.splits)

lemma encode_pairs_append:
  "e_pending enc = None \<Longrightarrow>
   encode_pairs enc (xs @ ys) =
     do { (out, enc) \<leftarrow> encode_pairs enc xs;
          (out', enc) \<leftarrow> G722_encode enc ys;
          Some (out @ out', enc) }"
proof (induction enc xs rule: encode_pairs.induct)
  case (1 enc)
  then show ?case by (cases "encode_pairs enc ys") (auto simp: encode_with_pending pending_samples_def clear_pending)
next
  case (2 enc a)
  then have "enc\<lparr>e_pending := None\<rparr> = enc" by simp
  then show ?case
    by (cases "encode_pairs enc (a # ys)") (auto simp: encode_with_pending pending_samples_def)
next
  case (3 enc a b rest)
  show ?case
  proof (cases "encode_pair enc a b")
    case (Some r)
    obtain byte enc' where r: "r = (byte, enc')" by (cases r)
    with Some 3 encode_pair_pending [of enc a b byte enc'] show ?thesis
      by (auto split: Option.bind_splits)
  qed simp
qed

interpretation g722_stream: stream_coder G722_encode 1
proof unfold_locales
  fix enc :: G722Encoder
  show "G722_encode enc [] = Some ([], enc)"
    by (cases "e_pending enc") (simp_all add: G722_encode_def)
  show "G722_encode enc (xs @ ys) =
      do { (out, enc) \<leftarrow> G722_encode enc xs; (out', enc) \<leftarrow> G722_encode enc ys; Some (out @ out', enc) }" for xs ys
    unfolding encode_with_pending [of enc] append_assoc [symmetric]
    by (rule encode_pairs_append) simp
qed

text \<open>An encoder and the decoder that follows it.\<close>

definition in_step :: "G722Encoder \<Rightarrow> G722Decoder \<Rightarrow> bool" where
  "in_step enc dec \<longleftrightarrow> d_low dec = e_low enc \<and> d_high dec = e_high enc"

lemma encode_pairs_ok:
  "enc_ok enc \<Longrightarrow> e_pending enc = None \<Longrightarrow> dec_ok dec \<Longrightarrow> in_step enc dec \<Longrightarrow>
   \<exists>out enc' pcm' dec'. encode_pairs enc pcm = Some (out, enc') \<and> enc_ok enc' \<and>
     2 * length out + length (pending_samples enc') = length pcm \<and>
     (\<forall>byte\<in>set out. 4 \<le> uint byte AND 0x3F) \<and>
     G722_decode dec out = Some (pcm', dec') \<and> dec_ok dec' \<and> in_step enc' dec' \<and>
     length pcm' = 2 * length out"
proof (induction enc pcm arbitrary: dec rule: encode_pairs.induct)
  case (1 enc)
  then show ?case by (simp add: G722_decode_def pending_samples_def)
next
  case (2 enc a)
  then show ?case by (simp add: G722_decode_def pending_samples_def enc_ok_def in_step_def)
next
  case (3 enc a b rest)
  obtain byte enc1 c h d where e: "encode_pair enc a b = Some (byte, enc1)" "enc_ok enc1" "e_pending enc1 = None"
    "4 \<le> c" "uint byte AND 0x3F = c" "shr (uint byte) 6 AND 0x03 = h"
    "adapt_low (e_low enc) c = Some (e_low enc1)" "dhigh_of (e_high enc) h = Some d"
    "adapt_high (e_high enc) h d = Some (e_high enc1)"
    using encode_pair_ok [OF 3(2), of a b] 3(3) by fastforce
  obtain s1 s2 dec1 d' where f: "decode_byte dec byte = Some ([s1, s2], dec1)" "dec_ok dec1"
    "adapt_low (d_low dec) c = Some (d_low dec1)" "dhigh_of (d_high dec) h = Some d'"
    "adapt_high (d_high dec) h d' = Some (d_high dec1)"
    using decode_byte_ok [OF 3(4), of byte] unfolding e(5,6) by blast
  have "in_step enc1 dec1" using e(7-9) f(3-5) 3(5) by (simp add: in_step_def)
  from 3(1) [OF e(1) refl e(2,3) f(2) this] e(1,4,5) f(1) show ?case
    by (auto simp: G722_decode_def)
qed

lemma G722_encode_ok:
  assumes "enc_ok enc" "dec_ok dec" "in_step enc dec"
  shows "\<exists>out enc' pcm' dec'. G722_encode enc pcm = Some (out, enc') \<and> enc_ok enc' \<and>
     2 * length out + length (pending_samples enc') = length (pending_samples enc) + length pcm \<and>
     (\<forall>byte\<in>set out. 4 \<le> uint byte AND 0x3F) \<and>
     G722_decode dec out = Some (pcm', dec') \<and> dec_ok dec' \<and> in_step enc' dec' \<and>
     length pcm' = 2 * length out"
  using encode_pairs_ok [of "enc\<lparr>e_pending := None\<rparr>" dec "pending_samples enc @ pcm"] assms
  unfolding encode_with_pending by (simp add: enc_ok_def in_step_def)

interpretation g722_framed: framed_coder G722_encode 2 "\<lambda>enc. enc_ok enc \<and> e_pending enc = None" 1
proof unfold_locales
  fix enc :: G722Encoder and xs ys :: pcm
  show "G722_encode enc [] = Some ([], enc)" by (rule g722_stream.code_Nil)
  show "G722_encode enc (xs @ ys) =
      do { (out, enc) \<leftarrow> G722_encode enc xs; (out', enc) \<leftarrow> G722_encode enc ys; Some (out @ out', enc) }"
    by (rule g722_stream.code_append) simp
  assume inv: "enc_ok enc \<and> e_pending enc = None" and even: "2 dvd length xs"
  define dec where "dec = \<lparr>d_x = replicate 24 0, d_low = e_low enc, d_high = e_high enc\<rparr>"
  have "dec_ok dec" "in_step enc dec" using inv by (simp_all add: dec_def dec_ok_def enc_ok_def in_step_def)
  with inv G722_encode_ok [of enc dec xs] obtain out enc' where
    1: "G722_encode enc xs = Some (out, enc')" "enc_ok enc'"
    "2 * length out + length (pending_samples enc') = length xs" by (auto simp: pending_samples_def)
  moreover have "e_pending enc' = None"
  proof (rule ccontr)
    assume "e_pending enc' \<noteq> None"
    then have "length (pending_samples enc') = 1" by (auto simp: pending_samples_def)
    with 1(3) even show False by presburger
  qed
  ultimately show "\<exists>out s'. G722_encode enc xs = Some (out, s') \<and> (enc_ok s' \<and> e_pending s' = None) \<and>
      length out = length xs div 2 * 1"
    by (auto simp: pending_samples_def)
qed

lemma G722_decode_ok:
  "dec_ok dec \<Longrightarrow> \<exists>pcm dec'. G722_decode dec bs = Some (pcm, dec') \<and> dec_ok dec' \<and> length pcm = 2 * length bs"
proof (induction bs arbitrary: dec)
  case Nil
  then show ?case by (simp add: G722_decode_def)
next
  case (Cons b bs)
  obtain s1 s2 dec1 where "decode_byte dec b = Some ([s1, s2], dec1)" "dec_ok dec1"
    using decode_byte_ok [OF Cons.prems, of b] by blast
  with Cons.IH [of dec1] show ?case by (auto simp: G722_decode_def)
qed

interpretation g722_dec: framed_coder G722_decode 1 dec_ok 2
proof (intro framed_coder.intro framed_coder_axioms.intro)
  show "stream_coder G722_decode 1" unfolding G722_decode_def by (rule stream_coder_fold_units)
  show "\<exists>out s'. G722_decode s xs = Some (out, s') \<and> dec_ok s' \<and> length out = length xs div 1 * 2"
    if "dec_ok s" for s xs using G722_decode_ok [OF that, of xs] by auto
qed

lemma packets_in_step:
  "enc_ok enc \<Longrightarrow> dec_ok dec \<Longrightarrow> in_step enc dec \<Longrightarrow>
   \<exists>outs enc' pcms dec'. code_packets G722_encode enc packets = Some (outs, enc') \<and>
     code_packets G722_decode dec outs = Some (pcms, dec') \<and> in_step enc' dec' \<and>
     2 * length (concat outs) + length (pending_samples enc') =
       length (pending_samples enc) + length (concat packets) \<and>
     length (concat pcms) = 2 * length (concat outs) \<and>
     (\<forall>byte\<in>set (concat outs). 4 \<le> uint byte AND 0x3F)"
proof (induction packets arbitrary: enc dec)
  case Nil
  then show ?case by simp
next
  case (Cons p ps)
  obtain out enc1 pcm dec1 where 1: "G722_encode enc p = Some (out, enc1)" "enc_ok enc1"
    "2 * length out + length (pending_samples enc1) = length (pending_samples enc) + length p"
    "\<forall>byte\<in>set out. 4 \<le> uint byte AND 0x3F" "G722_decode dec out = Some (pcm, dec1)" "dec_ok dec1"
    "in_step enc1 dec1" "length pcm = 2 * length out"
    using G722_encode_ok [OF Cons.prems, of p] by blast
  from Cons.IH [OF this(2,6,7)] obtain outs enc2 pcms dec2 where
    2: "code_packets G722_encode enc1 ps = Some (outs, enc2)"
    "code_packets G722_decode dec1 outs = Some (pcms, dec2)" "in_step enc2 dec2"
    "2 * length (concat outs) + length (pending_samples enc2) = length (pending_samples enc1) + length (concat ps)"
    "length (concat pcms) = 2 * length (concat outs)"
    "\<forall>byte\<in>set (concat outs). 4 \<le> uint byte AND 0x3F" by blast
  show ?case
    using 1 2 by (intro exI [of _ "out # outs"] exI [of _ enc2] exI [of _ "pcm # pcms"] exI [of _ dec2]) auto
qed

section \<open>Properties\<close>

text \<open>C18: the G.722 decoder follows the encoder exactly.  For every stream of samples, cut into
  packets of any size, encoder and decoder run without an overflow, an index outside a table
  or a crossed clamp; after decoding what was sent the predictors and scale factors of both
  bands of the decoder are those of the encoder; two samples come out per byte, and every
  sample went into a byte but an odd last one, which the encoder holds.  The four low band
  codes that the standard reserves are never sent.\<close>

theorem g722_in_step:
  "\<exists>outs enc pcms dec. code_packets G722_encode G722Encoder_new packets = Some (outs, enc) \<and>
     code_packets G722_decode G722Decoder_new outs = Some (pcms, dec) \<and>
     d_low dec = e_low enc \<and> d_high dec = e_high enc \<and>
     2 * length (concat outs) + length (pending_samples enc) = length (concat packets) \<and>
     length (concat pcms) = 2 * length (concat outs) \<and>
     (\<forall>byte\<in>set (concat outs). 4 \<le> uint byte AND 0x3F)"
proof -
  have "in_step G722Encoder_new G722Decoder_new" "pending_samples G722Encoder_new = []"
    by (simp_all add: in_step_def G722Encoder_new_def G722Decoder_new_def pending_samples_def)
  with packets_in_step [OF enc_ok_new dec_ok_new, of packets] show ?thesis by (simp add: in_step_def)
qed

theorem g722_in_step_witness:
  "\<exists>outs enc. code_packets G722_encode G722Encoder_new [[100, 200], [300]] = Some (outs, enc) \<and>
     2 * length (concat outs) + length (pending_samples enc) = 3"
  using g722_in_step [of "[[100, 200], [300]]"] by auto

text \<open>How a G.722 stream is cut into calls does not matter.  Encoding packets of any sizes one
  after the other, odd sizes included, gives the bytes and the state that one call with all
  the samples gives; and decoding packets of bytes likewise.\<close>

lemma g722_packets_concat:
  "G722_encode enc (concat packets) =
     map_option (\<lambda>(outs, enc). (concat outs, enc)) (code_packets G722_encode enc packets) \<and>
   G722_decode dec (concat chunks) =
     map_option (\<lambda>(outs, dec). (concat outs, dec)) (code_packets G722_decode dec chunks)"
  using g722_stream.code_packets_concat [of packets enc] g722_dec.code_packets_concat [of chunks dec] by simp

text \<open>No byte stream makes the G.722 decoder fail.  Any bytes, received in any state the
  decoder can be in, decode without an overflow or an index outside a table to two samples
  per byte; and from an encoder that holds no sample, packets of even length are turned into
  half as many bytes each.\<close>

lemma g722_total:
  assumes "dec_ok dec" "enc_ok enc" "e_pending enc = None" "\<forall>p\<in>set packets. even (length p)"
  shows "(\<exists>pcm dec'. G722_decode dec bs = Some (pcm, dec') \<and> dec_ok dec' \<and> length pcm = 2 * length bs) \<and>
    (\<exists>outs enc'. code_packets G722_encode enc packets = Some (outs, enc') \<and> enc_ok enc' \<and> e_pending enc' = None \<and>
      map length outs = map (\<lambda>p. length p div 2) packets)"
  using G722_decode_ok [OF assms(1), of bs] g722_framed.packets_framed [of enc packets] assms(2-4) by fastforce

theorem g722_total_witness:
  "\<exists>outs enc'. code_packets G722_encode G722Encoder_new [replicate 320 7, replicate 320 9] = Some (outs, enc') \<and>
     map length outs = [160, 160]"
proof -
  have "e_pending G722Encoder_new = None" by (simp add: G722Encoder_new_def)
  moreover have "\<forall>p\<in>set [replicate 320 (7 :: i16), replicate 320 9]. even (length p)" by simp
  ultimately show ?thesis
    using g722_total [OF dec_ok_new enc_ok_new, of "[replicate 320 7, replicate 320 9]" "[]"] by auto
qed

end
