(* ===== verification/Media_Codecs.thy ===== *)
theory Media_Codecs
  imports Errors G711 G722
begin

text \<open>
  The boxed encoders and decoders of \<^verbatim>\<open>src/src/codec/mod.rs\<close>, as the media path uses them.  A
  session or stream holds a \<^verbatim>\<open>Box<dyn AudioEncoder>\<close> and calls it through its trait, so the
  media path is modelled over a table of the trait's functions: \<open>'e\<close> and \<open>'d\<close> are the states
  of the boxed encoders and decoders.  \<open>codec_table\<close> fills it in with the codecs modelled
  here; \<^verbatim>\<open>Call_Codecs\<close> gives the table that adds G.729 and Opus.
\<close>

record ('e, 'd) codecs =
  create_encoder :: "CodecType \<Rightarrow> error + 'e"
  create_decoder :: "CodecType \<Rightarrow> error + 'd"
  run_encoder :: "'e \<Rightarrow> pcm \<Rightarrow> bytes \<times> 'e"
  run_decoder :: "'d \<Rightarrow> bytes \<Rightarrow> pcm \<times> 'd"
  run_conceal :: "'d \<Rightarrow> nat \<Rightarrow> bytes option \<Rightarrow> pcm \<times> 'd"

datatype 'e AudioEncoder = PcmuEncoder | PcmaEncoder | G722_encoder G722Encoder | OtherEncoder 'e
datatype 'd AudioDecoder = PcmuDecoder | PcmaDecoder | G722_decoder G722Decoder | OtherDecoder 'd

text \<open>A G.722 coder that overflowed would have stopped the program; \<^verbatim>\<open>G722\<close> shows that it never
  does, so the value given to that case does not matter.\<close>

definition no_panic :: "'s \<Rightarrow> ('a list \<times> 's) option \<Rightarrow> 'a list \<times> 's" where
  "no_panic s r = (case r of None \<Rightarrow> ([], s) | Some x \<Rightarrow> x)"

definition new_encoder :: "('e, 'd) codecs \<Rightarrow> CodecType \<Rightarrow> error + 'e AudioEncoder" where
  "new_encoder other codec =
    (case codec of
       Pcmu \<Rightarrow> Inr PcmuEncoder
     | Pcma \<Rightarrow> Inr PcmaEncoder
     | G722 \<Rightarrow> Inr (G722_encoder G722Encoder_new)
     | _ \<Rightarrow> map_sum id OtherEncoder (create_encoder other codec))"

definition new_decoder :: "('e, 'd) codecs \<Rightarrow> CodecType \<Rightarrow> error + 'd AudioDecoder" where
  "new_decoder other codec =
    (case codec of
       Pcmu \<Rightarrow> Inr PcmuDecoder
     | Pcma \<Rightarrow> Inr PcmaDecoder
     | G722 \<Rightarrow> Inr (G722_decoder G722Decoder_new)
     | _ \<Rightarrow> map_sum id OtherDecoder (create_decoder other codec))"

fun encode_with :: "('e, 'd) codecs \<Rightarrow> 'e AudioEncoder \<Rightarrow> pcm \<Rightarrow> bytes \<times> 'e AudioEncoder" where
  "encode_with other PcmuEncoder pcm = (snd (PcmuEncoder_encode pcm []), PcmuEncoder)"
| "encode_with other PcmaEncoder pcm = (snd (PcmaEncoder_encode pcm []), PcmaEncoder)"
| "encode_with other (G722_encoder enc) pcm =
     map_prod id G722_encoder (no_panic enc (G722_encode enc pcm))"
| "encode_with other (OtherEncoder e) pcm = map_prod id OtherEncoder (run_encoder other e pcm)"

fun decode_with :: "('e, 'd) codecs \<Rightarrow> 'd AudioDecoder \<Rightarrow> bytes \<Rightarrow> pcm \<times> 'd AudioDecoder" where
  "decode_with other PcmuDecoder bs = (PcmuDecoder_decode bs [], PcmuDecoder)"
| "decode_with other PcmaDecoder bs = (PcmaDecoder_decode bs [], PcmaDecoder)"
| "decode_with other (G722_decoder dec) bs =
     map_prod id G722_decoder (no_panic dec (G722_decode dec bs))"
| "decode_with other (OtherDecoder d) bs = map_prod id OtherDecoder (run_decoder other d bs)"

fun conceal_with :: "('e, 'd) codecs \<Rightarrow> 'd AudioDecoder \<Rightarrow> nat \<Rightarrow> bytes option \<Rightarrow> pcm \<times> 'd AudioDecoder" where
  "conceal_with other (OtherDecoder d) n nxt = map_prod id OtherDecoder (run_conceal other d n nxt)"
| "conceal_with other dec n nxt = (conceal_loss n nxt [], dec)"

definition codec_table :: "('e, 'd) codecs \<Rightarrow> ('e AudioEncoder, 'd AudioDecoder) codecs" where
  "codec_table other =
    \<lparr>create_encoder = new_encoder other, create_decoder = new_decoder other,
     run_encoder = encode_with other, run_decoder = decode_with other, run_conceal = conceal_with other\<rparr>"

end
