(* ===== verification/Ordered_Map.thy ===== *)
theory Ordered_Map
  imports Rtp_Prelude
begin

text \<open>
  Rust's \<^verbatim>\<open>BTreeMap\<close>, as far as the jitter buffer uses it: an association list whose keys are
  strictly increasing.  The locale \<open>ordered_map\<close> states what a client may rely on; the lists
  are its interpretation.
\<close>

type_synonym ('k, 'v) btree = "('k \<times> 'v) list"

fun bt_insert :: "'k::linorder \<Rightarrow> 'v \<Rightarrow> ('k, 'v) btree \<Rightarrow> ('k, 'v) btree" where
  "bt_insert k v [] = [(k, v)]"
| "bt_insert k v ((k', v') # xs) =
    (if k < k' then (k, v) # (k', v') # xs
     else if k = k' then (k, v) # xs
     else (k', v') # bt_insert k v xs)"

definition bt_remove :: "'k::linorder \<Rightarrow> ('k, 'v) btree \<Rightarrow> ('k, 'v) btree" where
  "bt_remove k xs = filter (\<lambda>x. fst x \<noteq> k) xs"

definition bt_get :: "('k::linorder, 'v) btree \<Rightarrow> 'k \<Rightarrow> 'v option" where
  "bt_get xs k = map_of xs k"

text \<open>\<^verbatim>\<open>keys().next()\<close> and \<^verbatim>\<open>range(k..).next()\<close>.\<close>

definition bt_first :: "('k::linorder, 'v) btree \<Rightarrow> 'k option" where
  "bt_first xs = (case xs of [] \<Rightarrow> None | x # _ \<Rightarrow> Some (fst x))"

definition bt_from :: "('k::linorder, 'v) btree \<Rightarrow> 'k \<Rightarrow> 'k option" where
  "bt_from xs k = bt_first (dropWhile (\<lambda>x. fst x < k) xs)"

definition bt_inv :: "('k::linorder, 'v) btree \<Rightarrow> bool" where
  "bt_inv xs \<longleftrightarrow> sorted_wrt (<) (map fst xs)"

definition bt_keys :: "('k, 'v) btree \<Rightarrow> 'k set" where
  "bt_keys xs = fst ` set xs"

section \<open>The contract\<close>

locale ordered_map =
  fixes empty_map :: "'m"
    and put :: "'k::linorder \<Rightarrow> 'v \<Rightarrow> 'm \<Rightarrow> 'm"
    and del :: "'k \<Rightarrow> 'm \<Rightarrow> 'm"
    and get :: "'m \<Rightarrow> 'k \<Rightarrow> 'v option"
    and least :: "'m \<Rightarrow> 'k option"
    and size_map :: "'m \<Rightarrow> nat"
    and inv_map :: "'m \<Rightarrow> bool"
  assumes inv_empty: "inv_map empty_map"
    and inv_put: "inv_map m \<Longrightarrow> inv_map (put k v m)"
    and inv_del: "inv_map m \<Longrightarrow> inv_map (del k m)"
    and get_empty: "get empty_map k = None"
    and get_put: "inv_map m \<Longrightarrow> get (put k v m) = (get m)(k \<mapsto> v)"
    and get_del: "inv_map m \<Longrightarrow> get (del k m) = (get m)(k := None)"
    and least_min: "inv_map m \<Longrightarrow> least m = Some k \<longleftrightarrow> get m k \<noteq> None \<and> (\<forall>j. get m j \<noteq> None \<longrightarrow> k \<le> j)"
    and size_dom: "inv_map m \<Longrightarrow> finite (dom (get m)) \<and> size_map m = card (dom (get m))"
begin

lemma size_put: "inv_map m \<Longrightarrow> size_map (put k v m) = (if get m k = None then Suc (size_map m) else size_map m)"
proof -
  assume m: "inv_map m"
  then have "size_map (put k v m) = card (insert k (dom (get m)))" "finite (dom (get m))"
    using size_dom inv_put by (simp_all add: get_put size_dom)
  with m show ?thesis by (auto simp: size_dom card_insert_if dom_def)
qed

lemma size_del: "inv_map m \<Longrightarrow> get m k \<noteq> None \<Longrightarrow> Suc (size_map (del k m)) = size_map m"
proof -
  assume m: "inv_map m" and k: "get m k \<noteq> None"
  then have "size_map (del k m) = card (dom (get m) - {k})" "finite (dom (get m))"
    using size_dom inv_del by (simp_all add: get_del size_dom)
  moreover have "k \<in> dom (get m)" using k by blast
  ultimately show ?thesis using m card_Suc_Diff1 [of "dom (get m)" k] by (simp only: size_dom)
qed

text \<open>A bounded map: the least key makes room for a new one when the map is full.\<close>

definition put_bounded :: "nat \<Rightarrow> 'k \<Rightarrow> 'v \<Rightarrow> 'm \<Rightarrow> 'm" where
  "put_bounded n k v m =
    put k v (if n \<le> size_map m then (case least m of None \<Rightarrow> m | Some j \<Rightarrow> del j m) else m)"

lemma put_bounded_inv: "inv_map m \<Longrightarrow> inv_map (put_bounded n k v m)"
  by (auto simp: put_bounded_def intro: inv_put inv_del split: option.split)

lemma least_None: "inv_map m \<Longrightarrow> least m = None \<longleftrightarrow> size_map m = 0"
proof
  assume m: "inv_map m" and l: "least m = None"
  show "size_map m = 0"
  proof (rule ccontr)
    assume "size_map m \<noteq> 0"
    then have ne: "dom (get m) \<noteq> {}" and fin: "finite (dom (get m))" using size_dom [OF m] by auto
    then have "Min (dom (get m)) \<in> dom (get m)" "\<forall>j\<in>dom (get m). Min (dom (get m)) \<le> j" by simp_all
    then have "least m = Some (Min (dom (get m)))" using least_min [OF m] by blast
    with l show False by simp
  qed
next
  assume m: "inv_map m" and "size_map m = 0"
  then have "dom (get m) = {}" using size_dom [OF m] by simp
  then show "least m = None" using least_min [OF m] by (cases "least m") auto
qed

lemma put_bounded_size:
  assumes m: "inv_map m" "size_map m \<le> max 1 n"
  shows "size_map (put_bounded n k v m) \<le> max 1 n"
proof (cases "n \<le> size_map m")
  case True
  show ?thesis
  proof (cases "least m")
    case None
    then have "size_map m = 0" using least_None [OF m(1)] by simp
    with True None m(1) show ?thesis by (simp add: put_bounded_def size_put)
  next
    case (Some j)
    then have j: "get m j \<noteq> None" using least_min [OF m(1)] by simp
    have "size_map (put_bounded n k v m) \<le> Suc (size_map (del j m))"
      using True Some inv_del [OF m(1)] by (simp add: put_bounded_def size_put)
    with size_del [OF m(1) j] m(2) show ?thesis by simp
  qed
next
  case False
  with m show ?thesis by (simp add: put_bounded_def size_put)
qed

end

section \<open>Sorted lists are ordered maps\<close>

lemma bt_Nil [simp]: "bt_keys [] = {}" "bt_inv []" "bt_get [] k = None"
  by (simp_all add: bt_keys_def bt_inv_def bt_get_def)

lemma bt_insert_keys: "bt_keys (bt_insert k v xs) = insert k (bt_keys xs)"
  by (induction k v xs rule: bt_insert.induct) (auto simp: bt_keys_def)

lemma bt_insert_inv: "bt_inv xs \<Longrightarrow> bt_inv (bt_insert k v xs)"
proof (induction k v xs rule: bt_insert.induct)
  case (2 k v k' v' xs)
  then show ?case
    using bt_insert_keys [of k v xs] by (force simp: bt_inv_def bt_keys_def)
qed (simp add: bt_inv_def)

lemma bt_remove_inv: "bt_inv xs \<Longrightarrow> bt_inv (bt_remove k xs)"
  by (induction xs) (auto simp: bt_inv_def bt_remove_def)

lemma bt_remove_keys: "bt_keys (bt_remove k xs) = bt_keys xs - {k}"
  by (auto simp: bt_keys_def bt_remove_def)

lemma bt_get_None: "bt_get xs k = None \<longleftrightarrow> k \<notin> bt_keys xs"
  by (simp add: bt_get_def bt_keys_def map_of_eq_None_iff)

lemma bt_get_insert: "bt_inv xs \<Longrightarrow> bt_get (bt_insert k v xs) = (bt_get xs)(k \<mapsto> v)"
  by (induction k v xs rule: bt_insert.induct) (auto simp: bt_get_def bt_inv_def fun_eq_iff)

lemma bt_get_remove: "bt_get (bt_remove k xs) = (bt_get xs)(k := None)"
  by (induction xs) (auto simp: bt_get_def bt_remove_def fun_eq_iff)

lemma bt_first_min:
  "bt_inv xs \<Longrightarrow> bt_first xs = Some k \<longleftrightarrow> k \<in> bt_keys xs \<and> (\<forall>j\<in>bt_keys xs. k \<le> j)"
  by (cases xs) (fastforce simp: bt_first_def bt_inv_def bt_keys_def)+

lemma bt_inv_distinct: "bt_inv xs \<Longrightarrow> distinct (map fst xs)"
  by (induction xs) (auto simp: bt_inv_def)

lemma length_bt: "bt_inv xs \<Longrightarrow> length xs = card (bt_keys xs)"
  using distinct_card [OF bt_inv_distinct, of xs] by (simp add: bt_keys_def)

interpretation bt: ordered_map "[]" bt_insert bt_remove bt_get bt_first length bt_inv
proof unfold_locales
  fix m :: "('k::linorder, 'v) btree" and k
  have "bt_get m = map_of m" by (rule ext) (simp add: bt_get_def)
  then have dom: "dom (bt_get m) = bt_keys m" by (simp add: bt_keys_def dom_map_of_conv_image_fst)
  assume "bt_inv m"
  then show "bt_first m = Some k \<longleftrightarrow> bt_get m k \<noteq> None \<and> (\<forall>j. bt_get m j \<noteq> None \<longrightarrow> k \<le> j)"
    by (auto simp: bt_first_min bt_get_None)
  show "finite (dom (bt_get m)) \<and> length m = card (dom (bt_get m))"
    using \<open>bt_inv m\<close> by (simp add: dom length_bt) (simp add: bt_keys_def)
next
  show "bt_inv []" "bt_get [] k = None" for k by (simp_all add: bt_inv_def bt_get_def)
qed (simp_all add: bt_insert_inv bt_remove_inv bt_get_insert bt_get_remove)

text \<open>The first key from \<open>k\<close> on.\<close>

lemma bt_from_Some:
  "bt_inv xs \<Longrightarrow> bt_from xs k = Some j \<longleftrightarrow>
   j \<in> bt_keys xs \<and> k \<le> j \<and> (\<forall>i\<in>bt_keys xs. k \<le> i \<longrightarrow> j \<le> i)"
proof (induction xs)
  case Nil
  then show ?case by (simp add: bt_from_def bt_first_def bt_keys_def)
next
  case (Cons x xs)
  have inv: "bt_inv xs" "\<forall>i\<in>bt_keys xs. fst x < i"
    using Cons.prems by (auto simp: bt_inv_def bt_keys_def)
  show ?case
  proof (cases "fst x < k")
    case True
    with Cons.IH [OF inv(1)] show ?thesis by (auto simp: bt_from_def bt_keys_def)
  next
    case False
    with inv(2) show ?thesis
      by (fastforce simp: bt_from_def bt_first_def bt_keys_def)
  qed
qed

lemma bt_from_None: "bt_from xs k = None \<longleftrightarrow> (\<forall>i\<in>bt_keys xs. i < k)"
  by (auto simp: bt_from_def bt_first_def bt_keys_def dropWhile_eq_Nil_conv split: list.splits)
     (metis dropWhile_eq_Nil_conv fst_conv list.distinct(1))

end
