(* ===== verification/Jitter_Buffer.thy ===== *)
theory Jitter_Buffer
  imports Seq_Numbers Ieee_Float Ordered_Map
begin

text \<open>
  The jitter buffer: \<^verbatim>\<open>src/src/jitter.rs\<close>.  \<open>push_at\<close> and \<open>pop_at\<close> take the buffer and the time
  and return the result with the buffer after it.  \<^verbatim>\<open>u32::clamp\<close> panics on an empty range; an
  operation that can reach it returns an option, with \<open>None\<close> for the panic.  The \<^verbatim>\<open>f64\<close>
  estimates are those of \<^verbatim>\<open>Ieee_Float\<close>.
\<close>

section \<open>State\<close>

datatype JitterMode =
    Fixed (delay_ms: u32)
  | Adaptive (target_ms: u32) (min_ms: u32) (max_ms: u32)

definition JitterMode_default :: JitterMode where
  "JitterMode_default = Adaptive 60 20 200"

record JitterConfig =
  jc_mode :: JitterMode
  jc_clock_rate :: u32
  jc_max_packets :: nat

definition JitterConfig_default :: JitterConfig where
  "JitterConfig_default =
     \<lparr>jc_mode = JitterMode_default, jc_clock_rate = 8000, jc_max_packets = 50\<rparr>"

record BufferedPacket =
  bp_seq :: u16
  bp_timestamp :: u32
  bp_payload :: bytes
  bp_received_at :: instant
  bp_synthesized :: bool

record JitterStats =
  js_received :: u64
  js_dropped :: u64
  js_lost :: u64
  js_played :: u64
  js_depth :: nat
  js_delay_ms :: u32
  js_jitter_ms :: fp

definition JitterStats_default :: JitterStats where
  "JitterStats_default = \<lparr>js_received = 0, js_dropped = 0, js_lost = 0, js_played = 0,
     js_depth = 0, js_delay_ms = 0, js_jitter_ms = Fin 0\<rparr>"

record JitterBuffer =
  config :: JitterConfig
  packets :: "(u32, BufferedPacket) btree"
  playout_seq :: "u32 option"
  seq_cycles :: u16
  last_seq :: "u16 option"
  current_delay_ms :: u32
  jitter_estimate :: fp
  last_transit :: "int option"
  jb_stats :: JitterStats
  base_timestamp :: "u32 option"
  base_time :: "instant option"
  playing :: bool

definition initial_delay :: "JitterMode \<Rightarrow> u32" where
  "initial_delay m = (case m of Fixed d \<Rightarrow> d | Adaptive t _ _ \<Rightarrow> t)"

definition JitterBuffer_new :: "JitterConfig \<Rightarrow> JitterBuffer" where
  "JitterBuffer_new cfg =
     \<lparr> config = cfg, packets = [], playout_seq = None, seq_cycles = 0, last_seq = None,
       current_delay_ms = initial_delay (jc_mode cfg), jitter_estimate = Fin 0,
       last_transit = None, jb_stats = JitterStats_default, base_timestamp = None,
       base_time = None, playing = False \<rparr>"

section \<open>Internal operations\<close>

definition discontinuity :: "JitterBuffer \<Rightarrow> u32" where
  "discontinuity b = word_of_nat (max (jc_max_packets (config b)) 1)"

definition extend_seq :: "JitterBuffer \<Rightarrow> u16 \<Rightarrow> u32 \<times> JitterBuffer" where
  "extend_seq b seq =
    (let cycles =
      (case last_seq b of
         None \<Rightarrow> seq_cycles b
       | Some l \<Rightarrow>
           if seq < l \<and> l - seq > 32768 then seq_cycles b + 1
           else if seq > l \<and> seq - l > 32768 then seq_cycles b - 1
           else seq_cycles b) in
     (push_bit 16 (ucast cycles) OR ucast seq, b\<lparr>seq_cycles := cycles\<rparr>))"

definition update_jitter_at :: "JitterBuffer \<Rightarrow> u32 \<Rightarrow> instant \<Rightarrow> JitterBuffer" where
  "update_jitter_at b timestamp now =
    (case (base_timestamp b, base_time b) of
       (Some base_ts, Some base) \<Rightarrow>
        (let micros = wrap_i64 (int ((now - base) div 1000));
             arrival_ts = trunc_div (wrap_i64 (micros * int (unat (jc_clock_rate (config b))))) 1000000;
             send_ts = int (unat (timestamp - base_ts));
             transit = wrap_i64 (arrival_ts - send_ts);
             estimate =
              (case last_transit b of
                 None \<Rightarrow> jitter_estimate b
               | Some lst \<Rightarrow>
                   let d = fp_of_int F64 (wrap_i64 \<bar>wrap_i64 (transit - lst)\<bar>) in
                   fp_add F64 (jitter_estimate b)
                     (fp_div F64 (fp_sub F64 d (jitter_estimate b)) (Fin 16))) in
         b\<lparr>jitter_estimate := estimate, last_transit := Some transit\<rparr>)
     | _ \<Rightarrow> b)"

definition jitter_ms :: "JitterBuffer \<Rightarrow> fp" where
  "jitter_ms b =
     fp_mul F64
       (fp_div F64 (jitter_estimate b) (fp_of_int F64 (int (unat (jc_clock_rate (config b))))))
       (Fin 1000)"

definition should_start_playout :: "JitterBuffer \<Rightarrow> instant \<Rightarrow> bool" where
  "should_start_playout b now =
    (if packets b = [] then False
     else case base_time b of
       None \<Rightarrow> False
     | Some base \<Rightarrow> now - base \<ge> unat (current_delay_ms b) * 1000000)"

text \<open>\<^verbatim>\<open>u32::clamp\<close>.\<close>

definition clamp32 :: "u32 \<Rightarrow> u32 \<Rightarrow> u32 \<Rightarrow> u32 option" where
  "clamp32 x lo hi = (if lo > hi then None else Some (if x < lo then lo else if x > hi then hi else x))"

definition adapt_delay :: "JitterBuffer \<Rightarrow> JitterBuffer option" where
  "adapt_delay b =
    (case jc_mode (config b) of
       Fixed _ \<Rightarrow> Some b
     | Adaptive _ lo hi \<Rightarrow>
        (let raw = word_of_int (fp_to_int 0 (2 ^ 32 - 1) (fp_mul F64 (jitter_ms b) (Fin 2))) in
         case clamp32 raw lo hi of
           None \<Rightarrow> None
         | Some target \<Rightarrow>
            (let cur = current_delay_ms b;
                 cur' = (if target > cur then sat_add cur (max ((target - cur) div 4) 1)
                         else if target < cur then sat_sub cur (max ((cur - target) div 8) 1)
                         else cur) in
             map_option (\<lambda>d. b\<lparr>current_delay_ms := d\<rparr>) (clamp32 cur' lo hi))))"

definition estimate_timestamp :: "JitterBuffer \<Rightarrow> u32 \<Rightarrow> u32" where
  "estimate_timestamp b extended_seq =
    (let samples_per_frame = jc_clock_rate (config b) div 50;
         base = (case base_timestamp b of None \<Rightarrow> 0 | Some t \<Rightarrow> t);
         seq_offset = extended_seq - (case playout_seq b of None \<Rightarrow> extended_seq | Some p \<Rightarrow> p) in
     base + seq_offset * samples_per_frame)"

section \<open>Pushing\<close>

text \<open>\<^verbatim>\<open>push_at\<close> up to the point where the packet is stored: \<open>Inl\<close> the buffer when the packet is
  dropped as late, \<open>Inr\<close> the buffer and the extended number otherwise.\<close>

definition push_prepare ::
  "JitterBuffer \<Rightarrow> u16 \<Rightarrow> u32 \<Rightarrow> instant \<Rightarrow> JitterBuffer + (JitterBuffer \<times> u32)" where
  "push_prepare b0 seq timestamp now =
    (let b1 = b0\<lparr>jb_stats := (jb_stats b0)\<lparr>js_received := js_received (jb_stats b0) + 1\<rparr>\<rparr>;
         b2 = (if base_timestamp b1 = None
               then b1\<lparr>base_timestamp := Some timestamp, base_time := Some now, last_seq := Some seq\<rparr>
               else b1);
         (extended, b3) = extend_seq b2 seq;
         b4 = update_jitter_at b3 timestamp now in
     case playout_seq b4 of
       None \<Rightarrow> Inr (b4, extended)
     | Some playout \<Rightarrow>
         if extended < playout then
           if playout - extended \<le> discontinuity b4
           then Inl (b4\<lparr>jb_stats := (jb_stats b4)\<lparr>js_dropped := js_dropped (jb_stats b4) + 1\<rparr>\<rparr>)
           else Inr (b4\<lparr>packets := [], playout_seq := None, playing := False, base_time := Some now\<rparr>,
                     extended)
         else Inr (b4, extended))"

definition make_room :: "JitterBuffer \<Rightarrow> JitterBuffer" where
  "make_room b =
    (if length (packets b) \<ge> jc_max_packets (config b) then
      (case bt_first (packets b) of
         None \<Rightarrow> b
       | Some oldest \<Rightarrow>
           b\<lparr>packets := bt_remove oldest (packets b),
             jb_stats := (jb_stats b)\<lparr>js_dropped := js_dropped (jb_stats b) + 1\<rparr>\<rparr>)
     else b)"

definition push_at ::
  "JitterBuffer \<Rightarrow> u16 \<Rightarrow> u32 \<Rightarrow> bytes \<Rightarrow> instant \<Rightarrow> bool \<times> JitterBuffer" where
  "push_at b seq timestamp payload now =
    (case push_prepare b seq timestamp now of
       Inl b' \<Rightarrow> (False, b')
     | Inr (b', extended) \<Rightarrow>
        (let b'' = make_room b' in
         (True, b''\<lparr>packets := bt_insert extended
             \<lparr>bp_seq = seq, bp_timestamp = timestamp, bp_payload = payload,
              bp_received_at = now, bp_synthesized = False\<rparr> (packets b''),
           last_seq := Some seq\<rparr>)))"

section \<open>Popping\<close>

text \<open>Which number to play: \<open>None\<close> when there is nothing to play yet, or nothing behind a
  missing packet.  Starting the playout is kept even when the rest of the call returns
  nothing.\<close>

definition pop_start :: "JitterBuffer \<Rightarrow> instant \<Rightarrow> (u32 \<times> JitterBuffer) option" where
  "pop_start b now =
    (case playout_seq b of
       Some seq \<Rightarrow> Some (seq, b)
     | None \<Rightarrow>
         if \<not> should_start_playout b now then None
         else map_option (\<lambda>first. (first, b\<lparr>playout_seq := Some first, playing := True\<rparr>))
                (bt_first (packets b)))"

definition pop_target :: "JitterBuffer \<Rightarrow> u32 \<Rightarrow> u32 option" where
  "pop_target b target =
    (if bt_get (packets b) target \<noteq> None then Some target
     else case bt_from (packets b) target of
       None \<Rightarrow> None
     | Some nxt \<Rightarrow> Some (if nxt - target > discontinuity b then nxt else target))"

definition pop_play :: "JitterBuffer \<Rightarrow> u32 \<Rightarrow> instant \<Rightarrow> BufferedPacket \<times> JitterBuffer" where
  "pop_play b target now =
    (let (pkt, b1) =
      (case bt_get (packets b) target of
         Some p \<Rightarrow> (p, b\<lparr>packets := bt_remove target (packets b)\<rparr>)
       | None \<Rightarrow>
          (\<lparr>bp_seq = ucast (target AND 0xFFFF), bp_timestamp = estimate_timestamp b target,
            bp_payload = [], bp_received_at = now, bp_synthesized = True\<rparr>,
           b\<lparr>jb_stats := (jb_stats b)\<lparr>js_lost := js_lost (jb_stats b) + 1\<rparr>\<rparr>)) in
     (pkt, b1\<lparr>playout_seq := Some (target + 1),
        jb_stats := (jb_stats b1)\<lparr>js_played := js_played (jb_stats b1) + 1,
          js_depth := length (packets b1), js_delay_ms := current_delay_ms b1,
          js_jitter_ms := jitter_ms b1\<rparr>\<rparr>))"

definition pop_at :: "JitterBuffer \<Rightarrow> instant \<Rightarrow> (BufferedPacket option \<times> JitterBuffer) option" where
  "pop_at b now =
    (case pop_start b now of
       None \<Rightarrow> Some (None, b)
     | Some (target, b1) \<Rightarrow>
        (case pop_target b1 target of
           None \<Rightarrow> Some (None, b1)
         | Some target' \<Rightarrow>
            (let (pkt, b2) = pop_play b1 target' now in
             map_option (\<lambda>b3. (Some pkt, b3)) (adapt_delay b2))))"

section \<open>The remaining operations\<close>

definition peek_next :: "JitterBuffer \<Rightarrow> BufferedPacket option" where
  "peek_next b = (case playout_seq b of None \<Rightarrow> None | Some s \<Rightarrow> bt_get (packets b) s)"

definition buffer_stats :: "JitterBuffer \<Rightarrow> JitterStats" where
  "buffer_stats b = (jb_stats b)\<lparr>js_depth := length (packets b),
     js_delay_ms := current_delay_ms b, js_jitter_ms := jitter_ms b\<rparr>"

definition buffer_reset :: "JitterBuffer \<Rightarrow> JitterBuffer" where
  "buffer_reset b =
     b\<lparr>packets := [], playout_seq := None, seq_cycles := 0, last_seq := None,
       jitter_estimate := Fin 0, last_transit := None, base_timestamp := None,
       base_time := None, playing := False, jb_stats := JitterStats_default,
       current_delay_ms := initial_delay (jc_mode (config b))\<rparr>"

definition buffer_flush :: "JitterBuffer \<Rightarrow> BufferedPacket list \<times> JitterBuffer" where
  "buffer_flush b = (map snd (packets b), b\<lparr>packets := []\<rparr>)"

definition buffer_is_empty :: "JitterBuffer \<Rightarrow> bool" where
  "buffer_is_empty b \<longleftrightarrow> packets b = []"

definition buffer_len :: "JitterBuffer \<Rightarrow> nat" where
  "buffer_len b = length (packets b)"

end
