(* ===== verification/Stream_Core.thy ===== *)
theory Stream_Core
  imports Media_Codecs Stun Rtcp Srtp_Context Jitter_Buffer
begin

text \<open>
  The headless media stream of \<^verbatim>\<open>src/src/stream.rs\<close>: \<^verbatim>\<open>StreamCore\<close>, which does all the packet
  handling without a socket or a clock.  An operation takes the stream and returns its
  result with the stream after it, on the error paths too.  \<open>tab\<close> is the table of codecs,
  \<open>ks\<close> and \<open>mac\<close> the key stream and tag function of SRTP.
\<close>

section \<open>Configuration and events\<close>

type_synonym SocketAddr = "IpAddr \<times> u16"

record SrtpPair =
  inbound :: SrtpContext
  outbound :: SrtpContext

record StreamConfig =
  sc_codec :: CodecType
  sc_payload_type :: u8
  sc_dtmf_payload_type :: "u8 option"
  sc_dtmf_clock_rate :: u32
  sc_remote :: SocketAddr
  sc_jitter :: JitterMode
  sc_max_packets :: nat
  sc_rtp_timeout :: duration
  sc_dtmf_packets :: u16

definition StreamConfig_new :: "CodecType \<Rightarrow> SocketAddr \<Rightarrow> StreamConfig" where
  "StreamConfig_new codec remote =
    \<lparr>sc_codec = codec, sc_payload_type = payload_type codec, sc_dtmf_payload_type = Some 101,
     sc_dtmf_clock_rate = 8000, sc_remote = remote, sc_jitter = Adaptive 40 20 120,
     sc_max_packets = 50, sc_rtp_timeout = 5 * 1000000000, sc_dtmf_packets = 5\<rparr>"

datatype FrameKind = Received | Concealed | Silence

record AudioFrame =
  af_pcm :: pcm
  af_kind :: FrameKind

record DtmfEvent =
  de_digit :: char
  de_event :: u8

datatype StreamEvent = Frame AudioFrame | Dtmf DtmfEvent | Timeout duration

datatype Dropped = Malformed | Unauthenticated | Replayed | UnexpectedSource | OtherPayload

record StreamStats =
  ss_packets_received :: u64
  ss_packets_sent :: u64
  ss_bytes_received :: u64
  ss_bytes_sent :: u64
  ss_dropped_malformed :: u64
  ss_dropped_unauthenticated :: u64
  ss_dropped_replayed :: u64
  ss_dropped_source :: u64
  ss_dropped_payload :: u64
  ss_ssrc_changes :: u64
  ss_latched :: "SocketAddr option"
  ss_jitter :: JitterStats

definition StreamStats_default :: StreamStats where
  "StreamStats_default =
    \<lparr>ss_packets_received = 0, ss_packets_sent = 0, ss_bytes_received = 0, ss_bytes_sent = 0,
     ss_dropped_malformed = 0, ss_dropped_unauthenticated = 0, ss_dropped_replayed = 0,
     ss_dropped_source = 0, ss_dropped_payload = 0, ss_ssrc_changes = 0, ss_latched = None,
     ss_jitter = JitterStats_default\<rparr>"

record DtmfSend =
  ds_event :: u8
  ds_timestamp :: u32
  ds_sent :: u16

definition END_BIT :: u8 where "END_BIT = 0x80"
definition DTMF_VOLUME :: u8 where "DTMF_VOLUME = 0x0A"

definition dtmf_event_code :: "char \<Rightarrow> u8 option" where
  "dtmf_event_code digit =
    (let d = ccode (to_upper_char digit) in
     if ccode (CHR ''0'') \<le> d \<and> d \<le> ccode (CHR ''9'') then Some (word_of_nat (d - ccode (CHR ''0'')))
     else if d = ccode (CHR ''*'') then Some 10
     else if d = ccode (CHR ''#'') then Some 11
     else if ccode (CHR ''A'') \<le> d \<and> d \<le> ccode (CHR ''D'') then Some (word_of_nat (d - ccode (CHR ''A'') + 12))
     else None)"

definition dtmf_digit :: "u8 \<Rightarrow> char option" where
  "dtmf_digit event =
    (if event \<le> 9 then Some (char_of (48 + unat event))
     else if event = 10 then Some (CHR ''*'')
     else if event = 11 then Some (CHR ''#'')
     else if 12 \<le> event \<and> event \<le> 15 then Some (char_of (65 + unat event - 12))
     else None)"

section \<open>State\<close>

record ('e, 'd) StreamCore =
  st_config :: StreamConfig
  st_srtp :: "SrtpPair option"
  st_encoder :: 'e
  st_decoder :: 'd
  st_jitter :: JitterBuffer
  st_stats :: StreamStats
  st_remote_ssrc :: "u32 option"
  st_last_dtmf_timestamp :: "u32 option"
  st_started :: "instant option"
  st_last_packet :: "instant option"
  st_last_timeout :: "instant option"
  st_playing :: bool
  st_ssrc :: u32
  st_seq :: u16
  st_timestamp :: u32
  st_marker :: bool
  st_dtmf :: "u8 list"
  st_dtmf_sending :: "DtmfSend option"

text \<open>The three random numbers are arguments.\<close>

definition StreamCore_new ::
  "('e, 'd) codecs \<Rightarrow> u32 \<Rightarrow> u16 \<Rightarrow> u32 \<Rightarrow> StreamConfig \<Rightarrow> SrtpPair option \<Rightarrow> error + ('e, 'd) StreamCore" where
  "StreamCore_new tab ssrc seq timestamp cfg srtp =
    (if sc_dtmf_payload_type cfg = Some (sc_payload_type cfg) then
       Inl (InvalidParameter ''telephone-event and audio share a payload type'')
     else
      case create_encoder tab (sc_codec cfg) of Inl e \<Rightarrow> Inl e | Inr encoder \<Rightarrow>
      (case create_decoder tab (sc_codec cfg) of Inl e \<Rightarrow> Inl e | Inr decoder \<Rightarrow>
        Inr \<lparr>st_config = cfg, st_srtp = srtp, st_encoder = encoder, st_decoder = decoder,
          st_jitter = JitterBuffer_new \<lparr>jc_mode = sc_jitter cfg,
            jc_clock_rate = word_of_nat (clock_rate (sc_codec cfg)), jc_max_packets = sc_max_packets cfg\<rparr>,
          st_stats = StreamStats_default, st_remote_ssrc = None, st_last_dtmf_timestamp = None,
          st_started = None, st_last_packet = None, st_last_timeout = None, st_playing = False,
          st_ssrc = ssrc, st_seq = seq, st_timestamp = timestamp, st_marker = True,
          st_dtmf = [], st_dtmf_sending = None\<rparr>))"

definition destination :: "('e, 'd) StreamCore \<Rightarrow> SocketAddr" where
  "destination core =
    (case ss_latched (st_stats core) of Some latched \<Rightarrow> latched | None \<Rightarrow> sc_remote (st_config core))"

definition stream_stats :: "('e, 'd) StreamCore \<Rightarrow> StreamStats" where
  "stream_stats core = (st_stats core)\<lparr>ss_jitter := buffer_stats (st_jitter core)\<rparr>"

section \<open>Receiving\<close>

text \<open>The checks before any decryption.\<close>

definition admit_source :: "('e, 'd) StreamCore \<Rightarrow> bytes \<Rightarrow> SocketAddr \<Rightarrow> Dropped option" where
  "admit_source core datagram from_addr =
    (if length datagram < 12 \<or> drop_bit 6 (datagram ! 0) \<noteq> 2 then Some Malformed
     else if 72 \<le> datagram ! 1 AND 0x7F \<and> datagram ! 1 AND 0x7F \<le> 76 then Some OtherPayload
     else case ss_latched (st_stats core) of
       Some latched \<Rightarrow> if latched \<noteq> from_addr then Some UnexpectedSource else None
     | None \<Rightarrow>
         if st_srtp core = None \<and> fst from_addr \<noteq> fst (sc_remote (st_config core))
         then Some UnexpectedSource else None)"

definition admit_open ::
  "keystream \<Rightarrow> hmac \<Rightarrow> ('e, 'd) StreamCore \<Rightarrow> bytes \<Rightarrow> (Dropped + bytes) \<times> ('e, 'd) StreamCore" where
  "admit_open ks mac core datagram =
    (case st_srtp core of
       None \<Rightarrow> (Inr datagram, core)
     | Some srtp \<Rightarrow>
        (let (r, ctx) = unprotect_rtp ks mac (inbound srtp) datagram;
             core' = core\<lparr>st_srtp := Some (srtp\<lparr>inbound := ctx\<rparr>)\<rparr> in
         case r of
           Inr clear \<Rightarrow> (Inr clear, core')
         | Inl SrtpReplay \<Rightarrow> (Inl Replayed, core')
         | Inl _ \<Rightarrow> (Inl Unauthenticated, core')))"

text \<open>The header, the payload without its padding, and whether it is a telephone event.\<close>

definition admit_payload :: "StreamConfig \<Rightarrow> bytes \<Rightarrow> Dropped + (RtpHeader \<times> bytes \<times> bool)" where
  "admit_payload cfg packet =
    (case RtpHeader_parse packet of
       None \<Rightarrow> Inl Malformed
     | Some header \<Rightarrow>
        (let start = header_length header;
             len = length packet;
             pad = (if h_padding header then unat (last packet) else 0) in
         if h_padding header \<and> (pad = 0 \<or> pad > len - start) then Inl Malformed
         else
          case get_range packet start (len - pad) of
            None \<Rightarrow> Inl Malformed
          | Some payload \<Rightarrow>
             (let is_audio = (h_payload_type header = sc_payload_type cfg);
                  is_dtmf = (Some (h_payload_type header) = sc_dtmf_payload_type cfg) in
              if \<not> is_audio \<and> \<not> is_dtmf then Inl OtherPayload
              else if is_dtmf \<and> length payload < 4 then Inl Malformed
              else Inr (header, payload, is_dtmf))))"

text \<open>What a trusted packet does to the stream, whatever it carries.\<close>

definition admit_trust ::
  "('e, 'd) codecs \<Rightarrow> ('e, 'd) StreamCore \<Rightarrow> nat \<Rightarrow> SocketAddr \<Rightarrow> instant \<Rightarrow> RtpHeader \<Rightarrow>
   (Dropped + unit) \<times> ('e, 'd) StreamCore" where
  "admit_trust tab core datagram_len from_addr now header =
    (let core = (if ss_latched (st_stats core) = None
                 then core\<lparr>st_stats := (st_stats core)\<lparr>ss_latched := Some from_addr\<rparr>\<rparr> else core);
         received = (\<lambda>core. core\<lparr>st_remote_ssrc := Some (h_ssrc header), st_last_packet := Some now,
           st_stats := (st_stats core)\<lparr>ss_packets_received := ss_packets_received (st_stats core) + 1,
             ss_bytes_received := ss_bytes_received (st_stats core) + word_of_nat datagram_len\<rparr>\<rparr>) in
     if (case st_remote_ssrc core of None \<Rightarrow> False | Some ssrc \<Rightarrow> ssrc \<noteq> h_ssrc header) then
       (let core = core\<lparr>st_jitter := buffer_reset (st_jitter core)\<rparr> in
        case create_decoder tab (sc_codec (st_config core)) of
          Inl _ \<Rightarrow> (Inl Malformed, core)
        | Inr decoder \<Rightarrow>
            (Inr (), received (core\<lparr>st_decoder := decoder, st_last_dtmf_timestamp := None, st_playing := False,
               st_stats := (st_stats core)\<lparr>ss_ssrc_changes := ss_ssrc_changes (st_stats core) + 1\<rparr>\<rparr>)))
     else (Inr (), received core))"

definition admit_event ::
  "('e, 'd) StreamCore \<Rightarrow> RtpHeader \<Rightarrow> bytes \<Rightarrow> DtmfEvent option \<times> ('e, 'd) StreamCore" where
  "admit_event core header payload =
    (if (case st_last_dtmf_timestamp core of None \<Rightarrow> False | Some lst \<Rightarrow> sint (h_timestamp header - lst) \<le> 0)
     then (None, core)
     else case dtmf_digit (payload ! 0) of
       None \<Rightarrow> (None, core)
     | Some digit \<Rightarrow>
         (Some \<lparr>de_digit = digit, de_event = payload ! 0\<rparr>,
          core\<lparr>st_last_dtmf_timestamp := Some (h_timestamp header)\<rparr>))"

definition admit ::
  "('e, 'd) codecs \<Rightarrow> keystream \<Rightarrow> hmac \<Rightarrow> ('e, 'd) StreamCore \<Rightarrow> bytes \<Rightarrow> SocketAddr \<Rightarrow> instant \<Rightarrow>
   (Dropped + DtmfEvent option) \<times> ('e, 'd) StreamCore" where
  "admit tab ks mac core datagram from_addr now =
    (case admit_source core datagram from_addr of
       Some d \<Rightarrow> (Inl d, core)
     | None \<Rightarrow>
        (case admit_open ks mac core datagram of
           (Inl d, core) \<Rightarrow> (Inl d, core)
         | (Inr packet, core) \<Rightarrow>
            (case admit_payload (st_config core) packet of
               Inl d \<Rightarrow> (Inl d, core)
             | Inr (header, payload, is_dtmf) \<Rightarrow>
                (case admit_trust tab core (length datagram) from_addr now header of
                   (Inl d, core) \<Rightarrow> (Inl d, core)
                 | (Inr _, core) \<Rightarrow>
                    if is_dtmf then
                      (let (event, core) = admit_event core header payload in (Inr event, core))
                    else
                      (Inr None, core\<lparr>st_jitter :=
                         snd (push_at (st_jitter core) (h_sequence header) (h_timestamp header) payload now)\<rparr>)))))"

definition count_drop :: "Dropped \<Rightarrow> StreamStats \<Rightarrow> StreamStats" where
  "count_drop d stats =
    (case d of
       Malformed \<Rightarrow> stats\<lparr>ss_dropped_malformed := ss_dropped_malformed stats + 1\<rparr>
     | Unauthenticated \<Rightarrow> stats\<lparr>ss_dropped_unauthenticated := ss_dropped_unauthenticated stats + 1\<rparr>
     | Replayed \<Rightarrow> stats\<lparr>ss_dropped_replayed := ss_dropped_replayed stats + 1\<rparr>
     | UnexpectedSource \<Rightarrow> stats\<lparr>ss_dropped_source := ss_dropped_source stats + 1\<rparr>
     | OtherPayload \<Rightarrow> stats\<lparr>ss_dropped_payload := ss_dropped_payload stats + 1\<rparr>)"

definition get_or_insert :: "instant option \<Rightarrow> instant \<Rightarrow> instant" where
  "get_or_insert slot now = (case slot of Some t \<Rightarrow> t | None \<Rightarrow> now)"

definition ingest ::
  "('e, 'd) codecs \<Rightarrow> keystream \<Rightarrow> hmac \<Rightarrow> ('e, 'd) StreamCore \<Rightarrow> bytes \<Rightarrow> SocketAddr \<Rightarrow> instant \<Rightarrow>
   (Dropped + DtmfEvent option) \<times> ('e, 'd) StreamCore" where
  "ingest tab ks mac core datagram from_addr now =
    (let core = core\<lparr>st_started := Some (get_or_insert (st_started core) now)\<rparr>;
         (result, core) = admit tab ks mac core datagram from_addr now in
     case result of
       Inl d \<Rightarrow> (Inl d, core\<lparr>st_stats := count_drop d (st_stats core)\<rparr>)
     | Inr _ \<Rightarrow> (result, core))"

section \<open>Playing\<close>

text \<open>\<^verbatim>\<open>Vec::resize(n, 0)\<close>.\<close>

definition resize :: "nat \<Rightarrow> pcm \<Rightarrow> pcm" where
  "resize n xs = take n xs @ replicate (n - length xs) 0"

definition timeout_events :: "('e, 'd) StreamCore \<Rightarrow> instant \<Rightarrow> StreamEvent list \<times> ('e, 'd) StreamCore" where
  "timeout_events core now =
    (let start = get_or_insert (st_started core) now;
         core = core\<lparr>st_started := Some start\<rparr>;
         since = get_or_insert (st_last_packet core) start;
         reported = (case st_last_timeout core of None \<Rightarrow> since | Some t \<Rightarrow> max t since);
         silent_for = now - since in
     if now - reported \<ge> sc_rtp_timeout (st_config core)
     then ([Timeout silent_for], core\<lparr>st_last_timeout := Some now\<rparr>)
     else ([], core))"

definition play_packet ::
  "('e, 'd) codecs \<Rightarrow> ('e, 'd) StreamCore \<Rightarrow> BufferedPacket \<Rightarrow> AudioFrame \<times> ('e, 'd) StreamCore" where
  "play_packet tab core packet =
    (let samples = pcm_samples_per_packet (sc_codec (st_config core)) in
     if bp_payload packet = [] then
       (let (pcm, decoder) = run_conceal tab (st_decoder core) samples
              (map_option bp_payload (peek_next (st_jitter core))) in
        (\<lparr>af_pcm = resize samples pcm, af_kind = Concealed\<rparr>, core\<lparr>st_decoder := decoder\<rparr>))
     else
       (let (pcm, decoder) = run_decoder tab (st_decoder core) (bp_payload packet) in
        (\<lparr>af_pcm = resize samples pcm, af_kind = Received\<rparr>, core\<lparr>st_decoder := decoder\<rparr>)))"

text \<open>\<open>None\<close> is the panic of the jitter buffer's \<^verbatim>\<open>clamp\<close> on a crossed configuration.\<close>

definition playout ::
  "('e, 'd) codecs \<Rightarrow> ('e, 'd) StreamCore \<Rightarrow> instant \<Rightarrow> (StreamEvent list \<times> ('e, 'd) StreamCore) option" where
  "playout tab core now =
    (let (events, core) = timeout_events core now;
         samples = pcm_samples_per_packet (sc_codec (st_config core)) in
     case pop_at (st_jitter core) now of
       None \<Rightarrow> None
     | Some (popped, jitter) \<Rightarrow>
        (let core = core\<lparr>st_jitter := jitter\<rparr> in
         case popped of
           Some packet \<Rightarrow>
             (let (frame, core) = play_packet tab (core\<lparr>st_playing := True\<rparr>) packet in
              Some (events @ [Frame frame], core))
         | None \<Rightarrow>
             if st_playing core
             then Some (events @ [Frame \<lparr>af_pcm = replicate samples 0, af_kind = Silence\<rparr>], core)
             else Some (events, core)))"

section \<open>Sending\<close>

text \<open>The \<^verbatim>\<open>Debug\<close> text of a character.\<close>

definition debug_char :: "char \<Rightarrow> string" where
  "debug_char c =
    (let q = [char_of (39 :: nat)]; b = [char_of (92 :: nat)]; n = ccode c in
     q @
     (if n = 0 then b @ ''0'' else if n = 9 then b @ ''t'' else if n = 10 then b @ ''n''
      else if n = 13 then b @ ''r'' else if n = 39 then b @ q else if n = 92 then b @ b
      else if n < 16 then b @ ''u{'' @ [digit_char n] @ ''}''
      else if n < 32 \<or> n = 127 then b @ ''u{'' @ [digit_char (n div 16), digit_char (n mod 16)] @ ''}''
      else [c]) @ q)"

definition queue_dtmf :: "('e, 'd) StreamCore \<Rightarrow> char \<Rightarrow> (error + unit) \<times> ('e, 'd) StreamCore" where
  "queue_dtmf core digit =
    (case dtmf_event_code digit of
       None \<Rightarrow> (Inl (InvalidParameter (''not a DTMF digit: '' @ debug_char digit)), core)
     | Some event \<Rightarrow>
         if sc_dtmf_payload_type (st_config core) = None then
           (Inl (InvalidParameter ''no telephone-event payload type was negotiated''), core)
         else (Inr (), core\<lparr>st_dtmf := st_dtmf core @ [event]\<rparr>))"

definition dtmf_timestamp :: "('e, 'd) StreamCore \<Rightarrow> u32" where
  "dtmf_timestamp core =
    (let audio = clock_rate (sc_codec (st_config core));
         event = unat (sc_dtmf_clock_rate (st_config core)) in
     if audio = event \<or> audio = 0 then st_timestamp core
     else word_of_nat (unat (st_timestamp core) * event div audio))"

definition finish ::
  "keystream \<Rightarrow> hmac \<Rightarrow> ('e, 'd) StreamCore \<Rightarrow> RtpHeader \<Rightarrow> bytes \<Rightarrow> (error + bytes) \<times> ('e, 'd) StreamCore" where
  "finish ks mac core header payload =
    (let packet = RtpHeader_to_bytes header @ payload;
         core = core\<lparr>st_seq := st_seq core + 1\<rparr>;
         (result, core) = (case st_srtp core of
            None \<Rightarrow> (Inr packet, core)
          | Some srtp \<Rightarrow>
              (let (r, ctx) = protect_rtp ks mac (outbound srtp) packet in
               (r, core\<lparr>st_srtp := Some (srtp\<lparr>outbound := ctx\<rparr>)\<rparr>))) in
     case result of
       Inl e \<Rightarrow> (Inl e, core)
     | Inr packet \<Rightarrow>
         (Inr packet, core\<lparr>st_stats := (st_stats core)\<lparr>ss_packets_sent := ss_packets_sent (st_stats core) + 1,
            ss_bytes_sent := ss_bytes_sent (st_stats core) + word_of_nat (length packet)\<rparr>\<rparr>))"

text \<open>The packet of a telephone event, \<open>n\<close> times with consecutive sequence numbers.\<close>

fun finish_events ::
  "keystream \<Rightarrow> hmac \<Rightarrow> ('e, 'd) StreamCore \<Rightarrow> nat \<Rightarrow> u8 \<Rightarrow> DtmfSend \<Rightarrow> bytes \<Rightarrow>
   (error + bytes list) \<times> ('e, 'd) StreamCore" where
  "finish_events ks mac core 0 pt send payload = (Inr [], core)"
| "finish_events ks mac core (Suc n) pt send payload =
    (let header = RtpHeader_new pt (st_seq core) (ds_timestamp send) (st_ssrc core);
         header = (if ds_sent send = 1 then with_marker header else header) in
     case finish ks mac core header payload of
       (Inl e, core) \<Rightarrow> (Inl e, core)
     | (Inr datagram, core) \<Rightarrow>
        (case finish_events ks mac core n pt send payload of
           (Inl e, core) \<Rightarrow> (Inl e, core)
         | (Inr rest, core) \<Rightarrow> (Inr (datagram # rest), core)))"

definition event_payload :: "StreamConfig \<Rightarrow> DtmfSend \<Rightarrow> bool \<Rightarrow> bytes" where
  "event_payload cfg send is_end =
    (let per_packet = sc_dtmf_clock_rate cfg * word_of_nat PACKET_DURATION_MS div 1000;
         duration = ucast (min (ucast (ds_sent send) * per_packet) 0xFFFF) :: u16 in
     [ds_event send, if is_end then END_BIT OR DTMF_VOLUME else DTMF_VOLUME] @ be16 duration)"

definition start_digit :: "('e, 'd) StreamCore \<Rightarrow> ('e, 'd) StreamCore" where
  "start_digit core =
    (case st_dtmf core of
       event # rest \<Rightarrow>
         if st_dtmf_sending core = None
         then core\<lparr>st_dtmf := rest,
           st_dtmf_sending := Some \<lparr>ds_event = event, ds_timestamp = dtmf_timestamp core, ds_sent = 0\<rparr>\<rparr>
         else core
     | [] \<Rightarrow> core)"

definition packetize_event ::
  "keystream \<Rightarrow> hmac \<Rightarrow> ('e, 'd) StreamCore \<Rightarrow> DtmfSend \<Rightarrow> u8 \<Rightarrow> (error + bytes list) \<times> ('e, 'd) StreamCore" where
  "packetize_event ks mac core send pt =
    (let send = send\<lparr>ds_sent := ds_sent send + 1\<rparr>;
         is_end = (ds_sent send \<ge> max (sc_dtmf_packets (st_config core)) 1);
         payload = event_payload (st_config core) send is_end in
     case finish_events ks mac core (if is_end then 3 else 1) pt send payload of
       (Inl e, core) \<Rightarrow> (Inl e, core)
     | (Inr datagrams, core) \<Rightarrow>
         (Inr datagrams, core\<lparr>st_dtmf_sending := (if is_end then None else Some send), st_marker := True\<rparr>))"

definition packetize_audio ::
  "('e, 'd) codecs \<Rightarrow> keystream \<Rightarrow> hmac \<Rightarrow> ('e, 'd) StreamCore \<Rightarrow> pcm \<Rightarrow>
   (error + bytes list) \<times> ('e, 'd) StreamCore" where
  "packetize_audio tab ks mac core pcm =
    (let (payload, encoder) = run_encoder tab (st_encoder core) pcm;
         core = core\<lparr>st_encoder := encoder\<rparr>;
         header = RtpHeader_new (sc_payload_type (st_config core)) (st_seq core) (st_timestamp core) (st_ssrc core);
         header = (if st_marker core then with_marker header else header);
         core = core\<lparr>st_marker := False\<rparr> in
     case finish ks mac core header payload of
       (Inl e, core) \<Rightarrow> (Inl e, core)
     | (Inr datagram, core) \<Rightarrow> (Inr [datagram], core))"

definition packetize ::
  "('e, 'd) codecs \<Rightarrow> keystream \<Rightarrow> hmac \<Rightarrow> ('e, 'd) StreamCore \<Rightarrow> pcm \<Rightarrow>
   (error + bytes list) \<times> ('e, 'd) StreamCore" where
  "packetize tab ks mac core pcm =
    (let codec = sc_codec (st_config core);
         samples = pcm_samples_per_packet codec in
     if length pcm \<noteq> samples then
       (Inl (InvalidParameter (''a frame is '' @ show_nat samples @ '' samples for '' @ codec_type_name codec @
          '', got '' @ show_nat (length pcm))), core)
     else
      (let core = start_digit core in
       case (case (st_dtmf_sending core, sc_dtmf_payload_type (st_config core)) of
               (Some send, Some pt) \<Rightarrow> packetize_event ks mac core send pt
             | _ \<Rightarrow> packetize_audio tab ks mac core pcm) of
         (Inl e, core) \<Rightarrow> (Inl e, core)
       | (Inr datagrams, core) \<Rightarrow>
           (Inr datagrams, core\<lparr>st_timestamp := st_timestamp core + word_of_nat (rtp_ticks_per_packet codec)\<rparr>)))"

text \<open>\<open>now\<close> is the system clock.\<close>

definition sender_report ::
  "keystream \<Rightarrow> hmac \<Rightarrow> ('e, 'd) StreamCore \<Rightarrow> nat \<Rightarrow> (error + bytes) \<times> ('e, 'd) StreamCore" where
  "sender_report ks mac core now =
    (let report = build_rtcp_sr now (st_ssrc core) (ucast (ss_packets_sent (st_stats core)))
           (ucast (ss_bytes_sent (st_stats core))) (st_timestamp core) in
     case st_srtp core of
       None \<Rightarrow> (Inr report, core)
     | Some srtp \<Rightarrow>
        (let (r, ctx) = protect_rtcp ks mac (outbound srtp) report in
         (r, core\<lparr>st_srtp := Some (srtp\<lparr>outbound := ctx\<rparr>)\<rparr>)))"

section \<open>The stream over its socket\<close>

definition RTCP_DRAIN_LIMIT :: nat where "RTCP_DRAIN_LIMIT = 64"

definition is_transient :: "io_error_kind \<Rightarrow> bool" where
  "is_transient k \<longleftrightarrow> k = ConnectionReset \<or> k = ConnectionRefused"

text \<open>\<^verbatim>\<open>recv_frame\<close> waits for the socket or the 20 ms tick; the sequence of what it wakes up for,
  with the time of each, is an argument.  It returns an event or the error, with the queue of
  pending events, or \<open>None\<close> in the place of both when the sequence is used up.\<close>

datatype wakeup = Datagram bytes SocketAddr instant | RecvError io_error_kind | Tick instant

fun recv_frame ::
  "('e, 'd) codecs \<Rightarrow> keystream \<Rightarrow> hmac \<Rightarrow> ('e, 'd) StreamCore \<Rightarrow> StreamEvent list \<Rightarrow> wakeup list \<Rightarrow>
   ((error + StreamEvent) option \<times> ('e, 'd) StreamCore \<times> StreamEvent list \<times> wakeup list) option" where
  "recv_frame tab ks mac core (event # pending) ws = Some (Some (Inr event), core, pending, ws)"
| "recv_frame tab ks mac core [] [] = Some (None, core, [], [])"
| "recv_frame tab ks mac core [] (Datagram datagram from_addr now # ws) =
    (case ingest tab ks mac core datagram from_addr now of
       (Inr (Some digit), core) \<Rightarrow> Some (Some (Inr (Dtmf digit)), core, [], ws)
     | (_, core) \<Rightarrow> recv_frame tab ks mac core [] ws)"
| "recv_frame tab ks mac core [] (RecvError k # ws) =
    (if is_transient k then recv_frame tab ks mac core [] ws
     else Some (Some (Inl (Network k)), core, [], ws))"
| "recv_frame tab ks mac core [] (Tick now # ws) =
    (case playout tab core now of
       None \<Rightarrow> None
     | Some (events, core) \<Rightarrow> recv_frame tab ks mac core events ws)"

text \<open>\<^verbatim>\<open>rtcp_tick\<close>'s destination: the RTP destination's next port, which wraps.\<close>

definition rtcp_destination :: "('e, 'd) StreamCore \<Rightarrow> SocketAddr" where
  "rtcp_destination core = (fst (destination core), snd (destination core) + 1)"

text \<open>Sending: \<open>send_to\<close> is the socket, which answers with an error or nothing; the first error stops
  the rest of the datagrams, with the stream already past all of them.\<close>

fun send_all :: "(bytes \<Rightarrow> SocketAddr \<Rightarrow> io_error_kind option) \<Rightarrow> SocketAddr \<Rightarrow> bytes list \<Rightarrow> error + unit" where
  "send_all send_to addr [] = Inr ()"
| "send_all send_to addr (datagram # rest) =
    (case send_to datagram addr of Some k \<Rightarrow> Inl (Network k) | None \<Rightarrow> send_all send_to addr rest)"

definition send_frame ::
  "('e, 'd) codecs \<Rightarrow> keystream \<Rightarrow> hmac \<Rightarrow> (bytes \<Rightarrow> SocketAddr \<Rightarrow> io_error_kind option) \<Rightarrow>
   ('e, 'd) StreamCore \<Rightarrow> pcm \<Rightarrow> (error + unit) \<times> ('e, 'd) StreamCore" where
  "send_frame tab ks mac send_to core pcm =
    (case packetize tab ks mac core pcm of
       (Inl e, core') \<Rightarrow> (Inl e, core')
     | (Inr datagrams, core') \<Rightarrow> (send_all send_to (destination core) datagrams, core'))"

text \<open>\<^verbatim>\<open>rtcp_tick\<close> of a stream with an RTCP socket; what it discards of the packets that arrived there
  does not reach the stream.\<close>

definition rtcp_tick ::
  "keystream \<Rightarrow> hmac \<Rightarrow> (bytes \<Rightarrow> SocketAddr \<Rightarrow> io_error_kind option) \<Rightarrow> bool \<Rightarrow> ('e, 'd) StreamCore \<Rightarrow> nat \<Rightarrow>
   (error + unit) \<times> ('e, 'd) StreamCore" where
  "rtcp_tick ks mac send_to has_rtcp core now =
    (if \<not> has_rtcp then (Inr (), core)
     else case sender_report ks mac core now of
       (Inl e, core') \<Rightarrow> (Inl e, core')
     | (Inr report, core') \<Rightarrow>
        (case send_to report (rtcp_destination core) of
           Some k \<Rightarrow> if is_transient k then (Inr (), core') else (Inl (Network k), core')
         | None \<Rightarrow> (Inr (), core')))"

end
