(* ===== verification/Jitter_Properties.thy ===== *)
theory Jitter_Properties
  imports Jitter_Buffer
begin

text \<open>
  What the jitter buffer of \<^verbatim>\<open>src/src/jitter.rs\<close> guarantees over any sequence of operations:
  the bound on its size, the order of playout, the bounds of the adaptive delay, the
  recovery of reordered packets, and where it falls short.
\<close>

section \<open>Operations as steps\<close>

datatype jb_op =
    Push u16 u32 bytes instant
  | Pop instant
  | Flush
  | Reset

text \<open>\<open>None\<close> is the panic of \<^verbatim>\<open>clamp\<close>.\<close>

fun jb_step :: "JitterBuffer \<Rightarrow> jb_op \<Rightarrow> JitterBuffer option" where
  "jb_step b (Push seq ts payload now) = Some (snd (push_at b seq ts payload now))"
| "jb_step b (Pop now) = map_option snd (pop_at b now)"
| "jb_step b Flush = Some (snd (buffer_flush b))"
| "jb_step b Reset = Some (buffer_reset b)"

inductive jb_reach :: "JitterConfig \<Rightarrow> JitterBuffer \<Rightarrow> bool" for cfg where
  jb_start: "jb_reach cfg (JitterBuffer_new cfg)"
| jb_op: "jb_reach cfg b \<Longrightarrow> jb_step b op = Some b' \<Longrightarrow> jb_reach cfg b'"

inductive_cases jb_reachE: "jb_reach cfg b"

section \<open>The invariant\<close>

definition entry_ok :: "u32 \<times> BufferedPacket \<Rightarrow> bool" where
  "entry_ok x \<longleftrightarrow> bp_seq (snd x) = ucast (fst x) \<and> \<not> bp_synthesized (snd x)"

definition delay_ok :: "JitterMode \<Rightarrow> u32 \<Rightarrow> bool" where
  "delay_ok m d \<longleftrightarrow>
    (case m of Fixed e \<Rightarrow> d = e | Adaptive t lo hi \<Rightarrow> d = t \<or> (lo \<le> d \<and> d \<le> hi))"

definition jb_inv :: "JitterConfig \<Rightarrow> JitterBuffer \<Rightarrow> bool" where
  "jb_inv cfg b \<longleftrightarrow> config b = cfg \<and> bt_inv (packets b) \<and>
     length (packets b) \<le> max 1 (jc_max_packets cfg) \<and>
     (\<forall>p. playout_seq b = Some p \<longrightarrow> (\<forall>k\<in>bt_keys (packets b). p \<le> k)) \<and>
     (\<forall>x\<in>set (packets b). entry_ok x) \<and>
     delay_ok (jc_mode cfg) (current_delay_ms b)"

lemma jb_inv_new [invs]: "jb_inv cfg (JitterBuffer_new cfg)"
  by (auto simp: jb_inv_def JitterBuffer_new_def bt_inv_def delay_ok_def initial_delay_def
      split: JitterMode.split)

lemma update_jitter_at_fields [simp]:
  "config (update_jitter_at b ts now) = config b"
  "packets (update_jitter_at b ts now) = packets b"
  "playout_seq (update_jitter_at b ts now) = playout_seq b"
  "current_delay_ms (update_jitter_at b ts now) = current_delay_ms b"
  "seq_cycles (update_jitter_at b ts now) = seq_cycles b"
  "last_seq (update_jitter_at b ts now) = last_seq b"
  "base_time (update_jitter_at b ts now) = base_time b"
  "base_timestamp (update_jitter_at b ts now) = base_timestamp b"
  "jb_stats (update_jitter_at b ts now) = jb_stats b"
  "playing (update_jitter_at b ts now) = playing b"
  by (auto simp: update_jitter_at_def Let_def split: option.split)

lemma extend_seq_fields [simp]:
  "config (snd (extend_seq b s)) = config b"
  "packets (snd (extend_seq b s)) = packets b"
  "playout_seq (snd (extend_seq b s)) = playout_seq b"
  "current_delay_ms (snd (extend_seq b s)) = current_delay_ms b"
  "last_seq (snd (extend_seq b s)) = last_seq b"
  "base_time (snd (extend_seq b s)) = base_time b"
  "base_timestamp (snd (extend_seq b s)) = base_timestamp b"
  "jb_stats (snd (extend_seq b s)) = jb_stats b"
  by (auto simp: extend_seq_def Let_def split: option.split)

lemma ucast_extend [simp]: "ucast (push_bit 16 (ucast (c :: u16)) OR ucast s :: u32) = (s :: u16)"
  by (rule bit_word_eqI) (auto simp: bit_simps)

lemma ucast_extended [simp]: "ucast (fst (extend_seq b s)) = s"
  by (simp add: extend_seq_def Let_def)

lemma make_room_put:
  "make_room b = b\<lparr>packets := packets (make_room b), jb_stats := jb_stats (make_room b)\<rparr>"
  "bt_insert k v (packets (make_room b)) =
     bt.put_bounded (jc_max_packets (config b)) k v (packets b)"
  by (auto simp: make_room_def bt.put_bounded_def split: option.splits)

lemma make_room_fields [simp]:
  "config (make_room b) = config b" "playout_seq (make_room b) = playout_seq b"
  "current_delay_ms (make_room b) = current_delay_ms b" "seq_cycles (make_room b) = seq_cycles b"
  "base_time (make_room b) = base_time b" "base_timestamp (make_room b) = base_timestamp b"
  by (auto simp: make_room_def split: option.split)

lemma put_bounded_set:
  "set (bt.put_bounded n k v m) \<subseteq> insert (k, v) (set m)"
proof -
  have ins: "set (bt_insert k v m) \<subseteq> insert (k, v) (set m)" for m :: "('k::linorder, 'v) btree" and k v
    by (induction k v m rule: bt_insert.induct) auto
  show ?thesis
  proof
    fix x assume "x \<in> set (bt.put_bounded n k v m)"
    then show "x \<in> insert (k, v) (set m)"
      using ins [of k v m] by (auto simp: bt.put_bounded_def bt_remove_def dest!: ins [THEN subsetD] split: if_splits option.splits)
  qed
qed

text \<open>The buffer a packet is stored into: nothing is behind the playout, and the packet is not.\<close>

lemma push_prepare_Inr:
  assumes inv: "jb_inv cfg b" and p: "push_prepare b seq ts now = Inr (b', k)"
  shows "jb_inv cfg b' \<and> ucast k = seq \<and> (\<forall>p. playout_seq b' = Some p \<longrightarrow> p \<le> k)"
proof -
  obtain k' b3 where e: "extend_seq (if base_timestamp b = None
      then b\<lparr>jb_stats := (jb_stats b)\<lparr>js_received := js_received (jb_stats b) + 1\<rparr>,
        base_timestamp := Some ts, base_time := Some now, last_seq := Some seq\<rparr>
      else b\<lparr>jb_stats := (jb_stats b)\<lparr>js_received := js_received (jb_stats b) + 1\<rparr>\<rparr>) seq = (k', b3)"
    by fastforce
  note f = extend_seq_fields [of "if base_timestamp b = None
      then b\<lparr>jb_stats := (jb_stats b)\<lparr>js_received := js_received (jb_stats b) + 1\<rparr>,
        base_timestamp := Some ts, base_time := Some now, last_seq := Some seq\<rparr>
      else b\<lparr>jb_stats := (jb_stats b)\<lparr>js_received := js_received (jb_stats b) + 1\<rparr>\<rparr>" seq, unfolded e]
  have k': "ucast k' = seq" using ucast_extended [of _ seq] e by (metis fst_conv)
  have same: "config b3 = config b" "packets b3 = packets b" "playout_seq b3 = playout_seq b"
    "current_delay_ms b3 = current_delay_ms b"
    using f by (simp_all split: if_splits)
  show ?thesis
    using p inv k' same
    by (auto simp: push_prepare_def Let_def e jb_inv_def not_less
        split: option.splits if_splits)
qed

lemma push_prepare_Inl:
  assumes inv: "jb_inv cfg b" and p: "push_prepare b seq ts now = Inl b'"
  shows "jb_inv cfg b'"
  using p inv
  by (auto simp: push_prepare_def Let_def jb_inv_def case_prod_unfold split: option.splits if_splits)

lemma jb_inv_push [invs]:
  assumes inv: "jb_inv cfg b"
  shows "jb_inv cfg (snd (push_at b seq ts payload now))"
proof (cases "push_prepare b seq ts now")
  case (Inl b')
  with push_prepare_Inl [OF inv Inl] show ?thesis by (simp add: push_at_def)
next
  case (Inr x)
  obtain b' k where x: "x = (b', k)" by fastforce
  note pr = push_prepare_Inr [OF inv Inr [unfolded x]]
  let ?v = "\<lparr>bp_seq = seq, bp_timestamp = ts, bp_payload = payload, bp_received_at = now,
    bp_synthesized = False\<rparr>"
  let ?m = "bt.put_bounded (jc_max_packets (config b')) k ?v (packets b')"
  have i: "bt_inv (packets b')" "config b' = cfg" "length (packets b') \<le> max 1 (jc_max_packets cfg)"
    using pr by (simp_all add: jb_inv_def)
  have "bt_inv ?m" by (rule bt.put_bounded_inv [OF i(1)])
  moreover have "length ?m \<le> max 1 (jc_max_packets cfg)"
    using bt.put_bounded_size [OF i(1), of "jc_max_packets cfg"] i(2,3) by simp
  moreover have "\<forall>y\<in>set ?m. entry_ok y"
    using put_bounded_set [of "jc_max_packets (config b')" k ?v "packets b'"] pr
    by (auto simp: jb_inv_def entry_ok_def)
  moreover have "\<forall>j\<in>bt_keys ?m. p \<le> j" if "playout_seq b' = Some p" for p
    using put_bounded_set [of "jc_max_packets (config b')" k ?v "packets b'"] pr that
    by (auto simp: jb_inv_def bt_keys_def)
  ultimately show ?thesis
    using pr by (simp add: push_at_def Inr x Let_def make_room_put(2) jb_inv_def)
qed

section \<open>Popping keeps the invariant\<close>

lemma pop_start_inv:
  assumes inv: "jb_inv cfg b" and p: "pop_start b now = Some (t, b1)"
  shows "jb_inv cfg b1 \<and> playout_seq b1 = Some t \<and> packets b1 = packets b \<and>
    base_timestamp b1 = base_timestamp b \<and> jb_stats b1 = jb_stats b \<and> config b1 = config b \<and>
    current_delay_ms b1 = current_delay_ms b"
proof (cases "playout_seq b")
  case (Some s)
  with p inv show ?thesis by (simp add: pop_start_def)
next
  case None
  with p have f: "bt_first (packets b) = Some t" "b1 = b\<lparr>playout_seq := Some t, playing := True\<rparr>"
    by (auto simp: pop_start_def split: if_splits)
  have "bt_inv (packets b)" using inv by (simp add: jb_inv_def)
  with f(1) have "\<forall>k\<in>bt_keys (packets b). t \<le> k" by (simp add: bt_first_min)
  with f(2) inv show ?thesis by (simp add: jb_inv_def)
qed

text \<open>The number that is played is at or after the one due; every buffered number before it
  would have been played, so what remains is behind it.\<close>

lemma pop_target_spec:
  assumes inv: "jb_inv cfg b" and t: "playout_seq b = Some t" and p: "pop_target b t = Some t'"
  shows "t \<le> t'" "\<forall>k\<in>bt_keys (packets b). t' \<le> k"
    and "t' \<noteq> t \<Longrightarrow> t' \<in> bt_keys (packets b) \<and> t' - t > discontinuity b"
proof -
  have i: "bt_inv (packets b)" "\<forall>k\<in>bt_keys (packets b). t \<le> k"
    using inv t by (simp_all add: jb_inv_def)
  have "t \<le> t' \<and> (\<forall>k\<in>bt_keys (packets b). t' \<le> k) \<and>
    (t' \<noteq> t \<longrightarrow> t' \<in> bt_keys (packets b) \<and> t' - t > discontinuity b)"
    using p i by (auto simp: pop_target_def bt_from_Some [OF i(1)] split: if_splits option.splits)
  then show "t \<le> t'" "\<forall>k\<in>bt_keys (packets b). t' \<le> k"
    "t' \<noteq> t \<Longrightarrow> t' \<in> bt_keys (packets b) \<and> t' - t > discontinuity b" by blast+
qed

lemma pop_play_fields:
  "playout_seq (snd (pop_play b t now)) = Some (t + 1)"
  "packets (snd (pop_play b t now)) = bt_remove t (packets b)"
  "config (snd (pop_play b t now)) = config b"
  "current_delay_ms (snd (pop_play b t now)) = current_delay_ms b"
  "base_timestamp (snd (pop_play b t now)) = base_timestamp b"
proof -
  have "bt_remove t (packets b) = packets b" if "bt_get (packets b) t = None"
    using that by (auto simp: bt_remove_def bt_get_None bt_keys_def filter_id_conv)
  then show "playout_seq (snd (pop_play b t now)) = Some (t + 1)"
    "packets (snd (pop_play b t now)) = bt_remove t (packets b)"
    "config (snd (pop_play b t now)) = config b"
    "current_delay_ms (snd (pop_play b t now)) = current_delay_ms b"
    "base_timestamp (snd (pop_play b t now)) = base_timestamp b"
    by (auto simp: pop_play_def Let_def split: option.split)
qed

lemma pop_play_packet:
  "fst (pop_play b t now) =
    (case bt_get (packets b) t of
       Some p \<Rightarrow> p
     | None \<Rightarrow> \<lparr>bp_seq = ucast (t AND 0xFFFF), bp_timestamp = estimate_timestamp b t,
         bp_payload = [], bp_received_at = now, bp_synthesized = True\<rparr>)"
  by (simp add: pop_play_def Let_def split: option.split)

lemma succ_le_keys:
  assumes "\<forall>k\<in>K. t \<le> k" "t \<notin> K"
  shows "\<forall>k\<in>K. t + 1 \<le> (k :: u32)"
proof
  fix k assume "k \<in> K"
  with assms have "t < k" by (metis order_le_less)
  then show "t + 1 \<le> k" by (rule inc_le)
qed

lemma length_remove: "length (bt_remove k xs) \<le> length xs"
  by (simp add: bt_remove_def)

lemma jb_inv_pop_play:
  assumes inv: "jb_inv cfg b" and t: "\<forall>k\<in>bt_keys (packets b). t \<le> k"
  shows "jb_inv cfg (snd (pop_play b t now))"
proof -
  have "\<forall>k\<in>bt_keys (bt_remove t (packets b)). t + 1 \<le> k"
    using t by (intro succ_le_keys) (auto simp: bt_remove_keys)
  moreover have "set (bt_remove t (packets b)) \<subseteq> set (packets b)" by (auto simp: bt_remove_def)
  ultimately show ?thesis
    using inv order_trans [OF length_remove [of t "packets b"]]
    by (auto simp: jb_inv_def pop_play_fields bt_remove_inv)
qed

lemma clamp32_bounds: "clamp32 x lo hi = Some y \<Longrightarrow> lo \<le> y \<and> y \<le> hi"
  by (auto simp: clamp32_def split: if_splits)

lemma clamp32_some: "lo \<le> hi \<Longrightarrow> clamp32 x lo hi \<noteq> None"
  by (simp add: clamp32_def)

lemma adapt_delay_spec:
  assumes "adapt_delay b = Some b'"
  shows "b' = b\<lparr>current_delay_ms := current_delay_ms b'\<rparr> \<and>
    (case jc_mode (config b) of
       Fixed _ \<Rightarrow> b' = b
     | Adaptive _ lo hi \<Rightarrow> lo \<le> current_delay_ms b' \<and> current_delay_ms b' \<le> hi)"
  using assms
  by (cases "jc_mode (config b)")
     (auto simp: adapt_delay_def Let_def dest: clamp32_bounds split: option.splits)

lemma jb_inv_adapt: "jb_inv cfg b \<Longrightarrow> adapt_delay b = Some b' \<Longrightarrow> jb_inv cfg b'"
proof -
  assume inv: "jb_inv cfg b" and a: "adapt_delay b = Some b'"
  note s = adapt_delay_spec [OF a]
  then have eq: "b' = b\<lparr>current_delay_ms := current_delay_ms b'\<rparr>" by blast
  have "delay_ok (jc_mode cfg) (current_delay_ms b')"
    using s inv by (auto simp: jb_inv_def delay_ok_def split: JitterMode.splits)
  with inv show ?thesis by (subst eq) (simp add: jb_inv_def)
qed

text \<open>The shape of a pop.\<close>

lemma pop_at_cases:
  assumes "pop_at b now = Some (r, b')"
  obtains (waiting) "pop_start b now = None" "r = None" "b' = b"
  | (paused) t where "pop_start b now = Some (t, b')" "pop_target b' t = None" "r = None"
  | (played) t b1 t' where "pop_start b now = Some (t, b1)" "pop_target b1 t = Some t'"
      "r = Some (fst (pop_play b1 t' now))" "adapt_delay (snd (pop_play b1 t' now)) = Some b'"
proof (cases "pop_start b now")
  case None
  with assms have "r = None" "b' = b" by (simp_all add: pop_at_def)
  with None show ?thesis by (rule waiting)
next
  case (Some x)
  obtain t b1 where x: "x = (t, b1)" by fastforce
  show ?thesis
  proof (cases "pop_target b1 t")
    case None
    with assms Some x have "r = None" "b' = b1" by (simp_all add: pop_at_def)
    with None Some x show ?thesis by (auto intro: paused)
  next
    case (Some t')
    with assms \<open>pop_start b now = Some x\<close> x
    have "map_option (\<lambda>b3. (Some (fst (pop_play b1 t' now)), b3)) (adapt_delay (snd (pop_play b1 t' now))) =
        Some (r, b')"
      by (simp add: pop_at_def Let_def case_prod_unfold)
    then have "adapt_delay (snd (pop_play b1 t' now)) = Some b'" "r = Some (fst (pop_play b1 t' now))"
      by (auto simp: map_option_case split: option.splits)
    with played \<open>pop_start b now = Some x\<close> x Some show ?thesis by blast
  qed
qed

lemma jb_inv_pop [invs]:
  assumes inv: "jb_inv cfg b" and p: "pop_at b now = Some (r, b')"
  shows "jb_inv cfg b'"
  using p
proof (cases rule: pop_at_cases)
  case waiting
  with inv show ?thesis by simp
next
  case (paused t)
  with pop_start_inv [OF inv] show ?thesis by blast
next
  case (played t b1 t')
  note s = pop_start_inv [OF inv played(1)]
  then have "\<forall>k\<in>bt_keys (packets b1). t' \<le> k"
    using pop_target_spec(2) [OF _ _ played(2)] by blast
  with s have "jb_inv cfg (snd (pop_play b1 t' now))" by (intro jb_inv_pop_play) simp_all
  from this played(4) show ?thesis by (rule jb_inv_adapt)
qed

lemma jb_inv_step [invs]:
  assumes inv: "jb_inv cfg b" and s: "jb_step b op = Some b'"
  shows "jb_inv cfg b'"
proof (cases op)
  case (Push seq ts payload now)
  with s inv jb_inv_push show ?thesis by auto
next
  case (Pop now)
  with s obtain r where "pop_at b now = Some (r, b')" by (auto simp: map_option_case split: option.splits)
  with jb_inv_pop [OF inv] show ?thesis by blast
next
  case Flush
  with s inv show ?thesis by (auto simp: buffer_flush_def jb_inv_def)
next
  case Reset
  with s inv show ?thesis
    by (auto simp: buffer_reset_def jb_inv_def delay_ok_def initial_delay_def split: JitterMode.split)
qed

lemma jb_reach_inv: "jb_reach cfg b \<Longrightarrow> jb_inv cfg b"
  by (induction rule: jb_reach.induct) (auto intro: invs)

section \<open>Reordered packets\<close>

text \<open>A packet on its way: its number (of which the header carries the low 16 bits), timestamp,
  payload and arrival time.\<close>

type_synonym arrival = "nat \<times> u32 \<times> bytes \<times> instant"

fun push_all :: "JitterBuffer \<Rightarrow> arrival list \<Rightarrow> JitterBuffer" where
  "push_all b [] = b"
| "push_all b ((e, ts, payload, now) # ps) =
     push_all (snd (push_at b (word_of_nat e) ts payload now)) ps"

fun pop_n :: "nat \<Rightarrow> JitterBuffer \<Rightarrow> instant \<Rightarrow> (BufferedPacket option list \<times> JitterBuffer) option" where
  "pop_n 0 b now = Some ([], b)"
| "pop_n (Suc n) b now =
    (case pop_at b now of
       None \<Rightarrow> None
     | Some (r, b') \<Rightarrow> map_option (\<lambda>(rs, b''). (r # rs, b'')) (pop_n n b' now))"

definition buffered :: "arrival \<Rightarrow> BufferedPacket" where
  "buffered a = (case a of (e, ts, payload, now) \<Rightarrow>
     \<lparr>bp_seq = word_of_nat e, bp_timestamp = ts, bp_payload = payload, bp_received_at = now,
      bp_synthesized = False\<rparr>)"

text \<open>The buffer while packets are collected, before playout: \<open>l\<close> is the last number pushed.\<close>

definition collecting :: "JitterConfig \<Rightarrow> instant \<Rightarrow> nat \<Rightarrow> arrival list \<Rightarrow> JitterBuffer \<Rightarrow> bool" where
  "collecting cfg t0 l as b \<longleftrightarrow> config b = cfg \<and> playout_seq b = None \<and> base_time b = Some t0 \<and>
     base_timestamp b \<noteq> None \<and> last_seq b = Some (word_of_nat l) \<and>
     seq_cycles b = word_of_nat (l div 65536) \<and> l < 4294967296 \<and>
     current_delay_ms b = initial_delay (jc_mode cfg) \<and> bt_inv (packets b) \<and>
     length (packets b) = length as \<and>
     bt_keys (packets b) = (\<lambda>a. word_of_nat (fst a)) ` set as \<and>
     (\<forall>a\<in>set as. bt_get (packets b) (word_of_nat (fst a)) = Some (buffered a))"

lemma word_of_nat_eq_iff:
  "x < 4294967296 \<Longrightarrow> y < 4294967296 \<Longrightarrow> (word_of_nat x :: u32) = word_of_nat y \<longleftrightarrow> x = y"
  by (simp add: word_unat_eq_iff unat_of_nat_u32)

lemma extend_seq_near:
  assumes "last_seq b = Some (word_of_nat l)" "seq_cycles b = word_of_nat (l div 65536)"
    and "e < l + 32768" "l < e + 32768" "e < 4294967296" "l < 4294967296"
  shows "extend_seq b (word_of_nat e) = (word_of_nat e, b\<lparr>seq_cycles := word_of_nat (e div 65536)\<rparr>)"
proof -
  let ?s = "word_of_nat e :: u16" and ?l = "word_of_nat l :: u16"
  have cyc: "(if ?s < ?l \<and> ?l - ?s > 32768 then seq_cycles b + 1
      else if ?s > ?l \<and> ?s - ?l > 32768 then seq_cycles b - 1 else seq_cycles b) = word_of_nat (e div 65536)"
    using assms(3,4)
    by (cases rule: cycle_cases [where e = e and h = l])
       (simp_all add: wrapped_forward_def wrapped_back_def assms(2))
  have "e div 65536 < 65536" using assms(5) by (simp add: less_mult_imp_div_less)
  then have "ucast (word_of_nat (e div 65536) :: u16) = (word_of_nat (e div 65536) :: u32)"
    by (simp add: word_unat_eq_iff unat_ucast_mod unat_of_nat_u16 unat_of_nat_u32)
  then have "push_bit 16 (ucast (word_of_nat (e div 65536) :: u16)) OR ucast ?s = (word_of_nat e :: u32)"
    using extend_number [OF assms(5)] by simp
  with cyc assms(1) show ?thesis by (simp only: extend_seq_def option.case Let_def)
qed

lemma push_collecting:
  assumes c: "collecting cfg t0 l as b" and e: "e < l + 32768" "l < e + 32768" "e < 4294967296"
    and new: "e \<notin> fst ` set as" "\<forall>a\<in>set as. fst a < 4294967296" and room: "length as < jc_max_packets cfg"
  shows "collecting cfg t0 e ((e, ts, payload, now) # as)
    (snd (push_at b (word_of_nat e) ts payload now))"
proof -
  let ?e = "word_of_nat e :: u32"
  let ?b1 = "b\<lparr>jb_stats := (jb_stats b)\<lparr>js_received := js_received (jb_stats b) + 1\<rparr>\<rparr>"
  let ?b2 = "update_jitter_at (?b1\<lparr>seq_cycles := word_of_nat (e div 65536)\<rparr>) ts now"
  have s: "config b = cfg" "playout_seq b = None" "base_time b = Some t0" "base_timestamp b \<noteq> None"
    "last_seq b = Some (word_of_nat l)" "seq_cycles b = word_of_nat (l div 65536)" "l < 4294967296"
    "current_delay_ms b = initial_delay (jc_mode cfg)" "bt_inv (packets b)"
    "length (packets b) = length as" "bt_keys (packets b) = (\<lambda>a. word_of_nat (fst a)) ` set as"
    "\<forall>a\<in>set as. bt_get (packets b) (word_of_nat (fst a)) = Some (buffered a)"
    using c by (auto simp: collecting_def)
  have ext: "extend_seq ?b1 (word_of_nat e) = (?e, ?b1\<lparr>seq_cycles := word_of_nat (e div 65536)\<rparr>)"
    using s(5-7) e by (intro extend_seq_near) simp_all
  have prep: "push_prepare b (word_of_nat e) ts now = Inr (?b2, ?e)"
    using s(2,4) ext by (auto simp: push_prepare_def Let_def)
  have "make_room ?b2 = ?b2" using room s(1,10) by (simp add: make_room_def)
  with prep have p: "snd (push_at b (word_of_nat e) ts payload now) =
      ?b2\<lparr>packets := bt_insert ?e (buffered (e, ts, payload, now)) (packets b),
          last_seq := Some (word_of_nat e)\<rparr>"
    by (simp add: push_at_def Let_def buffered_def)
  have fresh: "?e \<notin> bt_keys (packets b)"
  proof
    assume "?e \<in> bt_keys (packets b)"
    then obtain a where a: "a \<in> set as" "?e = word_of_nat (fst a)" using s(11) by blast
    with new(2) e(3) have "e = fst a" by (simp add: word_of_nat_eq_iff)
    with a(1) new(1) show False by blast
  qed
  then have "length (bt_insert ?e (buffered (e, ts, payload, now)) (packets b)) = Suc (length as)"
    using bt.size_put [OF s(9)] s(10) by (simp add: bt_get_None)
  moreover have "bt_get (bt_insert ?e (buffered (e, ts, payload, now)) (packets b)) (word_of_nat (fst a)) =
      Some (buffered a)" if "a \<in> set as" for a
  proof -
    have "fst a \<noteq> e" using that new(1) by force
    with that new(2) e(3) s(12) show ?thesis
      by (simp add: bt_get_insert [OF s(9)] word_of_nat_eq_iff)
  qed
  ultimately show ?thesis
    using s e(3)
    by (simp add: collecting_def p bt_insert_inv bt_insert_keys bt_get_insert)
qed

lemma push_first:
  assumes "e < 65536" "0 < jc_max_packets cfg"
  shows "collecting cfg now e [(e, ts, payload, now)]
    (snd (push_at (JitterBuffer_new cfg) (word_of_nat e) ts payload now))"
proof -
  let ?b0 = "JitterBuffer_new cfg"
  let ?b1 = "?b0\<lparr>jb_stats := (jb_stats ?b0)\<lparr>js_received := js_received (jb_stats ?b0) + 1\<rparr>,
    base_timestamp := Some ts, base_time := Some now, last_seq := Some (word_of_nat e)\<rparr>"
  let ?b2 = "update_jitter_at (?b1\<lparr>seq_cycles := word_of_nat (e div 65536)\<rparr>) ts now"
  have ext: "extend_seq ?b1 (word_of_nat e) = (word_of_nat e, ?b1\<lparr>seq_cycles := word_of_nat (e div 65536)\<rparr>)"
    using assms(1) by (intro extend_seq_near [where l = e]) (simp_all add: JitterBuffer_new_def)
  have prep: "push_prepare ?b0 (word_of_nat e) ts now = Inr (?b2, word_of_nat e)"
    using ext by (simp add: push_prepare_def Let_def JitterBuffer_new_def)
  have "make_room ?b2 = ?b2" by (simp add: make_room_def bt_first_def JitterBuffer_new_def)
  with prep have p: "snd (push_at ?b0 (word_of_nat e) ts payload now) =
      ?b2\<lparr>packets := [(word_of_nat e, buffered (e, ts, payload, now))], last_seq := Some (word_of_nat e)\<rparr>"
    by (simp add: push_at_def Let_def buffered_def) (simp add: JitterBuffer_new_def)
  show ?thesis
    unfolding p using assms
    by (simp add: collecting_def JitterBuffer_new_def bt_inv_def bt_keys_def bt_get_def)
qed

lemma push_all_collecting:
  "collecting cfg t0 l as b \<Longrightarrow> set (map fst ps) \<subseteq> {m..<m + 32768} \<Longrightarrow> l \<in> {m..<m + 32768} \<Longrightarrow>
   m + 32768 \<le> 4294967296 \<or> set (map fst ps) \<subseteq> {..<4294967296} \<Longrightarrow>
   distinct (map fst ps) \<Longrightarrow> set (map fst ps) \<inter> fst ` set as = {} \<Longrightarrow>
   \<forall>a\<in>set as. fst a < 4294967296 \<Longrightarrow> length as + length ps \<le> jc_max_packets cfg \<Longrightarrow>
   \<exists>l. collecting cfg t0 l (rev ps @ as) (push_all b ps)"
proof (induction ps arbitrary: l as b)
  case Nil
  then show ?case by auto
next
  case (Cons p ps)
  obtain e ts payload now where p: "p = (e, ts, payload, now)" using prod_cases4 by blast
  have e: "e < l + 32768" "l < e + 32768" "e < 4294967296" using Cons.prems p by auto
  have c: "collecting cfg t0 e (p # as) (snd (push_at b (word_of_nat e) ts payload now))"
    unfolding p using Cons.prems p e by (intro push_collecting) auto
  from Cons.IH [OF c] Cons.prems p e show ?case by auto
qed

definition mode_ok :: "JitterMode \<Rightarrow> bool" where
  "mode_ok m \<longleftrightarrow> (case m of Fixed _ \<Rightarrow> True | Adaptive _ lo hi \<Rightarrow> lo \<le> hi)"

lemma adapt_delay_some: "mode_ok (jc_mode (config b)) \<Longrightarrow> \<exists>b'. adapt_delay b = Some b'"
  by (auto simp: adapt_delay_def Let_def mode_ok_def clamp32_def split: JitterMode.splits)

text \<open>The buffer while a contiguous range of numbers is played: all are there.\<close>

definition ready :: "JitterConfig \<Rightarrow> (nat \<Rightarrow> BufferedPacket) \<Rightarrow> nat \<Rightarrow> nat \<Rightarrow> JitterBuffer \<Rightarrow> bool" where
  "ready cfg f m n b \<longleftrightarrow> config b = cfg \<and> bt_inv (packets b) \<and>
     bt_keys (packets b) = word_of_nat ` {m..<n} \<and>
     (\<forall>i\<in>{m..<n}. bt_get (packets b) (word_of_nat i) = Some (f i))"

lemma play_next:
  assumes r: "ready cfg f m n b" and m: "m < n" "n \<le> 4294967296" and ok: "mode_ok (jc_mode cfg)"
    and t: "pop_start b now = Some (word_of_nat m, b1)" "packets b1 = packets b" "config b1 = config b"
  shows "\<exists>b'. pop_at b now = Some (Some (f m), b') \<and> ready cfg f (Suc m) n b' \<and>
    playout_seq b' = Some (word_of_nat (Suc m))"
proof -
  have g: "bt_get (packets b1) (word_of_nat m) = Some (f m)" using r m t by (simp add: ready_def)
  then have tgt: "pop_target b1 (word_of_nat m) = Some (word_of_nat m)" by (simp add: pop_target_def)
  define b2 where "b2 = snd (pop_play b1 (word_of_nat m) now)"
  have pkt: "fst (pop_play b1 (word_of_nat m) now) = f m" by (simp add: pop_play_packet g)
  have b2: "config b2 = cfg" "packets b2 = bt_remove (word_of_nat m) (packets b)"
    "playout_seq b2 = Some (word_of_nat m + 1)"
    using r t by (simp_all add: b2_def pop_play_fields ready_def)
  obtain b3 where b3: "adapt_delay b2 = Some b3" using adapt_delay_some [of b2] ok b2(1) by auto
  have eq: "b3 = b2\<lparr>current_delay_ms := current_delay_ms b3\<rparr>" using adapt_delay_spec [OF b3] by blast
  have inj: "(word_of_nat i :: u32) = word_of_nat m \<longleftrightarrow> i = m" if "i \<in> {m..<n}" for i
    using that m by (simp add: word_of_nat_eq_iff)
  have "word_of_nat ` {m..<n} - {word_of_nat m :: u32} = word_of_nat ` {Suc m..<n}"
    using inj m by (auto simp: Suc_le_eq order_less_le)
  moreover have "\<forall>i\<in>{Suc m..<n}. bt_get (bt_remove (word_of_nat m) (packets b)) (word_of_nat i) = Some (f i)"
    using r inj m by (auto simp: ready_def bt_get_remove)
  ultimately have "ready cfg f (Suc m) n b3" "playout_seq b3 = Some (word_of_nat (Suc m))"
    using r b2 by (subst eq, simp add: ready_def bt_remove_inv bt_remove_keys add.commute)+
  moreover have "pop_at b now = Some (Some (f m), b3)"
    using t(1) tgt pkt b3 by (simp add: pop_at_def Let_def case_prod_unfold b2_def)
  ultimately show ?thesis by blast
qed

lemma pop_n_ready:
  "ready cfg f m n b \<Longrightarrow> playout_seq b = Some (word_of_nat m) \<Longrightarrow> m \<le> n \<Longrightarrow> n \<le> 4294967296 \<Longrightarrow>
   mode_ok (jc_mode cfg) \<Longrightarrow>
   \<exists>b'. pop_n (n - m) b now = Some (map (\<lambda>i. Some (f i)) [m..<n], b')"
proof (induction "n - m" arbitrary: m b)
  case 0
  then show ?case by simp
next
  case (Suc k)
  then have m: "m < n" by simp
  have "pop_start b now = Some (word_of_nat m, b)" using Suc.prems(2) by (simp add: pop_start_def)
  with play_next [OF Suc.prems(1) m Suc.prems(4,5)] obtain b'
    where b': "pop_at b now = Some (Some (f m), b')" "ready cfg f (Suc m) n b'"
      "playout_seq b' = Some (word_of_nat (Suc m))" by blast
  have "k = n - Suc m" using Suc.hyps(2) by simp
  with Suc.hyps(1) [of "Suc m" b'] Suc.prems b'(2,3) m
  obtain b'' where "pop_n (n - Suc m) b' now = Some (map (\<lambda>i. Some (f i)) [Suc m..<n], b'')" by auto
  moreover have "n - m = Suc (n - Suc m)" using m by simp
  ultimately show ?case using b'(1) m by (simp add: upt_conv_Cons)
qed

lemma collecting_ready:
  assumes c: "collecting cfg t0 l as b" and s: "fst ` set as = {m..<n}" and n: "m < n" "n \<le> 4294967296"
    and f: "\<forall>a\<in>set as. f (fst a) = buffered a"
    and now: "now - t0 \<ge> unat (initial_delay (jc_mode cfg)) * 1000000"
  shows "ready cfg f m n b \<and> (\<exists>b1. pop_start b now = Some (word_of_nat m, b1) \<and>
    packets b1 = packets b \<and> config b1 = config b)"
proof -
  have k: "bt_inv (packets b)" "bt_keys (packets b) = word_of_nat ` {m..<n}"
    using c by (simp_all add: collecting_def image_image flip: s)
  have ready: "ready cfg f m n b"
    unfolding ready_def
  proof (intro conjI ballI)
    fix i assume "i \<in> {m..<n}"
    then obtain a where "a \<in> set as" "i = fst a" using s by (metis imageE)
    with c f show "bt_get (packets b) (word_of_nat i) = Some (f i)" by (simp add: collecting_def)
  qed (use c k in \<open>simp_all add: collecting_def\<close>)
  have "word_of_nat m \<le> (word_of_nat i :: u32)" if "i \<in> {m..<n}" for i
    using that n by (simp add: word_le_nat_alt unat_of_nat_u32)
  then have first: "bt_first (packets b) = Some (word_of_nat m)"
    using n unfolding bt_first_min [OF k(1)] k(2) by auto
  then have "packets b \<noteq> []" by (auto simp: bt_first_def)
  with c now first have "pop_start b now =
      Some (word_of_nat m, b\<lparr>playout_seq := Some (word_of_nat m), playing := True\<rparr>)"
    by (simp add: collecting_def pop_start_def should_start_playout_def)
  with ready show ?thesis by auto
qed

definition arrived :: "arrival list \<Rightarrow> nat \<Rightarrow> BufferedPacket" where
  "arrived as i = buffered (i, the (map_of as i))"

text \<open>The buffer behind the pushes, ready to play in order.\<close>

lemma push_all_ready:
  assumes "distinct (map fst (a # as))" "fst ` set (a # as) = {m..<n}"
    and "fst a < 65536" "n < m + 32768" "n \<le> 2 ^ 32" "length (a # as) \<le> jc_max_packets cfg"
    and "now \<ge> snd (snd (snd a)) + unat (initial_delay (jc_mode cfg)) * 1000000"
  shows "m < n" "ready cfg (arrived (a # as)) m n (push_all (JitterBuffer_new cfg) (a # as))"
    and "\<exists>b1. pop_start (push_all (JitterBuffer_new cfg) (a # as)) now = Some (word_of_nat m, b1) \<and>
      packets b1 = packets (push_all (JitterBuffer_new cfg) (a # as)) \<and>
      config b1 = config (push_all (JitterBuffer_new cfg) (a # as))"
proof -
  obtain e ts payload t0 where a: "a = (e, ts, payload, t0)" using prod_cases4 by blast
  have em: "e \<in> {m..<n}" using assms(2) a by auto
  let ?b1 = "snd (push_at (JitterBuffer_new cfg) (word_of_nat e) ts payload t0)"
  have c1: "collecting cfg t0 e [(e, ts, payload, t0)] ?b1"
    using assms(3,6) a by (intro push_first) simp_all
  have sub: "set (map fst as) \<subseteq> {m..<n}" using assms(2) by auto
  then have "\<exists>l. collecting cfg t0 l (rev as @ [(e, ts, payload, t0)]) (push_all ?b1 as)"
    using assms(1,4-6) em a by (intro push_all_collecting [OF c1, where m = m]) auto
  then obtain l where c: "collecting cfg t0 l (rev as @ [a]) (push_all (JitterBuffer_new cfg) (a # as))"
    by (auto simp: a)
  have f: "\<forall>x\<in>set (rev as @ [a]). arrived (a # as) (fst x) = buffered x"
  proof
    fix x assume "x \<in> set (rev as @ [a])"
    then have "map_of (a # as) (fst x) = Some (snd x)"
      using assms(1) by (intro map_of_is_SomeI) auto
    then show "arrived (a # as) (fst x) = buffered x" by (simp add: arrived_def)
  qed
  have s: "fst ` set (rev as @ [a]) = {m..<n}" using assms(2) by auto
  show mn: "m < n" using em by simp
  have late: "unat (initial_delay (jc_mode cfg)) * 1000000 \<le> now - t0" using assms(7) by (simp add: a)
  have "n \<le> 4294967296" using assms(5) by simp
  from collecting_ready [OF c s mn this f late]
  show "ready cfg (arrived (a # as)) m n (push_all (JitterBuffer_new cfg) (a # as))"
    "\<exists>b1. pop_start (push_all (JitterBuffer_new cfg) (a # as)) now = Some (word_of_nat m, b1) \<and>
      packets b1 = packets (push_all (JitterBuffer_new cfg) (a # as)) \<and>
      config b1 = config (push_all (JitterBuffer_new cfg) (a # as))"
    by blast+
qed

lemma reorder_play:
  assumes "mode_ok (jc_mode cfg)" "distinct (map fst (a # as))" "fst ` set (a # as) = {m..<n}"
    and "fst a < 65536" "n < m + 32768" "n \<le> 2 ^ 32" "length (a # as) \<le> jc_max_packets cfg"
    and "now \<ge> snd (snd (snd a)) + unat (initial_delay (jc_mode cfg)) * 1000000"
  shows "\<exists>b out. pop_n (n - m) (push_all (JitterBuffer_new cfg) (a # as)) now = Some (map Some out, b) \<and>
    map (\<lambda>p. (bp_seq p, bp_timestamp p, bp_payload p, bp_synthesized p)) out =
      map (\<lambda>i. case the (map_of (a # as) i) of (ts, payload, _) \<Rightarrow> (word_of_nat i, ts, payload, False)) [m..<n]"
proof -
  let ?f = "arrived (a # as)"
  note r = push_all_ready [OF assms(2-8)]
  have n: "n \<le> 4294967296" using assms(6) by simp
  obtain b2 where b2: "pop_at (push_all (JitterBuffer_new cfg) (a # as)) now = Some (Some (?f m), b2)"
      "ready cfg ?f (Suc m) n b2" "playout_seq b2 = Some (word_of_nat (Suc m))"
    using play_next [OF r(2,1) n assms(1)] r(3) by blast
  obtain b3 where b3: "pop_n (n - Suc m) b2 now = Some (map (\<lambda>i. Some (?f i)) [Suc m..<n], b3)"
    using pop_n_ready [OF b2(2,3) _ n assms(1)] r(1) by auto
  have "n - m = Suc (n - Suc m)" using r(1) by simp
  with b2(1) b3 r(1) have "pop_n (n - m) (push_all (JitterBuffer_new cfg) (a # as)) now =
      Some (map Some (map ?f [m..<n]), b3)"
    by (simp add: upt_conv_Cons del: push_all.simps)
  moreover have "map (\<lambda>p. (bp_seq p, bp_timestamp p, bp_payload p, bp_synthesized p)) (map ?f [m..<n]) =
      map (\<lambda>i. case the (map_of (a # as) i) of (ts, payload, _) \<Rightarrow> (word_of_nat i, ts, payload, False)) [m..<n]"
    by (simp add: arrived_def buffered_def case_prod_unfold)
  ultimately show ?thesis by blast
qed

section \<open>Properties\<close>

text \<open>C12: the jitter buffer is bounded and ordered.  However it is used, it holds at most
  \<open>max_packets\<close> packets (one, where that is zero), strictly ordered by extended sequence
  number and none of them before the number due next, each under the number its own
  sequence number belongs to, and none of them synthesized.\<close>

theorem jitter_buffer_bounded:
  assumes "jb_reach cfg b"
  shows "buffer_len b \<le> max 1 (jc_max_packets cfg) \<and> sorted_wrt (<) (map fst (packets b)) \<and>
    (\<forall>p. playout_seq b = Some p \<longrightarrow> (\<forall>k\<in>fst ` set (packets b). p \<le> k)) \<and>
    (\<forall>(k, pkt)\<in>set (packets b). bp_seq pkt = ucast k \<and> \<not> bp_synthesized pkt)"
  using jb_reach_inv [OF assms]
  by (auto simp: jb_inv_def buffer_len_def bt_inv_def bt_keys_def entry_ok_def)

definition demo_config :: JitterConfig where
  "demo_config = \<lparr>jc_mode = Adaptive 60 20 200, jc_clock_rate = 8000, jc_max_packets = 4\<rparr>"

theorem jitter_buffer_bounded_witness:
  "buffer_len (snd (push_at (JitterBuffer_new demo_config) 7 160 [1] 0)) \<le> max 1 4"
proof -
  have "jb_step (JitterBuffer_new demo_config) (Push 7 160 [1] 0) =
      Some (snd (push_at (JitterBuffer_new demo_config) 7 160 [1] 0))" by simp
  from jitter_buffer_bounded [OF jb_op [OF jb_start this]] show ?thesis
    by (simp add: demo_config_def)
qed

text \<open>C15: playout order.  Whatever a reachable buffer plays belongs to one extended number
  \<open>t\<close>: the one due, or a later one only when the gap is larger than a full buffer; the
  number due next is the one after it; a real packet is the one stored under \<open>t\<close>, and a
  concealed one is empty and stands for a number behind which a real packet is waiting.\<close>

theorem jitter_pop_in_order:
  assumes "jb_reach cfg b" "pop_at b now = Some (Some pkt, b')"
  shows "\<exists>t. playout_seq b' = Some (t + 1) \<and> packets b' = bt_remove t (packets b) \<and>
    (\<forall>p. playout_seq b = Some p \<longrightarrow> p \<le> t \<and> (t \<noteq> p \<longrightarrow> t - p > discontinuity b)) \<and>
    (if bp_synthesized pkt
     then bp_payload pkt = [] \<and> bt_get (packets b) t = None \<and> (\<exists>k\<in>bt_keys (packets b). t < k)
     else bt_get (packets b) t = Some pkt)"
  using assms(2)
proof (cases rule: pop_at_cases)
  case (played t b1 t')
  note inv = jb_reach_inv [OF assms(1)]
  note st = pop_start_inv [OF inv played(1)]
  note tgt = pop_target_spec [OF _ _ played(2)]
  have b': "playout_seq b' = Some (t' + 1)" "packets b' = bt_remove t' (packets b)"
    using adapt_delay_spec [OF played(4)] st
    by (metis JitterBuffer.select_convs(2,3) JitterBuffer.surjective JitterBuffer.update_convs(6) pop_play_fields(1),
        metis JitterBuffer.select_convs(2,3) JitterBuffer.surjective JitterBuffer.update_convs(6) pop_play_fields(2))
  have disc: "discontinuity b1 = discontinuity b" using st by (simp add: discontinuity_def)
  have order: "p \<le> t' \<and> (t' \<noteq> p \<longrightarrow> t' - p > discontinuity b)" if "playout_seq b = Some p" for p
  proof -
    have "t = p" using that played(1) by (simp add: pop_start_def)
    with tgt st disc show ?thesis by auto
  qed
  show ?thesis
  proof (cases "bt_get (packets b) t'")
    case (Some q)
    then have "pkt = q" using played(3) st by (simp add: pop_play_packet)
    moreover have "(t', q) \<in> set (packets b)" using Some by (simp add: bt_get_def map_of_SomeD)
    then have "\<not> bp_synthesized q" using inv by (auto simp: jb_inv_def entry_ok_def)
    ultimately show ?thesis using b' order Some by auto
  next
    case None
    then have pkt: "bp_synthesized pkt" "bp_payload pkt = []"
      using played(3) st by (simp_all add: pop_play_packet)
    have "t' = t" using tgt(3) st None by (auto simp: bt_get_None)
    with None played(2) st obtain k where k: "bt_from (packets b) t = Some k"
      by (auto simp: pop_target_def split: option.splits if_splits)
    have "bt_inv (packets b)" using inv by (simp add: jb_inv_def)
    with k have "k \<in> bt_keys (packets b)" "t \<le> k" by (simp_all add: bt_from_Some)
    moreover have "t \<notin> bt_keys (packets b)" using None \<open>t' = t\<close> by (simp add: bt_get_None)
    ultimately have "\<exists>k\<in>bt_keys (packets b). t' < k" using \<open>t' = t\<close> order_le_less by auto
    with pkt None b' order show ?thesis by auto
  qed
qed simp_all

definition demo_fixed :: JitterConfig where
  "demo_fixed = \<lparr>jc_mode = Fixed 60, jc_clock_rate = 8000, jc_max_packets = 4\<rparr>"

definition demo_buffer :: JitterBuffer where
  "demo_buffer = push_all (JitterBuffer_new demo_fixed) [(8, 320, [2], 0), (7, 160, [1], 5)]"

lemma demo_buffer_reach: "jb_reach demo_fixed demo_buffer"
proof -
  let ?b = "snd (push_at (JitterBuffer_new demo_fixed) 8 320 [2] 0)"
  have "jb_reach demo_fixed ?b"
    by (rule jb_op [OF jb_start, where op = "Push 8 320 [2] 0"]) simp
  then have "jb_reach demo_fixed (snd (push_at ?b 7 160 [1] 5))"
    by (rule jb_op [where op = "Push 7 160 [1] 5"]) simp
  then show ?thesis by (simp add: demo_buffer_def)
qed

lemma demo_pop: "\<exists>pkt b'. pop_at demo_buffer 60000000 = Some (Some pkt, b') \<and> bp_payload pkt = [1]"
proof -
  let ?as = "[(8, 320, [2], 0), (7, 160, [1], 5)] :: arrival list"
  have set: "fst ` set ?as = {7..<9}" by auto
  have "\<exists>b out. pop_n (9 - 7) (push_all (JitterBuffer_new demo_fixed) ?as) 60000000 = Some (map Some out, b) \<and>
    map (\<lambda>p. (bp_seq p, bp_timestamp p, bp_payload p, bp_synthesized p)) out =
      map (\<lambda>i. case the (map_of ?as i) of (ts, payload, _) \<Rightarrow> (word_of_nat i, ts, payload, False)) [7..<9]"
    by (rule reorder_play [OF _ _ set]) (simp_all add: demo_fixed_def mode_ok_def initial_delay_def)
  then obtain b out where out: "pop_n (9 - 7) demo_buffer 60000000 = Some (map Some out, b)"
    "map (\<lambda>p. (bp_seq p, bp_timestamp p, bp_payload p, bp_synthesized p)) out =
      map (\<lambda>i. case the (map_of ?as i) of (ts, payload, _) \<Rightarrow> (word_of_nat i, ts, payload, False)) [7..<9]"
    unfolding demo_buffer_def by blast
  from out(2) obtain p ps where ps: "out = p # ps" "bp_payload p = [1]"
    by (auto simp: upt_conv_Cons)
  have "pop_n (Suc 1) demo_buffer 60000000 = Some (Some p # map Some ps, b)"
    using out(1) by (simp add: ps(1) numeral_2_eq_2)
  then obtain b' where "pop_at demo_buffer 60000000 = Some (Some p, b')"
    by (auto simp: map_option_case split: option.splits prod.splits)
  with ps(2) show ?thesis by blast
qed

theorem jitter_pop_in_order_witness:
  "\<exists>pkt b' t. pop_at demo_buffer 60000000 = Some (Some pkt, b') \<and> bp_payload pkt = [1] \<and>
    playout_seq b' = Some (t + 1) \<and> packets b' = bt_remove t (packets demo_buffer)"
proof -
  obtain pkt b' where p: "pop_at demo_buffer 60000000 = Some (Some pkt, b')" "bp_payload pkt = [1]"
    using demo_pop by blast
  with jitter_pop_in_order [OF demo_buffer_reach p(1)] show ?thesis by blast
qed

text \<open>Reordering is repaired.  Packets with the consecutive numbers \<open>m..<n\<close> that arrive in
  any order (fewer of them than \<open>2\<^sup>1\<^sup>5\<close> and no more than the buffer holds, the first to
  arrive from before the first wrap of the sequence number) are popped, once the initial
  delay has passed since the first arrival, in the order of their numbers, each with its
  own timestamp and payload, none lost and none synthesized.\<close>

theorem jitter_reorders:
  assumes "mode_ok (jc_mode cfg)" "distinct (map fst (a # as))" "fst ` set (a # as) = {m..<n}"
    and "fst a < 65536" "n < m + 32768" "n \<le> 2 ^ 32" "length (a # as) \<le> jc_max_packets cfg"
    and "now \<ge> snd (snd (snd a)) + unat (initial_delay (jc_mode cfg)) * 1000000"
  shows "\<exists>b out. pop_n (n - m) (push_all (JitterBuffer_new cfg) (a # as)) now = Some (map Some out, b) \<and>
    map (\<lambda>p. (bp_seq p, bp_timestamp p, bp_payload p, bp_synthesized p)) out =
      map (\<lambda>i. case the (map_of (a # as) i) of (ts, payload, _) \<Rightarrow> (word_of_nat i, ts, payload, False)) [m..<n]"
  using assms by (rule reorder_play)

theorem jitter_reorders_witness:
  "\<exists>b out. pop_n 3 (push_all (JitterBuffer_new demo_config)
       [(65535, 160, [2], 0), (65536, 320, [3], 1000), (65534, 0, [1], 2000)]) 60000000 =
     Some (map Some out, b) \<and> map bp_payload out = [[1], [2], [3]]"
proof -
  let ?as = "[(65535, 160, [2], 0), (65536, 320, [3], 1000), (65534, 0, [1], 2000)] :: arrival list"
  have set: "fst ` set ?as = {65534..<65537}" by auto
  have three: "(3 :: nat) = 65537 - 65534" by simp
  have "\<exists>b out. pop_n 3 (push_all (JitterBuffer_new demo_config) ?as) 60000000 = Some (map Some out, b) \<and>
    map (\<lambda>p. (bp_seq p, bp_timestamp p, bp_payload p, bp_synthesized p)) out =
      map (\<lambda>i. case the (map_of ?as i) of (ts, payload, _) \<Rightarrow> (word_of_nat i, ts, payload, False)) [65534..<65537]"
    unfolding three
    by (rule jitter_reorders [OF _ _ set]) (simp_all add: demo_config_def mode_ok_def initial_delay_def)
  then obtain b out where out: "pop_n 3 (push_all (JitterBuffer_new demo_config) ?as) 60000000 = Some (map Some out, b)"
    "map (\<lambda>p. (bp_seq p, bp_timestamp p, bp_payload p, bp_synthesized p)) out =
      map (\<lambda>i. case the (map_of ?as i) of (ts, payload, _) \<Rightarrow> (word_of_nat i, ts, payload, False)) [65534..<65537]"
    by blast
  have "map bp_payload out = map (\<lambda>x. fst (snd (snd x)))
      (map (\<lambda>p. (bp_seq p, bp_timestamp p, bp_payload p, bp_synthesized p)) out)" by simp
  also have "\<dots> = [[1], [2], [3]]" unfolding out(2) by (simp add: upt_conv_Cons)
  finally have "map bp_payload out = [[1], [2], [3]]" .
  with out(1) show ?thesis by (intro exI conjI)
qed

text \<open>C24: the adaptive delay stays in its range.  With \<open>min_ms\<close> at most \<open>max_ms\<close> no pop panics;
  after every pop that plays something the delay is between the two, however wild the
  jitter estimate (NaN and infinities included), and in between it is that or the
  configured starting point.  A fixed delay never changes.\<close>

theorem jitter_delay_in_range:
  assumes "jb_reach cfg b" "mode_ok (jc_mode cfg)"
  shows "delay_ok (jc_mode cfg) (current_delay_ms b) \<and>
    (\<exists>r b'. pop_at b now = Some (r, b') \<and>
      (r \<noteq> None \<longrightarrow> (case jc_mode cfg of
         Fixed d \<Rightarrow> current_delay_ms b' = d
       | Adaptive t lo hi \<Rightarrow> lo \<le> current_delay_ms b' \<and> current_delay_ms b' \<le> hi)))"
proof -
  note inv = jb_reach_inv [OF assms(1)]
  have ok: "delay_ok (jc_mode cfg) (current_delay_ms b)" using inv by (simp add: jb_inv_def)
  have "\<exists>r b'. pop_at b now = Some (r, b')"
  proof (cases "pop_start b now")
    case None
    then show ?thesis by (simp add: pop_at_def)
  next
    case (Some x)
    obtain t b1 where x: "x = (t, b1)" by fastforce
    have "config b1 = cfg" using pop_start_inv [OF inv Some [unfolded x]] by (simp add: jb_inv_def)
    then have ad: "\<exists>b3. adapt_delay (snd (pop_play b1 t' now)) = Some b3" for t'
      using assms(2) by (intro adapt_delay_some) (simp add: pop_play_fields)
    show ?thesis
    proof (cases "pop_target b1 t")
      case None
      with Some x show ?thesis by (simp add: pop_at_def)
    next
      case (Some t')
      from ad [of t'] obtain b3 where "adapt_delay (snd (pop_play b1 t' now)) = Some b3" by blast
      with Some \<open>pop_start b now = Some x\<close> x show ?thesis
        by (simp add: pop_at_def Let_def case_prod_unfold)
    qed
  qed
  then obtain r b' where p: "pop_at b now = Some (r, b')" by blast
  have "r \<noteq> None \<longrightarrow> (case jc_mode cfg of Fixed d \<Rightarrow> current_delay_ms b' = d
       | Adaptive t lo hi \<Rightarrow> lo \<le> current_delay_ms b' \<and> current_delay_ms b' \<le> hi)"
    using p
  proof (cases rule: pop_at_cases)
    case (played t b1 t')
    have "config (snd (pop_play b1 t' now)) = cfg"
      using pop_start_inv [OF inv played(1)] by (simp add: pop_play_fields jb_inv_def)
    moreover have "delay_ok (jc_mode cfg) (current_delay_ms b')"
      using jb_inv_pop [OF inv p] by (simp add: jb_inv_def)
    ultimately show ?thesis
      using adapt_delay_spec [OF played(4)] by (auto simp: delay_ok_def split: JitterMode.splits)
  qed simp_all
  with ok p show ?thesis by blast
qed

theorem jitter_delay_in_range_witness:
  "current_delay_ms (JitterBuffer_new demo_config) = 60 \<and>
   delay_ok (jc_mode demo_config) (current_delay_ms (JitterBuffer_new demo_config))"
  using jitter_delay_in_range [OF jb_start, of demo_config]
  by (simp add: demo_config_def mode_ok_def JitterBuffer_new_def initial_delay_def)

text \<open>Every concealed packet carries the same timestamp.  The packet synthesized for a lost
  one is stamped with the timestamp of the first packet of the stream, however long the
  stream has run: the estimate counts the frames from the number due next, and the number
  played is that one.\<close>

theorem jitter_concealed_timestamp:
  assumes "jb_reach cfg b" "pop_at b now = Some (Some pkt, b')" "bp_synthesized pkt"
  shows "bp_timestamp pkt = (case base_timestamp b of None \<Rightarrow> 0 | Some t \<Rightarrow> t)"
  using assms(2)
proof (cases rule: pop_at_cases)
  case (played t b1 t')
  note inv = jb_reach_inv [OF assms(1)]
  note st = pop_start_inv [OF inv played(1)]
  note tgt = pop_target_spec [OF _ _ played(2)]
  have none: "bt_get (packets b1) t' = None"
  proof (rule ccontr)
    assume "bt_get (packets b1) t' \<noteq> None"
    then obtain q where q: "bt_get (packets b1) t' = Some q" by blast
    then have "(t', q) \<in> set (packets b1)" by (simp add: bt_get_def map_of_SomeD)
    then have "entry_ok (t', q)" using st unfolding jb_inv_def by blast
    then have "\<not> bp_synthesized q" by (simp add: entry_ok_def)
    with q played(3) assms(3) show False by (simp add: pop_play_packet)
  qed
  then have "t' = t" using tgt(3) st by (auto simp: bt_get_None)
  with none played(3) st show ?thesis by (simp add: pop_play_packet estimate_timestamp_def)
qed simp_all

definition demo_gap :: JitterBuffer where
  "demo_gap = push_all (JitterBuffer_new demo_fixed) [(7, 160, [1], 0), (9, 480, [3], 0)]"

lemma demo_gap_reach: "jb_reach demo_fixed demo_gap"
proof -
  let ?b = "snd (push_at (JitterBuffer_new demo_fixed) 7 160 [1] 0)"
  have "jb_reach demo_fixed ?b"
    by (rule jb_op [OF jb_start, where op = "Push 7 160 [1] 0"]) simp
  then have "jb_reach demo_fixed (snd (push_at ?b 9 480 [3] 0))"
    by (rule jb_op [where op = "Push 9 480 [3] 0"]) simp
  then show ?thesis by (simp add: demo_gap_def)
qed

lemma demo_gap_pop:
  "\<exists>pkt b. pop_at demo_gap 60000000 = Some (Some pkt, b) \<and> playout_seq b = Some 8 \<and>
    map fst (packets b) = [9] \<and> base_timestamp b = Some 160 \<and> config b = demo_fixed"
proof -
  have g: "config demo_gap = demo_fixed" "playout_seq demo_gap = None" "base_time demo_gap = Some 0"
    "base_timestamp demo_gap = Some 160" "current_delay_ms demo_gap = 60"
    "packets demo_gap = [(7, buffered (7, 160, [1], 0)), (9, buffered (9, 480, [3], 0))]"
    by (simp_all add: demo_gap_def push_at_def push_prepare_def JitterBuffer_new_def demo_fixed_def
        extend_seq_def make_room_def Let_def buffered_def initial_delay_def)
  show ?thesis
    by (simp add: pop_at_def pop_start_def should_start_playout_def g bt_first_def pop_target_def
        bt_get_def pop_play_def Let_def adapt_delay_def demo_fixed_def bt_remove_def)
qed

theorem jitter_concealed_timestamp_witness:
  "\<exists>b pkt b'. jb_reach demo_fixed b \<and> pop_at b 80000000 = Some (Some pkt, b') \<and>
    bp_seq pkt = 8 \<and> bp_timestamp pkt = 160"
proof -
  obtain q b where b: "pop_at demo_gap 60000000 = Some (Some q, b)" "playout_seq b = Some 8"
      "map fst (packets b) = [9]" "base_timestamp b = Some 160" "config b = demo_fixed"
    using demo_gap_pop by (elim exE conjE)
  have reach: "jb_reach demo_fixed b"
    by (rule jb_op [OF demo_gap_reach, where op = "Pop 60000000"]) (simp add: b(1))
  obtain v where v: "packets b = [(9, v)]" using b(3) by auto
  have "\<exists>pkt b'. pop_at b 80000000 = Some (Some pkt, b') \<and> bp_seq pkt = 8 \<and> bp_synthesized pkt"
    by (simp add: pop_at_def pop_start_def b(2,5) v pop_target_def bt_get_def bt_from_def bt_first_def
        discontinuity_def demo_fixed_def pop_play_def Let_def adapt_delay_def)
  then obtain pkt b' where p: "pop_at b 80000000 = Some (Some pkt, b')" "bp_seq pkt = 8"
      "bp_synthesized pkt" by blast
  from jitter_concealed_timestamp [OF reach p(1,3)] b(4) p reach show ?thesis by auto
qed

section \<open>A late packet just after a wrap\<close>

text \<open>One late packet around a wrap empties the buffer.  When a packet from before a wrap of
  the sequence number arrives late, but by less than a buffer, it is dropped as it should
  be; but the cycle count has already been taken back for it, and the count is not restored.
  The next packet in order then looks a whole cycle old, is taken for a restart of the
  sender, and everything buffered is thrown away.\<close>

theorem jitter_late_wrap_resets:
  fixes ts ts' :: u32 and payload payload' :: bytes and now now' :: instant
  assumes "base_timestamp b \<noteq> None" "last_seq b = Some l" "playout_seq b = Some p"
    and "l < s" "s - l > 32768" "l \<noteq> 65535" "jc_max_packets (config b) < 32768"
    and "push_bit 16 (ucast (seq_cycles b - 1)) OR ucast s < p"
    and "p - (push_bit 16 (ucast (seq_cycles b - 1)) OR ucast s) \<le> discontinuity b"
  defines "b1 \<equiv> snd (push_at b s ts payload now)"
    and "k \<equiv> push_bit 16 (ucast (seq_cycles b - 1)) OR ucast (l + 1)"
  shows "\<not> fst (push_at b s ts payload now) \<and> packets b1 = packets b \<and>
    fst (push_at b1 (l + 1) ts' payload' now') \<and>
    map fst (packets (snd (push_at b1 (l + 1) ts' payload' now'))) = [k] \<and>
    playout_seq (snd (push_at b1 (l + 1) ts' payload' now')) = None"
proof -
  let ?c = "seq_cycles b - 1"
  let ?e = "push_bit 16 (ucast ?c) OR ucast s :: u32"
  have c16: "unat (ucast ?c :: u32) = unat ?c" using u16_lt [of ?c] by (simp add: unat_ucast_mod)
  have e: "unat ?e = unat ?c * 65536 + unat s" and k: "unat k = unat ?c * 65536 + unat (l + 1)"
    using u16_lt [of ?c] by (simp_all add: unat_extend c16 k_def)
  have nl: "\<not> s < l" using assms(4) by simp
  let ?b0 = "b\<lparr>jb_stats := (jb_stats b)\<lparr>js_received := js_received (jb_stats b) + 1\<rparr>\<rparr>"
  have x1: "extend_seq ?b0 s = (?e, ?b0\<lparr>seq_cycles := ?c\<rparr>)"
    using assms(2,4,5) nl by (simp add: extend_seq_def Let_def)
  have disc: "discontinuity (update_jitter_at (?b0\<lparr>seq_cycles := ?c\<rparr>) ts now) = discontinuity b"
    by (simp add: discontinuity_def)
  have prep1: "push_prepare b s ts now = Inl ((update_jitter_at (?b0\<lparr>seq_cycles := ?c\<rparr>) ts now)
      \<lparr>jb_stats := (jb_stats ?b0)\<lparr>js_dropped := js_dropped (jb_stats ?b0) + 1\<rparr>\<rparr>)"
    using assms(1,3,8,9) x1 disc by (auto simp: push_prepare_def Let_def)
  then have b1: "\<not> fst (push_at b s ts payload now)" "packets b1 = packets b" "config b1 = config b"
    "playout_seq b1 = Some p" "last_seq b1 = Some l" "seq_cycles b1 = ?c" "base_timestamp b1 \<noteq> None"
    using assms(1-3) by (simp_all add: push_at_def b1_def)
  let ?d0 = "b1\<lparr>jb_stats := (jb_stats b1)\<lparr>js_received := js_received (jb_stats b1) + 1\<rparr>\<rparr>"
  have l1: "unat (l + 1) = unat l + 1" using assms(6) by (simp add: unat_plus_if' word_unat_eq_iff) (use u16_lt [of l] in linarith)
  have "l < l + 1" "\<not> l + 1 - l > 32768" using l1 by (simp_all add: word_less_nat_alt)
  then have x2: "extend_seq ?d0 (l + 1) = (k, ?d0\<lparr>seq_cycles := ?c\<rparr>)"
    using b1(5,6) by (simp add: extend_seq_def k_def Let_def)
  have far: "unat s > unat l + 32768" using assms(4,5) by (simp add: word_less_nat_alt unat_sub_if')
  have "unat ?e < unat p" using assms(8) by (simp only: word_less_nat_alt)
  then have kp: "k < p" "unat k + 32768 \<le> unat p"
    using far e k l1 by (simp_all add: word_less_nat_alt)
  have "unat (discontinuity b) < 32768"
    using assms(7) by (simp add: discontinuity_def unat_of_nat_u32)
  moreover have "unat (p - k) = unat p - unat k" using kp(1) by (intro unat_sub) simp
  ultimately have jump: "\<not> p - k \<le> discontinuity b" using kp(2) by (simp add: word_le_nat_alt)
  let ?d1 = "update_jitter_at (?d0\<lparr>seq_cycles := ?c\<rparr>) ts' now'"
  have disc2: "discontinuity ?d1 = discontinuity b" using b1(3) by (simp add: discontinuity_def)
  have prep2: "push_prepare b1 (l + 1) ts' now' =
      Inr (?d1\<lparr>packets := [], playout_seq := None, playing := False, base_time := Some now'\<rparr>, k)"
    using b1(4,7) x2 kp(1) jump disc2 by (auto simp: push_prepare_def Let_def)
  have room: "make_room d = d" if "packets d = []" for d
    using that by (simp add: make_room_def bt_first_def)
  show ?thesis
    using b1(1,2) by (simp add: push_at_def prep2 room Let_def)
qed

definition demo_wrapped :: JitterBuffer where
  "demo_wrapped = (JitterBuffer_new demo_fixed)\<lparr>base_timestamp := Some 0, base_time := Some 0,
     last_seq := Some 2, seq_cycles := 1, playout_seq := Some 65536,
     packets := [(65537, buffered (65537, 320, [1], 0)), (65538, buffered (65538, 480, [2], 0))]\<rparr>"

theorem jitter_late_wrap_resets_witness:
  "map fst (packets demo_wrapped) = [65537, 65538] \<and>
   map fst (packets (snd (push_at (snd (push_at demo_wrapped 65534 0 [] 0)) 3 0 [] 0))) = [3]"
proof -
  have "map fst (packets (snd (push_at (snd (push_at demo_wrapped 65534 0 [] 0)) (2 + 1) 0 [] 0))) =
      [push_bit 16 (ucast (seq_cycles demo_wrapped - 1)) OR ucast (2 + 1 :: u16)]"
    using jitter_late_wrap_resets [of demo_wrapped 2 65536 65534 0 "[]" 0 0 "[]" 0]
    by (simp add: demo_wrapped_def JitterBuffer_new_def demo_fixed_def discontinuity_def)
  then show ?thesis by (simp add: demo_wrapped_def)
qed

end
