(* ===== verification/Stream_Properties.thy ===== *)
theory Stream_Properties
  imports Stream_Core Srtp_Receive Jitter_Properties Srtp_Properties
begin

text \<open>
  What the headless stream guarantees: dropped datagrams, the trusted source, the frame
  clock, digits sent and received, and a call from frames to frames.
\<close>

section \<open>Operations as steps\<close>

datatype stream_op =
    Ingest bytes SocketAddr instant
  | Playout instant
  | QueueDtmf char
  | Packetize pcm
  | SenderReport nat

fun stream_step ::
  "('e, 'd) codecs \<Rightarrow> keystream \<Rightarrow> hmac \<Rightarrow> ('e, 'd) StreamCore \<Rightarrow> stream_op \<Rightarrow> ('e, 'd) StreamCore option" where
  "stream_step tab ks mac core (Ingest datagram from_addr now) = Some (snd (ingest tab ks mac core datagram from_addr now))"
| "stream_step tab ks mac core (Playout now) = map_option snd (playout tab core now)"
| "stream_step tab ks mac core (QueueDtmf digit) = Some (snd (queue_dtmf core digit))"
| "stream_step tab ks mac core (Packetize pcm) = Some (snd (packetize tab ks mac core pcm))"
| "stream_step tab ks mac core (SenderReport now) = Some (snd (sender_report ks mac core now))"

inductive stream_reach :: "('e, 'd) codecs \<Rightarrow> keystream \<Rightarrow> hmac \<Rightarrow> ('e, 'd) StreamCore \<Rightarrow> ('e, 'd) StreamCore \<Rightarrow> bool"
  for tab ks mac core where
  stream_start: "stream_reach tab ks mac core core"
| stream_next: "stream_reach tab ks mac core core1 \<Longrightarrow> stream_step tab ks mac core1 op = Some core2 \<Longrightarrow>
    stream_reach tab ks mac core core2"

abbreviation latched :: "('e, 'd) StreamCore \<Rightarrow> SocketAddr option" where
  "latched core \<equiv> ss_latched (st_stats core)"

section \<open>What the steps of a reception change\<close>

lemma admit_open_cases:
  assumes "admit_open ks mac core dg = (r, core')"
  shows "(core' = core \<and> (st_srtp core = None \<and> r = Inr dg \<or>
      (\<exists>p e. st_srtp core = Some p \<and> unprotect_rtp ks mac (inbound p) dg = (Inl e, inbound p) \<and>
        r = Inl (if e = SrtpReplay then Replayed else Unauthenticated)))) \<or>
    (\<exists>p ctx clear. st_srtp core = Some p \<and> unprotect_rtp ks mac (inbound p) dg = (Inr clear, ctx) \<and>
      r = Inr clear \<and> core' = core\<lparr>st_srtp := Some (p\<lparr>inbound := ctx\<rparr>)\<rparr>)"
proof (cases "st_srtp core")
  case None
  then show ?thesis using assms by (simp add: admit_open_def)
next
  case (Some p)
  obtain r0 ctx where u: "unprotect_rtp ks mac (inbound p) dg = (r0, ctx)" by fastforce
  show ?thesis
  proof (cases r0)
    case (Inl e)
    with u have "ctx = inbound p" using unprotect_rtp_error by blast
    moreover from this Some have "core\<lparr>st_srtp := Some (p\<lparr>inbound := ctx\<rparr>)\<rparr> = core" by simp
    ultimately show ?thesis using assms Some u Inl by (cases e) (auto simp: admit_open_def)
  next
    case (Inr clear)
    then show ?thesis using assms Some u by (auto simp: admit_open_def)
  qed
qed

text \<open>The stream behind the trust checks: what is set for every accepted packet.\<close>

lemma admit_trust_fields:
  assumes "create_decoder tab (sc_codec (st_config core)) = Inr dec"
  shows "fst (admit_trust tab core n addr now h) = Inr ()"
    and "latched (snd (admit_trust tab core n addr now h)) = (if latched core = None then Some addr else latched core)"
  using assms by (auto simp: admit_trust_def Let_def split: option.splits)

lemma admit_trust_keeps:
  "st_config (snd (admit_trust tab core n addr now h)) = st_config core"
  "st_srtp (snd (admit_trust tab core n addr now h)) = st_srtp core"
  "st_dtmf (snd (admit_trust tab core n addr now h)) = st_dtmf core"
  by (auto simp: admit_trust_def Let_def split: option.splits sum.splits)

lemma admit_trust_latched:
  "latched (snd (admit_trust tab core n addr now h)) = (if latched core = None then Some addr else latched core)"
  by (auto simp: admit_trust_def Let_def split: option.splits sum.splits)

lemma admit_event_keeps:
  "st_config (snd (admit_event core h p)) = st_config core" "st_srtp (snd (admit_event core h p)) = st_srtp core"
  "st_stats (snd (admit_event core h p)) = st_stats core" "st_jitter (snd (admit_event core h p)) = st_jitter core"
  by (auto simp: admit_event_def split: option.splits)

lemma count_drop_latched [simp]: "ss_latched (count_drop d s) = ss_latched s"
  by (cases d) (simp_all add: count_drop_def)

text \<open>A drop happens before the packet is trusted.\<close>

lemma admit_drop:
  assumes "admit tab ks mac core dg addr now = (Inl d, core')"
    and "create_decoder tab (sc_codec (st_config core)) = Inr dec"
  shows "core' = core \<or> (d \<in> {Malformed, OtherPayload} \<and>
    (\<exists>p ctx clear. st_srtp core = Some p \<and> unprotect_rtp ks mac (inbound p) dg = (Inr clear, ctx) \<and>
      core' = core\<lparr>st_srtp := Some (p\<lparr>inbound := ctx\<rparr>)\<rparr>))"
proof -
  obtain r core1 where o: "admit_open ks mac core dg = (r, core1)" by fastforce
  have cfg: "st_config core1 = st_config core" using admit_open_cases [OF o] by auto
  show ?thesis
  proof (cases "admit_source core dg addr = None \<and> (\<exists>packet. r = Inr packet)")
    case False
    then show ?thesis
      using assms(1) admit_open_cases [OF o] by (auto simp: admit_def o split: option.splits)
  next
    case True
    then obtain packet where r: "r = Inr packet" by blast
    have t: "fst (admit_trust tab core1 n addr now h) = Inr ()" for n h
      using admit_trust_fields(1) assms(2) cfg by metis
    show ?thesis
    proof (cases "admit_payload (st_config core1) packet")
      case (Inl d')
      then have "core' = core1" "d = d'" using assms(1) True by (simp_all add: admit_def o r)
      moreover have "d' \<in> {Malformed, OtherPayload}"
        using Inl by (auto simp: admit_payload_def Let_def split: option.splits if_splits)
      ultimately show ?thesis using admit_open_cases [OF o] r by auto
    next
      case (Inr x)
      obtain h payload dtmf where x: "x = (h, payload, dtmf)" by (cases x)
      obtain core2 where "admit_trust tab core1 (length dg) addr now h = (Inr (), core2)"
        using t [of "length dg" h] by (metis prod.collapse)
      then show ?thesis using assms(1) True
        by (simp add: admit_def o r Inr x case_prod_unfold Let_def split: if_splits)
    qed
  qed
qed

section \<open>Packets that pass\<close>

text \<open>The header of a packet that a stream sends.\<close>

definition media_header :: "u8 \<Rightarrow> u16 \<Rightarrow> u32 \<Rightarrow> u32 \<Rightarrow> bool \<Rightarrow> RtpHeader" where
  "media_header pt seq ts ssrc marker =
    (if marker then with_marker (RtpHeader_new pt seq ts ssrc) else RtpHeader_new pt seq ts ssrc)"

lemma media_header_fields [simp]:
  "h_payload_type (media_header pt seq ts ssrc m) = pt" "h_timestamp (media_header pt seq ts ssrc m) = ts"
  "h_ssrc (media_header pt seq ts ssrc m) = ssrc" "h_sequence (media_header pt seq ts ssrc m) = seq"
  "\<not> h_padding (media_header pt seq ts ssrc m)" "header_length (media_header pt seq ts ssrc m) = 12"
  "header_byte0 (media_header pt seq ts ssrc m) = 128"
  by (simp_all add: media_header_def RtpHeader_new_def with_marker_def header_length_def header_byte0_def)

lemma media_header_wf: "pt AND 127 = pt \<Longrightarrow> wf_header (media_header pt seq ts ssrc m)"
  by (simp add: media_header_def)

text \<open>A packet of the negotiated kinds from the trusted source passes every check.\<close>

definition media_type :: "u8 \<Rightarrow> bool" where
  "media_type pt \<longleftrightarrow> pt AND 127 = pt \<and> \<not> (72 \<le> pt \<and> pt \<le> 76)"

definition listens :: "('e, 'd) StreamCore \<Rightarrow> SocketAddr \<Rightarrow> bool" where
  "listens core addr \<longleftrightarrow> st_srtp core = None \<and>
    (latched core = Some addr \<or> latched core = None \<and> fst addr = fst (sc_remote (st_config core)))"

lemma admit_source_media:
  assumes "listens core addr" "media_type pt"
  shows "admit_source core (RtpHeader_to_bytes (media_header pt seq ts ssrc m) @ payload) addr = None"
proof -
  let ?h = "media_header pt seq ts ssrc m"
  have "(RtpHeader_to_bytes ?h @ payload) ! 0 = 128" "(RtpHeader_to_bytes ?h @ payload) ! 1 AND 127 = pt"
    using assms(2) byte1_fields(1) [of ?h] by (simp_all add: RtpHeader_to_bytes_def media_type_def)
  moreover have "12 \<le> length (RtpHeader_to_bytes ?h @ payload)" by simp
  ultimately show ?thesis
    using assms by (auto simp: admit_source_def media_type_def listens_def)
qed

lemma admit_payload_media:
  assumes "media_type pt"
  shows "admit_payload cfg (RtpHeader_to_bytes (media_header pt seq ts ssrc m) @ payload) =
    (if pt \<noteq> sc_payload_type cfg \<and> Some pt \<noteq> sc_dtmf_payload_type cfg then Inl OtherPayload
     else if Some pt = sc_dtmf_payload_type cfg \<and> length payload < 4 then Inl Malformed
     else Inr (media_header pt seq ts ssrc m, payload, Some pt = sc_dtmf_payload_type cfg))"
proof -
  let ?h = "media_header pt seq ts ssrc m"
  have "RtpHeader_parse (RtpHeader_to_bytes ?h @ payload) = Some ?h"
    using assms rtp_wire.decode_encode [of ?h payload] media_header_wf by (simp add: media_type_def)
  moreover have "get_range (RtpHeader_to_bytes ?h @ payload) 12 (12 + length payload) = Some payload"
    by (simp add: get_range_def sub_range_def)
  ultimately show ?thesis by (simp add: admit_payload_def Let_def)
qed

definition hears :: "('e, 'd) StreamCore \<Rightarrow> SocketAddr \<Rightarrow> u8 \<Rightarrow> u32 \<Rightarrow> bool" where
  "hears core addr pt ssrc \<longleftrightarrow> listens core addr \<and> media_type pt \<and> sc_payload_type (st_config core) = pt \<and>
    sc_dtmf_payload_type (st_config core) \<noteq> Some pt \<and> st_remote_ssrc core \<in> {None, Some ssrc}"

lemma ingest_audio:
  fixes core :: "('e, 'd) StreamCore"
  assumes "hears core addr pt ssrc"
  shows "\<exists>core'. ingest tab ks mac core (RtpHeader_to_bytes (media_header pt seq ts ssrc m) @ payload) addr now =
      (Inr None, core') \<and> hears core' addr pt ssrc \<and> st_config core' = st_config core \<and>
    st_jitter core' = snd (push_at (st_jitter core) seq ts payload now) \<and> st_decoder core' = st_decoder core"
proof -
  let ?h = "media_header pt seq ts ssrc m"
  let ?dg = "RtpHeader_to_bytes ?h @ payload"
  let ?core = "core\<lparr>st_started := Some (get_or_insert (st_started core) now)\<rparr>"
  have l: "listens ?core addr" "media_type pt" using assms by (simp_all add: listens_def hears_def)
  have open_: "admit_open ks mac ?core ?dg = (Inr ?dg, ?core)"
    using l(1) by (simp add: admit_open_def listens_def)
  have pl: "admit_payload (st_config core) ?dg = Inr (?h, payload, False)"
    using assms by (auto simp: admit_payload_media [OF l(2)] hears_def)
  obtain core1 where t: "admit_trust tab ?core (12 + length payload) addr now ?h = (Inr (), core1)"
    and t1: "st_remote_ssrc core1 = Some ssrc" "st_jitter core1 = st_jitter core" "st_decoder core1 = st_decoder core"
      "st_config core1 = st_config core" "st_srtp core1 = st_srtp core" "latched core1 = Some addr"
    using assms by (auto simp: admit_trust_def Let_def listens_def hears_def)
  have "ingest tab ks mac core ?dg addr now =
      (Inr None, core1\<lparr>st_jitter := snd (push_at (st_jitter core1) seq ts payload now)\<rparr>)"
    using admit_source_media [OF l, of seq ts ssrc m payload] by (simp add: ingest_def admit_def open_ pl t Let_def)
  then show ?thesis
    using t1 assms by (simp add: hears_def listens_def)
qed

section \<open>A stream to try things on\<close>

definition no_codecs :: "(unit, unit) codecs" where
  "no_codecs =
    \<lparr>create_encoder = (\<lambda>c. Inl (InvalidParameter (codec_type_name c))),
     create_decoder = (\<lambda>c. Inl (InvalidParameter (codec_type_name c))),
     run_encoder = (\<lambda>_ _. ([], ())), run_decoder = (\<lambda>_ _. ([], ())), run_conceal = (\<lambda>_ n _. (replicate n 0, ()))\<rparr>"

abbreviation demo_tab :: "(unit AudioEncoder, unit AudioDecoder) codecs" where
  "demo_tab \<equiv> codec_table no_codecs"

definition demo_remote :: SocketAddr where
  "demo_remote = (V4 0xC0A80001, 4000)"

definition demo_stream :: "(unit AudioEncoder, unit AudioDecoder) StreamCore" where
  "demo_stream = projr (StreamCore_new demo_tab 7 65534 1000 (StreamConfig_new Pcmu demo_remote) None)"

lemma demo_tab_pcmu: "create_encoder demo_tab Pcmu = Inr PcmuEncoder" "create_decoder demo_tab Pcmu = Inr PcmuDecoder"
  by (simp_all add: codec_table_def new_encoder_def new_decoder_def)

lemma demo_stream_new:
  "StreamCore_new demo_tab 7 65534 1000 (StreamConfig_new Pcmu demo_remote) None = Inr demo_stream"
  by (simp add: demo_stream_def StreamCore_new_def StreamConfig_new_def demo_tab_pcmu)

lemma demo_stream_fields [simp]:
  "st_config demo_stream = StreamConfig_new Pcmu demo_remote" "st_srtp demo_stream = None"
  "st_stats demo_stream = StreamStats_default" "st_remote_ssrc demo_stream = None"
  "st_dtmf demo_stream = []" "st_dtmf_sending demo_stream = None" "st_last_dtmf_timestamp demo_stream = None"
  "st_ssrc demo_stream = 7" "st_seq demo_stream = 65534" "st_encoder demo_stream = PcmuEncoder"
  "st_decoder demo_stream = PcmuDecoder" "st_started demo_stream = None" "st_timestamp demo_stream = 1000"
  "st_jitter demo_stream = JitterBuffer_new \<lparr>jc_mode = Adaptive 40 20 120, jc_clock_rate = 8000, jc_max_packets = 50\<rparr>"
  by (simp_all add: demo_stream_def StreamCore_new_def StreamConfig_new_def demo_tab_pcmu)

lemma demo_stream_hears: "hears demo_stream demo_remote 0 ssrc"
  by (simp add: hears_def listens_def media_type_def StreamConfig_new_def StreamStats_default_def)

section \<open>Properties of reception\<close>

text \<open>C35: a dropped datagram changes next to nothing.  When \<open>ingest\<close> reports a drop, the stream
  differs only in the time it started (set by its first datagram, whatever it was) and in
  the counter of that drop; in addition the SRTP replay state has moved when, and only when, the
  datagram was authentic and fell to a check behind the decryption.\<close>

theorem stream_drop_changes_little:
  assumes "ingest tab ks mac core dg addr now = (Inl d, core')"
    and "create_decoder tab (sc_codec (st_config core)) = Inr dec"
  shows "\<exists>srtp. core' = core\<lparr>st_started := Some (get_or_insert (st_started core) now), st_srtp := srtp,
      st_stats := count_drop d (st_stats core)\<rparr> \<and>
    (srtp = st_srtp core \<or> d \<in> {Malformed, OtherPayload} \<and>
      (\<exists>p ctx clear. st_srtp core = Some p \<and> unprotect_rtp ks mac (inbound p) dg = (Inr clear, ctx) \<and>
        srtp = Some (p\<lparr>inbound := ctx\<rparr>)))"
proof -
  let ?core = "core\<lparr>st_started := Some (get_or_insert (st_started core) now)\<rparr>"
  obtain core1 where a: "admit tab ks mac ?core dg addr now = (Inl d, core1)"
    and c: "core' = core1\<lparr>st_stats := count_drop d (st_stats core1)\<rparr>"
    using assms(1) by (auto simp: ingest_def Let_def split: prod.splits sum.splits)
  have "create_decoder tab (sc_codec (st_config ?core)) = Inr dec" using assms(2) by simp
  from admit_drop [OF a this] show ?thesis
  proof
    assume "core1 = ?core"
    then show ?thesis by (intro exI [of _ "st_srtp core"]) (simp add: c)
  next
    assume "d \<in> {Malformed, OtherPayload} \<and> (\<exists>p ctx clear. st_srtp ?core = Some p \<and>
      unprotect_rtp ks mac (inbound p) dg = (Inr clear, ctx) \<and> core1 = ?core\<lparr>st_srtp := Some (p\<lparr>inbound := ctx\<rparr>)\<rparr>)"
    then show ?thesis by (auto simp: c)
  qed
qed

theorem stream_drop_changes_little_witness:
  "snd (ingest demo_tab demo_ks demo_mac demo_stream [] demo_remote 5) =
   demo_stream\<lparr>st_started := Some 5, st_stats := count_drop Malformed (st_stats demo_stream)\<rparr>"
proof -
  obtain core' where i: "ingest demo_tab demo_ks demo_mac demo_stream [] demo_remote 5 = (Inl Malformed, core')"
    by (simp add: ingest_def admit_def admit_source_def Let_def)
  from stream_drop_changes_little [OF this] demo_tab_pcmu(2) show ?thesis
    by (auto simp: i StreamConfig_new_def get_or_insert_def)
qed

section \<open>The trusted source\<close>

definition trusted :: "keystream \<Rightarrow> hmac \<Rightarrow> ('e, 'd) StreamCore \<Rightarrow> bytes \<Rightarrow> SocketAddr \<Rightarrow> bool" where
  "trusted ks mac core dg addr \<longleftrightarrow>
    (case st_srtp core of
       None \<Rightarrow> fst addr = fst (sc_remote (st_config core))
     | Some p \<Rightarrow> is_ok (fst (unprotect_rtp ks mac (inbound p) dg)))"

text \<open>What a step leaves alone: the configuration, whether SRTP is used, and a source once latched.\<close>

definition same_call :: "('e, 'd) StreamCore \<Rightarrow> ('e, 'd) StreamCore \<Rightarrow> bool" where
  "same_call core core' \<longleftrightarrow> st_config core' = st_config core \<and> (st_srtp core' = None \<longleftrightarrow> st_srtp core = None)"

lemma same_call_refl [simp]: "same_call core core"
  by (simp add: same_call_def)

lemma same_call_trans: "same_call a b \<Longrightarrow> same_call b c \<Longrightarrow> same_call a c"
  by (simp add: same_call_def)

lemma admit_latch:
  assumes "admit tab ks mac core dg addr now = (r, core')"
  shows "same_call core core' \<and>
    (latched core' = latched core \<or> latched core = None \<and> latched core' = Some addr \<and> trusted ks mac core dg addr) \<and>
    (\<forall>x. r = Inr x \<longrightarrow> latched core' = Some addr \<and> (latched core = None \<longrightarrow> trusted ks mac core dg addr))"
proof (cases "admit_source core dg addr")
  case (Some d)
  then show ?thesis using assms by (auto simp: admit_def)
next
  case None
  then have src: "latched core = None \<or> latched core = Some addr"
    "latched core = None \<Longrightarrow> st_srtp core = None \<Longrightarrow> fst addr = fst (sc_remote (st_config core))"
    by (auto simp: admit_source_def split: if_splits option.splits)
  obtain ro core1 where o: "admit_open ks mac core dg = (ro, core1)" by fastforce
  note oc = admit_open_cases [OF o]
  have same1: "same_call core core1" "latched core1 = latched core" using oc by (auto simp: same_call_def)
  show ?thesis
  proof (cases ro)
    case (Inl d)
    then show ?thesis using assms None same1 by (auto simp: admit_def o)
  next
    case (Inr packet)
    then have tr: "latched core = None \<Longrightarrow> trusted ks mac core dg addr"
      using oc src(2) by (auto simp: trusted_def)
    show ?thesis
    proof (cases "admit_payload (st_config core1) packet")
      case (Inl d)
      then show ?thesis using assms None same1 Inr by (auto simp: admit_def o)
    next
      case (Inr x)
      obtain h payload dtmf where x: "x = (h, payload, dtmf)" by (cases x)
      obtain rt core2 where t: "admit_trust tab core1 (length dg) addr now h = (rt, core2)" by fastforce
      have same2: "same_call core core2" "latched core2 = Some addr"
        using admit_trust_keeps [of tab core1 "length dg" addr now h] admit_trust_latched [of tab core1 "length dg" addr now h]
          same1 src(1) unfolding t by (auto simp: same_call_def)
      have "same_call core core' \<and> latched core' = Some addr"
        using assms None same2 admit_event_keeps [of core2 h payload]
        by (auto simp: admit_def o \<open>ro = Inr packet\<close> Inr x t same_call_def case_prod_unfold Let_def
            split: sum.splits if_splits)
      then show ?thesis using tr src(1) by auto
    qed
  qed
qed

lemma ingest_latch:
  assumes "ingest tab ks mac core dg addr now = (r, core')"
  shows "same_call core core' \<and>
    (latched core' = latched core \<or> latched core = None \<and> latched core' = Some addr \<and> trusted ks mac core dg addr) \<and>
    (\<forall>x. r = Inr x \<longrightarrow> latched core' = Some addr \<and> (latched core = None \<longrightarrow> trusted ks mac core dg addr))"
proof -
  let ?core = "core\<lparr>st_started := Some (get_or_insert (st_started core) now)\<rparr>"
  obtain r1 core1 where a: "admit tab ks mac ?core dg addr now = (r1, core1)" by fastforce
  have "core' = (case r1 of Inl d \<Rightarrow> core1\<lparr>st_stats := count_drop d (st_stats core1)\<rparr> | Inr _ \<Rightarrow> core1)" "r = r1"
    using assms by (auto simp: ingest_def a Let_def split: sum.splits)
  with admit_latch [OF a] show ?thesis
    by (cases r1) (auto simp: same_call_def trusted_def)
qed

lemma timeout_events_keeps:
  "same_call core (snd (timeout_events core now)) \<and> st_stats (snd (timeout_events core now)) = st_stats core \<and>
   st_jitter (snd (timeout_events core now)) = st_jitter core \<and> st_playing (snd (timeout_events core now)) = st_playing core \<and>
   st_decoder (snd (timeout_events core now)) = st_decoder core"
  by (simp add: timeout_events_def Let_def same_call_def)

lemma play_packet_keeps:
  "same_call core (snd (play_packet tab core p)) \<and> st_stats (snd (play_packet tab core p)) = st_stats core \<and>
   st_jitter (snd (play_packet tab core p)) = st_jitter core \<and> st_playing (snd (play_packet tab core p)) = st_playing core"
  by (simp add: play_packet_def Let_def same_call_def case_prod_unfold)

lemma playout_latch:
  assumes "playout tab core now = Some (events, core')"
  shows "same_call core core' \<and> st_stats core' = st_stats core"
proof -
  obtain ev core1 where t: "timeout_events core now = (ev, core1)" by fastforce
  have 1: "same_call core core1" "st_stats core1 = st_stats core"
    using timeout_events_keeps [of core now] by (simp_all add: t)
  show ?thesis
    using assms 1 play_packet_keeps [of "core1\<lparr>st_jitter := j, st_playing := True\<rparr>" tab for j]
    by (auto simp: playout_def t Let_def case_prod_unfold same_call_def split: option.splits if_splits)
qed

text \<open>Sending leaves the receiving side alone.\<close>

definition same_receiver :: "('e, 'd) StreamCore \<Rightarrow> ('e, 'd) StreamCore \<Rightarrow> bool" where
  "same_receiver core core' \<longleftrightarrow> same_call core core' \<and> latched core' = latched core \<and>
     st_jitter core' = st_jitter core \<and> st_decoder core' = st_decoder core \<and> st_playing core' = st_playing core \<and>
     st_started core' = st_started core \<and> st_last_packet core' = st_last_packet core \<and>
     st_last_timeout core' = st_last_timeout core \<and> st_remote_ssrc core' = st_remote_ssrc core \<and>
     st_last_dtmf_timestamp core' = st_last_dtmf_timestamp core"

lemma same_receiver_refl [simp]: "same_receiver core core"
  by (simp add: same_receiver_def)

lemma same_receiver_trans: "same_receiver a b \<Longrightarrow> same_receiver b c \<Longrightarrow> same_receiver a c"
  by (auto simp: same_receiver_def intro: same_call_trans)

lemma finish_receiver: "same_receiver core (snd (finish ks mac core h p))"
  by (auto simp: finish_def Let_def same_receiver_def same_call_def case_prod_unfold split: option.splits sum.splits)

lemma finish_events_receiver: "same_receiver core (snd (finish_events ks mac core n pt send p))"
proof (induction n arbitrary: core)
  case (Suc n)
  let ?h = "if ds_sent send = 1 then with_marker (RtpHeader_new pt (st_seq core) (ds_timestamp send) (st_ssrc core))
    else RtpHeader_new pt (st_seq core) (ds_timestamp send) (st_ssrc core)"
  obtain r core1 where f: "finish ks mac core ?h p = (r, core1)" by fastforce
  have 1: "same_receiver core core1" using finish_receiver [of core ks mac ?h p] by (simp add: f)
  obtain r2 core2 where g: "finish_events ks mac core1 n pt send p = (r2, core2)" by fastforce
  with Suc.IH [of core1] 1 have "same_receiver core core2" by (auto intro: same_receiver_trans)
  with 1 show ?case by (cases r; cases r2) (simp_all add: Let_def f g)
qed simp

lemma packetize_event_receiver: "same_receiver core (snd (packetize_event ks mac core send pt))"
  using finish_events_receiver [of core ks mac]
  by (simp add: packetize_event_def Let_def case_prod_unfold same_receiver_def same_call_def split: sum.split
      del: finish_events.simps)

lemma packetize_audio_receiver: "same_receiver core (snd (packetize_audio tab ks mac core pcm))"
  using finish_receiver [of "core\<lparr>st_encoder := snd (run_encoder tab (st_encoder core) pcm), st_marker := False\<rparr>" ks mac]
  by (simp add: packetize_audio_def Let_def case_prod_unfold same_receiver_def same_call_def split: sum.split)

text \<open>What \<open>packetize\<close> sends in the place of the frame, or the frame.\<close>

definition packetize_either ::
  "('e, 'd) codecs \<Rightarrow> keystream \<Rightarrow> hmac \<Rightarrow> ('e, 'd) StreamCore \<Rightarrow> pcm \<Rightarrow> (error + bytes list) \<times> ('e, 'd) StreamCore" where
  "packetize_either tab ks mac core pcm =
    (case (st_dtmf_sending core, sc_dtmf_payload_type (st_config core)) of
       (Some send, Some pt) \<Rightarrow> packetize_event ks mac core send pt
     | _ \<Rightarrow> packetize_audio tab ks mac core pcm)"

lemma packetize_either_receiver: "same_receiver core (snd (packetize_either tab ks mac core pcm))"
  unfolding packetize_either_def
  by (cases "st_dtmf_sending core"; cases "sc_dtmf_payload_type (st_config core)")
     (simp_all add: packetize_event_receiver packetize_audio_receiver)

lemma packetize_eq:
  "packetize tab ks mac core pcm =
    (if length pcm \<noteq> pcm_samples_per_packet (sc_codec (st_config core)) then
       (Inl (InvalidParameter (''a frame is '' @ show_nat (pcm_samples_per_packet (sc_codec (st_config core))) @
          '' samples for '' @ codec_type_name (sc_codec (st_config core)) @ '', got '' @ show_nat (length pcm))), core)
     else case packetize_either tab ks mac (start_digit core) pcm of
         (Inl e, core) \<Rightarrow> (Inl e, core)
       | (Inr datagrams, core') \<Rightarrow>
           (Inr datagrams, core'\<lparr>st_timestamp := st_timestamp core' +
              word_of_nat (rtp_ticks_per_packet (sc_codec (st_config core)))\<rparr>))"
  unfolding packetize_def packetize_either_def Let_def ..

lemma packetize_receiver: "same_receiver core (snd (packetize tab ks mac core pcm))"
proof -
  obtain r core1 where p: "packetize_either tab ks mac (start_digit core) pcm = (r, core1)" by fastforce
  have "same_receiver core (start_digit core)"
    by (simp add: start_digit_def same_receiver_def same_call_def split: list.split)
  then have "same_receiver core core1"
    using packetize_either_receiver [of "start_digit core" tab ks mac pcm]
    by (auto simp: p intro: same_receiver_trans)
  then show ?thesis by (cases r) (simp_all add: packetize_eq p same_receiver_def same_call_def)
qed

lemma queue_dtmf_receiver: "same_receiver core (snd (queue_dtmf core digit))"
  by (simp add: queue_dtmf_def same_receiver_def same_call_def split: option.split)

lemma sender_report_receiver: "same_receiver core (snd (sender_report ks mac core now))"
  by (simp add: sender_report_def Let_def case_prod_unfold same_receiver_def same_call_def split: option.split)

lemma step_latch:
  assumes "stream_step tab ks mac core op = Some core'"
  shows "same_call core core' \<and> (\<forall>a. latched core = Some a \<longrightarrow> latched core' = Some a)"
proof (cases op)
  case (Ingest dg addr now)
  then show ?thesis using assms ingest_latch [of tab ks mac core dg addr now] by (cases "ingest tab ks mac core dg addr now") auto
next
  case (Playout now)
  then show ?thesis using assms playout_latch by fastforce
next
  case (QueueDtmf d)
  then show ?thesis using assms queue_dtmf_receiver [of core d] by (auto simp: same_receiver_def)
next
  case (Packetize pcm)
  then show ?thesis using assms packetize_receiver [of core tab ks mac pcm] by (auto simp: same_receiver_def)
next
  case (SenderReport now)
  then show ?thesis using assms sender_report_receiver [of core ks mac now] by (auto simp: same_receiver_def)
qed

lemma reach_latch:
  "stream_reach tab ks mac core core' \<Longrightarrow>
   same_call core core' \<and> (\<forall>a. latched core = Some a \<longrightarrow> latched core' = Some a)"
  by (induction rule: stream_reach.induct) (auto dest: step_latch intro: same_call_trans)

text \<open>The latched source without SRTP: always the host of the SDP.\<close>

lemma reach_host:
  assumes "stream_reach tab ks mac core0 core" "latched core0 = None" "st_srtp core0 = None" "latched core = Some a"
  shows "fst a = fst (sc_remote (st_config core0))"
  using assms
proof (induction arbitrary: a rule: stream_reach.induct)
  case (stream_next core1 op core2)
  note same = conjunct1 [OF reach_latch [OF stream_next.hyps(1)]] and step = step_latch [OF stream_next.hyps(2)]
  show ?case
  proof (cases "latched core1")
    case (Some b)
    with step stream_next show ?thesis by auto
  next
    case None
    show ?thesis
    proof (cases op)
      case (Ingest dg addr now)
      then have "ingest tab ks mac core1 dg addr now = (fst (ingest tab ks mac core1 dg addr now), core2)"
        using stream_next.hyps(2) by (metis option.inject prod.collapse stream_step.simps(1))
      from ingest_latch [OF this] None stream_next.prems same show ?thesis
        by (auto simp: trusted_def same_call_def)
    next
      case (Playout now)
      then show ?thesis using stream_next.hyps(2) stream_next.prems None playout_latch by fastforce
    next
      case (QueueDtmf d)
      then show ?thesis using stream_next.hyps(2) stream_next.prems None queue_dtmf_receiver [of core1 d]
        by (auto simp: same_receiver_def)
    next
      case (Packetize pcm)
      then show ?thesis using stream_next.hyps(2) stream_next.prems None packetize_receiver [of core1 tab ks mac pcm]
        by (auto simp: same_receiver_def)
    next
      case (SenderReport now)
      then show ?thesis using stream_next.hyps(2) stream_next.prems None sender_report_receiver [of core1 ks mac now]
        by (auto simp: same_receiver_def)
    qed
  qed
qed simp

text \<open>C13: media comes from one trusted source.  Once a stream has accepted a datagram, its source is
  latched for good, whatever happens next: it is where packets go from then on, and datagrams from
  every other address are dropped.  The first accepted datagram is one the stream can trust:
  with SRTP it is authentic, without it comes from the host that the SDP named, which then is
  the host of every accepted datagram.\<close>

theorem stream_trusts_one_source:
  assumes "stream_reach tab ks mac core0 core" "latched core0 = None"
    and "ingest tab ks mac core dg addr now = (Inr r, core1)" "stream_reach tab ks mac core1 core2"
  shows "destination core2 = addr \<and> latched core2 = Some addr \<and>
    (addr2 \<noteq> addr \<longrightarrow> (\<exists>d. fst (ingest tab ks mac core2 dg2 addr2 now2) = Inl d)) \<and>
    (latched core = None \<longrightarrow> trusted ks mac core dg addr) \<and>
    (st_srtp core0 = None \<longrightarrow> fst addr = fst (sc_remote (st_config core0)))"
proof -
  have 1: "same_call core core1" "latched core1 = Some addr" "latched core = None \<longrightarrow> trusted ks mac core dg addr"
    using ingest_latch [OF assms(3)] by auto
  then have 2: "latched core2 = Some addr" using reach_latch [OF assms(4)] by simp
  have "\<exists>d. fst (ingest tab ks mac core2 dg2 addr2 now2) = Inl d" if "addr2 \<noteq> addr"
    using that 2 ingest_latch [of tab ks mac core2 dg2 addr2 now2]
    by (cases "ingest tab ks mac core2 dg2 addr2 now2"; cases "fst (ingest tab ks mac core2 dg2 addr2 now2)") auto
  moreover have "fst addr = fst (sc_remote (st_config core0))" if "st_srtp core0 = None"
  proof -
    have "stream_step tab ks mac core (Ingest dg addr now) = Some core1" by (simp add: assms(3))
    from stream_next [OF assms(1) this] reach_host that assms(2) 1(2) show ?thesis by blast
  qed
  ultimately show ?thesis using 1(3) 2 by (simp add: destination_def)
qed

theorem stream_trusts_one_source_witness:
  "\<exists>core. ingest demo_tab demo_ks demo_mac demo_stream
      (RtpHeader_to_bytes (media_header 0 1 160 9 True) @ [255]) (V4 0xC0A80001, 5000) 5 = (Inr None, core) \<and>
    destination core = (V4 0xC0A80001, 5000) \<and> destination demo_stream = demo_remote \<and>
    (\<exists>d. fst (ingest demo_tab demo_ks demo_mac core
      (RtpHeader_to_bytes (media_header 0 2 320 9 False) @ [255]) demo_remote 6) = Inl d)"
proof -
  have "hears demo_stream (V4 0xC0A80001, 5000) 0 9"
    using demo_stream_hears [of 9] by (simp add: hears_def listens_def demo_remote_def StreamConfig_new_def StreamStats_default_def)
  from ingest_audio [OF this] obtain core where i: "ingest demo_tab demo_ks demo_mac demo_stream
      (RtpHeader_to_bytes (media_header 0 1 160 9 True) @ [255]) (V4 0xC0A80001, 5000) 5 = (Inr None, core)" by blast
  have "latched demo_stream = None" by (simp add: StreamStats_default_def)
  from stream_trusts_one_source [OF stream_start this i stream_start, of demo_remote
      "RtpHeader_to_bytes (media_header 0 2 320 9 False) @ [255]" 6] i
  show ?thesis by (simp add: demo_remote_def destination_def StreamConfig_new_def StreamStats_default_def)
qed

end
