(* ===== verification/Stream_Digits.thy ===== *)
theory Stream_Digits
  imports Stream_Properties
begin

text \<open>
  Telephone events: what a queued digit puts on the wire, and what the receiving stream makes of
  any selection of those packets.
\<close>

section \<open>Digits and their codes\<close>

lemma char_of_ccode: "c = char_of (ccode c)"
  by (simp add: ccode_def)

lemma dtmf_code_upper:
  assumes "dtmf_event_code c = Some e"
  shows "to_upper_char c \<in> set ''0123456789*#ABCD''"
proof -
  let ?d = "ccode (to_upper_char c)"
  have "?d \<in> {48..57} \<or> ?d = 42 \<or> ?d = 35 \<or> ?d \<in> {65..68}"
    using assms by (auto simp: dtmf_event_code_def Let_def ccode_def split: if_splits)
  then have "?d \<in> {48, 49, 50, 51, 52, 53, 54, 55, 56, 57, 42, 35, 65, 66, 67, 68}"
    unfolding atLeastAtMost_iff insert_iff empty_iff by presburger
  then have "to_upper_char c \<in> char_of ` {48, 49, 50, 51, 52, 53, 54, 55, 56, 57, 42, 35, 65, 66, 67, 68 :: nat}"
    using char_of_ccode [of "to_upper_char c"] by blast
  then show ?thesis by (simp add: char_of_def bit_Suc_0_iff)
qed

lemma dtmf_code_table:
  assumes "dtmf_event_code c = Some e"
  shows "dtmf_digit e = Some (to_upper_char c) \<and> e \<le> 15"
proof -
  have "\<forall>u\<in>set ''0123456789*#ABCD''. \<forall>e. (if ccode (CHR ''0'') \<le> ccode u \<and> ccode u \<le> ccode (CHR ''9'')
      then Some (word_of_nat (ccode u - ccode (CHR ''0'')))
     else if ccode u = ccode (CHR ''*'') then Some 10
     else if ccode u = ccode (CHR ''#'') then Some 11
     else if ccode (CHR ''A'') \<le> ccode u \<and> ccode u \<le> ccode (CHR ''D'')
     then Some (word_of_nat (ccode u - ccode (CHR ''A'') + 12))
     else None) = Some e \<longrightarrow> dtmf_digit e = Some u \<and> e \<le> 15"
    by (simp add: ccode_def dtmf_digit_def char_of_def bit_Suc_0_iff)
  with dtmf_code_upper [OF assms] assms show ?thesis
    unfolding dtmf_event_code_def Let_def by blast
qed

section \<open>A digit on the wire\<close>

text \<open>The packets of a stream in the clear are the header, then the payload.\<close>

lemma finish_clear:
  assumes "st_srtp core = None"
  shows "finish ks mac core h p =
    (Inr (RtpHeader_to_bytes h @ p), core\<lparr>st_seq := st_seq core + 1, st_stats := (st_stats core)
      \<lparr>ss_packets_sent := ss_packets_sent (st_stats core) + 1,
       ss_bytes_sent := ss_bytes_sent (st_stats core) + word_of_nat (length (RtpHeader_to_bytes h @ p))\<rparr>\<rparr>)"
  using assms by (simp add: finish_def Let_def)

definition event_datagram :: "StreamConfig \<Rightarrow> u8 \<Rightarrow> u32 \<Rightarrow> u16 \<Rightarrow> DtmfSend \<Rightarrow> bool \<Rightarrow> bytes" where
  "event_datagram cfg pt ssrc seq send is_end =
    RtpHeader_to_bytes (media_header pt seq (ds_timestamp send) ssrc (ds_sent send = 1)) @
    event_payload cfg send is_end"

text \<open>What the digits of a stream depend on and do not change.\<close>

definition sending :: "('e, 'd) StreamCore \<Rightarrow> StreamConfig \<times> u32 \<times> u8 list" where
  "sending core = (st_config core, st_ssrc core, st_dtmf core)"

lemma finish_events_clear:
  assumes "st_srtp core = None"
  shows "\<exists>core'. finish_events ks mac core n pt send p =
      (Inr (map (\<lambda>i. RtpHeader_to_bytes (media_header pt (st_seq core + word_of_nat i) (ds_timestamp send)
         (st_ssrc core) (ds_sent send = 1)) @ p) [0..<n]), core') \<and>
    st_srtp core' = None \<and> st_seq core' = st_seq core + word_of_nat n \<and> sending core' = sending core"
  using assms
proof (induction n arbitrary: core)
  case (Suc n)
  let ?h = "media_header pt (st_seq core) (ds_timestamp send) (st_ssrc core) (ds_sent send = 1)"
  obtain core1 where f: "finish ks mac core ?h p = (Inr (RtpHeader_to_bytes ?h @ p), core1)"
    "st_srtp core1 = None" "st_seq core1 = st_seq core + 1" "sending core1 = sending core"
    using finish_clear [OF Suc.prems] Suc.prems by (simp add: sending_def)
  obtain core2 where g: "finish_events ks mac core1 n pt send p =
      (Inr (map (\<lambda>i. RtpHeader_to_bytes (media_header pt (st_seq core1 + word_of_nat i) (ds_timestamp send)
         (st_ssrc core1) (ds_sent send = 1)) @ p) [0..<n]), core2)"
    "st_srtp core2 = None" "st_seq core2 = st_seq core1 + word_of_nat n" "sending core2 = sending core1"
    using Suc.IH [OF f(2)] by blast
  have "st_ssrc core1 = st_ssrc core" using f(4) by (simp add: sending_def)
  moreover have maps: "map (\<lambda>i. f (st_seq core + word_of_nat i)) [0..<Suc n] =
      f (st_seq core) # map (\<lambda>i. f (st_seq core1 + word_of_nat i)) [0..<n]" for f :: "u16 \<Rightarrow> bytes"
    by (subst upt_conv_Cons) (simp_all add: f(3) map_Suc_upt [symmetric] comp_def add.assoc del: upt_Suc)
  moreover have "finish_events ks mac core (Suc n) pt send p = (Inr ((RtpHeader_to_bytes ?h @ p) #
      map (\<lambda>i. RtpHeader_to_bytes (media_header pt (st_seq core1 + word_of_nat i) (ds_timestamp send)
         (st_ssrc core1) (ds_sent send = 1)) @ p) [0..<n]), core2)"
    using f(1) g(1) by (simp add: Let_def media_header_def)
  ultimately show ?case
    using f g maps [of "\<lambda>s. RtpHeader_to_bytes (media_header pt s (ds_timestamp send) (st_ssrc core)
      (ds_sent send = 1)) @ p"] by (simp add: add.assoc del: upt_Suc finish_events.simps)
qed (simp add: sending_def)

fun packetize_all ::
  "('e, 'd) codecs \<Rightarrow> keystream \<Rightarrow> hmac \<Rightarrow> ('e, 'd) StreamCore \<Rightarrow> pcm list \<Rightarrow>
   (error + bytes list) \<times> ('e, 'd) StreamCore" where
  "packetize_all tab ks mac core [] = (Inr [], core)"
| "packetize_all tab ks mac core (pcm # rest) =
    (case packetize tab ks mac core pcm of
       (Inl e, core) \<Rightarrow> (Inl e, core)
     | (Inr datagrams, core) \<Rightarrow>
        (case packetize_all tab ks mac core rest of
           (Inl e, core) \<Rightarrow> (Inl e, core)
         | (Inr following, core) \<Rightarrow> (Inr (datagrams @ following), core)))"

text \<open>The \<open>i\<close>-th packet of a digit of \<open>n\<close> frames: one packet a frame, and the last three times.\<close>

definition digit_frames :: "StreamConfig \<Rightarrow> nat" where
  "digit_frames cfg = unat (max (sc_dtmf_packets cfg) 1)"

definition digit_datagram :: "StreamConfig \<Rightarrow> u8 \<Rightarrow> u32 \<Rightarrow> u16 \<Rightarrow> u8 \<Rightarrow> u32 \<Rightarrow> nat \<Rightarrow> bytes" where
  "digit_datagram cfg pt ssrc seq event ts i =
    event_datagram cfg pt ssrc (seq + word_of_nat i)
      \<lparr>ds_event = event, ds_timestamp = ts, ds_sent = word_of_nat (min (Suc i) (digit_frames cfg))\<rparr>
      (Suc i \<ge> digit_frames cfg)"

lemma digit_frames_pos: "0 < digit_frames cfg" "digit_frames cfg < 65536"
proof -
  have "(0 :: u16) < max (sc_dtmf_packets cfg) 1" by (simp add: less_max_iff_disj)
  then show "0 < digit_frames cfg" by (simp add: digit_frames_def word_less_nat_alt)
  show "digit_frames cfg < 65536" by (simp add: digit_frames_def u16_lt)
qed

lemma digit_end: "k < digit_frames cfg \<Longrightarrow>
  (word_of_nat (Suc k) \<ge> max (sc_dtmf_packets cfg) 1) = (Suc k \<ge> digit_frames cfg)"
  using digit_frames_pos(2) [of cfg] by (simp add: word_le_nat_alt unat_of_nat_u16 digit_frames_def del: of_nat_Suc)

text \<open>One frame of a digit.\<close>

lemma packetize_event_clear:
  assumes "st_srtp core = None" "k < digit_frames (st_config core)" "st_seq core = seq + word_of_nat k"
    and s: "send = \<lparr>ds_event = event, ds_timestamp = ts, ds_sent = word_of_nat k\<rparr>"
  shows "\<exists>core'. packetize_event ks mac core send pt =
      (Inr (map (digit_datagram (st_config core) pt (st_ssrc core) seq event ts)
        [k..<(if Suc k \<ge> digit_frames (st_config core) then k + 3 else Suc k)]), core') \<and>
    st_srtp core' = None \<and> sending core' = sending core \<and> st_marker core' \<and>
    st_seq core' = seq + word_of_nat (if Suc k \<ge> digit_frames (st_config core) then k + 3 else Suc k) \<and>
    st_dtmf_sending core' =
      (if Suc k \<ge> digit_frames (st_config core) then None else Some (send\<lparr>ds_sent := word_of_nat (Suc k)\<rparr>))"
proof -
  let ?cfg = "st_config core"
  let ?send = "send\<lparr>ds_sent := ds_sent send + 1\<rparr>"
  let ?final = "Suc k \<ge> digit_frames ?cfg"
  let ?n = "if ?final then 3 else 1 :: nat"
  have sent: "ds_sent send + 1 = word_of_nat (Suc k)" by (simp add: s)
  have e: "(ds_sent ?send \<ge> max (sc_dtmf_packets ?cfg) 1) = ?final"
    using digit_end [OF assms(2)] by (simp add: sent del: of_nat_Suc)
  obtain core1 where f: "finish_events ks mac core ?n pt ?send (event_payload ?cfg ?send ?final) =
      (Inr (map (\<lambda>i. RtpHeader_to_bytes (media_header pt (st_seq core + word_of_nat i) (ds_timestamp ?send)
         (st_ssrc core) (ds_sent ?send = 1)) @ event_payload ?cfg ?send ?final) [0..<?n]), core1)"
    "st_srtp core1 = None" "st_seq core1 = st_seq core + word_of_nat ?n" "sending core1 = sending core"
    using finish_events_clear [OF assms(1)] by blast
  have "map (\<lambda>i. RtpHeader_to_bytes (media_header pt (st_seq core + word_of_nat i) (ds_timestamp ?send)
         (st_ssrc core) (ds_sent ?send = 1)) @ event_payload ?cfg ?send ?final) [0..<?n] =
      map (digit_datagram ?cfg pt (st_ssrc core) seq event ts) [k..<k + ?n]"
  proof (rule nth_equalityI)
    fix i assume "i < length (map (\<lambda>i. RtpHeader_to_bytes (media_header pt (st_seq core + word_of_nat i)
      (ds_timestamp ?send) (st_ssrc core) (ds_sent ?send = 1)) @ event_payload ?cfg ?send ?final) [0..<?n])"
    then have i: "i < ?n" by simp
    have "min (Suc (k + i)) (digit_frames ?cfg) = Suc k" "(digit_frames ?cfg \<le> Suc (k + i)) = ?final"
      using i assms(2) by (auto split: if_splits)
    then show "map (\<lambda>i. RtpHeader_to_bytes (media_header pt (st_seq core + word_of_nat i) (ds_timestamp ?send)
         (st_ssrc core) (ds_sent ?send = 1)) @ event_payload ?cfg ?send ?final) [0..<?n] ! i =
      map (digit_datagram ?cfg pt (st_ssrc core) seq event ts) [k..<k + ?n] ! i"
      using i by (simp add: digit_datagram_def event_datagram_def s assms(3) ac_simps)
  qed simp
  moreover have "packetize_event ks mac core send pt =
      (Inr (map (\<lambda>i. RtpHeader_to_bytes (media_header pt (st_seq core + word_of_nat i) (ds_timestamp ?send)
         (st_ssrc core) (ds_sent ?send = 1)) @ event_payload ?cfg ?send ?final) [0..<?n]),
       core1\<lparr>st_dtmf_sending := (if ?final then None else Some ?send), st_marker := True\<rparr>)"
    unfolding packetize_event_def Let_def e f(1) by simp
  ultimately show ?thesis
    using f(2-4) sent assms(3) by (auto simp: sending_def)
qed

text \<open>All of a digit, from its \<open>k\<close>-th frame.\<close>

lemma start_digit_idle: "st_dtmf_sending core = Some send \<Longrightarrow> start_digit core = core"
  by (simp add: start_digit_def split: list.split)

lemma start_digit_config [simp]:
  "st_config (start_digit core) = st_config core" "st_srtp (start_digit core) = st_srtp core"
  "st_seq (start_digit core) = st_seq core" "st_ssrc (start_digit core) = st_ssrc core"
  by (auto simp: start_digit_def split: list.split)

lemma digit_rest:
  assumes "st_srtp core = None" "sc_dtmf_payload_type (st_config core) = Some pt"
    and "st_dtmf_sending (start_digit core) = Some \<lparr>ds_event = event, ds_timestamp = ts, ds_sent = word_of_nat k\<rparr>"
    and "st_seq core = seq + word_of_nat k" "k < digit_frames (st_config core)"
    and "length pcms = digit_frames (st_config core) - k"
    and "\<forall>pcm\<in>set pcms. length pcm = pcm_samples_per_packet (sc_codec (st_config core))"
  shows "\<exists>core'. packetize_all tab ks mac core pcms =
      (Inr (map (digit_datagram (st_config core) pt (st_ssrc core) seq event ts)
        [k..<digit_frames (st_config core) + 2]), core') \<and>
    st_srtp core' = None \<and> sending core' = sending (start_digit core) \<and> st_marker core' \<and>
    st_seq core' = seq + word_of_nat (digit_frames (st_config core) + 2) \<and> st_dtmf_sending core' = None"
  using assms
proof (induction pcms arbitrary: core k)
  case (Cons pcm pcms)
  let ?cfg = "st_config core"
  let ?n = "digit_frames ?cfg"
  let ?core = "start_digit core"
  let ?send = "\<lparr>ds_event = event, ds_timestamp = ts, ds_sent = word_of_nat k\<rparr>"
  obtain core1 where e: "packetize_event ks mac ?core ?send pt =
      (Inr (map (digit_datagram ?cfg pt (st_ssrc core) seq event ts) [k..<(if Suc k \<ge> ?n then k + 3 else Suc k)]), core1)"
    "st_srtp core1 = None" "sending core1 = sending ?core" "st_marker core1"
    "st_seq core1 = seq + word_of_nat (if Suc k \<ge> ?n then k + 3 else Suc k)"
    "st_dtmf_sending core1 = (if Suc k \<ge> ?n then None else Some (?send\<lparr>ds_sent := word_of_nat (Suc k)\<rparr>))"
    using packetize_event_clear [of ?core k seq ?send event ts ks mac pt] Cons.prems by auto
  let ?core1 = "core1\<lparr>st_timestamp := st_timestamp core1 + word_of_nat (rtp_ticks_per_packet (sc_codec ?cfg))\<rparr>"
  have p: "packetize tab ks mac core pcm =
      (Inr (map (digit_datagram ?cfg pt (st_ssrc core) seq event ts) [k..<(if Suc k \<ge> ?n then k + 3 else Suc k)]), ?core1)"
    using Cons.prems(2,3,7) e(1) by (simp add: packetize_eq packetize_either_def)
  show ?case
  proof (cases "Suc k \<ge> ?n")
    case True
    moreover have "Suc (length pcms) = ?n - k" using Cons.prems(6) by simp
    ultimately have n: "?n + 2 = k + 3" and "length pcms = 0" using Cons.prems(5) by linarith+
    then show ?thesis unfolding n using p e True by (simp add: sending_def)
  next
    case False
    have same: "st_config core1 = ?cfg" "st_ssrc core1 = st_ssrc core" using e(3) by (simp_all add: sending_def)
    have start: "start_digit ?core1 = ?core1" using e(6) False by (simp add: start_digit_idle)
    have len: "length pcms = ?n - Suc k" using Cons.prems(6) by simp
    obtain core2 where r: "packetize_all tab ks mac ?core1 pcms =
        (Inr (map (digit_datagram ?cfg pt (st_ssrc core) seq event ts) [Suc k..<?n + 2]), core2)"
      "st_srtp core2 = None" "sending core2 = sending ?core1" "st_marker core2"
      "st_seq core2 = seq + word_of_nat (?n + 2)" "st_dtmf_sending core2 = None"
      using Cons.IH [of ?core1 "Suc k"] Cons.prems False e same start len
      by (auto simp del: of_nat_Suc upt_Suc)
    have "[k..<?n + 2] = [k] @ [Suc k..<?n + 2]" using Cons.prems(5) by (simp add: upt_conv_Cons)
    then show ?thesis using p r e(3) False by (simp add: sending_def)
  qed
qed simp

section \<open>Receiving\<close>

lemma ingest_event:
  fixes core :: "('e, 'd) StreamCore"
  assumes "listens core addr" "sc_dtmf_payload_type (st_config core) = Some pt" "media_type pt"
    and "st_remote_ssrc core \<in> {None, Some ssrc}" "4 \<le> length payload" "dtmf_digit (payload ! 0) = Some digit"
    and new: "new = (case st_last_dtmf_timestamp core of None \<Rightarrow> True | Some lst \<Rightarrow> 0 < sint (ts - lst))"
  shows "\<exists>core'. ingest tab ks mac core (RtpHeader_to_bytes (media_header pt seq ts ssrc m) @ payload) addr now =
      (Inr (if new then Some \<lparr>de_digit = digit, de_event = payload ! 0\<rparr> else None), core') \<and>
    listens core' addr \<and> st_config core' = st_config core \<and> st_remote_ssrc core' = Some ssrc \<and>
    st_last_dtmf_timestamp core' = (if new then Some ts else st_last_dtmf_timestamp core)"
proof -
  let ?h = "media_header pt seq ts ssrc m"
  let ?dg = "RtpHeader_to_bytes ?h @ payload"
  let ?core = "core\<lparr>st_started := Some (get_or_insert (st_started core) now)\<rparr>"
  have l: "listens ?core addr" using assms(1) by (simp add: listens_def)
  have open_: "admit_open ks mac ?core ?dg = (Inr ?dg, ?core)"
    using assms(1) by (simp add: admit_open_def listens_def)
  have pl: "admit_payload (st_config core) ?dg = Inr (?h, payload, True)"
    using assms(2,5) by (simp add: admit_payload_media [OF assms(3)])
  obtain core1 where t: "admit_trust tab ?core (12 + length payload) addr now ?h = (Inr (), core1)"
    and t1: "st_remote_ssrc core1 = Some ssrc" "st_last_dtmf_timestamp core1 = st_last_dtmf_timestamp core"
      "st_config core1 = st_config core" "st_srtp core1 = st_srtp core" "latched core1 = Some addr"
    using assms(1,4) by (auto simp: admit_trust_def Let_def listens_def)
  obtain core2 where e: "admit_event core1 ?h payload =
      (if new then Some \<lparr>de_digit = digit, de_event = payload ! 0\<rparr> else None, core2)"
    and e2: "core2 = (if new then core1\<lparr>st_last_dtmf_timestamp := Some ts\<rparr> else core1)"
    using new assms(6) t1(2) by (auto simp: admit_event_def not_le split: option.splits)
  have "ingest tab ks mac core ?dg addr now =
      (Inr (if new then Some \<lparr>de_digit = digit, de_event = payload ! 0\<rparr> else None), core2)"
    using admit_source_media [OF l assms(3), of seq ts ssrc m payload] by (simp add: ingest_def admit_def open_ pl t e Let_def)
  then show ?thesis
    using e2 t1 assms(1) by (auto simp: listens_def)
qed

fun ingest_all ::
  "('e, 'd) codecs \<Rightarrow> keystream \<Rightarrow> hmac \<Rightarrow> ('e, 'd) StreamCore \<Rightarrow> (bytes \<times> SocketAddr \<times> instant) list \<Rightarrow>
   (Dropped + DtmfEvent option) list \<times> ('e, 'd) StreamCore" where
  "ingest_all tab ks mac core [] = ([], core)"
| "ingest_all tab ks mac core ((datagram, from_addr, now) # rest) =
    (let (r, core) = ingest tab ks mac core datagram from_addr now;
         (rs, core) = ingest_all tab ks mac core rest in (r # rs, core))"

text \<open>Events of one timestamp, in any number and order: the first to arrive is reported, the others are
  taken for its repetitions.\<close>

definition is_event :: "u8 \<Rightarrow> u32 \<Rightarrow> u32 \<Rightarrow> bytes \<Rightarrow> bool" where
  "is_event pt ssrc ts dg \<longleftrightarrow>
    (\<exists>seq m payload. dg = RtpHeader_to_bytes (media_header pt seq ts ssrc m) @ payload \<and> 4 \<le> length payload \<and>
      dtmf_digit (payload ! 0) \<noteq> None)"

definition event_in :: "bytes \<Rightarrow> DtmfEvent" where
  "event_in dg = \<lparr>de_digit = the (dtmf_digit (dg ! 12)), de_event = dg ! 12\<rparr>"

lemma media_header_len [simp]: "length (RtpHeader_to_bytes (media_header pt seq ts ssrc m)) = 12"
  by (simp add: RtpHeader_to_bytes_def media_header_def RtpHeader_new_def with_marker_def be16_def be32_def)

lemma event_in_payload:
  "event_in (RtpHeader_to_bytes (media_header pt seq ts ssrc m) @ payload) =
    \<lparr>de_digit = the (dtmf_digit (payload ! 0)), de_event = payload ! 0\<rparr>"
  by (simp add: event_in_def nth_append)

lemma ingest_events:
  fixes core :: "('e, 'd) StreamCore"
  assumes "listens core addr" "sc_dtmf_payload_type (st_config core) = Some pt" "media_type pt"
    and "st_remote_ssrc core \<in> {None, Some ssrc}" "\<forall>dg\<in>set dgs. is_event pt ssrc ts dg"
    and new: "new = (case st_last_dtmf_timestamp core of None \<Rightarrow> True | Some lst \<Rightarrow> 0 < sint (ts - lst))"
    and "new \<or> st_last_dtmf_timestamp core = Some ts"
  shows "fst (ingest_all tab ks mac core (map (\<lambda>(dg, now). (dg, addr, now)) (zip dgs nows))) =
    (if new \<and> zip dgs nows \<noteq> []
     then Inr (Some (event_in (hd dgs))) # replicate (length (zip dgs nows) - 1) (Inr None)
     else replicate (length (zip dgs nows)) (Inr None))"
  using assms
proof (induction dgs arbitrary: core new nows)
  case (Cons dg dgs)
  show ?case
  proof (cases nows)
    case (Cons now nows')
    obtain seq m payload digit where dg: "dg = RtpHeader_to_bytes (media_header pt seq ts ssrc m) @ payload"
      and pay: "4 \<le> length payload" "dtmf_digit (payload ! 0) = Some digit"
      using Cons.prems(5) by (auto simp: is_event_def)
    have ev: "event_in dg = \<lparr>de_digit = digit, de_event = payload ! 0\<rparr>" by (simp add: dg event_in_payload pay(2))
    obtain core1 where c: "ingest tab ks mac core dg addr now = (Inr (if new then Some (event_in dg) else None), core1)"
      "listens core1 addr" "st_config core1 = st_config core" "st_remote_ssrc core1 = Some ssrc"
      "st_last_dtmf_timestamp core1 = (if new then Some ts else st_last_dtmf_timestamp core)"
      using ingest_event [OF Cons.prems(1-4) pay Cons.prems(6), of tab ks mac seq m now] unfolding ev unfolding dg by blast
    have last: "st_last_dtmf_timestamp core1 = Some ts" using c(5) Cons.prems(7) by auto
    have "fst (ingest_all tab ks mac core1 (map (\<lambda>(dg, now). (dg, addr, now)) (zip dgs nows'))) =
        replicate (length (zip dgs nows')) (Inr None)"
      using Cons.IH [of core1 False nows'] Cons.prems c(2-4) last by simp
    then show ?thesis by (simp add: Cons c(1) Let_def case_prod_unfold)
  qed simp
qed simp

text \<open>The packets of one digit.\<close>

lemma digit_datagram_event:
  assumes "dtmf_digit event = Some digit"
  shows "is_event pt ssrc ts (digit_datagram cfg pt ssrc seq event ts i)"
    and "event_in (digit_datagram cfg pt ssrc seq event ts i) = \<lparr>de_digit = digit, de_event = event\<rparr>"
proof -
  define send where "send = \<lparr>ds_event = event, ds_timestamp = ts, ds_sent = word_of_nat (min (Suc i) (digit_frames cfg))\<rparr>"
  define payload where "payload = event_payload cfg send (Suc i \<ge> digit_frames cfg)"
  have dg: "digit_datagram cfg pt ssrc seq event ts i =
      RtpHeader_to_bytes (media_header pt (seq + word_of_nat i) ts ssrc (ds_sent send = 1)) @ payload"
    by (simp add: digit_datagram_def event_datagram_def send_def payload_def)
  have pay: "4 \<le> length payload" "payload ! 0 = event"
    by (simp_all add: payload_def event_payload_def send_def Let_def be16_def)
  show "is_event pt ssrc ts (digit_datagram cfg pt ssrc seq event ts i)"
    "event_in (digit_datagram cfg pt ssrc seq event ts i) = \<lparr>de_digit = digit, de_event = event\<rparr>"
    unfolding dg event_in_payload pay(2) using assms pay unfolding is_event_def by (blast, simp)
qed

lemma ingest_digit:
  fixes core :: "('e, 'd) StreamCore"
  assumes "listens core addr" "sc_dtmf_payload_type (st_config core) = Some pt" "media_type pt"
    and "st_remote_ssrc core \<in> {None, Some ssrc}" "dtmf_digit event = Some digit"
    and "set dgs \<subseteq> range (\<lambda>i. digit_datagram cfg pt ssrc seq event ts i)"
    and new: "new = (case st_last_dtmf_timestamp core of None \<Rightarrow> True | Some lst \<Rightarrow> 0 < sint (ts - lst))"
    and "new \<or> st_last_dtmf_timestamp core = Some ts"
  shows "fst (ingest_all tab ks mac core (map (\<lambda>(dg, now). (dg, addr, now)) (zip dgs nows))) =
    (if new \<and> zip dgs nows \<noteq> []
     then Inr (Some \<lparr>de_digit = digit, de_event = event\<rparr>) # replicate (length (zip dgs nows) - 1) (Inr None)
     else replicate (length (zip dgs nows)) (Inr None))"
proof -
  have "\<forall>dg\<in>set dgs. is_event pt ssrc ts dg \<and> event_in dg = \<lparr>de_digit = digit, de_event = event\<rparr>"
    using assms(6) digit_datagram_event [OF assms(5)] by auto
  with ingest_events [OF assms(1-4) _ assms(7,8), of dgs tab ks mac nows] show ?thesis
    by (cases dgs) auto
qed

section \<open>Properties of digits\<close>

text \<open>C16: a queued digit is sent and heard once.  A stream in the clear with nothing else queued takes
  a valid digit, and spends the next \<open>max 1 dtmf_packets\<close> frames on it: one packet a frame and three
  for the last, all of one timestamp, consecutive numbers, growing duration, the end bit on the last
  three and the marker while the first frame is sent; then it is back to audio, with the
  marker on its next packet.  Whatever of these packets reaches a stream that listens to the sender,
  in whatever order and number, that stream reports one digit, the upper-case one, with the first
  of them, and nothing with the others.\<close>

theorem dtmf_digit_heard_once:
  fixes sender :: "('e, 'd) StreamCore" and receiver :: "('f, 'g) StreamCore"
  assumes "queue_dtmf sender digit = (Inr (), sender1)" "st_dtmf sender = []" "st_dtmf_sending sender = None"
    and "st_srtp sender = None" "sc_dtmf_payload_type (st_config sender) = Some pt" "media_type pt"
    and "length pcms = digit_frames (st_config sender)"
    and "\<forall>pcm\<in>set pcms. length pcm = pcm_samples_per_packet (sc_codec (st_config sender))"
    and "listens receiver addr" "sc_dtmf_payload_type (st_config receiver) = Some pt"
    and "st_remote_ssrc receiver \<in> {None, Some (st_ssrc sender)}"
    and "case st_last_dtmf_timestamp receiver of None \<Rightarrow> True | Some lst \<Rightarrow> 0 < sint (dtmf_timestamp sender - lst)"
  shows "\<exists>dgs sender2 event. packetize_all tab ks mac sender1 pcms = (Inr dgs, sender2) \<and>
    dtmf_event_code digit = Some event \<and>
    dgs = map (digit_datagram (st_config sender) pt (st_ssrc sender) (st_seq sender) event (dtmf_timestamp sender))
      [0..<length pcms + 2] \<and>
    st_dtmf_sending sender2 = None \<and> st_dtmf sender2 = [] \<and> st_marker sender2 \<and>
    (\<forall>got nows. set got \<subseteq> set dgs \<longrightarrow> got \<noteq> [] \<longrightarrow> length nows = length got \<longrightarrow>
      fst (ingest_all tab2 ks2 mac2 receiver (map (\<lambda>(dg, now). (dg, addr, now)) (zip got nows))) =
        Inr (Some \<lparr>de_digit = to_upper_char digit, de_event = event\<rparr>) # replicate (length got - 1) (Inr None))"
proof -
  let ?cfg = "st_config sender"
  obtain event where ev: "dtmf_event_code digit = Some event" and s1: "sender1 = sender\<lparr>st_dtmf := [event]\<rparr>"
    using assms(1,2) by (auto simp: queue_dtmf_def split: option.splits if_splits)
  note code = conjunct1 [OF dtmf_code_table [OF ev]]
  let ?dgs = "map (digit_datagram ?cfg pt (st_ssrc sender) (st_seq sender) event (dtmf_timestamp sender)) [0..<length pcms + 2]"
  have ts: "dtmf_timestamp sender1 = dtmf_timestamp sender" by (simp add: s1 dtmf_timestamp_def Let_def)
  have sd: "st_dtmf_sending (start_digit sender1) =
      Some \<lparr>ds_event = event, ds_timestamp = dtmf_timestamp sender, ds_sent = word_of_nat 0\<rparr>"
    "sending (start_digit sender1) = (?cfg, st_ssrc sender, [])"
    using assms(3) ts by (simp_all add: start_digit_def s1 sending_def)
  obtain sender2 where p: "packetize_all tab ks mac sender1 pcms = (Inr ?dgs, sender2)"
    and s2: "st_dtmf_sending sender2 = None" "st_marker sender2" "sending sender2 = (?cfg, st_ssrc sender, [])"
    using digit_rest [of sender1 pt event "dtmf_timestamp sender" 0 "st_seq sender" pcms tab ks mac] assms(4,5,7,8) sd
      digit_frames_pos(1) [of ?cfg] by (auto simp: s1)
  have "fst (ingest_all tab2 ks2 mac2 receiver (map (\<lambda>(dg, now). (dg, addr, now)) (zip got nows))) =
        Inr (Some \<lparr>de_digit = to_upper_char digit, de_event = event\<rparr>) # replicate (length got - 1) (Inr None)"
    if "set got \<subseteq> set ?dgs" "got \<noteq> []" "length nows = length got" for got nows
  proof -
    have "set got \<subseteq> range (digit_datagram ?cfg pt (st_ssrc sender) (st_seq sender) event (dtmf_timestamp sender))"
      using that(1) by auto
    from ingest_digit [OF assms(9,10,6,11) code this refl, of tab2 ks2 mac2 nows] assms(12) that(2,3)
    show ?thesis by (cases nows) (auto split: option.splits)
  qed
  then show ?thesis using p ev s2 by (auto simp: sending_def)
qed

theorem dtmf_digit_heard_once_witness:
  "\<exists>dgs sender. packetize_all demo_tab demo_ks demo_mac (snd (queue_dtmf demo_stream (CHR ''5'')))
      (replicate 5 (replicate 160 0)) = (Inr dgs, sender) \<and> length dgs = 7 \<and> st_marker sender \<and>
    fst (ingest_all demo_tab demo_ks demo_mac demo_stream
      (map (\<lambda>(dg, now). (dg, demo_remote, now)) (zip (rev dgs) [1, 2, 3, 4, 5, 6, 7]))) =
    Inr (Some \<lparr>de_digit = CHR ''5'', de_event = 5\<rparr>) # replicate 6 (Inr None)"
proof -
  have code: "dtmf_event_code (CHR ''5'') = Some 5" "to_upper_char (CHR ''5'') = CHR ''5''" by code_simp+
  have q: "queue_dtmf demo_stream (CHR ''5'') = (Inr (), snd (queue_dtmf demo_stream (CHR ''5'')))"
    by (simp add: queue_dtmf_def code StreamConfig_new_def)
  have frames5: "digit_frames (st_config demo_stream) = 5" by (simp add: digit_frames_def StreamConfig_new_def)
  have pt: "sc_dtmf_payload_type (st_config demo_stream) = Some 101" "media_type 101"
    by (simp_all add: StreamConfig_new_def media_type_def)
  have len: "length (replicate 5 (replicate 160 (0 :: i16))) = digit_frames (st_config demo_stream)"
    unfolding frames5 by simp
  have all: "\<forall>pcm\<in>set (replicate 5 (replicate 160 (0 :: i16))). length pcm = pcm_samples_per_packet (sc_codec (st_config demo_stream))"
    by (simp add: StreamConfig_new_def pcm_samples_per_packet_def PACKET_DURATION_MS_def)
  have listen: "listens demo_stream demo_remote" using demo_stream_hears by (simp add: hears_def)
  have rest: "st_remote_ssrc demo_stream \<in> {None, Some (st_ssrc demo_stream)}"
    "case st_last_dtmf_timestamp demo_stream of None \<Rightarrow> True | Some lst \<Rightarrow> 0 < sint (dtmf_timestamp demo_stream - lst)"
    by simp_all
  obtain dgs sender event where d: "packetize_all demo_tab demo_ks demo_mac (snd (queue_dtmf demo_stream (CHR ''5'')))
      (replicate 5 (replicate 160 0)) = (Inr dgs, sender)" "dtmf_event_code (CHR ''5'') = Some event"
    "dgs = map (digit_datagram (st_config demo_stream) 101 (st_ssrc demo_stream) (st_seq demo_stream) event
      (dtmf_timestamp demo_stream)) [0..<length (replicate 5 (replicate 160 (0 :: i16))) + 2]" "st_marker sender"
    and r: "\<forall>got nows. set got \<subseteq> set dgs \<longrightarrow> got \<noteq> [] \<longrightarrow> length nows = length got \<longrightarrow>
      fst (ingest_all demo_tab demo_ks demo_mac demo_stream (map (\<lambda>(dg, now). (dg, demo_remote, now)) (zip got nows))) =
        Inr (Some \<lparr>de_digit = to_upper_char (CHR ''5''), de_event = event\<rparr>) # replicate (length got - 1) (Inr None)"
    using dtmf_digit_heard_once [OF q demo_stream_fields(5,6,2) pt len all listen pt(1) rest,
        of demo_tab demo_ks demo_mac demo_tab demo_ks demo_mac] by blast
  have "length dgs = 7" using d(3) by simp
  with r [rule_format, of "rev dgs" "[1, 2, 3, 4, 5, 6, 7]"] d code show ?thesis by auto
qed

end
