(* ===== verification/Stream_Playout.thy ===== *)
theory Stream_Playout
  imports Stream_Properties
begin

text \<open>
  The playout side of the headless stream: the jitter buffer stays well formed, every tick yields at
  most one frame of the codec's length, and silence on the wire is reported as a timeout.
\<close>

section \<open>The frame clock\<close>

lemma jb_inv_reset: "jb_inv cfg b \<Longrightarrow> jb_inv cfg (buffer_reset b)"
  using jb_inv_step [of cfg b Reset "buffer_reset b"] by simp

lemma admit_trust_jitter:
  "jb_inv cfg (st_jitter core) \<Longrightarrow> jb_inv cfg (st_jitter (snd (admit_trust tab core n addr now h)))"
  by (auto simp: admit_trust_def Let_def jb_inv_reset split: option.splits sum.splits)

lemma admit_jitter:
  assumes "jb_inv cfg (st_jitter core)"
  shows "jb_inv cfg (st_jitter (snd (admit tab ks mac core dg addr now)))"
proof -
  obtain ro core1 where o: "admit_open ks mac core dg = (ro, core1)" by fastforce
  have 1: "jb_inv cfg (st_jitter core1)" using admit_open_cases [OF o] assms by auto
  show ?thesis
  proof (cases "admit_source core dg addr")
    case None
    show ?thesis
    proof (cases ro)
      case (Inr packet)
      show ?thesis
      proof (cases "admit_payload (st_config core1) packet")
        case (Inr x)
        obtain h payload dtmf where x: "x = (h, payload, dtmf)" by (cases x)
        obtain rt core2 where t: "admit_trust tab core1 (length dg) addr now h = (rt, core2)" by fastforce
        have "jb_inv cfg (st_jitter core2)" using admit_trust_jitter [OF 1, of tab "length dg" addr now h] by (simp add: t)
        then show ?thesis
          using None jb_inv_push [of cfg "st_jitter core2" "h_sequence h" "h_timestamp h" payload now]
            admit_event_keeps(4) [of core2 h payload]
          by (cases rt) (simp_all add: admit_def o \<open>ro = Inr packet\<close> Inr x t case_prod_unfold Let_def)
      qed (use None 1 Inr in \<open>simp add: admit_def o\<close>)
    qed (use None 1 in \<open>simp add: admit_def o\<close>)
  qed (use assms in \<open>simp add: admit_def\<close>)
qed

lemma playout_pop:
  assumes "playout tab core now = Some (events, core')"
  obtains popped where "pop_at (st_jitter core) now = Some (popped, st_jitter core')"
proof -
  obtain ev core1 where t: "timeout_events core now = (ev, core1)" by fastforce
  have 1: "st_jitter core1 = st_jitter core" using timeout_events_keeps [of core now] by (simp add: t)
  obtain popped j where p: "pop_at (st_jitter core) now = Some (popped, j)"
    using assms by (auto simp: playout_def t 1 split: option.splits)
  have "st_jitter core' = j"
    using assms 1 play_packet_keeps [of "core1\<lparr>st_jitter := j, st_playing := True\<rparr>" tab]
    by (auto simp: playout_def t p Let_def case_prod_unfold split: option.splits if_splits)
  with p show ?thesis using that by blast
qed

lemma step_jitter:
  assumes "stream_step tab ks mac core op = Some core'" "jb_inv cfg (st_jitter core)"
  shows "jb_inv cfg (st_jitter core')"
proof (cases op)
  case (Ingest dg addr now)
  have "jb_inv cfg (st_jitter (snd (admit tab ks mac
      (core\<lparr>st_started := Some (get_or_insert (st_started core) now)\<rparr>) dg addr now)))"
    using assms(2) by (intro admit_jitter) simp
  then show ?thesis using assms(1) Ingest
    by (auto simp: ingest_def Let_def case_prod_unfold split: sum.splits)
next
  case (Playout now)
  then obtain events where "playout tab core now = Some (events, core')" using assms(1) by auto
  then obtain popped where "pop_at (st_jitter core) now = Some (popped, st_jitter core')"
    by (rule playout_pop)
  then show ?thesis using jb_inv_pop assms(2) by blast
next
  case (QueueDtmf d)
  then show ?thesis using assms queue_dtmf_receiver [of core d] by (auto simp: same_receiver_def)
next
  case (Packetize pcm)
  then show ?thesis using assms packetize_receiver [of core tab ks mac pcm] by (auto simp: same_receiver_def)
next
  case (SenderReport now)
  then show ?thesis using assms sender_report_receiver [of core ks mac now] by (auto simp: same_receiver_def)
qed

lemma reach_jitter:
  "stream_reach tab ks mac core core' \<Longrightarrow> jb_inv cfg (st_jitter core) \<Longrightarrow> jb_inv cfg (st_jitter core')"
  by (induction rule: stream_reach.induct) (auto dest: step_jitter)

lemma pop_at_total:
  assumes "jb_inv jc b" "mode_ok (jc_mode jc)"
  shows "\<exists>r b'. pop_at b now = Some (r, b')"
proof (cases "pop_start b now")
  case (Some x)
  obtain t b1 where x: "x = (t, b1)" by (cases x)
  note s = pop_start_inv [OF assms(1), of now t b1]
  show ?thesis
  proof (cases "pop_target b1 t")
    case (Some t')
    have "config (snd (pop_play b1 t' now)) = jc"
      using s assms(1) \<open>pop_start b now = Some x\<close> by (simp add: x pop_play_fields jb_inv_def)
    then show ?thesis
      using adapt_delay_some [of "snd (pop_play b1 t' now)"] assms(2) Some \<open>pop_start b now = Some x\<close>
      by (auto simp: pop_at_def x Let_def case_prod_unfold)
  qed (use Some in \<open>simp add: pop_at_def x\<close>)
qed (simp add: pop_at_def)

lemma playout_some:
  assumes "jb_inv jc (st_jitter core)" "mode_ok (jc_mode jc)"
  shows "\<exists>events core'. playout tab core now = Some (events, core')"
proof -
  obtain ev core1 where t: "timeout_events core now = (ev, core1)" by fastforce
  have "st_jitter core1 = st_jitter core" using timeout_events_keeps [of core now] by (simp add: t)
  with pop_at_total [OF assms, of now] show ?thesis
    by (auto simp: playout_def t Let_def case_prod_unfold split: option.split)
qed

fun frames :: "StreamEvent list \<Rightarrow> AudioFrame list" where
  "frames [] = []"
| "frames (Frame f # es) = f # frames es"
| "frames (e # es) = frames es"

fun timeouts :: "StreamEvent list \<Rightarrow> duration list" where
  "timeouts [] = []"
| "timeouts (Timeout d # es) = d # timeouts es"
| "timeouts (e # es) = timeouts es"

lemma frames_append [simp]: "frames (xs @ ys) = frames xs @ frames ys"
  by (induction xs rule: frames.induct) simp_all

lemma timeouts_append [simp]: "timeouts (xs @ ys) = timeouts xs @ timeouts ys"
  by (induction xs rule: timeouts.induct) simp_all

lemma length_resize [simp]: "length (resize n xs) = n"
  by (simp add: resize_def)

lemma play_packet_length:
  "length (af_pcm (fst (play_packet tab core p))) = pcm_samples_per_packet (sc_codec (st_config core))"
  by (simp add: play_packet_def Let_def case_prod_unfold)

text \<open>A tick in two parts: the timeout, which leaves the receiver alone, and the frame.\<close>

lemma timeout_events_frames [simp]: "frames (fst (timeout_events core now)) = []"
  by (simp add: timeout_events_def Let_def)

lemma playout_parts:
  assumes "playout tab core now = Some (events, core')"
  obtains fs where "events = fst (timeout_events core now) @ map Frame fs"
    and "length fs = (if st_playing core' then 1 else 0)" "st_playing core \<Longrightarrow> st_playing core'"
    and "\<forall>f\<in>set fs. length (af_pcm f) = pcm_samples_per_packet (sc_codec (st_config core))"
    and "st_last_packet core' = st_last_packet core"
    and "st_last_timeout core' = st_last_timeout (snd (timeout_events core now))"
    and "st_started core' = Some (get_or_insert (st_started core) now)"
proof -
  obtain ev core1 where t: "timeout_events core now = (ev, core1)" by fastforce
  have 1: "st_jitter core1 = st_jitter core" "st_config core1 = st_config core" "st_playing core1 = st_playing core"
    "st_last_packet core1 = st_last_packet core" "st_started core1 = Some (get_or_insert (st_started core) now)"
    using t by (auto simp: timeout_events_def Let_def split: if_splits)
  obtain popped j where p: "pop_at (st_jitter core) now = Some (popped, j)"
    using assms by (auto simp: playout_def t 1 split: option.splits)
  show ?thesis
  proof (cases popped)
    case (Some q)
    let ?core = "core1\<lparr>st_jitter := j, st_playing := True\<rparr>"
    have e: "events = ev @ [Frame (fst (play_packet tab ?core q))]" "core' = snd (play_packet tab ?core q)"
      using assms by (auto simp: playout_def t 1 p Some Let_def case_prod_unfold)
    have "st_last_packet core' = st_last_packet core1" "st_last_timeout core' = st_last_timeout core1"
      "st_started core' = st_started core1" "st_playing core'"
      by (simp_all add: e(2) play_packet_def Let_def case_prod_unfold)
    then show ?thesis
      using play_packet_length [of tab ?core q] 1
      by (intro that [of "[fst (play_packet tab ?core q)]"]) (simp_all add: t e(1))
  next
    case None
    let ?f = "\<lparr>af_pcm = replicate (pcm_samples_per_packet (sc_codec (st_config core))) 0, af_kind = Silence\<rparr>"
    have "events = ev @ map Frame (if st_playing core then [?f] else [])" "core' = core1\<lparr>st_jitter := j\<rparr>"
      using assms by (auto simp: playout_def t 1 p None Let_def split: if_splits)
    with 1 show ?thesis by (intro that [of "if st_playing core then [?f] else []"]) (simp_all add: t)
  qed
qed

section \<open>Properties of playout\<close>

text \<open>C17: the frame clock.  After any sequence of operations on a new stream whose adaptive jitter
  bounds are not crossed, a tick does not panic; it yields at most one frame, and exactly one
  from the first frame on until the far end's SSRC changes; every frame, received, concealed or
  silent, has the codec's number of samples.\<close>

theorem stream_frame_clock:
  assumes "StreamCore_new tab ssrc seq ts cfg srtp = Inr core0" "mode_ok (sc_jitter cfg)"
    and "stream_reach tab ks mac core0 core"
  shows "\<exists>events core'. playout tab core now = Some (events, core') \<and>
    length (frames events) = (if st_playing core' then 1 else 0) \<and> (st_playing core \<longrightarrow> st_playing core') \<and>
    (\<forall>f\<in>set (frames events). length (af_pcm f) = pcm_samples_per_packet (sc_codec cfg))"
proof -
  let ?jc = "\<lparr>jc_mode = sc_jitter cfg, jc_clock_rate = word_of_nat (clock_rate (sc_codec cfg)),
    jc_max_packets = sc_max_packets cfg\<rparr>"
  have 0: "st_jitter core0 = JitterBuffer_new ?jc" "st_config core0 = cfg"
    using assms(1) by (auto simp: StreamCore_new_def split: if_splits sum.splits)
  then have "jb_inv ?jc (st_jitter core0)" by (simp add: jb_inv_new)
  from reach_jitter [OF assms(3) this] playout_some assms(2) obtain events core'
    where p: "playout tab core now = Some (events, core')" by fastforce
  obtain fs where "events = fst (timeout_events core now) @ map Frame fs"
    "length fs = (if st_playing core' then 1 else 0)" "st_playing core \<longrightarrow> st_playing core'"
    "\<forall>f\<in>set fs. length (af_pcm f) = pcm_samples_per_packet (sc_codec (st_config core))"
    by (rule playout_parts [OF p]) blast
  moreover have "frames (map Frame fs) = fs" by (induction fs) simp_all
  moreover have "st_config core = cfg" using reach_latch [OF assms(3)] 0 by (simp add: same_call_def)
  ultimately show ?thesis using p by (auto simp del: map_eq_conv)
qed

theorem stream_frame_clock_witness:
  "\<exists>events core'. playout demo_tab (snd (ingest demo_tab demo_ks demo_mac demo_stream
      (RtpHeader_to_bytes (media_header 0 1 160 9 True) @ replicate 160 255) demo_remote 0)) 50000000 =
    Some (events, core') \<and> length (frames events) = (if st_playing core' then 1 else 0) \<and>
    list_all (\<lambda>f. length (af_pcm f) = 160) (frames events)"
proof -
  let ?core = "snd (ingest demo_tab demo_ks demo_mac demo_stream
      (RtpHeader_to_bytes (media_header 0 1 160 9 True) @ replicate 160 255) demo_remote 0)"
  have "stream_reach demo_tab demo_ks demo_mac demo_stream ?core"
    by (rule stream_next [OF stream_start, of _ _ _ _ "Ingest
      (RtpHeader_to_bytes (media_header 0 1 160 9 True) @ replicate 160 255) demo_remote 0"]) simp
  moreover have "mode_ok (sc_jitter (StreamConfig_new Pcmu demo_remote))"
    by (simp add: StreamConfig_new_def mode_ok_def)
  moreover have frame: "pcm_samples_per_packet (sc_codec (StreamConfig_new Pcmu demo_remote)) = 160"
    by (simp add: StreamConfig_new_def pcm_samples_per_packet_def PACKET_DURATION_MS_def)
  ultimately show ?thesis
    using stream_frame_clock [OF demo_stream_new, of demo_ks demo_mac ?core 50000000]
    unfolding frame list_all_iff by blast
qed

text \<open>The ticks of a while.\<close>

fun play_ticks ::
  "('e, 'd) codecs \<Rightarrow> ('e, 'd) StreamCore \<Rightarrow> instant list \<Rightarrow> (StreamEvent list \<times> ('e, 'd) StreamCore) option" where
  "play_ticks tab core [] = Some ([], core)"
| "play_ticks tab core (now # ts) =
    (case playout tab core now of
       None \<Rightarrow> None
     | Some (events, core) \<Rightarrow> map_option (\<lambda>(more, core). (events @ more, core)) (play_ticks tab core ts))"

text \<open>Since when nothing has been heard, for a tick at \<open>now\<close>: the last packet; or, if none ever came, the start of
  the stream, which is this very tick if there was none before.  \<open>heard\<close> is that, or the last report.\<close>

definition quiet_since :: "instant \<Rightarrow> ('e, 'd) StreamCore \<Rightarrow> instant" where
  "quiet_since now core =
    (case st_last_packet core of Some p \<Rightarrow> p | None \<Rightarrow> (case st_started core of Some t \<Rightarrow> t | None \<Rightarrow> now))"

definition heard :: "instant \<Rightarrow> ('e, 'd) StreamCore \<Rightarrow> instant" where
  "heard now core = (case st_last_timeout core of None \<Rightarrow> quiet_since now core | Some t \<Rightarrow> max t (quiet_since now core))"

lemma timeouts_Frame [simp]: "timeouts (map Frame fs) = []"
  by (induction fs) simp_all

lemma playout_timeout:
  assumes "playout tab core now = Some (events, core')" "heard now core \<le> now"
  shows "quiet_since t core' = quiet_since now core" "st_config core' = st_config core"
    and "timeouts events = (if now - heard now core \<ge> sc_rtp_timeout (st_config core) then [now - quiet_since now core] else [])"
    and "heard t core' = (if now - heard now core \<ge> sc_rtp_timeout (st_config core) then now else heard now core)"
proof -
  obtain fs where f: "events = fst (timeout_events core now) @ map Frame fs" "st_last_packet core' = st_last_packet core"
    "st_last_timeout core' = st_last_timeout (snd (timeout_events core now))"
    "st_started core' = Some (get_or_insert (st_started core) now)"
    by (rule playout_parts [OF assms(1)]) blast
  have q: "quiet_since now core = get_or_insert (st_last_packet core) (get_or_insert (st_started core) now)"
    by (simp add: quiet_since_def get_or_insert_def split: option.split)
  show same: "quiet_since t core' = quiet_since now core"
    using f(2,4) by (simp add: quiet_since_def get_or_insert_def split: option.split)
  show "st_config core' = st_config core" using playout_latch [OF assms(1)] by (simp add: same_call_def)
  have "quiet_since now core \<le> now" using assms(2) by (auto simp: heard_def split: option.splits)
  then show "timeouts events = (if now - heard now core \<ge> sc_rtp_timeout (st_config core) then [now - quiet_since now core] else [])"
    "heard t core' = (if now - heard now core \<ge> sc_rtp_timeout (st_config core) then now else heard now core)"
    using f(1,3) same by (auto simp: timeout_events_def heard_def q Let_def split: option.splits)
qed

text \<open>C25: silence is reported.  While nothing arrives, also when nothing ever has, the ticks report a timeout at
  least every \<open>rtp_timeout\<close>: when the last tick is that long after the last packet, the start of the stream if
  there was none, or the last report, there is one among the events; and reports are at least
  \<open>rtp_timeout\<close> apart, so \<open>n\<close> of them need \<open>n\<close> times as long.  After the last tick the last report or
  packet is less than \<open>rtp_timeout\<close> old.  Each report tells how long it has been since the packet, or the start.\<close>

theorem stream_reports_silence:
  fixes core :: "('e, 'd) StreamCore" and ts :: "instant list" and now :: instant
  defines "first \<equiv> hd (ts @ [now])"
  assumes "play_ticks tab core (ts @ [now]) = Some (events, core')"
    and "sorted (heard first core # ts @ [now])" "sc_rtp_timeout (st_config core) > 0"
  shows "length (timeouts events) * sc_rtp_timeout (st_config core) \<le> now - heard first core \<and>
    (now - heard first core \<ge> sc_rtp_timeout (st_config core) \<longrightarrow> timeouts events \<noteq> []) \<and>
    now - heard now core' < sc_rtp_timeout (st_config core) \<and>
    set (timeouts events) \<subseteq> (\<lambda>t. t - quiet_since first core) ` set (ts @ [now])"
  using assms(2-4) unfolding first_def
proof (induction ts arbitrary: core events)
  case Nil
  then obtain ev where "playout tab core now = Some (ev, core')" "events = ev" by (auto split: option.splits)
  with playout_timeout [of tab core now ev core'] Nil show ?case by simp
next
  case (Cons t ts)
  let ?next = "hd (ts @ [now])"
  obtain ev core1 more where s: "playout tab core t = Some (ev, core1)" "events = ev @ more"
    "play_ticks tab core1 (ts @ [now]) = Some (more, core')"
    using Cons.prems(1) by (auto split: option.splits)
  have t: "heard t core \<le> t" "t \<le> now" using Cons.prems(2) by auto
  note p = playout_timeout [OF s(1) t(1)]
  have "sorted (heard ?next core1 # ts @ [now])" using p(4) [of ?next] Cons.prems(2) by auto
  with Cons.IH [OF s(3)] p(2) Cons.prems(3) have
    "length (timeouts more) * sc_rtp_timeout (st_config core) \<le> now - heard ?next core1 \<and>
     (now - heard ?next core1 \<ge> sc_rtp_timeout (st_config core) \<longrightarrow> timeouts more \<noteq> []) \<and>
     now - heard now core' < sc_rtp_timeout (st_config core) \<and>
     set (timeouts more) \<subseteq> (\<lambda>t. t - quiet_since ?next core1) ` set (ts @ [now])" by simp
  then show ?case unfolding p(1) [of ?next] p(4) [of ?next] using p(3) t s(2) by (auto split: if_splits)
qed

lemma play_ticks_some:
  assumes "jb_inv jc (st_jitter core)" "mode_ok (jc_mode jc)"
  shows "\<exists>events core'. play_ticks tab core ts = Some (events, core')"
  using assms(1)
proof (induction ts arbitrary: core)
  case (Cons now ts)
  obtain ev core1 where p: "playout tab core now = Some (ev, core1)" using playout_some [OF Cons.prems assms(2)] by blast
  have "stream_step tab demo_ks demo_mac core (Playout now) = Some core1" by (simp add: p)
  from Cons.IH [OF step_jitter [OF this Cons.prems]] show ?case by (auto simp: p)
qed simp

text \<open>A stream on which nothing ever arrives: the first tick starts the clock.\<close>

theorem stream_reports_silence_witness:
  "\<exists>events core'. play_ticks demo_tab demo_stream [1000000000, 5000000000, 7000000000] = Some (events, core') \<and>
    length (timeouts events) = 1"
proof -
  let ?jc = "\<lparr>jc_mode = Adaptive 40 20 120, jc_clock_rate = 8000, jc_max_packets = 50\<rparr>"
  have "jb_inv ?jc (st_jitter demo_stream)" by (simp add: jb_inv_new)
  then obtain events core' where p: "play_ticks demo_tab demo_stream [1000000000, 5000000000, 7000000000] = Some (events, core')"
    using play_ticks_some [of ?jc demo_stream demo_tab "[1000000000, 5000000000, 7000000000]"] by (auto simp: mode_ok_def)
  have "st_last_packet demo_stream = None" "st_last_timeout demo_stream = None"
    by (simp_all add: demo_stream_def StreamCore_new_def StreamConfig_new_def demo_tab_pcmu)
  then have h: "heard 1000000000 demo_stream = 1000000000" "sc_rtp_timeout (st_config demo_stream) = 5000000000"
    by (simp_all add: heard_def quiet_since_def StreamConfig_new_def)
  have "length (timeouts events) * 5000000000 \<le> 6000000000 \<and> timeouts events \<noteq> []"
    using stream_reports_silence [of demo_tab demo_stream "[1000000000, 5000000000]" 7000000000 events core'] p h by simp
  moreover from this have "length (timeouts events) < 2" by linarith
  moreover from calculation have "0 < length (timeouts events)" by simp
  ultimately have "length (timeouts events) = 1" by linarith
  with p show ?thesis by blast
qed

end
