(* ===== verification/Stream_Call.thy ===== *)
theory Stream_Call
  imports Stream_Digits Stream_Playout
begin

text \<open>
  A call from frames to frames: what a sending stream packetizes, a network reorders and a
  receiving stream plays.
\<close>

section \<open>Sending audio\<close>

fun run_all :: "('s \<Rightarrow> 'a \<Rightarrow> 'b \<times> 's) \<Rightarrow> 's \<Rightarrow> 'a list \<Rightarrow> 'b list" where
  "run_all f s [] = []"
| "run_all f s (x # xs) = (let (y, s') = f s x in y # run_all f s' xs)"

lemma length_run_all [simp]: "length (run_all f s xs) = length xs"
  by (induction xs arbitrary: s) (simp_all add: case_prod_unfold Let_def)

text \<open>The stream sends audio in the clear: no digit is queued or under way.\<close>

definition talking :: "('e, 'd) StreamCore \<Rightarrow> bool" where
  "talking core \<longleftrightarrow> st_srtp core = None \<and> st_dtmf core = [] \<and> st_dtmf_sending core = None"

definition audio_datagram ::
  "u8 \<Rightarrow> u32 \<Rightarrow> bool \<Rightarrow> u16 \<Rightarrow> u32 \<Rightarrow> u32 \<Rightarrow> bytes list \<Rightarrow> nat \<Rightarrow> bytes" where
  "audio_datagram pt ssrc m seq ts ticks payloads i =
     RtpHeader_to_bytes (media_header pt (seq + word_of_nat i) (ts + word_of_nat i * ticks) ssrc (m \<and> i = 0)) @ payloads ! i"

lemma packetize_talking:
  assumes "talking core" "length pcm = pcm_samples_per_packet (sc_codec (st_config core))"
  shows "\<exists>core'. packetize tab ks mac core pcm =
      (Inr [RtpHeader_to_bytes (media_header (sc_payload_type (st_config core)) (st_seq core) (st_timestamp core)
        (st_ssrc core) (st_marker core)) @ fst (run_encoder tab (st_encoder core) pcm)], core') \<and>
    talking core' \<and> \<not> st_marker core' \<and> st_seq core' = st_seq core + 1 \<and>
    st_timestamp core' = st_timestamp core + word_of_nat (rtp_ticks_per_packet (sc_codec (st_config core))) \<and>
    st_encoder core' = snd (run_encoder tab (st_encoder core) pcm) \<and> st_config core' = st_config core \<and>
    st_ssrc core' = st_ssrc core"
proof -
  let ?core = "core\<lparr>st_encoder := snd (run_encoder tab (st_encoder core) pcm), st_marker := False\<rparr>"
  have "start_digit core = core" using assms(1) by (simp add: start_digit_def talking_def)
  moreover have "st_srtp ?core = None" using assms(1) by (simp add: talking_def)
  note finish_clear [OF this, of ks mac]
  ultimately show ?thesis
    using assms
    by (simp add: packetize_eq packetize_either_def talking_def packetize_audio_def Let_def case_prod_unfold
        media_header_def)
qed

lemma packetize_all_talking:
  assumes "talking core" "\<forall>pcm\<in>set pcms. length pcm = pcm_samples_per_packet (sc_codec (st_config core))"
  shows "\<exists>core'. packetize_all tab ks mac core pcms =
      (Inr (map (audio_datagram (sc_payload_type (st_config core)) (st_ssrc core) (st_marker core) (st_seq core)
        (st_timestamp core) (word_of_nat (rtp_ticks_per_packet (sc_codec (st_config core))))
        (run_all (run_encoder tab) (st_encoder core) pcms)) [0..<length pcms]), core')"
  using assms
proof (induction pcms arbitrary: core)
  case (Cons pcm pcms)
  let ?f = "\<lambda>core. audio_datagram (sc_payload_type (st_config core)) (st_ssrc core) (st_marker core) (st_seq core)
        (st_timestamp core) (word_of_nat (rtp_ticks_per_packet (sc_codec (st_config core))))"
  obtain core1 where p: "packetize tab ks mac core pcm =
      (Inr [RtpHeader_to_bytes (media_header (sc_payload_type (st_config core)) (st_seq core) (st_timestamp core)
        (st_ssrc core) (st_marker core)) @ fst (run_encoder tab (st_encoder core) pcm)], core1)"
    "talking core1" "\<not> st_marker core1" "st_seq core1 = st_seq core + 1"
    "st_timestamp core1 = st_timestamp core + word_of_nat (rtp_ticks_per_packet (sc_codec (st_config core)))"
    "st_encoder core1 = snd (run_encoder tab (st_encoder core) pcm)" "st_config core1 = st_config core"
    "st_ssrc core1 = st_ssrc core"
    using packetize_talking [OF Cons.prems(1), of pcm tab ks mac] Cons.prems(2) by auto
  obtain core2 where r: "packetize_all tab ks mac core1 pcms =
      (Inr (map (?f core1 (run_all (run_encoder tab) (st_encoder core1) pcms)) [0..<length pcms]), core2)"
    using Cons.IH [OF p(2)] Cons.prems(2) p(7) by auto
  have "map (?f core (run_all (run_encoder tab) (st_encoder core) (pcm # pcms))) [0..<length (pcm # pcms)] =
      (RtpHeader_to_bytes (media_header (sc_payload_type (st_config core)) (st_seq core) (st_timestamp core)
        (st_ssrc core) (st_marker core)) @ fst (run_encoder tab (st_encoder core) pcm)) #
      map (?f core1 (run_all (run_encoder tab) (st_encoder core1) pcms)) [0..<length pcms]"
  proof (rule nth_equalityI)
    fix i assume "i < length (map (?f core (run_all (run_encoder tab) (st_encoder core) (pcm # pcms))) [0..<length (pcm # pcms)])"
    then show "map (?f core (run_all (run_encoder tab) (st_encoder core) (pcm # pcms))) [0..<length (pcm # pcms)] ! i =
      ((RtpHeader_to_bytes (media_header (sc_payload_type (st_config core)) (st_seq core) (st_timestamp core)
        (st_ssrc core) (st_marker core)) @ fst (run_encoder tab (st_encoder core) pcm)) #
      map (?f core1 (run_all (run_encoder tab) (st_encoder core1) pcms)) [0..<length pcms]) ! i"
      using p(3-8) by (cases i) (simp_all add: audio_datagram_def case_prod_unfold Let_def algebra_simps del: upt_Suc)
  qed simp
  then show ?case using p(1) r by simp
qed simp

section \<open>Receiving audio\<close>

text \<open>Datagrams of one stream fill the jitter buffer as their arrivals do.\<close>

definition audio_arrival :: "nat \<Rightarrow> u32 \<Rightarrow> u32 \<Rightarrow> bytes list \<Rightarrow> nat \<times> instant \<Rightarrow> arrival" where
  "audio_arrival seq ts ticks payloads x =
    (case x of (i, now) \<Rightarrow> (seq + i, ts + word_of_nat i * ticks, payloads ! i, now))"

lemma word_of_nat_unat: "word_of_nat (unat w) = w"
  by simp

lemma ingest_all_audio:
  assumes "hears core addr pt ssrc" "word_of_nat n = seq"
  shows "\<exists>core'. ingest_all tab ks mac core
      (map (\<lambda>(i, now). (audio_datagram pt ssrc m seq ts ticks payloads i, addr, now)) order) =
      (replicate (length order) (Inr None), core') \<and>
    st_config core' = st_config core \<and> st_decoder core' = st_decoder core \<and>
    st_jitter core' = push_all (st_jitter core) (map (audio_arrival n ts ticks payloads) order)"
  using assms(1)
proof (induction order arbitrary: core)
  case (Cons x order)
  obtain i now where x: "x = (i, now)" by fastforce
  obtain core1 where c: "ingest tab ks mac core (audio_datagram pt ssrc m seq ts ticks payloads i) addr now = (Inr None, core1)"
    "hears core1 addr pt ssrc" "st_config core1 = st_config core" "st_decoder core1 = st_decoder core"
    "st_jitter core1 = snd (push_at (st_jitter core) (seq + word_of_nat i) (ts + word_of_nat i * ticks) (payloads ! i) now)"
    unfolding audio_datagram_def using ingest_audio [OF Cons.prems] by blast
  have "seq + word_of_nat i = word_of_nat (n + i)" using assms(2) by simp
  with Cons.IH [OF c(2)] c show ?case by (auto simp: x audio_arrival_def)
qed simp

section \<open>Playing\<close>

lemma playout_played:
  assumes "pop_at (st_jitter core) now = Some (Some p, j)" "bp_payload p \<noteq> []"
  shows "\<exists>events core'. playout tab core now = Some (events, core') \<and>
    frames events = [\<lparr>af_pcm = resize (pcm_samples_per_packet (sc_codec (st_config core)))
      (fst (run_decoder tab (st_decoder core) (bp_payload p))), af_kind = Received\<rparr>] \<and>
    st_jitter core' = j \<and> st_config core' = st_config core \<and>
    st_decoder core' = snd (run_decoder tab (st_decoder core) (bp_payload p))"
proof -
  obtain ev core1 where t: "timeout_events core now = (ev, core1)" by fastforce
  then have 1: "st_jitter core1 = st_jitter core" "st_config core1 = st_config core" "st_decoder core1 = st_decoder core"
    "frames ev = []"
    using timeout_events_frames [of core now] by (auto simp: timeout_events_def Let_def split: if_splits)
  show ?thesis
    using assms 1 by (simp add: playout_def t play_packet_def Let_def case_prod_unfold)
qed

lemma play_all:
  assumes "ready jc f m n (st_jitter core)" "m + length ticks = n" "n \<le> 4294967296" "mode_ok (jc_mode jc)"
    and "\<forall>i\<in>{m..<n}. bp_payload (f i) \<noteq> []"
    and "\<forall>now\<in>set ticks. \<exists>b1. pop_start (st_jitter core) now = Some (word_of_nat m, b1) \<and>
      packets b1 = packets (st_jitter core) \<and> config b1 = config (st_jitter core)"
  shows "\<exists>events core'. play_ticks tab core ticks = Some (events, core') \<and>
    frames events = map (\<lambda>pcm. \<lparr>af_pcm = resize (pcm_samples_per_packet (sc_codec (st_config core))) pcm, af_kind = Received\<rparr>)
      (run_all (run_decoder tab) (st_decoder core) (map (\<lambda>i. bp_payload (f i)) [m..<n]))"
  using assms
proof (induction ticks arbitrary: core m)
  case (Cons now ticks)
  have mn: "m < n" using Cons.prems(2) by simp
  obtain j where j: "pop_at (st_jitter core) now = Some (Some (f m), j)" "ready jc f (Suc m) n j"
    "playout_seq j = Some (word_of_nat (Suc m))"
    using play_next [OF Cons.prems(1) mn Cons.prems(3,4)] Cons.prems(6) by (metis list.set_intros(1))
  have pay: "bp_payload (f m) \<noteq> []" using Cons.prems(5) mn by simp
  obtain ev core1 where p: "playout tab core now = Some (ev, core1)"
    "frames ev = [\<lparr>af_pcm = resize (pcm_samples_per_packet (sc_codec (st_config core)))
      (fst (run_decoder tab (st_decoder core) (bp_payload (f m)))), af_kind = Received\<rparr>]"
    "st_jitter core1 = j" "st_config core1 = st_config core"
    "st_decoder core1 = snd (run_decoder tab (st_decoder core) (bp_payload (f m)))"
    using playout_played [OF j(1) pay] by blast
  have "\<forall>now\<in>set ticks. \<exists>b1. pop_start j now = Some (word_of_nat (Suc m), b1) \<and> packets b1 = packets j \<and> config b1 = config j"
    using j(3) by (simp add: pop_start_def)
  then obtain more_ev core2 where r: "play_ticks tab core1 ticks = Some (more_ev, core2)"
    "frames more_ev = map (\<lambda>pcm. \<lparr>af_pcm = resize (pcm_samples_per_packet (sc_codec (st_config core1))) pcm, af_kind = Received\<rparr>)
      (run_all (run_decoder tab) (st_decoder core1) (map (\<lambda>i. bp_payload (f i)) [Suc m..<n]))"
    using Cons.IH [of "Suc m" core1] Cons.prems(2-5) j(2) p(3) by auto
  then show ?case using p mn by (simp add: upt_conv_Cons case_prod_unfold Let_def)
qed simp

text \<open>The packets \<open>0..<n\<close> arrive in some order: the buffer is ready to play them all.\<close>

lemma audio_ready:
  fixes ts ticks :: u32
  assumes "distinct (map fst ((i0, t0) # order))" "set (map fst ((i0, t0) # order)) = {..<length payloads}"
    and "seq + i0 < 65536" "seq < 65536" "length payloads < 32768" "length payloads \<le> jc_max_packets jc"
  defines "b \<equiv> push_all (JitterBuffer_new jc) (map (audio_arrival seq ts ticks payloads) ((i0, t0) # order))"
    and "f \<equiv> arrived (map (audio_arrival seq ts ticks payloads) ((i0, t0) # order))"
  assumes late: "now \<ge> t0 + unat (initial_delay (jc_mode jc)) * 1000000"
  shows "ready jc f seq (seq + length payloads) b"
    and "\<exists>b1. pop_start b now = Some (word_of_nat seq, b1) \<and> packets b1 = packets b \<and> config b1 = config b"
    and "map (\<lambda>i. bp_payload (f i)) [seq..<seq + length payloads] = payloads"
proof -
  let ?arr = "audio_arrival seq ts ticks payloads"
  let ?order = "(i0, t0) # order"
  let ?n = "length payloads"
  have len: "length ?order = ?n"
    using distinct_card [OF assms(1)] assms(2) by simp
  have keys: "map fst (map ?arr ?order) = map (\<lambda>i. seq + i) (map fst ?order)"
    by (simp add: audio_arrival_def case_prod_unfold)
  have dist: "distinct (map fst (map ?arr ?order))"
    unfolding keys using assms(1) by (simp only: distinct_map) (simp add: inj_on_def)
  have "fst ` set (map ?arr ?order) = (\<lambda>i. seq + i) ` set (map fst ?order)"
    using arg_cong [OF keys, of set] by (simp only: set_map)
  then have range: "fst ` set (map ?arr ?order) = {seq..<seq + ?n}"
    unfolding assms(2) by (simp add: lessThan_atLeast0 add.commute)
  have ok: "distinct (map fst (?arr (i0, t0) # map ?arr order))"
    "fst ` set (?arr (i0, t0) # map ?arr order) = {seq..<seq + ?n}" "fst (?arr (i0, t0)) < 65536"
    "seq + ?n < seq + 32768" "seq + ?n \<le> 2 ^ 32" "length (?arr (i0, t0) # map ?arr order) \<le> jc_max_packets jc"
    "now \<ge> snd (snd (snd (?arr (i0, t0)))) + unat (initial_delay (jc_mode jc)) * 1000000"
    using assms(3-6) late len dist range by (simp_all add: audio_arrival_def)
  show "ready jc f seq (seq + ?n) b"
    "\<exists>b1. pop_start b now = Some (word_of_nat seq, b1) \<and> packets b1 = packets b \<and> config b1 = config b"
    using push_all_ready(2,3) [OF ok] unfolding b_def f_def list.map .
  show "map (\<lambda>i. bp_payload (f i)) [seq..<seq + ?n] = payloads"
  proof (rule nth_equalityI)
    fix i assume "i < length (map (\<lambda>i. bp_payload (f i)) [seq..<seq + ?n])"
    then have i: "i < ?n" by simp
    then have "i \<in> set (map fst ?order)" unfolding assms(2) by simp
    then obtain x where "x \<in> set ?order" "fst x = i" by (metis imageE set_map)
    then obtain now where "(i, now) \<in> set ?order" by (metis prod.collapse)
    then have "?arr (i, now) \<in> set (map ?arr ?order)" by auto
    then have mo: "map_of (map ?arr ?order) (seq + i) = Some (snd (?arr (i, now)))"
      using dist by (intro map_of_is_SomeI) (simp_all add: audio_arrival_def)
    have "bp_payload (f (seq + i)) = payloads ! i"
      unfolding f_def arrived_def mo by (simp add: buffered_def audio_arrival_def)
    then show "map (\<lambda>i. bp_payload (f i)) [seq..<seq + ?n] ! i = payloads ! i" using i by simp
  qed simp
qed

section \<open>Properties of a call\<close>

text \<open>A call delivers the audio.  A stream that talks packetizes frames of its codec's length;
  the packets reach, in any order, a stream that hears it and has received nothing yet, and that one is
  ticked once for each after the initial delay.  Nothing is dropped, and the frames it plays are, in
  the order they were spoken, what its decoder makes of the encoder's output: for every codec,
  with the states of both carried from frame to frame.  The bounds are those of the jitter
  buffer: all the packets fit, fewer than \<open>2\<^sup>1\<^sup>5\<close> of them, the first to arrive
  not from behind a wrap of the sequence number.\<close>

theorem call_delivers_audio:
  fixes sender :: "('e, 'd) StreamCore" and receiver :: "('f, 'g) StreamCore"
  assumes "talking sender" "\<forall>pcm\<in>set pcms. length pcm = pcm_samples_per_packet (sc_codec (st_config sender))"
    and "hears receiver addr (sc_payload_type (st_config sender)) (st_ssrc sender)"
    and "st_jitter receiver = JitterBuffer_new jc" "mode_ok (jc_mode jc)"
    and "\<forall>payload\<in>set (run_all (run_encoder tab) (st_encoder sender) pcms). payload \<noteq> []"
    and "distinct (map fst ((i0, t0) # order))" "set (map fst ((i0, t0) # order)) = {..<length pcms}"
    and "unat (st_seq sender) + i0 < 65536" "length pcms < 32768" "length pcms \<le> jc_max_packets jc"
    and "length ticks = length pcms" "\<forall>now\<in>set ticks. now \<ge> t0 + unat (initial_delay (jc_mode jc)) * 1000000"
  shows "\<exists>dgs sender1 receiver1 events receiver2. packetize_all tab ks mac sender pcms = (Inr dgs, sender1) \<and>
    length dgs = length pcms \<and>
    ingest_all tab2 ks2 mac2 receiver (map (\<lambda>(i, now). (dgs ! i, addr, now)) ((i0, t0) # order)) =
      (replicate (length pcms) (Inr None), receiver1) \<and>
    play_ticks tab2 receiver1 ticks = Some (events, receiver2) \<and>
    frames events = map (\<lambda>pcm. \<lparr>af_pcm = resize (pcm_samples_per_packet (sc_codec (st_config receiver))) pcm, af_kind = Received\<rparr>)
      (run_all (run_decoder tab2) (st_decoder receiver) (run_all (run_encoder tab) (st_encoder sender) pcms))"
proof -
  let ?pt = "sc_payload_type (st_config sender)"
  let ?n = "length pcms"
  let ?ticks = "word_of_nat (rtp_ticks_per_packet (sc_codec (st_config sender))) :: u32"
  let ?payloads = "run_all (run_encoder tab) (st_encoder sender) pcms"
  let ?dg = "audio_datagram ?pt (st_ssrc sender) (st_marker sender) (st_seq sender) (st_timestamp sender) ?ticks ?payloads"
  let ?seq = "unat (st_seq sender)"
  let ?arr = "audio_arrival ?seq (st_timestamp sender) ?ticks ?payloads"
  let ?order = "(i0, t0) # order"
  obtain sender1 where s: "packetize_all tab ks mac sender pcms = (Inr (map ?dg [0..<?n]), sender1)"
    using packetize_all_talking [OF assms(1,2)] by blast
  obtain receiver1 where r: "ingest_all tab2 ks2 mac2 receiver (map (\<lambda>(i, now). (?dg i, addr, now)) ?order) =
      (replicate (length ?order) (Inr None), receiver1)"
    "st_config receiver1 = st_config receiver" "st_decoder receiver1 = st_decoder receiver"
    "st_jitter receiver1 = push_all (JitterBuffer_new jc) (map ?arr ?order)"
    using ingest_all_audio [OF assms(3) word_of_nat_unat [of "st_seq sender"], of tab2 ks2 mac2 "st_marker sender" "st_timestamp sender"
      ?ticks ?payloads ?order] assms(4) by auto
  have len: "length ?order = ?n"
    using distinct_card [OF assms(7)] assms(8) by simp
  have dgs: "map (\<lambda>(i, now). (map ?dg [0..<?n] ! i, addr, now)) ?order = map (\<lambda>(i, now). (?dg i, addr, now)) ?order"
  proof (rule map_cong [OF refl])
    fix x assume "x \<in> set ?order"
    then have "fst x \<in> set (map fst ?order)" by (metis image_eqI set_map)
    then have "fst x < ?n" unfolding assms(8) by simp
    then show "(case x of (i, now) \<Rightarrow> (map ?dg [0..<?n] ! i, addr, now)) = (case x of (i, now) \<Rightarrow> (?dg i, addr, now))"
      by (simp add: case_prod_unfold)
  qed
  let ?f = "arrived (map ?arr ?order)"
  note ready = audio_ready [OF assms(7), of ?payloads ?seq jc _ "st_timestamp sender" ?ticks,
      unfolded length_run_all, OF assms(8,9) u16_lt assms(10,11), folded r(4)]
  have "ticks \<noteq> []" using assms(12) len by auto
  then obtain now0 where "now0 \<in> set ticks" by (cases ticks) auto
  then have late0: "now0 \<ge> t0 + unat (initial_delay (jc_mode jc)) * 1000000" using assms(13) by blast
  note pay = ready(3) [OF late0]
  have "\<forall>payload\<in>set (map (\<lambda>i. bp_payload (?f i)) [?seq..<?seq + ?n]). payload \<noteq> []"
    unfolding pay by (rule assms(6))
  then have ne: "\<forall>i\<in>{?seq..<?seq + ?n}. bp_payload (?f i) \<noteq> []" by simp
  have n: "?seq + length ticks = ?seq + ?n" "?seq + ?n \<le> 4294967296"
    using assms(10,12) u16_lt [of "st_seq sender"] by simp_all
  have "\<forall>now\<in>set ticks. \<exists>b1. pop_start (st_jitter receiver1) now = Some (word_of_nat ?seq, b1) \<and>
      packets b1 = packets (st_jitter receiver1) \<and> config b1 = config (st_jitter receiver1)"
    using ready(2) assms(13) by blast
  note play_all [OF ready(1) [OF late0] n assms(5) ne this, of tab2]
  then obtain events receiver2 where "play_ticks tab2 receiver1 ticks = Some (events, receiver2)"
    "frames events = map (\<lambda>pcm. \<lparr>af_pcm = resize (pcm_samples_per_packet (sc_codec (st_config receiver))) pcm, af_kind = Received\<rparr>)
      (run_all (run_decoder tab2) (st_decoder receiver) ?payloads)"
    unfolding pay r(2,3) by blast
  moreover have "ingest_all tab2 ks2 mac2 receiver (map (\<lambda>(i, now). (map ?dg [0..<?n] ! i, addr, now)) ?order) =
      (replicate ?n (Inr None), receiver1)"
    unfolding dgs r(1) len ..
  moreover have "length (map ?dg [0..<?n]) = ?n" by simp
  ultimately show ?thesis using s by blast
qed

theorem call_delivers_audio_witness:
  "\<exists>dgs sender receiver events receiver2.
    packetize_all demo_tab demo_ks demo_mac demo_stream [replicate 160 0, replicate 160 1000] = (Inr dgs, sender) \<and>
    ingest_all demo_tab demo_ks demo_mac demo_stream [(dgs ! 1, demo_remote, 0), (dgs ! 0, demo_remote, 5)] =
      ([Inr None, Inr None], receiver) \<and>
    play_ticks demo_tab receiver [50000000, 70000000] = Some (events, receiver2) \<and>
    frames events =
      [\<lparr>af_pcm = resize 160 (PcmuDecoder_decode (snd (PcmuEncoder_encode (replicate 160 0) [])) []), af_kind = Received\<rparr>,
       \<lparr>af_pcm = resize 160 (PcmuDecoder_decode (snd (PcmuEncoder_encode (replicate 160 1000) [])) []), af_kind = Received\<rparr>]"
proof -
  let ?pcms = "[replicate 160 0, replicate 160 1000] :: pcm list"
  let ?jc = "\<lparr>jc_mode = Adaptive 40 20 120, jc_clock_rate = 8000, jc_max_packets = 50\<rparr>"
  have run: "run_encoder demo_tab PcmuEncoder pcm = (snd (PcmuEncoder_encode pcm []), PcmuEncoder)"
    "run_decoder demo_tab PcmuDecoder bs = (PcmuDecoder_decode bs [], PcmuDecoder)" for pcm bs
    by (simp_all add: codec_table_def)
  have frame: "pcm_samples_per_packet (sc_codec (st_config demo_stream)) = 160"
    by (simp add: StreamConfig_new_def pcm_samples_per_packet_def PACKET_DURATION_MS_def)
  have len: "\<forall>pcm\<in>set ?pcms. length pcm = pcm_samples_per_packet (sc_codec (st_config demo_stream))"
    unfolding frame by simp
  have talk: "talking demo_stream" by (simp add: talking_def)
  have hear: "hears demo_stream demo_remote (sc_payload_type (st_config demo_stream)) (st_ssrc demo_stream)"
    using demo_stream_hears [of 7] by (simp add: StreamConfig_new_def)
  have mode: "mode_ok (jc_mode ?jc)" by (simp add: mode_ok_def)
  have pay: "\<forall>payload\<in>set (run_all (run_encoder demo_tab) (st_encoder demo_stream) ?pcms). payload \<noteq> []"
    by (auto simp: run PcmuEncoder_encode_def)
  have perm: "distinct (map fst [(1 :: nat, 0), (0, 5 :: nat)])" "set (map fst [(1, 0), (0, 5 :: nat)]) = {..<length ?pcms}"
    by auto
  have num: "unat (st_seq demo_stream) + 1 < 65536" "length ?pcms < 32768" "length ?pcms \<le> jc_max_packets ?jc"
    "length [50000000, 70000000 :: nat] = length ?pcms"
    "\<forall>now\<in>set [50000000, 70000000]. now \<ge> 0 + unat (initial_delay (jc_mode ?jc)) * 1000000"
    by (simp_all add: initial_delay_def)
  have out: "run_all (run_decoder demo_tab) (st_decoder demo_stream)
      (run_all (run_encoder demo_tab) (st_encoder demo_stream) ?pcms) =
    [PcmuDecoder_decode (snd (PcmuEncoder_encode (replicate 160 0) [])) [],
     PcmuDecoder_decode (snd (PcmuEncoder_encode (replicate 160 1000) [])) []]"
    by (simp add: run)
  have two: "replicate (length ?pcms) (Inr None) = [Inr None, Inr None :: Dropped + DtmfEvent option]"
    by simp
  show ?thesis
    using call_delivers_audio [OF talk len hear demo_stream_fields(14) mode pay perm num,
        of demo_ks demo_mac demo_tab demo_ks demo_mac]
    unfolding out frame two list.map prod.case by blast
qed

end
