(* ===== verification/Stream_Losses.thy ===== *)
theory Stream_Losses
  imports Stream_Call
begin

text \<open>
  A call over a network that loses packets: what the jitter buffer of a stream hands out for a
  number that never came, and what the stream plays in its place.
\<close>

section \<open>A jitter buffer with gaps\<close>

definition gapped :: "JitterConfig \<Rightarrow> (nat \<Rightarrow> BufferedPacket) \<Rightarrow> nat set \<Rightarrow> JitterBuffer \<Rightarrow> bool" where
  "gapped cfg f A b \<longleftrightarrow> config b = cfg \<and> bt_inv (packets b) \<and> bt_keys (packets b) = word_of_nat ` A \<and>
     (\<forall>i\<in>A. bt_get (packets b) (word_of_nat i) = Some (f i))"

lemma gapped_get:
  assumes "gapped cfg f A b" "A \<subseteq> {..<4294967296}" "i < 4294967296"
  shows "bt_get (packets b) (word_of_nat i) = (if i \<in> A then Some (f i) else None)"
proof (cases "i \<in> A")
  case False
  have "word_of_nat i \<noteq> (word_of_nat j :: u32)" if "j \<in> A" for j
    using that False assms(2,3) word_of_nat_eq_iff [of i j] by auto
  then have "word_of_nat i \<notin> bt_keys (packets b)" using assms(1) by (auto simp: gapped_def)
  with False show ?thesis by (simp add: bt_get_None)
qed (use assms(1) in \<open>simp add: gapped_def\<close>)

lemma word_of_nat_diff: "m \<le> i \<Longrightarrow> (word_of_nat i - word_of_nat m :: u32) = word_of_nat (i - m)"
  by (simp add: of_nat_diff)

text \<open>A gap is played as such: the packets behind it are too near to jump to them.\<close>

lemma pop_target_gapped:
  assumes g: "gapped cfg f A b" and A: "A \<subseteq> {m..<n}" "n - 1 \<in> A" "n \<le> 4294967296"
    and near: "n \<le> m + jc_max_packets cfg" "jc_max_packets cfg < 4294967296"
  shows "pop_target b (word_of_nat m) = Some (word_of_nat m)"
proof (cases "bt_get (packets b) (word_of_nat m)")
  case None
  have g': "bt_inv (packets b)" "bt_keys (packets b) = word_of_nat ` A" "config b = cfg" using g by (simp_all add: gapped_def)
  have le: "word_of_nat m \<le> (word_of_nat i :: u32)" if "i \<in> A" for i
  proof -
    have "m \<le> i" "i < 4294967296" using that A(1,3) by auto
    then show ?thesis by (simp add: word_le_nat_alt unat_of_nat_u32)
  qed
  have "word_of_nat (n - 1) \<in> bt_keys (packets b)" unfolding g'(2) using A(2) by (rule imageI)
  then have "bt_from (packets b) (word_of_nat m) \<noteq> None"
    using le [OF A(2)] unfolding bt_from_None by (meson leD)
  then obtain j where j: "bt_from (packets b) (word_of_nat m) = Some j" by blast
  then have "j \<in> word_of_nat ` A" unfolding bt_from_Some [OF g'(1)] g'(2) by blast
  then obtain i where i: "j = word_of_nat i" "i \<in> A" by blast
  have im: "m \<le> i" "i < n" using i(2) A(1) by auto
  have "j - word_of_nat m = word_of_nat (i - m)" unfolding i(1) by (rule word_of_nat_diff [OF im(1)])
  moreover have "i - m < 4294967296" using im A(3) by simp
  ultimately have "unat (j - word_of_nat m) = i - m" by (simp only: unat_of_nat_u32 mod_less)
  moreover have "unat (discontinuity b) = max (jc_max_packets cfg) 1"
    using near(2) by (simp add: discontinuity_def g'(3) unat_of_nat_u32)
  ultimately have "\<not> discontinuity b < j - word_of_nat m" using im near(1) by (simp add: word_less_nat_alt)
  with None j show ?thesis by (simp add: pop_target_def)
qed (simp add: pop_target_def)

lemma pop_gapped:
  assumes g: "gapped cfg f A b" and A: "A \<subseteq> {m..<n}" "n - 1 \<in> A" "n \<le> 4294967296"
    and near: "n \<le> m + jc_max_packets cfg" "jc_max_packets cfg < 4294967296" and ok: "mode_ok (jc_mode cfg)"
    and t: "pop_start b now = Some (word_of_nat m, b1)" "packets b1 = packets b" "config b1 = config b"
  shows "\<exists>p b'. pop_at b now = Some (Some p, b') \<and> gapped cfg f (A - {m}) b' \<and> playout_seq b' = Some (word_of_nat (Suc m)) \<and>
    (if m \<in> A then p = f m else bp_payload p = [])"
proof -
  have m: "m < 4294967296" and sub: "A \<subseteq> {..<4294967296}" using A by auto
  have "gapped cfg f A b1" using g t by (simp add: gapped_def)
  note tgt = pop_target_gapped [OF this A near]
  define b2 where "b2 = snd (pop_play b1 (word_of_nat m) now)"
  have pkt: "if m \<in> A then fst (pop_play b1 (word_of_nat m) now) = f m else bp_payload (fst (pop_play b1 (word_of_nat m) now)) = []"
    using gapped_get [OF g sub m] by (simp add: pop_play_packet t(2))
  have b2: "config b2 = cfg" "packets b2 = bt_remove (word_of_nat m) (packets b)"
    "playout_seq b2 = Some (word_of_nat m + 1)"
    using g t by (simp_all add: b2_def pop_play_fields gapped_def)
  obtain b3 where b3: "adapt_delay b2 = Some b3" using adapt_delay_some [of b2] ok b2(1) by auto
  have eq: "b3 = b2\<lparr>current_delay_ms := current_delay_ms b3\<rparr>" using adapt_delay_spec [OF b3] by blast
  have inj: "(word_of_nat i :: u32) = word_of_nat m \<longleftrightarrow> i = m" if "i \<in> A" for i
    using that m sub by (auto simp: word_of_nat_eq_iff)
  have "word_of_nat ` A - {word_of_nat m :: u32} = word_of_nat ` (A - {m})"
    using inj by auto
  moreover have "\<forall>i\<in>A - {m}. bt_get (bt_remove (word_of_nat m) (packets b)) (word_of_nat i) = Some (f i)"
    using g inj by (auto simp: gapped_def bt_get_remove)
  ultimately have "gapped cfg f (A - {m}) b3" "playout_seq b3 = Some (word_of_nat (Suc m))"
    using g b2 by (subst eq, simp add: gapped_def bt_remove_inv bt_remove_keys add.commute)+
  moreover have "pop_at b now = Some (Some (fst (pop_play b1 (word_of_nat m) now)), b3)"
    using t(1) tgt b3 by (simp add: pop_at_def Let_def case_prod_unfold b2_def)
  ultimately show ?thesis using pkt by blast
qed

lemma collecting_gapped:
  assumes c: "collecting cfg t0 l as b" and s: "fst ` set as = A" "A \<subseteq> {..<4294967296}" and m: "m \<in> A" "\<forall>i\<in>A. m \<le> i"
    and f: "\<forall>a\<in>set as. f (fst a) = buffered a"
    and now: "now - t0 \<ge> unat (initial_delay (jc_mode cfg)) * 1000000"
  shows "gapped cfg f A b" and "\<exists>b1. pop_start b now = Some (word_of_nat m, b1) \<and> packets b1 = packets b \<and> config b1 = config b"
proof -
  have k: "bt_inv (packets b)" "bt_keys (packets b) = word_of_nat ` A"
    using c by (simp_all add: collecting_def image_image flip: s(1))
  show "gapped cfg f A b"
    unfolding gapped_def
  proof (intro conjI ballI)
    fix i assume "i \<in> A"
    then obtain a where "a \<in> set as" "i = fst a" using s(1) by (metis imageE)
    with c f show "bt_get (packets b) (word_of_nat i) = Some (f i)" by (simp add: collecting_def)
  qed (use c k in \<open>simp_all add: collecting_def\<close>)
  have "word_of_nat m \<le> (word_of_nat i :: u32)" if "i \<in> A" for i
    using that m s(2) by (auto simp: word_le_nat_alt unat_of_nat_u32 subset_eq)
  then have first: "bt_first (packets b) = Some (word_of_nat m)"
    using m(1) unfolding bt_first_min [OF k(1)] k(2) by auto
  then have "packets b \<noteq> []" by (auto simp: bt_first_def)
  with c now first show "\<exists>b1. pop_start b now = Some (word_of_nat m, b1) \<and> packets b1 = packets b \<and> config b1 = config b"
    by (simp add: collecting_def pop_start_def should_start_playout_def)
qed

section \<open>Playing over gaps\<close>

text \<open>What is to be played of a stream with losses: a payload that came is decoded; in place of one
  that did not, the decoder conceals with the help of the next one, if that came.\<close>

definition next_payload :: "bytes option list \<Rightarrow> bytes option" where
  "next_payload ps = (case ps of [] \<Rightarrow> None | p # _ \<Rightarrow> p)"

fun play_lossy :: "('e, 'd) codecs \<Rightarrow> 'd \<Rightarrow> nat \<Rightarrow> bytes option list \<Rightarrow> AudioFrame list" where
  "play_lossy tab d n [] = []"
| "play_lossy tab d n (Some payload # ps) =
     (let (pcm, d) = run_decoder tab d payload in \<lparr>af_pcm = resize n pcm, af_kind = Received\<rparr> # play_lossy tab d n ps)"
| "play_lossy tab d n (None # ps) =
     (let (pcm, d) = run_conceal tab d n (next_payload ps) in \<lparr>af_pcm = resize n pcm, af_kind = Concealed\<rparr> # play_lossy tab d n ps)"

lemma playout_concealed:
  assumes "pop_at (st_jitter core) now = Some (Some p, j)" "bp_payload p = []"
  defines "n \<equiv> pcm_samples_per_packet (sc_codec (st_config core))"
  shows "\<exists>events core'. playout tab core now = Some (events, core') \<and>
    frames events = [\<lparr>af_pcm = resize n (fst (run_conceal tab (st_decoder core) n (map_option bp_payload (peek_next j)))),
      af_kind = Concealed\<rparr>] \<and>
    st_jitter core' = j \<and> st_config core' = st_config core \<and>
    st_decoder core' = snd (run_conceal tab (st_decoder core) n (map_option bp_payload (peek_next j)))"
proof -
  obtain ev core1 where t: "timeout_events core now = (ev, core1)" by fastforce
  then have 1: "st_jitter core1 = st_jitter core" "st_config core1 = st_config core" "st_decoder core1 = st_decoder core"
    "frames ev = []"
    using timeout_events_frames [of core now] by (auto simp: timeout_events_def Let_def split: if_splits)
  show ?thesis
    using assms 1 by (simp add: playout_def t play_packet_def Let_def case_prod_unfold)
qed

lemma play_gapped:
  assumes "gapped jc f A (st_jitter core)" "A \<subseteq> {m..<n}" "m + length ticks = n" "m < n \<Longrightarrow> n - 1 \<in> A" "n \<le> 4294967296"
    and "n \<le> m + jc_max_packets jc" "jc_max_packets jc < 4294967296" "mode_ok (jc_mode jc)"
    and "\<forall>i\<in>A. bp_payload (f i) \<noteq> []"
    and "\<forall>now\<in>set ticks. \<exists>b1. pop_start (st_jitter core) now = Some (word_of_nat m, b1) \<and>
      packets b1 = packets (st_jitter core) \<and> config b1 = config (st_jitter core)"
  shows "\<exists>events core'. play_ticks tab core ticks = Some (events, core') \<and>
    frames events = play_lossy tab (st_decoder core) (pcm_samples_per_packet (sc_codec (st_config core)))
      (map (\<lambda>i. if i \<in> A then Some (bp_payload (f i)) else None) [m..<n])"
  using assms
proof (induction ticks arbitrary: core m A)
  case (Cons now ticks)
  let ?s = "pcm_samples_per_packet (sc_codec (st_config core))"
  have mn: "m < n" using Cons.prems(3) by simp
  have last_A: "n - 1 \<in> A" using Cons.prems(4) mn by blast
  obtain p j where j: "pop_at (st_jitter core) now = Some (Some p, j)" "gapped jc f (A - {m}) j"
    "playout_seq j = Some (word_of_nat (Suc m))" "if m \<in> A then p = f m else bp_payload p = []"
    using pop_gapped [OF Cons.prems(1,2) last_A Cons.prems(5-8)] Cons.prems(10) by (metis list.set_intros(1))
  have rest: "A - {m} \<subseteq> {Suc m..<n}" "Suc m < n \<Longrightarrow> n - 1 \<in> A - {m}" "\<forall>i\<in>A - {m}. bp_payload (f i) \<noteq> []"
    "\<forall>now\<in>set ticks. \<exists>b1. pop_start j now = Some (word_of_nat (Suc m), b1) \<and> packets b1 = packets j \<and> config b1 = config j"
    using Cons.prems(2,9) last_A j(3) by (auto simp: pop_start_def)
  have same: "map (\<lambda>i. if i \<in> A - {m} then Some (bp_payload (f i)) else None) [Suc m..<n] =
      map (\<lambda>i. if i \<in> A then Some (bp_payload (f i)) else None) [Suc m..<n]" by simp
  have IH: "\<exists>events core'. play_ticks tab core1 ticks = Some (events, core') \<and>
      frames events = play_lossy tab (st_decoder core1) ?s (map (\<lambda>i. if i \<in> A then Some (bp_payload (f i)) else None) [Suc m..<n])"
    if "st_jitter core1 = j" "st_config core1 = st_config core" for core1
    using Cons.IH [of "A - {m}" core1 "Suc m"] Cons.prems(3,5-8) rest j(2) that unfolding same by simp
  show ?case
  proof (cases "m \<in> A")
    case True
    then have p: "p = f m" "bp_payload p \<noteq> []" using j(4) Cons.prems(9) by auto
    obtain ev core1 where o: "playout tab core now = Some (ev, core1)"
      "frames ev = [\<lparr>af_pcm = resize ?s (fst (run_decoder tab (st_decoder core) (bp_payload p))), af_kind = Received\<rparr>]"
      "st_jitter core1 = j" "st_config core1 = st_config core"
      "st_decoder core1 = snd (run_decoder tab (st_decoder core) (bp_payload p))"
      using playout_played [OF j(1) p(2)] by blast
    with IH [OF o(3,4)] True mn p(1) show ?thesis by (auto simp: upt_conv_Cons case_prod_unfold Let_def)
  next
    case False
    then have p: "bp_payload p = []" using j(4) by simp
    have sm: "Suc m < n" using False last_A mn by (metis Suc_lessI diff_Suc_1)
    have "A - {m} \<subseteq> {..<4294967296}" "Suc m < 4294967296" using rest(1) sm Cons.prems(5) by auto
    then have peek: "map_option bp_payload (peek_next j) = (if Suc m \<in> A then Some (bp_payload (f (Suc m))) else None)"
      using gapped_get [OF j(2)] by (simp add: peek_next_def j(3) del: of_nat_Suc)
    obtain ev core1 where o: "playout tab core now = Some (ev, core1)"
      "frames ev = [\<lparr>af_pcm = resize ?s (fst (run_conceal tab (st_decoder core) ?s (map_option bp_payload (peek_next j)))),
        af_kind = Concealed\<rparr>]"
      "st_jitter core1 = j" "st_config core1 = st_config core"
      "st_decoder core1 = snd (run_conceal tab (st_decoder core) ?s (map_option bp_payload (peek_next j)))"
      using playout_concealed [OF j(1) p] by blast
    with IH [OF o(3,4)] False mn sm peek show ?thesis
      by (auto simp: upt_conv_Cons next_payload_def case_prod_unfold Let_def)
  qed
qed simp

text \<open>The packets \<open>A\<close> of a stream arrive in some order: the buffer holds them, and starts with the first.\<close>

lemma audio_gapped:
  fixes ts ticks :: u32 and seq :: nat
  assumes "distinct (map fst ((i0, t0) # order))" "set (map fst ((i0, t0) # order)) = A" "A \<subseteq> {..<length payloads}"
    and "seq + i0 < 65536" "seq < 65536" "length payloads < 32768" "length payloads \<le> jc_max_packets jc"
  defines "b \<equiv> push_all (JitterBuffer_new jc) (map (audio_arrival seq ts ticks payloads) ((i0, t0) # order))"
    and "f \<equiv> arrived (map (audio_arrival seq ts ticks payloads) ((i0, t0) # order))"
  assumes late: "now \<ge> t0 + unat (initial_delay (jc_mode jc)) * 1000000"
  shows "gapped jc f ((+) seq ` A) b"
    and "\<exists>b1. pop_start b now = Some (word_of_nat (seq + Min A), b1) \<and> packets b1 = packets b \<and> config b1 = config b"
    and "\<forall>i\<in>A. bp_payload (f (seq + i)) = payloads ! i"
proof -
  let ?arr = "audio_arrival seq ts ticks payloads"
  let ?as = "map ?arr ((i0, t0) # order)"
  have fst_arr: "fst (?arr x) = seq + fst x" for x by (simp add: audio_arrival_def case_prod_unfold)
  have keys: "map fst ?as = map ((+) seq) (map fst ((i0, t0) # order))" by (simp add: fst_arr)
  have dist: "distinct (map fst ?as)" unfolding keys using assms(1) by (simp only: distinct_map) (simp add: inj_on_def)
  have range: "fst ` set ?as = (+) seq ` A" using arg_cong [OF keys, of set] unfolding set_map assms(2) [symmetric] .
  have A: "finite A" "i0 \<in> A" "card A = length ((i0, t0) # order)"
    using assms(1,2) distinct_card [OF assms(1)] by auto
  have "card A \<le> length payloads" using card_mono [OF _ assms(3)] by simp
  then have room: "length ((i0, t0) # order) \<le> jc_max_packets jc" using A(3) assms(7) by simp
  have sub: "(+) seq ` A \<subseteq> {seq..<seq + 32768}" using assms(3,6) by auto
  have i0: "seq + i0 \<in> (+) seq ` A" using A(2) by blast
  obtain p where p: "?arr (i0, t0) = (seq + i0, p)" "snd (snd p) = t0" by (simp add: audio_arrival_def)
  obtain tsx pl where p': "p = (tsx, pl, t0)" using p(2) by (cases p) auto
  let ?b1 = "snd (push_at (JitterBuffer_new jc) (word_of_nat (seq + i0)) tsx pl t0)"
  have c1: "collecting jc t0 (seq + i0) [(seq + i0, tsx, pl, t0)] ?b1"
    using assms(4) room by (intro push_first) simp_all
  have "set (map fst (map ?arr order)) \<subseteq> (+) seq ` A" using range by auto
  then have "\<exists>l. collecting jc t0 l (rev (map ?arr order) @ [(seq + i0, tsx, pl, t0)]) (push_all ?b1 (map ?arr order))"
    using dist room sub i0 assms(5) p p' by (intro push_all_collecting [OF c1, where m = seq]) auto
  then obtain l where c: "collecting jc t0 l (rev (map ?arr order) @ [?arr (i0, t0)]) b"
    by (auto simp: b_def p p')
  have f: "f (fst x) = buffered x" if "x \<in> set ?as" for x
  proof -
    have "map_of ?as (fst x) = Some (snd x)" using dist that by (intro map_of_is_SomeI) auto
    then show ?thesis by (simp add: f_def arrived_def)
  qed
  then have f': "\<forall>x\<in>set (rev (map ?arr order) @ [?arr (i0, t0)]). f (fst x) = buffered x" by auto
  have r': "fst ` set (rev (map ?arr order) @ [?arr (i0, t0)]) = (+) seq ` A" using range by auto
  have small: "(+) seq ` A \<subseteq> {..<4294967296}" using sub assms(5) by auto
  have "Min A \<in> A" using A(1,2) by (intro Min_in) auto
  then have least: "seq + Min A \<in> (+) seq ` A" "\<forall>i\<in>(+) seq ` A. seq + Min A \<le> i" using A(1) by (simp_all add: imageI)
  have "unat (initial_delay (jc_mode jc)) * 1000000 \<le> now - t0" using late by simp
  from collecting_gapped [OF c r' small least f' this] show "gapped jc f ((+) seq ` A) b"
    "\<exists>b1. pop_start b now = Some (word_of_nat (seq + Min A), b1) \<and> packets b1 = packets b \<and> config b1 = config b" .
  show "\<forall>i\<in>A. bp_payload (f (seq + i)) = payloads ! i"
  proof
    fix i assume "i \<in> A"
    then have "i \<in> fst ` set ((i0, t0) # order)" using assms(2) unfolding set_map by blast
    then obtain now where "(i, now) \<in> set ((i0, t0) # order)" by force
    then have "?arr (i, now) \<in> set ?as" unfolding set_map by (rule imageI)
    from f [OF this] show "bp_payload (f (seq + i)) = payloads ! i" by (simp add: audio_arrival_def buffered_def)
  qed
qed

section \<open>Properties\<close>

text \<open>C3: a call survives losses and reordering.  A stream that talks packetizes frames of its codec's
  length, and any of the packets, in any order, reach a stream that hears it and has received nothing
  yet; that one is ticked from the first of them to the last, after the initial delay.  Nothing is
  dropped, and each tick plays one frame: of a packet that came, what the decoder makes of the
  encoder's output, and of one that did not, what the decoder conceals with, given the payload of the
  next packet if that one came (the redundant copy of Opus is in there).  The bounds are those of
  the jitter buffer: all the packets fit, fewer than \<open>2\<^sup>1\<^sup>5\<close> of them, and the first to arrive
  does not come from behind a wrap of the sequence number.\<close>

theorem call_survives_losses:
  fixes sender :: "('e, 'd) StreamCore" and receiver :: "('f, 'g) StreamCore"
  defines "n \<equiv> pcm_samples_per_packet (sc_codec (st_config receiver))"
  assumes "talking sender" "\<forall>pcm\<in>set pcms. length pcm = pcm_samples_per_packet (sc_codec (st_config sender))"
    and "hears receiver addr (sc_payload_type (st_config sender)) (st_ssrc sender)"
    and "st_jitter receiver = JitterBuffer_new jc" "mode_ok (jc_mode jc)"
    and "\<forall>payload\<in>set (run_all (run_encoder tab) (st_encoder sender) pcms). payload \<noteq> []"
    and "distinct (map fst ((i0, t0) # order))" "set (map fst ((i0, t0) # order)) = A" "A \<subseteq> {..<length pcms}"
    and "unat (st_seq sender) + i0 < 65536" "length pcms < 32768" "length pcms \<le> jc_max_packets jc" "jc_max_packets jc < 4294967296"
    and "length ticks = Suc (Max A) - Min A" "\<forall>now\<in>set ticks. now \<ge> t0 + unat (initial_delay (jc_mode jc)) * 1000000"
  shows "\<exists>dgs sender1 receiver1 events receiver2. packetize_all tab ks mac sender pcms = (Inr dgs, sender1) \<and>
    length dgs = length pcms \<and>
    ingest_all tab2 ks2 mac2 receiver (map (\<lambda>(i, now). (dgs ! i, addr, now)) ((i0, t0) # order)) =
      (replicate (card A) (Inr None), receiver1) \<and>
    play_ticks tab2 receiver1 ticks = Some (events, receiver2) \<and>
    frames events = play_lossy tab2 (st_decoder receiver) n
      (map (\<lambda>i. if i \<in> A then Some (run_all (run_encoder tab) (st_encoder sender) pcms ! i) else None) [Min A..<Suc (Max A)])"
proof -
  let ?pt = "sc_payload_type (st_config sender)"
  let ?ticks = "word_of_nat (rtp_ticks_per_packet (sc_codec (st_config sender))) :: u32"
  let ?payloads = "run_all (run_encoder tab) (st_encoder sender) pcms"
  let ?dg = "audio_datagram ?pt (st_ssrc sender) (st_marker sender) (st_seq sender) (st_timestamp sender) ?ticks ?payloads"
  let ?seq = "unat (st_seq sender)"
  let ?arr = "audio_arrival ?seq (st_timestamp sender) ?ticks ?payloads"
  let ?order = "(i0, t0) # order"
  let ?f = "arrived (map ?arr ?order)"
  obtain sender1 where s: "packetize_all tab ks mac sender pcms = (Inr (map ?dg [0..<length pcms]), sender1)"
    using packetize_all_talking [OF assms(2,3)] by blast
  have A: "finite A" "A \<noteq> {}" using assms(9) by auto
  have card: "length ?order = card A" using distinct_card [OF assms(8)] assms(9) by simp
  have sub: "\<forall>(i, now)\<in>set ?order. i < length pcms" using assms(9,10) by auto
  have dgs: "map (\<lambda>(i, now). (map ?dg [0..<length pcms] ! i, addr, now)) ?order = map (\<lambda>(i, now). (?dg i, addr, now)) ?order"
    by (rule map_cong [OF refl]) (use sub in auto)
  obtain receiver1 where r: "ingest_all tab2 ks2 mac2 receiver (map (\<lambda>(i, now). (?dg i, addr, now)) ?order) =
      (replicate (length ?order) (Inr None), receiver1)"
    "st_config receiver1 = st_config receiver" "st_decoder receiver1 = st_decoder receiver"
    "st_jitter receiver1 = push_all (st_jitter receiver) (map ?arr ?order)"
    using ingest_all_audio [OF assms(4) word_of_nat_unat [of "st_seq sender"], of tab2 ks2 mac2 "st_marker sender" "st_timestamp sender"
      ?ticks ?payloads ?order] by blast
  have seq: "?seq < 65536" by (rule u16_lt)
  have len: "length ?payloads = length pcms" by simp
  note g = audio_gapped [where payloads = ?payloads and jc = jc and ts = "st_timestamp sender" and ticks = ?ticks,
      OF assms(8,9) _ assms(11) seq, unfolded len, OF assms(10,12,13)]
  have "Max A < length pcms" "Min A \<le> Max A" using A assms(10) Max_in [of A] by auto
  note bounds = this
  have gap: "gapped jc ?f ((+) ?seq ` A) (st_jitter receiver1)"
    using g(1) [OF order_refl] by (simp only: r(4) assms(5))
  have in_range: "(+) ?seq ` A \<subseteq> {?seq + Min A..<?seq + Suc (Max A)}" using A by (auto simp: less_Suc_eq_le)
  have payload: "bp_payload (?f (?seq + i)) = ?payloads ! i" if "i \<in> A" for i using g(3) [OF order_refl] that by blast
  have ne: "\<forall>i\<in>(+) ?seq ` A. bp_payload (?f i) \<noteq> []"
    using payload assms(7,10) by (auto simp: len intro!: nth_mem)
  have "\<exists>events receiver2. play_ticks tab2 receiver1 ticks = Some (events, receiver2) \<and>
    frames events = play_lossy tab2 (st_decoder receiver1) (pcm_samples_per_packet (sc_codec (st_config receiver1)))
      (map (\<lambda>i. if i \<in> (+) ?seq ` A then Some (bp_payload (?f i)) else None) [?seq + Min A..<?seq + Suc (Max A)])"
  proof (rule play_gapped [OF gap in_range])
    show "?seq + Suc (Max A) - 1 \<in> (+) ?seq ` A" using A by simp
    show "\<forall>now\<in>set ticks. \<exists>b1. pop_start (st_jitter receiver1) now = Some (word_of_nat (?seq + Min A), b1) \<and>
        packets b1 = packets (st_jitter receiver1) \<and> config b1 = config (st_jitter receiver1)"
      using g(2) assms(16) by (simp only: r(4) assms(5)) blast
  qed (use assms(6,12-15) bounds seq ne in simp_all)
  moreover have "map (\<lambda>i. if i \<in> (+) ?seq ` A then Some (bp_payload (?f i)) else None) [?seq + Min A..<?seq + Suc (Max A)] =
      map (\<lambda>i. if i \<in> A then Some (?payloads ! i) else None) [Min A..<Suc (Max A)]"
  proof (rule nth_equalityI)
    fix k assume "k < length (map (\<lambda>i. if i \<in> (+) ?seq ` A then Some (bp_payload (?f i)) else None) [?seq + Min A..<?seq + Suc (Max A)])"
    then have k: "k < Suc (Max A) - Min A" by (simp del: upt_Suc)
    then have "?seq + Min A + k \<in> (+) ?seq ` A \<longleftrightarrow> Min A + k \<in> A" by (auto simp: add.assoc)
    with k show "map (\<lambda>i. if i \<in> (+) ?seq ` A then Some (bp_payload (?f i)) else None) [?seq + Min A..<?seq + Suc (Max A)] ! k =
        map (\<lambda>i. if i \<in> A then Some (?payloads ! i) else None) [Min A..<Suc (Max A)] ! k"
      using payload [of "Min A + k"] by (simp add: add.assoc del: upt_Suc)
  qed (simp del: upt_Suc)
  ultimately obtain events receiver2 where p: "play_ticks tab2 receiver1 ticks = Some (events, receiver2)"
    "frames events = play_lossy tab2 (st_decoder receiver) n
      (map (\<lambda>i. if i \<in> A then Some (?payloads ! i) else None) [Min A..<Suc (Max A)])"
    unfolding n_def r(2,3) by auto
  have "length (map ?dg [0..<length pcms]) = length pcms" by simp
  with s r(1) [folded dgs, unfolded card] p show ?thesis by blast
qed

text \<open>Of three packets the second is lost.\<close>

theorem call_survives_losses_witness:
  "\<exists>dgs sender receiver events receiver2.
    packetize_all demo_tab demo_ks demo_mac demo_stream [replicate 160 0, replicate 160 500, replicate 160 1000] = (Inr dgs, sender) \<and>
    ingest_all demo_tab demo_ks demo_mac demo_stream [(dgs ! 0, demo_remote, 0), (dgs ! 2, demo_remote, 5)] =
      ([Inr None, Inr None], receiver) \<and>
    play_ticks demo_tab receiver [50000000, 70000000, 90000000] = Some (events, receiver2) \<and>
    frames events =
      [\<lparr>af_pcm = resize 160 (PcmuDecoder_decode (snd (PcmuEncoder_encode (replicate 160 0) [])) []), af_kind = Received\<rparr>,
       \<lparr>af_pcm = resize 160 (replicate 160 0), af_kind = Concealed\<rparr>,
       \<lparr>af_pcm = resize 160 (PcmuDecoder_decode (snd (PcmuEncoder_encode (replicate 160 1000) [])) []), af_kind = Received\<rparr>]"
proof -
  let ?pcms = "[replicate 160 0, replicate 160 500, replicate 160 1000] :: pcm list"
  let ?jc = "\<lparr>jc_mode = Adaptive 40 20 120, jc_clock_rate = 8000, jc_max_packets = 50\<rparr>"
  have run: "run_encoder demo_tab PcmuEncoder pcm = (snd (PcmuEncoder_encode pcm []), PcmuEncoder)"
    "run_decoder demo_tab PcmuDecoder bs = (PcmuDecoder_decode bs [], PcmuDecoder)"
    "run_conceal demo_tab PcmuDecoder n nxt = (replicate n 0, PcmuDecoder)" for pcm bs n nxt
    by (simp_all add: codec_table_def conceal_loss_def)
  have frame: "pcm_samples_per_packet (sc_codec (st_config demo_stream)) = 160"
    by (simp add: StreamConfig_new_def pcm_samples_per_packet_def PACKET_DURATION_MS_def)
  have len: "\<forall>pcm\<in>set ?pcms. length pcm = pcm_samples_per_packet (sc_codec (st_config demo_stream))"
    unfolding frame by simp
  have talk: "talking demo_stream" by (simp add: talking_def)
  have hear: "hears demo_stream demo_remote (sc_payload_type (st_config demo_stream)) (st_ssrc demo_stream)"
    using demo_stream_hears [of 7] by (simp add: StreamConfig_new_def)
  have mode: "mode_ok (jc_mode ?jc)" by (simp add: mode_ok_def)
  have pay: "\<forall>payload\<in>set (run_all (run_encoder demo_tab) (st_encoder demo_stream) ?pcms). payload \<noteq> []"
    by (auto simp: run PcmuEncoder_encode_def)
  have A: "distinct (map fst [(0 :: nat, 0), (2, 5 :: nat)])" "set (map fst [(0, 0), (2, 5 :: nat)]) = {0, 2 :: nat}" "{0, 2} \<subseteq> {..<length ?pcms}"
    by auto
  have num: "unat (st_seq demo_stream) + 0 < 65536" "length ?pcms < 32768" "length ?pcms \<le> jc_max_packets ?jc" "jc_max_packets ?jc < 4294967296"
    "length [50000000, 70000000, 90000000 :: nat] = Suc (Max {0, 2}) - Min {0, 2 :: nat}"
    "\<forall>now\<in>set [50000000, 70000000, 90000000]. now \<ge> 0 + unat (initial_delay (jc_mode ?jc)) * 1000000"
    by (simp_all add: initial_delay_def)
  have upto: "[Min {0, 2}..<Suc (Max {0, 2 :: nat})] = [0, 1, 2]" by (simp add: upt_rec)
  have two: "replicate (card {0, 2 :: nat}) (Inr None) = [Inr None, Inr None :: Dropped + DtmfEvent option]"
    by (simp add: numeral_eq_Suc)
  have out: "play_lossy demo_tab (st_decoder demo_stream) 160
      (map (\<lambda>i. if i \<in> {0, 2} then Some (run_all (run_encoder demo_tab) (st_encoder demo_stream) ?pcms ! i) else None)
        [Min {0, 2}..<Suc (Max {0, 2 :: nat})]) =
    [\<lparr>af_pcm = resize 160 (PcmuDecoder_decode (snd (PcmuEncoder_encode (replicate 160 0) [])) []), af_kind = Received\<rparr>,
     \<lparr>af_pcm = resize 160 (replicate 160 0), af_kind = Concealed\<rparr>,
     \<lparr>af_pcm = resize 160 (PcmuDecoder_decode (snd (PcmuEncoder_encode (replicate 160 1000) [])) []), af_kind = Received\<rparr>]"
    unfolding upto by (simp add: run)
  show ?thesis
    using call_survives_losses [OF talk len hear demo_stream_fields(14) mode pay A num,
        of demo_ks demo_mac demo_tab demo_ks demo_mac]
    unfolding frame out two list.map prod.case by blast
qed

end
