(* ===== verification/Opus_Codec.thy ===== *)
theory Opus_Codec
  imports Errors Pcm
begin

text \<open>
  The Opus codec of \<^verbatim>\<open>src/src/codec/opus_codec.rs\<close>: the calls to the foreign library (libopus through
  \<^verbatim>\<open>audiopus\<close>), whose functions are the fields of an argument, and what is done with the answers.  An error
  of the library is its text.  \<open>None\<close> is the panic of a slice beyond the end of its buffer.
\<close>

section \<open>The library\<close>

datatype opus_setting = SetBitrate int | SetSignalVoice | SetInbandFec bool | SetPacketLossPerc nat

text \<open>\<open>'e\<close>, \<open>'d\<close> and \<open>'p\<close> are its encoders, decoders and packets.  Encoders are made for one channel of
  voice at the given rate.  The encoder fills a buffer of bytes and the decoder one of samples, and both
  tell how much of it.\<close>

record ('e, 'd, 'p) libopus =
  encoder_create :: "nat \<Rightarrow> string + 'e"
  encoder_set :: "opus_setting \<Rightarrow> 'e \<Rightarrow> string + 'e"
  encoder_run :: "'e \<Rightarrow> pcm \<Rightarrow> bytes \<Rightarrow> (string + nat) \<times> bytes \<times> 'e"
  decoder_create :: "nat \<Rightarrow> string + 'd"
  packet_of :: "bytes \<Rightarrow> string + 'p"
  check_signals :: "pcm \<Rightarrow> string option"
  decoder_run :: "'d \<Rightarrow> 'p option \<Rightarrow> pcm \<Rightarrow> bool \<Rightarrow> (string + nat) \<times> pcm \<times> 'd"

definition OPUS_RATE :: nat where "OPUS_RATE = 48000"
definition BITRATE_BPS :: int where "BITRATE_BPS = 32000"
definition EXPECTED_LOSS_PERCENT :: nat where "EXPECTED_LOSS_PERCENT = 10"
definition MAX_DECODED_SAMPLES :: nat where "MAX_DECODED_SAMPLES = 5760"
definition VALID_FRAME_LENGTHS :: "nat list" where "VALID_FRAME_LENGTHS = [120, 240, 480, 960, 1920, 2880]"

text \<open>\<^verbatim>\<open>map_err\<close> to an error of this crate.\<close>

definition codec_error :: "string \<Rightarrow> string + 'a \<Rightarrow> error + 'a" where
  "codec_error what r = map_sum (\<lambda>e. Codec (what @ e)) id r"

section \<open>The encoder\<close>

definition OpusEncoder_new :: "('e, 'd, 'p) libopus \<Rightarrow> error + 'e" where
  "OpusEncoder_new lib =
    (case codec_error ''Opus encoder init: '' (encoder_create lib OPUS_RATE) of Inl e \<Rightarrow> Inl e | Inr encoder \<Rightarrow>
     case codec_error ''Opus set bitrate: '' (encoder_set lib (SetBitrate BITRATE_BPS) encoder) of Inl e \<Rightarrow> Inl e | Inr encoder \<Rightarrow>
     case codec_error ''Opus set signal: '' (encoder_set lib SetSignalVoice encoder) of Inl e \<Rightarrow> Inl e | Inr encoder \<Rightarrow>
     case codec_error ''Opus set FEC: '' (encoder_set lib (SetInbandFec True) encoder) of Inl e \<Rightarrow> Inl e | Inr encoder \<Rightarrow>
     codec_error ''Opus set loss: '' (encoder_set lib (SetPacketLossPerc EXPECTED_LOSS_PERCENT) encoder))"

text \<open>How many samples were taken, what was appended, and the encoder.\<close>

definition OpusEncoder_encode :: "('e, 'd, 'p) libopus \<Rightarrow> 'e \<Rightarrow> pcm \<Rightarrow> (nat \<times> bytes \<times> 'e) option" where
  "OpusEncoder_encode lib encoder pcm =
    (if length pcm \<notin> set VALID_FRAME_LENGTHS then Some (0, [], encoder)
     else
       case encoder_run lib encoder pcm (replicate 4000 0) of
         (Inr len, encoded, encoder) \<Rightarrow>
           if len \<le> length encoded then Some (length pcm, take len encoded, encoder) else None
       | (Inl e, encoded, encoder) \<Rightarrow> Some (0, [], encoder))"

section \<open>The decoder\<close>

definition OpusDecoder_new :: "('e, 'd, 'p) libopus \<Rightarrow> error + 'd" where
  "OpusDecoder_new lib = codec_error ''Opus decoder init: '' (decoder_create lib OPUS_RATE)"

text \<open>\<^verbatim>\<open>run\<close>: the library gets the first \<open>frame\<close> samples of a buffer of the largest frame.\<close>

definition OpusDecoder_run :: "('e, 'd, 'p) libopus \<Rightarrow> 'd \<Rightarrow> bytes option \<Rightarrow> nat \<Rightarrow> bool \<Rightarrow> (pcm \<times> 'd) option" where
  "OpusDecoder_run lib decoder packet frame fec =
    (let decoded = replicate MAX_DECODED_SAMPLES 0;
         frame = min frame MAX_DECODED_SAMPLES in
     case (case packet of None \<Rightarrow> Inr None | Some bs \<Rightarrow> map_sum id Some (packet_of lib bs)) of
       Inl e \<Rightarrow> Some ([], decoder)
     | Inr packet \<Rightarrow>
        (case check_signals lib (take frame decoded) of
           Some e \<Rightarrow> Some ([], decoder)
         | None \<Rightarrow>
            (case decoder_run lib decoder packet (take frame decoded) fec of
               (Inr samples, out, decoder) \<Rightarrow>
                 (let decoded = out @ drop frame decoded in
                  if samples \<le> length decoded then Some (take samples decoded, decoder) else None)
             | (Inl e, out, decoder) \<Rightarrow> Some ([], decoder))))"

definition OpusDecoder_decode :: "('e, 'd, 'p) libopus \<Rightarrow> 'd \<Rightarrow> bytes \<Rightarrow> (pcm \<times> 'd) option" where
  "OpusDecoder_decode lib decoder encoded =
    (if encoded = [] then Some ([], decoder) else OpusDecoder_run lib decoder (Some encoded) MAX_DECODED_SAMPLES False)"

definition OpusDecoder_conceal_loss :: "('e, 'd, 'p) libopus \<Rightarrow> 'd \<Rightarrow> nat \<Rightarrow> bytes option \<Rightarrow> (pcm \<times> 'd) option" where
  "OpusDecoder_conceal_loss lib decoder samples next_packet =
    (case next_packet of
       Some nxt \<Rightarrow>
         if nxt \<noteq> [] then OpusDecoder_run lib decoder (Some nxt) samples True
         else OpusDecoder_run lib decoder None samples False
     | None \<Rightarrow> OpusDecoder_run lib decoder None samples False)"

section \<open>What the library promises\<close>

text \<open>A call may fail; if not, its answer is how much of the buffer it has filled, whose length does not change
  (it is a slice): a packet is at least one byte.\<close>

definition opus_fills :: "('e, 'd, 'p) libopus \<Rightarrow> bool" where
  "opus_fills lib \<longleftrightarrow>
    (\<forall>enc pcm buf. case encoder_run lib enc pcm buf of
       (r, out, _) \<Rightarrow> length out = length buf \<and> (case r of Inr len \<Rightarrow> 0 < len \<and> len \<le> length buf | Inl _ \<Rightarrow> True)) \<and>
    (\<forall>dec packet buf fec. case decoder_run lib dec packet buf fec of
       (r, out, _) \<Rightarrow> length out = length buf \<and> (case r of Inr samples \<Rightarrow> samples \<le> length buf | Inl _ \<Rightarrow> True))"

lemma opus_fills_encoder:
  "opus_fills lib \<Longrightarrow> encoder_run lib enc pcm buf = (r, out, enc') \<Longrightarrow>
   length out = length buf \<and> (case r of Inr len \<Rightarrow> 0 < len \<and> len \<le> length buf | Inl _ \<Rightarrow> True)"
  unfolding opus_fills_def by (metis (mono_tags, lifting) case_prod_conv)

text \<open>All or nothing, and never a panic.\<close>

lemma opus_encode_cases:
  assumes "opus_fills lib"
  obtains out enc' where "OpusEncoder_encode lib enc pcm = Some (length pcm, out, enc')" "length pcm \<in> set VALID_FRAME_LENGTHS"
      "0 < length out" "length out \<le> 4000"
  | enc' where "OpusEncoder_encode lib enc pcm = Some (0, [], enc')"
      "length pcm \<in> set VALID_FRAME_LENGTHS \<Longrightarrow> isl (fst (encoder_run lib enc pcm (replicate 4000 0)))"
proof -
  obtain r out enc' where e: "encoder_run lib enc pcm (replicate 4000 0) = (r, out, enc')" by (metis surj_pair)
  have f: "length out = 4000 \<and> (case r of Inr len \<Rightarrow> 0 < len \<and> len \<le> 4000 | Inl _ \<Rightarrow> True)"
    using opus_fills_encoder [OF assms e] by (cases r) simp_all
  show thesis
  proof (cases "length pcm \<in> set VALID_FRAME_LENGTHS")
    case False
    then show ?thesis using that(2) by (simp add: OpusEncoder_encode_def)
  next
    case True
    show ?thesis
    proof (cases r)
      case (Inl err)
      with True e that(2) show ?thesis by (simp add: OpusEncoder_encode_def)
    next
      case (Inr len)
      with f True e that(1) [of "take len out" enc'] show ?thesis by (simp add: OpusEncoder_encode_def)
    qed
  qed
qed

lemma opus_run_bounded:
  assumes "opus_fills lib"
  shows "\<exists>pcm dec'. OpusDecoder_run lib dec packet frame fec = Some (pcm, dec') \<and> length pcm \<le> min frame MAX_DECODED_SAMPLES"
proof -
  let ?buf = "take (min frame MAX_DECODED_SAMPLES) (replicate MAX_DECODED_SAMPLES (0 :: i16))"
  have "\<exists>pcm dec'. (case decoder_run lib dec p ?buf fec of
      (Inr samples, out, decoder) \<Rightarrow>
        (let decoded = out @ drop (min frame MAX_DECODED_SAMPLES) (replicate MAX_DECODED_SAMPLES 0) in
         if samples \<le> length decoded then Some (take samples decoded, decoder) else None)
    | (Inl e, out, decoder) \<Rightarrow> Some ([], decoder)) = Some (pcm, dec') \<and> length pcm \<le> min frame MAX_DECODED_SAMPLES" for p
  proof -
    obtain r out dec' where d: "decoder_run lib dec p ?buf fec = (r, out, dec')" by (metis surj_pair)
    have "length out = length ?buf \<and> (case r of Inr samples \<Rightarrow> samples \<le> length ?buf | Inl _ \<Rightarrow> True)"
      using conjunct2 [OF assms [unfolded opus_fills_def], rule_format, where dec = dec and packet = p and buf = ?buf and fec = fec] unfolding d by simp
    then show ?thesis unfolding d by (cases r) (auto simp: Let_def)
  qed
  then show ?thesis by (auto simp: OpusDecoder_run_def Let_def split: sum.split option.split)
qed

end
