(* ===== verification/Float_Sqrt.thy ===== *)
theory Float_Sqrt
  imports Ieee_Float
begin

text \<open>
  The square root of IEEE 754, correctly rounded like the other operations, by integer arithmetic;
  and the level meter of \<^verbatim>\<open>src/src/session.rs\<close>, the root mean square of a buffer.
\<close>

text \<open>The root of a natural number, rounded down, four as the base.\<close>

fun isqrt :: "nat \<Rightarrow> nat" where
  "isqrt n = (if n = 0 then 0 else let r = 2 * isqrt (n div 4) in if (r + 1) * (r + 1) \<le> n then r + 1 else r)"

declare isqrt.simps [simp del]

lemma isqrt_spec: "isqrt n * isqrt n \<le> n \<and> n < (isqrt n + 1) * (isqrt n + 1)"
proof (induction n rule: isqrt.induct)
  case (1 n)
  show ?case
  proof (cases "n = 0")
    case False
    define q where "q = isqrt (n div 4)"
    have IH: "q * q \<le> n div 4" "n div 4 < (q + 1) * (q + 1)" using "1.IH" [OF False] by (simp_all add: q_def)
    have "4 * (n div 4) \<le> n" "n < 4 * (n div 4) + 4" by simp_all
    moreover have "n div 4 + 1 \<le> (q + 1) * (q + 1)" using IH(2) by simp
    ultimately have "(2 * q) * (2 * q) \<le> n" "n < (2 * q + 2) * (2 * q + 2)"
      using IH(1) by (simp_all add: algebra_simps)
    then show ?thesis using False by (subst (1 2 3 4) isqrt.simps) (simp add: Let_def flip: q_def)
  qed (simp add: isqrt.simps)
qed

text \<open>The integer nearest to the root of a rational that is not negative; a root halfway between two
  integers goes to the even one.\<close>

definition nearest_root :: "rat \<Rightarrow> int" where
  "nearest_root y =
    (let f = int (isqrt (nat \<lfloor>y\<rfloor>)); h = (of_int f + 1 / 2) * (of_int f + 1 / 2) in
     if y < h then f else if y > h then f + 1 else if even f then f else f + 1)"

lemma nearest_root_spec:
  assumes "0 \<le> y"
  shows "(of_int (nearest_root y) - 1 / 2) * \<bar>of_int (nearest_root y) - 1 / 2\<bar> \<le> y"
    and "y \<le> (of_int (nearest_root y) + 1 / 2) * (of_int (nearest_root y) + 1 / 2)"
proof -
  define k where "k = isqrt (nat \<lfloor>y\<rfloor>)"
  define f :: rat where "f = of_nat k"
  have m: "of_nat (nat \<lfloor>y\<rfloor>) \<le> y" "y < of_nat (nat \<lfloor>y\<rfloor>) + 1"
    using assms floor_correct [of y] by (simp_all add: of_nat_nat)
  have "k * k \<le> nat \<lfloor>y\<rfloor>" "nat \<lfloor>y\<rfloor> + 1 \<le> (k + 1) * (k + 1)"
    using isqrt_spec [of "nat \<lfloor>y\<rfloor>"] by (simp_all add: k_def)
  then have "(of_nat (k * k) :: rat) \<le> of_nat (nat \<lfloor>y\<rfloor>)"
    "(of_nat (nat \<lfloor>y\<rfloor> + 1) :: rat) \<le> of_nat ((k + 1) * (k + 1))" by (simp_all only: of_nat_le_iff)
  with m have y: "f * f \<le> y" "y < (f + 1) * (f + 1)" by (simp_all add: f_def algebra_simps)
  have f: "0 \<le> f" by (simp add: f_def)
  define n :: rat where "n = of_int (nearest_root y)"
  have n: "n = f \<and> y \<le> (f + 1 / 2) * (f + 1 / 2) \<or> n = f + 1 \<and> (f + 1 / 2) * (f + 1 / 2) \<le> y"
    by (simp add: n_def f_def nearest_root_def Let_def k_def)
  have "(n - 1 / 2) * \<bar>n - 1 / 2\<bar> \<le> y"
  proof (cases "n = f")
    case True
    show ?thesis
    proof (cases "f < 1 / 2")
      case True
      with \<open>n = f\<close> have "(n - 1 / 2) * \<bar>n - 1 / 2\<bar> \<le> 0" by (simp add: mult_nonpos_nonneg)
      with assms show ?thesis by linarith
    next
      case False
      then have "(f - 1 / 2) * (f - 1 / 2) \<le> f * f" by (intro mult_mono) simp_all
      with False \<open>n = f\<close> y(1) show ?thesis by simp
    qed
  qed (use n f in \<open>auto simp: add.commute\<close>)
  moreover have "y \<le> (n + 1 / 2) * (n + 1 / 2)"
  proof (cases "n = f")
    case False
    then have "n = f + 1" using n by blast
    then have "(f + 1) * (f + 1) \<le> (n + 1 / 2) * (n + 1 / 2)" using f by (intro mult_mono) simp_all
    with y(2) show ?thesis by linarith
  qed (use n in auto)
  ultimately show "(of_int (nearest_root y) - 1 / 2) * \<bar>of_int (nearest_root y) - 1 / 2\<bar> \<le> y"
    "y \<le> (of_int (nearest_root y) + 1 / 2) * (of_int (nearest_root y) + 1 / 2)"
    by (simp_all only: n_def)
qed

text \<open>The exponent of the leading digit of the root is half that of the number, rounded down.\<close>

fun fp_sqrt :: "fp_format \<Rightarrow> fp \<Rightarrow> fp" where
  "fp_sqrt F (Fin x) =
    (if x < 0 then NaN else if x = 0 then Fin 0
     else let q = pow2 (max (ilog2 x div 2) (fp_emin F) - int (fp_prec F) + 1) in
       Fin (of_int (nearest_root (x / (q * q))) * q))"
| "fp_sqrt F PInf = PInf"
| "fp_sqrt F _ = NaN"

definition fp_sum :: "fp_format \<Rightarrow> fp list \<Rightarrow> fp" where
  "fp_sum F xs = fold (\<lambda>x s. fp_add F s x) xs (Fin 0)"

definition rms_level :: "fp list \<Rightarrow> fp" where
  "rms_level xs =
    fp_sqrt F32 (fp_div F32 (fp_sum F32 (map (\<lambda>s. fp_mul F32 s s) xs)) (fp_of_int F32 (int (length xs))))"

end
