(* ===== verification/Samples.thy ===== *)
theory Samples
  imports Ieee_Float Pcm
begin

text \<open>
  Samples as \<^verbatim>\<open>f32\<close> values between -1 and 1: the conversions of \<^verbatim>\<open>src/src/resample.rs\<close>, which the
  recorder uses too, with the facts about rounding that they need.
\<close>

section \<open>Rounding does not cross a representable value\<close>

lemma representable_multiple:
  "j \<le> k \<Longrightarrow> of_int m * pow2 k = of_int (m * 2 ^ nat (k - j)) * pow2 j"
  using pow2_add [of "k - j" j] by (simp add: pow2_def [of "k - j"])

lemma representable_small:
  assumes "\<bar>m\<bar> < 2 ^ p" "k < e - int p + 1"
  shows "of_int m * pow2 k < pow2 e"
proof -
  have "of_int m * pow2 k \<le> of_int \<bar>m\<bar> * pow2 k" by (intro mult_right_mono) (simp_all add: less_imp_le)
  also have "\<dots> < 2 ^ p * pow2 k"
    using assms(1) by (metis mult_less_cancel_right_pos of_int_less_iff of_int_numeral of_int_power pow2_pos)
  also have "\<dots> = pow2 (int p + k)" by (simp add: pow2_add pow2_def [of "int p"])
  also have "\<dots> \<le> pow2 e" using assms(2) by simp
  finally show ?thesis .
qed

lemma round_le_exact:
  assumes x: "0 < x" "x \<le> y" and y: "y = of_int m * pow2 k" "\<bar>m\<bar> < 2 ^ p" "emin - int p + 1 \<le> k"
  shows "round_rat p emin x \<le> y"
proof -
  define j where "j = max (ilog2 x) emin - int p + 1"
  have r: "round_rat p emin x = of_int (nearest_even (x / pow2 j)) * pow2 j"
    using x(1) by (simp add: round_rat_def Let_def j_def)
  have "j \<le> k"
  proof (rule ccontr)
    assume "\<not> j \<le> k"
    with y(3) have "k < ilog2 x - int p + 1" by (auto simp: j_def max_def split: if_splits)
    from representable_small [OF y(2) this] ilog2_bounds [OF x(1)] x(2) show False by (simp add: y(1))
  qed
  then have y': "y = of_int (m * 2 ^ nat (k - j)) * pow2 j" by (simp only: y(1) representable_multiple)
  then have "x / pow2 j \<le> of_int (m * 2 ^ nat (k - j))" using x(2) by (simp only: pos_divide_le_eq pow2_pos)
  then have "nearest_even (x / pow2 j) \<le> m * 2 ^ nat (k - j)" by (metis nearest_even_mono nearest_even_of_int)
  then have "rat_of_int (nearest_even (x / pow2 j)) \<le> of_int (m * 2 ^ nat (k - j))" by (simp only: of_int_le_iff)
  then show ?thesis unfolding r y' by (rule mult_right_mono) (simp add: less_imp_le)
qed

lemma round_ge_exact:
  assumes x: "0 < y" "y \<le> x" and y: "y = of_int m * pow2 k" "\<bar>m\<bar> < 2 ^ p" "emin - int p + 1 \<le> k" and p: "0 < p"
  shows "y \<le> round_rat p emin x"
proof -
  have x0: "0 < x" using x by linarith
  define j where "j = max (ilog2 x) emin - int p + 1"
  have r: "round_rat p emin x = of_int (nearest_even (x / pow2 j)) * pow2 j"
    using x0 by (simp add: round_rat_def Let_def j_def)
  have above: "z \<le> round_rat p emin x" if "z = of_int n * pow2 j" "z \<le> x" for z n
  proof -
    have "of_int n \<le> x / pow2 j" using that by (simp add: pos_le_divide_eq)
    then have "n \<le> nearest_even (x / pow2 j)" by (metis nearest_even_mono nearest_even_of_int)
    then have "rat_of_int n \<le> of_int (nearest_even (x / pow2 j))" by (simp only: of_int_le_iff)
    then show ?thesis unfolding r that(1) by (rule mult_right_mono) (simp add: less_imp_le)
  qed
  show ?thesis
  proof (cases "j \<le> k")
    case True
    from above [OF trans [OF y(1) representable_multiple [OF this]] x(2)] show ?thesis .
  next
    case False
    with y(3) have e: "ilog2 x = j + int p - 1" "k < ilog2 x - int p + 1"
      by (auto simp: j_def max_def split: if_splits)
    have "j \<le> ilog2 x" using e(1) p by simp
    from representable_multiple [OF this, of 1]
    have "pow2 (ilog2 x) = of_int (2 ^ nat (ilog2 x - j)) * pow2 j" by simp
    from above [OF this] ilog2_bounds [OF x0] have "pow2 (ilog2 x) \<le> round_rat p emin x" by blast
    with representable_small [OF y(2) e(2)] show ?thesis by (simp add: y(1))
  qed
qed

lemma nearest_even_minus: "nearest_even (- y) = - nearest_even y"
proof (cases "y = of_int (floor y)")
  case True
  then have "- y = of_int (- floor y)" by simp
  with True show ?thesis by (metis nearest_even_of_int)
next
  case False
  then have f: "floor (- y) = - floor y - 1"
    by (simp add: floor_minus ceiling_altdef)
  have "(- y - of_int (floor (- y))) = 1 - (y - of_int (floor y))" unfolding f by simp
  moreover have "0 < y - of_int (floor y)" "y - of_int (floor y) < 1"
    using False of_int_floor_le [of y] floor_correct [of y] by linarith+
  ultimately show ?thesis unfolding nearest_even_def Let_def f by auto
qed

lemma round_rat_minus: "round_rat p emin (- x) = - round_rat p emin x"
  by (simp add: round_rat_def Let_def nearest_even_minus)

section \<open>The conversions\<close>

text \<open>\<^verbatim>\<open>f32::clamp\<close>, which keeps NaN.\<close>

definition fp_clamp :: "fp \<Rightarrow> fp \<Rightarrow> fp \<Rightarrow> fp" where
  "fp_clamp lo hi x = (if fp_lt x lo then lo else if fp_lt hi x then hi else x)"

definition f32_sample :: "fp \<Rightarrow> i16" where
  "f32_sample s = i16_of_int (fp_to_int (- 32768) 32767 (fp_mul F32 (fp_clamp (Fin (- 1)) (Fin 1) s) (Fin 32767)))"

definition f32_to_i16 :: "fp list \<Rightarrow> pcm" where
  "f32_to_i16 = map f32_sample"

definition i16_to_f32 :: "pcm \<Rightarrow> fp list" where
  "i16_to_f32 = map (\<lambda>s. fp_div F32 (fp_of_int F32 (sint s)) (Fin 32768))"

section \<open>What a sample keeps\<close>

lemma fp_round_F32_exact:
  assumes "\<bar>n\<bar> < 2 ^ 24" "- 149 \<le> k" "k \<le> 0"
  shows "fp_round F32 (of_int n * pow2 k) = Fin (of_int n * pow2 k)"
proof -
  have "\<bar>of_int n * pow2 k\<bar> = of_int \<bar>n\<bar> * pow2 k" by (simp add: abs_mult less_imp_le)
  also have "\<dots> < pow2 128"
    using assms by (intro representable_small [where p = 24]) simp_all
  finally show ?thesis
    using assms by (intro fp_round_exact [where m = n and k = k]) (simp_all add: F32_def)
qed

lemma rational_32768: "rat_of_int n / 32768 = of_int n * pow2 (- 15)"
  by (simp add: pow2_def)

lemma i16_to_f32_value:
  assumes "- 32768 \<le> n" "n \<le> 32767"
  shows "fp_div F32 (fp_of_int F32 n) (Fin 32768) = Fin (of_int n / 32768)"
proof -
  have "\<bar>n\<bar> < 2 ^ 24" using assms by simp
  from fp_round_F32_exact [OF this, of 0] fp_round_F32_exact [OF this, of "- 15"] show ?thesis
    by (simp add: fp_of_int_def rational_32768 pow2_def [of 0])
qed

lemma ilog2_16: "0 < r \<Longrightarrow> r < 65536 \<Longrightarrow> ilog2 r \<le> 15"
  using ilog2_le [of r 15] by (simp add: pow2_def)

text \<open>A positive magnitude \<open>a\<close> loses less than one step, and more than none.\<close>

lemma scaled_rounding:
  assumes a: "0 < a" "a \<le> 32768"
  defines "r \<equiv> round_rat 24 (- 126) (rat_of_int a * 32767 / 32768)"
  shows "of_int (a - 1) \<le> r \<and> r < of_int a \<and> 0 < r"
proof -
  let ?x = "rat_of_int a * 32767 / 32768"
  have x: "0 < ?x" "?x < of_int a" using a by (simp_all add: field_simps)
  have lower: "of_int b \<le> r" if "0 < b" "of_int b \<le> ?x" "b < 2 ^ 24" for b
    unfolding r_def using that
    by (intro round_ge_exact [where m = b and k = 0]) (simp_all add: pow2_def)
  have pos: "0 < r"
    unfolding r_def
    using round_ge_exact [of "pow2 (- 1)" ?x 1 "- 1" 24 "- 126"] a pow2_pos [of "- 1"]
    by (simp add: pow2_def field_simps)
  have "of_int (a - 1) \<le> r"
  proof (cases "a = 1")
    case False
    with a have "of_int (a - 1) \<le> ?x" by (simp add: field_simps)
    with lower [of "a - 1"] a False show ?thesis by simp
  qed (use pos in simp)
  moreover have "r < of_int a"
  proof -
    define k where "k = int (bit_length a) - 1"
    have "0 < bit_length a" using bit_length_bounds [OF a(1)] a(1) by (cases "bit_length a") auto
    then have k: "0 \<le> k" "of_int a < pow2 (k + 1)" "pow2 k \<le> of_int a"
      using bit_length_pow2 [OF a(1)] by (simp_all add: k_def)
    have "pow2 k < pow2 16" using k(3) a(2) by (simp add: pow2_def [of 16])
    then have k15: "k \<le> 15" by simp
    let ?m = "a * 2 ^ nat (15 - k) - 1"
    have y: "rat_of_int a - pow2 (k - 15) = of_int ?m * pow2 (k - 15)"
      using representable_multiple [of "k - 15" 0 a] k15 by (simp add: pow2_def [of 0] algebra_simps)
    have "rat_of_int a * 2 ^ nat (15 - k) = of_int a * pow2 (15 - k)" using k15 by (simp add: pow2_def)
    also have "\<dots> < pow2 (k + 1) * pow2 (15 - k)" using k(2) by (intro mult_strict_right_mono) simp_all
    also have "\<dots> = 65536" by (simp only: pow2_add [symmetric]) (simp add: pow2_def)
    finally have "rat_of_int (a * 2 ^ nat (15 - k)) < of_int 65536" by simp
    then have m: "\<bar>?m\<bar> < 2 ^ 24" using a(1) by (simp only: of_int_less_iff) simp
    have "pow2 (k - 15) \<le> of_int a / 32768"
      using k(3) pow2_add [of k "- 15"] by (simp add: pow2_def [of "- 15"] field_simps)
    then have "?x \<le> of_int a - pow2 (k - 15)" by (simp add: field_simps)
    from round_le_exact [OF x(1) this y m] k(1) have "r \<le> of_int a - pow2 (k - 15)" by (simp add: r_def)
    also have "\<dots> < of_int a" by simp
    finally show ?thesis .
  qed
  ultimately show ?thesis using pos by blast
qed

lemma f32_sample_scaled:
  assumes b: "- 32768 \<le> n" "n \<le> 32767"
  shows "f32_sample (Fin (of_int n / 32768)) = i16_of_int (n - sgn n)"
proof (cases "n = 0")
  case True
  then show ?thesis by (simp add: f32_sample_def fp_clamp_def fp_round_def round_rat_def trunc_rat_def)
next
  case False
  have "rat_of_int (- 32768) \<le> of_int n" "rat_of_int n \<le> of_int 32767" using b by (simp_all only: of_int_le_iff)
  then have c: "fp_clamp (Fin (- 1)) (Fin 1) (Fin (of_int n / 32768)) = Fin (of_int n / 32768)"
    by (auto simp: fp_clamp_def field_simps)
  let ?r = "round_rat 24 (- 126) (of_int \<bar>n\<bar> * 32767 / 32768)"
  let ?s = "round_rat 24 (- 126) (of_int n * 32767 / 32768)"
  have r: "of_int (\<bar>n\<bar> - 1) \<le> ?r" "?r < of_int \<bar>n\<bar>" "0 < ?r"
    using scaled_rounding [of "\<bar>n\<bar>"] b False by (simp_all add: abs_le_iff)
  have fl: "floor ?r = \<bar>n\<bar> - 1" using r(1,2) by (intro floor_unique) simp_all
  have "rat_of_int \<bar>n\<bar> \<le> of_int 32768" using b by (simp only: of_int_le_iff)
  with r(2) have "?r < 65536" by simp
  note il = ilog2_16 [OF r(3) this]
  have s: "?s = (if 0 < n then ?r else - ?r)"
    using round_rat_minus [of 24 "- 126" "of_int \<bar>n\<bar> * 32767 / 32768"] False by (auto simp: abs_if)
  have "trunc_rat ?s = n - sgn n"
    unfolding s trunc_rat_def using fl r(3) False by (auto simp: ceiling_minus abs_if)
  moreover have "\<bar>?s\<bar> = ?r"
    unfolding s by (cases "0 < n") (simp_all only: if_True if_False abs_minus_cancel abs_of_pos [OF r(3)])
  then have "ilog2 \<bar>?s\<bar> \<le> 15" using il by (simp only:)
  ultimately show ?thesis
    using b by (simp add: f32_sample_def c fp_round_def F32_def Let_def sgn_if split: if_splits)
qed

text \<open>Samples survive the trip through \<^verbatim>\<open>f32\<close> almost unchanged.  Converting PCM to \<^verbatim>\<open>f32\<close> and back
  moves every sample but zero one step towards zero, no more and no less: the scales are
  32768 one way and 32767 the other.\<close>

theorem sample_roundtrip:
  "f32_to_i16 (i16_to_f32 pcm) = map (\<lambda>s. i16_of_int (sint s - sgn (sint s))) pcm"
proof -
  have "f32_sample (fp_div F32 (fp_of_int F32 (sint s)) (Fin 32768)) = i16_of_int (sint s - sgn (sint s))" for s :: i16
    unfolding i16_to_f32_value [OF sint_i16_bounds] by (rule f32_sample_scaled [OF sint_i16_bounds])
  then show ?thesis by (simp add: f32_to_i16_def i16_to_f32_def)
qed

end
