(* ===== verification/Float_Ops.thy ===== *)
theory Float_Ops
  imports Float_Sqrt Samples
begin

text \<open>
  More of \<^verbatim>\<open>f32\<close>, for the signal processing of \<^verbatim>\<open>src/src/codec/g729.rs\<close>: literals, comparisons,
  \<^verbatim>\<open>min\<close>, \<^verbatim>\<open>max\<close>, \<^verbatim>\<open>round\<close> and \<^verbatim>\<open>midpoint\<close>.  \<^verbatim>\<open>powi(2)\<close> is a multiplication.
  The cosine, whose precision Rust leaves open, is an argument where it is used.
\<close>

text \<open>A decimal literal is the nearest \<^verbatim>\<open>f32\<close>.\<close>

definition f32_lit :: "int \<Rightarrow> int \<Rightarrow> fp" where
  "f32_lit n d = fp_round F32 (of_int n / of_int d)"

text \<open>\<^verbatim>\<open>std::f32::consts::PI\<close> and \<^verbatim>\<open>f32::MIN\<close>.\<close>

definition F32_PI :: fp where
  "F32_PI = Fin (13176795 / 4194304)"

definition F32_MIN :: fp where
  "F32_MIN = Fin (- (16777215 * 2 ^ 104))"

definition f32_of_nat :: "nat \<Rightarrow> fp" where
  "f32_of_nat n = fp_of_int F32 (int n)"

text \<open>\<^verbatim>\<open><=\<close>, which is false for NaN.\<close>

definition fp_le :: "fp \<Rightarrow> fp \<Rightarrow> bool" where
  "fp_le x y \<longleftrightarrow> fp_lt x y \<or> (x = y \<and> x \<noteq> NaN)"

fun fp_abs :: "fp \<Rightarrow> fp" where
  "fp_abs (Fin x) = Fin \<bar>x\<bar>"
| "fp_abs NaN = NaN"
| "fp_abs _ = PInf"

text \<open>\<^verbatim>\<open>f32::max\<close> and \<^verbatim>\<open>f32::min\<close> return the other operand of a NaN.\<close>

definition fp_max :: "fp \<Rightarrow> fp \<Rightarrow> fp" where
  "fp_max x y = (if x = NaN then y else if y = NaN then x else if fp_lt x y then y else x)"

definition fp_min :: "fp \<Rightarrow> fp \<Rightarrow> fp" where
  "fp_min x y = (if x = NaN then y else if y = NaN then x else if fp_lt y x then y else x)"

text \<open>\<^verbatim>\<open>f32::round\<close>: halves away from zero.  An integer between two \<^verbatim>\<open>f32\<close> values is one itself.\<close>

fun fp_round_int :: "fp \<Rightarrow> fp" where
  "fp_round_int (Fin x) = Fin (of_int (if 0 \<le> x then \<lfloor>x + 1 / 2\<rfloor> else \<lceil>x - 1 / 2\<rceil>))"
| "fp_round_int x = x"

text \<open>From one format to another.\<close>

fun fp_convert :: "fp_format \<Rightarrow> fp \<Rightarrow> fp" where
  "fp_convert F (Fin x) = fp_round F x"
| "fp_convert F x = x"

text \<open>\<^verbatim>\<open>f32::midpoint\<close> computes in \<^verbatim>\<open>f64\<close>.\<close>

definition f32_midpoint :: "fp \<Rightarrow> fp \<Rightarrow> fp" where
  "f32_midpoint x y = fp_convert F32 (fp_div F64 (fp_add F64 x y) (Fin 2))"

section \<open>Exact values\<close>

text \<open>The nearest \<^verbatim>\<open>f32\<close> of a positive number, from its 24 digits.\<close>

lemma F32_nearest:
  assumes "8388608 \<le> x * 2 ^ k" "x * 2 ^ k < 16777216" "\<bar>x * 2 ^ k - of_int m\<bar> < 1 / 2" "m < 16777216" "k \<le> 100"
  shows "fp_round F32 x = Fin (of_int m / 2 ^ k)"
proof -
  have p: "pow2 (- int k) = 1 / 2 ^ k" by (simp add: pow2_def)
  have q: "pow2 (23 - int k) = 8388608 / 2 ^ k" "pow2 (24 - int k) = 16777216 / 2 ^ k"
    using pow2_add [of 23 "- int k"] pow2_add [of 24 "- int k"] pow2_nat [of 23] pow2_nat [of 24] by (simp_all add: p)
  have "8388608 / 2 ^ k \<le> x" "x < 16777216 / 2 ^ k" using assms(1,2) by (simp_all add: divide_le_eq less_divide_eq)
  then have l: "ilog2 x = 23 - int k" by (intro ilog2_eq) (simp_all add: q)
  have "0 < x * 2 ^ k" using assms(1) by linarith
  then have x: "0 < x" by (simp add: zero_less_mult_iff)
  have n: "nearest_even (x * 2 ^ k) = m" using assms(3) by (rule nearest_even_eq)
  have m: "0 < (of_int m :: rat)" using assms(1,3) by linarith
  have "round_rat 24 (- 126) x = of_int (nearest_even (x / (1 / 2 ^ k))) * (1 / 2 ^ k)"
    using x assms(5) by (simp add: round_rat_def l Let_def flip: p)
  then have r: "round_rat 24 (- 126) x = of_int m / 2 ^ k" by (simp add: n)
  have "(1 :: rat) \<le> 2 ^ k" by simp
  then have "of_int m / 2 ^ k \<le> (of_int m :: rat)" using m by (simp add: divide_le_eq)
  moreover have "(of_int m :: rat) < 16777216" using assms(4) by linarith
  moreover have "(16777216 :: rat) < pow2 (127 + 1)" using pow2_nat [of 128] by simp
  ultimately have "of_int m / 2 ^ k < (pow2 (127 + 1) :: rat)" by linarith
  then have "ilog2 (of_int m / 2 ^ k) \<le> 127" by (rule ilog2_le [rotated]) (use m in simp)
  then show ?thesis using m by (simp add: fp_round_def F32_def r)
qed

lemma F32_dyadic:
  assumes "\<bar>m\<bar> < 16777216" "k \<le> 100"
  shows "fp_round F32 (of_int m / 2 ^ k) = Fin (of_int m / 2 ^ k)"
proof (rule fp_round_exact)
  have p: "pow2 (- int k) = 1 / 2 ^ k" by (simp add: pow2_def)
  show "of_int m / 2 ^ k = of_int m * pow2 (- int k)" by (simp add: p)
  show "\<bar>m\<bar> < 2 ^ fp_prec F32" "fp_emin F32 - int (fp_prec F32) + 1 \<le> - int k" using assms by (simp_all add: F32_def)
  have "(1 :: rat) \<le> 2 ^ k" by simp
  then have "of_int \<bar>m\<bar> / 2 ^ k \<le> (of_int \<bar>m\<bar> :: rat)" by (simp add: divide_le_eq mult_le_cancel_left1)
  moreover have "(of_int \<bar>m\<bar> :: rat) < 16777216" using assms(1) by linarith
  moreover have "(16777216 :: rat) < pow2 (fp_emax F32 + 1)" using pow2_nat [of 128] by (simp add: F32_def)
  ultimately show "\<bar>of_int m / 2 ^ k\<bar> < (pow2 (fp_emax F32 + 1) :: rat)" by simp
qed

end
