(* ===== verification/Frame_Buffers.thy ===== *)
theory Frame_Buffers
  imports Audio_Codec
begin

text \<open>
  Cutting a stream into frames of one size when it arrives in buffers of any size: what is left
  over waits for the next buffer.  The frame accumulator of the audio processor and the streaming
  resampler both work this way; what they have in common is here.  The loop may not end (a frame
  of no samples), so \<open>None\<close> is a loop that does not return, or a panic of the frame function.
\<close>

partial_function (option) drain ::
  "nat \<Rightarrow> ('s \<Rightarrow> 'a list \<Rightarrow> ('b list \<times> 's) option) \<Rightarrow> 's \<Rightarrow> 'a list \<Rightarrow> ('b list \<times> 's \<times> 'a list) option" where
  "drain n f s pending =
    (if length pending < n then Some ([], s, pending)
     else do { (out, s) \<leftarrow> f s (take n pending);
               (rest, s, pending) \<leftarrow> drain n f s (drop n pending);
               Some (out @ rest, s, pending) })"

text \<open>With frames of no samples the loop never ends.\<close>

lemma drain_Some_pos:
  assumes "drain n f s pending = Some r"
  shows "0 < n"
  by (rule drain.raw_induct [of "\<lambda>n f s pending r. 0 < n", OF _ assms])
     (fastforce split: if_splits Option.bind_splits)

lemma drain_zero: "drain 0 f s pending = None"
  using drain_Some_pos [of 0 f s pending] by (cases "drain 0 f s pending") auto

section \<open>The frames of a stream\<close>

function frames_of :: "nat \<Rightarrow> 'a list \<Rightarrow> 'a list list" where
  "frames_of n xs = (if n = 0 \<or> length xs < n then [] else take n xs # frames_of n (drop n xs))"
  by pat_completeness auto
termination by (relation "measure (\<lambda>(n, xs). length xs)") auto

declare frames_of.simps [simp del]

lemma frames_of_short: "length xs < n \<Longrightarrow> frames_of n xs = []"
  by (simp add: frames_of.simps)

lemma frames_of_take: "0 < n \<Longrightarrow> n \<le> length xs \<Longrightarrow> frames_of n xs = take n xs # frames_of n (drop n xs)"
  by (subst frames_of.simps) simp

lemma frames_of_spec:
  "0 < n \<Longrightarrow> concat (frames_of n xs) = take (length xs div n * n) xs \<and> (\<forall>x\<in>set (frames_of n xs). length x = n) \<and>
    length (frames_of n xs) = length xs div n"
proof (induction n xs rule: frames_of.induct)
  case (1 n xs)
  show ?case
  proof (cases "n = 0 \<or> length xs < n")
    case True
    then show ?thesis using "1.prems" by (auto simp: frames_of_short)
  next
    case False
    then have n: "0 < n" "n \<le> length xs" by simp_all
    have d: "length xs div n = Suc ((length xs - n) div n)" by (rule le_div_geq [OF n])
    note f = frames_of_take [OF n]
    note IH = "1.IH" [OF False n(1), unfolded length_drop]
    have "concat (frames_of n xs) = take n xs @ concat (frames_of n (drop n xs))" unfolding f by simp
    also have "\<dots> = take (length xs div n * n) xs" by (simp only: conjunct1 [OF IH] d mult_Suc take_add)
    finally have "concat (frames_of n xs) = take (length xs div n * n) xs" .
    moreover have "\<forall>x\<in>set (frames_of n xs). length x = n" unfolding f list.set ball_simps(7)
      by (rule conjI [OF _ conjunct1 [OF conjunct2 [OF IH]]]) (simp add: n(2))
    moreover have "length (frames_of n xs) = length xs div n" unfolding f d using conjunct2 [OF conjunct2 [OF IH]] by simp
    ultimately show ?thesis by blast
  qed
qed

lemma frames_of_append:
  assumes "0 < n"
  shows "frames_of n (xs @ ys) = frames_of n xs @ frames_of n (drop (length xs div n * n) xs @ ys)"
  using assms
proof (induction n xs rule: frames_of.induct)
  case (1 n xs)
  show ?case
  proof (cases "length xs < n")
    case True
    then show ?thesis by (simp add: frames_of_short)
  next
    case False
    then have n: "0 < n" "n \<le> length xs" using "1.prems" by simp_all
    have d: "length xs div n = Suc ((length xs - n) div n)" by (rule le_div_geq [OF n])
    show ?thesis using "1.IH" n frames_of_take [OF n] frames_of_take [of n "xs @ ys"]
      by (simp add: d add.commute)
  qed
qed

section \<open>Draining is processing the frames\<close>

lemma drain_frames:
  "0 < n \<Longrightarrow> drain n f s xs =
    map_option (\<lambda>(out, s). (out, s, drop (length xs div n * n) xs)) (fold_units f s (frames_of n xs))"
proof (induction n xs arbitrary: s rule: frames_of.induct)
  case (1 n xs)
  show ?case
  proof (cases "n = 0 \<or> length xs < n")
    case True
    then show ?thesis
      using "1.prems" by (auto simp: frames_of_short drain.simps [of n])
  next
    case False
    then have n: "0 < n" "n \<le> length xs" by simp_all
    have d: "length xs div n = Suc ((length xs - n) div n)" by (rule le_div_geq [OF n])
    have drops: "drop (length xs div n * n) xs = drop (length (drop n xs) div n * n) (drop n xs)"
      unfolding d length_drop mult_Suc drop_drop by (simp only: add.commute)
    show ?thesis
      unfolding frames_of_take [OF n] drops using "1.IH" [OF False] n
      by (subst drain.simps) (auto split: option.splits Option.bind_splits)
  qed
qed

lemma drain_append:
  "0 < n \<Longrightarrow> drain n f s (xs @ ys) =
    do { (out, s, pending) \<leftarrow> drain n f s xs;
         (out', s, pending) \<leftarrow> drain n f s (pending @ ys);
         Some (out @ out', s, pending) }"
proof (induction n xs arbitrary: s rule: frames_of.induct)
  case (1 n xs)
  show ?case
  proof (cases "n = 0 \<or> length xs < n")
    case True
    then have "drain n f s xs = Some ([], s, xs)" using "1.prems" by (subst drain.simps) simp
    then show ?thesis by (cases "drain n f s (xs @ ys)") (auto split: prod.splits)
  next
    case False
    then have n: "n \<le> length xs" by simp
    have step: "drain n f s (xs @ zs) =
        do { (out, s) \<leftarrow> f s (take n xs); (rest, s, pending) \<leftarrow> drain n f s (drop n xs @ zs); Some (out @ rest, s, pending) }"
      for zs
      using n by (subst drain.simps) simp
    show ?thesis
      using step [of ys] step [of "[]"] "1.IH" [OF False "1.prems"]
      by (auto split: Option.bind_splits)
  qed
qed

lemma drain_rest: "drain n f s xs = Some (out, s', pending) \<Longrightarrow> length pending < n"
  using drain_Some_pos [of n f s xs] by (auto simp: drain_frames minus_div_mult_eq_mod)

lemma drain_concat:
  assumes "drain n f s xs = Some (out, s', rest)"
  shows "concat (frames_of n xs) @ rest = xs"
proof -
  have n: "0 < n" by (rule drain_Some_pos [OF assms])
  then show ?thesis using assms frames_of_spec [OF n, of xs] by (auto simp: drain_frames)
qed

lemma fold_units_total:
  "(\<And>s x. x \<in> set xs \<Longrightarrow> f s x \<noteq> None) \<Longrightarrow> \<exists>out s'. fold_units f s xs = Some (out, s')"
proof (induction xs arbitrary: s)
  case (Cons x xs)
  obtain y s1 where "f s x = Some (y, s1)" using Cons.prems [of x s] by auto
  moreover obtain out s2 where "fold_units f s1 xs = Some (out, s2)" using Cons.IH [of s1] Cons.prems by auto
  ultimately show ?case by simp
qed simp

section \<open>Coders that wait for the rest of a frame\<close>

text \<open>A coder that takes buffers of any size; \<open>settled\<close> are its states between two calls.\<close>

locale buffering =
  fixes push :: "'s \<Rightarrow> 'a list \<Rightarrow> ('b list \<times> 's) option"
    and settled :: "'s \<Rightarrow> bool"
  assumes push_settled: "settled s \<Longrightarrow> push s xs = Some (out, s') \<Longrightarrow> settled s'"
    and push_Nil: "settled s \<Longrightarrow> push s [] = Some ([], s)"
    and push_append: "settled s \<Longrightarrow> push s (xs @ ys) =
      do { (out, s) \<leftarrow> push s xs;
           (out', s) \<leftarrow> push s ys;
           Some (out @ out', s) }"
begin

lemma push_buffers:
  "settled s \<Longrightarrow>
   push s (concat bs) = map_option (\<lambda>(outs, s). (concat outs, s)) (code_packets push s bs)"
proof (induction bs arbitrary: s)
  case Nil
  then show ?case by (simp add: push_Nil)
next
  case (Cons b bs)
  then show ?case
    by (auto simp: push_append dest: push_settled split: Option.bind_splits)
qed

lemma push_same_stream:
  assumes "settled s" "concat bs = concat cs" "code_packets push s bs = Some (outs, s')"
  shows "\<exists>outs'. code_packets push s cs = Some (outs', s') \<and> concat outs' = concat outs"
  using push_buffers [OF assms(1), of bs] push_buffers [OF assms(1), of cs] assms(2,3) by auto

end

end
