(* ===== verification/G729_Encoder.thy ===== *)
theory G729_Encoder
  imports Float_Ops Audio_Codec Frame_Buffers
begin

text \<open>
  The encoder of \<^verbatim>\<open>src/src/codec/g729.rs\<close>.  \<open>cosf\<close> is the cosine of \<^verbatim>\<open>f32\<close>.  Arrays of a fixed
  size are lists of that length, and loops over them stay inside by their bounds; an index that
  is computed from data is checked, and \<open>None\<close> is the panic of one that is out of range.
\<close>

section \<open>The frame\<close>

definition FRAME_SIZE :: nat where "FRAME_SIZE = 80"
definition FRAME_BYTES :: nat where "FRAME_BYTES = 10"
definition LPC_ORDER :: nat where "LPC_ORDER = 10"
definition SUBFRAME_SIZE :: nat where "SUBFRAME_SIZE = 40"
definition NUM_SUBFRAMES :: nat where "NUM_SUBFRAMES = 2"
definition PITCH_MIN :: nat where "PITCH_MIN = 20"
definition PITCH_MAX :: nat where "PITCH_MAX = 143"

lemmas g729_sizes = FRAME_SIZE_def FRAME_BYTES_def LPC_ORDER_def SUBFRAME_SIZE_def NUM_SUBFRAMES_def PITCH_MIN_def PITCH_MAX_def

definition LSP_MEAN :: "fp list" where
  "LSP_MEAN =
    map (\<lambda>n. f32_lit n 1000000)
      [285599, 571199, 856798, 1142397, 1427997, 1713596, 1999195, 2284795, 2570394, 2855993]"

record G729Encoder =
  ge_prev_lsp :: "fp list"
  ge_prev_samples :: "fp list"
  ge_prev_gain_pitch :: fp
  ge_prev_gain_code :: fp

definition G729Encoder_new :: G729Encoder where
  "G729Encoder_new =
    \<lparr>ge_prev_lsp = LSP_MEAN, ge_prev_samples = replicate (FRAME_SIZE + PITCH_MAX) (Fin 0),
     ge_prev_gain_pitch = Fin 0, ge_prev_gain_code = Fin 0\<rparr>"

section \<open>Linear prediction\<close>

definition lpc_window :: "(fp \<Rightarrow> fp) \<Rightarrow> nat \<Rightarrow> fp" where
  "lpc_window cosf j =
    fp_sub F32 (f32_lit 54 100)
      (fp_mul F32 (f32_lit 46 100)
        (cosf (fp_div F32 (fp_mul F32 (fp_mul F32 (Fin 2) F32_PI) (f32_of_nat j)) (f32_of_nat (FRAME_SIZE - 1)))))"

definition autocorrelation :: "(fp \<Rightarrow> fp) \<Rightarrow> fp list \<Rightarrow> nat \<Rightarrow> fp" where
  "autocorrelation cosf samples i =
    fold (\<lambda>j r. fp_add F32 r
        (fp_mul F32 (fp_mul F32 (fp_mul F32 (samples ! j) (lpc_window cosf j)) (samples ! (j + i))) (lpc_window cosf (j + i))))
      [0..<FRAME_SIZE - i] (Fin 0)"

text \<open>The recursion of Levinson and Durbin from coefficient \<open>i\<close> on, with the prediction error \<open>e\<close>.\<close>

function levinson :: "fp list \<Rightarrow> nat \<Rightarrow> fp list \<Rightarrow> fp \<Rightarrow> fp list" where
  "levinson r i a e =
    (if i > LPC_ORDER then a
     else
       let lambda = fold (\<lambda>j l. fp_sub F32 l (fp_mul F32 (a ! j) (r ! (i - j)))) [1..<i] (r ! i);
           k = fp_div F32 lambda e;
           a_new = fold (\<lambda>j b. b[j := fp_sub F32 (a ! j) (fp_mul F32 k (a ! (i - j)))]) [1..<i] a;
           a_new = a_new[i := k];
           e = fp_mul F32 e (fp_sub F32 (Fin 1) (fp_mul F32 k k)) in
       if fp_le e (Fin 0) then a_new else levinson r (i + 1) a_new e)"
  by pat_completeness auto
termination by (relation "measure (\<lambda>(r, i, a, e). Suc LPC_ORDER - i)") auto

declare levinson.simps [simp del]

definition lpc_analysis :: "(fp \<Rightarrow> fp) \<Rightarrow> fp list \<Rightarrow> fp list" where
  "lpc_analysis cosf samples =
    (let r = map (autocorrelation cosf samples) [0..<LPC_ORDER + 1];
         a = (replicate (LPC_ORDER + 1) (Fin 0))[0 := Fin 1] in
     if fp_lt (fp_abs (r ! 0)) (f32_lit 1 10000000000) then a
     else levinson r 1 a (r ! 0))"

section \<open>Line spectral pairs\<close>

definition eval_cheb :: "fp list \<Rightarrow> fp \<Rightarrow> fp" where
  "eval_cheb c x =
    (case fold (\<lambda>ci (b0, b1). (fp_add F32 (fp_sub F32 (fp_mul F32 (fp_mul F32 (Fin 2) x) b0) b1) ci, b0)) (rev c) (Fin 0, Fin 0) of
       (b0, b1) \<Rightarrow> fp_sub F32 b0 (fp_mul F32 x b1))"

definition lsp_polynomials :: "fp list \<Rightarrow> fp list \<times> fp list" where
  "lsp_polynomials a =
    fold (\<lambda>i (p, q).
        (p[i := fp_sub F32 (fp_add F32 (a ! i) (a ! (LPC_ORDER + 1 - i))) (p ! (i - 1))],
         q[i := fp_add F32 (fp_sub F32 (a ! i) (a ! (LPC_ORDER + 1 - i))) (q ! (i - 1))]))
      [1..<LPC_ORDER div 2 + 1]
      ((replicate (LPC_ORDER div 2 + 1) (Fin 0))[0 := Fin 1], (replicate (LPC_ORDER div 2 + 1) (Fin 0))[0 := Fin 1])"

text \<open>One point of the search for the roots: what has been found, how many, and both values before.\<close>

definition lsp_step ::
  "(fp \<Rightarrow> fp) \<Rightarrow> fp list \<Rightarrow> fp list \<Rightarrow> nat \<Rightarrow> fp list \<times> nat \<times> fp \<times> fp \<Rightarrow> fp list \<times> nat \<times> fp \<times> fp" where
  "lsp_step cosf p q i = (\<lambda>(lsp, lsp_idx, prev_val_p, prev_val_q).
    let x = cosf (fp_div F32 (fp_mul F32 (f32_of_nat i) F32_PI) (Fin 256));
        val_p = eval_cheb p x;
        val_q = eval_cheb q x;
        root = fp_div F32 (fp_mul F32 (fp_sub F32 (f32_of_nat i) (Fin (1 / 2))) F32_PI) (Fin 256);
        crossed = (if lsp_idx mod 2 = 0 then fp_le (fp_mul F32 prev_val_p val_p) (Fin 0)
                   else fp_le (fp_mul F32 prev_val_q val_q) (Fin 0)) in
    if lsp_idx < LPC_ORDER \<and> crossed then (lsp[lsp_idx := root], lsp_idx + 1, val_p, val_q)
    else (lsp, lsp_idx, val_p, val_q))"

definition lpc_to_lsp :: "(fp \<Rightarrow> fp) \<Rightarrow> fp list \<Rightarrow> fp list" where
  "lpc_to_lsp cosf a =
    (case lsp_polynomials a of
       (p, q) \<Rightarrow>
         (case fold (lsp_step cosf p q) [1..<257] (replicate LPC_ORDER (Fin 0), 0, eval_cheb p (Fin 1), eval_cheb q (Fin 1)) of
            (lsp, lsp_idx, _) \<Rightarrow> fold (\<lambda>i lsp. lsp[i := LSP_MEAN ! i]) [lsp_idx..<LPC_ORDER] lsp))"

text \<open>The first four differences to the last frame, four bits each; the state takes the exact frequencies.\<close>

definition lsp_index :: "fp \<Rightarrow> u8" where
  "lsp_index diff =
    word_of_int (clamp (- 7) 8 (fp_to_int (- 2147483648) 2147483647 (fp_mul F32 diff (Fin 16))) + 7)"

definition quantize_lsp :: "fp list \<Rightarrow> G729Encoder \<Rightarrow> bytes \<times> G729Encoder" where
  "quantize_lsp lsp enc =
    (fold (\<lambda>i indices. indices[i div 2 :=
          indices ! (i div 2) OR push_bit (i mod 2 * 4) (lsp_index (fp_sub F32 (lsp ! i) (ge_prev_lsp enc ! i)) AND 0x0F)])
        [0..<4] [0, 0],
     enc\<lparr>ge_prev_lsp := lsp\<rparr>)"

section \<open>The pitch\<close>

fun lag_sums :: "fp list \<Rightarrow> fp list \<Rightarrow> nat \<Rightarrow> nat list \<Rightarrow> fp \<Rightarrow> fp \<Rightarrow> (fp \<times> fp) option" where
  "lag_sums target exc lag [] corr energy = Some (corr, energy)"
| "lag_sums target exc lag (i # is) corr energy =
    do { t \<leftarrow> index target (int i);
         x \<leftarrow> index exc (int (length exc) - int lag - 1 + int i);
         lag_sums target exc lag is (fp_add F32 corr (fp_mul F32 t x)) (fp_add F32 energy (fp_mul F32 x x)) }"

fun search_lags :: "fp list \<Rightarrow> fp list \<Rightarrow> nat list \<Rightarrow> nat \<Rightarrow> fp \<Rightarrow> (nat \<times> fp) option" where
  "search_lags target exc [] best_lag best_corr = Some (best_lag, best_corr)"
| "search_lags target exc (lag # lags) best_lag best_corr =
    do { (corr, energy) \<leftarrow> lag_sums target exc lag [0..<min SUBFRAME_SIZE (lag + 1)] (Fin 0) (Fin 0);
         let normalized = fp_div F32 corr (fp_sqrt F32 energy);
         if fp_lt (f32_lit 1 10000000000) energy \<and> fp_lt best_corr normalized
         then search_lags target exc lags lag normalized
         else search_lags target exc lags best_lag best_corr }"

definition pitch_search :: "fp list \<Rightarrow> fp list \<Rightarrow> (nat \<times> fp) option" where
  "pitch_search target exc =
    do { (best_lag, best_corr) \<leftarrow>
           search_lags target exc [PITCH_MIN..<min PITCH_MAX (length exc - 1) + 1] PITCH_MIN F32_MIN;
         Some (best_lag, fp_min (fp_max best_corr (Fin 0)) (f32_lit 12 10)) }"

section \<open>Packing a frame\<close>

text \<open>What a subframe is coded as: the indices of pitch, pitch gain, pulses and their gain.\<close>

record subframe =
  sf_pitch :: u8
  sf_gain_p :: u8
  sf_fixed :: u16
  sf_gain_c :: u8

definition pack_subframe :: "nat \<Rightarrow> subframe \<Rightarrow> bytes \<Rightarrow> bytes" where
  "pack_subframe sf c frame =
    (if sf = 0 then
       frame[2 := sf_pitch c,
             3 := push_bit 5 (sf_gain_p c) OR (ucast (drop_bit 8 (sf_fixed c)) AND 0x1F),
             4 := ucast (sf_fixed c AND 0xFF),
             5 := push_bit 4 (sf_gain_c c)]
     else
       frame[5 := frame ! 5 OR (drop_bit 4 (sf_pitch c) AND 0x0F),
             6 := push_bit 4 (sf_pitch c AND 0x0F) OR push_bit 1 (sf_gain_p c) OR (ucast (drop_bit 12 (sf_fixed c)) AND 0x01),
             7 := ucast (drop_bit 4 (sf_fixed c) AND 0xFF),
             8 := ucast (push_bit 4 (sf_fixed c AND 0x0F)) OR sf_gain_c c])"

definition saturating_u8 :: "fp \<Rightarrow> u8" where
  "saturating_u8 x = word_of_int (fp_to_int 0 255 x)"

definition code_subframe :: "fp \<Rightarrow> fp \<Rightarrow> fp \<Rightarrow> nat \<Rightarrow> subframe option" where
  "code_subframe gain_p target_energy first_sample pitch_lag =
    (if pitch_lag < PITCH_MIN then None
     else Some
       \<lparr>sf_pitch = min (word_of_nat (pitch_lag - PITCH_MIN)) 127,
        sf_gain_p = min (saturating_u8 (fp_mul F32 gain_p (Fin 4))) 7,
        sf_fixed = word_of_int (fp_to_int 0 65535 (fp_mul F32 first_sample (Fin 1000))) AND 0x1FFF,
        sf_gain_c = min (saturating_u8 (fp_div F32 target_energy (Fin 1000))) 15\<rparr>)"

definition encode_subframe :: "fp list \<Rightarrow> nat \<Rightarrow> bytes \<times> G729Encoder \<Rightarrow> (bytes \<times> G729Encoder) option" where
  "encode_subframe samples sf = (\<lambda>(frame, enc).
    let sf_start = sf * SUBFRAME_SIZE;
        target = take SUBFRAME_SIZE (drop sf_start samples) in
    do { (pitch_lag, gain_p) \<leftarrow> pitch_search target (take (FRAME_SIZE + PITCH_MAX) (ge_prev_samples enc));
         let target_energy = fp_sqrt F32 (fp_sum F32 (map (\<lambda>x. fp_mul F32 x x) target));
         c \<leftarrow> code_subframe gain_p target_energy (samples ! sf_start) pitch_lag;
         Some (pack_subframe sf c frame,
           enc\<lparr>ge_prev_gain_pitch := gain_p, ge_prev_gain_code := fp_div F32 target_energy (Fin 1000)\<rparr>) })"

text \<open>The history moves up by a frame, and the new one takes the place behind \<open>PITCH_MAX\<close> samples.\<close>

definition push_history :: "fp list \<Rightarrow> fp list \<Rightarrow> fp list" where
  "push_history samples history =
    fold (\<lambda>i history. history[PITCH_MAX + i := samples ! i]) [0..<FRAME_SIZE]
      (drop FRAME_SIZE history @ drop (length history - FRAME_SIZE) history)"

text \<open>A frame of fewer samples stops the analysis at its first index out of range.\<close>

definition encode_frame :: "(fp \<Rightarrow> fp) \<Rightarrow> fp list \<Rightarrow> G729Encoder \<Rightarrow> (bytes \<times> G729Encoder) option" where
  "encode_frame cosf samples enc =
    (if length samples < FRAME_SIZE then None
     else
       let a = lpc_analysis cosf samples;
           lsp = lpc_to_lsp cosf a;
           (lsp_indices, enc) = quantize_lsp lsp enc;
           frame = (replicate FRAME_BYTES 0)[0 := lsp_indices ! 0, 1 := lsp_indices ! 1] in
       do { (frame, enc) \<leftarrow> encode_subframe samples 0 (frame, enc);
            (frame, enc) \<leftarrow> encode_subframe samples 1 (frame, enc);
            Some (frame, enc\<lparr>ge_prev_samples := push_history samples (ge_prev_samples enc)\<rparr>) })"

text \<open>\<^verbatim>\<open>encode\<close>: how many samples it took, and what it appended.\<close>

definition encode_samples :: "(fp \<Rightarrow> fp) \<Rightarrow> G729Encoder \<Rightarrow> pcm \<Rightarrow> (bytes \<times> G729Encoder) option" where
  "encode_samples cosf enc frame = encode_frame cosf (map (\<lambda>s. fp_of_int F32 (sint s)) frame) enc"

definition G729Encoder_encode :: "(fp \<Rightarrow> fp) \<Rightarrow> G729Encoder \<Rightarrow> pcm \<Rightarrow> (nat \<times> bytes \<times> G729Encoder) option" where
  "G729Encoder_encode cosf enc pcm =
    (if length pcm < FRAME_SIZE then Some (0, [], enc)
     else
       let frames = length pcm div FRAME_SIZE in
       do { (out, enc) \<leftarrow>
              fold_units (encode_samples cosf) enc (map (\<lambda>f. take FRAME_SIZE (drop (f * FRAME_SIZE) pcm)) [0..<frames]);
            Some (frames * FRAME_SIZE, out, enc) })"

definition G729Encoder_payload_type :: u8 where "G729Encoder_payload_type = 18"

end
