(* ===== verification/G729_Decoder.thy ===== *)
theory G729_Decoder
  imports G729_Encoder
begin

text \<open>
  The decoder of \<^verbatim>\<open>src/src/codec/g729.rs\<close>.  It has no index that could be out of range: the two that
  depend on data are guarded by the source.
\<close>

record G729Decoder =
  gd_prev_lsp :: "fp list"
  gd_prev_exc :: "fp list"
  gd_mem_syn :: "fp list"
  gd_prev_gain_pitch :: fp
  gd_prev_gain_code :: fp

definition G729Decoder_new :: G729Decoder where
  "G729Decoder_new =
    \<lparr>gd_prev_lsp = LSP_MEAN, gd_prev_exc = replicate (PITCH_MAX + FRAME_SIZE) (Fin 0),
     gd_mem_syn = replicate LPC_ORDER (Fin 0), gd_prev_gain_pitch = Fin 0, gd_prev_gain_code = Fin 0\<rparr>"

section \<open>The filter\<close>

text \<open>The factor of one frequency into its polynomial.\<close>

definition mul_factor :: "(fp \<Rightarrow> fp) \<Rightarrow> fp \<Rightarrow> nat \<Rightarrow> fp list \<Rightarrow> fp list" where
  "mul_factor cosf w i p =
    fold (\<lambda>j p. p[j := fp_add F32 (p ! j) (fp_mul F32 (p ! (j - 1)) (fp_mul F32 (Fin (- 2)) (cosf w)))]) (rev [1..<i + 2]) p"

definition lsp_to_lpc :: "(fp \<Rightarrow> fp) \<Rightarrow> fp list \<Rightarrow> fp list" where
  "lsp_to_lpc cosf lsp =
    (let one = (replicate (LPC_ORDER div 2 + 1) (Fin 0))[0 := Fin 1];
         (p, q) = fold (\<lambda>i (p, q). (mul_factor cosf (lsp ! (i * 2)) i p, mul_factor cosf (lsp ! (i * 2 + 1)) i q))
             [0..<LPC_ORDER div 2] (one, one) in
     Fin 1 # map (\<lambda>i. f32_midpoint (p ! min i (LPC_ORDER div 2)) (q ! min i (LPC_ORDER div 2))) [1..<LPC_ORDER + 1])"

definition lsp_delta :: "bytes \<Rightarrow> nat \<Rightarrow> fp" where
  "lsp_delta indices i =
    (let idx = uint (drop_bit (i mod 2 * 4) (indices ! (i div 2)) AND 0x0F) in
     fp_div F32 (fp_of_int F32 (idx - 7)) (Fin 16))"

definition order_lsp :: "nat \<Rightarrow> fp list \<Rightarrow> fp list" where
  "order_lsp i lsp = (if fp_le (lsp ! i) (lsp ! (i - 1)) then lsp[i := fp_add F32 (lsp ! (i - 1)) (f32_lit 1 100)] else lsp)"

definition dequantize_lsp :: "bytes \<Rightarrow> G729Decoder \<Rightarrow> fp list \<times> G729Decoder" where
  "dequantize_lsp indices dec =
    (let lsp = fold (\<lambda>i lsp. lsp[i := fp_clamp (Fin 0) F32_PI (fp_add F32 (gd_prev_lsp dec ! i) (lsp_delta indices i))])
           [0..<4] (gd_prev_lsp dec);
         lsp = fold order_lsp [1..<LPC_ORDER] lsp in
     (lsp, dec\<lparr>gd_prev_lsp := lsp\<rparr>))"

text \<open>One sample: the excitation less what the ten samples before predict, from the output or from the memory.\<close>

definition synthesis_sample :: "fp list \<Rightarrow> fp list \<Rightarrow> fp \<Rightarrow> nat \<Rightarrow> fp list \<Rightarrow> fp" where
  "synthesis_sample a mem e i output =
    fold (\<lambda>j sum. fp_sub F32 sum (fp_mul F32 (a ! j) (if j \<le> i then output ! (i - j) else mem ! (LPC_ORDER - j + i))))
      [1..<LPC_ORDER + 1] e"

definition synthesis_filter :: "fp list \<Rightarrow> fp list \<Rightarrow> fp list \<Rightarrow> fp list \<Rightarrow> fp list \<times> fp list" where
  "synthesis_filter exc a mem output =
    (let output = fold (\<lambda>i output. output[i := synthesis_sample a mem (exc ! i) i output]) [0..<length exc] output;
         mem = fold (\<lambda>i mem. if i < length exc then mem[LPC_ORDER - 1 - i := output ! (length exc - 1 - i)] else mem)
           [0..<LPC_ORDER] mem in
     (output, mem))"

section \<open>A frame\<close>

text \<open>Pitch lag, pitch gain, pulses and their gain of a subframe.  The lag of the second one adds before it
  ORs: \<^verbatim>\<open>a | b + PITCH_MIN\<close> is \<^verbatim>\<open>a | (b + PITCH_MIN)\<close>.\<close>

definition gain_code :: "u8 \<Rightarrow> fp" where
  "gain_code g = fp_div F32 (fp_mul F32 (fp_of_int F32 (uint g)) (Fin 1000)) (Fin 15)"

definition gain_pitch :: "u8 \<Rightarrow> fp" where
  "gain_pitch g = fp_div F32 (fp_of_int F32 (uint g)) (Fin 4)"

definition unpack_subframe :: "nat \<Rightarrow> bytes \<Rightarrow> nat \<times> fp \<times> u16 \<times> fp" where
  "unpack_subframe sf data =
    (if sf = 0 then
       (unat (data ! 2) + PITCH_MIN,
        gain_pitch (drop_bit 5 (data ! 3) AND 0x07),
        push_bit 8 (ucast (data ! 3 AND 0x1F)) OR ucast (data ! 4),
        gain_code (drop_bit 4 (data ! 5) AND 0x0F))
     else
       (push_bit 4 (unat (data ! 5 AND 0x0F)) OR (unat (drop_bit 4 (data ! 6)) + PITCH_MIN),
        gain_pitch (drop_bit 1 (data ! 6) AND 0x07),
        push_bit 12 (ucast (data ! 6 AND 0x01)) OR push_bit 4 (ucast (data ! 7)) OR ucast (drop_bit 4 (data ! 8)),
        gain_code (data ! 8 AND 0x0F)))"

definition pulse_positions :: "u16 \<Rightarrow> nat list" where
  "pulse_positions fixed_idx =
    [unat (fixed_idx AND 0x07) * 5,
     unat (drop_bit 3 fixed_idx AND 0x07) * 5 + 1,
     unat (drop_bit 6 fixed_idx AND 0x07) * 5 + 2,
     unat (drop_bit 9 fixed_idx AND 0x07) * 5 + 3]"

definition pulse_signs :: "u16 \<Rightarrow> fp list" where
  "pulse_signs fixed_idx =
    (if fixed_idx AND 0x1000 \<noteq> 0 then [Fin 1, Fin 1, Fin (- 1), Fin (- 1)] else [Fin (- 1), Fin (- 1), Fin 1, Fin 1])"

definition adaptive_exc :: "fp list \<Rightarrow> nat \<Rightarrow> fp \<Rightarrow> fp list" where
  "adaptive_exc prev_exc pitch_lag gain_p =
    map (\<lambda>i. let idx = PITCH_MAX - min pitch_lag PITCH_MAX + i in
        if idx < length prev_exc then fp_add F32 (Fin 0) (fp_mul F32 gain_p (prev_exc ! idx)) else Fin 0)
      [0..<SUBFRAME_SIZE]"

definition add_pulses :: "u16 \<Rightarrow> fp \<Rightarrow> fp list \<Rightarrow> fp list" where
  "add_pulses fixed_idx gain_c exc =
    fold (\<lambda>(pos, sign) exc. if pos < SUBFRAME_SIZE then exc[pos := fp_add F32 (exc ! pos) (fp_mul F32 gain_c sign)] else exc)
      (zip (pulse_positions fixed_idx) (pulse_signs fixed_idx)) exc"

definition push_excitation :: "fp list \<Rightarrow> fp list \<Rightarrow> fp list" where
  "push_excitation exc prev_exc =
    fold (\<lambda>i prev_exc. prev_exc[PITCH_MAX - SUBFRAME_SIZE + i := exc ! i]) [0..<SUBFRAME_SIZE]
      (drop SUBFRAME_SIZE prev_exc @ drop (length prev_exc - SUBFRAME_SIZE) prev_exc)"

definition decode_subframe :: "fp list \<Rightarrow> bytes \<Rightarrow> nat \<Rightarrow> G729Decoder \<Rightarrow> fp list \<times> G729Decoder" where
  "decode_subframe a data sf dec =
    (case unpack_subframe sf data of
       (pitch_lag, gain_p, fixed_idx, gain_c) \<Rightarrow>
         let exc = add_pulses fixed_idx gain_c (adaptive_exc (gd_prev_exc dec) pitch_lag gain_p);
             (output, mem) = synthesis_filter exc a (gd_mem_syn dec) (replicate SUBFRAME_SIZE (Fin 0)) in
         (output,
          dec\<lparr>gd_mem_syn := mem, gd_prev_exc := push_excitation exc (gd_prev_exc dec),
              gd_prev_gain_pitch := gain_p, gd_prev_gain_code := gain_c\<rparr>))"

definition decode_frame :: "(fp \<Rightarrow> fp) \<Rightarrow> bytes \<Rightarrow> G729Decoder \<Rightarrow> fp list \<times> G729Decoder" where
  "decode_frame cosf data dec =
    (if length data < FRAME_BYTES then (replicate FRAME_SIZE (Fin 0), dec)
     else
       let (lsp, dec) = dequantize_lsp [data ! 0, data ! 1] dec;
           a = lsp_to_lpc cosf lsp;
           (out0, dec) = decode_subframe a data 0 dec;
           (out1, dec) = decode_subframe a data 1 dec in
       (out0 @ out1, dec))"

definition clip_sample :: "fp \<Rightarrow> i16" where
  "clip_sample x = i16_of_int (fp_to_int (- 32768) 32767 (fp_clamp (Fin (- 32768)) (Fin 32767) (fp_round_int x)))"

definition decode_samples :: "(fp \<Rightarrow> fp) \<Rightarrow> G729Decoder \<Rightarrow> bytes \<Rightarrow> pcm \<times> G729Decoder" where
  "decode_samples cosf dec data = map_prod (map clip_sample) id (decode_frame cosf data dec)"

fun decode_frames :: "(fp \<Rightarrow> fp) \<Rightarrow> G729Decoder \<Rightarrow> bytes list \<Rightarrow> pcm \<times> G729Decoder" where
  "decode_frames cosf dec [] = ([], dec)"
| "decode_frames cosf dec (data # frames) =
    (let (out, dec) = decode_samples cosf dec data;
         (rest, dec) = decode_frames cosf dec frames in
     (out @ rest, dec))"

definition G729Decoder_decode :: "(fp \<Rightarrow> fp) \<Rightarrow> G729Decoder \<Rightarrow> bytes \<Rightarrow> pcm \<times> G729Decoder" where
  "G729Decoder_decode cosf dec encoded =
    (if encoded = [] then ([], dec)
     else decode_frames cosf dec
       (map (\<lambda>f. take FRAME_BYTES (drop (f * FRAME_BYTES) encoded)) [0..<length encoded div FRAME_BYTES]))"

end
