(* ===== verification/G729_Properties.thy ===== *)
theory G729_Properties
  imports G729_Decoder
begin

text \<open>
  What the codec of \<^verbatim>\<open>src/src/codec/g729.rs\<close> does on every input, whatever its cosine computes:
  frames, no index out of range, the fields of a frame, and silence.
\<close>

section \<open>No index is out of range\<close>

definition g729_enc_ok :: "G729Encoder \<Rightarrow> bool" where
  "g729_enc_ok enc \<longleftrightarrow> length (ge_prev_samples enc) = FRAME_SIZE + PITCH_MAX"

lemma g729_enc_ok_new [simp]: "g729_enc_ok G729Encoder_new"
  by (simp add: g729_enc_ok_def G729Encoder_new_def)

lemma index_nth: "i < length xs \<Longrightarrow> index xs (int i) = Some (xs ! i)"
  by (simp add: index_def)

lemma lag_sums_total:
  assumes "\<forall>i\<in>set is. i < length target \<and> i \<le> lag" "lag < length exc"
  shows "\<exists>r. lag_sums target exc lag is corr energy = Some r"
  using assms(1)
proof (induction "is" arbitrary: corr energy)
  case (Cons i "is")
  have "index target (int i) = Some (target ! i)" using Cons.prems by (simp add: index_nth)
  moreover have "index exc (int (length exc) - int lag - 1 + int i) = Some (exc ! (length exc - lag - 1 + i))"
  proof -
    have "int (length exc) - int lag - 1 + int i = int (length exc - lag - 1 + i)" using assms(2) by simp
    moreover have "i \<le> lag" using Cons.prems by simp
    then have "length exc - lag - 1 + i < length exc" using assms(2) by linarith
    ultimately show ?thesis by (simp only: index_nth)
  qed
  ultimately show ?case using Cons by simp
qed simp

text \<open>The search stays with the lags that it was given.\<close>

lemma search_lags_total:
  assumes "length target = SUBFRAME_SIZE" "\<forall>lag\<in>set lags. lag < length exc"
  shows "\<exists>lag corr. search_lags target exc lags best_lag best_corr = Some (lag, corr) \<and> lag \<in> insert best_lag (set lags)"
  using assms(2)
proof (induction lags arbitrary: best_lag best_corr)
  case (Cons lag lags)
  have "\<forall>i\<in>set [0..<min SUBFRAME_SIZE (lag + 1)]. i < length target \<and> i \<le> lag" using assms(1) by auto
  from lag_sums_total [OF this] Cons.prems obtain corr energy where
    s: "lag_sums target exc lag [0..<min SUBFRAME_SIZE (lag + 1)] (Fin 0) (Fin 0) = Some (corr, energy)" by fastforce
  have "\<forall>l\<in>set lags. l < length exc" using Cons.prems by simp
  note IH = Cons.IH [OF this]
  show ?case using IH [of lag "fp_div F32 corr (fp_sqrt F32 energy)"] IH [of best_lag best_corr] unfolding search_lags.simps s by (auto simp: Let_def)
qed simp

lemma pitch_search_total:
  assumes "length target = SUBFRAME_SIZE" "length exc = FRAME_SIZE + PITCH_MAX"
  shows "\<exists>lag gain. pitch_search target exc = Some (lag, gain) \<and> PITCH_MIN \<le> lag \<and> lag \<le> PITCH_MAX"
proof -
  have l: "[PITCH_MIN..<min PITCH_MAX (length exc - 1) + 1] = [20..<144]" using assms(2) by (simp add: g729_sizes)
  have "\<forall>lag\<in>set [20..<144]. lag < length exc" using assms(2) by (auto simp: g729_sizes)
  from search_lags_total [OF assms(1) this, of PITCH_MIN F32_MIN] obtain lag corr where
    s: "search_lags target exc [20..<144] PITCH_MIN F32_MIN = Some (lag, corr)" "lag \<in> insert PITCH_MIN (set [20..<144])" by blast
  have "20 \<le> lag \<and> lag \<le> 143" using s(2) by (auto simp: PITCH_MIN_def)
  then show ?thesis unfolding pitch_search_def l s(1) by (simp add: g729_sizes)
qed

lemma pack_subframe_length [simp]: "length (pack_subframe sf c frame) = length frame"
  by (simp add: pack_subframe_def)

text \<open>A subframe searches the history, which does not change within the frame.\<close>

lemma encode_subframe_total:
  assumes "g729_enc_ok enc" "length samples = FRAME_SIZE" "sf < NUM_SUBFRAMES"
  obtains lag gain c gp gc where
    "pitch_search (take SUBFRAME_SIZE (drop (sf * SUBFRAME_SIZE) samples)) (ge_prev_samples enc) = Some (lag, gain)"
    "PITCH_MIN \<le> lag" "lag \<le> PITCH_MAX"
    "code_subframe gain (fp_sqrt F32 (fp_sum F32 (map (\<lambda>x. fp_mul F32 x x) (take SUBFRAME_SIZE (drop (sf * SUBFRAME_SIZE) samples)))))
        (samples ! (sf * SUBFRAME_SIZE)) lag = Some c"
    "encode_subframe samples sf (frame, enc) =
      Some (pack_subframe sf c frame, enc\<lparr>ge_prev_gain_pitch := gp, ge_prev_gain_code := gc\<rparr>)"
proof -
  let ?target = "take SUBFRAME_SIZE (drop (sf * SUBFRAME_SIZE) samples)"
  have "length ?target = SUBFRAME_SIZE" using assms(2,3) by (simp add: g729_sizes)
  moreover have h: "take (FRAME_SIZE + PITCH_MAX) (ge_prev_samples enc) = ge_prev_samples enc"
    using assms(1) by (simp add: g729_enc_ok_def)
  ultimately obtain lag gain where p: "pitch_search ?target (ge_prev_samples enc) = Some (lag, gain)"
    "PITCH_MIN \<le> lag" "lag \<le> PITCH_MAX"
    using pitch_search_total [of ?target "ge_prev_samples enc"] assms(1) by (auto simp: g729_enc_ok_def)
  from p(2) obtain c where c: "code_subframe gain (fp_sqrt F32 (fp_sum F32 (map (\<lambda>x. fp_mul F32 x x) ?target)))
      (samples ! (sf * SUBFRAME_SIZE)) lag = Some c" by (simp add: code_subframe_def)
  show ?thesis by (rule that [OF p c]) (simp add: encode_subframe_def Let_def h p c)
qed

lemma push_history_length [simp]: "FRAME_SIZE \<le> length history \<Longrightarrow> length (push_history samples history) = length history"
proof -
  have "length (fold (\<lambda>i history. history[PITCH_MAX + i := samples ! i]) is h) = length h" for "is" and h :: "fp list"
    by (induction "is" arbitrary: h) simp_all
  then show "FRAME_SIZE \<le> length history \<Longrightarrow> ?thesis" by (simp add: push_history_def)
qed

lemma quantize_lsp_simps:
  obtains ind ind' where "quantize_lsp lsp enc = ([ind, ind'], enc\<lparr>ge_prev_lsp := lsp\<rparr>)"
proof -
  have "length (fst (quantize_lsp lsp enc)) = 2" by (simp add: quantize_lsp_def upt_rec)
  then obtain ind ind' where "fst (quantize_lsp lsp enc) = [ind, ind']" by (auto simp: length_Suc_conv numeral_2_eq_2)
  then show ?thesis by (intro that) (simp add: quantize_lsp_def)
qed

lemma encode_frame_total:
  assumes "g729_enc_ok enc" "length samples = FRAME_SIZE"
  obtains lag0 gain0 c0 lag1 gain1 c1 ind ind' enc' where
    "pitch_search (take SUBFRAME_SIZE samples) (ge_prev_samples enc) = Some (lag0, gain0)"
    "pitch_search (drop SUBFRAME_SIZE samples) (ge_prev_samples enc) = Some (lag1, gain1)"
    "PITCH_MIN \<le> lag0" "lag0 \<le> PITCH_MAX" "PITCH_MIN \<le> lag1" "lag1 \<le> PITCH_MAX"
    "code_subframe gain0 (fp_sqrt F32 (fp_sum F32 (map (\<lambda>x. fp_mul F32 x x) (take SUBFRAME_SIZE samples)))) (samples ! 0) lag0 = Some c0"
    "code_subframe gain1 (fp_sqrt F32 (fp_sum F32 (map (\<lambda>x. fp_mul F32 x x) (drop SUBFRAME_SIZE samples)))) (samples ! SUBFRAME_SIZE) lag1 =
      Some c1"
    "encode_frame cosf samples enc = Some (pack_subframe 1 c1 (pack_subframe 0 c0 [ind, ind', 0, 0, 0, 0, 0, 0, 0, 0]), enc')"
    "g729_enc_ok enc'" "ge_prev_samples enc' = push_history samples (ge_prev_samples enc)"
proof -
  obtain ind ind' where q: "quantize_lsp (lpc_to_lsp cosf (lpc_analysis cosf samples)) enc =
      ([ind, ind'], enc\<lparr>ge_prev_lsp := lpc_to_lsp cosf (lpc_analysis cosf samples)\<rparr>)" by (rule quantize_lsp_simps)
  let ?enc = "enc\<lparr>ge_prev_lsp := lpc_to_lsp cosf (lpc_analysis cosf samples)\<rparr>"
  let ?frame = "[ind, ind', 0, 0, 0, 0, 0, 0, 0, 0] :: bytes"
  have ok: "g729_enc_ok ?enc" using assms(1) by (simp add: g729_enc_ok_def)
  obtain lag0 gain0 c0 gp0 gc0 where
    s0: "pitch_search (take SUBFRAME_SIZE samples) (ge_prev_samples enc) = Some (lag0, gain0)" "PITCH_MIN \<le> lag0" "lag0 \<le> PITCH_MAX"
      "code_subframe gain0 (fp_sqrt F32 (fp_sum F32 (map (\<lambda>x. fp_mul F32 x x) (take SUBFRAME_SIZE samples)))) (samples ! 0) lag0 = Some c0"
      "encode_subframe samples 0 (?frame, ?enc) =
        Some (pack_subframe 0 c0 ?frame, ?enc\<lparr>ge_prev_gain_pitch := gp0, ge_prev_gain_code := gc0\<rparr>)"
    by (rule encode_subframe_total [OF ok assms(2), of 0 ?frame]) (simp_all add: NUM_SUBFRAMES_def)
  let ?enc0 = "?enc\<lparr>ge_prev_gain_pitch := gp0, ge_prev_gain_code := gc0\<rparr>"
  have d: "take SUBFRAME_SIZE (drop (1 * SUBFRAME_SIZE) samples) = drop SUBFRAME_SIZE samples"
    using assms(2) by (simp add: g729_sizes)
  have ok0: "g729_enc_ok ?enc0" using assms(1) by (simp add: g729_enc_ok_def)
  obtain lag1 gain1 c1 gp1 gc1 where
    s1: "pitch_search (drop SUBFRAME_SIZE samples) (ge_prev_samples enc) = Some (lag1, gain1)" "PITCH_MIN \<le> lag1" "lag1 \<le> PITCH_MAX"
      "code_subframe gain1 (fp_sqrt F32 (fp_sum F32 (map (\<lambda>x. fp_mul F32 x x) (drop SUBFRAME_SIZE samples)))) (samples ! SUBFRAME_SIZE) lag1 =
        Some c1"
      "encode_subframe samples 1 (pack_subframe 0 c0 ?frame, ?enc0) =
        Some (pack_subframe 1 c1 (pack_subframe 0 c0 ?frame), ?enc0\<lparr>ge_prev_gain_pitch := gp1, ge_prev_gain_code := gc1\<rparr>)"
    by (rule encode_subframe_total [OF ok0 assms(2), of 1 "pack_subframe 0 c0 ?frame", unfolded d]) (simp_all add: NUM_SUBFRAMES_def)
  have f: "(replicate FRAME_BYTES 0)[0 := [ind, ind'] ! 0, 1 := [ind, ind'] ! 1] = ?frame"
    by (simp add: FRAME_BYTES_def numeral_eq_Suc)
  show ?thesis
    by (rule that [OF s0(1) s1(1) s0(2,3) s1(2,3) s0(4) s1(4), of ind ind'
          "?enc0\<lparr>ge_prev_gain_pitch := gp1, ge_prev_gain_code := gc1, ge_prev_samples := push_history samples (ge_prev_samples enc)\<rparr>"])
      (use assms s0(5) s1(5) f in \<open>simp_all add: encode_frame_def Let_def q g729_enc_ok_def\<close>)
qed


section \<open>Frames\<close>

lemma frames_cut: "0 < n \<Longrightarrow> map (\<lambda>f. take n (drop (f * n) xs)) [0..<length xs div n] = frames_of n xs"
proof (induction n xs rule: frames_of.induct)
  case (1 n xs)
  show ?case
  proof (cases "length xs < n")
    case False
    then have d: "length xs div n = Suc ((length xs - n) div n)" using "1.prems" by (simp add: le_div_geq)
    have "map (\<lambda>f. take n (drop (Suc f * n) xs)) [0..<(length xs - n) div n] = frames_of n (drop n xs)"
      using "1.IH" "1.prems" False by (simp add: add.commute)
    then show ?thesis unfolding d upt_conv_Cons [OF zero_less_Suc] map_Suc_upt [symmetric]
      using "1.prems" False by (simp add: frames_of_take o_def del: upt_Suc)
  qed (simp add: frames_of_short)
qed

definition g729_encode :: "(fp \<Rightarrow> fp) \<Rightarrow> G729Encoder \<Rightarrow> pcm \<Rightarrow> (bytes \<times> G729Encoder) option" where
  "g729_encode cosf enc pcm = map_option snd (G729Encoder_encode cosf enc pcm)"

lemma G729Encoder_encode_units:
  "G729Encoder_encode cosf enc pcm =
    map_option (\<lambda>r. (length pcm div FRAME_SIZE * FRAME_SIZE, r)) (fold_units (encode_samples cosf) enc (frames_of FRAME_SIZE pcm))"
proof (cases "length pcm < FRAME_SIZE")
  case True
  then show ?thesis by (simp add: G729Encoder_encode_def frames_of_short)
next
  case False
  then show ?thesis
    using frames_cut [of FRAME_SIZE pcm]
    by (cases "fold_units (encode_samples cosf) enc (frames_of FRAME_SIZE pcm)")
      (auto simp: G729Encoder_encode_def Let_def FRAME_SIZE_def)
qed

lemma g729_encode_units: "g729_encode cosf enc pcm = fold_units (encode_samples cosf) enc (frames_of FRAME_SIZE pcm)"
  by (simp add: g729_encode_def G729Encoder_encode_units option.map_comp o_def option.map_ident)

lemma encode_samples_total:
  assumes "g729_enc_ok enc" "length pcm = FRAME_SIZE"
  shows "\<exists>out enc'. encode_samples cosf enc pcm = Some (out, enc') \<and> g729_enc_ok enc' \<and> length out = FRAME_BYTES"
  unfolding encode_samples_def
  by (rule encode_frame_total [OF assms(1), of "map (\<lambda>s. fp_of_int F32 (sint s)) pcm" cosf]) (use assms(2) in \<open>auto simp: FRAME_BYTES_def\<close>)

lemma encode_units_total:
  "g729_enc_ok enc \<Longrightarrow> \<forall>f\<in>set fs. length f = FRAME_SIZE \<Longrightarrow>
    \<exists>out enc'. fold_units (encode_samples cosf) enc fs = Some (out, enc') \<and> g729_enc_ok enc' \<and>
      length out = length fs * FRAME_BYTES"
proof (induction fs arbitrary: enc)
  case (Cons f fs)
  from encode_samples_total [OF Cons.prems(1), of f cosf] Cons.prems(2) obtain out enc1 where
    1: "encode_samples cosf enc f = Some (out, enc1)" "g729_enc_ok enc1" "length out = FRAME_BYTES" by auto
  from Cons.IH [OF 1(2)] Cons.prems(2) 1 show ?case by auto
qed simp

lemma frames_of_frame: "frame dvd length xs \<Longrightarrow> 0 < frame \<Longrightarrow> frames_of frame (xs @ ys) = frames_of frame xs @ frames_of frame ys"
  by (simp add: frames_of_append)

interpretation g729_enc: framed_coder "g729_encode cosf" FRAME_SIZE g729_enc_ok FRAME_BYTES for cosf
proof unfold_locales
  show "g729_encode cosf enc [] = Some ([], enc)" for enc by (simp add: g729_encode_units frames_of_short FRAME_SIZE_def)
  show "g729_encode cosf enc (xs @ ys) =
      do { (out, enc) \<leftarrow> g729_encode cosf enc xs; (out', enc) \<leftarrow> g729_encode cosf enc ys; Some (out @ out', enc) }"
    if "FRAME_SIZE dvd length xs" for enc xs ys
    using that by (simp add: g729_encode_units frames_of_frame fold_units_append FRAME_SIZE_def)
  show "\<exists>out enc'. g729_encode cosf enc xs = Some (out, enc') \<and> g729_enc_ok enc' \<and> length out = length xs div FRAME_SIZE * FRAME_BYTES"
    if "g729_enc_ok enc" "FRAME_SIZE dvd length xs" for enc xs
    using encode_units_total [OF that(1), of "frames_of FRAME_SIZE xs" cosf] frames_of_spec [of FRAME_SIZE xs]
    by (simp add: g729_encode_units g729_sizes)
qed

section \<open>The decoder\<close>

lemma fold_update_length: "length (fold (\<lambda>i xs. xs[f i := g i xs]) is xs) = length xs"
  by (induction "is" arbitrary: xs) simp_all

lemma synthesis_filter_length: "length (fst (synthesis_filter exc a mem output)) = length output"
  by (simp add: synthesis_filter_def Let_def fold_update_length)

lemma decode_frame_length: "length (fst (decode_frame cosf data dec)) = FRAME_SIZE"
  using synthesis_filter_length
  by (auto simp: decode_frame_def decode_subframe_def Let_def case_prod_unfold g729_sizes)

lemma decode_frames_append:
  "decode_frames cosf dec (fs @ gs) =
    (let (out, dec) = decode_frames cosf dec fs; (out', dec) = decode_frames cosf dec gs in (out @ out', dec))"
  by (induction fs arbitrary: dec) (simp_all add: case_prod_unfold Let_def)

lemma decode_frames_length: "length (fst (decode_frames cosf dec fs)) = length fs * FRAME_SIZE"
  by (induction fs arbitrary: dec) (simp_all add: case_prod_unfold Let_def decode_samples_def decode_frame_length)

lemma G729Decoder_decode_frames: "G729Decoder_decode cosf dec bs = decode_frames cosf dec (frames_of FRAME_BYTES bs)"
  using frames_cut [of FRAME_BYTES bs] by (simp add: G729Decoder_decode_def frames_of_short FRAME_BYTES_def)

interpretation g729_dec: framed_coder "\<lambda>dec bs. Some (G729Decoder_decode cosf dec bs)" FRAME_BYTES "\<lambda>_. True" FRAME_SIZE for cosf
proof unfold_locales
  show "Some (G729Decoder_decode cosf dec []) = Some ([], dec)" for dec by (simp add: G729Decoder_decode_def)
  show "Some (G729Decoder_decode cosf dec (xs @ ys)) =
      do { (out, dec) \<leftarrow> Some (G729Decoder_decode cosf dec xs); (out', dec) \<leftarrow> Some (G729Decoder_decode cosf dec ys);
        Some (out @ out', dec) }"
    if "FRAME_BYTES dvd length xs" for dec xs ys
    using that by (simp add: G729Decoder_decode_frames frames_of_frame decode_frames_append FRAME_BYTES_def case_prod_unfold Let_def)
  show "\<exists>out dec'. Some (G729Decoder_decode cosf dec xs) = Some (out, dec') \<and> True \<and> length out = length xs div FRAME_BYTES * FRAME_SIZE"
    for dec xs
    using decode_frames_length [of cosf dec "frames_of FRAME_BYTES xs"] frames_of_spec [of FRAME_BYTES xs]
    by (cases "G729Decoder_decode cosf dec xs") (simp add: G729Decoder_decode_frames FRAME_BYTES_def)
qed

end
