(* ===== verification/Call_Codecs.thy ===== *)
theory Call_Codecs
  imports Stream_Losses Opus_Codec G729_Properties
begin

text \<open>
  The whole table of codecs: the coders of \<^verbatim>\<open>src/src/codec/g729.rs\<close> and \<^verbatim>\<open>src/src/codec/opus_codec.rs\<close>
  fill what \<^verbatim>\<open>Media_Codecs\<close> leaves open, and what each makes of the packets that the media path sends.
\<close>

section \<open>The table\<close>

datatype 'e RestEncoder = G729_encoder G729Encoder | Opus_encoder 'e
datatype 'd RestDecoder = G729_decoder G729Decoder | Opus_decoder 'd

text \<open>The other codecs do not come here: \<open>codec_table\<close> answers for them.\<close>

definition create_rest_encoder :: "('e, 'd, 'p) libopus \<Rightarrow> CodecType \<Rightarrow> error + 'e RestEncoder" where
  "create_rest_encoder lib codec =
    (case codec of
       G729 \<Rightarrow> Inr (G729_encoder G729Encoder_new)
     | Opus \<Rightarrow> map_sum id Opus_encoder (OpusEncoder_new lib)
     | _ \<Rightarrow> Inl (Codec ''''))"

definition create_rest_decoder :: "('e, 'd, 'p) libopus \<Rightarrow> CodecType \<Rightarrow> error + 'd RestDecoder" where
  "create_rest_decoder lib codec =
    (case codec of
       G729 \<Rightarrow> Inr (G729_decoder G729Decoder_new)
     | Opus \<Rightarrow> map_sum id Opus_decoder (OpusDecoder_new lib)
     | _ \<Rightarrow> Inl (Codec ''''))"

text \<open>Neither panics, as is shown where they are modelled (Opus: as long as the library stays inside its
  buffers), so the value given to that case does not matter.\<close>

fun run_rest_encoder :: "(fp \<Rightarrow> fp) \<Rightarrow> ('e, 'd, 'p) libopus \<Rightarrow> 'e RestEncoder \<Rightarrow> pcm \<Rightarrow> bytes \<times> 'e RestEncoder" where
  "run_rest_encoder cosf lib (G729_encoder enc) pcm =
     map_prod id G729_encoder (no_panic enc (map_option snd (G729Encoder_encode cosf enc pcm)))"
| "run_rest_encoder cosf lib (Opus_encoder enc) pcm =
     map_prod id Opus_encoder (no_panic enc (map_option snd (OpusEncoder_encode lib enc pcm)))"

fun run_rest_decoder :: "(fp \<Rightarrow> fp) \<Rightarrow> ('e, 'd, 'p) libopus \<Rightarrow> 'd RestDecoder \<Rightarrow> bytes \<Rightarrow> pcm \<times> 'd RestDecoder" where
  "run_rest_decoder cosf lib (G729_decoder dec) bs = map_prod id G729_decoder (G729Decoder_decode cosf dec bs)"
| "run_rest_decoder cosf lib (Opus_decoder dec) bs = map_prod id Opus_decoder (no_panic dec (OpusDecoder_decode lib dec bs))"

fun run_rest_conceal :: "('e, 'd, 'p) libopus \<Rightarrow> 'd RestDecoder \<Rightarrow> nat \<Rightarrow> bytes option \<Rightarrow> pcm \<times> 'd RestDecoder" where
  "run_rest_conceal lib (G729_decoder dec) n nxt = (conceal_loss n nxt [], G729_decoder dec)"
| "run_rest_conceal lib (Opus_decoder dec) n nxt =
     map_prod id Opus_decoder (no_panic dec (OpusDecoder_conceal_loss lib dec n nxt))"

definition rest_codecs :: "(fp \<Rightarrow> fp) \<Rightarrow> ('e, 'd, 'p) libopus \<Rightarrow> ('e RestEncoder, 'd RestDecoder) codecs" where
  "rest_codecs cosf lib =
    \<lparr>create_encoder = create_rest_encoder lib, create_decoder = create_rest_decoder lib,
     run_encoder = run_rest_encoder cosf lib, run_decoder = run_rest_decoder cosf lib, run_conceal = run_rest_conceal lib\<rparr>"

abbreviation all_codecs_table ::
  "(fp \<Rightarrow> fp) \<Rightarrow> ('e, 'd, 'p) libopus \<Rightarrow> ('e RestEncoder AudioEncoder, 'd RestDecoder AudioDecoder) codecs" where
  "all_codecs_table cosf lib \<equiv> codec_table (rest_codecs cosf lib)"

section \<open>Running them\<close>

lemma run_all_invariant:
  assumes "\<And>s x. I s \<Longrightarrow> P x \<Longrightarrow> I (snd (f s x)) \<and> Q (fst (f s x))"
  shows "I s \<Longrightarrow> \<forall>x\<in>set xs. P x \<Longrightarrow> \<forall>y\<in>set (run_all f s xs). Q y"
proof (induction xs arbitrary: s)
  case (Cons x xs)
  then have "I (snd (f s x)) \<and> Q (fst (f s x))" using assms by simp
  with Cons.IH [of "snd (f s x)"] Cons.prems show ?case by (simp add: case_prod_unfold Let_def)
qed simp

text \<open>The states that the coders of a codec can be in.\<close>

fun good_encoder :: "CodecType \<Rightarrow> 'e RestEncoder AudioEncoder \<Rightarrow> bool" where
  "good_encoder Pcmu e \<longleftrightarrow> e = PcmuEncoder"
| "good_encoder Pcma e \<longleftrightarrow> e = PcmaEncoder"
| "good_encoder G722 e \<longleftrightarrow> (\<exists>enc. e = G722_encoder enc \<and> enc_ok enc \<and> e_pending enc = None)"
| "good_encoder G729 e \<longleftrightarrow> (\<exists>enc. e = OtherEncoder (G729_encoder enc) \<and> g729_enc_ok enc)"
| "good_encoder Opus e \<longleftrightarrow> (\<exists>enc. e = OtherEncoder (Opus_encoder enc))"

fun good_decoder :: "CodecType \<Rightarrow> 'd RestDecoder AudioDecoder \<Rightarrow> bool" where
  "good_decoder Pcmu d \<longleftrightarrow> d = PcmuDecoder"
| "good_decoder Pcma d \<longleftrightarrow> d = PcmaDecoder"
| "good_decoder G722 d \<longleftrightarrow> (\<exists>dec. d = G722_decoder dec \<and> dec_ok dec)"
| "good_decoder G729 d \<longleftrightarrow> (\<exists>dec. d = OtherDecoder (G729_decoder dec))"
| "good_decoder Opus d \<longleftrightarrow> (\<exists>dec. d = OtherDecoder (Opus_decoder dec))"

lemma pending_new: "e_pending G722Encoder_new = None"
  by (simp add: G722Encoder_new_def)

lemma good_encoder_created:
  "codec \<noteq> Opus \<Longrightarrow> \<exists>e. create_encoder (all_codecs_table cosf lib) codec = Inr e"
  "create_encoder (all_codecs_table cosf lib) codec = Inr e \<Longrightarrow> good_encoder codec e"
  by (cases codec; auto simp: codec_table_def new_encoder_def rest_codecs_def create_rest_encoder_def enc_ok_new pending_new
      map_sum_def split: sum.splits)+

lemma good_decoder_created:
  "codec \<noteq> Opus \<Longrightarrow> \<exists>d. create_decoder (all_codecs_table cosf lib) codec = Inr d"
  "create_decoder (all_codecs_table cosf lib) codec = Inr d \<Longrightarrow> good_decoder codec d"
  by (cases codec; auto simp: codec_table_def new_decoder_def rest_codecs_def create_rest_decoder_def dec_ok_new
      map_sum_def split: sum.splits)+

text \<open>A payload of the codec: what its bitrate makes of 20 ms, or any that fits Opus's buffer (none, when
  the library refuses the frame).\<close>

definition good_payload :: "CodecType \<Rightarrow> bytes \<Rightarrow> bool" where
  "good_payload codec payload \<longleftrightarrow>
    (if codec = Opus then length payload \<le> 4000
     else length payload = bitrate_kbps codec * PACKET_DURATION_MS div 8)"

lemma packet_samples:
  "pcm_samples_per_packet Pcmu = 160" "pcm_samples_per_packet Pcma = 160" "pcm_samples_per_packet G729 = 160"
  "pcm_samples_per_packet G722 = 320" "pcm_samples_per_packet Opus = 960"
  by (simp_all add: pcm_samples_per_packet_def PACKET_DURATION_MS_def)

lemma encoder_step:
  assumes "opus_fills lib" "good_encoder codec e" "length pcm = pcm_samples_per_packet codec"
  shows "good_encoder codec (snd (run_encoder (all_codecs_table cosf lib) e pcm)) \<and>
    good_payload codec (fst (run_encoder (all_codecs_table cosf lib) e pcm))"
proof (cases codec)
  case G722
  with assms(2) obtain enc where e: "e = G722_encoder enc" "enc_ok enc \<and> e_pending enc = None" by auto
  have "2 dvd length pcm" using assms(3) G722 by (simp add: packet_samples)
  from g722_framed.code_framed [OF e(2) this] obtain out enc' where
    "G722_encode enc pcm = Some (out, enc')" "enc_ok enc' \<and> e_pending enc' = None" "length out = 160"
    using assms(3) G722 by (auto simp: packet_samples)
  with e G722 show ?thesis by (simp add: codec_table_def no_panic_def good_payload_def PACKET_DURATION_MS_def)
next
  case G729
  with assms(2) obtain enc where e: "e = OtherEncoder (G729_encoder enc)" "g729_enc_ok enc" by auto
  have "FRAME_SIZE dvd length pcm" using assms(3) G729 by (simp add: packet_samples FRAME_SIZE_def)
  from g729_enc.code_framed [OF e(2) this, of cosf] obtain out enc' where
    "map_option snd (G729Encoder_encode cosf enc pcm) = Some (out, enc')" "g729_enc_ok enc'" "length out = 20"
    using assms(3) G729 by (auto simp: packet_samples FRAME_SIZE_def FRAME_BYTES_def g729_encode_def)
  with e G729 show ?thesis
    by (auto simp: codec_table_def rest_codecs_def no_panic_def good_payload_def PACKET_DURATION_MS_def)
next
  case Opus
  with assms(2) obtain enc where e: "e = OtherEncoder (Opus_encoder enc)" by auto
  obtain n out enc' where "OpusEncoder_encode lib enc pcm = Some (n, out, enc')" "length out \<le> 4000"
    by (cases rule: opus_encode_cases [OF assms(1), of enc pcm]) auto
  with e Opus show ?thesis by (simp add: codec_table_def rest_codecs_def no_panic_def good_payload_def)
qed (use assms(2,3) in \<open>simp_all add: codec_table_def PcmuEncoder_encode_def PcmaEncoder_encode_def good_payload_def
    packet_samples PACKET_DURATION_MS_def\<close>)

lemma decoder_step:
  assumes "opus_fills lib" "good_decoder codec d" "good_payload codec payload"
  shows "good_decoder codec (snd (run_decoder (all_codecs_table cosf lib) d payload)) \<and>
    (if codec = Opus then length (fst (run_decoder (all_codecs_table cosf lib) d payload)) \<le> MAX_DECODED_SAMPLES
     else length (fst (run_decoder (all_codecs_table cosf lib) d payload)) = pcm_samples_per_packet codec)"
proof (cases codec)
  case G722
  with assms(2) obtain dec where d: "d = G722_decoder dec" "dec_ok dec" by auto
  obtain pcm dec' where "G722_decode dec payload = Some (pcm, dec')" "dec_ok dec'" "length pcm = 2 * length payload"
    using G722_decode_ok [OF d(2), of payload] by auto
  with d G722 assms(3) show ?thesis
    by (simp add: codec_table_def no_panic_def good_payload_def packet_samples PACKET_DURATION_MS_def)
next
  case G729
  with assms(2) obtain dec where d: "d = OtherDecoder (G729_decoder dec)" by auto
  have l: "length payload = 20" using G729 assms(3) by (simp add: good_payload_def PACKET_DURATION_MS_def)
  then have "FRAME_BYTES dvd length payload" by (simp add: FRAME_BYTES_def)
  from g729_dec.code_framed [OF TrueI this, of cosf dec] l d G729 show ?thesis
    by (auto simp: codec_table_def rest_codecs_def packet_samples FRAME_BYTES_def FRAME_SIZE_def)
next
  case Opus
  with assms(2) obtain dec where d: "d = OtherDecoder (Opus_decoder dec)" by auto
  obtain pcm dec' where "OpusDecoder_decode lib dec payload = Some (pcm, dec')" "length pcm \<le> MAX_DECODED_SAMPLES"
    using opus_run_bounded [OF assms(1), of dec "Some payload" MAX_DECODED_SAMPLES False]
    by (cases "payload = []") (auto simp: OpusDecoder_decode_def)
  with d Opus show ?thesis by (simp add: codec_table_def rest_codecs_def no_panic_def)
qed (use assms(2,3) in \<open>simp_all add: codec_table_def PcmuDecoder_decode_def PcmaDecoder_decode_def good_payload_def
    packet_samples PACKET_DURATION_MS_def\<close>)

section \<open>Properties\<close>

text \<open>What Opus makes of a packet is what the library makes of it: its length is one that is let through.\<close>

lemma opus_packet:
  assumes "opus_fills lib" "length pcm = pcm_samples_per_packet Opus"
    and "encoder_run lib enc pcm (replicate 4000 0) = (r, buf, enc')"
  shows "run_encoder (all_codecs_table cosf lib) (OtherEncoder (Opus_encoder enc)) pcm =
    (case r of Inr len \<Rightarrow> take len buf | Inl _ \<Rightarrow> [], OtherEncoder (Opus_encoder enc'))"
proof -
  have "length pcm \<in> set VALID_FRAME_LENGTHS" using assms(2) by (simp add: packet_samples VALID_FRAME_LENGTHS_def)
  moreover have "case r of Inr len \<Rightarrow> len \<le> length buf | Inl _ \<Rightarrow> True"
    using opus_fills_encoder [OF assms(1,3)] by (auto split: sum.splits)
  ultimately show ?thesis using assms(3)
    by (cases r) (simp_all add: codec_table_def rest_codecs_def no_panic_def OpusEncoder_encode_def)
qed

text \<open>C31: what is sent for 20 ms.  Packets of the length that the session and the stream cut are coded one after
  the other, with the state carried from packet to packet.  The coders of every codec but Opus are always made; each packet becomes one
  payload of just the length that the declared bitrate says, and the decoder turns it back into as many samples.
  Opus, with a library that keeps to its buffers: if the coders can be made, no payload is longer than 4000
  bytes and none decodes to more than 5760 samples; and no packet is refused for its length, the payload
  is all that the library wrote, at least a byte, or nothing if the library failed.\<close>

theorem codec_payloads:
  fixes cosf :: "fp \<Rightarrow> fp" and lib :: "('e, 'd, 'p) libopus"
  defines "tab \<equiv> codec_table (rest_codecs cosf lib)"
  assumes "opus_fills lib" and "\<forall>pcm\<in>set pcms. length pcm = pcm_samples_per_packet codec"
  shows "(if codec = Opus then
      (\<forall>e d. create_encoder tab codec = Inr e \<and> create_decoder tab codec = Inr d \<longrightarrow>
        (\<forall>payload\<in>set (run_all (run_encoder tab) e pcms). length payload \<le> 4000) \<and>
        (\<forall>pcm\<in>set (run_all (run_decoder tab) d (run_all (run_encoder tab) e pcms)). length pcm \<le> MAX_DECODED_SAMPLES)) \<and>
      (\<forall>pcm\<in>set pcms. \<forall>enc r buf enc'. encoder_run lib enc pcm (replicate 4000 0) = (r, buf, enc') \<longrightarrow>
        run_encoder tab (OtherEncoder (Opus_encoder enc)) pcm =
          (case r of Inr len \<Rightarrow> take len buf | Inl _ \<Rightarrow> [], OtherEncoder (Opus_encoder enc')) \<and>
        (case r of Inr len \<Rightarrow> 0 < len \<and> len \<le> length buf | Inl _ \<Rightarrow> True))
    else
      (\<exists>e d. create_encoder tab codec = Inr e \<and> create_decoder tab codec = Inr d \<and>
        (\<forall>payload\<in>set (run_all (run_encoder tab) e pcms). length payload = bitrate_kbps codec * PACKET_DURATION_MS div 8) \<and>
        (\<forall>pcm\<in>set (run_all (run_decoder tab) d (run_all (run_encoder tab) e pcms)).
          length pcm = pcm_samples_per_packet codec)))"
proof -
  have coded: "(\<forall>payload\<in>set (run_all (run_encoder tab) e pcms). good_payload codec payload) \<and>
      (\<forall>pcm\<in>set (run_all (run_decoder tab) d (run_all (run_encoder tab) e pcms)).
        if codec = Opus then length pcm \<le> MAX_DECODED_SAMPLES else length pcm = pcm_samples_per_packet codec)"
    if "create_encoder tab codec = Inr e" "create_decoder tab codec = Inr d" for e d
  proof -
    have good: "good_encoder codec e" "good_decoder codec d"
      using that good_encoder_created(2) good_decoder_created(2) unfolding tab_def by blast+
    have p: "\<forall>payload\<in>set (run_all (run_encoder tab) e pcms). good_payload codec payload"
      using encoder_step [OF assms(2)] unfolding tab_def
      by (rule run_all_invariant [where P = "\<lambda>pcm. length pcm = pcm_samples_per_packet codec"]) (use good(1) assms(3) in auto)
    moreover have "\<forall>pcm\<in>set (run_all (run_decoder tab) d (run_all (run_encoder tab) e pcms)).
        if codec = Opus then length pcm \<le> MAX_DECODED_SAMPLES else length pcm = pcm_samples_per_packet codec"
      using decoder_step [OF assms(2)] unfolding tab_def
      by (rule run_all_invariant [where P = "good_payload codec"]) (use good(2) p in \<open>auto simp: tab_def\<close>)
    ultimately show ?thesis by blast
  qed
  show ?thesis
  proof (cases "codec = Opus")
    case True
    have "case r of Inr len \<Rightarrow> 0 < len \<and> len \<le> length buf | Inl _ \<Rightarrow> True"
      if "encoder_run lib enc pcm (replicate 4000 0) = (r, buf, enc')" for enc pcm r buf enc'
      using opus_fills_encoder [OF assms(2) that] by (auto split: sum.splits)
    then show ?thesis using coded opus_packet [OF assms(2)] assms(3) True unfolding good_payload_def tab_def by simp
  next
    case False
    obtain e d where c: "create_encoder tab codec = Inr e" "create_decoder tab codec = Inr d"
      using good_encoder_created(1) [OF False] good_decoder_created(1) [OF False] unfolding tab_def by blast
    from coded [OF this] c False show ?thesis unfolding good_payload_def by auto
  qed
qed

text \<open>A library that codes a frame to its first sample.\<close>

definition demo_opus :: "(unit, unit, bytes) libopus" where
  "demo_opus =
    \<lparr>encoder_create = \<lambda>_. Inr (), encoder_set = \<lambda>_ _. Inr (),
     encoder_run = \<lambda>_ pcm buf. (if buf = [] then Inl ''buffer too small'' else Inr 1, map (\<lambda>_. ucast (hd pcm)) buf, ()),
     decoder_create = \<lambda>_. Inr (), packet_of = Inr, check_signals = \<lambda>_. None,
     decoder_run = \<lambda>_ p buf _. (Inr (min 960 (length buf)), map (\<lambda>_. case p of None \<Rightarrow> 0 | Some bs \<Rightarrow> ucast (hd bs)) buf, ())\<rparr>"

lemma demo_opus_fills: "opus_fills demo_opus"
  by (simp add: opus_fills_def demo_opus_def Suc_le_eq)

theorem codec_payloads_witness:
  "(\<exists>e d. create_encoder (codec_table (rest_codecs (\<lambda>x. x) demo_opus)) G729 = Inr e \<and>
    create_decoder (codec_table (rest_codecs (\<lambda>x. x) demo_opus)) G729 = Inr d \<and>
    map length (run_all (run_encoder (codec_table (rest_codecs (\<lambda>x. x) demo_opus))) e [replicate 160 7, replicate 160 9]) = [20, 20]) \<and>
   fst (run_encoder (codec_table (rest_codecs (\<lambda>x. x) demo_opus)) (OtherEncoder (Opus_encoder ())) (replicate 960 7)) = [7]"
proof -
  have l: "\<forall>pcm\<in>set [replicate 160 (7 :: i16), replicate 160 9]. length pcm = pcm_samples_per_packet G729"
    "\<forall>pcm\<in>set [replicate 960 (7 :: i16)]. length pcm = pcm_samples_per_packet Opus"
    by (simp_all add: packet_samples)
  have "encoder_run demo_opus () (replicate 960 7) (replicate 4000 0) = (Inr 1, replicate 4000 7, ())"
    by (simp add: demo_opus_def)
  with codec_payloads [OF demo_opus_fills l(2), of "\<lambda>x. x"]
  have "fst (run_encoder (codec_table (rest_codecs (\<lambda>x. x) demo_opus)) (OtherEncoder (Opus_encoder ())) (replicate 960 7)) = [7]"
    by auto
  with codec_payloads [OF demo_opus_fills l(1), of "\<lambda>x. x"] show ?thesis
    by (auto simp: PACKET_DURATION_MS_def case_prod_unfold Let_def)
qed

end
