(* ===== verification/Jitter_Refinement.thy ===== *)
theory Jitter_Refinement
  imports Jitter_Properties "HOL-Library.Monad_Syntax"
begin

text \<open>
  What the jitter buffer of \<^verbatim>\<open>src/src/jitter.rs\<close> is to its user: a playout clock over numbered payloads,
  without 16 bit numbers, cycles, statistics or adaptation.  The buffer implements it over streams of any
  length, as long as no packet is so far from the last one that its number could be taken for another.
\<close>

section \<open>The abstract buffer\<close>

text \<open>The number that is due, once playout has started; what waits; and the number stored last.\<close>

record ideal =
  due :: "nat option"
  waiting :: "nat \<Rightarrow> bytes option"
  last_no :: nat

text \<open>A packet that is already due is dropped; one that finds the buffer full takes the place of the first.\<close>

definition ideal_arrive :: "nat \<Rightarrow> nat \<Rightarrow> bytes \<Rightarrow> ideal \<Rightarrow> ideal" where
  "ideal_arrive n e payload st =
    (if (case due st of None \<Rightarrow> False | Some p \<Rightarrow> e < p) then st
     else
       let kept = (if n \<le> card (dom (waiting st)) \<and> dom (waiting st) \<noteq> {}
                   then (waiting st)(Min (dom (waiting st)) := None) else waiting st) in
       st\<lparr>waiting := kept(e \<mapsto> payload), last_no := e\<rparr>)"

text \<open>Playing gives the number, its payload if it came, and the one behind it if it is there; a gap of more than
  a buffer is skipped.  Nothing is played before the start or while nothing waits.\<close>

definition ideal_play :: "nat \<Rightarrow> bool \<Rightarrow> ideal \<Rightarrow> (nat \<times> bytes option \<times> bytes option) option \<times> ideal" where
  "ideal_play n start st =
    (if dom (waiting st) = {} \<or> (due st = None \<and> \<not> start) then (None, st)
     else
       let first = Min (dom (waiting st));
           p = (case due st of None \<Rightarrow> first | Some p \<Rightarrow> p);
           q = (if max n 1 < first - p then first else p) in
       (Some (q, waiting st q, waiting st (q + 1)), st\<lparr>due := Some (q + 1), waiting := (waiting st)(q := None)\<rparr>))"

datatype jitter_event = Arrive nat u32 bytes instant | Play instant

fun ideal_run ::
  "nat \<Rightarrow> (instant \<Rightarrow> bool) \<Rightarrow> ideal \<Rightarrow> jitter_event list \<Rightarrow> (nat \<times> bytes option \<times> bytes option) option list" where
  "ideal_run n start st [] = []"
| "ideal_run n start st (Arrive e ts payload now # es) = ideal_run n start (ideal_arrive n e payload st) es"
| "ideal_run n start st (Play now # es) =
    (let (out, st) = ideal_play n (start now) st in out # ideal_run n start st es)"

text \<open>Every packet is within \<open>2\<^sup>1\<^sup>5\<close> of the last one stored, and one that comes too late is so by less than a
  buffer, with no wrap of the 16 bit number between it and the last.\<close>

fun orderly :: "nat \<Rightarrow> (instant \<Rightarrow> bool) \<Rightarrow> ideal \<Rightarrow> jitter_event list \<Rightarrow> bool" where
  "orderly n start st [] \<longleftrightarrow> True"
| "orderly n start st (Arrive e ts payload now # es) \<longleftrightarrow>
    e < last_no st + 32768 \<and> last_no st < e + 32768 \<and> e < 4294967295 \<and>
    (case due st of None \<Rightarrow> True
     | Some p \<Rightarrow> p \<le> e \<or> (p - e \<le> max n 1 \<and> e div 65536 = last_no st div 65536)) \<and>
    orderly n start (ideal_arrive n e payload st) es"
| "orderly n start st (Play now # es) \<longleftrightarrow> orderly n start (snd (ideal_play n (start now) st)) es"

section \<open>The buffer under the same events\<close>

fun jitter_run ::
  "JitterBuffer \<Rightarrow> jitter_event list \<Rightarrow> ((BufferedPacket \<times> BufferedPacket option) option list \<times> JitterBuffer) option" where
  "jitter_run b [] = Some ([], b)"
| "jitter_run b (Arrive e ts payload now # es) = jitter_run (snd (push_at b (word_of_nat e) ts payload now)) es"
| "jitter_run b (Play now # es) =
    do { (popped, b) \<leftarrow> pop_at b now;
         (outs, b') \<leftarrow> jitter_run b es;
         Some (map_option (\<lambda>p. (p, peek_next b)) popped # outs, b') }"

text \<open>What both show of a packet that is played.\<close>

definition packet_view :: "BufferedPacket \<times> BufferedPacket option \<Rightarrow> u16 \<times> bytes option \<times> bytes option" where
  "packet_view x =
    (case x of (p, nxt) \<Rightarrow> (bp_seq p, if bp_synthesized p then None else Some (bp_payload p), map_option bp_payload nxt))"

definition ideal_view :: "nat \<times> bytes option \<times> bytes option \<Rightarrow> u16 \<times> bytes option \<times> bytes option" where
  "ideal_view x = (case x of (q, payload, nxt) \<Rightarrow> (word_of_nat q, payload, nxt))"

section \<open>The packets\<close>

definition stores :: "(nat \<Rightarrow> bytes option) \<Rightarrow> (u32, BufferedPacket) btree \<Rightarrow> bool" where
  "stores m xs \<longleftrightarrow> bt_inv xs \<and> dom m \<subseteq> {..<4294967295} \<and> bt_keys xs = word_of_nat ` dom m \<and>
    (\<forall>i payload. m i = Some payload \<longrightarrow> (\<exists>p. bt_get xs (word_of_nat i) = Some p \<and> bp_payload p = payload \<and>
      bp_seq p = word_of_nat i \<and> \<not> bp_synthesized p))"

lemma stores_finite: "stores m xs \<Longrightarrow> finite (dom m)"
  unfolding stores_def by (metis finite_lessThan finite_subset)

lemma stores_get_None:
  assumes "stores m xs" "i < 4294967296" "m i = None"
  shows "bt_get xs (word_of_nat i) = None"
proof -
  have "word_of_nat i \<noteq> (word_of_nat j :: u32)" if "j \<in> dom m" for j
  proof -
    have "j < 4294967296" "i \<noteq> j" using that assms(1,3) by (auto simp: stores_def)
    then show ?thesis using assms(2) word_of_nat_eq_iff by blast
  qed
  then show ?thesis using assms(1) unfolding bt_get_None stores_def by blast
qed

lemma stores_get:
  assumes "stores m xs" "i < 4294967296"
  shows "map_option bp_payload (bt_get xs (word_of_nat i)) = m i"
proof (cases "m i")
  case None
  with stores_get_None [OF assms] show ?thesis by simp
next
  case (Some payload)
  with assms(1) show ?thesis by (force simp: stores_def)
qed

lemma stores_inj: "stores m xs \<Longrightarrow> inj_on (word_of_nat :: nat \<Rightarrow> u32) (dom m)"
proof (rule inj_onI)
  fix i j assume m: "stores m xs" and ij: "i \<in> dom m" "j \<in> dom m" "word_of_nat i = (word_of_nat j :: u32)"
  have "i < 4294967296" "j < 4294967296" using m ij(1,2) unfolding stores_def by fastforce+
  then show "i = j" using ij(3) word_of_nat_eq_iff by blast
qed

lemma stores_length: "stores m xs \<Longrightarrow> length xs = card (dom m)"
  using card_image [OF stores_inj] by (simp add: stores_def length_bt)

lemma stores_first:
  assumes "stores m xs"
  shows "bt_first xs = (if dom m = {} then None else Some (word_of_nat (Min (dom m))))"
proof (cases "dom m = {}")
  case True
  then have "xs = []" using stores_length [OF assms] by simp
  with True show ?thesis by (simp add: bt_first_def)
next
  case False
  have f: "finite (dom m)" using assms by (rule stores_finite)
  have "word_of_nat (Min (dom m)) \<le> (word_of_nat i :: u32)" if "i \<in> dom m" for i
  proof -
    have "Min (dom m) \<le> i" "i < 4294967296" using f that assms by (auto simp: stores_def)
    then show ?thesis by (simp add: word_le_nat_alt unat_of_nat_u32)
  qed
  moreover have "Min (dom m) \<in> dom m" using f False by (rule Min_in)
  ultimately show ?thesis using False assms by (auto simp: stores_def bt_first_min)
qed

lemma stores_remove:
  assumes "stores m xs" "i < 4294967296"
  shows "stores (m(i := None)) (bt_remove (word_of_nat i) xs)"
proof -
  have eq: "(word_of_nat j :: u32) = word_of_nat i \<longleftrightarrow> j = i" if "j \<in> dom m" for j
    using that assms by (intro word_of_nat_eq_iff) (auto simp: stores_def)
  then have "word_of_nat ` dom m - {word_of_nat i :: u32} = word_of_nat ` (dom m - {i})" by auto
  moreover have "\<exists>p. bt_get (bt_remove (word_of_nat i) xs) (word_of_nat j) = Some p \<and> bp_payload p = payload \<and>
      bp_seq p = word_of_nat j \<and> \<not> bp_synthesized p" if "(m(i := None)) j = Some payload" for j payload
  proof -
    have j: "j \<noteq> i" "m j = Some payload" using that by (auto split: if_splits)
    then show ?thesis using eq [of j] assms(1) by (auto simp: stores_def bt_get_remove)
  qed
  ultimately show ?thesis using assms(1) by (auto simp: stores_def bt_remove_inv bt_remove_keys)
qed

lemma stores_insert:
  assumes "stores m xs" "e < 4294967295" "bp_payload p = payload" "bp_seq p = word_of_nat e" "\<not> bp_synthesized p"
  shows "stores (m(e \<mapsto> payload)) (bt_insert (word_of_nat e) p xs)"
proof -
  have i: "bt_inv xs" using assms(1) by (simp add: stores_def)
  have "\<exists>q. bt_get (bt_insert (word_of_nat e) p xs) (word_of_nat j) = Some q \<and> bp_payload q = y \<and>
      bp_seq q = word_of_nat j \<and> \<not> bp_synthesized q" if "(m(e \<mapsto> payload)) j = Some y" for j y
  proof (cases "j = e")
    case True
    with that assms show ?thesis by (simp add: bt_get_insert [OF i])
  next
    case False
    then have j: "m j = Some y" using that by simp
    then have "j < 4294967296" using assms(1) by (auto simp: stores_def)
    then have "(word_of_nat j :: u32) \<noteq> word_of_nat e" using False assms(2) by (simp add: word_of_nat_eq_iff)
    with j assms(1) show ?thesis by (auto simp: stores_def bt_get_insert [OF i])
  qed
  then show ?thesis using assms(1,2) by (simp add: stores_def bt_insert_inv bt_insert_keys)
qed

section \<open>The simulation\<close>

definition simulates :: "JitterConfig \<Rightarrow> instant \<Rightarrow> ideal \<Rightarrow> JitterBuffer \<Rightarrow> bool" where
  "simulates cfg t0 st b \<longleftrightarrow> config b = cfg \<and> playout_seq b = map_option word_of_nat (due st) \<and> base_time b = Some t0 \<and>
    base_timestamp b \<noteq> None \<and> last_seq b = Some (word_of_nat (last_no st)) \<and> seq_cycles b = word_of_nat (last_no st div 65536) \<and>
    last_no st < 4294967296 \<and> (due st = None \<longrightarrow> current_delay_ms b = initial_delay (jc_mode cfg)) \<and>
    (\<forall>p. due st = Some p \<longrightarrow> p < 4294967296 \<and> (\<forall>i\<in>dom (waiting st). p \<le> i)) \<and> stores (waiting st) (packets b)"

lemma make_room_stores:
  assumes "stores m (packets b)" "config b = cfg"
  defines "kept \<equiv> if jc_max_packets cfg \<le> card (dom m) \<and> dom m \<noteq> {} then m(Min (dom m) := None) else m"
  shows "stores kept (packets (make_room b))"
proof (cases "jc_max_packets cfg \<le> card (dom m) \<and> dom m \<noteq> {}")
  case True
  have "Min (dom m) \<in> dom m" using True stores_finite [OF assms(1)] by simp
  then have "Min (dom m) < 4294967296" using assms(1) by (auto simp: stores_def)
  from stores_remove [OF assms(1) this] True show ?thesis
    by (simp add: make_room_def kept_def assms(2) stores_length [OF assms(1)] stores_first [OF assms(1)])
next
  case False
  then have "make_room b = b"
    by (auto simp: make_room_def assms(2) stores_length [OF assms(1)] stores_first [OF assms(1)])
  then show ?thesis using False assms(1) unfolding kept_def by presburger
qed

lemma Min_subset_le:
  assumes "finite A" "B \<subseteq> insert e A" "\<forall>i\<in>A. p \<le> i" "p \<le> (e :: nat)"
  shows "\<forall>i\<in>B. p \<le> i"
  using assms by auto

lemma simulates_arrive:
  assumes sim: "simulates cfg t0 st b" and max: "jc_max_packets cfg < 4294967296"
    and e: "e < last_no st + 32768" "last_no st < e + 32768" "e < 4294967295"
    and late: "case due st of None \<Rightarrow> True
      | Some p \<Rightarrow> p \<le> e \<or> (p - e \<le> max (jc_max_packets cfg) 1 \<and> e div 65536 = last_no st div 65536)"
  shows "simulates cfg t0 (ideal_arrive (jc_max_packets cfg) e payload st) (snd (push_at b (word_of_nat e) ts payload now))"
proof -
  let ?b1 = "b\<lparr>jb_stats := (jb_stats b)\<lparr>js_received := js_received (jb_stats b) + 1\<rparr>\<rparr>"
  let ?b2 = "update_jitter_at (?b1\<lparr>seq_cycles := word_of_nat (e div 65536)\<rparr>) ts now"
  have s: "config b = cfg" "playout_seq b = map_option word_of_nat (due st)" "base_timestamp b \<noteq> None" "last_no st < 4294967296"
    "stores (waiting st) (packets b)" "\<And>p. due st = Some p \<Longrightarrow> p < 4294967296 \<and> (\<forall>i\<in>dom (waiting st). p \<le> i)"
    using sim by (simp_all add: simulates_def)
  have ext: "extend_seq ?b1 (word_of_nat e) = (word_of_nat e, ?b1\<lparr>seq_cycles := word_of_nat (e div 65536)\<rparr>)"
    using sim e s(4) by (intro extend_seq_near [where l = "last_no st"]) (simp_all add: simulates_def)
  show ?thesis
  proof (cases "case due st of None \<Rightarrow> False | Some p \<Rightarrow> e < p")
    case True
    then obtain p where p: "due st = Some p" "e < p" by (auto split: option.splits)
    have p32: "p < 4294967296" using s(6) [OF p(1)] by blast
    have l: "p - e \<le> max (jc_max_packets cfg) 1" "e div 65536 = last_no st div 65536" using late p by auto
    have "word_of_nat p - word_of_nat e = (word_of_nat (p - e) :: u32)" using p(2) by (simp add: of_nat_diff)
    then have "unat (word_of_nat p - word_of_nat e :: u32) = p - e" using p32 by (simp only: unat_of_nat_u32 mod_less less_imp_diff_less)
    then have "word_of_nat p - word_of_nat e \<le> discontinuity ?b2" "word_of_nat e < (word_of_nat p :: u32)"
      using l(1) p(2) p32 max by (simp_all add: discontinuity_def s(1) word_le_nat_alt word_less_nat_alt unat_of_nat_u32)
    then have "push_prepare b (word_of_nat e) ts now =
        Inl (?b2\<lparr>jb_stats := (jb_stats ?b2)\<lparr>js_dropped := js_dropped (jb_stats ?b2) + 1\<rparr>\<rparr>)"
      using ext s(2,3) p(1) by (auto simp: push_prepare_def Let_def)
    then show ?thesis using sim p l(2) by (simp add: push_at_def ideal_arrive_def simulates_def)
  next
    case False
    have "push_prepare b (word_of_nat e) ts now = Inr (?b2, word_of_nat e)"
    proof (cases "due st")
      case (Some p)
      then have "\<not> word_of_nat e < (word_of_nat p :: u32)"
        using False s(6) [OF Some] e(3) by (simp add: word_less_nat_alt unat_of_nat_u32)
      with Some ext s(2,3) show ?thesis by (auto simp: push_prepare_def Let_def)
    qed (use ext s(2,3) in \<open>auto simp: push_prepare_def Let_def\<close>)
    then have p: "snd (push_at b (word_of_nat e) ts payload now) =
        (make_room ?b2)\<lparr>packets := bt_insert (word_of_nat e) (buffered (e, ts, payload, now)) (packets (make_room ?b2)),
          last_seq := Some (word_of_nat e)\<rparr>"
      by (simp add: push_at_def Let_def buffered_def)
    let ?kept = "if jc_max_packets cfg \<le> card (dom (waiting st)) \<and> dom (waiting st) \<noteq> {}
      then (waiting st)(Min (dom (waiting st)) := None) else waiting st"
    have "stores (waiting st) (packets ?b2)" "config ?b2 = cfg" using s(1,5) by simp_all
    from make_room_stores [OF this] have "stores (?kept(e \<mapsto> payload))
        (bt_insert (word_of_nat e) (buffered (e, ts, payload, now)) (packets (make_room ?b2)))"
      using e(3) by (intro stores_insert) (simp_all add: buffered_def)
    moreover have "\<forall>p. due st = Some p \<longrightarrow> (\<forall>i\<in>dom (?kept(e \<mapsto> payload)). p \<le> i)"
      using False s(6) by (auto split: if_splits)
    ultimately show ?thesis
      using sim False e(3) unfolding p by (simp add: ideal_arrive_def simulates_def Let_def)
  qed
qed

lemma simulates_play:
  fixes t0 now :: instant
  assumes sim: "simulates cfg t0 st b" and max: "jc_max_packets cfg < 4294967296" and ok: "mode_ok (jc_mode cfg)"
  defines "start \<equiv> unat (initial_delay (jc_mode cfg)) * 1000000 \<le> now - t0"
  shows "\<exists>popped b'. pop_at b now = Some (popped, b') \<and>
    simulates cfg t0 (snd (ideal_play (jc_max_packets cfg) start st)) b' \<and>
    map_option (\<lambda>p. packet_view (p, peek_next b')) popped = map_option ideal_view (fst (ideal_play (jc_max_packets cfg) start st))"
proof -
  have s: "config b = cfg" "playout_seq b = map_option word_of_nat (due st)" "base_time b = Some t0"
    "due st = None \<Longrightarrow> current_delay_ms b = initial_delay (jc_mode cfg)" "stores (waiting st) (packets b)"
    "\<And>p. due st = Some p \<Longrightarrow> p < 4294967296 \<and> (\<forall>i\<in>dom (waiting st). p \<le> i)"
    using sim by (simp_all add: simulates_def)
  let ?m = "waiting st"
  have fin: "finite (dom ?m)" using s(5) by (rule stores_finite)
  have empty: "packets b = [] \<longleftrightarrow> dom ?m = {}"
    using stores_length [OF s(5)] fin by (metis card_0_eq length_0_conv)
  show ?thesis
  proof (cases "dom ?m = {} \<or> (due st = None \<and> \<not> start)")
    case True
    have "pop_at b now = Some (None, b)"
    proof (cases "due st")
      case None
      then have "\<not> should_start_playout b now" using True empty s(3,4) by (auto simp: should_start_playout_def start_def)
      with None s(2) show ?thesis by (simp add: pop_at_def pop_start_def)
    next
      case (Some p)
      with True have "packets b = []" using empty by simp
      then have "pop_target b (word_of_nat p) = None" by (simp add: pop_target_def bt_from_def bt_first_def)
      with Some s(2) show ?thesis by (simp add: pop_at_def pop_start_def)
    qed
    with True sim show ?thesis by (simp add: ideal_play_def)
  next
    case False
    define first where "first = Min (dom ?m)"
    define p where "p = (case due st of None \<Rightarrow> first | Some p \<Rightarrow> p)"
    define q where "q = (if max (jc_max_packets cfg) 1 < first - p then first else p)"
    have fm: "first \<in> dom ?m" "\<forall>i\<in>dom ?m. first \<le> i" using False fin by (simp_all add: first_def)
    have f32: "first < 4294967295" using fm(1) s(5) by (auto simp: stores_def)
    have pf: "p \<le> first" using s(6) fm(1) by (auto simp: p_def split: option.split)
    then have q: "p \<le> q" "q \<le> first" by (auto simp: q_def)
    obtain b1 where b1: "pop_start b now = Some (word_of_nat p, b1)" "packets b1 = packets b" "config b1 = cfg"
      "base_time b1 = Some t0" "base_timestamp b1 = base_timestamp b" "last_seq b1 = last_seq b" "seq_cycles b1 = seq_cycles b"
      using False empty s(1-5) stores_first [OF s(5)]
      by (cases "due st") (auto simp: pop_start_def p_def first_def should_start_playout_def start_def)
    have st1: "stores ?m (packets b1)" using s(5) b1(2) by simp
    have tgt: "pop_target b1 (word_of_nat p) = Some (word_of_nat q)"
    proof (cases "?m p")
      case (Some y)
      then have "first = p" using pf fm(2) by (meson domI le_antisym)
      then have "q = p" by (simp add: q_def)
      moreover have "bt_get (packets b1) (word_of_nat p) \<noteq> None" using Some st1 unfolding stores_def by blast
      ultimately show ?thesis by (simp add: pop_target_def)
    next
      case None
      have "bt_get (packets b1) (word_of_nat p) = None" using stores_get_None [OF st1 _ None] pf f32 by simp
      moreover have "bt_from (packets b1) (word_of_nat p) = Some (word_of_nat first)"
      proof -
        have i: "bt_inv (packets b1)" "bt_keys (packets b1) = word_of_nat ` dom ?m" using st1 by (simp_all add: stores_def)
        have le: "word_of_nat k \<le> (word_of_nat i :: u32)" if "k \<le> first" "i \<in> dom ?m" for k i
        proof -
          have "k \<le> i" "i < 4294967296" using that fm(2) st1 by (auto simp: stores_def intro: order_trans)
          then show ?thesis by (simp add: word_le_nat_alt unat_of_nat_u32)
        qed
        show ?thesis unfolding bt_from_Some [OF i(1)] i(2) using fm(1) le pf by auto
      qed
      moreover have "word_of_nat first - word_of_nat p > discontinuity b1 \<longleftrightarrow> max (jc_max_packets cfg) 1 < first - p"
      proof -
        have "word_of_nat first - word_of_nat p = (word_of_nat (first - p) :: u32)" using pf by (simp add: of_nat_diff)
        then show ?thesis using f32 max by (simp add: discontinuity_def b1(3) word_less_nat_alt unat_of_nat_u32)
      qed
      ultimately show ?thesis by (simp add: pop_target_def q_def)
    qed
    have q32: "q < 4294967295" using q(2) f32 by simp
    define b2 where "b2 = snd (pop_play b1 (word_of_nat q) now)"
    define pkt where "pkt = fst (pop_play b1 (word_of_nat q) now)"
    have b2: "config b2 = cfg" "packets b2 = bt_remove (word_of_nat q) (packets b)" "playout_seq b2 = Some (word_of_nat (q + 1))"
      "base_time b2 = Some t0" "base_timestamp b2 = base_timestamp b" "last_seq b2 = last_seq b" "seq_cycles b2 = seq_cycles b"
      using b1 by (simp_all add: b2_def pop_play_fields add.commute) (auto simp: pop_play_def Let_def split: option.split)
    obtain b3 where b3: "adapt_delay b2 = Some b3" using adapt_delay_some [of b2] ok b2(1) by auto
    have eq: "b3 = b2\<lparr>current_delay_ms := current_delay_ms b3\<rparr>" using adapt_delay_spec [OF b3] by blast
    have pop: "pop_at b now = Some (Some pkt, b3)"
      using b1(1) tgt b3 by (simp add: pop_at_def Let_def case_prod_unfold b2_def pkt_def)
    have play: "ideal_play (jc_max_packets cfg) start st =
        (Some (q, ?m q, ?m (q + 1)), st\<lparr>due := Some (q + 1), waiting := ?m(q := None)\<rparr>)"
    proof -
      have "(dom ?m = {} \<or> (due st = None \<and> \<not> start)) = False" using False by simp
      then show ?thesis unfolding ideal_play_def Let_def first_def [symmetric] p_def [symmetric] q_def [symmetric] by (simp only: if_False)
    qed
    have st3: "stores (?m(q := None)) (packets b2)" using stores_remove [OF s(5), of q] q32 b2(2) by simp
    have "simulates cfg t0 (st\<lparr>due := Some (q + 1), waiting := ?m(q := None)\<rparr>) b3"
    proof -
      have "\<forall>i\<in>dom (?m(q := None)). q + 1 \<le> i"
        using fm(2) q(2) by (auto simp: Suc_le_eq) (metis domI le_neq_implies_less order_trans)
      then show ?thesis using sim b2 st3 q32 by (subst eq) (simp add: simulates_def)
    qed
    moreover have "packet_view (pkt, peek_next b3) = (word_of_nat q, ?m q, ?m (q + 1))"
    proof -
      have "map_option bp_payload (bt_get (packets b2) (word_of_nat (q + 1))) = ?m (q + 1)"
        using stores_get [OF st3, of "q + 1"] q32 by simp
      then have nxt: "map_option bp_payload (peek_next b3) = ?m (q + 1)"
        by (subst eq) (simp add: peek_next_def b2(3))
      have "bp_seq pkt = word_of_nat q \<and> (if bp_synthesized pkt then None else Some (bp_payload pkt)) = ?m q"
      proof (cases "?m q")
        case None
        have "(word_of_nat q AND 0xFFFF :: u32) = take_bit 16 (word_of_nat q)" by (simp add: take_bit_eq_mask mask_eq_exp_minus_1)
        moreover have "ucast (take_bit 16 w :: u32) = (ucast w :: u16)" for w by (rule bit_word_eqI) (auto simp: bit_simps)
        moreover have "ucast (word_of_nat q :: u32) = (word_of_nat q :: u16)"
          using q32 by (simp add: word_unat_eq_iff unat_ucast_mod unat_of_nat_u16 unat_of_nat_u32)
        ultimately have "ucast (word_of_nat q AND 0xFFFF :: u32) = (word_of_nat q :: u16)" by simp
        with None stores_get_None [OF st1 _ None] q32 show ?thesis by (simp add: pkt_def pop_play_packet)
      next
        case (Some y)
        then obtain z where "bt_get (packets b1) (word_of_nat q) = Some z" "bp_payload z = y" "bp_seq z = word_of_nat q"
          "\<not> bp_synthesized z" using st1 unfolding stores_def by blast
        with Some show ?thesis by (simp add: pkt_def pop_play_packet)
      qed
      with nxt show ?thesis by (simp add: packet_view_def)
    qed
    ultimately show ?thesis using pop play by (simp add: ideal_view_def)
  qed
qed

lemma simulates_run:
  fixes t0 :: instant
  assumes "jc_max_packets cfg < 4294967296" "mode_ok (jc_mode cfg)"
  defines "start \<equiv> \<lambda>now. unat (initial_delay (jc_mode cfg)) * 1000000 \<le> now - t0"
  shows "simulates cfg t0 st b \<Longrightarrow> orderly (jc_max_packets cfg) start st es \<Longrightarrow>
    \<exists>outs b'. jitter_run b es = Some (outs, b') \<and>
      map (map_option packet_view) outs = map (map_option ideal_view) (ideal_run (jc_max_packets cfg) start st es)"
proof (induction es arbitrary: st b)
  case (Cons x es)
  show ?case
  proof (cases x)
    case (Arrive e ts payload now)
    have "simulates cfg t0 (ideal_arrive (jc_max_packets cfg) e payload st) (snd (push_at b (word_of_nat e) ts payload now))"
      using Cons.prems(2) Arrive by (intro simulates_arrive [OF Cons.prems(1) assms(1)]) simp_all
    from Cons.IH [OF this] Cons.prems(2) Arrive show ?thesis by simp
  next
    case (Play now)
    obtain popped b1 where p: "pop_at b now = Some (popped, b1)"
      "simulates cfg t0 (snd (ideal_play (jc_max_packets cfg) (start now) st)) b1"
      "map_option (\<lambda>p. packet_view (p, peek_next b1)) popped = map_option ideal_view (fst (ideal_play (jc_max_packets cfg) (start now) st))"
      using simulates_play [OF Cons.prems(1) assms(1,2), of now] unfolding start_def by blast
    from Cons.IH [OF p(2)] Cons.prems(2) Play obtain outs b' where
      "jitter_run b1 es = Some (outs, b')"
      "map (map_option packet_view) outs =
        map (map_option ideal_view) (ideal_run (jc_max_packets cfg) start (snd (ideal_play (jc_max_packets cfg) (start now) st)) es)"
      by auto
    with p(1,3) Play show ?thesis by (simp add: option.map_comp comp_def case_prod_unfold Let_def)
  qed
qed simp

text \<open>The first packet.\<close>

definition ideal_first :: "nat \<Rightarrow> bytes \<Rightarrow> ideal" where
  "ideal_first e payload = \<lparr>due = None, waiting = [e \<mapsto> payload], last_no = e\<rparr>"

lemma simulates_first:
  assumes "e < 65536"
  shows "simulates cfg now (ideal_first e payload) (snd (push_at (JitterBuffer_new cfg) (word_of_nat e) ts payload now))"
proof -
  let ?b0 = "JitterBuffer_new cfg"
  let ?b1 = "?b0\<lparr>jb_stats := (jb_stats ?b0)\<lparr>js_received := js_received (jb_stats ?b0) + 1\<rparr>,
    base_timestamp := Some ts, base_time := Some now, last_seq := Some (word_of_nat e)\<rparr>"
  let ?b2 = "update_jitter_at (?b1\<lparr>seq_cycles := word_of_nat (e div 65536)\<rparr>) ts now"
  have ext: "extend_seq ?b1 (word_of_nat e) = (word_of_nat e, ?b1\<lparr>seq_cycles := word_of_nat (e div 65536)\<rparr>)"
    using assms(1) by (intro extend_seq_near [where l = e]) (simp_all add: JitterBuffer_new_def)
  have prep: "push_prepare ?b0 (word_of_nat e) ts now = Inr (?b2, word_of_nat e)"
    using ext by (simp add: push_prepare_def Let_def JitterBuffer_new_def)
  have "make_room ?b2 = ?b2" by (simp add: make_room_def bt_first_def JitterBuffer_new_def)
  with prep have p: "snd (push_at ?b0 (word_of_nat e) ts payload now) =
      ?b2\<lparr>packets := [(word_of_nat e, buffered (e, ts, payload, now))], last_seq := Some (word_of_nat e)\<rparr>"
    by (simp add: push_at_def Let_def buffered_def) (simp add: JitterBuffer_new_def)
  have "stores [e \<mapsto> payload] [(word_of_nat e, buffered (e, ts, payload, now))]"
    using assms by (simp add: stores_def bt_inv_def bt_keys_def bt_get_def buffered_def)
  then show ?thesis
    unfolding p using assms by (simp add: simulates_def ideal_first_def JitterBuffer_new_def)
qed

section \<open>Property\<close>

text \<open>C11: the jitter buffer refines a playout clock, on every orderly sequence of arrivals and ticks.  A stream of any
  length up to \<open>2\<^sup>3\<^sup>2\<close> packets, with losses, reordering, duplicates, overflow of the buffer and skipped gaps:
  from the first packet on, which sets the base for the initial delay, every tick returns what the abstract
  buffer returns, the number modulo \<open>2\<^sup>1\<^sup>6\<close>, the payload or a synthesized packet where none came, and the
  next payload for concealment.  Orderly means that each packet is within \<open>2\<^sup>1\<^sup>5\<close> of the last one stored, and that
  one which comes too late to be played is so by at most a buffer, with no wrap of the 16 bit number between it
  and the last one stored: a late packet from before a wrap does make the buffer start over.\<close>

theorem jitter_refines:
  assumes "jc_max_packets cfg < 4294967296" "mode_ok (jc_mode cfg)" "e < 65536"
    and "orderly (jc_max_packets cfg) (\<lambda>now. unat (initial_delay (jc_mode cfg)) * 1000000 \<le> now - t0) (ideal_first e payload) es"
  shows "\<exists>outs b. jitter_run (snd (push_at (JitterBuffer_new cfg) (word_of_nat e) ts payload t0)) es = Some (outs, b) \<and>
    map (map_option packet_view) outs = map (map_option ideal_view)
      (ideal_run (jc_max_packets cfg) (\<lambda>now. unat (initial_delay (jc_mode cfg)) * 1000000 \<le> now - t0) (ideal_first e payload) es)"
  by (rule simulates_run [OF assms(1,2) simulates_first [OF assms(3)] assms(4)])

text \<open>Around a wrap: 65537 comes after 65538, 65536 too late, and nothing is left in the end.\<close>

abbreviation demo_happenings :: "jitter_event list" where
  "demo_happenings \<equiv> [Arrive 65535 160 [1] 5, Arrive 65538 640 [4] 6, Arrive 65537 480 [3] 7, Play 40000000, Play 60000000,
    Play 80000000, Arrive 65536 320 [2] 81000000, Play 100000000, Play 120000000, Play 140000000]"

theorem jitter_refines_witness:
  "\<exists>outs b. jitter_run (snd (push_at (JitterBuffer_new \<lparr>jc_mode = Fixed 40, jc_clock_rate = 8000, jc_max_packets = 50\<rparr>) 65534 0 [0] 0))
      demo_happenings = Some (outs, b) \<and>
    map (map_option packet_view) outs =
      [Some (65534, Some [0], Some [1]), Some (65535, Some [1], None), Some (0, None, Some [3]),
       Some (1, Some [3], Some [4]), Some (2, Some [4], None), None]"
proof -
  let ?cfg = "\<lparr>jc_mode = Fixed 40, jc_clock_rate = 8000, jc_max_packets = 50\<rparr>"
  let ?start = "\<lambda>now. unat (initial_delay (jc_mode ?cfg)) * 1000000 \<le> now - 0"
  have ok: "jc_max_packets ?cfg < 4294967296" "mode_ok (jc_mode ?cfg)" "65534 < (65536 :: nat)"
    "orderly (jc_max_packets ?cfg) ?start (ideal_first 65534 [0]) demo_happenings"
    by (simp_all add: mode_ok_def initial_delay_def ideal_first_def ideal_arrive_def ideal_play_def Let_def)
  have "ideal_run (jc_max_packets ?cfg) ?start (ideal_first 65534 [0]) demo_happenings =
    [Some (65534, Some [0], Some [1]), Some (65535, Some [1], None), Some (65536, None, Some [3]),
     Some (65537, Some [3], Some [4]), Some (65538, Some [4], None), None]"
    by (simp add: initial_delay_def ideal_first_def ideal_arrive_def ideal_play_def Let_def)
  with jitter_refines [OF ok, of 0] have
    "\<exists>outs b. jitter_run (snd (push_at (JitterBuffer_new ?cfg) 65534 0 [0] 0)) demo_happenings = Some (outs, b) \<and>
      map (map_option packet_view) outs =
        [Some (65534, Some [0], Some [1]), Some (65535, Some [1], None), Some (65536, None, Some [3]),
         Some (65537, Some [3], Some [4]), Some (65538, Some [4], None), None]"
    by (simp add: ideal_view_def del: jitter_run.simps ideal_run.simps)
  moreover have "65536 = (0 :: u16)" "65537 = (1 :: u16)" "65538 = (2 :: u16)" by simp_all
  ultimately show ?thesis by (simp only:)
qed

end
