(* ===== verification/Frame_Accumulator.thy ===== *)
theory Frame_Accumulator
  imports Frame_Buffers Ieee_Float
begin

text \<open>
  Ten-millisecond frames for the audio processor: \<^verbatim>\<open>src/src/audio_proc/frame.rs\<close>.  The function that
  works on each frame in place is an argument, with its state; samples are \<^verbatim>\<open>f32\<close> values, which
  are only moved around here.
\<close>

type_synonym f32 = fp

definition FRAME_MS :: nat where "FRAME_MS = 10"

definition frame_len :: "u32 \<Rightarrow> nat" where
  "frame_len rate_hz = unat rate_hz * FRAME_MS div 1000"

record FrameAccumulator =
  fa_frame_len :: nat
  fa_pending :: "f32 list"

definition FrameAccumulator_new :: "u32 \<Rightarrow> FrameAccumulator option" where
  "FrameAccumulator_new rate_hz =
    (if rate_hz = 8000 \<or> rate_hz = 16000 \<or> rate_hz = 32000 \<or> rate_hz = 48000
     then Some \<lparr>fa_frame_len = frame_len rate_hz, fa_pending = []\<rparr>
     else None)"

definition pending_len :: "FrameAccumulator \<Rightarrow> nat" where
  "pending_len acc = length (fa_pending acc)"

text \<open>\<^verbatim>\<open>push\<close>: what is appended to the output, the state of \<open>on_frame\<close> and the accumulator after it.\<close>

definition accumulator_push ::
  "('s \<Rightarrow> f32 list \<Rightarrow> f32 list \<times> 's) \<Rightarrow> FrameAccumulator \<times> 's \<Rightarrow> f32 list \<Rightarrow>
   (f32 list \<times> FrameAccumulator \<times> 's) option" where
  "accumulator_push on_frame st input =
    (case st of (acc, s) \<Rightarrow>
      do { (out, s, pending) \<leftarrow> drain (fa_frame_len acc) (\<lambda>s x. Some (on_frame s x)) s (fa_pending acc @ input);
           Some (out, acc\<lparr>fa_pending := pending\<rparr>, s) })"

definition accumulator_reset :: "FrameAccumulator \<Rightarrow> FrameAccumulator" where
  "accumulator_reset acc = acc\<lparr>fa_pending := []\<rparr>"

section \<open>The buffers do not matter\<close>

definition acc_settled :: "FrameAccumulator \<times> 's \<Rightarrow> bool" where
  "acc_settled st \<longleftrightarrow> length (fa_pending (fst st)) < fa_frame_len (fst st)"

interpretation accumulator: buffering "accumulator_push on_frame" acc_settled
  for on_frame :: "'s \<Rightarrow> f32 list \<Rightarrow> f32 list \<times> 's"
proof
  fix st :: "FrameAccumulator \<times> 's" and xs ys out st'
  obtain acc s where st: "st = (acc, s)" by fastforce
  assume settled: "acc_settled st"
  then have n: "0 < fa_frame_len acc" by (simp add: acc_settled_def st)
  show "acc_settled st'" if "accumulator_push on_frame st xs = Some (out, st')"
    using that by (auto simp: accumulator_push_def st acc_settled_def drain_rest split: Option.bind_splits)
  show "accumulator_push on_frame st [] = Some ([], st)"
    using settled by (simp add: accumulator_push_def st acc_settled_def drain.simps [of "fa_frame_len acc"])
  show "accumulator_push on_frame st (xs @ ys) =
      do { (out, st) \<leftarrow> accumulator_push on_frame st xs;
           (out', st) \<leftarrow> accumulator_push on_frame st ys;
           Some (out @ out', st) }"
    using drain_append [OF n, of "\<lambda>s x. Some (on_frame s x)" s "fa_pending acc @ xs" ys]
    by (auto simp: accumulator_push_def st split: Option.bind_splits)
qed

section \<open>Properties\<close>

text \<open>C26: frames come out whole, whatever the buffers.  A new accumulator for one of the four rates cuts
  the stream into frames of 10 ms; however the stream is spread over the buffers, what comes
  out is every whole frame of it, in order, as \<open>on_frame\<close> leaves it (its state carried from frame to
  frame), and what is held back is the rest, less than a frame.\<close>

theorem accumulator_frames:
  fixes on_frame :: "'s \<Rightarrow> f32 list \<Rightarrow> f32 list \<times> 's"
  assumes "FrameAccumulator_new rate_hz = Some acc"
  shows "\<exists>outs acc' s'. code_packets (accumulator_push on_frame) (acc, s) buffers = Some (outs, acc', s') \<and>
    fold_units (\<lambda>s x. Some (on_frame s x)) s (frames_of (fa_frame_len acc) (concat buffers)) = Some (concat outs, s') \<and>
    fa_pending acc' = drop (length (concat buffers) div fa_frame_len acc * fa_frame_len acc) (concat buffers) \<and>
    pending_len acc' = length (concat buffers) mod fa_frame_len acc \<and>
    list_all (\<lambda>x. length x = fa_frame_len acc) (frames_of (fa_frame_len acc) (concat buffers)) \<and>
    100 * fa_frame_len acc = unat rate_hz"
proof -
  have acc: "fa_pending acc = []" "100 * fa_frame_len acc = unat rate_hz" and n: "0 < fa_frame_len acc"
    using assms by (auto simp: FrameAccumulator_new_def frame_len_def FRAME_MS_def split: if_splits)
  obtain out s' where f: "fold_units (\<lambda>s x. Some (on_frame s x)) s (frames_of (fa_frame_len acc) (concat buffers)) = Some (out, s')"
    using fold_units_total [of "frames_of (fa_frame_len acc) (concat buffers)" "\<lambda>s x. Some (on_frame s x)" s] by auto
  let ?acc = "acc\<lparr>fa_pending := drop (length (concat buffers) div fa_frame_len acc * fa_frame_len acc) (concat buffers)\<rparr>"
  have "accumulator_push on_frame (acc, s) (concat buffers) = Some (out, ?acc, s')"
    using f by (simp add: accumulator_push_def acc(1) drain_frames [OF n])
  moreover have "acc_settled (acc, s)" using n acc(1) by (simp add: acc_settled_def)
  ultimately obtain outs where "code_packets (accumulator_push on_frame) (acc, s) buffers = Some (outs, ?acc, s')"
    "concat outs = out"
    using accumulator.push_buffers [of "(acc, s)" on_frame buffers] by auto
  moreover have "list_all (\<lambda>x. length x = fa_frame_len acc) (frames_of (fa_frame_len acc) (concat buffers))"
    using frames_of_spec [OF n] by (auto simp: list_all_iff)
  ultimately show ?thesis
    using f acc(2) by (intro exI [of _ outs] exI [of _ ?acc] exI [of _ s'])
      (simp add: pending_len_def minus_div_mult_eq_mod)
qed

theorem accumulator_frames_witness:
  "\<exists>outs acc' s'. code_packets (accumulator_push (\<lambda>k x. (map fp_neg x, Suc k)))
      (\<lparr>fa_frame_len = 80, fa_pending = []\<rparr>, 0) [replicate 50 (Fin 1), replicate 60 (Fin 2), replicate 60 (Fin 3)] =
      Some (outs, acc', s') \<and> pending_len acc' = 10 \<and>
    fold_units (\<lambda>k x. Some (map fp_neg x, Suc k)) 0
      (frames_of 80 (replicate 50 (Fin 1) @ replicate 60 (Fin 2) @ replicate 60 (Fin 3))) = Some (concat outs, s')"
proof -
  have "FrameAccumulator_new 8000 = Some \<lparr>fa_frame_len = 80, fa_pending = []\<rparr>"
    by (simp add: FrameAccumulator_new_def frame_len_def FRAME_MS_def)
  from accumulator_frames [OF this, of "\<lambda>k x. (map fp_neg x, Suc k)" 0
      "[replicate 50 (Fin 1), replicate 60 (Fin 2), replicate 60 (Fin 3)]"]
  show ?thesis by auto
qed

end
