(* ===== verification/Resample.thy ===== *)
theory Resample
  imports Frame_Buffers Samples
begin

text \<open>
  Resampling: \<^verbatim>\<open>src/src/resample.rs\<close>.  The interpolation of full chunks is done by the library
  rubato, which is an argument: \<open>rubato\<close> gets its state, a chunk and the size of the output buffer and
  gives an error or the buffer with the number of samples it wrote, and its state.  The linear
  interpolation used otherwise is modelled in the floating point of the source.  \<open>None\<close> is a
  panic (an impossible allocation) or, in the streaming resampler, a loop that does not end.
\<close>

section \<open>Linear interpolation\<close>

definition fp_cast :: "fp_format \<Rightarrow> fp \<Rightarrow> fp" where
  "fp_cast F x = (case x of Fin r \<Rightarrow> fp_round F r | y \<Rightarrow> y)"

definition fp_ceil :: "fp \<Rightarrow> fp" where
  "fp_ceil x = (case x of Fin r \<Rightarrow> Fin (of_int \<lceil>r\<rceil>) | y \<Rightarrow> y)"

definition as_usize :: "fp \<Rightarrow> nat" where
  "as_usize x = nat (fp_to_int 0 (2 ^ 64 - 1) x)"

definition f64_of_nat :: "nat \<Rightarrow> fp" where
  "f64_of_nat n = fp_of_int F64 (int n)"

definition get_nth :: "'a list \<Rightarrow> nat \<Rightarrow> 'a option" where
  "get_nth xs i = (if i < length xs then Some (xs ! i) else None)"

definition unwrap_or :: "'a option \<Rightarrow> 'a \<Rightarrow> 'a" where
  "unwrap_or x d = (case x of None \<Rightarrow> d | Some y \<Rightarrow> y)"

definition linear_sample :: "fp list \<Rightarrow> fp \<Rightarrow> nat \<Rightarrow> fp" where
  "linear_sample input ratio i =
    (let src_idx_f = fp_mul F64 (f64_of_nat i) ratio;
         src_idx = as_usize src_idx_f;
         frac = fp_sub F64 src_idx_f (f64_of_nat src_idx);
         s0 = unwrap_or (get_nth input src_idx) (Fin 0);
         s1 = unwrap_or (get_nth input (src_idx + 1)) s0 in
     fp_cast F32 (fp_add F64 s0 (fp_mul F64 frac (fp_sub F64 s1 s0))))"

definition resample_linear_simple :: "fp list \<Rightarrow> u32 \<Rightarrow> u32 \<Rightarrow> fp list option" where
  "resample_linear_simple input from_rate to_rate =
    (if from_rate = to_rate \<or> input = [] then Some input
     else
      let ratio = fp_div F64 (f64_of_nat (unat from_rate)) (f64_of_nat (unat to_rate));
          output_len = as_usize (fp_ceil (fp_div F64 (f64_of_nat (length input)) ratio)) in
      if 4 * output_len > 2 ^ 63 - 1 then None
      else Some (map (linear_sample input ratio) [0..<output_len]))"

section \<open>Whole buffers\<close>

definition rate_ratio :: "u32 \<Rightarrow> u32 \<Rightarrow> fp" where
  "rate_ratio from_rate to_rate = fp_div F64 (f64_of_nat (unat to_rate)) (f64_of_nat (unat from_rate))"

definition expected_output_len :: "nat \<Rightarrow> u32 \<Rightarrow> u32 \<Rightarrow> nat" where
  "expected_output_len len from_rate to_rate =
    as_usize (fp_ceil (fp_mul F64 (f64_of_nat len) (rate_ratio from_rate to_rate)))"

definition resample_with_rubato ::
  "(fp \<Rightarrow> fp list \<Rightarrow> nat \<Rightarrow> string + (fp list \<times> nat)) \<Rightarrow> fp list \<Rightarrow> u32 \<Rightarrow> u32 \<Rightarrow> string + fp list" where
  "resample_with_rubato process_all input from_rate to_rate =
    (let buffer_len = expected_output_len (length input) from_rate to_rate * 2 + 1024 in
     case process_all (rate_ratio from_rate to_rate) input buffer_len of
       Inl e \<Rightarrow> Inl e
     | Inr (output, frames_written) \<Rightarrow> Inr (take frames_written output))"

definition resample_linear ::
  "(fp \<Rightarrow> fp list \<Rightarrow> nat \<Rightarrow> string + (fp list \<times> nat)) \<Rightarrow> fp list \<Rightarrow> u32 \<Rightarrow> u32 \<Rightarrow> fp list option" where
  "resample_linear process_all input from_rate to_rate =
    (if from_rate = to_rate \<or> input = [] then Some input
     else if length input < 64 then resample_linear_simple input from_rate to_rate
     else case resample_with_rubato process_all input from_rate to_rate of
       Inr output \<Rightarrow> Some output
     | Inl _ \<Rightarrow> resample_linear_simple input from_rate to_rate)"

definition resample_linear_i16 ::
  "(fp \<Rightarrow> fp list \<Rightarrow> nat \<Rightarrow> string + (fp list \<times> nat)) \<Rightarrow> pcm \<Rightarrow> u32 \<Rightarrow> u32 \<Rightarrow> pcm option" where
  "resample_linear_i16 process_all input from_rate to_rate =
    (if from_rate = to_rate \<or> input = [] then Some input
     else map_option f32_to_i16 (resample_linear process_all (i16_to_f32 input) from_rate to_rate))"

section \<open>Streams\<close>

record 'r StreamResampler =
  sr_resampler :: 'r
  sr_from_rate :: u32
  sr_to_rate :: u32
  sr_chunk_size :: nat
  sr_remainder :: "fp list"

definition StreamResampler_new :: "(fp \<Rightarrow> nat \<Rightarrow> 'r option) \<Rightarrow> u32 \<Rightarrow> u32 \<Rightarrow> nat \<Rightarrow> 'r StreamResampler option" where
  "StreamResampler_new new_poly from_rate to_rate chunk_size =
    map_option (\<lambda>r. \<lparr>sr_resampler = r, sr_from_rate = from_rate, sr_to_rate = to_rate,
        sr_chunk_size = chunk_size, sr_remainder = []\<rparr>)
      (new_poly (rate_ratio from_rate to_rate) chunk_size)"

definition process_chunk ::
  "('r \<Rightarrow> fp list \<Rightarrow> nat \<Rightarrow> (string + (fp list \<times> nat)) \<times> 'r) \<Rightarrow> u32 \<Rightarrow> u32 \<Rightarrow> 'r \<Rightarrow> fp list \<Rightarrow> (string + fp list) \<times> 'r" where
  "process_chunk rubato from_rate to_rate r chunk =
    (let buffer_len = expected_output_len (length chunk) from_rate to_rate + 64 in
     case rubato r chunk buffer_len of
       (Inl e, r) \<Rightarrow> (Inl e, r)
     | (Inr (output, frames_written), r) \<Rightarrow> (Inr (take frames_written output), r))"

text \<open>One turn of the loop of \<^verbatim>\<open>process\<close>.\<close>

definition resample_chunk ::
  "('r \<Rightarrow> fp list \<Rightarrow> nat \<Rightarrow> (string + (fp list \<times> nat)) \<times> 'r) \<Rightarrow> u32 \<Rightarrow> u32 \<Rightarrow> 'r \<Rightarrow> fp list \<Rightarrow> (fp list \<times> 'r) option" where
  "resample_chunk rubato from_rate to_rate r chunk =
    (case process_chunk rubato from_rate to_rate r chunk of
       (Inr resampled, r) \<Rightarrow> Some (resampled, r)
     | (Inl _, r) \<Rightarrow> map_option (\<lambda>out. (out, r)) (resample_linear_simple chunk from_rate to_rate))"

definition resampler_process ::
  "('r \<Rightarrow> fp list \<Rightarrow> nat \<Rightarrow> (string + (fp list \<times> nat)) \<times> 'r) \<Rightarrow> 'r StreamResampler \<Rightarrow> fp list \<Rightarrow>
   (fp list \<times> 'r StreamResampler) option" where
  "resampler_process rubato res input =
    (if sr_from_rate res = sr_to_rate res \<or> input = [] then Some (input, res)
     else do { (output, r, remainder) \<leftarrow> drain (sr_chunk_size res)
                 (resample_chunk rubato (sr_from_rate res) (sr_to_rate res)) (sr_resampler res) (sr_remainder res @ input);
               Some (output, res\<lparr>sr_resampler := r, sr_remainder := remainder\<rparr>) })"

definition resampler_flush :: "'r StreamResampler \<Rightarrow> (fp list \<times> 'r StreamResampler) option" where
  "resampler_flush res =
    (if sr_remainder res = [] then Some ([], res)
     else map_option (\<lambda>out. (out, res\<lparr>sr_remainder := []\<rparr>))
       (resample_linear_simple (sr_remainder res) (sr_from_rate res) (sr_to_rate res)))"

section \<open>The buffers do not matter\<close>

definition res_settled :: "'r StreamResampler \<Rightarrow> bool" where
  "res_settled res \<longleftrightarrow> sr_from_rate res = sr_to_rate res \<or> length (sr_remainder res) < sr_chunk_size res"

lemma drain_short: "length xs < n \<Longrightarrow> drain n f s xs = Some ([], s, xs)"
  by (subst drain.simps) simp

interpretation resampler: buffering "resampler_process rubato" res_settled
  for rubato :: "'r \<Rightarrow> fp list \<Rightarrow> nat \<Rightarrow> (string + (fp list \<times> nat)) \<times> 'r"
proof
  fix res :: "'r StreamResampler" and xs ys out res'
  assume settled: "res_settled res"
  show "res_settled res'" if "resampler_process rubato res xs = Some (out, res')"
    using that settled
    by (auto simp: resampler_process_def res_settled_def drain_rest split: if_splits Option.bind_splits)
  show "resampler_process rubato res [] = Some ([], res)" by (simp add: resampler_process_def)
  show "resampler_process rubato res (xs @ ys) =
      do { (out, res) \<leftarrow> resampler_process rubato res xs;
           (out', res) \<leftarrow> resampler_process rubato res ys;
           Some (out @ out', res) }"
  proof (cases "sr_from_rate res = sr_to_rate res \<or> xs = [] \<or> ys = []")
    case True
    then show ?thesis by (auto simp: resampler_process_def split: Option.bind_splits)
  next
    case False
    with settled have n: "0 < sr_chunk_size res" by (simp add: res_settled_def)
    show ?thesis
      using False drain_append [OF n, of "resample_chunk rubato (sr_from_rate res) (sr_to_rate res)" "sr_resampler res"
          "sr_remainder res @ xs" ys]
      by (auto simp: resampler_process_def split: Option.bind_splits)
  qed
qed

section \<open>Properties\<close>

text \<open>C32: a stream is resampled whatever its buffers, and the loop ends exactly when a chunk is not empty.
  With different rates and an interpolator that takes every full chunk, a new resampler for empty
  chunks never returns from its first samples.  Any other returns from every call, however the stream is
  spread over the buffers; what comes out in all is what the interpolator makes of the
  stream's chunks in order, its state carried from chunk to chunk, and what waits for \<open>flush\<close> is
  the rest, less than a chunk.\<close>

theorem resampler_streams:
  fixes rubato :: "'r \<Rightarrow> fp list \<Rightarrow> nat \<Rightarrow> (string + (fp list \<times> nat)) \<times> 'r"
  assumes "StreamResampler_new new_poly from_rate to_rate n = Some res" "from_rate \<noteq> to_rate"
    and "\<And>r chunk. length chunk = n \<Longrightarrow> \<not> isl (fst (rubato r chunk (expected_output_len n from_rate to_rate + 64)))"
  shows "if n = 0 then \<forall>input. input \<noteq> [] \<longrightarrow> resampler_process rubato res input = None
    else \<exists>outs res'. code_packets (resampler_process rubato) res buffers = Some (outs, res') \<and>
      fold_units (resample_chunk rubato from_rate to_rate) (sr_resampler res) (frames_of n (concat buffers)) =
        Some (concat outs, sr_resampler res') \<and>
      sr_remainder res' = drop (length (concat buffers) div n * n) (concat buffers) \<and> length (sr_remainder res') < n"
proof (cases "n = 0")
  case True
  then show ?thesis using assms(1,2) by (auto simp: StreamResampler_new_def resampler_process_def drain_zero)
next
  case False
  then have n: "0 < n" by simp
  let ?f = "resample_chunk rubato from_rate to_rate"
  have res: "sr_from_rate res = from_rate" "sr_to_rate res = to_rate" "sr_chunk_size res = n" "sr_remainder res = []"
    using assms(1) by (auto simp: StreamResampler_new_def)
  have "?f r chunk \<noteq> None" if "length chunk = n" for r chunk
    using assms(3) [OF that, of r] that
    by (cases "rubato r chunk (expected_output_len n from_rate to_rate + 64)"; cases "fst (rubato r chunk (expected_output_len n from_rate to_rate + 64))")
      (auto simp: resample_chunk_def process_chunk_def)
  then obtain out r where f: "fold_units ?f (sr_resampler res) (frames_of n (concat buffers)) = Some (out, r)"
    using fold_units_total [of "frames_of n (concat buffers)" ?f "sr_resampler res"] frames_of_spec [OF n] by blast
  let ?rest = "drop (length (concat buffers) div n * n) (concat buffers)"
  let ?res = "res\<lparr>sr_resampler := r, sr_remainder := ?rest\<rparr>"
  have "resampler_process rubato res (concat buffers) = Some (out, ?res)"
  proof (cases "concat buffers = []")
    case True
    with f n have "out = []" "r = sr_resampler res" by (simp_all add: frames_of_short)
    moreover have "?rest = sr_remainder res" unfolding True res(4) by simp
    ultimately have "?res = res" by simp
    then show ?thesis unfolding True by (simp add: resampler_process_def \<open>out = []\<close>)
  next
    case False
    then show ?thesis using f assms(2) by (simp add: resampler_process_def res drain_frames [OF n] del: concat_eq_Nil_conv)
  qed
  moreover have "res_settled res" using n by (simp add: res_settled_def res)
  ultimately obtain outs where "code_packets (resampler_process rubato) res buffers = Some (outs, ?res)" "concat outs = out"
    using resampler.push_buffers [of res rubato buffers] by auto
  then show ?thesis using f n
    by (auto simp: minus_div_mult_eq_mod intro!: exI [of _ outs] exI [of _ ?res])
qed

theorem resampler_streams_witness:
  "\<exists>outs res'. code_packets (resampler_process (\<lambda>(k :: nat) x _. (Inr (x @ x, length x + length x), Suc k)))
      \<lparr>sr_resampler = 0, sr_from_rate = 8000, sr_to_rate = 16000, sr_chunk_size = 2, sr_remainder = []\<rparr>
      [[Fin 1], [Fin 2, Fin 3, Fin 4], [Fin 5]] = Some (outs, res') \<and>
    concat outs = [Fin 1, Fin 2, Fin 1, Fin 2, Fin 3, Fin 4, Fin 3, Fin 4] \<and>
    sr_remainder res' = [Fin 5] \<and> sr_resampler res' = 2"
proof -
  let ?rubato = "\<lambda>(k :: nat) x _. (Inr (x @ x, length x + length x), Suc k) :: (string + (fp list \<times> nat)) \<times> nat"
  let ?res = "\<lparr>sr_resampler = 0 :: nat, sr_from_rate = 8000, sr_to_rate = 16000, sr_chunk_size = 2, sr_remainder = []\<rparr>"
  let ?buffers = "[[Fin 1], [Fin 2, Fin 3, Fin 4], [Fin 5]]"
  have new: "StreamResampler_new (\<lambda>_ _. Some 0) 8000 16000 2 = Some ?res"
    by (simp add: StreamResampler_new_def)
  have frames: "frames_of 2 (concat ?buffers) = [[Fin 1, Fin 2], [Fin 3, Fin 4]]"
    by (simp add: frames_of.simps [of 2])
  from resampler_streams [OF new, of ?rubato ?buffers] obtain outs res' where
    "code_packets (resampler_process ?rubato) ?res ?buffers = Some (outs, res')"
    "fold_units (resample_chunk ?rubato 8000 16000) 0 (frames_of 2 (concat ?buffers)) = Some (concat outs, sr_resampler res')"
    "sr_remainder res' = drop (length (concat ?buffers) div 2 * 2) (concat ?buffers)"
    by auto
  moreover from this(2) have "concat outs = [Fin 1, Fin 2, Fin 1, Fin 2, Fin 3, Fin 4, Fin 3, Fin 4]" "sr_resampler res' = 2"
    unfolding frames by (simp_all add: resample_chunk_def process_chunk_def)
  moreover from calculation(3) have "sr_remainder res' = [Fin 5]" by simp
  ultimately show ?thesis by blast
qed

end
