(* ===== verification/Recorder.thy ===== *)
theory Recorder
  imports Errors Samples Text_Utils
begin

text \<open>
  Call recordings: \<^verbatim>\<open>src/src/recorder.rs\<close>.  The recorder and its two handles share the flag and the
  samples, so they are one state here and an operation of a handle names its side.  The file
  system is an argument: it may refuse to write the file.  32 bit sizes wrap, as in a release
  build.
\<close>

section \<open>The recorder\<close>

record CallRecorder =
  cr_recording :: bool
  cr_tx_samples :: pcm
  cr_rx_samples :: pcm
  cr_output_path :: string
  cr_sample_rate :: u32

definition CallRecorder_new :: "string \<Rightarrow> u32 \<Rightarrow> CallRecorder" where
  "CallRecorder_new output_path sample_rate =
    \<lparr>cr_recording = False, cr_tx_samples = [], cr_rx_samples = [], cr_output_path = output_path,
     cr_sample_rate = sample_rate\<rparr>"

definition recorder_start :: "CallRecorder \<Rightarrow> CallRecorder" where
  "recorder_start rec = rec\<lparr>cr_recording := True\<rparr>"

datatype direction = TxSide | RxSide

definition add_samples :: "direction \<Rightarrow> CallRecorder \<Rightarrow> pcm \<Rightarrow> CallRecorder" where
  "add_samples side rec samples =
    (if cr_recording rec then
      (case side of
         TxSide \<Rightarrow> rec\<lparr>cr_tx_samples := cr_tx_samples rec @ samples\<rparr>
       | RxSide \<Rightarrow> rec\<lparr>cr_rx_samples := cr_rx_samples rec @ samples\<rparr>)
     else rec)"

definition add_samples_f32 :: "direction \<Rightarrow> CallRecorder \<Rightarrow> fp list \<Rightarrow> CallRecorder" where
  "add_samples_f32 side rec samples =
    (if cr_recording rec then add_samples side rec (map f32_sample samples) else rec)"

section \<open>The file\<close>

definition sample_at :: "pcm \<Rightarrow> nat \<Rightarrow> i16" where
  "sample_at xs i = (if i < length xs then xs ! i else 0)"

definition stereo_samples :: "pcm \<Rightarrow> pcm \<Rightarrow> pcm" where
  "stereo_samples tx rx =
    concat (map (\<lambda>i. [sample_at tx i, sample_at rx i]) [0..<max (length tx) (length rx)])"

definition wav_bytes :: "u32 \<Rightarrow> pcm \<Rightarrow> bytes" where
  "wav_bytes sample_rate stereo =
    (let num_channels = 2 :: u16;
         bits_per_sample = 16 :: u16;
         byte_rate = sample_rate * ucast num_channels * ucast (bits_per_sample div 8);
         block_align = num_channels * (bits_per_sample div 8);
         data_size = word_of_nat (length stereo * 2) :: u32;
         file_size = 36 + data_size in
     [0x52, 0x49, 0x46, 0x46] @ le32 file_size @ [0x57, 0x41, 0x56, 0x45] @
     [0x66, 0x6D, 0x74, 0x20] @ le32 16 @ le16 1 @ le16 num_channels @ le32 sample_rate @
     le32 byte_rate @ le16 block_align @ le16 bits_per_sample @
     [0x64, 0x61, 0x74, 0x61] @ le32 data_size @ concat (map le16 stereo))"

text \<open>\<open>write_file\<close> answers with an error or takes the bytes; without samples there is no file.\<close>

definition write_wav ::
  "(string \<Rightarrow> bytes \<Rightarrow> io_error_kind option) \<Rightarrow> CallRecorder \<Rightarrow> io_error_kind + (string \<times> bytes option)" where
  "write_wav write_file rec =
    (if cr_tx_samples rec = [] \<and> cr_rx_samples rec = [] then Inr (cr_output_path rec, None)
     else
      let contents = wav_bytes (cr_sample_rate rec) (stereo_samples (cr_tx_samples rec) (cr_rx_samples rec)) in
      case write_file (cr_output_path rec) contents of
        Some e \<Rightarrow> Inl e
      | None \<Rightarrow> Inr (cr_output_path rec, Some contents))"

definition recorder_stop ::
  "(string \<Rightarrow> bytes \<Rightarrow> io_error_kind option) \<Rightarrow> CallRecorder \<Rightarrow>
   (io_error_kind + (string \<times> bytes option)) \<times> CallRecorder" where
  "recorder_stop write_file rec =
    (let rec = rec\<lparr>cr_recording := False\<rparr> in (write_wav write_file rec, rec))"

definition recorder_drop ::
  "(string \<Rightarrow> bytes \<Rightarrow> io_error_kind option) \<Rightarrow> CallRecorder \<Rightarrow> CallRecorder" where
  "recorder_drop write_file rec = (if cr_recording rec then snd (recorder_stop write_file rec) else rec)"

text \<open>The file name of a call, as code points.  The time stamp is an argument, and so is the standard library's table of
  the letters and digits beyond ASCII.\<close>

type_synonym unicode = "nat list"

definition is_alphanumeric :: "(nat \<Rightarrow> bool) \<Rightarrow> nat \<Rightarrow> bool" where
  "is_alphanumeric beyond_ascii c \<longleftrightarrow>
    (if c < 128 then (48 \<le> c \<and> c \<le> 57) \<or> (65 \<le> c \<and> c \<le> 90) \<or> (97 \<le> c \<and> c \<le> 122) else beyond_ascii c)"

definition safe_call_id :: "(nat \<Rightarrow> bool) \<Rightarrow> unicode \<Rightarrow> unicode" where
  "safe_call_id beyond_ascii call_id = map (\<lambda>c. if is_alphanumeric beyond_ascii c then c else 95) (take 20 call_id)"

text \<open>\<^verbatim>\<open>Path::join\<close> with a relative path, whose separator is a slash.\<close>

definition path_join :: "unicode \<Rightarrow> unicode \<Rightarrow> unicode" where
  "path_join dir name = (if dir = [] \<or> List.last dir = 47 then dir @ name else dir @ [47] @ name)"

definition generate_recording_filename :: "(nat \<Rightarrow> bool) \<Rightarrow> unicode \<Rightarrow> unicode \<Rightarrow> unicode \<Rightarrow> unicode" where
  "generate_recording_filename beyond_ascii timestamp call_id recordings_dir =
    path_join recordings_dir
      (map ccode ''call_'' @ timestamp @ map ccode ''_'' @ safe_call_id beyond_ascii call_id @ map ccode ''.wav'')"

lemma safe_call_id_safe:
  "length (safe_call_id beyond_ascii call_id) \<le> 20 \<and>
   (\<forall>c\<in>set (safe_call_id beyond_ascii call_id). c = 95 \<or> is_alphanumeric beyond_ascii c)"
  by (auto simp: safe_call_id_def)

section \<open>Reading a recording\<close>

text \<open>A reader of 16 bit stereo WAV files that checks every field of the header.\<close>

definition le16_at :: "bytes \<Rightarrow> nat \<Rightarrow> u16" where
  "le16_at d i = from_be16 (d ! (i + 1)) (d ! i)"

definition le32_at :: "bytes \<Rightarrow> nat \<Rightarrow> u32" where
  "le32_at d i = from_be32 (d ! (i + 3)) (d ! (i + 2)) (d ! (i + 1)) (d ! i)"

fun stereo_pairs :: "bytes \<Rightarrow> (i16 \<times> i16) list" where
  "stereo_pairs (a # b # c # d # rest) = (from_be16 b a, from_be16 d c) # stereo_pairs rest"
| "stereo_pairs _ = []"

definition wav_read :: "bytes \<Rightarrow> (u32 \<times> (i16 \<times> i16) list) option" where
  "wav_read d =
    (if 44 \<le> length d \<and> take 4 d = [0x52, 0x49, 0x46, 0x46] \<and> unat (le32_at d 4) = length d - 8 \<and>
        sub_range d 8 16 = [0x57, 0x41, 0x56, 0x45, 0x66, 0x6D, 0x74, 0x20] \<and> le32_at d 16 = 16 \<and>
        le16_at d 20 = 1 \<and> le16_at d 22 = 2 \<and> unat (le32_at d 28) = unat (le32_at d 24) * 4 \<and>
        le16_at d 32 = 4 \<and> le16_at d 34 = 16 \<and>
        sub_range d 36 40 = [0x64, 0x61, 0x74, 0x61] \<and> unat (le32_at d 40) = length d - 44
     then Some (le32_at d 24, stereo_pairs (drop 44 d)) else None)"

lemma length_concat_le16 [simp]: "length (concat (map le16 xs)) = length xs * 2"
  by (induction xs) auto

lemma length_stereo [simp]: "length (stereo_samples tx rx) = 2 * max (length tx) (length rx)"
  by (simp add: stereo_samples_def length_concat comp_def sum_list_triv)

lemma pairs_le16:
  "stereo_pairs (concat (map le16 (concat (map (\<lambda>i. [f i, g i]) is)))) = map (\<lambda>i. (f i, g i)) is"
  by (induction "is") (simp_all add: le16_def from_be16_split)

lemma header_constants:
  "from_be16 0 1 = 1" "from_be16 0 2 = 2" "from_be16 0 4 = 4" "from_be16 0 16 = 16" "from_be32 0 0 0 16 = 16"
  by code_simp+

lemma wav_read_bytes:
  assumes "length stereo * 2 + 36 < 2 ^ 32" "unat rate * 4 < 2 ^ 32"
  shows "wav_read (wav_bytes rate stereo) = Some (rate, stereo_pairs (concat (map le16 stereo)))"
proof -
  have len: "length (wav_bytes rate stereo) = 44 + length stereo * 2"
    by (simp add: wav_bytes_def Let_def)
  have size: "unat (word_of_nat (length stereo * 2) :: u32) = length stereo * 2"
    "unat (36 + word_of_nat (length stereo * 2) :: u32) = 36 + length stereo * 2"
    using assms(1) by (simp_all add: unat_of_nat unat_word_ariths)
  have "unat (rate * 2 * 2) = unat rate * 4" using assms(2) by (simp add: unat_word_ariths)
  then show ?thesis
    unfolding wav_read_def len using size
    by (simp add: wav_bytes_def Let_def le16_at_def le32_at_def sub_range_def le16_def le32_def header_constants)
qed

section \<open>Recording a call\<close>

datatype recorder_op =
    StartRec
  | AddSamples direction pcm
  | AddSamplesF32 direction "fp list"
  | StopRec

fun recorder_step :: "(string \<Rightarrow> bytes \<Rightarrow> io_error_kind option) \<Rightarrow> CallRecorder \<Rightarrow> recorder_op \<Rightarrow> CallRecorder" where
  "recorder_step write_file rec StartRec = recorder_start rec"
| "recorder_step write_file rec (AddSamples side xs) = add_samples side rec xs"
| "recorder_step write_file rec (AddSamplesF32 side xs) = add_samples_f32 side rec xs"
| "recorder_step write_file rec StopRec = snd (recorder_stop write_file rec)"

text \<open>What the operations say was recorded on a side: the samples given while recording.\<close>

fun recorded :: "direction \<Rightarrow> bool \<Rightarrow> recorder_op list \<Rightarrow> pcm" where
  "recorded side on [] = []"
| "recorded side on (StartRec # ops) = recorded side True ops"
| "recorded side on (StopRec # ops) = recorded side False ops"
| "recorded side on (AddSamples side' xs # ops) = (if on \<and> side' = side then xs else []) @ recorded side on ops"
| "recorded side on (AddSamplesF32 side' xs # ops) =
     (if on \<and> side' = side then f32_to_i16 xs else []) @ recorded side on ops"

lemma recorder_run:
  "let rec' = foldl (recorder_step write_file) rec ops in
   cr_tx_samples rec' = cr_tx_samples rec @ recorded TxSide (cr_recording rec) ops \<and>
   cr_rx_samples rec' = cr_rx_samples rec @ recorded RxSide (cr_recording rec) ops \<and>
   cr_sample_rate rec' = cr_sample_rate rec \<and> cr_output_path rec' = cr_output_path rec"
proof (induction ops arbitrary: rec)
  case (Cons op ops)
  show ?case
    using Cons.IH [of "recorder_step write_file rec op"]
    by (cases op)
      (auto simp: Let_def recorder_start_def recorder_stop_def add_samples_def add_samples_f32_def f32_to_i16_def
        split: direction.splits)
qed simp

text \<open>C34: a recording is what was said.  However a new recorder was used, when it is stopped with anything
  recorded and the file system takes the file, the file is a well-formed WAV file (a reader that
  checks every length and rate in the header accepts it), and holds, left the samples sent and
  right those received, everything given to the recorder while it was recording, in order, the
  shorter side filled up with silence.  The bounds are those of the 32 bit sizes in the header.\<close>

theorem recording_reads_back:
  fixes ops :: "recorder_op list" and sample_rate :: u32
  defines "tx \<equiv> recorded TxSide False ops" and "rx \<equiv> recorded RxSide False ops"
  assumes "tx \<noteq> [] \<or> rx \<noteq> []" "\<And>p contents. write_file p contents = None"
    and "4 * max (length tx) (length rx) + 36 < 2 ^ 32" "unat sample_rate * 4 < 2 ^ 32"
  shows "\<exists>contents. fst (recorder_stop write_file (foldl (recorder_step write_file) (CallRecorder_new path sample_rate) ops)) =
      Inr (path, Some contents) \<and>
    wav_read contents = Some (sample_rate,
      map (\<lambda>i. (sample_at tx i, sample_at rx i)) [0..<max (length tx) (length rx)])"
proof -
  let ?rec = "foldl (recorder_step write_file) (CallRecorder_new path sample_rate) ops"
  have r: "cr_tx_samples ?rec = tx" "cr_rx_samples ?rec = rx" "cr_sample_rate ?rec = sample_rate" "cr_output_path ?rec = path"
    using recorder_run [of write_file "CallRecorder_new path sample_rate" ops]
    by (simp_all add: Let_def CallRecorder_new_def tx_def rx_def)
  have "length (stereo_samples tx rx) * 2 + 36 < 2 ^ 32" using assms(5) by simp
  from wav_read_bytes [OF this assms(6)]
  have "wav_read (wav_bytes sample_rate (stereo_samples tx rx)) = Some (sample_rate,
      map (\<lambda>i. (sample_at tx i, sample_at rx i)) [0..<max (length tx) (length rx)])"
    by (simp only: stereo_samples_def pairs_le16)
  then show ?thesis
    using assms(3,4) r by (auto simp: recorder_stop_def write_wav_def Let_def)
qed

theorem recording_reads_back_witness:
  "\<exists>contents. fst (recorder_stop (\<lambda>_ _. None) (foldl (recorder_step (\<lambda>_ _. None)) (CallRecorder_new ''call.wav'' 8000)
      [AddSamples TxSide [9], StartRec, AddSamples TxSide [1, 2], AddSamples RxSide [3], AddSamples TxSide [4]])) =
      Inr (''call.wav'', Some contents) \<and>
    wav_read contents = Some (8000, [(1, 3), (2, 0), (4, 0)])"
proof -
  let ?ops = "[AddSamples TxSide [9], StartRec, AddSamples TxSide [1, 2], AddSamples RxSide [3], AddSamples TxSide [4]]"
  have r: "recorded TxSide False ?ops = [1, 2, 4]" "recorded RxSide False ?ops = [3]" by simp_all
  have p: "map (\<lambda>i. (sample_at [1, 2, 4] i, sample_at [3] i)) [0..<max (length [1, 2, 4 :: i16]) (length [3 :: i16])] =
      [(1, 3), (2, 0), (4, 0)]"
    by (simp add: sample_at_def upt_conv_Cons)
  show ?thesis
    using recording_reads_back [of ?ops "\<lambda>_ _. None" 8000 "''call.wav''"] unfolding r p by simp
qed

end
