(* ===== verification/Devices.thy ===== *)
theory Devices
  imports Errors Resample
begin

text \<open>
  Audio devices: \<^verbatim>\<open>src/src/device.rs\<close>.  The host's devices are an argument: what enumerating them, asking
  for the default, describing, configuring and starting one answers.  The buffers of a capture and
  a playback device are modelled with the operations on them; the parked thread that keeps the
  enumerator of Windows alive is not, and log lines are left out.
\<close>

section \<open>The host\<close>

text \<open>A device: its name unless it cannot be described, its rate or the error of asking for its
  configuration, and the errors of building and of starting its stream.\<close>

record device =
  dev_name :: "string option"
  dev_config :: "string + u32"
  dev_build :: "string option"
  dev_play :: "string option"

text \<open>\<open>None\<close> for a list is an enumeration that fails.\<close>

record audio_host =
  host_inputs :: "device list option"
  host_outputs :: "device list option"
  host_default_input :: "device option"
  host_default_output :: "device option"

definition has_any :: "device list option \<Rightarrow> bool" where
  "has_any devices = (case devices of None \<Rightarrow> False | Some ds \<Rightarrow> ds \<noteq> [])"

definition safe_default_input_device :: "audio_host \<Rightarrow> device option" where
  "safe_default_input_device host = (if \<not> has_any (host_inputs host) then None else host_default_input host)"

definition safe_default_output_device :: "audio_host \<Rightarrow> device option" where
  "safe_default_output_device host = (if \<not> has_any (host_outputs host) then None else host_default_output host)"

text \<open>The first device of a name.\<close>

definition find_device :: "string \<Rightarrow> device list option \<Rightarrow> device option" where
  "find_device name devices =
    (case devices of None \<Rightarrow> None | Some ds \<Rightarrow> List.find (\<lambda>d. dev_name d = Some name) ds)"

definition input_device :: "audio_host \<Rightarrow> string option \<Rightarrow> device option" where
  "input_device host wanted =
    (case wanted of
       Some name \<Rightarrow>
        (case find_device name (host_inputs host) of
           Some d \<Rightarrow> Some d
         | None \<Rightarrow> safe_default_input_device host)
     | None \<Rightarrow> safe_default_input_device host)"

definition output_device :: "audio_host \<Rightarrow> string option \<Rightarrow> device option" where
  "output_device host wanted =
    (case wanted of
       Some name \<Rightarrow>
        (case find_device name (host_outputs host) of
           Some d \<Rightarrow> Some d
         | None \<Rightarrow> safe_default_output_device host)
     | None \<Rightarrow> safe_default_output_device host)"

section \<open>Lists of devices\<close>

record AudioDevice =
  ad_name :: string
  ad_is_default :: bool

record AudioDevices =
  input_devices :: "AudioDevice list"
  output_devices :: "AudioDevice list"

definition listed :: "string option \<Rightarrow> device list option \<Rightarrow> AudioDevice list" where
  "listed default_name devices =
    (case devices of
       None \<Rightarrow> []
     | Some ds \<Rightarrow> map (\<lambda>name. \<lparr>ad_name = name, ad_is_default = (default_name = Some name)\<rparr>) (List.map_filter dev_name ds))"

definition list_input_devices :: "audio_host \<Rightarrow> error + AudioDevice list" where
  "list_input_devices host =
    Inr (listed (Option.bind (safe_default_input_device host) dev_name) (host_inputs host))"

definition list_output_devices :: "audio_host \<Rightarrow> error + AudioDevice list" where
  "list_output_devices host =
    Inr (listed (Option.bind (safe_default_output_device host) dev_name) (host_outputs host))"

definition list_all_devices :: "audio_host \<Rightarrow> error + AudioDevices" where
  "list_all_devices host =
    (case list_input_devices host of Inl e \<Rightarrow> Inl e | Inr inputs \<Rightarrow>
     (case list_output_devices host of Inl e \<Rightarrow> Inl e | Inr outputs \<Rightarrow>
       Inr \<lparr>input_devices = inputs, output_devices = outputs\<rparr>))"

definition list_devices :: "audio_host \<Rightarrow> error + string list" where
  "list_devices host =
    Inr ((case host_inputs host of None \<Rightarrow> [] | Some ds \<Rightarrow> map (\<lambda>name. ''Input: '' @ name) (List.map_filter dev_name ds)) @
         (case host_outputs host of None \<Rightarrow> [] | Some ds \<Rightarrow> map (\<lambda>name. ''Output: '' @ name) (List.map_filter dev_name ds)))"

section \<open>Capture\<close>

record AudioCapture =
  ac_running :: bool
  ac_buffer :: "fp list"
  ac_rate :: u32

definition capture_from_device :: "device \<Rightarrow> error + AudioCapture" where
  "capture_from_device device =
    (case dev_config device of
       Inl e \<Rightarrow> Inl (Device (''No default input config: '' @ e))
     | Inr device_rate \<Rightarrow>
        (case dev_build device of
           Some e \<Rightarrow> Inl (Device (''Failed to build input stream: '' @ e))
         | None \<Rightarrow>
            (case dev_play device of
               Some e \<Rightarrow> Inl (Device (''Failed to start capture: '' @ e))
             | None \<Rightarrow> Inr \<lparr>ac_running = True, ac_buffer = [], ac_rate = device_rate\<rparr>)))"

definition capture_start_with_device_name :: "audio_host \<Rightarrow> string option \<Rightarrow> error + AudioCapture" where
  "capture_start_with_device_name host device_name =
    (case input_device host device_name of
       None \<Rightarrow> Inl (Device ''No input audio device'')
     | Some d \<Rightarrow> capture_from_device d)"

definition capture_start :: "audio_host \<Rightarrow> error + AudioCapture" where
  "capture_start host =
    (case safe_default_input_device host of
       None \<Rightarrow> Inl (Device ''No input audio device'')
     | Some d \<Rightarrow> capture_from_device d)"

text \<open>The buffer is cut back to a second, a tenth of a second at a time; \<open>None\<close> is a loop that does not
  end.\<close>

partial_function (option) trim_capture :: "nat \<Rightarrow> fp list \<Rightarrow> fp list option" where
  "trim_capture device_rate buf =
    (if length buf > device_rate then trim_capture device_rate (drop (device_rate div 10) buf) else Some buf)"

definition capture_callback :: "fp list \<Rightarrow> AudioCapture \<Rightarrow> AudioCapture option" where
  "capture_callback samples cap =
    (if \<not> ac_running cap then Some cap
     else map_option (\<lambda>buf. cap\<lparr>ac_buffer := buf\<rparr>) (trim_capture (unat (ac_rate cap)) (ac_buffer cap @ samples)))"

definition read_samples ::
  "(fp \<Rightarrow> fp list \<Rightarrow> nat \<Rightarrow> string + (fp list \<times> nat)) \<Rightarrow> u32 \<Rightarrow> nat \<Rightarrow> AudioCapture \<Rightarrow> (pcm \<times> AudioCapture) option" where
  "read_samples process_all target_rate max_samples cap =
    (if ac_buffer cap = [] then Some ([], cap)
     else
      let device_samples_needed = as_usize (fp_ceil (fp_mul F64 (f64_of_nat max_samples)
            (fp_div F64 (f64_of_nat (unat (ac_rate cap))) (f64_of_nat (unat target_rate)))));
          available = min (length (ac_buffer cap)) device_samples_needed in
      if 0 < available then
        map_option (\<lambda>resampled. (f32_to_i16 resampled, cap\<lparr>ac_buffer := drop available (ac_buffer cap)\<rparr>))
          (resample_linear process_all (take available (ac_buffer cap)) (ac_rate cap) target_rate)
      else Some ([], cap))"

definition capture_stop :: "AudioCapture \<Rightarrow> AudioCapture" where
  "capture_stop cap = cap\<lparr>ac_running := False\<rparr>"

section \<open>Playback\<close>

record AudioPlayback =
  ap_running :: bool
  ap_buffer :: "fp list"
  ap_rate :: u32

definition playback_from_device :: "device \<Rightarrow> error + AudioPlayback" where
  "playback_from_device device =
    (case dev_config device of
       Inl e \<Rightarrow> Inl (Device (''No default output config: '' @ e))
     | Inr device_rate \<Rightarrow>
        (case dev_build device of
           Some e \<Rightarrow> Inl (Device (''Failed to build output stream: '' @ e))
         | None \<Rightarrow>
            (case dev_play device of
               Some e \<Rightarrow> Inl (Device (''Failed to start playback: '' @ e))
             | None \<Rightarrow> Inr \<lparr>ap_running = True, ap_buffer = [], ap_rate = device_rate\<rparr>)))"

definition playback_start_with_device_name :: "audio_host \<Rightarrow> string option \<Rightarrow> error + AudioPlayback" where
  "playback_start_with_device_name host device_name =
    (case output_device host device_name of
       None \<Rightarrow> Inl (Device ''No output audio device'')
     | Some d \<Rightarrow> playback_from_device d)"

definition playback_start :: "audio_host \<Rightarrow> error + AudioPlayback" where
  "playback_start host =
    (case safe_default_output_device host of
       None \<Rightarrow> Inl (Device ''No output audio device'')
     | Some d \<Rightarrow> playback_from_device d)"

text \<open>The callback does not ask whether playback was stopped.\<close>

definition playback_callback :: "nat \<Rightarrow> AudioPlayback \<Rightarrow> fp list \<times> AudioPlayback" where
  "playback_callback n play =
    (take n (ap_buffer play) @ replicate (n - length (ap_buffer play)) (Fin 0),
     play\<lparr>ap_buffer := drop n (ap_buffer play)\<rparr>)"

definition write_samples ::
  "(fp \<Rightarrow> fp list \<Rightarrow> nat \<Rightarrow> string + (fp list \<times> nat)) \<Rightarrow> pcm \<Rightarrow> u32 \<Rightarrow> AudioPlayback \<Rightarrow> AudioPlayback option" where
  "write_samples process_all samples source_rate play =
    map_option (\<lambda>resampled.
        let buf = ap_buffer play @ resampled in play\<lparr>ap_buffer := drop (length buf - unat (ap_rate play)) buf\<rparr>)
      (resample_linear process_all (i16_to_f32 samples) source_rate (ap_rate play))"

definition playback_stop :: "AudioPlayback \<Rightarrow> AudioPlayback" where
  "playback_stop play = play\<lparr>ap_running := False\<rparr>"

end
