(* ===== verification/Device_Properties.thy ===== *)
theory Device_Properties
  imports Devices
begin

text \<open>
  What the buffers of \<^verbatim>\<open>src/src/device.rs\<close> promise: a capture device keeps the newest second of what the
  microphone gave, without a hole, and reading at the rate of the device takes it out in order; where
  the device reports fewer than ten samples per second the loop that cuts the buffer does not end.
\<close>

section \<open>Cutting the capture buffer\<close>

lemma trim_capture_cuts:
  assumes "10 \<le> rate"
  shows "\<exists>k. trim_capture rate buf = Some (drop k buf) \<and> length buf - k \<le> rate \<and>
    (length buf \<le> rate \<longrightarrow> k = 0) \<and> (rate < length buf \<longrightarrow> rate - rate div 10 < length buf - k)"
proof (induction "length buf" arbitrary: buf rule: less_induct)
  case less
  show ?case
  proof (cases "rate < length buf")
    case True
    let ?buf = "drop (rate div 10) buf"
    have "length ?buf < length buf" using True assms by (simp add: div_greater_zero_iff)
    then obtain k where k: "trim_capture rate ?buf = Some (drop k ?buf)" "length ?buf - k \<le> rate"
      "length ?buf \<le> rate \<longrightarrow> k = 0" "rate < length ?buf \<longrightarrow> rate - rate div 10 < length ?buf - k"
      using less.hyps by blast
    have "trim_capture rate buf = Some (drop (k + rate div 10) buf)"
      using True k(1) by (subst trim_capture.simps) simp
    moreover have "rate - rate div 10 < length buf - (k + rate div 10)"
    proof (cases "rate < length ?buf")
      case False
      then show ?thesis using True k(3) by simp
    qed (use k(4) in \<open>simp add: add.commute\<close>)
    ultimately show ?thesis using True k(2) by (intro exI [of _ "k + rate div 10"]) simp
  next
    case False
    then show ?thesis by (subst trim_capture.simps) (auto intro: exI [of _ 0])
  qed
qed

lemma trim_capture_stuck: "rate < 10 \<Longrightarrow> rate < length buf \<Longrightarrow> trim_capture rate buf = None"
proof -
  have "\<not> (rate < 10 \<and> rate < length buf)" if "trim_capture rate buf = Some r" for r
    by (rule trim_capture.raw_induct [of "\<lambda>rate buf r. \<not> (rate < 10 \<and> rate < length buf)", OF _ that])
       (auto split: if_splits)
  then show "rate < 10 \<Longrightarrow> rate < length buf \<Longrightarrow> trim_capture rate buf = None"
    by (cases "trim_capture rate buf") auto
qed

section \<open>What a capture device holds\<close>

text \<open>The callback, buffer after buffer.\<close>

fun capture_run :: "fp list list \<Rightarrow> AudioCapture \<Rightarrow> AudioCapture option" where
  "capture_run [] cap = Some cap"
| "capture_run (samples # rest) cap = Option.bind (capture_callback samples cap) (capture_run rest)"

text \<open>The newest samples of a stream: an end of it, all of it or at least \<open>low\<close> samples.\<close>

definition newest :: "nat \<Rightarrow> 'a list \<Rightarrow> 'a list \<Rightarrow> bool" where
  "newest low stream buf \<longleftrightarrow> (\<exists>k. buf = drop k stream) \<and> min (length stream) low \<le> length buf"

lemma newest_extend:
  assumes "newest low stream buf" "k = 0 \<or> low \<le> length (buf @ xs) - k"
  shows "newest low (stream @ xs) (drop k (buf @ xs))"
proof -
  obtain j where j: "buf = drop j stream" and low: "min (length stream) low \<le> length buf"
    using assms(1) by (auto simp: newest_def)
  have "drop k (buf @ xs) = drop (min j (length stream) + k) (stream @ xs)"
    by (cases "j \<le> length stream") (simp_all add: j drop_drop [symmetric] min_def del: drop_drop, simp add: add.commute)
  moreover have "min (length (stream @ xs)) low \<le> length (drop k (buf @ xs))"
    using assms(2) low j by auto
  ultimately show ?thesis unfolding newest_def by blast
qed

lemma capture_run_newest:
  assumes "ac_running cap" "10 \<le> unat (ac_rate cap)" "length (ac_buffer cap) \<le> unat (ac_rate cap)"
    "newest (unat (ac_rate cap) - unat (ac_rate cap) div 10) stream (ac_buffer cap)"
  shows "\<exists>cap'. capture_run buffers cap = Some cap' \<and> ac_running cap' \<and> ac_rate cap' = ac_rate cap \<and>
    length (ac_buffer cap') \<le> unat (ac_rate cap) \<and>
    newest (unat (ac_rate cap) - unat (ac_rate cap) div 10) (stream @ concat buffers) (ac_buffer cap')"
  using assms
proof (induction buffers arbitrary: cap stream)
  case (Cons xs rest)
  let ?rate = "unat (ac_rate cap)"
  obtain k where k: "trim_capture ?rate (ac_buffer cap @ xs) = Some (drop k (ac_buffer cap @ xs))"
    "length (ac_buffer cap @ xs) - k \<le> ?rate" "k = 0 \<or> ?rate - ?rate div 10 \<le> length (ac_buffer cap @ xs) - k"
    using trim_capture_cuts [OF Cons.prems(2), of "ac_buffer cap @ xs"] by (metis leI less_imp_le)
  define cap1 where "cap1 = cap\<lparr>ac_buffer := drop k (ac_buffer cap @ xs)\<rparr>"
  have c: "capture_callback xs cap = Some cap1"
    using Cons.prems(1) k(1) by (simp add: capture_callback_def cap1_def)
  have "newest (?rate - ?rate div 10) (stream @ xs) (ac_buffer cap1)"
    unfolding cap1_def using newest_extend [OF Cons.prems(4) k(3)] by simp
  with Cons.IH [of cap1 "stream @ xs"] Cons.prems k(2) show ?case by (simp add: c) (simp add: cap1_def)
qed simp

lemma f64_of_nat_exact: "n < 2 ^ 53 \<Longrightarrow> f64_of_nat n = Fin (of_nat n)"
  using fp_of_int_F64 [of "int n"] by (simp add: f64_of_nat_def)

lemma read_at_device_rate:
  assumes "ac_rate cap \<noteq> 0" "n < 2 ^ 53"
  shows "read_samples process_all (ac_rate cap) n cap =
    Some (f32_to_i16 (take n (ac_buffer cap)), cap\<lparr>ac_buffer := drop n (ac_buffer cap)\<rparr>)"
proof -
  have r: "unat (ac_rate cap) < 2 ^ 53" using unsigned_less [of "ac_rate cap", where 'a=nat] by simp
  have "unat (ac_rate cap) \<noteq> 0" using assms(1) by (simp add: unsigned_eq_0_iff)
  then have "fp_div F64 (f64_of_nat (unat (ac_rate cap))) (f64_of_nat (unat (ac_rate cap))) = Fin 1"
    using fp_round_int_F64 [of 1] unfolding f64_of_nat_exact [OF r] by (simp del: of_nat_unat)
  moreover have "fp_mul F64 (f64_of_nat n) (Fin 1) = Fin (of_nat n)"
    using fp_round_int_F64 [of "int n"] assms(2) by (simp add: f64_of_nat_exact)
  moreover have "as_usize (fp_ceil (Fin (of_nat n))) = n"
    using assms(2) by (simp add: as_usize_def fp_ceil_def trunc_rat_def)
  ultimately show ?thesis
    by (cases "ac_buffer cap = []"; cases "n = 0")
       (auto simp: read_samples_def resample_linear_def min_def f32_to_i16_def Let_def)
qed

text \<open>C33: a capture device keeps what the microphone gave last.  Started on a device of at least ten samples
  per second, whatever buffers its callback gets, the callback returns each time, and the device
  holds an end of everything captured: all of it, or more than nine tenths of a second, and never
  more than one second.  Reading at the rate of the device takes the oldest samples held, in order.
  On a device of fewer than ten samples per second the callback never returns once more than a second
  has come in.\<close>

theorem capture_keeps_newest:
  assumes "capture_from_device d = Inr cap"
  shows "if 10 \<le> unat (ac_rate cap) then
      \<exists>cap' k. capture_run buffers cap = Some cap' \<and> ac_buffer cap' = drop k (concat buffers) \<and>
        length (ac_buffer cap') \<le> unat (ac_rate cap) \<and>
        min (length (concat buffers)) (unat (ac_rate cap) - unat (ac_rate cap) div 10) \<le> length (ac_buffer cap') \<and>
        read_samples process_all (ac_rate cap) (unat (n :: u32)) cap' =
          Some (f32_to_i16 (take (unat n) (ac_buffer cap')), cap'\<lparr>ac_buffer := drop (unat n) (ac_buffer cap')\<rparr>)
    else capture_run [samples] cap = (if unat (ac_rate cap) < length samples then None else Some (cap\<lparr>ac_buffer := samples\<rparr>))"
proof -
  have c: "ac_running cap" "ac_buffer cap = []" using assms
    by (auto simp: capture_from_device_def split: sum.splits option.splits)
  show ?thesis
  proof (cases "10 \<le> unat (ac_rate cap)")
    case True
    have "newest (unat (ac_rate cap) - unat (ac_rate cap) div 10) [] (ac_buffer cap)" using c(2) by (simp add: newest_def)
    from capture_run_newest [OF c(1) True _ this, of buffers] c(2) obtain cap' where cap':
      "capture_run buffers cap = Some cap'" "ac_rate cap' = ac_rate cap" "length (ac_buffer cap') \<le> unat (ac_rate cap)"
      "newest (unat (ac_rate cap) - unat (ac_rate cap) div 10) (concat buffers) (ac_buffer cap')" by auto
    moreover have "ac_rate cap \<noteq> 0" using True by auto
    moreover have "unat n < 2 ^ 53" using unsigned_less [of n, where 'a=nat] by simp
    ultimately show ?thesis using True read_at_device_rate [of cap' "unat n" process_all]
      by (auto simp: newest_def)
  next
    case False
    moreover have "trim_capture (unat (ac_rate cap)) samples = Some samples" if "length samples \<le> unat (ac_rate cap)"
      using that by (subst trim_capture.simps) simp
    ultimately show ?thesis using c trim_capture_stuck [of "unat (ac_rate cap)" samples]
      by (simp add: capture_callback_def)
  qed
qed

text \<open>Four seconds into a device of 16 samples per second.\<close>

theorem capture_keeps_newest_witness:
  "\<exists>cap cap' k. capture_from_device \<lparr>dev_name = None, dev_config = Inr 16, dev_build = None, dev_play = None\<rparr> = Inr cap \<and>
    capture_run [replicate 40 (Fin 0), replicate 24 (Fin 1)] cap = Some cap' \<and>
    ac_buffer cap' = drop k (replicate 40 (Fin 0) @ replicate 24 (Fin 1)) \<and> length (ac_buffer cap') \<le> 16 \<and>
    15 \<le> length (ac_buffer cap')"
  using capture_keeps_newest
    [of "\<lparr>dev_name = None, dev_config = Inr 16, dev_build = None, dev_play = None\<rparr>"
      "\<lparr>ac_running = True, ac_buffer = [], ac_rate = 16\<rparr>" "[replicate 40 (Fin 0), replicate 24 (Fin 1)]"
      "\<lambda>_ _ _. Inl []" 5 "[]"]
  by (auto simp: capture_from_device_def)

end
