(* ===== verification/Voice_Processor.thy ===== *)
theory Voice_Processor
  imports Frame_Accumulator
begin

text \<open>
  The duplex voice processor: \<^verbatim>\<open>src/src/audio_proc/processor.rs\<close>.  The library behind the feature
  \<^verbatim>\<open>audio-proc\<close> is an argument: whether it is compiled in, how it starts, is configured and
  restarted, and what it does with a frame of the microphone or of the speaker.  A call owns one
  processor and, once the devices are open, a path for each side.  \<open>None\<close> would be a frame loop that
  does not end.
\<close>

section \<open>Configuration\<close>

datatype NoiseLevel = Low | Moderate | High | VeryHigh

record VoiceProcessorConfig =
  vc_echo_cancellation :: bool
  vc_noise_suppression :: bool
  vc_noise_level :: NoiseLevel
  vc_gain_control :: bool
  vc_fixed_gain_db :: "u8 option"

definition desktop_default :: VoiceProcessorConfig where
  "desktop_default =
    \<lparr>vc_echo_cancellation = True, vc_noise_suppression = True, vc_noise_level = Moderate,
     vc_gain_control = True, vc_fixed_gain_db = None\<rparr>"

definition TELEPHONY_RATE :: u32 where "TELEPHONY_RATE = 16000"

definition telephony_agent :: VoiceProcessorConfig where
  "telephony_agent =
    \<lparr>vc_echo_cancellation = True, vc_noise_suppression = True, vc_noise_level = Moderate,
     vc_gain_control = True, vc_fixed_gain_db = Some 3\<rparr>"

definition is_any_enabled :: "VoiceProcessorConfig \<Rightarrow> bool" where
  "is_any_enabled cfg \<longleftrightarrow> vc_echo_cancellation cfg \<or> vc_noise_suppression cfg \<or> vc_gain_control cfg"

definition ALL_OFF :: VoiceProcessorConfig where
  "ALL_OFF =
    \<lparr>vc_echo_cancellation = False, vc_noise_suppression = False, vc_noise_level = Moderate,
     vc_gain_control = False, vc_fixed_gain_db = None\<rparr>"

record VoiceStats =
  vs_echo_return_loss_db :: "fp option"
  vs_echo_return_loss_enhancement_db :: "fp option"
  vs_delay_ms :: "u32 option"

definition VoiceStats_default :: VoiceStats where
  "VoiceStats_default =
    \<lparr>vs_echo_return_loss_db = None, vs_echo_return_loss_enhancement_db = None, vs_delay_ms = None\<rparr>"

text \<open>What of the library's configuration is set.\<close>

datatype gain_mode = AdaptiveDigital | FixedDigital u8

record apm_config =
  ac_high_pass_filter :: bool
  ac_echo_canceller :: bool
  ac_noise_suppression :: "NoiseLevel option"
  ac_gain_controller :: "gain_mode option"

record 'b apm =
  apm_available :: bool
  apm_new :: "u32 \<Rightarrow> 'b option"
  apm_set_config :: "apm_config \<Rightarrow> 'b \<Rightarrow> 'b"
  apm_reinitialize :: "'b \<Rightarrow> 'b"
  apm_capture :: "'b \<Rightarrow> f32 list \<Rightarrow> f32 list \<times> 'b"
  apm_render :: "'b \<Rightarrow> f32 list \<Rightarrow> 'b"
  apm_stats :: "'b \<Rightarrow> VoiceStats"

section \<open>The processor\<close>

datatype Side = Capture | Render

datatype 'b vp_state = Negotiating "u32 option" "u32 option" | Active u32 'b | Disabled

record 'b VoiceProcessor =
  vp_state :: "'b vp_state"
  vp_config :: VoiceProcessorConfig

definition VoiceProcessor_new :: "'b apm \<Rightarrow> VoiceProcessorConfig \<Rightarrow> 'b VoiceProcessor" where
  "VoiceProcessor_new lib cfg =
    \<lparr>vp_state = (if is_any_enabled cfg \<and> apm_available lib then Negotiating None None else Disabled),
     vp_config = cfg\<rparr>"

text \<open>\<^verbatim>\<open>from_default\<close>; the process-wide configuration is an argument.\<close>

definition VoiceProcessor_from_default :: "'b apm \<Rightarrow> VoiceProcessorConfig \<Rightarrow> 'b VoiceProcessor" where
  "VoiceProcessor_from_default lib default_config = VoiceProcessor_new lib default_config"

definition VoiceProcessor_disabled :: "'b apm \<Rightarrow> 'b VoiceProcessor" where
  "VoiceProcessor_disabled lib = VoiceProcessor_new lib ALL_OFF"

definition is_active :: "'b VoiceProcessor \<Rightarrow> bool" where
  "is_active vp = (case vp_state vp of Active _ _ \<Rightarrow> True | _ \<Rightarrow> False)"

definition voice_stats :: "'b apm \<Rightarrow> 'b VoiceProcessor \<Rightarrow> VoiceStats" where
  "voice_stats lib vp = (case vp_state vp of Active _ backend \<Rightarrow> apm_stats lib backend | _ \<Rightarrow> VoiceStats_default)"

definition backend_config :: "VoiceProcessorConfig \<Rightarrow> apm_config" where
  "backend_config cfg =
    \<lparr>ac_high_pass_filter = vc_echo_cancellation cfg,
     ac_echo_canceller = vc_echo_cancellation cfg,
     ac_noise_suppression = (if vc_noise_suppression cfg then Some (vc_noise_level cfg) else None),
     ac_gain_controller =
       (if vc_gain_control cfg
        then Some (case vc_fixed_gain_db cfg of None \<Rightarrow> AdaptiveDigital | Some db \<Rightarrow> FixedDigital (min db 90))
        else None)\<rparr>"

definition build_backend :: "'b apm \<Rightarrow> u32 \<Rightarrow> VoiceProcessorConfig \<Rightarrow> 'b vp_state" where
  "build_backend lib rate cfg =
    (if \<not> apm_available lib then Disabled
     else case apm_new lib rate of
       None \<Rightarrow> Disabled
     | Some backend \<Rightarrow> Active rate (apm_set_config lib (backend_config cfg) backend))"

definition negotiate :: "'b apm \<Rightarrow> u32 \<Rightarrow> u32 \<Rightarrow> VoiceProcessorConfig \<Rightarrow> 'b vp_state" where
  "negotiate lib capture_rate render_rate cfg =
    (if capture_rate \<noteq> render_rate then Disabled
     else if FrameAccumulator_new capture_rate = None then Disabled
     else build_backend lib capture_rate cfg)"

definition attach :: "'b apm \<Rightarrow> Side \<Rightarrow> u32 \<Rightarrow> 'b VoiceProcessor \<Rightarrow> 'b VoiceProcessor" where
  "attach lib side rate vp =
    vp\<lparr>vp_state :=
      (case vp_state vp of
         Negotiating capture render \<Rightarrow>
           (let capture = (if side = Capture then Some rate else capture);
                render = (if side = Render then Some rate else render) in
            case (capture, render) of
              (Some capture_rate, Some render_rate) \<Rightarrow> negotiate lib capture_rate render_rate (vp_config vp)
            | _ \<Rightarrow> Negotiating capture render)
       | Active active backend \<Rightarrow>
           if active = rate then Active active (apm_reinitialize lib backend) else Disabled
       | Disabled \<Rightarrow> Disabled)\<rparr>"

section \<open>The two paths\<close>

record VoicePath =
  path_accumulator :: "FrameAccumulator option"
  path_device_rate :: u32

definition new_path :: "u32 \<Rightarrow> VoicePath" where
  "new_path device_rate =
    \<lparr>path_accumulator = FrameAccumulator_new device_rate, path_device_rate = device_rate\<rparr>"

definition capture_path :: "'b apm \<Rightarrow> u32 \<Rightarrow> 'b VoiceProcessor \<Rightarrow> VoicePath \<times> 'b VoiceProcessor" where
  "capture_path lib device_rate vp = (new_path device_rate, attach lib Capture device_rate vp)"

definition render_path :: "'b apm \<Rightarrow> u32 \<Rightarrow> 'b VoiceProcessor \<Rightarrow> VoicePath \<times> 'b VoiceProcessor" where
  "render_path lib device_rate vp = (new_path device_rate, attach lib Render device_rate vp)"

text \<open>Both paths cut their samples into frames for the library.  The \<^verbatim>\<open>scratch\<close> vector of a path is
  emptied by every call and only lends the samples it returns; here they are the result.\<close>

definition path_push ::
  "('b \<Rightarrow> f32 list \<Rightarrow> f32 list \<times> 'b) \<Rightarrow> 'b VoiceProcessor \<Rightarrow> VoicePath \<Rightarrow> u32 \<Rightarrow> 'b \<Rightarrow> FrameAccumulator \<Rightarrow> f32 list \<Rightarrow>
   (f32 list \<times> 'b VoiceProcessor \<times> VoicePath) option" where
  "path_push on_frame vp path rate backend acc input =
    do { (out, acc, backend) \<leftarrow> accumulator_push on_frame (acc, backend) input;
         Some (out, vp\<lparr>vp_state := Active rate backend\<rparr>, path\<lparr>path_accumulator := Some acc\<rparr>) }"

definition capture_process ::
  "'b apm \<Rightarrow> 'b VoiceProcessor \<Rightarrow> VoicePath \<Rightarrow> f32 list \<Rightarrow> (f32 list \<times> 'b VoiceProcessor \<times> VoicePath) option" where
  "capture_process lib vp path input =
    (case vp_state vp of
       Active rate backend \<Rightarrow>
         if rate \<noteq> path_device_rate path then Some (input, vp, path)
         else (case path_accumulator path of
           None \<Rightarrow> Some (input, vp, path)
         | Some acc \<Rightarrow> path_push (apm_capture lib) vp path rate backend acc input)
     | _ \<Rightarrow> Some (input, vp, path))"

definition render_analyze ::
  "'b apm \<Rightarrow> 'b VoiceProcessor \<Rightarrow> VoicePath \<Rightarrow> f32 list \<Rightarrow> ('b VoiceProcessor \<times> VoicePath) option" where
  "render_analyze lib vp path played =
    (case vp_state vp of
       Active rate backend \<Rightarrow>
         if rate \<noteq> path_device_rate path then Some (vp, path)
         else (case path_accumulator path of
           None \<Rightarrow> Some (vp, path)
         | Some acc \<Rightarrow> map_option snd (path_push (\<lambda>b x. (x, apm_render lib b x)) vp path rate backend acc played))
     | _ \<Rightarrow> Some (vp, path))"

definition path_reset :: "VoicePath \<Rightarrow> VoicePath" where
  "path_reset path =
    path\<lparr>path_accumulator := map_option accumulator_reset (path_accumulator path)\<rparr>"

end
