(* ===== verification/Voice_Properties.thy ===== *)
theory Voice_Properties
  imports Voice_Processor
begin

text \<open>
  What the voice processor guarantees over any interleaving of its two audio threads: when it runs,
  when it never does, and what becomes of the microphone's samples.
\<close>

section \<open>A call with its two devices\<close>

record 'b voice_call =
  call_vp :: "'b VoiceProcessor"
  call_capture :: "VoicePath option"
  call_render :: "VoicePath option"

datatype voice_op =
    OpenCapture u32
  | OpenRender u32
  | Mic "f32 list"
  | Speaker "f32 list"
  | ResetCapture
  | ResetRender

text \<open>An operation on a device that is not open does not happen; the list is what the microphone side returns.\<close>

fun voice_step :: "'b apm \<Rightarrow> 'b voice_call \<Rightarrow> voice_op \<Rightarrow> (f32 list \<times> 'b voice_call) option" where
  "voice_step lib call (OpenCapture rate) =
    (let (path, vp) = capture_path lib rate (call_vp call) in
     Some ([], call\<lparr>call_vp := vp, call_capture := Some path\<rparr>))"
| "voice_step lib call (OpenRender rate) =
    (let (path, vp) = render_path lib rate (call_vp call) in
     Some ([], call\<lparr>call_vp := vp, call_render := Some path\<rparr>))"
| "voice_step lib call (Mic input) =
    (case call_capture call of
       None \<Rightarrow> Some ([], call)
     | Some path \<Rightarrow>
         do { (out, vp, path) \<leftarrow> capture_process lib (call_vp call) path input;
              Some (out, call\<lparr>call_vp := vp, call_capture := Some path\<rparr>) })"
| "voice_step lib call (Speaker played) =
    (case call_render call of
       None \<Rightarrow> Some ([], call)
     | Some path \<Rightarrow>
         do { (vp, path) \<leftarrow> render_analyze lib (call_vp call) path played;
              Some ([], call\<lparr>call_vp := vp, call_render := Some path\<rparr>) })"
| "voice_step lib call ResetCapture = Some ([], call\<lparr>call_capture := map_option path_reset (call_capture call)\<rparr>)"
| "voice_step lib call ResetRender = Some ([], call\<lparr>call_render := map_option path_reset (call_render call)\<rparr>)"

definition new_call :: "'b apm \<Rightarrow> VoiceProcessorConfig \<Rightarrow> 'b voice_call" where
  "new_call lib cfg = \<lparr>call_vp = VoiceProcessor_new lib cfg, call_capture = None, call_render = None\<rparr>"

fun voice_run :: "'b apm \<Rightarrow> 'b voice_call \<Rightarrow> voice_op list \<Rightarrow> (f32 list list \<times> 'b voice_call) option" where
  "voice_run lib call [] = Some ([], call)"
| "voice_run lib call (op # ops) =
    do { (out, call) \<leftarrow> voice_step lib call op;
         (outs, call) \<leftarrow> voice_run lib call ops;
         Some (out # outs, call) }"

text \<open>The calls an application can bring about.\<close>

inductive voice_reach :: "'b apm \<Rightarrow> VoiceProcessorConfig \<Rightarrow> 'b voice_call \<Rightarrow> bool" for lib cfg where
  voice_new: "voice_reach lib cfg (new_call lib cfg)"
| voice_op: "voice_reach lib cfg call \<Longrightarrow> voice_step lib call op = Some (out, call') \<Longrightarrow> voice_reach lib cfg call'"

section \<open>The invariant\<close>

text \<open>A path frames its samples when its rate can be framed, and holds back less than a frame.\<close>

definition path_ok :: "VoicePath \<Rightarrow> bool" where
  "path_ok path \<longleftrightarrow>
    (case path_accumulator path of
       None \<Rightarrow> FrameAccumulator_new (path_device_rate path) = None
     | Some acc \<Rightarrow> FrameAccumulator_new (path_device_rate path) \<noteq> None \<and>
         fa_frame_len acc = frame_len (path_device_rate path) \<and> length (fa_pending acc) < fa_frame_len acc)"

abbreviation opt_rate :: "VoicePath option \<Rightarrow> u32 option" where
  "opt_rate \<equiv> map_option path_device_rate"

text \<open>What the processor's state says of the rates the two devices were last opened at.\<close>

definition state_ok ::
  "'b apm \<Rightarrow> VoiceProcessorConfig \<Rightarrow> 'b vp_state \<Rightarrow> u32 option \<Rightarrow> u32 option \<Rightarrow> bool" where
  "state_ok lib cfg st capture render \<longleftrightarrow>
    (case st of
       Negotiating c r \<Rightarrow> apm_available lib \<and> is_any_enabled cfg \<and> c = capture \<and> r = render \<and> (c = None \<or> r = None)
     | Active rate b \<Rightarrow> apm_available lib \<and> is_any_enabled cfg \<and> FrameAccumulator_new rate \<noteq> None \<and>
         capture = Some rate \<and> render = Some rate
     | Disabled \<Rightarrow> True)"

definition voice_inv :: "'b apm \<Rightarrow> VoiceProcessorConfig \<Rightarrow> 'b voice_call \<Rightarrow> bool" where
  "voice_inv lib cfg call \<longleftrightarrow> vp_config (call_vp call) = cfg \<and>
    pred_option path_ok (call_capture call) \<and> pred_option path_ok (call_render call) \<and>
    state_ok lib cfg (vp_state (call_vp call)) (opt_rate (call_capture call)) (opt_rate (call_render call))"

lemma new_rate_pos: "FrameAccumulator_new rate \<noteq> None \<Longrightarrow> 0 < frame_len rate"
  by (auto simp: FrameAccumulator_new_def frame_len_def FRAME_MS_def split: if_splits)

lemma path_ok_new: "path_ok (new_path rate)"
proof (cases "FrameAccumulator_new rate")
  case None
  then show ?thesis by (simp add: path_ok_def new_path_def)
next
  case (Some acc)
  then have "fa_frame_len acc = frame_len rate" "fa_pending acc = []"
    by (auto simp: FrameAccumulator_new_def split: if_splits)
  with Some new_rate_pos [of rate] show ?thesis by (simp add: path_ok_def new_path_def)
qed

lemma path_ok_reset: "path_ok path \<Longrightarrow> path_ok (path_reset path)"
  by (auto simp: path_ok_def path_reset_def accumulator_reset_def split: option.splits dest: new_rate_pos)

lemma rate_new [simp]: "path_device_rate (new_path rate) = rate"
  by (simp add: new_path_def)

lemma rate_reset [simp]: "path_device_rate (path_reset path) = path_device_rate path"
  by (simp add: path_reset_def)

lemma new_rate_iff: "FrameAccumulator_new rate \<noteq> None \<longleftrightarrow> rate \<in> {8000, 16000, 32000, 48000}"
  by (auto simp: FrameAccumulator_new_def)

lemma voice_inv_new: "voice_inv lib cfg (new_call lib cfg)"
  by (simp add: voice_inv_def new_call_def VoiceProcessor_new_def state_ok_def)

section \<open>Opening a device\<close>

lemma negotiate_ok:
  "apm_available lib \<Longrightarrow> is_any_enabled cfg \<Longrightarrow> state_ok lib cfg (negotiate lib c r cfg) (Some c) (Some r)"
  by (simp add: state_ok_def negotiate_def build_backend_def split: option.split)

lemma attach_config [simp]: "vp_config (attach lib side rate vp) = vp_config vp"
  by (simp add: attach_def)

lemma attach_capture_ok:
  assumes "state_ok lib (vp_config vp) (vp_state vp) capture render"
  shows "state_ok lib (vp_config vp) (vp_state (attach lib Capture rate vp)) (Some rate) render"
proof (cases "vp_state vp")
  case (Negotiating c r)
  then show ?thesis
    using assms negotiate_ok [of lib "vp_config vp" rate]
    by (cases r) (auto simp: attach_def state_ok_def)
qed (use assms in \<open>auto simp: attach_def state_ok_def\<close>)

lemma attach_render_ok:
  assumes "state_ok lib (vp_config vp) (vp_state vp) capture render"
  shows "state_ok lib (vp_config vp) (vp_state (attach lib Render rate vp)) capture (Some rate)"
proof (cases "vp_state vp")
  case (Negotiating c r)
  then show ?thesis
    using assms negotiate_ok [of lib "vp_config vp" _ rate]
    by (cases c) (auto simp: attach_def state_ok_def)
qed (use assms in \<open>auto simp: attach_def state_ok_def\<close>)

section \<open>Pushing samples through a path\<close>

lemma path_push_ok:
  assumes "path_ok path" "path_accumulator path = Some acc"
  defines "n \<equiv> fa_frame_len acc"
  shows "\<exists>out acc' b'. path_push on_frame vp path rate b acc input =
      Some (out, vp\<lparr>vp_state := Active rate b'\<rparr>, path\<lparr>path_accumulator := Some acc'\<rparr>) \<and>
    path_ok (path\<lparr>path_accumulator := Some acc'\<rparr>) \<and> fa_frame_len acc' = n \<and>
    drain n (\<lambda>s x. Some (on_frame s x)) b (fa_pending acc @ input) = Some (out, b', fa_pending acc')"
proof -
  have n: "0 < n" "fa_frame_len acc = n" using assms by (auto simp: path_ok_def)
  let ?xs = "fa_pending acc @ input"
  obtain out b' rest where d: "drain n (\<lambda>s x. Some (on_frame s x)) b ?xs = Some (out, b', rest)"
    using fold_units_total [of "frames_of n ?xs" "\<lambda>s x. Some (on_frame s x)" b]
    by (auto simp: drain_frames [OF n(1)])
  have "path_push on_frame vp path rate b acc input =
      Some (out, vp\<lparr>vp_state := Active rate b'\<rparr>, path\<lparr>path_accumulator := Some (acc\<lparr>fa_pending := rest\<rparr>)\<rparr>)"
    by (simp add: path_push_def accumulator_push_def n(2) d)
  moreover have "path_ok (path\<lparr>path_accumulator := Some (acc\<lparr>fa_pending := rest\<rparr>)\<rparr>)"
    using assms(1,2) drain_rest [OF d] n by (simp add: path_ok_def)
  ultimately show ?thesis using d n(2) by auto
qed

text \<open>The two ways the microphone's samples can go.\<close>

lemma capture_idle:
  assumes "\<not> is_active vp"
  shows "capture_process lib vp path input = Some (input, vp, path)"
  using assms by (auto simp: capture_process_def is_active_def split: vp_state.splits)

lemma render_idle:
  assumes "\<not> is_active vp"
  shows "render_analyze lib vp path input = Some (vp, path)"
  using assms by (auto simp: render_analyze_def is_active_def split: vp_state.splits)

lemma active_accumulator:
  assumes "FrameAccumulator_new (path_device_rate path) \<noteq> None" "path_ok path"
  obtains acc where "path_accumulator path = Some acc"
  using assms by (cases "path_accumulator path") (auto simp: path_ok_def)

lemma capture_active:
  assumes "path_ok path" "FrameAccumulator_new (path_device_rate path) \<noteq> None" "vp_state vp = Active (path_device_rate path) b"
  shows "\<exists>acc out acc' b'. path_accumulator path = Some acc \<and>
    capture_process lib vp path input = Some (out, vp\<lparr>vp_state := Active (path_device_rate path) b'\<rparr>,
      path\<lparr>path_accumulator := Some acc'\<rparr>) \<and>
    path_ok (path\<lparr>path_accumulator := Some acc'\<rparr>) \<and> fa_frame_len acc' = fa_frame_len acc \<and>
    drain (fa_frame_len acc) (\<lambda>s x. Some (apm_capture lib s x)) b (fa_pending acc @ input) = Some (out, b', fa_pending acc')"
proof -
  obtain acc where acc: "path_accumulator path = Some acc" using active_accumulator [OF assms(2,1)] .
  then show ?thesis
    using path_push_ok [OF assms(1) acc, of "apm_capture lib" vp "path_device_rate path" b input] assms(3)
    by (auto simp: capture_process_def)
qed

lemma render_active:
  assumes "path_ok path" "FrameAccumulator_new (path_device_rate path) \<noteq> None" "vp_state vp = Active (path_device_rate path) b"
  shows "\<exists>path' b'. render_analyze lib vp path input = Some (vp\<lparr>vp_state := Active (path_device_rate path) b'\<rparr>, path') \<and>
    path_ok path' \<and> path_device_rate path' = path_device_rate path"
proof -
  obtain acc where acc: "path_accumulator path = Some acc" using active_accumulator [OF assms(2,1)] .
  obtain out acc' b' where
    push: "path_push (\<lambda>b x. (x, apm_render lib b x)) vp path (path_device_rate path) b acc input =
      Some (out, vp\<lparr>vp_state := Active (path_device_rate path) b'\<rparr>, path\<lparr>path_accumulator := Some acc'\<rparr>)"
    and ok: "path_ok (path\<lparr>path_accumulator := Some acc'\<rparr>)"
    using path_push_ok [OF assms(1) acc, of "\<lambda>b x. (x, apm_render lib b x)" vp "path_device_rate path" b input] by auto
  show ?thesis using push ok assms(3) acc by (auto simp: render_analyze_def)
qed

section \<open>Every step keeps the invariant\<close>

lemma voice_inv_active:
  assumes "voice_inv lib cfg call" "is_active (call_vp call)" "call_capture call = Some path \<or> call_render call = Some path"
  shows "\<exists>b. vp_state (call_vp call) = Active (path_device_rate path) b \<and> path_ok path \<and>
    FrameAccumulator_new (path_device_rate path) \<noteq> None"
  using assms by (auto simp: voice_inv_def state_ok_def is_active_def split: vp_state.splits)

lemma voice_step_Mic:
  assumes inv: "voice_inv lib cfg call" and path: "call_capture call = Some path"
  shows "\<exists>out call'. voice_step lib call (Mic input) = Some (out, call') \<and> voice_inv lib cfg call' \<and>
    is_active (call_vp call') = is_active (call_vp call)"
proof (cases "is_active (call_vp call)")
  case False
  then show ?thesis using inv path by (simp add: capture_idle voice_inv_def)
next
  case True
  with voice_inv_active [OF inv] path obtain b where
    b: "vp_state (call_vp call) = Active (path_device_rate path) b" "path_ok path"
      "FrameAccumulator_new (path_device_rate path) \<noteq> None" by blast
  show ?thesis
    using capture_active [OF b(2,3,1), of lib input] b(1) inv path
    by (auto simp: voice_inv_def state_ok_def is_active_def)
qed

lemma voice_step_Speaker:
  assumes inv: "voice_inv lib cfg call" and path: "call_render call = Some path"
  shows "\<exists>call'. voice_step lib call (Speaker played) = Some ([], call') \<and> voice_inv lib cfg call' \<and>
    call_capture call' = call_capture call \<and> is_active (call_vp call') = is_active (call_vp call)"
proof (cases "is_active (call_vp call)")
  case False
  then show ?thesis using inv path by (simp add: render_idle voice_inv_def)
next
  case True
  with voice_inv_active [OF inv] path obtain b where
    b: "vp_state (call_vp call) = Active (path_device_rate path) b" "path_ok path"
      "FrameAccumulator_new (path_device_rate path) \<noteq> None" by blast
  show ?thesis
    using render_active [OF b(2,3,1), of lib played] b(1) inv path
    by (auto simp: voice_inv_def state_ok_def is_active_def)
qed

lemma voice_step_inv:
  assumes "voice_inv lib cfg call"
  shows "\<exists>out call'. voice_step lib call op = Some (out, call') \<and> voice_inv lib cfg call'"
proof (cases op)
  case (OpenCapture rate)
  then show ?thesis using assms attach_capture_ok [of lib "call_vp call" "opt_rate (call_capture call)" "opt_rate (call_render call)" rate]
    by (auto simp: voice_inv_def capture_path_def path_ok_new)
next
  case (OpenRender rate)
  then show ?thesis using assms attach_render_ok [of lib "call_vp call" "opt_rate (call_capture call)" "opt_rate (call_render call)" rate]
    by (auto simp: voice_inv_def render_path_def path_ok_new)
next
  case (Mic input)
  then show ?thesis using voice_step_Mic [OF assms, of _ input] assms by (cases "call_capture call") fastforce+
next
  case (Speaker played)
  then show ?thesis using voice_step_Speaker [OF assms, of _ played] assms by (cases "call_render call") fastforce+
next
  case ResetCapture
  then show ?thesis using assms
    by (cases "call_capture call") (auto simp: voice_inv_def path_ok_reset)
next
  case ResetRender
  then show ?thesis using assms
    by (cases "call_render call") (auto simp: voice_inv_def path_ok_reset)
qed

lemma voice_step_keeps_active:
  assumes inv: "voice_inv lib cfg call" and "voice_step lib call op = Some (out, call')"
    and "\<And>rate. op \<noteq> OpenCapture rate" "\<And>rate. op \<noteq> OpenRender rate"
  shows "is_active (call_vp call') = is_active (call_vp call)"
proof (cases op)
  case (Mic input)
  then show ?thesis using voice_step_Mic [OF inv, of _ input] assms(2) by (cases "call_capture call") auto
next
  case (Speaker played)
  then show ?thesis using voice_step_Speaker [OF inv, of _ played] assms(2) by (cases "call_render call") auto
qed (use assms in auto)

lemma voice_reach_inv: "voice_reach lib cfg call \<Longrightarrow> voice_inv lib cfg call"
proof (induction rule: voice_reach.induct)
  case voice_new
  show ?case by (rule voice_inv_new)
next
  case (voice_op call op out call')
  then show ?case using voice_step_inv [of lib cfg call op] by auto
qed

lemma voice_run_total:
  "voice_inv lib cfg call \<Longrightarrow> \<exists>outs call'. voice_run lib call ops = Some (outs, call') \<and> voice_inv lib cfg call'"
proof (induction ops arbitrary: call)
  case (Cons op ops)
  from voice_step_inv [OF Cons.prems, of op] obtain out call1 where
    step: "voice_step lib call op = Some (out, call1)" "voice_inv lib cfg call1" by blast
  from Cons.IH [OF step(2)] step(1) show ?case by auto
qed simp

lemma voice_run_reach:
  "voice_reach lib cfg call \<Longrightarrow> voice_run lib call ops = Some (outs, call') \<Longrightarrow> voice_reach lib cfg call'"
proof (induction ops arbitrary: call outs)
  case (Cons op ops)
  then obtain out call1 outs1 where "voice_step lib call op = Some (out, call1)" "voice_run lib call1 ops = Some (outs1, call')"
    by (auto split: Option.bind_splits)
  with Cons show ?case using voice_op by blast
qed simp

section \<open>The microphone's stream\<close>

text \<open>What the microphone delivers in a run, and a run in which only audio flows.\<close>

fun mic_input :: "voice_op \<Rightarrow> f32 list" where
  "mic_input (Mic input) = input"
| "mic_input _ = []"

fun is_audio :: "voice_op \<Rightarrow> bool" where
  "is_audio (Mic _) = True"
| "is_audio (Speaker _) = True"
| "is_audio _ = False"

text \<open>Frames as the library leaves them, in whatever states it is when they come.\<close>

definition captured :: "'b apm \<Rightarrow> 'b list \<Rightarrow> f32 list list \<Rightarrow> f32 list" where
  "captured lib bs frames = concat (map2 (\<lambda>b x. fst (apm_capture lib b x)) bs frames)"

lemma captured_fold:
  "fold_units (\<lambda>s x. Some (apm_capture lib s x)) b xs = Some (out, b') \<Longrightarrow>
   \<exists>bs. length bs = length xs \<and> out = captured lib bs xs"
proof (induction xs arbitrary: b out)
  case (Cons x xs)
  obtain y b1 where y: "apm_capture lib b x = (y, b1)" by fastforce
  with Cons.prems obtain rest where r: "fold_units (\<lambda>s x. Some (apm_capture lib s x)) b1 xs = Some (rest, b')" "out = y @ rest"
    by (auto split: Option.bind_splits)
  from Cons.IH [OF r(1)] obtain bs where "length bs = length xs" "rest = captured lib bs xs" by blast
  then show ?case using r(2) y by (intro exI [of _ "b # bs"]) (simp add: captured_def)
qed (simp add: captured_def)

lemma captured_append:
  "length bs = length xs \<Longrightarrow> captured lib bs xs @ captured lib cs ys = captured lib (bs @ cs) (xs @ ys)"
  by (simp add: captured_def)

text \<open>
  From \<open>pending\<close> samples held back to \<open>rest\<close>: the whole frames of what was held back and of the
  \<open>input\<close> have come out.
\<close>

definition mic_cut :: "nat \<Rightarrow> 'b apm \<Rightarrow> f32 list \<Rightarrow> f32 list \<Rightarrow> f32 list \<Rightarrow> f32 list \<Rightarrow> bool" where
  "mic_cut n lib pending input out rest \<longleftrightarrow>
    (\<exists>bs. length bs = length (frames_of n (pending @ input)) \<and> out = captured lib bs (frames_of n (pending @ input)) \<and>
      concat (frames_of n (pending @ input)) @ rest = pending @ input \<and> length rest < n)"

lemma mic_cut_Nil: "length pending < n \<Longrightarrow> mic_cut n lib pending [] [] pending"
  by (simp add: mic_cut_def frames_of_short captured_def)

lemma mic_cut_drain:
  assumes "drain n (\<lambda>s x. Some (apm_capture lib s x)) b (pending @ input) = Some (out, b', rest)"
  shows "mic_cut n lib pending input out rest"
proof -
  have n: "0 < n" by (rule drain_Some_pos [OF assms])
  then show ?thesis
    using assms drain_concat [OF assms] drain_rest [OF assms] captured_fold [of lib b "frames_of n (pending @ input)" out b']
    by (auto simp: mic_cut_def drain_frames [OF n])
qed

lemma mic_cut_trans:
  assumes "mic_cut n lib p xs out q" "mic_cut n lib q ys out' r"
  shows "mic_cut n lib p (xs @ ys) (out @ out') r"
proof -
  have n: "0 < n" using assms(1) by (auto simp: mic_cut_def)
  have q: "concat (frames_of n (p @ xs)) @ q = p @ xs" using assms(1) by (auto simp: mic_cut_def)
  have "drop (length (p @ xs) div n * n) (p @ xs) = q"
    using conjunct1 [OF frames_of_spec [OF n, of "p @ xs"]] q by (metis append_eq_conv_conj append_take_drop_id same_append_eq)
  then have split: "frames_of n (p @ xs @ ys) = frames_of n (p @ xs) @ frames_of n (q @ ys)"
    using frames_of_append [OF n, of "p @ xs" ys] by simp
  obtain bs cs where "length bs = length (frames_of n (p @ xs))" "out = captured lib bs (frames_of n (p @ xs))"
    "length cs = length (frames_of n (q @ ys))" "out' = captured lib cs (frames_of n (q @ ys))"
    using assms by (auto simp: mic_cut_def)
  moreover have "concat (frames_of n (p @ xs @ ys)) @ r = p @ xs @ ys" "length r < n"
    using assms(2) q by (auto simp: mic_cut_def split)
  ultimately show ?thesis
    unfolding mic_cut_def split by (intro exI [of _ "bs @ cs"]) (simp add: captured_append)
qed

lemma voice_run_audio:
  assumes "voice_inv lib cfg call" "list_all is_audio ops" "call_capture call = Some path" "is_active (call_vp call)"
    "path_accumulator path = Some acc" "fa_frame_len acc = n"
  shows "\<exists>outs call' path' acc'. voice_run lib call ops = Some (outs, call') \<and>
    is_active (call_vp call') \<and> call_capture call' = Some path' \<and> path_accumulator path' = Some acc' \<and>
    mic_cut n lib (fa_pending acc) (concat (map mic_input ops)) (concat outs) (fa_pending acc')"
  using assms
proof (induction ops arbitrary: call path acc)
  case Nil
  then show ?case by (auto simp: voice_inv_def path_ok_def mic_cut_Nil)
next
  case (Cons op ops)
  note inv = Cons.prems(1)
  from voice_inv_active [OF inv Cons.prems(4)] Cons.prems(3) obtain b where
    b: "vp_state (call_vp call) = Active (path_device_rate path) b" "path_ok path"
      "FrameAccumulator_new (path_device_rate path) \<noteq> None" by blast
  show ?case
  proof (cases op)
    case (Mic input)
    from capture_active [OF b(2,3,1), of lib input] Cons.prems(5,6)
    obtain out acc1 b' where
      p: "capture_process lib (call_vp call) path input =
          Some (out, call_vp call\<lparr>vp_state := Active (path_device_rate path) b'\<rparr>, path\<lparr>path_accumulator := Some acc1\<rparr>)"
        "fa_frame_len acc1 = n"
      and d: "drain n (\<lambda>s x. Some (apm_capture lib s x)) b (fa_pending acc @ input) = Some (out, b', fa_pending acc1)"
      by auto
    let ?path = "path\<lparr>path_accumulator := Some acc1\<rparr>"
    let ?call = "call\<lparr>call_vp := call_vp call\<lparr>vp_state := Active (path_device_rate path) b'\<rparr>, call_capture := Some ?path\<rparr>"
    have step: "voice_step lib call op = Some (out, ?call)" using p(1) Mic Cons.prems(3) by simp
    with voice_step_inv [OF inv, of op] have inv': "voice_inv lib cfg ?call" by auto
    from Cons.IH [OF inv', of ?path acc1] Cons.prems(2) p(2)
    obtain outs call' path' acc' where "voice_run lib ?call ops = Some (outs, call')"
      "is_active (call_vp call')" "call_capture call' = Some path'" "path_accumulator path' = Some acc'"
      "mic_cut n lib (fa_pending acc1) (concat (map mic_input ops)) (concat outs) (fa_pending acc')"
      by (auto simp: is_active_def)
    then show ?thesis using step Mic mic_cut_trans [OF mic_cut_drain [OF d]] by auto
  next
    case (Speaker played)
    obtain call1 where step: "voice_step lib call op = Some ([], call1)" "voice_inv lib cfg call1"
        "call_capture call1 = Some path" "is_active (call_vp call1)"
      using voice_step_Speaker [OF inv, of _ played] Speaker Cons.prems(1,3,4) by (cases "call_render call") fastforce+
    from Cons.IH [OF step(2) _ step(3,4) Cons.prems(5,6)] Cons.prems(2) show ?thesis using step(1) Speaker by auto
  qed (use Cons.prems(2) in auto)
qed

lemma voice_run_idle:
  assumes "list_all is_audio ops" "call_capture call = Some path" "\<not> is_active (call_vp call)"
  shows "\<exists>outs. voice_run lib call ops = Some (outs, call) \<and> concat outs = concat (map mic_input ops)"
  using assms(1)
proof (induction ops)
  case (Cons op ops)
  then obtain outs where IH: "voice_run lib call ops = Some (outs, call)" "concat outs = concat (map mic_input ops)" by auto
  have "voice_step lib call op = Some (mic_input op, call)"
    using Cons.prems assms(2,3) by (cases op) (auto simp: capture_idle render_idle split: option.split)
  then show ?case using IH by simp
qed simp

section \<open>Properties\<close>

text \<open>A library that counts the frames it has seen and changes the sign of the microphone's.\<close>

definition counting_apm :: "nat apm" where
  "counting_apm =
    \<lparr>apm_available = True, apm_new = (\<lambda>_. Some 0), apm_set_config = (\<lambda>_ b. b), apm_reinitialize = (\<lambda>_. 0),
     apm_capture = (\<lambda>b x. (map fp_neg x, Suc b)), apm_render = (\<lambda>b _. Suc b), apm_stats = (\<lambda>_. VoiceStats_default)\<rparr>"

lemma counting_apm_starts:
  "\<exists>outs call path. voice_run counting_apm (new_call counting_apm desktop_default) [OpenCapture 8000, OpenRender 8000] =
    Some (outs, call) \<and> is_active (call_vp call) \<and> call_capture call = Some path \<and>
    path_accumulator path = Some \<lparr>fa_frame_len = 80, fa_pending = []\<rparr> \<and> path_device_rate path = 8000"
  by (simp add: new_call_def VoiceProcessor_new_def capture_path_def render_path_def attach_def Let_def
      negotiate_def build_backend_def is_active_def counting_apm_def desktop_default_def is_any_enabled_def
      FrameAccumulator_new_def new_path_def frame_len_def FRAME_MS_def)

text \<open>C27: when the processor works.  However the devices are opened, reopened and reset and whatever
  audio flows, an active processor was compiled in, was asked for something, and runs at a rate of
  8, 16, 32 or 48 kHz at which both devices were last opened; no step fails, one that is switched
  off stays off, and audio and resets neither start nor stop it.\<close>

theorem voice_negotiation:
  assumes "voice_reach lib cfg call"
  shows "(\<forall>rate b. vp_state (call_vp call) = Active rate b \<longrightarrow>
      apm_available lib \<and> is_any_enabled cfg \<and> rate \<in> {8000, 16000, 32000, 48000} \<and>
      opt_rate (call_capture call) = Some rate \<and> opt_rate (call_render call) = Some rate) \<and>
    (\<exists>out call'. voice_step lib call op = Some (out, call') \<and>
      (vp_state (call_vp call) = Disabled \<longrightarrow> vp_state (call_vp call') = Disabled) \<and>
      (is_active (call_vp call') \<noteq> is_active (call_vp call) \<longrightarrow> (\<exists>rate. op = OpenCapture rate \<or> op = OpenRender rate)))"
proof -
  have inv: "voice_inv lib cfg call" by (rule voice_reach_inv [OF assms])
  have runs: "apm_available lib \<and> is_any_enabled cfg \<and> rate \<in> {8000, 16000, 32000, 48000} \<and>
      opt_rate (call_capture call) = Some rate \<and> opt_rate (call_render call) = Some rate"
    if "vp_state (call_vp call) = Active rate b" for rate b
    using inv that new_rate_iff [of rate] by (simp add: voice_inv_def state_ok_def del: not_None_eq)
  obtain out call' where step: "voice_step lib call op = Some (out, call')" "voice_inv lib cfg call'"
    using voice_step_inv [OF inv] by blast
  have off: "vp_state (call_vp call') = Disabled" if "vp_state (call_vp call) = Disabled"
    using step(1) that
    by (cases op) (auto simp: capture_path_def render_path_def attach_def capture_process_def render_analyze_def split: option.splits)
  have "\<exists>rate. op = OpenCapture rate \<or> op = OpenRender rate" if "is_active (call_vp call') \<noteq> is_active (call_vp call)"
    using step(1) that voice_step_keeps_active [OF inv] by (cases op) fastforce+
  with runs off step(1) show ?thesis by blast
qed

theorem voice_negotiation_witness:
  "\<exists>outs call. voice_run counting_apm (new_call counting_apm desktop_default) [OpenCapture 8000, OpenRender 8000] =
      Some (outs, call) \<and> is_active (call_vp call) \<and>
    (\<exists>out call'. voice_step counting_apm call (Mic (replicate 100 (Fin 0))) = Some (out, call') \<and> is_active (call_vp call'))"
proof -
  obtain outs call where
    run: "voice_run counting_apm (new_call counting_apm desktop_default) [OpenCapture 8000, OpenRender 8000] = Some (outs, call)"
    and active: "is_active (call_vp call)"
    using counting_apm_starts by blast
  have "voice_reach counting_apm desktop_default call" by (rule voice_run_reach [OF voice_new run])
  from voice_negotiation [OF this, of "Mic (replicate 100 (Fin 0))"] run active show ?thesis by blast
qed

text \<open>When the processor starts.  Once both devices are open, in either order, it is active exactly
  if it was compiled in and asked for something, the devices share one of the four rates, and the
  library starts at that rate.\<close>

theorem voice_starts_iff:
  "\<exists>call call'. voice_run lib (new_call lib cfg) [OpenCapture c, OpenRender r] = Some ([[], []], call) \<and>
    voice_run lib (new_call lib cfg) [OpenRender r, OpenCapture c] = Some ([[], []], call') \<and> call = call' \<and>
    (is_active (call_vp call) \<longleftrightarrow> apm_available lib \<and> is_any_enabled cfg \<and> c = r \<and>
      c \<in> {8000, 16000, 32000, 48000} \<and> apm_new lib c \<noteq> None)"
  using new_rate_iff [of r]
  by (auto simp: new_call_def VoiceProcessor_new_def capture_path_def render_path_def attach_def Let_def
      negotiate_def build_backend_def is_active_def split: option.splits)

text \<open>C28: what becomes of the microphone.  While only audio flows, in any interleaving of the two
  devices, an inactive processor hands every sample through at once.  An active one cuts
  what it holds back and what comes in into frames of 10 ms; every whole frame comes out, in
  order, as the library leaves it, and the rest, less than a frame, is held back.\<close>

theorem voice_mic_stream:
  assumes "voice_reach lib cfg call" "list_all is_audio ops" "call_capture call = Some path"
  shows "\<exists>outs call' path'. voice_run lib call ops = Some (outs, call') \<and> call_capture call' = Some path' \<and>
    (if is_active (call_vp call)
     then \<exists>acc acc' bs frames. path_accumulator path = Some acc \<and> path_accumulator path' = Some acc' \<and>
       frames = frames_of (frame_len (path_device_rate path)) (fa_pending acc @ concat (map mic_input ops)) \<and>
       length bs = length frames \<and>
       concat outs = concat (map2 (\<lambda>b x. fst (apm_capture lib b x)) bs frames) \<and>
       concat frames @ fa_pending acc' = fa_pending acc @ concat (map mic_input ops) \<and>
       pending_len acc' < frame_len (path_device_rate path)
     else concat outs = concat (map mic_input ops) \<and> call' = call)"
proof (cases "is_active (call_vp call)")
  case False
  with voice_run_idle [OF assms(2,3)] assms(3) show ?thesis by auto
next
  case True
  have inv: "voice_inv lib cfg call" by (rule voice_reach_inv [OF assms(1)])
  from voice_inv_active [OF inv True, of path] assms(3) obtain acc where
    "path_accumulator path = Some acc" "fa_frame_len acc = frame_len (path_device_rate path)"
    by (cases "path_accumulator path") (auto simp: path_ok_def)
  from voice_run_audio [OF inv assms(2,3) True this] True this(1) show ?thesis
    by (fastforce simp: mic_cut_def captured_def pending_len_def)
qed

theorem voice_mic_stream_witness:
  "\<exists>outs call outs' call' path'.
    voice_run counting_apm (new_call counting_apm desktop_default) [OpenCapture 8000, OpenRender 8000] = Some (outs, call) \<and>
    voice_run counting_apm call [Mic (replicate 50 (Fin 1)), Speaker (replicate 99 (Fin 0)), Mic (replicate 60 (Fin 1))] =
      Some (outs', call') \<and>
    concat outs' = replicate 80 (Fin (- 1)) \<and> call_capture call' = Some path' \<and>
    map_option fa_pending (path_accumulator path') = Some (replicate 30 (Fin 1))"
proof -
  let ?new = "new_call counting_apm desktop_default"
  obtain outs call path where
    run: "voice_run counting_apm ?new [OpenCapture 8000, OpenRender 8000] = Some (outs, call)"
    and call: "is_active (call_vp call)" "call_capture call = Some path"
      "path_accumulator path = Some \<lparr>fa_frame_len = 80, fa_pending = []\<rparr>" "path_device_rate path = 8000"
    using counting_apm_starts by blast
  have reach: "voice_reach counting_apm desktop_default call" by (rule voice_run_reach [OF voice_new run])
  obtain ops where ops: "ops = [Mic (replicate 50 (Fin 1)), Speaker (replicate 99 (Fin 0)), Mic (replicate 60 (Fin 1))]" by simp
  then have audio: "list_all is_audio ops" "concat (map mic_input ops) = replicate 80 (Fin 1) @ replicate 30 (Fin 1)"
    by (simp_all add: replicate_add [symmetric])
  have frames: "frames_of 80 (replicate 80 (Fin 1) @ replicate 30 (Fin 1)) = [replicate 80 (Fin 1)]"
    by (subst frames_of.simps) (simp add: frames_of_short)
  from voice_mic_stream [OF reach audio(1) call(2)] call
  obtain outs' call' path' bs acc' where
    r: "voice_run counting_apm call ops = Some (outs', call')" "call_capture call' = Some path'" "path_accumulator path' = Some acc'"
    and bs: "length bs = 1" "concat outs' = concat (map2 (\<lambda>b x. fst (apm_capture counting_apm b x)) bs [replicate 80 (Fin 1)])"
    and rest: "fa_pending acc' = replicate 30 (Fin 1)"
    by (auto simp: audio(2) frames frame_len_def FRAME_MS_def)
  from bs have "concat outs' = replicate 80 (Fin (- 1))"
    by (cases bs) (auto simp: counting_apm_def)
  with run r rest show ?thesis unfolding ops by (intro exI conjI) auto
qed

end
