(* ===== verification/Session_State.thy ===== *)
theory Session_State
  imports Stream_Core Rtp_Stats Devices Recorder Voice_Properties
begin

text \<open>
  The media session of \<^verbatim>\<open>src/src/session.rs\<close>: its state, how it starts and what the application
  can do with it.  A session is one state, which its two audio threads, its RTCP task, the
  tasks that send digits and the application change in turn, each while it holds the locks; a lock
  is never poisoned, since a thread that panics ends the model (\<open>None\<close>).  A turn of a thread or task is
  one step: between taking a sequence number and sending the packet the source leaves room for
  another thread, the model does not.  The features \<^verbatim>\<open>device\<close> and \<^verbatim>\<open>srtp\<close> are on, and a runtime of tokio can always
  be made.
\<close>

section \<open>What the session runs on\<close>

text \<open>The codecs, the cipher and the tag of SRTP, the voice processing library, rubato and the file system.\<close>

record ('e, 'd, 'r, 'b) world =
  w_codecs :: "('e, 'd) codecs"
  w_ks :: keystream
  w_mac :: hmac
  w_apm :: "'b apm"
  w_new_poly :: "fp \<Rightarrow> nat \<Rightarrow> 'r option"
  w_rubato :: "'r \<Rightarrow> fp list \<Rightarrow> nat \<Rightarrow> (string + (fp list \<times> nat)) \<times> 'r"
  w_write_file :: "string \<Rightarrow> bytes \<Rightarrow> io_error_kind option"

section \<open>State\<close>

text \<open>One context used both ways is one context, not two copies.\<close>

datatype SessionSrtp = NoSrtp | Symmetric SrtpContext | Separate SrtpContext SrtpContext

fun srtp_contexts :: "SrtpContext option \<Rightarrow> SrtpContext option \<Rightarrow> SessionSrtp" where
  "srtp_contexts (Some tctx) (Some rctx) = Separate tctx rctx"
| "srtp_contexts (Some tctx) None = Symmetric tctx"
| "srtp_contexts None _ = NoSrtp"

text \<open>What the closures of the two audio threads own, and a thread before and after its device opened;
  before, it has the name of the device, if one was asked for.\<close>

record ('e, 'r) AudioTx =
  at_native_rate :: u32
  at_was_muted :: bool
  at_sample_buffer :: "f32 list"
  at_resampler :: "'r StreamResampler"
  at_pending_pcm :: pcm
  at_encoder :: 'e
  at_punches :: nat

datatype ('e, 'r) tx_thread = TxStarting 'e "string option" | TxRunning "('e, 'r) AudioTx" | TxFailed error

record ('d, 'r) AudioRx =
  ar_native_rate :: u32
  ar_decoder :: 'd
  ar_jitter :: JitterBuffer
  ar_last_transit :: "int option"
  ar_first_seq :: "u16 option"
  ar_other_pts_seen :: "u8 list"
  ar_resampler :: "'r StreamResampler"
  ar_sample_buffer :: "f32 list"
  ar_playback_started :: bool

datatype ('d, 'r) rx_thread = RxStarting 'd "string option" | RxRunning "('d, 'r) AudioRx" | RxStopped | RxFailed error

text \<open>A task that sends a digit: what it took from the session, and for every packet to come its
  marker, its end flag and its duration.\<close>

record DtmfTask =
  dt_payload_type :: u8
  dt_timestamp :: u32
  dt_event_code :: u8
  dt_dest :: SocketAddr
  dt_packets :: "(bool \<times> bool \<times> u16) list"

text \<open>The handles of the recorder share its samples, so only their presence is kept.  Levels are
  kept as the \<^verbatim>\<open>f32\<close> values whose bits the source stores.\<close>

record ('e, 'd, 'r, 'b) MediaSession =
  ms_muted :: bool
  ms_running :: bool
  ms_counters :: RtpCounters
  ms_codec :: CodecType
  ms_learned_remote :: "SocketAddr option"
  ms_ssrc :: u32
  ms_remote_addr :: SocketAddr
  ms_tx_seq :: u16
  ms_tx_ts :: u32
  ms_srtp :: SessionSrtp
  ms_dtmf_payload_type :: u8
  ms_dtmf_clock_rate :: u32
  ms_tx_payload_type :: u8
  ms_recorder :: "CallRecorder option"
  ms_tx_recorder_handle :: bool
  ms_rx_recorder_handle :: bool
  ms_conference_mode :: bool
  ms_tx_level :: f32
  ms_rx_level :: f32
  ms_voice :: "'b voice_call"
  ms_tx :: "('e, 'r) tx_thread"
  ms_rx :: "('d, 'r) rx_thread"
  ms_rtcp_addr :: SocketAddr
  ms_remote_ssrc :: u32
  ms_dtmf_tasks :: "DtmfTask list"

section \<open>Starting\<close>

text \<open>
  One turn of \<^verbatim>\<open>allocate_port\<close> is what the system answered: the port the RTP socket got, or the error,
  and whether the next port could be bound.  It tries again until a pair is free.
\<close>

fun allocate_port :: "((io_error_kind + u16) \<times> bool) list \<Rightarrow> (error + u16) option" where
  "allocate_port [] = None"
| "allocate_port ((Inl k, _) # answers) = Some (Inl (Network k))"
| "allocate_port ((Inr rtp_port, rtcp_free) # answers) =
    (if unat rtp_port mod 2 \<noteq> 0 then allocate_port answers
     else if \<not> rtcp_free then allocate_port answers
     else Some (Inr rtp_port))"

text \<open>The text of an IPv6 address followed by a port does not parse as a socket address, so the RTCP
  address is the RTP address then.  Port numbers wrap, as in a release build.\<close>

definition rtcp_address :: "SocketAddr \<Rightarrow> SocketAddr" where
  "rtcp_address remote =
    (case fst remote of V4 _ \<Rightarrow> (fst remote, snd remote + 1) | V6 _ \<Rightarrow> remote)"

text \<open>What the system gives a session that starts: its answer for a port, three random numbers, and the
  process-wide configuration of voice processing.\<close>

record system =
  sys_bind :: "u16 \<Rightarrow> io_error_kind option"
  sys_ssrc :: u32
  sys_seq :: u16
  sys_ts :: u32
  sys_voice :: VoiceProcessorConfig

text \<open>\<^verbatim>\<open>start_internal\<close>, and the ways to call it.\<close>

definition session_start ::
  "('e, 'd, 'r, 'b) world \<Rightarrow> system \<Rightarrow> u16 \<Rightarrow> SocketAddr \<Rightarrow> CodecType \<Rightarrow> SrtpContext option \<Rightarrow> SrtpContext option \<Rightarrow>
   string option \<Rightarrow> string option \<Rightarrow> VoiceProcessorConfig \<Rightarrow> error + ('e, 'd, 'r, 'b) MediaSession" where
  "session_start w sys local_rtp_port remote codec tx_ctx rx_ctx mic_name speaker_name voice =
    (case sys_bind sys local_rtp_port of Some k \<Rightarrow> Inl (Network k) | None \<Rightarrow>
     (case create_encoder (w_codecs w) codec of Inl e \<Rightarrow> Inl e | Inr encoder \<Rightarrow>
     (case create_decoder (w_codecs w) codec of Inl e \<Rightarrow> Inl e | Inr decoder \<Rightarrow>
     (case sys_bind sys (local_rtp_port + 1) of Some k \<Rightarrow> Inl (Network k) | None \<Rightarrow>
       Inr \<lparr>ms_muted = False, ms_running = True, ms_counters = RtpCounters_new (codec_type_name codec),
         ms_codec = codec, ms_learned_remote = None, ms_ssrc = sys_ssrc sys, ms_remote_addr = remote,
         ms_tx_seq = sys_seq sys, ms_tx_ts = sys_ts sys, ms_srtp = srtp_contexts tx_ctx rx_ctx,
         ms_dtmf_payload_type = 101, ms_dtmf_clock_rate = 8000, ms_tx_payload_type = payload_type codec,
         ms_recorder = None, ms_tx_recorder_handle = False, ms_rx_recorder_handle = False,
         ms_conference_mode = False, ms_tx_level = Fin 0, ms_rx_level = Fin 0,
         ms_voice = new_call (w_apm w) voice, ms_tx = TxStarting encoder mic_name, ms_rx = RxStarting decoder speaker_name,
         ms_rtcp_addr = rtcp_address remote, ms_remote_ssrc = 0, ms_dtmf_tasks = []\<rparr>))))"

definition session_start_default ::
  "('e, 'd, 'r, 'b) world \<Rightarrow> system \<Rightarrow> u16 \<Rightarrow> SocketAddr \<Rightarrow> CodecType \<Rightarrow> error + ('e, 'd, 'r, 'b) MediaSession" where
  "session_start_default w sys port remote codec = session_start w sys port remote codec None None None None (sys_voice sys)"

definition start_with ::
  "('e, 'd, 'r, 'b) world \<Rightarrow> system \<Rightarrow> u16 \<Rightarrow> SocketAddr \<Rightarrow> CodecType \<Rightarrow> VoiceProcessorConfig \<Rightarrow>
   error + ('e, 'd, 'r, 'b) MediaSession" where
  "start_with w sys port remote codec voice = session_start w sys port remote codec None None None None voice"

definition start_with_devices ::
  "('e, 'd, 'r, 'b) world \<Rightarrow> system \<Rightarrow> u16 \<Rightarrow> SocketAddr \<Rightarrow> CodecType \<Rightarrow> string option \<Rightarrow> string option \<Rightarrow>
   error + ('e, 'd, 'r, 'b) MediaSession" where
  "start_with_devices w sys port remote codec mic_name speaker_name =
    session_start w sys port remote codec None None mic_name speaker_name (sys_voice sys)"

definition start_with_srtp ::
  "('e, 'd, 'r, 'b) world \<Rightarrow> system \<Rightarrow> u16 \<Rightarrow> SocketAddr \<Rightarrow> CodecType \<Rightarrow> SrtpContext \<Rightarrow>
   error + ('e, 'd, 'r, 'b) MediaSession" where
  "start_with_srtp w sys port remote codec srtp_ctx =
    session_start w sys port remote codec (Some srtp_ctx) None None None (sys_voice sys)"

definition start_with_srtp_keys ::
  "('e, 'd, 'r, 'b) world \<Rightarrow> system \<Rightarrow> u16 \<Rightarrow> SocketAddr \<Rightarrow> CodecType \<Rightarrow> SrtpContext \<Rightarrow> SrtpContext \<Rightarrow>
   error + ('e, 'd, 'r, 'b) MediaSession" where
  "start_with_srtp_keys w sys port remote codec tx_ctx rx_ctx =
    session_start w sys port remote codec (Some tx_ctx) (Some rx_ctx) None None (sys_voice sys)"

definition start_with_srtp_keys_and_devices ::
  "('e, 'd, 'r, 'b) world \<Rightarrow> system \<Rightarrow> u16 \<Rightarrow> SocketAddr \<Rightarrow> CodecType \<Rightarrow> SrtpContext \<Rightarrow> SrtpContext \<Rightarrow>
   string option \<Rightarrow> string option \<Rightarrow> error + ('e, 'd, 'r, 'b) MediaSession" where
  "start_with_srtp_keys_and_devices w sys port remote codec tx_ctx rx_ctx mic_name speaker_name =
    session_start w sys port remote codec (Some tx_ctx) (Some rx_ctx) mic_name speaker_name (sys_voice sys)"

section \<open>What the application can do\<close>

definition set_dtmf_payload_type :: "u8 \<Rightarrow> ('e, 'd, 'r, 'b) MediaSession \<Rightarrow> ('e, 'd, 'r, 'b) MediaSession" where
  "set_dtmf_payload_type pt s = s\<lparr>ms_dtmf_payload_type := pt\<rparr>"

definition set_dtmf_clock_rate :: "u32 \<Rightarrow> ('e, 'd, 'r, 'b) MediaSession \<Rightarrow> ('e, 'd, 'r, 'b) MediaSession" where
  "set_dtmf_clock_rate rate s = (if rate = 0 then s else s\<lparr>ms_dtmf_clock_rate := rate\<rparr>)"

definition set_audio_payload_type :: "u8 \<Rightarrow> ('e, 'd, 'r, 'b) MediaSession \<Rightarrow> ('e, 'd, 'r, 'b) MediaSession" where
  "set_audio_payload_type pt s = s\<lparr>ms_tx_payload_type := pt\<rparr>"

definition set_mute :: "bool \<Rightarrow> ('e, 'd, 'r, 'b) MediaSession \<Rightarrow> ('e, 'd, 'r, 'b) MediaSession" where
  "set_mute mute s = s\<lparr>ms_muted := mute\<rparr>"

definition set_conference_mode :: "bool \<Rightarrow> ('e, 'd, 'r, 'b) MediaSession \<Rightarrow> ('e, 'd, 'r, 'b) MediaSession" where
  "set_conference_mode enabled s = s\<lparr>ms_conference_mode := enabled\<rparr>"

definition session_stats :: "('e, 'd, 'r, 'b) MediaSession \<Rightarrow> RtpStats \<times> ('e, 'd, 'r, 'b) MediaSession" where
  "session_stats s = (let (stats, counters) = snapshot (ms_counters s) in (stats, s\<lparr>ms_counters := counters\<rparr>))"

definition voice_processing_active :: "('e, 'd, 'r, 'b) MediaSession \<Rightarrow> bool" where
  "voice_processing_active s = is_active (call_vp (ms_voice s))"

definition session_stop :: "('e, 'd, 'r, 'b) MediaSession \<Rightarrow> ('e, 'd, 'r, 'b) MediaSession" where
  "session_stop s = s\<lparr>ms_running := False\<rparr>"

text \<open>Starting a recording drops the one before it, which saves it if it was still running; the first
  result is what that save did.\<close>

definition start_recording ::
  "('e, 'd, 'r, 'b) world \<Rightarrow> string \<Rightarrow> ('e, 'd, 'r, 'b) MediaSession \<Rightarrow>
   (io_error_kind + (string \<times> bytes option)) option \<times> ('e, 'd, 'r, 'b) MediaSession" where
  "start_recording w output_path s =
    (let recorder = recorder_start (CallRecorder_new output_path (word_of_nat (pcm_rate (ms_codec s))));
         dropped = (case ms_recorder s of
           Some rec \<Rightarrow> if cr_recording rec then Some (fst (recorder_stop (w_write_file w) rec)) else None
         | None \<Rightarrow> None) in
     (dropped, s\<lparr>ms_tx_recorder_handle := True, ms_rx_recorder_handle := True, ms_recorder := Some recorder\<rparr>))"

text \<open>The path and the contents of the file written, if there is one.\<close>

definition stop_recording ::
  "('e, 'd, 'r, 'b) world \<Rightarrow> ('e, 'd, 'r, 'b) MediaSession \<Rightarrow>
   (error + (string \<times> bytes option) option) \<times> ('e, 'd, 'r, 'b) MediaSession" where
  "stop_recording w s =
    (let recorder = ms_recorder s;
         s = s\<lparr>ms_tx_recorder_handle := False, ms_rx_recorder_handle := False, ms_recorder := None\<rparr> in
     case recorder of
       None \<Rightarrow> (Inr None, s)
     | Some rec \<Rightarrow>
        (case fst (recorder_stop (w_write_file w) rec) of
           Inl k \<Rightarrow> (Inl (Device (''Recording save failed: '' @ io_message k)), s)
         | Inr saved \<Rightarrow> (Inr (Some saved), s)))"

definition session_is_recording :: "('e, 'd, 'r, 'b) MediaSession \<Rightarrow> bool" where
  "session_is_recording s = (case ms_recorder s of None \<Rightarrow> False | Some rec \<Rightarrow> cr_recording rec)"

text \<open>What an audio thread gives its handle, if it has one.\<close>

definition record_audio ::
  "direction \<Rightarrow> pcm \<Rightarrow> ('e, 'd, 'r, 'b) MediaSession \<Rightarrow> ('e, 'd, 'r, 'b) MediaSession" where
  "record_audio side pcm s =
    (if (case side of TxSide \<Rightarrow> ms_tx_recorder_handle s | RxSide \<Rightarrow> ms_rx_recorder_handle s)
     then s\<lparr>ms_recorder := map_option (\<lambda>rec. add_samples side rec pcm) (ms_recorder s)\<rparr>
     else s)"

section \<open>Addresses and SRTP\<close>

definition session_dest :: "('e, 'd, 'r, 'b) MediaSession \<Rightarrow> SocketAddr" where
  "session_dest s = (case ms_learned_remote s of Some addr \<Rightarrow> addr | None \<Rightarrow> ms_remote_addr s)"

fun tx_context :: "SessionSrtp \<Rightarrow> SrtpContext option" where
  "tx_context NoSrtp = None"
| "tx_context (Symmetric ctx) = Some ctx"
| "tx_context (Separate tctx rctx) = Some tctx"

fun rx_context :: "SessionSrtp \<Rightarrow> SrtpContext option" where
  "rx_context NoSrtp = None"
| "rx_context (Symmetric ctx) = Some ctx"
| "rx_context (Separate tctx rctx) = Some rctx"

fun put_tx_context :: "SrtpContext \<Rightarrow> SessionSrtp \<Rightarrow> SessionSrtp" where
  "put_tx_context ctx NoSrtp = NoSrtp"
| "put_tx_context ctx (Symmetric _) = Symmetric ctx"
| "put_tx_context ctx (Separate _ rctx) = Separate ctx rctx"

fun put_rx_context :: "SrtpContext \<Rightarrow> SessionSrtp \<Rightarrow> SessionSrtp" where
  "put_rx_context ctx NoSrtp = NoSrtp"
| "put_rx_context ctx (Symmetric _) = Symmetric ctx"
| "put_rx_context ctx (Separate tctx _) = Separate tctx ctx"

definition tx_protect ::
  "(SrtpContext \<Rightarrow> bytes \<Rightarrow> (error + bytes) \<times> SrtpContext) \<Rightarrow> bytes \<Rightarrow> ('e, 'd, 'r, 'b) MediaSession \<Rightarrow>
   (error + bytes) \<times> ('e, 'd, 'r, 'b) MediaSession" where
  "tx_protect protect packet s =
    (case tx_context (ms_srtp s) of
       None \<Rightarrow> (Inr packet, s)
     | Some ctx \<Rightarrow> (let (r, ctx) = protect ctx packet in (r, s\<lparr>ms_srtp := put_tx_context ctx (ms_srtp s)\<rparr>)))"

definition rx_unprotect ::
  "(SrtpContext \<Rightarrow> bytes \<Rightarrow> (error + bytes) \<times> SrtpContext) \<Rightarrow> bytes \<Rightarrow> ('e, 'd, 'r, 'b) MediaSession \<Rightarrow>
   (error + bytes) \<times> ('e, 'd, 'r, 'b) MediaSession" where
  "rx_unprotect unprotect packet s =
    (case rx_context (ms_srtp s) of
       None \<Rightarrow> (Inr packet, s)
     | Some ctx \<Rightarrow> (let (r, ctx) = unprotect ctx packet in (r, s\<lparr>ms_srtp := put_rx_context ctx (ms_srtp s)\<rparr>)))"

text \<open>\<^verbatim>\<open>Result::unwrap_or\<close>.\<close>

definition ok_or :: "error + 'a \<Rightarrow> 'a \<Rightarrow> 'a" where
  "ok_or r d = (case r of Inr x \<Rightarrow> x | Inl _ \<Rightarrow> d)"

end
