(* ===== verification/Session_Send.thy ===== *)
theory Session_Send
  imports Session_State Float_Sqrt
begin

text \<open>
  The sending side of the session of \<^verbatim>\<open>src/src/session.rs\<close>: digits, the microphone's callback and
  the keepalive of \<^verbatim>\<open>run_audio_tx\<close>.  What is sent is a list of datagrams with their destinations; the
  socket may lose them, which the source ignores.
\<close>

type_synonym datagrams = "(bytes \<times> SocketAddr) list"

section \<open>Digits\<close>

definition dtmf_durations :: "u32 \<Rightarrow> u16 list" where
  "dtmf_durations event_clock_rate =
    (let per_packet = unat event_clock_rate * PACKET_DURATION_MS div 1000;
         scaled = (\<lambda>n. word_of_nat (min (per_packet * n) 65535)) in
     [scaled 1, scaled 2, scaled 3])"

definition dtmf_event_timestamp :: "u32 \<Rightarrow> u32 \<Rightarrow> u32 \<Rightarrow> u32" where
  "dtmf_event_timestamp audio_ts audio_clock_rate event_clock_rate =
    (if audio_clock_rate = event_clock_rate \<or> audio_clock_rate = 0 then audio_ts
     else word_of_nat (unat audio_ts * unat event_clock_rate div unat audio_clock_rate))"

definition telephone_event_packet ::
  "u8 \<Rightarrow> u16 \<Rightarrow> u32 \<Rightarrow> u32 \<Rightarrow> u8 \<Rightarrow> u8 \<Rightarrow> bool \<Rightarrow> bool \<Rightarrow> u16 \<Rightarrow> bytes" where
  "telephone_event_packet pt sequence timestamp ssrc event_code volume marker is_end duration =
    (let header = RtpHeader_new pt sequence timestamp ssrc;
         header = (if marker then with_marker header else header);
         end_flag = (if is_end then 0x80 else 0x00) in
     RtpHeader_to_bytes header @ [event_code, end_flag OR (volume AND 0x3F)] @ be16 duration)"

definition session_event_code :: "string \<Rightarrow> u8 option" where
  "session_event_code digit =
    map_of [(''0'', 0), (''1'', 1), (''2'', 2), (''3'', 3), (''4'', 4), (''5'', 5), (''6'', 6), (''7'', 7),
      (''8'', 8), (''9'', 9), (''*'', 10), (''#'', 11)] digit"

text \<open>The packets of a digit: one for each duration, and the last one three times.\<close>

definition digit_packets :: "u16 list \<Rightarrow> (bool \<times> bool \<times> u16) list" where
  "digit_packets durations =
    concat (map (\<lambda>i. let is_end = (i = length durations - 1) in
        (i = 0, is_end, durations ! i) # (if is_end then replicate 2 (False, True, durations ! i) else []))
      [0..<length durations])"

definition send_dtmf :: "string \<Rightarrow> ('e, 'd, 'r, 'b) MediaSession \<Rightarrow> ('e, 'd, 'r, 'b) MediaSession" where
  "send_dtmf digit s =
    (case session_event_code digit of
       None \<Rightarrow> s
     | Some event_code \<Rightarrow>
        (let event_rate = ms_dtmf_clock_rate s;
             event_ts = dtmf_event_timestamp (ms_tx_ts s) (word_of_nat (clock_rate (ms_codec s))) event_rate in
         s\<lparr>ms_dtmf_tasks := ms_dtmf_tasks s @
             [\<lparr>dt_payload_type = ms_dtmf_payload_type s, dt_timestamp = event_ts, dt_event_code = event_code,
               dt_dest = session_dest s, dt_packets = digit_packets (dtmf_durations event_rate)\<rparr>]\<rparr>))"

text \<open>What a packet takes from the session when it is protected and sent; the clear packet is sent when
  it cannot be protected.\<close>

definition send_or_clear ::
  "('e, 'd, 'r, 'b) world \<Rightarrow> bytes \<Rightarrow> ('e, 'd, 'r, 'b) MediaSession \<Rightarrow> bytes \<times> ('e, 'd, 'r, 'b) MediaSession" where
  "send_or_clear w packet s =
    (let (r, s) = tx_protect (protect_rtp (w_ks w) (w_mac w)) packet s;
         sent = ok_or r packet in
     (sent, s\<lparr>ms_counters := record_sent (ms_counters s) (word_of_nat (length sent))\<rparr>))"

text \<open>The next packet of the \<open>i\<close>-th task.\<close>

definition dtmf_step ::
  "('e, 'd, 'r, 'b) world \<Rightarrow> nat \<Rightarrow> ('e, 'd, 'r, 'b) MediaSession \<Rightarrow> datagrams \<times> ('e, 'd, 'r, 'b) MediaSession" where
  "dtmf_step w i s =
    (if i < length (ms_dtmf_tasks s) then
      (let task = ms_dtmf_tasks s ! i in
       case dt_packets task of
         [] \<Rightarrow> ([], s)
       | (marker, is_end, duration) # rest \<Rightarrow>
          (let s = s\<lparr>ms_dtmf_tasks := (ms_dtmf_tasks s)[i := task\<lparr>dt_packets := rest\<rparr>]\<rparr>;
               current_seq = ms_tx_seq s;
               s = s\<lparr>ms_tx_seq := ms_tx_seq s + 1\<rparr>;
               packet = telephone_event_packet (dt_payload_type task) current_seq (dt_timestamp task) (ms_ssrc s)
                 (dt_event_code task) 10 marker is_end duration;
               (sent, s) = send_or_clear w packet s in
           ([(sent, dt_dest task)], s)))
     else ([], s))"

section \<open>Packets of audio\<close>

text \<open>The packet of a frame: the sequence number and the timestamp are taken and advanced, then the
  frame is encoded.\<close>

definition audio_packet ::
  "('e, 'd, 'r, 'b) world \<Rightarrow> pcm \<Rightarrow> 'e \<times> ('e, 'd, 'r, 'b) MediaSession \<Rightarrow> bytes \<times> 'e \<times> ('e, 'd, 'r, 'b) MediaSession" where
  "audio_packet w pcm es =
    (case es of (encoder, s) \<Rightarrow>
      (let current_seq = ms_tx_seq s;
           current_ts = ms_tx_ts s;
           s = s\<lparr>ms_tx_seq := current_seq + 1, ms_tx_ts := current_ts + word_of_nat (rtp_ticks_per_packet (ms_codec s))\<rparr>;
           header = RtpHeader_new (ms_tx_payload_type s) current_seq current_ts (ms_ssrc s);
           (payload, encoder) = run_encoder (w_codecs w) encoder pcm in
       (RtpHeader_to_bytes header @ payload, encoder, s)))"

text \<open>The microphone: a packet that cannot be protected is not sent.\<close>

definition mic_packet ::
  "('e, 'd, 'r, 'b) world \<Rightarrow> 'e \<times> ('e, 'd, 'r, 'b) MediaSession \<Rightarrow> pcm \<Rightarrow>
   datagrams \<times> 'e \<times> ('e, 'd, 'r, 'b) MediaSession" where
  "mic_packet w es pcm =
    (case es of (encoder, s) \<Rightarrow>
      (let (packet, encoder, s) = audio_packet w pcm (encoder, record_audio TxSide pcm s);
           (r, s) = tx_protect (protect_rtp (w_ks w) (w_mac w)) packet s in
       case r of
         Inl _ \<Rightarrow> ([], encoder, s)
       | Inr sent \<Rightarrow>
          ([(sent, session_dest s)], encoder,
           s\<lparr>ms_counters := record_sent (ms_counters s) (word_of_nat (length sent))\<rparr>)))"

text \<open>A packet of silence.\<close>

definition keepalive_packet ::
  "('e, 'd, 'r, 'b) world \<Rightarrow> 'e \<times> ('e, 'd, 'r, 'b) MediaSession \<Rightarrow> datagrams \<times> 'e \<times> ('e, 'd, 'r, 'b) MediaSession" where
  "keepalive_packet w es =
    (case es of (encoder, s) \<Rightarrow>
      (let silence_pcm = replicate (pcm_samples_per_packet (ms_codec s)) 0;
           (packet, encoder, s) = audio_packet w silence_pcm (encoder, s);
           (sent, s) = send_or_clear w packet s in
       ([(sent, session_dest s)], encoder, s)))"

section \<open>The microphone's thread\<close>

definition native_samples_per_frame :: "CodecType \<Rightarrow> u32 \<Rightarrow> nat" where
  "native_samples_per_frame codec native_rate =
    (let resample_ratio = fp_div F64 (f64_of_nat (pcm_rate codec)) (f64_of_nat (unat native_rate)) in
     as_usize (fp_ceil (fp_div F64 (f64_of_nat (pcm_samples_per_packet codec)) resample_ratio)))"

text \<open>\<^verbatim>\<open>run_audio_tx\<close> up to its first callback.  The voice processor is told of the device before its stream is
  built and started.  \<open>None\<close> is the panic of a resampler that cannot be made.\<close>

definition session_input :: "audio_host \<Rightarrow> string option \<Rightarrow> error + (device \<times> u32)" where
  "session_input host name =
    (case input_device host name of
       None \<Rightarrow> Inl (Device ''No input device'')
     | Some d \<Rightarrow>
        (case dev_config d of
           Inl e \<Rightarrow> Inl (Device (''No input config: '' @ e))
         | Inr native_rate \<Rightarrow> Inr (d, native_rate)))"

definition input_stream_error :: "device \<Rightarrow> error option" where
  "input_stream_error d =
    (case dev_build d of
       Some e \<Rightarrow> Some (Device (''Failed to build input stream: '' @ e))
     | None \<Rightarrow> map_option (\<lambda>e. Device (''Failed to start input: '' @ e)) (dev_play d))"

definition audio_tx_open ::
  "('e, 'd, 'r, 'b) world \<Rightarrow> audio_host \<Rightarrow> ('e, 'd, 'r, 'b) MediaSession \<Rightarrow> ('e, 'd, 'r, 'b) MediaSession option" where
  "audio_tx_open w host s =
    (case ms_tx s of
       TxStarting encoder name \<Rightarrow>
        (case session_input host name of
           Inl e \<Rightarrow> Some (s\<lparr>ms_tx := TxFailed e\<rparr>)
         | Inr (d, native_rate) \<Rightarrow>
            do { resampler \<leftarrow> StreamResampler_new (w_new_poly w) native_rate (word_of_nat (pcm_rate (ms_codec s)))
                   (native_samples_per_frame (ms_codec s) native_rate);
                 (_, voice) \<leftarrow> voice_step (w_apm w) (ms_voice s) (OpenCapture native_rate);
                 Some (s\<lparr>ms_voice := voice, ms_tx :=
                   (case input_stream_error d of
                      Some e \<Rightarrow> TxFailed e
                    | None \<Rightarrow> TxRunning
                       \<lparr>at_native_rate = native_rate, at_was_muted = False, at_sample_buffer = [], at_resampler = resampler,
                        at_pending_pcm = [], at_encoder = encoder, at_punches = 5\<rparr>)\<rparr>) })
     | _ \<Rightarrow> Some s)"

text \<open>One packet's worth of samples of the device: the level, then the resampler, then every whole
  packet of what is pending.\<close>

definition mic_chunk ::
  "('e, 'd, 'r, 'b) world \<Rightarrow> 'r StreamResampler \<times> pcm \<times> 'e \<times> ('e, 'd, 'r, 'b) MediaSession \<Rightarrow> f32 list \<Rightarrow>
   (datagrams \<times> 'r StreamResampler \<times> pcm \<times> 'e \<times> ('e, 'd, 'r, 'b) MediaSession) option" where
  "mic_chunk w st chunk =
    (case st of (resampler, pending, encoder, s) \<Rightarrow>
      do { let s = s\<lparr>ms_tx_level := rms_level chunk\<rparr>;
           (resampled, resampler) \<leftarrow> resampler_process (w_rubato w) resampler chunk;
           (sent, (encoder, s), pending) \<leftarrow> drain (pcm_samples_per_packet (ms_codec s))
             (\<lambda>es pcm. Some (mic_packet w es pcm)) (encoder, s) (pending @ f32_to_i16 resampled);
           Some (sent, resampler, pending, encoder, s) })"

definition mic_callback ::
  "('e, 'd, 'r, 'b) world \<Rightarrow> f32 list \<Rightarrow> ('e, 'd, 'r, 'b) MediaSession \<Rightarrow> (datagrams \<times> ('e, 'd, 'r, 'b) MediaSession) option" where
  "mic_callback w samples s =
    (case ms_tx s of
       TxRunning a \<Rightarrow>
         if \<not> ms_running s then Some ([], s)
         else if ms_muted s then Some ([], s\<lparr>ms_tx := TxRunning (a\<lparr>at_was_muted := True\<rparr>)\<rparr>)
         else do { (_, voice) \<leftarrow> (if at_was_muted a then voice_step (w_apm w) (ms_voice s) ResetCapture
                                 else Some ([], ms_voice s));
                   (cleaned, voice) \<leftarrow> voice_step (w_apm w) voice (Mic samples);
                   (sent, (resampler, pending, encoder, s), buffer) \<leftarrow>
                     drain (native_samples_per_frame (ms_codec s) (at_native_rate a)) (mic_chunk w)
                       (at_resampler a, at_pending_pcm a, at_encoder a, s\<lparr>ms_voice := voice\<rparr>) (at_sample_buffer a @ cleaned);
                   Some (sent, s\<lparr>ms_tx := TxRunning (a\<lparr>at_was_muted := False, at_sample_buffer := buffer,
                     at_resampler := resampler, at_pending_pcm := pending, at_encoder := encoder\<rparr>)\<rparr>) }
     | _ \<Rightarrow> Some ([], s))"

text \<open>A turn of the keepalive sender: the first five packets punch a hole whatever the state of mute, the
  later ones are only sent while muted.\<close>

definition keepalive_turn ::
  "('e, 'd, 'r, 'b) world \<Rightarrow> ('e, 'd, 'r, 'b) MediaSession \<Rightarrow> datagrams \<times> ('e, 'd, 'r, 'b) MediaSession" where
  "keepalive_turn w s =
    (case ms_tx s of
       TxRunning a \<Rightarrow>
         if \<not> ms_running s then ([], s)
         else if at_punches a = 0 \<and> \<not> ms_muted s then ([], s)
         else (let (sent, encoder, s) = keepalive_packet w (at_encoder a, s) in
               (sent, s\<lparr>ms_tx := TxRunning (a\<lparr>at_encoder := encoder, at_punches := at_punches a - 1\<rparr>)\<rparr>))
     | _ \<Rightarrow> ([], s))"

end
