(* ===== verification/Session_Receive.thy ===== *)
theory Session_Receive
  imports Session_Send
begin

text \<open>
  The receiving side of the session of \<^verbatim>\<open>src/src/session.rs\<close>: \<^verbatim>\<open>run_audio_rx\<close> with the callback of the
  output device, and the RTCP task.  The clocks are arguments: \<open>now\<close> is the monotonic one, \<open>wall\<close> the
  system time in microseconds.
\<close>

section \<open>The speaker\<close>

definition PRE_BUFFER_MS :: nat where "PRE_BUFFER_MS = 60"

definition pre_buffer_samples :: "u32 \<Rightarrow> nat" where
  "pre_buffer_samples native_rate = unat native_rate * PRE_BUFFER_MS div 1000"

definition max_buffer_samples :: "u32 \<Rightarrow> nat" where
  "max_buffer_samples native_rate = unat native_rate div 2"

text \<open>What a buffer of \<open>n\<close> samples is filled with, the queue and whether playback has started.\<close>

definition fill_playback :: "nat \<Rightarrow> nat \<Rightarrow> f32 list \<times> bool \<Rightarrow> f32 list \<times> f32 list \<times> bool" where
  "fill_playback n pre_buffer st =
    (case st of (queue, playback_started) \<Rightarrow>
      if \<not> playback_started \<and> length queue < pre_buffer then (replicate n (Fin 0), queue, False)
      else if queue = [] then (replicate n (Fin 0), queue, False)
      else (take n queue @ replicate (n - length queue) (Fin 0), drop n queue, True))"

definition speaker_callback ::
  "('e, 'd, 'r, 'b) world \<Rightarrow> nat \<Rightarrow> ('e, 'd, 'r, 'b) MediaSession \<Rightarrow> (f32 list \<times> ('e, 'd, 'r, 'b) MediaSession) option" where
  "speaker_callback w n s =
    (case ms_rx s of
       RxRunning a \<Rightarrow>
         (let (samples, queue, started) =
            fill_playback n (pre_buffer_samples (ar_native_rate a)) (ar_sample_buffer a, ar_playback_started a) in
          do { (_, voice) \<leftarrow> voice_step (w_apm w) (ms_voice s) (Speaker samples);
               Some (samples, s\<lparr>ms_voice := voice,
                 ms_rx := RxRunning (a\<lparr>ar_sample_buffer := queue, ar_playback_started := started\<rparr>)\<rparr>) })
     | _ \<Rightarrow> Some ([], s))"

section \<open>Opening the speaker\<close>

text \<open>The head of the receive loop, which is passed before every wait: what wakes the loop up after that is
  handled even if the session was stopped in between.\<close>

definition rx_loop_head :: "('e, 'd, 'r, 'b) MediaSession \<Rightarrow> ('e, 'd, 'r, 'b) MediaSession" where
  "rx_loop_head s = (if ms_running s then s else s\<lparr>ms_rx := RxStopped\<rparr>)"

definition session_jitter_config :: "CodecType \<Rightarrow> JitterConfig" where
  "session_jitter_config codec =
    \<lparr>jc_mode = Adaptive 40 20 150, jc_clock_rate = word_of_nat (clock_rate codec), jc_max_packets = 50\<rparr>"

definition session_output :: "audio_host \<Rightarrow> string option \<Rightarrow> error + (device \<times> u32)" where
  "session_output host name =
    (case output_device host name of
       None \<Rightarrow> Inl (Device ''No output device'')
     | Some d \<Rightarrow>
        (case dev_config d of
           Inl e \<Rightarrow> Inl (Device (''No output config: '' @ e))
         | Inr native_rate \<Rightarrow> Inr (d, native_rate)))"

definition output_stream_error :: "device \<Rightarrow> error option" where
  "output_stream_error d =
    (case dev_build d of
       Some e \<Rightarrow> Some (Device (''Failed to build output stream: '' @ e))
     | None \<Rightarrow> map_option (\<lambda>e. Device (''Failed to start output: '' @ e)) (dev_play d))"

definition audio_rx_open ::
  "('e, 'd, 'r, 'b) world \<Rightarrow> audio_host \<Rightarrow> ('e, 'd, 'r, 'b) MediaSession \<Rightarrow> ('e, 'd, 'r, 'b) MediaSession option" where
  "audio_rx_open w host s =
    (case ms_rx s of
       RxStarting decoder name \<Rightarrow>
        (case session_output host name of
           Inl e \<Rightarrow> Some (s\<lparr>ms_rx := RxFailed e\<rparr>)
         | Inr (d, native_rate) \<Rightarrow>
            do { (_, voice) \<leftarrow> voice_step (w_apm w) (ms_voice s) (OpenRender native_rate);
                 case output_stream_error d of
                   Some e \<Rightarrow> Some (s\<lparr>ms_voice := voice, ms_rx := RxFailed e\<rparr>)
                 | None \<Rightarrow> do {
                 resampler \<leftarrow> StreamResampler_new (w_new_poly w) (word_of_nat (pcm_rate (ms_codec s))) native_rate
                   (pcm_samples_per_packet (ms_codec s));
                 Some (rx_loop_head (s\<lparr>ms_voice := voice, ms_rx := RxRunning
                   \<lparr>ar_native_rate = native_rate, ar_decoder = decoder,
                    ar_jitter = JitterBuffer_new (session_jitter_config (ms_codec s)), ar_last_transit = None,
                    ar_first_seq = None, ar_other_pts_seen = [], ar_resampler = resampler, ar_sample_buffer = [],
                    ar_playback_started = False\<rparr>\<rparr>)) } })
     | _ \<Rightarrow> Some s)"

section \<open>A datagram\<close>

definition RTP_BUFFER :: nat where "RTP_BUFFER = 2048"

text \<open>The remote address is learned from the first datagram.\<close>

definition learn_remote :: "SocketAddr \<Rightarrow> ('e, 'd, 'r, 'b) MediaSession \<Rightarrow> ('e, 'd, 'r, 'b) MediaSession" where
  "learn_remote from_addr s =
    (if ms_learned_remote s = None then s\<lparr>ms_learned_remote := Some from_addr\<rparr> else s)"

definition usec_per_tick :: "CodecType \<Rightarrow> int" where
  "usec_per_tick codec = 1000000 div int (clock_rate codec)"

text \<open>The transit time in microseconds, and its difference from the one before.\<close>

definition track_transit ::
  "int \<Rightarrow> u32 \<Rightarrow> ('d, 'r) AudioRx \<Rightarrow> ('e, 'd, 'r, 'b) MediaSession \<Rightarrow> ('d, 'r) AudioRx \<times> ('e, 'd, 'r, 'b) MediaSession" where
  "track_transit wall ts a s =
    (let transit = wrap_i64 (wall - int (unat ts) * usec_per_tick (ms_codec s));
         s = (case ar_last_transit a of
                None \<Rightarrow> s
              | Some prev \<Rightarrow> s\<lparr>ms_counters :=
                  update_jitter (ms_counters s) (word_of_int \<bar>wrap_i64 (transit - prev)\<bar>)\<rparr>) in
     (a\<lparr>ar_last_transit := Some transit\<rparr>, s))"

definition count_received ::
  "nat \<Rightarrow> u16 \<Rightarrow> ('d, 'r) AudioRx \<Rightarrow> ('e, 'd, 'r, 'b) MediaSession \<Rightarrow> ('d, 'r) AudioRx \<times> ('e, 'd, 'r, 'b) MediaSession" where
  "count_received len seq a s =
    (a\<lparr>ar_first_seq := (case ar_first_seq a of None \<Rightarrow> Some seq | f \<Rightarrow> f)\<rparr>,
     s\<lparr>ms_counters := record_received (ms_counters s) (word_of_nat len) seq\<rparr>)"

text \<open>A parsed packet: only the payload type of the audio goes on to the jitter buffer.\<close>

definition receive_packet ::
  "RtpHeader \<Rightarrow> bytes \<Rightarrow> instant \<Rightarrow> u8 \<Rightarrow> ('d, 'r) AudioRx \<Rightarrow> ('d, 'r) AudioRx" where
  "receive_packet header payload now expected_pt a =
    (if h_payload_type header \<noteq> expected_pt then
       a\<lparr>ar_other_pts_seen := List.insert (h_payload_type header) (ar_other_pts_seen a)\<rparr>
     else a\<lparr>ar_jitter := snd (push_at (ar_jitter a) (h_sequence header) (h_timestamp header) payload now)\<rparr>)"

definition receive_rtp ::
  "bytes \<Rightarrow> nat \<Rightarrow> instant \<Rightarrow> int \<Rightarrow> ('d, 'r) AudioRx \<Rightarrow> ('e, 'd, 'r, 'b) MediaSession \<Rightarrow>
   ('d, 'r) AudioRx \<times> ('e, 'd, 'r, 'b) MediaSession" where
  "receive_rtp rtp_data len now wall a s =
    (let (a, s) = (case parse_sequence rtp_data of None \<Rightarrow> (a, s) | Some seq \<Rightarrow> count_received len seq a s);
         (a, s) = (case parse_timestamp rtp_data of None \<Rightarrow> (a, s) | Some ts \<Rightarrow> track_transit wall ts a s) in
     case parse_rtp rtp_data of
       None \<Rightarrow> (a, s)
     | Some (header, payload) \<Rightarrow> (receive_packet header payload now (ms_tx_payload_type s) a, s))"

definition rx_datagram ::
  "('e, 'd, 'r, 'b) world \<Rightarrow> bytes \<Rightarrow> SocketAddr \<Rightarrow> instant \<Rightarrow> int \<Rightarrow> ('e, 'd, 'r, 'b) MediaSession \<Rightarrow>
   ('e, 'd, 'r, 'b) MediaSession" where
  "rx_datagram w datagram from_addr now wall s =
    (case ms_rx s of
       RxRunning a \<Rightarrow>
        (let datagram = take RTP_BUFFER datagram;
             s = learn_remote from_addr s;
             (opened, s) = rx_unprotect (unprotect_rtp (w_ks w) (w_mac w)) datagram s in
         rx_loop_head
          (case opened of
             Inl _ \<Rightarrow> s
           | Inr rtp_data \<Rightarrow>
               (let (a, s) = receive_rtp rtp_data (length datagram) now wall a s in s\<lparr>ms_rx := RxRunning a\<rparr>)))
     | _ \<Rightarrow> s)"

section \<open>The playout timer\<close>

definition decode_packet ::
  "('e, 'd, 'r, 'b) world \<Rightarrow> CodecType \<Rightarrow> BufferedPacket \<Rightarrow> ('d, 'r) AudioRx \<Rightarrow> pcm \<times> ('d, 'r) AudioRx" where
  "decode_packet w codec pkt a =
    (let (pcm, decoder) =
       (if bp_payload pkt = [] then
          run_conceal (w_codecs w) (ar_decoder a) (pcm_samples_per_packet codec)
            (map_option bp_payload (peek_next (ar_jitter a)))
        else run_decoder (w_codecs w) (ar_decoder a) (bp_payload pkt)) in
     (pcm, a\<lparr>ar_decoder := decoder\<rparr>))"

text \<open>Room is made for the samples to come by dropping the oldest; dropping more than there are is a panic.\<close>

definition queue_playback :: "nat \<Rightarrow> f32 list \<Rightarrow> f32 list \<Rightarrow> f32 list option" where
  "queue_playback max_samples queue resampled =
    (if length queue + length resampled > max_samples then
      (let excess = length queue + length resampled - max_samples in
       if excess > length queue then None else Some (drop excess queue @ resampled))
     else Some (queue @ resampled))"

definition playout_tick ::
  "('e, 'd, 'r, 'b) world \<Rightarrow> instant \<Rightarrow> ('e, 'd, 'r, 'b) MediaSession \<Rightarrow> ('e, 'd, 'r, 'b) MediaSession option" where
  "playout_tick w now s =
    (case ms_rx s of
       RxRunning a \<Rightarrow>
         map_option rx_loop_head (do { (popped, jitter) \<leftarrow> pop_at (ar_jitter a) now;
           let a = a\<lparr>ar_jitter := jitter\<rparr>;
           case popped of
             None \<Rightarrow> Some (s\<lparr>ms_rx := RxRunning a\<rparr>)
           | Some pkt \<Rightarrow>
              (let (pcm, a) = decode_packet w (ms_codec s) pkt a;
                   s = record_audio RxSide pcm s;
                   f32_samples = i16_to_f32 pcm;
                   s = (if f32_samples = [] then s else s\<lparr>ms_rx_level := rms_level f32_samples\<rparr>) in
               do { (resampled, resampler) \<leftarrow> resampler_process (w_rubato w) (ar_resampler a) f32_samples;
                    queue \<leftarrow> queue_playback (max_buffer_samples (ar_native_rate a)) (ar_sample_buffer a) resampled;
                    Some (s\<lparr>ms_rx := RxRunning (a\<lparr>ar_resampler := resampler, ar_sample_buffer := queue\<rparr>)\<rparr>) }) })
     | _ \<Rightarrow> Some s)"

section \<open>RTCP\<close>

definition rtcp_jitter_ticks :: "u64 \<Rightarrow> u32 \<Rightarrow> u32" where
  "rtcp_jitter_ticks us rate = ucast (us * ucast rate div 1000000)"

definition loss_fraction :: "u64 \<Rightarrow> u64 \<Rightarrow> u8" where
  "loss_fraction lost expected = (if expected = 0 then 0 else ucast (lost * 256 div expected))"

definition RTCP_BUFFER :: nat where "RTCP_BUFFER = 512"

definition send_report ::
  "('e, 'd, 'r, 'b) world \<Rightarrow> bytes \<Rightarrow> ('e, 'd, 'r, 'b) MediaSession \<Rightarrow> (bytes \<times> SocketAddr) \<times> ('e, 'd, 'r, 'b) MediaSession" where
  "send_report w report s =
    (let (r, s) = tx_protect (protect_rtcp (w_ks w) (w_mac w)) report s in ((ok_or r report, ms_rtcp_addr s), s))"

definition rtcp_received ::
  "('e, 'd, 'r, 'b) world \<Rightarrow> bytes \<Rightarrow> ('e, 'd, 'r, 'b) MediaSession \<Rightarrow> ('e, 'd, 'r, 'b) MediaSession" where
  "rtcp_received w datagram s =
    (let datagram = take RTCP_BUFFER datagram;
         (r, s) = rx_unprotect (unprotect_rtcp (w_ks w) (w_mac w)) datagram s;
         rtcp_data = ok_or r datagram in
     if 8 \<le> length rtcp_data \<and> (rtcp_data ! 1 = 200 \<or> rtcp_data ! 1 = 201)
     then s\<lparr>ms_remote_ssrc := be32_at rtcp_data 4\<rparr> else s)"

text \<open>The two reports; \<open>unix\<close> is the system time.\<close>

definition session_sr :: "nat \<Rightarrow> RtpStats \<Rightarrow> ('e, 'd, 'r, 'b) MediaSession \<Rightarrow> bytes" where
  "session_sr unix stats s =
    build_rtcp_sr unix (ms_ssrc s) (ucast (st_packets_sent stats)) (ucast (st_bytes_sent stats)) (ms_tx_ts s)"

definition session_rr :: "RtpStats \<Rightarrow> ('e, 'd, 'r, 'b) MediaSession \<Rightarrow> bytes" where
  "session_rr stats s =
    (let received = st_packets_received stats;
         expected = expected_packets (ms_counters s);
         lost = sat_sub expected received in
     build_rtcp_rr (ms_ssrc s) (ms_remote_ssrc s) (loss_fraction lost expected) (ucast lost)
       (highest_seq (ms_counters s))
       (rtcp_jitter_ticks (jitter_us (ms_counters s)) (word_of_nat (clock_rate (ms_codec s)))))"

text \<open>A turn of the task: the reports, then what arrives in the 50 ms after them, if anything.\<close>

definition rtcp_turn ::
  "('e, 'd, 'r, 'b) world \<Rightarrow> nat \<Rightarrow> bytes option \<Rightarrow> ('e, 'd, 'r, 'b) MediaSession \<Rightarrow> datagrams \<times> ('e, 'd, 'r, 'b) MediaSession" where
  "rtcp_turn w unix incoming s =
    (if \<not> ms_running s then ([], s)
     else
      let (stats, s) = session_stats s;
          (sender, s) = send_report w (session_sr unix stats s) s;
          (receiver, s) =
            (if ms_remote_ssrc s = 0 then ([], s)
             else let (sent, s) = send_report w (session_rr stats s) s in ([sent], s));
          s = (case incoming of None \<Rightarrow> s | Some datagram \<Rightarrow> rtcp_received w datagram s) in
      (sender # receiver, s))"

end
