(* ===== verification/Session_Steps.thy ===== *)
theory Session_Steps
  imports Session_Receive
begin

text \<open>
  A session as a whole: its threads and tasks, the network, the devices and the application take turns
  in any order.  An event is one turn of one of them.
\<close>

section \<open>Events\<close>

datatype session_event =
    OpenMic audio_host
  | OpenSpeaker audio_host
  | MicData "f32 list"
  | SpeakerWants nat
  | KeepaliveTurn
  | DtmfTurn nat
  | RtpIn bytes SocketAddr instant int
  | PlayoutTick instant
  | RtcpTurn nat "bytes option"
  | SendDigit string
  | SetMute bool
  | SetConference bool
  | SetDtmfPayloadType u8
  | SetDtmfClockRate u32
  | SetAudioPayloadType u8
  | GetStats
  | StartRecording string
  | StopRecording
  | StopSession

datatype session_out = RtpOut bytes SocketAddr | RtcpOut bytes SocketAddr | Played "f32 list"

abbreviation rtp_out :: "datagrams \<Rightarrow> session_out list" where
  "rtp_out \<equiv> map (\<lambda>(d, addr). RtpOut d addr)"

abbreviation rtcp_out :: "datagrams \<Rightarrow> session_out list" where
  "rtcp_out \<equiv> map (\<lambda>(d, addr). RtcpOut d addr)"

fun session_step ::
  "('e, 'd, 'r, 'b) world \<Rightarrow> ('e, 'd, 'r, 'b) MediaSession \<Rightarrow> session_event \<Rightarrow>
   (session_out list \<times> ('e, 'd, 'r, 'b) MediaSession) option" where
  "session_step w s (OpenMic host) = map_option (\<lambda>s. ([], s)) (audio_tx_open w host s)"
| "session_step w s (OpenSpeaker host) = map_option (\<lambda>s. ([], s)) (audio_rx_open w host s)"
| "session_step w s (MicData samples) = map_option (map_prod rtp_out id) (mic_callback w samples s)"
| "session_step w s (SpeakerWants n) = map_option (map_prod (\<lambda>xs. [Played xs]) id) (speaker_callback w n s)"
| "session_step w s KeepaliveTurn = Some (map_prod rtp_out id (keepalive_turn w s))"
| "session_step w s (DtmfTurn i) = Some (map_prod rtp_out id (dtmf_step w i s))"
| "session_step w s (RtpIn datagram from_addr now wall) = Some ([], rx_datagram w datagram from_addr now wall s)"
| "session_step w s (PlayoutTick now) = map_option (\<lambda>s. ([], s)) (playout_tick w now s)"
| "session_step w s (RtcpTurn unix incoming) = Some (map_prod rtcp_out id (rtcp_turn w unix incoming s))"
| "session_step w s (SendDigit digit) = Some ([], send_dtmf digit s)"
| "session_step w s (SetMute mute) = Some ([], set_mute mute s)"
| "session_step w s (SetConference enabled) = Some ([], set_conference_mode enabled s)"
| "session_step w s (SetDtmfPayloadType pt) = Some ([], set_dtmf_payload_type pt s)"
| "session_step w s (SetDtmfClockRate rate) = Some ([], set_dtmf_clock_rate rate s)"
| "session_step w s (SetAudioPayloadType pt) = Some ([], set_audio_payload_type pt s)"
| "session_step w s GetStats = Some ([], snd (session_stats s))"
| "session_step w s (StartRecording path) = Some ([], snd (start_recording w path s))"
| "session_step w s StopRecording = Some ([], snd (stop_recording w s))"
| "session_step w s StopSession = Some ([], session_stop s)"

fun session_run ::
  "('e, 'd, 'r, 'b) world \<Rightarrow> ('e, 'd, 'r, 'b) MediaSession \<Rightarrow> session_event list \<Rightarrow>
   (session_out list \<times> ('e, 'd, 'r, 'b) MediaSession) option" where
  "session_run w s [] = Some ([], s)"
| "session_run w s (e # es) =
    do { (out, s) \<leftarrow> session_step w s e;
         (outs, s) \<leftarrow> session_run w s es;
         Some (out @ outs, s) }"

text \<open>The RTP datagrams among what a session put out.\<close>

fun rtp_sent :: "session_out list \<Rightarrow> bytes list" where
  "rtp_sent [] = []"
| "rtp_sent (RtpOut d _ # outs) = d # rtp_sent outs"
| "rtp_sent (_ # outs) = rtp_sent outs"

lemma rtp_sent_append [simp]: "rtp_sent (xs @ ys) = rtp_sent xs @ rtp_sent ys"
  by (induction xs rule: rtp_sent.induct) auto

lemma rtp_sent_rtp [simp]: "rtp_sent (rtp_out ds) = map fst ds"
  by (induction ds) auto

lemma rtp_sent_rtcp [simp]: "rtp_sent (rtcp_out ds) = []"
  by (induction ds) auto

end
