(* ===== verification/Session_Stream.thy ===== *)
theory Session_Stream
  imports Session_Steps Srtp_Properties Stream_Call
begin

text \<open>
  What a session puts on the wire: microphone, keepalive and digits share one sequence number and one
  SRTP context, and whatever their turns, they make one consecutive stream (\<^verbatim>\<open>Session_Tasks\<close> has them overlap).
\<close>

section \<open>Effects that compose\<close>

text \<open>A relation between the states before and after and what was put out in between.\<close>

locale effect =
  fixes R :: "'s \<Rightarrow> 'o list \<Rightarrow> 's \<Rightarrow> bool"
  assumes idle: "R s [] s"
    and compose: "R s xs t \<Longrightarrow> R t ys u \<Longrightarrow> R s (xs @ ys) u"
begin

lemma fold_units_effect:
  assumes step: "\<And>c x out c'. f c x = Some (out, c') \<Longrightarrow> R (v c) (g out) (v c')"
    and g: "g [] = []" "\<And>xs ys. g (xs @ ys) = g xs @ g ys"
  shows "fold_units f c xs = Some (out, c') \<Longrightarrow> R (v c) (g out) (v c')"
proof (induction xs arbitrary: c out)
  case Nil
  then show ?case using g(1) by (auto intro: idle)
next
  case (Cons x xs)
  then obtain o1 c1 o2 where o: "f c x = Some (o1, c1)" "fold_units f c1 xs = Some (o2, c')" "out = o1 @ o2"
    by (auto split: Option.bind_splits)
  show ?case unfolding o(3) g(2) by (rule compose [OF step [OF o(1)] Cons.IH [OF o(2)]])
qed

lemma drain_effect:
  assumes "\<And>c x out c'. f c x = Some (out, c') \<Longrightarrow> R (v c) (g out) (v c')"
    and "g [] = []" "\<And>xs ys. g (xs @ ys) = g xs @ g ys"
    and "drain n f c xs = Some (out, c', rest)"
  shows "R (v c) (g out) (v c')"
proof -
  have n: "0 < n" by (rule drain_Some_pos [OF assms(4)])
  from assms(4) have f: "fold_units f c (frames_of n xs) = Some (out, c')" by (auto simp: drain_frames [OF n])
  show ?thesis by (rule fold_units_effect [where f = f and v = v and g = g, OF assms(1-3) f])
qed

end

section \<open>SRTP contexts along a stream\<close>

lemma same_keys_refl [simp]: "same_keys c c"
  by (simp add: same_keys_def)

lemma same_keys_trans: "same_keys a b \<Longrightarrow> same_keys b c \<Longrightarrow> same_keys a c"
  by (simp add: same_keys_def)

lemma protect_rtp_keys: "same_keys c (snd (protect_rtp ks mac c p))"
  by (auto simp: protect_rtp_def same_keys_def Let_def split: option.splits)

lemma protect_rtp_cong:
  assumes "same_keys c d" "tx c = tx d"
  shows "fst (protect_rtp ks mac c p) = fst (protect_rtp ks mac d p) \<and>
    tx (snd (protect_rtp ks mac c p)) = tx (snd (protect_rtp ks mac d p))"
  using assms by (auto simp: protect_rtp_def same_keys_def Let_def split: option.splits)

lemma protect_rtcp_tx: "tx (snd (protect_rtcp ks mac c p)) = tx c \<and> same_keys c (snd (protect_rtcp ks mac c p))"
  by (auto simp: protect_rtcp_def same_keys_def Let_def)

lemma unprotect_rtp_tx: "tx (snd (unprotect_rtp ks mac c p)) = tx c \<and> same_keys c (snd (unprotect_rtp ks mac c p))"
  by (auto simp: unprotect_rtp_def same_keys_def remember_source_def Let_def split: option.splits)

lemma unprotect_rtcp_tx: "tx (snd (unprotect_rtcp ks mac c p)) = tx c \<and> same_keys c (snd (unprotect_rtcp ks mac c p))"
  by (auto simp: unprotect_rtcp_def same_keys_def Let_def split: option.splits)

lemma protect_all_cong:
  "same_keys c d \<Longrightarrow> tx c = tx d \<Longrightarrow>
   fst (protect_all ks mac c ps) = fst (protect_all ks mac d ps) \<and>
   tx (snd (protect_all ks mac c ps)) = tx (snd (protect_all ks mac d ps)) \<and>
   same_keys c (snd (protect_all ks mac c ps))"
proof (induction ps arbitrary: c d)
  case (Cons p ps)
  let ?c = "snd (protect_rtp ks mac c p)" and ?d = "snd (protect_rtp ks mac d p)"
  have keys: "same_keys c ?c" "same_keys d ?d" by (rule protect_rtp_keys)+
  then have "same_keys ?c ?d" using Cons.prems(1) by (simp add: same_keys_def)
  from Cons.IH [OF this] protect_rtp_cong [OF Cons.prems, of ks mac p] keys(1) show ?case
    by (auto simp: case_prod_unfold Let_def intro: same_keys_trans)
qed simp

lemma protect_all_append:
  "protect_all ks mac c (ps @ qs) =
    (let (rs, c1) = protect_all ks mac c ps; (rs', c2) = protect_all ks mac c1 qs in (rs @ rs', c2))"
  by (induction ps arbitrary: c) (simp_all add: case_prod_unfold Let_def)

text \<open>The clear packets \<open>ps\<close> went out as \<open>ds\<close>.\<close>

definition sealed ::
  "('e, 'd, 'r, 'b) world \<Rightarrow> SessionSrtp \<Rightarrow> bytes list \<Rightarrow> bytes list \<Rightarrow> SessionSrtp \<Rightarrow> bool" where
  "sealed w srtp ps ds srtp' \<longleftrightarrow>
    (case tx_context srtp of
       None \<Rightarrow> tx_context srtp' = None \<and> ds = ps
     | Some c \<Rightarrow> \<exists>c'. tx_context srtp' = Some c' \<and> same_keys c c' \<and>
         fst (protect_all (w_ks w) (w_mac w) c ps) = map Inr ds \<and> tx (snd (protect_all (w_ks w) (w_mac w) c ps)) = tx c')"

lemma sealed_trans:
  assumes "sealed w s ps ds t" "sealed w t qs es u"
  shows "sealed w s (ps @ qs) (ds @ es) u"
proof (cases "tx_context s")
  case None
  with assms show ?thesis by (simp add: sealed_def)
next
  case (Some c)
  with assms(1) obtain c' where c': "tx_context t = Some c'" "same_keys c c'"
    "fst (protect_all (w_ks w) (w_mac w) c ps) = map Inr ds" "tx (snd (protect_all (w_ks w) (w_mac w) c ps)) = tx c'"
    by (auto simp: sealed_def)
  with assms(2) obtain c2 where c2: "tx_context u = Some c2" "same_keys c' c2"
    "fst (protect_all (w_ks w) (w_mac w) c' qs) = map Inr es" "tx (snd (protect_all (w_ks w) (w_mac w) c' qs)) = tx c2"
    by (auto simp: sealed_def)
  have "same_keys (snd (protect_all (w_ks w) (w_mac w) c ps)) c'"
    using c'(2) protect_all_cong [of c c "w_ks w" "w_mac w" ps] by (simp add: same_keys_def)
  from protect_all_cong [OF this c'(4), of "w_ks w" "w_mac w" qs] c' c2 Some show ?thesis
    by (auto simp: sealed_def protect_all_append case_prod_unfold Let_def intro: same_keys_trans)
qed

lemma sealed_Nil:
  "sealed w s [] [] t \<longleftrightarrow> rel_option (\<lambda>c c'. same_keys c c' \<and> tx c = tx c') (tx_context s) (tx_context t)"
  by (auto simp: sealed_def option_rel_Some1 split: option.splits)

section \<open>One stream\<close>

text \<open>From \<open>s\<close> to \<open>s'\<close> the RTP datagrams \<open>ds\<close> went out: complete packets of the session's source with the
  next sequence numbers, protected one after the other.\<close>

definition emits ::
  "('e, 'd, 'r, 'b) world \<Rightarrow> ('e, 'd, 'r, 'b) MediaSession \<Rightarrow> bytes list \<Rightarrow> ('e, 'd, 'r, 'b) MediaSession \<Rightarrow> bool" where
  "emits w s ds s' \<longleftrightarrow> ms_ssrc s' = ms_ssrc s \<and>
    (\<forall>n. ms_tx_seq s = word_of_nat n \<longrightarrow>
      (\<exists>ps. consecutive n (ms_ssrc s) ps \<and> length ps = length ds \<and> ms_tx_seq s' = word_of_nat (n + length ps) \<and>
        sealed w (ms_srtp s) ps ds (ms_srtp s')))"

lemma consecutive_append:
  "consecutive n ssrc (ps @ qs) \<longleftrightarrow> consecutive n ssrc ps \<and> consecutive (n + length ps) ssrc qs"
  by (induction ps arbitrary: n) auto

interpretation emitting: effect "emits w" for w :: "('e, 'd, 'r, 'b) world"
proof
  fix s t u :: "('e, 'd, 'r, 'b) MediaSession" and xs ys
  show "emits w s [] s"
    by (auto simp: emits_def sealed_Nil option.rel_refl)
  show "emits w s (xs @ ys) u" if "emits w s xs t" "emits w t ys u"
    unfolding emits_def
  proof (intro conjI allI impI)
    show "ms_ssrc u = ms_ssrc s" using that by (simp add: emits_def)
    fix n assume n: "ms_tx_seq s = word_of_nat n"
    with that(1) obtain ps where ps: "consecutive n (ms_ssrc s) ps" "length ps = length xs"
      "ms_tx_seq t = word_of_nat (n + length ps)" "sealed w (ms_srtp s) ps xs (ms_srtp t)"
      unfolding emits_def by blast
    with that obtain qs where qs: "consecutive (n + length ps) (ms_ssrc s) qs" "length qs = length ys"
      "ms_tx_seq u = word_of_nat (n + length ps + length qs)" "sealed w (ms_srtp t) qs ys (ms_srtp u)"
      unfolding emits_def by metis
    show "\<exists>ps. consecutive n (ms_ssrc s) ps \<and> length ps = length (xs @ ys) \<and> ms_tx_seq u = word_of_nat (n + length ps) \<and>
      sealed w (ms_srtp s) ps (xs @ ys) (ms_srtp u)"
      using ps qs sealed_trans [OF ps(4) qs(4)]
      by (intro exI [of _ "ps @ qs"]) (simp add: consecutive_append add.assoc)
  qed
qed

text \<open>A step that sends nothing.\<close>

lemma emits_nothing:
  assumes "ms_ssrc s' = ms_ssrc s" "ms_tx_seq s' = ms_tx_seq s"
    and "rel_option (\<lambda>c c'. same_keys c c' \<and> tx c = tx c') (tx_context (ms_srtp s)) (tx_context (ms_srtp s'))"
  shows "emits w s [] s'"
  using assms by (simp add: emits_def sealed_Nil)

lemma emits_silent:
  assumes "ms_ssrc s' = ms_ssrc s" "ms_tx_seq s' = ms_tx_seq s" "ms_srtp s' = ms_srtp s"
  shows "emits w s [] s'"
  by (rule emits_nothing) (use assms in \<open>simp_all add: option.rel_refl\<close>)

lemma emits_after: "emits w s ds t \<Longrightarrow> ms_ssrc u = ms_ssrc t \<Longrightarrow> ms_tx_seq u = ms_tx_seq t \<Longrightarrow> ms_srtp u = ms_srtp t \<Longrightarrow>
  emits w s ds u"
  by (simp add: emits_def)

lemma emits_before: "emits w s ds t \<Longrightarrow> ms_ssrc s = ms_ssrc u \<Longrightarrow> ms_tx_seq s = ms_tx_seq u \<Longrightarrow> ms_srtp s = ms_srtp u \<Longrightarrow>
  emits w u ds t"
  by (simp add: emits_def)

text \<open>A packet as a session builds it.\<close>

lemma media_bytes_type:
  "RtpHeader_to_bytes (media_header pt seq ts ssrc m) = RtpHeader_to_bytes (media_header (pt AND 127) seq ts ssrc m)"
  by (simp add: RtpHeader_to_bytes_def header_byte0_def header_byte1_def media_header_def RtpHeader_new_def
      with_marker_def and.assoc)

lemma parse_fields:
  assumes "RtpHeader_parse p = Some h"
  shows "be16_at p 2 = h_sequence h" "be32_at p 8 = h_ssrc h"
proof -
  have "RtpHeader_parse p = Some h \<Longrightarrow> h_sequence h = be16_at p 2 \<and> h_ssrc h = be32_at p 8"
    unfolding RtpHeader_parse_def Let_def by (simp split: if_split_asm) (clarify; simp)+
  with assms show "be16_at p 2 = h_sequence h" "be32_at p 8 = h_ssrc h" by simp_all
qed

lemma media_packet:
  assumes p_def: "p = RtpHeader_to_bytes (media_header pt seq ts ssrc m) @ payload"
  shows "be16_at p 2 = seq" "be32_at p 8 = ssrc" "rtp_header_len p = Some 12"
proof -
  let ?h = "media_header (pt AND 127) seq ts ssrc m"
  have parse: "RtpHeader_parse p = Some ?h"
    unfolding p_def media_bytes_type [of pt] by (intro rtp_wire.decode_encode media_header_wf) (simp add: and.assoc)
  show "be16_at p 2 = seq" "be32_at p 8 = ssrc" using parse_fields [OF parse] by simp_all
  show "rtp_header_len p = Some 12" unfolding rtp_header_len_parse [OF parse] by simp
qed

text \<open>Sending one packet with the next number.\<close>

lemma tx_protect_packet:
  assumes "tx_protect (protect_rtp (w_ks w) (w_mac w)) p s = (r, s')" "rtp_header_len p = Some n"
  shows "\<exists>d. r = Inr d \<and> sealed w (ms_srtp s) [p] [d] (ms_srtp s') \<and> ms_ssrc s' = ms_ssrc s \<and> ms_tx_seq s' = ms_tx_seq s"
proof (cases "tx_context (ms_srtp s)")
  case None
  with assms show ?thesis by (auto simp: tx_protect_def sealed_def)
next
  case (Some c)
  obtain d c' where p: "protect_rtp (w_ks w) (w_mac w) c p = (Inr d, c')"
    using protect_rtp_eq [OF assms(2), of "w_ks w" "w_mac w" c] by (auto simp: Let_def)
  have "tx_context (put_tx_context c' (ms_srtp s)) = Some c'" using Some by (cases "ms_srtp s") auto
  with assms(1) Some p protect_rtp_keys [of c "w_ks w" "w_mac w" p] show ?thesis
    by (auto simp: tx_protect_def sealed_def)
qed

lemma emits_packet:
  assumes "ms_ssrc s1 = ms_ssrc s" "ms_tx_seq s1 = ms_tx_seq s + 1" "ms_srtp s1 = ms_srtp s"
    and "tx_protect (protect_rtp (w_ks w) (w_mac w)) p s1 = (r, s2)"
    and "p = RtpHeader_to_bytes (media_header pt (ms_tx_seq s) ts (ms_ssrc s) m) @ payload"
  shows "\<exists>d. r = Inr d \<and> emits w s [d] s2"
proof -
  note pk = media_packet [OF assms(5)]
  from tx_protect_packet [OF assms(4) pk(3)] obtain d where d: "r = Inr d" "sealed w (ms_srtp s) [p] [d] (ms_srtp s2)"
    "ms_ssrc s2 = ms_ssrc s" "ms_tx_seq s2 = ms_tx_seq s + 1" using assms(1-3) by auto
  then have "emits w s [d] s2"
    unfolding emits_def using pk by (intro conjI allI impI exI [of _ "[p]"]) simp_all
  with d(1) show ?thesis by blast
qed

section \<open>Every turn\<close>

lemma record_audio_fields [simp]:
  "ms_ssrc (record_audio side pcm s) = ms_ssrc s" "ms_tx_seq (record_audio side pcm s) = ms_tx_seq s"
  "ms_srtp (record_audio side pcm s) = ms_srtp s" "ms_codec (record_audio side pcm s) = ms_codec s"
  "ms_tx (record_audio side pcm s) = ms_tx s" "ms_tx_ts (record_audio side pcm s) = ms_tx_ts s"
  "ms_tx_payload_type (record_audio side pcm s) = ms_tx_payload_type s"
  by (simp_all add: record_audio_def)

lemma audio_packet_media:
  assumes "audio_packet w pcm (enc, s) = (p, enc', s')"
  shows "p = RtpHeader_to_bytes (media_header (ms_tx_payload_type s) (ms_tx_seq s) (ms_tx_ts s) (ms_ssrc s) False) @
      fst (run_encoder (w_codecs w) enc pcm)"
    and "ms_ssrc s' = ms_ssrc s" "ms_tx_seq s' = ms_tx_seq s + 1" "ms_srtp s' = ms_srtp s"
  using assms by (auto simp: audio_packet_def media_header_def Let_def case_prod_unfold)

lemma emits_mic_packet:
  assumes "mic_packet w (enc, s) pcm = (out, enc', s')"
  shows "emits w s (map fst out) s'"
proof -
  let ?s = "record_audio TxSide pcm s"
  obtain p enc1 s1 where p: "audio_packet w pcm (enc, ?s) = (p, enc1, s1)" by (metis prod.collapse)
  obtain r s2 where r: "tx_protect (protect_rtp (w_ks w) (w_mac w)) p s1 = (r, s2)" by fastforce
  note m = audio_packet_media [OF p]
  from emits_packet [OF m(2-4) r m(1)] obtain d where d: "r = Inr d" "emits w ?s [d] s2" by blast
  have "emits w s [d] s2" by (rule emits_before [OF d(2)]) simp_all
  with assms show ?thesis by (auto simp: mic_packet_def p r d(1) Let_def intro: emits_after)
qed

lemma emits_send_or_clear:
  assumes "ms_ssrc s1 = ms_ssrc s" "ms_tx_seq s1 = ms_tx_seq s + 1" "ms_srtp s1 = ms_srtp s"
    and "p = RtpHeader_to_bytes (media_header pt (ms_tx_seq s) ts (ms_ssrc s) m) @ payload"
    and "send_or_clear w p s1 = (d, s2)"
  shows "emits w s [d] s2"
proof -
  obtain r s3 where r: "tx_protect (protect_rtp (w_ks w) (w_mac w)) p s1 = (r, s3)" by fastforce
  from emits_packet [OF assms(1-3) r assms(4)] obtain d' where "r = Inr d'" "emits w s [d'] s3" by blast
  with assms(5) r show ?thesis by (auto simp: send_or_clear_def ok_or_def Let_def intro: emits_after)
qed

lemma emits_keepalive_packet:
  assumes "keepalive_packet w (enc, s) = (out, enc', s')"
  shows "emits w s (map fst out) s'"
proof -
  obtain p enc1 s1 where p: "audio_packet w (replicate (pcm_samples_per_packet (ms_codec s)) 0) (enc, s) = (p, enc1, s1)"
    by (metis prod.collapse)
  obtain d s2 where d: "send_or_clear w p s1 = (d, s2)" by fastforce
  note m = audio_packet_media [OF p]
  from emits_send_or_clear [OF m(2-4) m(1) d] assms show ?thesis by (auto simp: keepalive_packet_def p d Let_def)
qed

lemma emits_keepalive: "keepalive_turn w s = (out, s') \<Longrightarrow> emits w s (map fst out) s'"
proof (cases "ms_tx s")
  case (TxRunning a)
  assume k: "keepalive_turn w s = (out, s')"
  obtain out' enc s1 where p: "keepalive_packet w (at_encoder a, s) = (out', enc, s1)" by (metis prod.collapse)
  from emits_keepalive_packet [OF p] k p TxRunning show ?thesis
    by (auto simp: keepalive_turn_def Let_def intro: emits_after emitting.idle split: if_splits)
qed (auto simp: keepalive_turn_def intro: emitting.idle)

lemma event_packet_media:
  "telephone_event_packet pt seq ts ssrc code volume marker is_end duration =
    RtpHeader_to_bytes (media_header pt seq ts ssrc marker) @
    [code, (if is_end then 0x80 else 0x00) OR (volume AND 0x3F)] @ be16 duration"
  by (simp add: telephone_event_packet_def media_header_def Let_def)

lemma emits_dtmf_step:
  assumes "dtmf_step w i s = (out, s')"
  shows "emits w s (map fst out) s'"
proof (cases "i < length (ms_dtmf_tasks s) \<and> dt_packets (ms_dtmf_tasks s ! i) \<noteq> []")
  case True
  define task where "task = ms_dtmf_tasks s ! i"
  obtain marker is_end duration rest where t: "dt_packets task = (marker, is_end, duration) # rest"
    using True by (cases "dt_packets task") (auto simp: task_def)
  define s1 where "s1 = s\<lparr>ms_dtmf_tasks := (ms_dtmf_tasks s)[i := task\<lparr>dt_packets := rest\<rparr>], ms_tx_seq := ms_tx_seq s + 1\<rparr>"
  define p where "p = telephone_event_packet (dt_payload_type task) (ms_tx_seq s) (dt_timestamp task) (ms_ssrc s)
    (dt_event_code task) 10 marker is_end duration"
  obtain d s2 where d: "send_or_clear w p s1 = (d, s2)" by fastforce
  have "emits w s [d] s2"
    by (rule emits_send_or_clear [OF _ _ _ p_def [unfolded event_packet_media] d]) (simp_all add: s1_def)
  moreover have "out = [(d, dt_dest task)]" "s' = s2"
    using assms True t d by (simp_all add: dtmf_step_def Let_def p_def s1_def flip: task_def)
  ultimately show ?thesis by simp
next
  case False
  then have "out = []" "s' = s"
    using assms by (auto simp: dtmf_step_def Let_def split: list.splits if_splits)
  then show ?thesis by (simp add: emitting.idle)
qed

lemma emits_mic_chunk:
  assumes "mic_chunk w (res, pending, enc, s) chunk = Some (out, res', pending', enc', s')"
  shows "emits w s (map fst out) s'"
proof -
  let ?s = "s\<lparr>ms_tx_level := rms_level chunk\<rparr>"
  from assms obtain resampled where
    d: "drain (pcm_samples_per_packet (ms_codec s)) (\<lambda>es pcm. Some (mic_packet w es pcm)) (enc, ?s)
      (pending @ f32_to_i16 resampled) = Some (out, (enc', s'), pending')"
    by (auto simp: mic_chunk_def Let_def split: Option.bind_splits)
  have "emits w (snd (enc, ?s)) (map fst out) (snd (enc', s'))"
    by (rule emitting.drain_effect [where v = snd and g = "map fst", OF _ _ _ d]) (auto dest: emits_mic_packet)
  then show ?thesis by (auto elim: emits_before)
qed

lemma emits_mic: "mic_callback w samples s = Some (out, s') \<Longrightarrow> emits w s (map fst out) s'"
proof (cases "ms_tx s")
  case (TxRunning a)
  assume m: "mic_callback w samples s = Some (out, s')"
  show ?thesis
  proof (cases "ms_running s \<and> \<not> ms_muted s")
    case False
    with m TxRunning show ?thesis
      by (auto simp: mic_callback_def intro: emitting.idle emits_silent split: if_splits)
  next
    case True
    with m TxRunning obtain voice res pending enc s1 cleaned buffer where
      d: "drain (native_samples_per_frame (ms_codec s) (at_native_rate a)) (mic_chunk w)
          (at_resampler a, at_pending_pcm a, at_encoder a, s\<lparr>ms_voice := voice\<rparr>) (at_sample_buffer a @ cleaned) =
          Some (out, (res, pending, enc, s1), buffer)"
      and s': "ms_ssrc s' = ms_ssrc s1" "ms_tx_seq s' = ms_tx_seq s1" "ms_srtp s' = ms_srtp s1"
      by (auto simp: mic_callback_def split: Option.bind_splits)
    let ?v = "\<lambda>(res :: 'c StreamResampler, pending :: pcm, enc :: 'a, s :: ('a, 'b, 'c, 'd) MediaSession). s"
    have "emits w (?v (at_resampler a, at_pending_pcm a, at_encoder a, s\<lparr>ms_voice := voice\<rparr>)) (map fst out) (?v (res, pending, enc, s1))"
      by (rule emitting.drain_effect [where v = ?v and g = "map fst", OF _ _ _ d]) (auto dest: emits_mic_chunk)
    then show ?thesis using s' by (auto intro: emits_before emits_after)
  qed
qed (auto simp: mic_callback_def intro: emitting.idle)

text \<open>The receiving side and the RTCP task use the contexts, but send no RTP.\<close>

lemma rx_unprotect_tx:
  assumes "\<And>c p. tx (snd (unprotect c p)) = tx c \<and> same_keys c (snd (unprotect c p))"
    and "rx_unprotect unprotect p s = (r, s')"
  shows "emits w s [] s' \<and> ms_ssrc s' = ms_ssrc s \<and> ms_tx_seq s' = ms_tx_seq s"
proof -
  have "rel_option (\<lambda>c c'. same_keys c c' \<and> tx c = tx c') (tx_context (ms_srtp s)) (tx_context (ms_srtp s'))"
    using assms by (cases "ms_srtp s") (auto simp: rx_unprotect_def case_prod_unfold Let_def option.rel_refl)
  moreover have "ms_ssrc s' = ms_ssrc s" "ms_tx_seq s' = ms_tx_seq s"
    using assms(2) by (auto simp: rx_unprotect_def case_prod_unfold Let_def split: option.splits)
  ultimately show ?thesis by (simp add: emits_nothing)
qed

lemma emits_send_report:
  assumes "send_report w report s = (d, s')"
  shows "emits w s [] s'"
proof -
  have "rel_option (\<lambda>c c'. same_keys c c' \<and> tx c = tx c') (tx_context (ms_srtp s)) (tx_context (ms_srtp s'))"
    using assms protect_rtcp_tx
    by (cases "ms_srtp s") (auto simp: send_report_def tx_protect_def case_prod_unfold Let_def option.rel_refl)
  moreover have "ms_ssrc s' = ms_ssrc s" "ms_tx_seq s' = ms_tx_seq s"
    using assms by (auto simp: send_report_def tx_protect_def case_prod_unfold Let_def split: option.splits)
  ultimately show ?thesis by (simp add: emits_nothing)
qed

lemma rx_loop_head_fields [simp]:
  "ms_ssrc (rx_loop_head s) = ms_ssrc s" "ms_tx_seq (rx_loop_head s) = ms_tx_seq s" "ms_srtp (rx_loop_head s) = ms_srtp s"
  "ms_learned_remote (rx_loop_head s) = ms_learned_remote s"
  by (simp_all add: rx_loop_head_def)

lemma receive_rtp_fields:
  assumes "receive_rtp rtp len now wall a s = (a', s')"
  shows "ms_ssrc s' = ms_ssrc s" "ms_tx_seq s' = ms_tx_seq s" "ms_srtp s' = ms_srtp s"
    "ms_learned_remote s' = ms_learned_remote s"
  using assms
  by (auto simp: receive_rtp_def count_received_def track_transit_def case_prod_unfold Let_def split: option.splits)

lemma emits_rx_datagram: "emits w s [] (rx_datagram w datagram from_addr now wall s)"
proof (cases "ms_rx s")
  case (RxRunning a)
  let ?d = "take RTP_BUFFER datagram" and ?s = "learn_remote from_addr s"
  obtain r s1 where u: "rx_unprotect (unprotect_rtp (w_ks w) (w_mac w)) ?d ?s = (r, s1)" by fastforce
  have e: "emits w s [] s1"
    using rx_unprotect_tx [OF unprotect_rtp_tx u, of w]
    by (auto elim!: emits_before simp: learn_remote_def)
  show ?thesis
  proof (cases r)
    case (Inl _)
    then show ?thesis using e RxRunning by (auto simp: rx_datagram_def u Let_def intro: emits_after)
  next
    case (Inr rtp)
    obtain a2 s2 where r: "receive_rtp rtp (length ?d) now wall a s1 = (a2, s2)" by fastforce
    show ?thesis using e RxRunning Inr r receive_rtp_fields [OF r]
      by (auto simp: rx_datagram_def u Let_def intro: emits_after)
  qed
qed (auto simp: rx_datagram_def intro: emitting.idle)

lemma emits_rtcp: "rtcp_turn w unix incoming s = (out, s') \<Longrightarrow> emits w s [] s'"
proof (cases "ms_running s")
  case True
  assume t: "rtcp_turn w unix incoming s = (out, s')"
  obtain stats s0 where s0: "session_stats s = (stats, s0)" by fastforce
  obtain d1 s1 where s1: "send_report w (session_sr unix stats s0) s0 = (d1, s1)" by fastforce
  obtain d2 s2 where s2: "(if ms_remote_ssrc s1 = 0 then ([], s1)
      else let (sent, s) = send_report w (session_rr stats s1) s1 in ([sent], s)) = (d2, s2)" by fastforce
  have e0: "emits w s [] s0"
    using s0 by (intro emits_silent) (auto simp: session_stats_def case_prod_unfold Let_def)
  note e1 = emitting.compose [OF e0 emits_send_report [OF s1], simplified]
  have "emits w s1 [] s2"
    using s2 emits_send_report by (auto simp: Let_def intro: emitting.idle split: if_splits prod.splits)
  then have s2': "emits w s [] s2" using emitting.compose [OF e1, of "[]"] by simp
  have s': "s' = (case incoming of None \<Rightarrow> s2 | Some datagram \<Rightarrow> rtcp_received w datagram s2)"
    using t True s2 by (simp add: rtcp_turn_def s0 s1)
  show ?thesis
  proof (cases incoming)
    case (Some datagram)
    obtain r s3 where u: "rx_unprotect (unprotect_rtcp (w_ks w) (w_mac w)) (take RTCP_BUFFER datagram) s2 = (r, s3)" by fastforce
    have "emits w s [] s3" using emitting.compose [OF s2'] rx_unprotect_tx [OF unprotect_rtcp_tx u, of w] by fastforce
    then show ?thesis using s' Some by (auto simp: rtcp_received_def u Let_def intro: emits_after)
  qed (use s2' s' in simp)
qed (auto simp: rtcp_turn_def intro: emitting.idle)

lemma emits_step:
  assumes "session_step w s e = Some (outs, s')"
  shows "emits w s (rtp_sent outs) s'"
proof (cases e)
  case (OpenMic host)
  then show ?thesis using assms
    by (auto simp: audio_tx_open_def intro!: emits_silent split: tx_thread.splits sum.splits Option.bind_splits)
next
  case (OpenSpeaker host)
  then show ?thesis using assms
    by (auto simp: audio_rx_open_def intro!: emits_silent split: rx_thread.splits sum.splits prod.splits option.splits Option.bind_splits)
next
  case (SpeakerWants n)
  then show ?thesis using assms
    by (auto simp: speaker_callback_def case_prod_unfold Let_def intro!: emits_silent split: rx_thread.splits Option.bind_splits)
next
  case (PlayoutTick now)
  then show ?thesis using assms
    by (auto simp: playout_tick_def decode_packet_def case_prod_unfold Let_def intro!: emits_silent
        split: rx_thread.splits Option.bind_splits option.splits if_splits)
next
  case (SendDigit digit)
  then show ?thesis using assms by (auto simp: send_dtmf_def Let_def intro!: emits_silent split: option.splits)
next
  case StopRecording
  then show ?thesis using assms
    by (auto simp: stop_recording_def Let_def intro!: emits_silent split: option.splits sum.splits)
next
  case (RtcpTurn unix incoming)
  then show ?thesis using assms emits_rtcp [of w unix incoming s] by (cases "rtcp_turn w unix incoming s") auto
next
  case (MicData samples)
  then show ?thesis using assms by (auto dest: emits_mic)
next
  case KeepaliveTurn
  then show ?thesis using assms emits_keepalive [of w s] by (cases "keepalive_turn w s") auto
next
  case (DtmfTurn i)
  then show ?thesis using assms emits_dtmf_step [of w i s] by (cases "dtmf_step w i s") auto
qed (use assms in \<open>auto simp: set_mute_def set_conference_mode_def set_dtmf_payload_type_def set_dtmf_clock_rate_def
       set_audio_payload_type_def session_stats_def case_prod_unfold Let_def start_recording_def session_stop_def
       intro!: emits_silent emits_rx_datagram\<close>)

lemma emits_run: "session_run w s es = Some (outs, s') \<Longrightarrow> emits w s (rtp_sent outs) s'"
proof (induction es arbitrary: s outs)
  case Nil
  then show ?case by (auto intro: emitting.idle)
next
  case (Cons e es)
  then obtain out s1 rest where o: "session_step w s e = Some (out, s1)" "session_run w s1 es = Some (rest, s')" "outs = out @ rest"
    by (auto split: Option.bind_splits)
  from emitting.compose [OF emits_step [OF o(1)] Cons.IH [OF o(2)]] o(3) show ?case by simp
qed

section \<open>Properties\<close>

lemma session_start_fields:
  assumes "session_start w sys port remote codec tx_ctx rx_ctx mic speaker voice = Inr s"
  shows "ms_ssrc s = sys_ssrc sys" "ms_tx_seq s = sys_seq sys" "tx_context (ms_srtp s) = tx_ctx"
    "ms_voice s = new_call (w_apm w) voice" "ms_codec s = codec" "ms_learned_remote s = None" "ms_remote_addr s = remote"
    "ms_counters s = RtpCounters_new (codec_type_name codec)"
  using assms by (cases tx_ctx; cases rx_ctx; auto simp: session_start_def split: option.splits sum.splits)+

text \<open>C4: a session sends one stream.  However the microphone, the keepalive, the digits, the network, the
  RTCP task and the application take turns, each turn one step, the RTP packets that a session sends are complete
  packets of its one source, numbered consecutively from the number it drew at the start,
  none twice and none left out; with SRTP each of them went through the sending context, in
  the order in which they are sent, so that none goes out in the clear.\<close>

theorem session_one_stream:
  assumes "session_start w sys port remote codec tx_ctx rx_ctx mic speaker voice = Inr s0"
    and "session_run w s0 es = Some (outs, s)"
  shows "\<exists>packets. consecutive (unat (sys_seq sys)) (sys_ssrc sys) packets \<and> length packets = length (rtp_sent outs) \<and>
    (case tx_ctx of
       None \<Rightarrow> rtp_sent outs = packets
     | Some ctx \<Rightarrow> fst (protect_all (w_ks w) (w_mac w) ctx packets) = map Inr (rtp_sent outs))"
proof -
  note f = session_start_fields [OF assms(1)]
  have "ms_tx_seq s0 = word_of_nat (unat (sys_seq sys))" using f(2) by simp
  with emits_run [OF assms(2)] obtain ps where "consecutive (unat (sys_seq sys)) (sys_ssrc sys) ps" "length ps = length (rtp_sent outs)"
    "sealed w (ms_srtp s0) ps (rtp_sent outs) (ms_srtp s)"
    unfolding emits_def f(1) by blast
  then show ?thesis using f(3) by (cases tx_ctx) (auto simp: sealed_def)
qed

section \<open>A session to try things on\<close>

definition demo_world :: "(unit AudioEncoder, unit AudioDecoder, unit, nat) world" where
  "demo_world =
    \<lparr>w_codecs = demo_tab, w_ks = demo_ks, w_mac = demo_mac, w_apm = counting_apm, w_new_poly = (\<lambda>_ _. Some ()),
     w_rubato = (\<lambda>r chunk n. (Inr (chunk, length chunk), r)), w_write_file = (\<lambda>_ _. None)\<rparr>"

abbreviation demo_system :: system where
  "demo_system \<equiv>
    \<lparr>sys_bind = (\<lambda>_. None), sys_ssrc = 7, sys_seq = 65534, sys_ts = 1000, sys_voice = ALL_OFF\<rparr>"

abbreviation demo_device :: device where
  "demo_device \<equiv> \<lparr>dev_name = Some ''line'', dev_config = Inr 8000, dev_build = None, dev_play = None\<rparr>"

abbreviation demo_host :: audio_host where
  "demo_host \<equiv>
    \<lparr>host_inputs = Some [demo_device], host_outputs = Some [demo_device],
     host_default_input = Some demo_device, host_default_output = Some demo_device\<rparr>"

definition demo_start :: "SrtpContext option \<Rightarrow> error + (unit AudioEncoder, unit AudioDecoder, unit, nat) MediaSession" where
  "demo_start ctx = session_start demo_world demo_system 5000 demo_remote Pcmu ctx None None None ALL_OFF"

lemma demo_start_Inr: "\<exists>s. demo_start ctx = Inr s \<and> ms_tx s = TxStarting PcmuEncoder None \<and> ms_running s \<and> ms_dtmf_tasks s = [] \<and>
  ms_voice s = new_call counting_apm ALL_OFF"
  by (simp add: demo_start_def session_start_def demo_world_def demo_tab_pcmu)

abbreviation demo_events :: "session_event list" where
  "demo_events \<equiv> [OpenMic demo_host, KeepaliveTurn, SendDigit ''5'', DtmfTurn 0, KeepaliveTurn]"

lemma tx_protect_keeps:
  assumes "tx_protect f p s = (r, s')"
  shows "ms_running s' = ms_running s" "ms_dtmf_tasks s' = ms_dtmf_tasks s" "ms_tx s' = ms_tx s" "ms_muted s' = ms_muted s"
  using assms by (auto simp: tx_protect_def case_prod_unfold Let_def split: option.splits)

lemma send_or_clear_keeps:
  assumes "send_or_clear w p s = (d, s')"
  shows "ms_running s' = ms_running s" "ms_dtmf_tasks s' = ms_dtmf_tasks s" "ms_tx s' = ms_tx s" "ms_muted s' = ms_muted s"
  using assms by (auto simp: send_or_clear_def Let_def split: prod.splits dest: tx_protect_keeps)

lemma keepalive_sends:
  assumes "ms_tx s = TxRunning a" "ms_running s" "at_punches a \<noteq> 0 \<or> ms_muted s"
  shows "\<exists>d addr s' enc. keepalive_turn w s = ([(d, addr)], s') \<and> ms_running s' \<and> ms_dtmf_tasks s' = ms_dtmf_tasks s \<and>
    ms_muted s' = ms_muted s \<and> ms_tx s' = TxRunning (a\<lparr>at_encoder := enc, at_punches := at_punches a - 1\<rparr>)"
proof -
  obtain p enc s1 where p: "audio_packet w (replicate (pcm_samples_per_packet (ms_codec s)) 0) (at_encoder a, s) = (p, enc, s1)"
    by (metis prod.collapse)
  then have k: "ms_running s1 = ms_running s" "ms_dtmf_tasks s1 = ms_dtmf_tasks s" "ms_muted s1 = ms_muted s"
    by (auto simp: audio_packet_def case_prod_unfold Let_def)
  obtain d s2 where d: "send_or_clear w p s1 = (d, s2)" by fastforce
  show ?thesis using assms k send_or_clear_keeps [OF d]
    by (auto simp: keepalive_turn_def keepalive_packet_def p d)
qed

lemma dtmf_sends:
  assumes "i < length (ms_dtmf_tasks s)" "dt_packets (ms_dtmf_tasks s ! i) \<noteq> []"
  shows "\<exists>d s'. dtmf_step w i s = ([(d, dt_dest (ms_dtmf_tasks s ! i))], s') \<and> ms_running s' = ms_running s \<and>
    ms_tx s' = ms_tx s \<and> ms_muted s' = ms_muted s"
  using assms
proof (cases "dt_packets (ms_dtmf_tasks s ! i)")
  case (Cons x rest)
  obtain marker is_end duration where x: "x = (marker, is_end, duration)" by (metis prod.collapse)
  let ?task = "ms_dtmf_tasks s ! i"
  let ?s = "s\<lparr>ms_dtmf_tasks := (ms_dtmf_tasks s)[i := ?task\<lparr>dt_packets := rest\<rparr>], ms_tx_seq := ms_tx_seq s + 1\<rparr>"
  obtain d s2 where d: "send_or_clear w (telephone_event_packet (dt_payload_type ?task) (ms_tx_seq s) (dt_timestamp ?task)
    (ms_ssrc s) (dt_event_code ?task) 10 marker is_end duration) ?s = (d, s2)" by fastforce
  show ?thesis using assms send_or_clear_keeps [OF d] by (simp add: dtmf_step_def Cons x d Let_def)
qed simp

lemma demo_run:
  assumes "demo_start ctx = Inr s0"
  shows "\<exists>outs s. session_run demo_world s0 demo_events = Some (outs, s) \<and> length (rtp_sent outs) = 3"
proof -
  obtain t where s0: "ms_tx s0 = TxStarting PcmuEncoder None" "ms_running s0" "ms_dtmf_tasks s0 = []"
    "ms_voice s0 = new_call counting_apm ALL_OFF"
    using demo_start_Inr [of ctx] assms by auto
  obtain s1 a where s1: "audio_tx_open demo_world demo_host s0 = Some s1" "ms_tx s1 = TxRunning a" "at_punches a = 5"
    "ms_running s1" "ms_dtmf_tasks s1 = []"
    using s0 by (auto simp: audio_tx_open_def session_input_def input_device_def safe_default_input_device_def has_any_def
      input_stream_error_def StreamResampler_new_def demo_world_def new_call_def capture_path_def Let_def)
  obtain d2 a2 s2 enc where s2: "keepalive_turn demo_world s1 = ([(d2, a2)], s2)" "ms_running s2" "ms_dtmf_tasks s2 = []"
    "ms_tx s2 = TxRunning (a\<lparr>at_encoder := enc, at_punches := 4\<rparr>)"
    using keepalive_sends [OF s1(2,4), of demo_world] s1 by auto
  define s3 where "s3 = send_dtmf ''5'' s2"
  have s3: "length (ms_dtmf_tasks s3) = 1" "dt_packets (ms_dtmf_tasks s3 ! 0) \<noteq> []" "ms_running s3"
    "ms_tx s3 = TxRunning (a\<lparr>at_encoder := enc, at_punches := 4\<rparr>)"
    using s2 by (simp_all add: s3_def send_dtmf_def session_event_code_def Let_def digit_packets_def dtmf_durations_def upt_rec)
  obtain d4 s4 where s4: "dtmf_step demo_world 0 s3 = ([(d4, dt_dest (ms_dtmf_tasks s3 ! 0))], s4)" "ms_running s4"
    "ms_tx s4 = TxRunning (a\<lparr>at_encoder := enc, at_punches := 4\<rparr>)"
    using dtmf_sends [of 0 s3 demo_world] s3 by (metis less_one)
  obtain d5 a5 s5 where s5: "keepalive_turn demo_world s4 = ([(d5, a5)], s5)"
    using keepalive_sends [OF s4(3,2), of demo_world] by auto
  have "session_run demo_world s0 demo_events = Some ([RtpOut d2 a2, RtpOut d4 (dt_dest (ms_dtmf_tasks s3 ! 0)), RtpOut d5 a5], s5)"
    using s1(1) s2(1) s4(1) s5 by (simp flip: s3_def)
  then show ?thesis by simp
qed

theorem session_one_stream_witness:
  "\<exists>s0 outs s packets. demo_start (Some demo_ctx) = Inr s0 \<and> session_run demo_world s0 demo_events = Some (outs, s) \<and>
    length packets = 3 \<and> consecutive 65534 7 packets \<and>
    fst (protect_all demo_ks demo_mac demo_ctx packets) = map Inr (rtp_sent outs)"
proof -
  obtain s0 where s0: "demo_start (Some demo_ctx) = Inr s0" using demo_start_Inr by blast
  obtain outs s where run: "session_run demo_world s0 demo_events = Some (outs, s)" "length (rtp_sent outs) = 3"
    using demo_run [OF s0] by blast
  have "w_ks demo_world = demo_ks" "w_mac demo_world = demo_mac" by (simp_all add: demo_world_def)
  with session_one_stream [OF s0 [unfolded demo_start_def] run(1)] s0 run show ?thesis by auto
qed

end
