(* ===== verification/Session_Remote.thy ===== *)
theory Session_Remote
  imports Session_Stream
begin

text \<open>
  Where a session of \<^verbatim>\<open>src/src/session.rs\<close> sends to: what a turn leaves alone, and the remote address, which
  the very first datagram decides, whoever sent it.
\<close>

section \<open>What the audio and the reports leave alone\<close>

definition session_frame ::
  "('e, 'd, 'r, 'b) MediaSession \<Rightarrow>
   u32 \<times> CodecType \<times> SocketAddr \<times> SocketAddr \<times> SocketAddr option \<times> DtmfTask list \<times> bool \<times> bool \<times> u8" where
  "session_frame s =
    (ms_ssrc s, ms_codec s, ms_remote_addr s, ms_rtcp_addr s, ms_learned_remote s, ms_dtmf_tasks s, ms_running s, ms_muted s,
     ms_tx_payload_type s)"

lemma session_frame_dest: "session_frame s' = session_frame s \<Longrightarrow> session_dest s' = session_dest s"
  by (auto simp: session_frame_def session_dest_def split: option.splits)

text \<open>Building and sending a packet leaves the threads alone, too.\<close>

definition packet_frame ::
  "('e, 'd, 'r, 'b) MediaSession \<Rightarrow>
   (u32 \<times> CodecType \<times> SocketAddr \<times> SocketAddr \<times> SocketAddr option \<times> DtmfTask list \<times> bool \<times> bool \<times> u8) \<times>
   'b voice_call \<times> ('e, 'r) tx_thread \<times> ('d, 'r) rx_thread \<times> u32" where
  "packet_frame s = (session_frame s, ms_voice s, ms_tx s, ms_rx s, ms_dtmf_clock_rate s)"

lemmas frame_defs = packet_frame_def session_frame_def

lemma packet_frame_session: "packet_frame s' = packet_frame s \<Longrightarrow> session_frame s' = session_frame s"
  by (simp add: packet_frame_def)

text \<open>Nothing of the frame changes, and the datagrams go to the session's destination.\<close>

definition steady :: "('e, 'd, 'r, 'b) MediaSession \<Rightarrow> datagrams \<Rightarrow> ('e, 'd, 'r, 'b) MediaSession \<Rightarrow> bool" where
  "steady s ds s' \<longleftrightarrow> packet_frame s' = packet_frame s \<and> snd ` set ds \<subseteq> {session_dest s}"

interpretation steady_turns: effect steady
  by unfold_locales (auto simp: steady_def dest!: session_frame_dest packet_frame_session)

lemma tx_protect_frame: "tx_protect f p s = (r, s') \<Longrightarrow> packet_frame s' = packet_frame s"
  by (auto simp: tx_protect_def frame_defs case_prod_unfold Let_def split: option.splits)

lemma rx_unprotect_frame: "rx_unprotect f p s = (r, s') \<Longrightarrow> packet_frame s' = packet_frame s"
  by (auto simp: rx_unprotect_def frame_defs case_prod_unfold Let_def split: option.splits)

lemma counters_frame [simp]: "packet_frame (s\<lparr>ms_counters := counters\<rparr>) = packet_frame s"
  by (simp add: frame_defs)

lemma send_or_clear_frame: "send_or_clear w p s = (d, s') \<Longrightarrow> packet_frame s' = packet_frame s"
  by (auto simp: send_or_clear_def Let_def dest!: tx_protect_frame split: prod.splits)

lemma audio_packet_frame: "audio_packet w pcm (enc, s) = (p, enc', s') \<Longrightarrow> packet_frame s' = packet_frame s"
  by (auto simp: audio_packet_def frame_defs case_prod_unfold Let_def)

lemma record_audio_frame [simp]: "packet_frame (record_audio side pcm s) = packet_frame s"
  by (simp add: record_audio_def frame_defs)

lemma packet_frame_dest: "packet_frame s' = packet_frame s \<Longrightarrow> session_dest s' = session_dest s"
  by (intro session_frame_dest packet_frame_session)

lemma steady_mic_packet: "mic_packet w (enc, s) pcm = (out, enc', s') \<Longrightarrow> steady s out s'"
proof -
  assume m: "mic_packet w (enc, s) pcm = (out, enc', s')"
  obtain p enc1 s1 where p: "audio_packet w pcm (enc, record_audio TxSide pcm s) = (p, enc1, s1)" by (metis prod.collapse)
  obtain r s2 where r: "tx_protect (protect_rtp (w_ks w) (w_mac w)) p s1 = (r, s2)" by fastforce
  have f: "packet_frame s2 = packet_frame s" using audio_packet_frame [OF p] tx_protect_frame [OF r] by simp
  show ?thesis using m f packet_frame_dest [OF f]
    by (auto simp: mic_packet_def p r steady_def Let_def split: sum.splits)
qed

lemma steady_keepalive_packet: "keepalive_packet w (enc, s) = (out, enc', s') \<Longrightarrow> steady s out s'"
proof -
  assume k: "keepalive_packet w (enc, s) = (out, enc', s')"
  obtain p enc1 s1 where p: "audio_packet w (replicate (pcm_samples_per_packet (ms_codec s)) 0) (enc, s) = (p, enc1, s1)"
    by (metis prod.collapse)
  obtain d s2 where d: "send_or_clear w p s1 = (d, s2)" by fastforce
  have f: "packet_frame s2 = packet_frame s" using audio_packet_frame [OF p] send_or_clear_frame [OF d] by simp
  show ?thesis using k f packet_frame_dest [OF f] by (auto simp: keepalive_packet_def p d steady_def Let_def)
qed

lemma steady_before: "steady s ds t \<Longrightarrow> packet_frame s = packet_frame u \<Longrightarrow> steady u ds t"
  by (metis packet_frame_dest steady_def)

lemma mic_chunk_drain:
  assumes "mic_chunk w (res, pending, enc, s) chunk = Some (out, res', pending', enc', s')"
  obtains resampled where "resampler_process (w_rubato w) res chunk = Some (resampled, res')"
    "drain (pcm_samples_per_packet (ms_codec s)) (\<lambda>es pcm. Some (mic_packet w es pcm)) (enc, s\<lparr>ms_tx_level := rms_level chunk\<rparr>)
      (pending @ f32_to_i16 resampled) = Some (out, (enc', s'), pending')"
  using assms by (auto simp: mic_chunk_def Let_def split: Option.bind_splits)

lemma steady_mic_chunk:
  assumes "mic_chunk w (res, pending, enc, s) chunk = Some (out, res', pending', enc', s')"
  shows "steady s out s'"
proof -
  let ?s = "s\<lparr>ms_tx_level := rms_level chunk\<rparr>"
  from assms obtain resampled where
    d: "drain (pcm_samples_per_packet (ms_codec s)) (\<lambda>es pcm. Some (mic_packet w es pcm)) (enc, ?s)
      (pending @ f32_to_i16 resampled) = Some (out, (enc', s'), pending')"
    by (rule mic_chunk_drain)
  have "steady (snd (enc, ?s)) out (snd (enc', s'))"
    by (rule steady_turns.drain_effect [where v = snd and g = "\<lambda>x. x", OF _ _ _ d]) (auto dest: steady_mic_packet)
  then show ?thesis by (auto elim!: steady_before simp: frame_defs)
qed

text \<open>The callback on samples it works on: the voice processor, then the packets.\<close>

lemma mic_callback_works:
  assumes "mic_callback w samples s = Some (out, s')" "ms_tx s = TxRunning a" "ms_running s" "\<not> ms_muted s"
  obtains voice0 o0 voice cleaned res pending enc s1 buffer where
    "(if at_was_muted a then voice_step (w_apm w) (ms_voice s) ResetCapture else Some ([], ms_voice s)) = Some (o0, voice0)"
    "voice_step (w_apm w) voice0 (Mic samples) = Some (cleaned, voice)"
    "drain (native_samples_per_frame (ms_codec s) (at_native_rate a)) (mic_chunk w)
      (at_resampler a, at_pending_pcm a, at_encoder a, s\<lparr>ms_voice := voice\<rparr>) (at_sample_buffer a @ cleaned) =
      Some (out, (res, pending, enc, s1), buffer)"
    "s' = s1\<lparr>ms_tx := TxRunning (a\<lparr>at_was_muted := False, at_sample_buffer := buffer, at_resampler := res,
      at_pending_pcm := pending, at_encoder := enc\<rparr>)\<rparr>"
    "steady (s\<lparr>ms_voice := voice\<rparr>) out s1"
proof -
  from assms obtain voice0 o0 voice cleaned res pending enc s1 buffer where
    d0: "(if at_was_muted a then voice_step (w_apm w) (ms_voice s) ResetCapture else Some ([], ms_voice s)) = Some (o0, voice0)"
    and d1: "voice_step (w_apm w) voice0 (Mic samples) = Some (cleaned, voice)"
    and d2: "drain (native_samples_per_frame (ms_codec s) (at_native_rate a)) (mic_chunk w)
      (at_resampler a, at_pending_pcm a, at_encoder a, s\<lparr>ms_voice := voice\<rparr>) (at_sample_buffer a @ cleaned) =
      Some (out, (res, pending, enc, s1), buffer)"
    and s': "s' = s1\<lparr>ms_tx := TxRunning (a\<lparr>at_was_muted := False, at_sample_buffer := buffer, at_resampler := res,
      at_pending_pcm := pending, at_encoder := enc\<rparr>)\<rparr>"
    by (simp add: mic_callback_def split: Option.bind_splits prod.splits)
  let ?v = "\<lambda>(res :: 'c StreamResampler, pending :: pcm, enc :: 'a, s :: ('a, 'b, 'c, 'd) MediaSession). s"
  have "steady (?v (at_resampler a, at_pending_pcm a, at_encoder a, s\<lparr>ms_voice := voice\<rparr>)) out (?v (res, pending, enc, s1))"
    by (rule steady_turns.drain_effect [where v = ?v and g = "\<lambda>x. x", OF _ _ _ d2]) (auto dest: steady_mic_chunk)
  then show ?thesis using that [OF d0 d1 d2 s'] by simp
qed

text \<open>The turns themselves leave the frame of the session alone.\<close>

definition outward :: "('e, 'd, 'r, 'b) MediaSession \<Rightarrow> datagrams \<Rightarrow> ('e, 'd, 'r, 'b) MediaSession \<Rightarrow> bool" where
  "outward s ds s' \<longleftrightarrow> session_frame s' = session_frame s \<and> snd ` set ds \<subseteq> {session_dest s}"

lemma outward_steady:
  assumes "steady t ds u" "session_frame t = session_frame s" "session_frame s' = session_frame u"
  shows "outward s ds s'"
  using assms session_frame_dest [OF assms(2)] packet_frame_session [of u t] by (simp add: outward_def steady_def)

lemma outward_mic: "mic_callback w samples s = Some (out, s') \<Longrightarrow> outward s out s'"
proof (cases "ms_tx s")
  case (TxRunning a)
  assume m: "mic_callback w samples s = Some (out, s')"
  show ?thesis
  proof (cases "ms_running s \<and> \<not> ms_muted s")
    case False
    with m TxRunning show ?thesis
      by (auto simp: mic_callback_def outward_def session_frame_def split: if_splits)
  next
    case True
    then have r: "ms_running s" "\<not> ms_muted s" by simp_all
    show ?thesis
      by (rule mic_callback_works [OF m TxRunning r], rule outward_steady, assumption) (simp_all add: session_frame_def)
  qed
qed (auto simp: mic_callback_def outward_def)

lemma outward_keepalive: "keepalive_turn w s = (out, s') \<Longrightarrow> outward s out s'"
proof (cases "ms_tx s")
  case (TxRunning a)
  assume k: "keepalive_turn w s = (out, s')"
  obtain out1 enc s1 where p: "keepalive_packet w (at_encoder a, s) = (out1, enc, s1)" by (metis prod.collapse)
  from outward_steady [OF steady_keepalive_packet [OF p] refl, of "s1\<lparr>ms_tx := t\<rparr>" for t] k TxRunning
  show ?thesis by (auto simp: keepalive_turn_def p Let_def outward_def session_frame_def split: if_splits)
qed (auto simp: keepalive_turn_def outward_def)

lemma send_report_frame:
  "send_report w report t = (d, u) \<Longrightarrow> packet_frame u = packet_frame t \<and> snd d = ms_rtcp_addr t"
  by (auto simp: send_report_def Let_def frame_defs split: prod.splits dest!: tx_protect_frame)

lemma remote_ssrc_frame [simp]: "packet_frame (s\<lparr>ms_remote_ssrc := ssrc\<rparr>) = packet_frame s"
  by (simp add: frame_defs)

lemma rtcp_received_frame: "packet_frame (rtcp_received w datagram s) = packet_frame s"
  by (auto simp: rtcp_received_def Let_def split: prod.splits dest!: rx_unprotect_frame)

lemma rtcp_frame:
  assumes "rtcp_turn w unix incoming s = (out, s')"
  shows "packet_frame s' = packet_frame s \<and> snd ` set out \<subseteq> {ms_rtcp_addr s}"
proof (cases "ms_running s")
  case True
  obtain stats s0 where s0: "session_stats s = (stats, s0)" by fastforce
  have f0: "packet_frame s0 = packet_frame s" using s0 by (auto simp: session_stats_def case_prod_unfold Let_def)
  obtain d1 s1 where s1: "send_report w (session_sr unix stats s0) s0 = (d1, s1)" by fastforce
  obtain d2 s2 where s2: "(if ms_remote_ssrc s1 = 0 then ([], s1)
      else let (sent, s) = send_report w (session_rr stats s1) s1 in ([sent], s)) = (d2, s2)" by fastforce
  have f2: "packet_frame s2 = packet_frame s1 \<and> snd ` set d2 \<subseteq> {ms_rtcp_addr s1}"
    using s2 by (auto simp: Let_def split: if_splits prod.splits dest: send_report_frame)
  have "ms_rtcp_addr s0 = ms_rtcp_addr s" "ms_rtcp_addr s1 = ms_rtcp_addr s"
    using f0 send_report_frame [OF s1] by (simp_all add: frame_defs)
  moreover have "out = d1 # d2" and s': "s' = (case incoming of None \<Rightarrow> s2 | Some datagram \<Rightarrow> rtcp_received w datagram s2)"
    using assms True s2 by (simp_all add: rtcp_turn_def s0 s1)
  ultimately show ?thesis using f0 f2 send_report_frame [OF s1] by (auto simp: rtcp_received_frame split: option.splits)
qed (use assms in \<open>simp add: rtcp_turn_def\<close>)

lemma receive_frame: "receive_rtp rtp len now wall a s = (a', s') \<Longrightarrow> packet_frame s' = packet_frame s"
  by (auto simp: receive_rtp_def count_received_def track_transit_def case_prod_unfold Let_def split: option.splits)

lemma rx_loop_head_frame [simp]: "session_frame (rx_loop_head s) = session_frame s"
  by (simp add: rx_loop_head_def session_frame_def)

lemma rx_frame [simp]: "session_frame (s\<lparr>ms_rx := thread\<rparr>) = session_frame s"
  by (simp add: session_frame_def)

lemma rx_datagram_frame:
  "session_frame (rx_datagram w datagram from_addr now wall s) =
    session_frame (case ms_rx s of RxRunning a \<Rightarrow> learn_remote from_addr s | _ \<Rightarrow> s)"
  by (auto simp: rx_datagram_def Let_def split: rx_thread.splits prod.splits sum.splits
      dest!: rx_unprotect_frame receive_frame packet_frame_session)

lemma playout_frame: "playout_tick w now s = Some s' \<Longrightarrow> session_frame s' = session_frame s"
  by (auto simp: playout_tick_def decode_packet_def case_prod_unfold Let_def
      split: rx_thread.splits Option.bind_splits option.splits if_splits) (simp_all add: session_frame_def record_audio_def)

section \<open>Where a session sends to\<close>

fun rtp_dests :: "session_out list \<Rightarrow> SocketAddr list" where
  "rtp_dests [] = []"
| "rtp_dests (RtpOut _ addr # outs) = addr # rtp_dests outs"
| "rtp_dests (_ # outs) = rtp_dests outs"

fun rtcp_dests :: "session_out list \<Rightarrow> SocketAddr list" where
  "rtcp_dests [] = []"
| "rtcp_dests (RtcpOut _ addr # outs) = addr # rtcp_dests outs"
| "rtcp_dests (_ # outs) = rtcp_dests outs"

lemma dests_append [simp]:
  "rtp_dests (xs @ ys) = rtp_dests xs @ rtp_dests ys" "rtcp_dests (xs @ ys) = rtcp_dests xs @ rtcp_dests ys"
  by (induction xs rule: rtp_dests.induct) auto

lemma dests_rtp [simp]: "rtp_dests (rtp_out ds) = map snd ds" "rtcp_dests (rtp_out ds) = []"
  by (induction ds) auto

lemma dests_rtcp [simp]: "rtp_dests (rtcp_out ds) = []" "rtcp_dests (rtcp_out ds) = map snd ds"
  by (induction ds) auto

text \<open>Digits that are still being sent keep the destination they began with.\<close>

definition pending_dests :: "('e, 'd, 'r, 'b) MediaSession \<Rightarrow> SocketAddr set" where
  "pending_dests s = dt_dest ` {task \<in> set (ms_dtmf_tasks s). dt_packets task \<noteq> []}"

text \<open>From \<open>s\<close> to \<open>s'\<close> nothing but \<open>a\<close> becomes a destination.\<close>

definition aims_at ::
  "SocketAddr \<Rightarrow> ('e, 'd, 'r, 'b) MediaSession \<Rightarrow> session_out list \<Rightarrow> ('e, 'd, 'r, 'b) MediaSession \<Rightarrow> bool" where
  "aims_at a s outs s' \<longleftrightarrow> set (rtp_dests outs) \<subseteq> insert a (pending_dests s) \<and> pending_dests s' \<subseteq> insert a (pending_dests s)"

lemma aims_at_trans: "aims_at a s xs t \<Longrightarrow> aims_at a t ys u \<Longrightarrow> aims_at a s (xs @ ys) u"
  unfolding aims_at_def dests_append set_append by blast

definition directed :: "('e, 'd, 'r, 'b) MediaSession \<Rightarrow> session_out list \<Rightarrow> ('e, 'd, 'r, 'b) MediaSession \<Rightarrow> bool" where
  "directed s outs s' \<longleftrightarrow> ms_rtcp_addr s' = ms_rtcp_addr s \<and> set (rtcp_dests outs) \<subseteq> {ms_rtcp_addr s} \<and>
    ms_remote_addr s' = ms_remote_addr s \<and>
    (ms_learned_remote s' = None \<longrightarrow> ms_learned_remote s = None \<and> aims_at (ms_remote_addr s) s outs s') \<and>
    (\<forall>a. ms_learned_remote s = Some a \<longrightarrow> ms_learned_remote s' = Some a \<and> aims_at a s outs s')"

interpretation directed_turns: effect "directed :: ('e, 'd, 'r, 'b) MediaSession \<Rightarrow> _"
proof
  fix s t u :: "('e, 'd, 'r, 'b) MediaSession" and xs ys
  show "directed s [] s" by (auto simp: directed_def aims_at_def)
  show "directed s (xs @ ys) u" if "directed s xs t" "directed t ys u"
    unfolding directed_def
  proof (intro conjI impI allI)
    show "ms_rtcp_addr u = ms_rtcp_addr s" "set (rtcp_dests (xs @ ys)) \<subseteq> {ms_rtcp_addr s}" "ms_remote_addr u = ms_remote_addr s"
      using that by (simp_all add: directed_def)
  next
    assume "ms_learned_remote u = None"
    then have y: "ms_learned_remote t = None" "aims_at (ms_remote_addr t) t ys u" using that(2) by (simp_all add: directed_def)
    then have x: "ms_learned_remote s = None" "ms_remote_addr t = ms_remote_addr s" "aims_at (ms_remote_addr s) s xs t"
      using that(1) by (simp_all add: directed_def)
    show "ms_learned_remote s = None" "aims_at (ms_remote_addr s) s (xs @ ys) u"
      using x aims_at_trans [OF x(3)] y(2) by simp_all
  next
    fix a assume "ms_learned_remote s = Some a"
    then have x: "ms_learned_remote t = Some a" "aims_at a s xs t" using that(1) by (simp_all add: directed_def)
    then have y: "ms_learned_remote u = Some a" "aims_at a t ys u" using that(2) by (simp_all add: directed_def)
    show "ms_learned_remote u = Some a" "aims_at a s (xs @ ys) u" using y(1) aims_at_trans [OF x(2) y(2)] by simp_all
  qed
qed

lemma directed_dtmf: "dtmf_step w i s = (out, s') \<Longrightarrow> directed s (rtp_out out) s'"
proof (cases "i < length (ms_dtmf_tasks s) \<and> dt_packets (ms_dtmf_tasks s ! i) \<noteq> []")
  case True
  assume step: "dtmf_step w i s = (out, s')"
  define task where "task = ms_dtmf_tasks s ! i"
  obtain marker is_end duration rest where t: "dt_packets task = (marker, is_end, duration) # rest"
    using True by (cases "dt_packets task") (auto simp: task_def)
  define s1 where "s1 = s\<lparr>ms_dtmf_tasks := (ms_dtmf_tasks s)[i := task\<lparr>dt_packets := rest\<rparr>], ms_tx_seq := ms_tx_seq s + 1\<rparr>"
  obtain d s2 where d: "send_or_clear w (telephone_event_packet (dt_payload_type task) (ms_tx_seq s) (dt_timestamp task)
    (ms_ssrc s) (dt_event_code task) 10 marker is_end duration) s1 = (d, s2)" by fastforce
  have out: "out = [(d, dt_dest task)]" "s' = s2"
    using step True t d by (simp_all add: dtmf_step_def Let_def s1_def flip: task_def)
  have task: "task \<in> set (ms_dtmf_tasks s)" using True by (simp add: task_def)
  have "pending_dests s1 \<subseteq> pending_dests s"
    using True task t set_update_subset_insert [of "ms_dtmf_tasks s" i "task\<lparr>dt_packets := rest\<rparr>"]
    by (auto simp: pending_dests_def s1_def)
  moreover have "dt_dest task \<in> pending_dests s" using task t by (auto simp: pending_dests_def)
  ultimately show ?thesis
    using packet_frame_session [OF send_or_clear_frame [OF d]] unfolding out
    by (auto simp: directed_def aims_at_def session_frame_def pending_dests_def s1_def)
next
  case False
  assume "dtmf_step w i s = (out, s')"
  then have "out = []" "s' = s"
    using False by (auto simp: dtmf_step_def Let_def split: list.splits if_splits)
  then show ?thesis by (simp add: directed_turns.idle)
qed

text \<open>The other turns: those of the application that change the frame, and the first datagram.\<close>

definition reframes :: "session_event \<Rightarrow> bool" where
  "reframes e \<longleftrightarrow>
    (case e of RtpIn _ _ _ _ \<Rightarrow> True | DtmfTurn _ \<Rightarrow> True | SendDigit _ \<Rightarrow> True | SetMute _ \<Rightarrow> True
     | SetAudioPayloadType _ \<Rightarrow> True | StopSession \<Rightarrow> True | _ \<Rightarrow> False)"

lemma step_frame:
  assumes "session_step w s e = Some (outs, s')" "\<not> reframes e"
  shows "session_frame s' = session_frame s \<and> set (rtcp_dests outs) \<subseteq> {ms_rtcp_addr s} \<and> set (rtp_dests outs) \<subseteq> {session_dest s}"
proof (cases e)
  case (OpenMic host)
  then show ?thesis using assms(1)
    by (auto simp: audio_tx_open_def session_frame_def split: tx_thread.splits sum.splits Option.bind_splits)
next
  case (OpenSpeaker host)
  then show ?thesis using assms(1)
    by (auto simp: audio_rx_open_def split: rx_thread.splits sum.splits prod.splits option.splits Option.bind_splits)
       (simp_all add: session_frame_def)
next
  case (SpeakerWants n)
  then show ?thesis using assms(1)
    by (auto simp: speaker_callback_def case_prod_unfold Let_def session_frame_def split: rx_thread.splits Option.bind_splits)
next
  case (PlayoutTick now)
  then show ?thesis using assms(1) by (auto dest: playout_frame)
next
  case (RtcpTurn unix incoming)
  then show ?thesis using assms(1) rtcp_frame [of w unix incoming s]
    by (cases "rtcp_turn w unix incoming s") (auto simp: image_subset_iff dest: packet_frame_session)
next
  case (MicData samples)
  with assms(1) obtain ds where ds: "mic_callback w samples s = Some (ds, s')" "outs = rtp_out ds" by auto
  then show ?thesis using outward_mic [OF ds(1)] by (simp add: outward_def)
next
  case KeepaliveTurn
  with assms(1) obtain ds where ds: "keepalive_turn w s = (ds, s')" "outs = rtp_out ds"
    by (cases "keepalive_turn w s") auto
  then show ?thesis using outward_keepalive [OF ds(1)] by (simp add: outward_def)
qed (use assms in \<open>auto simp: reframes_def set_conference_mode_def set_dtmf_payload_type_def set_dtmf_clock_rate_def
       session_stats_def case_prod_unfold Let_def start_recording_def stop_recording_def session_frame_def
       split: option.splits sum.splits if_splits\<close>)

lemma directed_step:
  assumes "session_step w s e = Some (outs, s')"
  shows "directed s outs s'"
proof (cases "reframes e")
  case False
  from step_frame [OF assms this] show ?thesis
    by (auto simp: directed_def aims_at_def session_frame_def session_dest_def pending_dests_def)
next
  case True
  then show ?thesis
  proof (cases e)
    case (RtpIn datagram from_addr now wall)
    then show ?thesis using assms rx_datagram_frame [of w datagram from_addr now wall s]
      by (auto simp: directed_def aims_at_def session_frame_def pending_dests_def learn_remote_def split: rx_thread.splits if_splits)
  next
    case (SendDigit digit)
    then show ?thesis using assms
      by (auto simp: send_dtmf_def directed_def aims_at_def pending_dests_def session_dest_def Let_def split: option.splits)
  next
    case (DtmfTurn i)
    then show ?thesis using assms directed_dtmf [of w i s] by (cases "dtmf_step w i s") auto
  qed (use True assms in \<open>auto simp: reframes_def set_mute_def set_audio_payload_type_def session_stop_def directed_def
         aims_at_def pending_dests_def\<close>)
qed

lemma directed_run: "session_run w s es = Some (outs, s') \<Longrightarrow> directed s outs s'"
proof (induction es arbitrary: s outs)
  case Nil
  then show ?case by (auto intro: directed_turns.idle)
next
  case (Cons e es)
  then obtain out s1 rest where o: "session_step w s e = Some (out, s1)" "session_run w s1 es = Some (rest, s')" "outs = out @ rest"
    by (auto split: Option.bind_splits)
  from directed_turns.compose [OF directed_step [OF o(1)] Cons.IH [OF o(2)]] o(3) show ?case by simp
qed

text \<open>C8: the first datagram decides where a session sends.  Until the receive loop has got one, all RTP goes to
  the address that the session was started with.  The source of the first datagram is latched for the
  rest of the session, whatever the datagram holds: it need not be RTP, nor pass SRTP.  Whatever happens
  afterwards, all RTP goes to that address, except that a digit which is already being sent, if there is one, is
  finished at the old address.  RTCP never follows: it goes to the configured address, on the
  next port if that is an IPv4 address, and on the RTP port itself if it is an IPv6 address.\<close>

theorem session_first_datagram_latches:
  assumes "session_start w sys port remote codec tx_ctx rx_ctx mic speaker voice = Inr s0"
    and "session_run w s0 es = Some (outs, s1)" "ms_rx s1 = RxRunning a" "ms_learned_remote s1 = None"
    and "session_run w s1 (RtpIn datagram from_addr now wall # es') = Some (outs', s2)"
  shows "ms_learned_remote s2 = Some from_addr \<and> set (rtp_dests outs) \<subseteq> {remote} \<and>
    set (rtp_dests outs') \<subseteq>
      insert from_addr (if \<forall>task\<in>set (ms_dtmf_tasks s1). dt_packets task = [] then {} else {remote}) \<and>
    set (rtcp_dests (outs @ outs')) \<subseteq>
      {case remote of (V4 ip, p) \<Rightarrow> (V4 ip, p + 1) | (V6 ip, p) \<Rightarrow> (V6 ip, p)}"
proof -
  let ?s = "rx_datagram w datagram from_addr now wall s1"
  have run: "session_run w ?s es' = Some (outs', s2)" using assms(5) by (auto split: Option.bind_splits)
  have f: "ms_learned_remote ?s = Some from_addr" "pending_dests ?s = pending_dests s1" "ms_rtcp_addr ?s = ms_rtcp_addr s1"
    using rx_datagram_frame [of w datagram from_addr now wall s1] assms(3,4)
    by (auto simp: session_frame_def learn_remote_def pending_dests_def)
  have s0: "ms_rtcp_addr s0 = rtcp_address remote" "ms_remote_addr s0 = remote" "pending_dests s0 = {}"
    using assms(1) by (auto simp: session_start_def pending_dests_def split: option.splits sum.splits)
  have "set (rtp_dests outs) \<subseteq> {remote}" "pending_dests s1 \<subseteq> {remote}"
    using directed_run [OF assms(2)] assms(4) s0 by (simp_all add: directed_def aims_at_def)
  moreover have "pending_dests s1 = {}" if "\<forall>task\<in>set (ms_dtmf_tasks s1). dt_packets task = []"
    using that by (auto simp: pending_dests_def)
  ultimately have "set (rtp_dests outs) \<subseteq> {remote} \<and> ms_learned_remote s2 = Some from_addr \<and> set (rtp_dests outs') \<subseteq>
      insert from_addr (if \<forall>task\<in>set (ms_dtmf_tasks s1). dt_packets task = [] then {} else {remote})"
    using directed_run [OF run] f by (auto simp: directed_def aims_at_def)
  moreover have "rtcp_address remote = (case remote of (V4 ip, p) \<Rightarrow> (V4 ip, p + 1) | (V6 ip, p) \<Rightarrow> (V6 ip, p))"
    by (auto simp: rtcp_address_def split: prod.split IpAddr.split)
  ultimately show ?thesis
    using directed_run [OF run] directed_run [OF assms(2)] f(3) s0(1) by (auto simp: directed_def)
qed

lemma demo_open:
  assumes "demo_start ctx = Inr s0"
  shows "\<exists>s1 a b. session_run demo_world s0 [OpenMic demo_host, OpenSpeaker demo_host] = Some ([], s1) \<and>
    ms_rx s1 = RxRunning b \<and> ms_tx s1 = TxRunning a \<and> at_punches a = 5 \<and> ms_running s1 \<and> ms_dtmf_tasks s1 = [] \<and>
    ms_learned_remote s1 = None"
proof -
  obtain dec where f: "ms_tx s0 = TxStarting PcmuEncoder None" "ms_running s0" "ms_dtmf_tasks s0 = []"
    "ms_voice s0 = new_call counting_apm ALL_OFF" "ms_rx s0 = RxStarting dec None" "ms_learned_remote s0 = None"
    using assms demo_tab_pcmu by (auto simp: demo_start_def session_start_def demo_world_def split: sum.splits)
  note dev = session_input_def input_device_def session_output_def output_device_def safe_default_input_device_def
    safe_default_output_device_def has_any_def input_stream_error_def output_stream_error_def StreamResampler_new_def
  obtain a s where s: "audio_tx_open demo_world demo_host s0 = Some s" "ms_tx s = TxRunning a" "at_punches a = 5"
    "ms_running s" "ms_dtmf_tasks s = []" "ms_rx s = RxStarting dec None" "ms_learned_remote s = None"
    using f by (auto simp: audio_tx_open_def demo_world_def dev new_call_def capture_path_def Let_def)
  obtain b s1 where s1: "audio_rx_open demo_world demo_host s = Some s1" "ms_rx s1 = RxRunning b" "ms_tx s1 = ms_tx s"
    "ms_running s1" "ms_dtmf_tasks s1 = []" "ms_learned_remote s1 = None"
    using s by (auto simp: audio_rx_open_def demo_world_def dev render_path_def rx_loop_head_def Let_def case_prod_unfold)
  show ?thesis using s(1-3) s1 by simp
qed

text \<open>Three bytes from a stranger, and the keepalive of an encrypted session goes there.\<close>

theorem session_first_datagram_latches_witness:
  "\<exists>s0 s1 s2 d addr. demo_start (Some demo_ctx) = Inr s0 \<and>
    session_run demo_world s0 [OpenMic demo_host, OpenSpeaker demo_host] = Some ([], s1) \<and>
    session_run demo_world s1 [RtpIn [1, 2, 3] (V4 666, 9) 0 0, KeepaliveTurn] = Some ([RtpOut d addr], s2) \<and>
    addr = (V4 666, 9) \<and> ms_learned_remote s2 = Some (V4 666, 9)"
proof -
  obtain s0 where s0: "demo_start (Some demo_ctx) = Inr s0" using demo_start_Inr [of "Some demo_ctx"] by blast
  from demo_open [OF s0] obtain s1 a b where s1: "session_run demo_world s0 [OpenMic demo_host, OpenSpeaker demo_host] = Some ([], s1)"
    "ms_rx s1 = RxRunning b" "ms_tx s1 = TxRunning a" "at_punches a = 5" "ms_running s1" "ms_dtmf_tasks s1 = []"
    "ms_learned_remote s1 = None" by blast
  define s where "s = rx_datagram demo_world [1, 2, 3] (V4 666, 9) 0 0 s1"
  have "ms_tx s = ms_tx s1"
    by (auto simp: s_def rx_datagram_def rx_unprotect_def receive_rtp_def count_received_def track_transit_def rx_loop_head_def
        learn_remote_def Let_def split: rx_thread.splits prod.splits sum.splits option.splits)
  moreover have "ms_running s"
    using rx_datagram_frame [of demo_world "[1, 2, 3]" "(V4 666, 9)" 0 0 s1] s1
    by (auto simp: s_def session_frame_def learn_remote_def split: rx_thread.splits if_splits)
  ultimately obtain d addr s2 where k: "keepalive_turn demo_world s = ([(d, addr)], s2)"
    using keepalive_sends [of s a demo_world] s1 by auto
  then have run: "session_run demo_world s1 [RtpIn [1, 2, 3] (V4 666, 9) 0 0, KeepaliveTurn] = Some ([RtpOut d addr], s2)"
    by (simp flip: s_def)
  from session_first_datagram_latches [OF s0 [unfolded demo_start_def] s1(1,2,7) run] s1(6)
  have "addr = (V4 666, 9) \<and> ms_learned_remote s2 = Some (V4 666, 9)" by simp
  with s0 s1(1) run show ?thesis by blast
qed

end
