(* ===== verification/Session_Digits.thy ===== *)
theory Session_Digits
  imports Session_Remote Stream_Digits
begin

text \<open>
  Digits of a session of \<^verbatim>\<open>src/src/session.rs\<close>, as a stream of \<^verbatim>\<open>src/src/stream.rs\<close> hears them.  The tasks that
  send them run beside everything else the session does.
\<close>

section \<open>The packets of a digit\<close>

lemma tx_context_None [simp]: "tx_context srtp = None \<longleftrightarrow> srtp = NoSrtp"
  by (cases srtp) auto

text \<open>A digit's task, as \<open>send_dtmf\<close> makes it.\<close>

definition digit_time :: "('e, 'd, 'r, 'b) MediaSession \<Rightarrow> u32" where
  "digit_time s = dtmf_event_timestamp (ms_tx_ts s) (word_of_nat (clock_rate (ms_codec s))) (ms_dtmf_clock_rate s)"

definition digit_task :: "('e, 'd, 'r, 'b) MediaSession \<Rightarrow> string \<Rightarrow> DtmfTask" where
  "digit_task s digit =
    \<lparr>dt_payload_type = ms_dtmf_payload_type s, dt_timestamp = digit_time s, dt_event_code = the (session_event_code digit),
     dt_dest = session_dest s, dt_packets = digit_packets (dtmf_durations (ms_dtmf_clock_rate s))\<rparr>"

lemma send_dtmf_task:
  "session_event_code digit \<noteq> None \<Longrightarrow> send_dtmf digit s = s\<lparr>ms_dtmf_tasks := ms_dtmf_tasks s @ [digit_task s digit]\<rparr>"
  by (auto simp: send_dtmf_def digit_task_def digit_time_def Let_def)

lemma digit_task_cong [simp]: "digit_task (s\<lparr>ms_dtmf_tasks := tasks\<rparr>) = digit_task s"
  by (rule ext) (simp add: digit_task_def digit_time_def session_dest_def split: option.split)

lemma fold_send_dtmf:
  "\<forall>d\<in>set ds. session_event_code d \<noteq> None \<Longrightarrow>
   fold send_dtmf ds s = s\<lparr>ms_dtmf_tasks := ms_dtmf_tasks s @ map (digit_task s) ds\<rparr>"
  by (induction ds arbitrary: s) (simp_all add: send_dtmf_task)

text \<open>What the turns of the \<open>i\<close>-th task put out.\<close>

fun turn_packets ::
  "('e, 'd, 'r, 'b) world \<Rightarrow> nat \<Rightarrow> ('e, 'd, 'r, 'b) MediaSession \<Rightarrow> session_event list \<Rightarrow> bytes list" where
  "turn_packets w i s [] = []"
| "turn_packets w i s (e # es) =
    (case session_step w s e of
       None \<Rightarrow> []
     | Some (outs, s') \<Rightarrow> (if e = DtmfTurn i then rtp_sent outs else []) @ turn_packets w i s' es)"

definition task_packet :: "u32 \<Rightarrow> DtmfTask \<Rightarrow> u16 \<Rightarrow> bool \<times> bool \<times> u16 \<Rightarrow> bytes" where
  "task_packet ssrc task seq = (\<lambda>(marker, is_end, duration).
    telephone_event_packet (dt_payload_type task) seq (dt_timestamp task) ssrc (dt_event_code task) 10 marker is_end duration)"

lemma task_packet_rest [simp]: "task_packet ssrc (task\<lparr>dt_packets := rest\<rparr>) = task_packet ssrc task"
  by (simp add: task_packet_def fun_eq_iff)

lemma clear_step:
  assumes "session_step w s e = Some (outs, s')" "ms_srtp s = NoSrtp"
  shows "ms_srtp s' = NoSrtp \<and> ms_ssrc s' = ms_ssrc s"
proof -
  have "ms_tx_seq s = word_of_nat (unat (ms_tx_seq s))" by simp
  with emits_step [OF assms(1)] show ?thesis unfolding emits_def sealed_def using assms(2) by fastforce
qed

lemma dtmf_step_clear:
  assumes "ms_srtp s = NoSrtp" "i < length (ms_dtmf_tasks s)" "dt_packets (ms_dtmf_tasks s ! i) = p # rest"
    and "dtmf_step w i s = (out, s')"
  shows "map fst out = [task_packet (ms_ssrc s) (ms_dtmf_tasks s ! i) (ms_tx_seq s) p] \<and>
    ms_dtmf_tasks s' = (ms_dtmf_tasks s)[i := (ms_dtmf_tasks s ! i)\<lparr>dt_packets := rest\<rparr>]"
  using assms by (cases p) (auto simp: dtmf_step_def send_or_clear_def tx_protect_def ok_or_def task_packet_def Let_def)

lemma task_step:
  assumes "session_step w s e = Some (outs, s')" "ms_srtp s = NoSrtp" "i < length (ms_dtmf_tasks s)"
  defines "task \<equiv> ms_dtmf_tasks s ! i"
  shows "i < length (ms_dtmf_tasks s') \<and>
    (if e = DtmfTurn i then ms_dtmf_tasks s' ! i = task\<lparr>dt_packets := tl (dt_packets task)\<rparr> \<and>
      rtp_sent outs = (case dt_packets task of [] \<Rightarrow> [] | p # _ \<Rightarrow> [task_packet (ms_ssrc s) task (ms_tx_seq s) p])
     else ms_dtmf_tasks s' ! i = task)"
proof (cases "reframes e")
  case False
  from step_frame [OF assms(1) this] False assms(3) show ?thesis
    by (auto simp: session_frame_def task_def reframes_def)
next
  case True
  then show ?thesis
  proof (cases e)
    case (RtpIn datagram from_addr now wall)
    then show ?thesis using assms rx_datagram_frame [of w datagram from_addr now wall s]
      by (auto simp: session_frame_def learn_remote_def split: rx_thread.splits if_splits)
  next
    case (SendDigit digit)
    then show ?thesis using assms
      by (auto simp: send_dtmf_def Let_def nth_append split: option.splits)
  next
    case (DtmfTurn j)
    obtain out where out: "dtmf_step w j s = (out, s')" "outs = rtp_out out"
      using assms(1) DtmfTurn by (cases "dtmf_step w j s") auto
    show ?thesis
    proof (cases "j < length (ms_dtmf_tasks s) \<and> dt_packets (ms_dtmf_tasks s ! j) \<noteq> []")
      case False
      then have "out = []" "s' = s"
        using out(1) by (auto simp: dtmf_step_def Let_def split: list.splits if_splits)
      then show ?thesis using False DtmfTurn out assms(3) by (auto simp: task_def)
    next
      case True
      then obtain p rest where p: "dt_packets (ms_dtmf_tasks s ! j) = p # rest" by (cases "dt_packets (ms_dtmf_tasks s ! j)") auto
      from dtmf_step_clear [OF assms(2) _ p out(1)] True DtmfTurn out(2) p assms(3) show ?thesis
        by (auto simp: task_def nth_list_update)
    qed
  qed (use assms True in \<open>auto simp: reframes_def set_mute_def set_audio_payload_type_def session_stop_def\<close>)
qed

lemma turn_packets_task:
  assumes "session_run w s es = Some (outs, s')" "ms_srtp s = NoSrtp" "i < length (ms_dtmf_tasks s)"
  shows "\<exists>seqs. length seqs = length (filter ((=) (DtmfTurn i)) es) \<and>
    turn_packets w i s es = map2 (task_packet (ms_ssrc s) (ms_dtmf_tasks s ! i)) seqs (dt_packets (ms_dtmf_tasks s ! i))"
  using assms
proof (induction es arbitrary: s outs)
  case (Cons e es)
  let ?task = "ms_dtmf_tasks s ! i"
  obtain out s1 rest where o: "session_step w s e = Some (out, s1)" "session_run w s1 es = Some (rest, s')"
    using Cons.prems(1) by (auto split: Option.bind_splits)
  note c = clear_step [OF o(1) Cons.prems(2)] and t = task_step [OF o(1) Cons.prems(2,3)]
  from Cons.IH [OF o(2)] c t obtain seqs where s: "length seqs = length (filter ((=) (DtmfTurn i)) es)"
    "turn_packets w i s1 es = map2 (task_packet (ms_ssrc s) (ms_dtmf_tasks s1 ! i)) seqs (dt_packets (ms_dtmf_tasks s1 ! i))"
    by auto
  show ?case
  proof (cases "e = DtmfTurn i")
    case True
    then show ?thesis using o(1) s t
      by (intro exI [of _ "ms_tx_seq s # seqs"]) (auto split: list.splits)
  next
    case False
    then show ?thesis using o(1) s t by (intro exI [of _ seqs]) auto
  qed
qed simp


section \<open>What a stream hears\<close>

lemma session_code_digit:
  assumes "session_event_code d = Some e"
  shows "dtmf_digit e = Some (hd d)"
proof -
  let ?table = "[(''0'', 0), (''1'', 1), (''2'', 2), (''3'', 3), (''4'', 4), (''5'', 5), (''6'', 6), (''7'', 7),
      (''8'', 8), (''9'', 9), (''*'', 10), (''#'', 11 :: u8)]"
  have "(d, e) \<in> set ?table" using assms unfolding session_event_code_def by (rule map_of_SomeD)
  moreover have "\<forall>(d, e)\<in>set ?table. dtmf_digit e = Some (hd d)"
    by (simp add: dtmf_digit_def char_of_def bit_Suc_0_iff)
  ultimately show ?thesis by blast
qed

lemma task_packet_event:
  assumes "dtmf_digit (dt_event_code task) = Some c"
  shows "is_event (dt_payload_type task) ssrc (dt_timestamp task) (task_packet ssrc task seq p) \<and>
    event_in (task_packet ssrc task seq p) = \<lparr>de_digit = c, de_event = dt_event_code task\<rparr>"
proof -
  obtain marker is_end duration where p: "p = (marker, is_end, duration)" by (metis prod.collapse)
  define payload where "payload = [dt_event_code task, (if is_end then 0x80 else 0x00) OR (10 AND 0x3F)] @ be16 duration"
  have t: "task_packet ssrc task seq p =
      RtpHeader_to_bytes (media_header (dt_payload_type task) seq (dt_timestamp task) ssrc marker) @ payload"
    by (simp only: task_packet_def p prod.case event_packet_media payload_def)
  have pay: "4 \<le> length payload" "payload ! 0 = dt_event_code task" by (simp_all add: payload_def be16_def)
  show ?thesis unfolding t event_in_payload pay(2) is_event_def using pay assms by auto
qed

text \<open>The packets of a digit, spelled out.\<close>

lemma digit_packets_list:
  "digit_packets (dtmf_durations rate) = map (\<lambda>(marker, is_end, ticks). (marker, is_end, word_of_nat (min ticks 65535)))
    (let t = unat rate div 50 in
     [(True, False, t), (False, False, 2 * t), (False, True, 3 * t), (False, True, 3 * t), (False, True, 3 * t)])"
proof -
  have "unat rate * PACKET_DURATION_MS div 1000 = unat rate div 50" by (simp add: PACKET_DURATION_MS_def)
  then show ?thesis by (simp add: digit_packets_def dtmf_durations_def upt_rec Let_def numeral_2_eq_2 mult.commute)
qed

lemma task_packets_bytes:
  "map2 (task_packet (ms_ssrc s) (digit_task s digit)) seqs (dt_packets (digit_task s digit)) =
    map2 (\<lambda>seq (marker, is_end, ticks).
        RtpHeader_to_bytes (media_header (ms_dtmf_payload_type s) seq (digit_time s) (ms_ssrc s) marker) @
        [the (session_event_code digit), if is_end then 0x80 + 10 else 10] @ be16 (word_of_nat (min ticks 65535)))
      seqs (let t = unat (ms_dtmf_clock_rate s) div 50 in
       [(True, False, t), (False, False, 2 * t), (False, True, 3 * t), (False, True, 3 * t), (False, True, 3 * t)])"
proof -
  have "task_packet (ms_ssrc s) (digit_task s digit) seq (marker, is_end, d) =
      RtpHeader_to_bytes (media_header (ms_dtmf_payload_type s) seq (digit_time s) (ms_ssrc s) marker) @
      [the (session_event_code digit), if is_end then 0x80 + 10 else 10] @ be16 d" for seq marker is_end d
    by (simp add: task_packet_def digit_task_def event_packet_media)
  then show ?thesis by (simp add: digit_task_def digit_packets_list zip_map2 case_prod_unfold)
qed

text \<open>C10: what becomes of digits, in the clear.  A session without SRTP is asked to send some digits one right
  after the other; then everything goes on in any order.  The turns of each digit's task put out five packets of
  one timestamp, as far as it gets turns: an event of 20 ms (the only one with the marker), one of
  40 ms, and three times the one of 60 ms with the end bit, each with the code of the digit and volume 10.  Whatever
  a stream gets of the packets of all these digits, in any order and number, it hears just one digit,
  the first to arrive: so a single digit is heard once, but of several the others are lost, since
  the timestamp by which a receiver tells events apart is the audio's, which has not moved on.\<close>

theorem session_digits_heard:
  fixes s :: "('e, 'd, 'r, 'b) MediaSession" and receiver :: "('f, 'g) StreamCore"
  defines "n \<equiv> length (ms_dtmf_tasks s)"
  assumes "\<forall>d\<in>set digits. session_event_code d \<noteq> None" "ms_srtp s = NoSrtp"
    and "session_run w (fold send_dtmf digits s) es = Some (outs, s')"
    and "listens receiver addr" "sc_dtmf_payload_type (st_config receiver) = Some (ms_dtmf_payload_type s)"
    and "media_type (ms_dtmf_payload_type s)" "st_remote_ssrc receiver \<in> {None, Some (ms_ssrc s)}"
    and "case st_last_dtmf_timestamp receiver of None \<Rightarrow> True | Some lst \<Rightarrow> 0 < sint (digit_time s - lst)"
  shows "(\<forall>i<length digits. \<exists>seqs. length seqs = length (filter ((=) (DtmfTurn (n + i))) es) \<and>
      turn_packets w (n + i) (fold send_dtmf digits s) es =
        map2 (\<lambda>seq (marker, is_end, ticks).
            RtpHeader_to_bytes (media_header (ms_dtmf_payload_type s) seq (digit_time s) (ms_ssrc s) marker) @
            [the (session_event_code (digits ! i)), if is_end then 0x80 + 10 else 10] @ be16 (word_of_nat (min ticks 65535)))
          seqs (let t = unat (ms_dtmf_clock_rate s) div 50 in
           [(True, False, t), (False, False, 2 * t), (False, True, 3 * t), (False, True, 3 * t), (False, True, 3 * t)])) \<and>
    (\<forall>got nows. set got \<subseteq> (\<Union>i<length digits. set (turn_packets w (n + i) (fold send_dtmf digits s) es)) \<longrightarrow>
      got \<noteq> [] \<longrightarrow> length nows = length got \<longrightarrow>
      (\<exists>d\<in>set digits. fst (ingest_all tab ks mac receiver (map (\<lambda>(dg, now). (dg, addr, now)) (zip got nows))) =
        Inr (Some \<lparr>de_digit = hd d, de_event = the (session_event_code d)\<rparr>) # replicate (length got - 1) (Inr None)))"
proof -
  let ?s = "fold send_dtmf digits s"
  have fold: "?s = s\<lparr>ms_dtmf_tasks := ms_dtmf_tasks s @ map (digit_task s) digits\<rparr>" by (rule fold_send_dtmf [OF assms(2)])
  have task: "ms_dtmf_tasks ?s ! (n + i) = digit_task s (digits ! i)" "n + i < length (ms_dtmf_tasks ?s)" if "i < length digits" for i
    using that by (simp_all add: fold n_def)
  have sent: "\<exists>seqs. length seqs = length (filter ((=) (DtmfTurn (n + i))) es) \<and>
      turn_packets w (n + i) ?s es = map2 (task_packet (ms_ssrc s) (digit_task s (digits ! i))) seqs
        (dt_packets (digit_task s (digits ! i)))" if "i < length digits" for i
    using turn_packets_task [OF assms(4) _ task(2) [OF that]] assms(3) unfolding task(1) [OF that] by (simp add: fold)
  have hear: "\<exists>d\<in>set digits. fst (ingest_all tab ks mac receiver (map (\<lambda>(dg, now). (dg, addr, now)) (zip got nows))) =
        Inr (Some \<lparr>de_digit = hd d, de_event = the (session_event_code d)\<rparr>) # replicate (length got - 1) (Inr None)"
    if got: "set got \<subseteq> (\<Union>i<length digits. set (turn_packets w (n + i) ?s es))" "got \<noteq> []" "length nows = length got" for got nows
  proof -
    have ev: "\<exists>d\<in>set digits. is_event (ms_dtmf_payload_type s) (ms_ssrc s) (digit_time s) dg \<and>
        event_in dg = \<lparr>de_digit = hd d, de_event = the (session_event_code d)\<rparr>" if dg: "dg \<in> set got" for dg
    proof -
      obtain i where i: "i < length digits" "dg \<in> set (turn_packets w (n + i) ?s es)" using dg got(1) by auto
      with sent [OF i(1)] obtain seq p where i: "i < length digits"
        "dg = task_packet (ms_ssrc s) (digit_task s (digits ! i)) seq p" by auto
      then obtain e where "session_event_code (digits ! i) = Some e" using assms(2) by force
      then have "dtmf_digit (dt_event_code (digit_task s (digits ! i))) = Some (hd (digits ! i))"
        by (simp add: digit_task_def session_code_digit)
      from task_packet_event [OF this, of "ms_ssrc s" seq p] i show ?thesis
        by (intro bexI [of _ "digits ! i"]) (simp_all add: digit_task_def)
    qed
    then have "\<forall>dg\<in>set got. is_event (ms_dtmf_payload_type s) (ms_ssrc s) (digit_time s) dg" by blast
    from ingest_events [OF assms(5-8) this refl, of tab ks mac nows] assms(9) got(2,3)
    have "fst (ingest_all tab ks mac receiver (map (\<lambda>(dg, now). (dg, addr, now)) (zip got nows))) =
        Inr (Some (event_in (hd got))) # replicate (length got - 1) (Inr None)"
      by (cases nows; cases got) (auto split: option.splits)
    then show ?thesis using ev [of "hd got"] got(2) by auto
  qed
  show ?thesis
  proof (intro conjI allI impI)
    fix i assume "i < length digits"
    from sent [OF this, unfolded task_packets_bytes] show "\<exists>seqs. length seqs = length (filter ((=) (DtmfTurn (n + i))) es) \<and>
      turn_packets w (n + i) ?s es =
        map2 (\<lambda>seq (marker, is_end, ticks).
            RtpHeader_to_bytes (media_header (ms_dtmf_payload_type s) seq (digit_time s) (ms_ssrc s) marker) @
            [the (session_event_code (digits ! i)), if is_end then 0x80 + 10 else 10] @ be16 (word_of_nat (min ticks 65535)))
          seqs (let t = unat (ms_dtmf_clock_rate s) div 50 in
           [(True, False, t), (False, False, 2 * t), (False, True, 3 * t), (False, True, 3 * t), (False, True, 3 * t)])" .
  qed (rule hear)
qed

text \<open>Two digits at once: the peer gets a packet of each, and hears one of them.\<close>

theorem session_digits_heard_witness:
  "\<exists>s0 p5 p7 d. demo_start None = Inr s0 \<and>
    turn_packets demo_world 0 (fold send_dtmf [''5'', ''7''] s0) [DtmfTurn 1, DtmfTurn 0] = [p5] \<and>
    turn_packets demo_world 1 (fold send_dtmf [''5'', ''7''] s0) [DtmfTurn 1, DtmfTurn 0] = [p7] \<and>
    fst (ingest_all demo_tab demo_ks demo_mac demo_stream [(p7, demo_remote, 1), (p5, demo_remote, 2)]) =
      [Inr (Some d), Inr None]"
proof -
  obtain s0 where s0: "demo_start None = Inr s0" "ms_dtmf_tasks s0 = []" using demo_start_Inr [of None] by blast
  have f: "ms_srtp s0 = NoSrtp" "ms_dtmf_payload_type s0 = 101" "ms_dtmf_clock_rate s0 = 8000" "ms_ssrc s0 = 7"
    using s0(1) by (auto simp: demo_start_def session_start_def split: sum.splits)
  have codes: "\<forall>d\<in>set [''5'', ''7'']. session_event_code d \<noteq> None" by (simp add: session_event_code_def)
  obtain outs s' where run: "session_run demo_world (fold send_dtmf [''5'', ''7''] s0) [DtmfTurn 1, DtmfTurn 0] = Some (outs, s')"
    by (auto simp: case_prod_unfold)
  have listen: "listens demo_stream demo_remote" "sc_dtmf_payload_type (st_config demo_stream) = Some (ms_dtmf_payload_type s0)"
    "media_type (ms_dtmf_payload_type s0)" "st_remote_ssrc demo_stream \<in> {None, Some (ms_ssrc s0)}"
    "case st_last_dtmf_timestamp demo_stream of None \<Rightarrow> True | Some lst \<Rightarrow> 0 < sint (digit_time s0 - lst)"
    using demo_stream_hears by (simp_all add: hears_def f StreamConfig_new_def media_type_def)
  let ?turns = "\<lambda>i. turn_packets demo_world i (fold send_dtmf [''5'', ''7''] s0) [DtmfTurn 1, DtmfTurn 0]"
  note heard = session_digits_heard [OF codes f(1) run listen, of demo_tab demo_ks demo_mac, unfolded s0(2) list.size(3) add_0]
  have one: "\<exists>p. ?turns i = [p]" if "i < 2" for i
  proof -
    have "length (filter ((=) (DtmfTurn i)) [DtmfTurn 1, DtmfTurn 0]) = 1" using that by (auto simp: less_2_cases_iff)
    then have turn: "\<exists>p. xs = [p]"
      if "\<exists>seqs. length seqs = length (filter ((=) (DtmfTurn i)) [DtmfTurn 1, DtmfTurn 0]) \<and> xs = map2 f seqs (y # ys)"
      for xs :: "bytes list" and f :: "u16 \<Rightarrow> 'z \<Rightarrow> bytes" and y ys
      using that by (auto simp: length_Suc_conv simp del: filter.simps)
    show ?thesis by (rule turn [OF conjunct1 [OF heard, rule_format, of i, unfolded Let_def]]) (use that in simp)
  qed
  obtain p5 p7 where p: "?turns 0 = [p5]" "?turns 1 = [p7]" using one [of 0] one [of 1] by auto
  have "set [p7, p5] \<subseteq> (\<Union>i<length [''5'', ''7'']. set (?turns i))"
  proof -
    have "p5 \<in> (\<Union>i<length [''5'', ''7'']. set (?turns i))" by (rule UN_I [of 0]) (simp_all only: p, simp_all)
    moreover have "p7 \<in> (\<Union>i<length [''5'', ''7'']. set (?turns i))" by (rule UN_I [of 1]) (simp_all only: p, simp_all)
    ultimately show ?thesis by simp
  qed
  from conjunct2 [OF heard, rule_format, OF this, of "[1, 2]"]
  obtain d where "fst (ingest_all demo_tab demo_ks demo_mac demo_stream [(p7, demo_remote, 1), (p5, demo_remote, 2)]) =
      [Inr (Some d), Inr None]" by auto
  with s0(1) p show ?thesis by blast
qed

end
