(* ===== verification/Session_Tasks.thy ===== *)
theory Session_Tasks
  imports Session_Stream
begin

text \<open>
  The sending tasks of \<^verbatim>\<open>src/src/session.rs\<close> at a finer grain.  The microphone's callback, the keepalive thread and
  the task of each digit draw the sequence number from one atomic counter and lock the SRTP context
  afterwards: between the two any other of them may draw a number and be protected first.
\<close>

section \<open>Packets on their way\<close>

text \<open>A packet that has its number but is not protected yet, with the task that made it; \<open>fl_number\<close> counts from
  the start of the session and does not wrap.\<close>

datatype sending_task = Microphone | Keepalive | Digit




text \<open>Drawing a number: the packet of a frame, or the next packet of the \<open>i\<close>-th digit.\<close>

definition audio_draw ::
  "('e, 'd, 'r, 'b) world \<Rightarrow> sending_task \<Rightarrow> pcm \<Rightarrow> ('e, 'd, 'r, 'b) MediaSession \<Rightarrow> bytes option \<times> ('e, 'd, 'r, 'b) MediaSession" where
  "audio_draw w from_task pcm s =
    (case ms_tx s of
       TxRunning a \<Rightarrow>
        (let s = (if from_task = Microphone then record_audio TxSide pcm s else s);
             (packet, encoder, s) = audio_packet w pcm (at_encoder a, s) in
         (Some packet, s\<lparr>ms_tx := TxRunning (a\<lparr>at_encoder := encoder\<rparr>)\<rparr>))
     | _ \<Rightarrow> (None, s))"

definition dtmf_draw :: "nat \<Rightarrow> ('e, 'd, 'r, 'b) MediaSession \<Rightarrow> bytes option \<times> ('e, 'd, 'r, 'b) MediaSession" where
  "dtmf_draw i s =
    (if i < length (ms_dtmf_tasks s) then
      (let task = ms_dtmf_tasks s ! i in
       case dt_packets task of
         [] \<Rightarrow> (None, s)
       | (marker, is_end, duration) # rest \<Rightarrow>
          (Some (telephone_event_packet (dt_payload_type task) (ms_tx_seq s) (dt_timestamp task) (ms_ssrc s)
             (dt_event_code task) 10 marker is_end duration),
           s\<lparr>ms_dtmf_tasks := (ms_dtmf_tasks s)[i := task\<lparr>dt_packets := rest\<rparr>], ms_tx_seq := ms_tx_seq s + 1\<rparr>))
     else (None, s))"

text \<open>Protecting and sending: the microphone drops a packet that cannot be protected, the others send it
  in the clear.\<close>

definition seal ::
  "('e, 'd, 'r, 'b) world \<Rightarrow> sending_task \<Rightarrow> bytes \<Rightarrow> ('e, 'd, 'r, 'b) MediaSession \<Rightarrow> bytes list \<times> ('e, 'd, 'r, 'b) MediaSession" where
  "seal w from_task packet s =
    (if from_task = Microphone then
      (let (r, s) = tx_protect (protect_rtp (w_ks w) (w_mac w)) packet s in
       case r of
         Inl _ \<Rightarrow> ([], s)
       | Inr sent \<Rightarrow> ([sent], s\<lparr>ms_counters := record_sent (ms_counters s) (word_of_nat (length sent))\<rparr>))
     else (let (sent, s) = send_or_clear w packet s in ([sent], s)))"





text \<open>A whole turn is the two steps, one right after the other.\<close>

lemma dtmf_turn_split:
  "dtmf_step w i s =
    (case dtmf_draw i s of
       (None, s1) \<Rightarrow> ([], s1)
     | (Some p, s1) \<Rightarrow> map_prod (map (\<lambda>d. (d, dt_dest (ms_dtmf_tasks s ! i)))) id (seal w Digit p s1))"
  by (auto simp: dtmf_step_def dtmf_draw_def seal_def Let_def split: list.splits prod.splits)

lemma record_audio_tx [simp]: "ms_tx (record_audio side pcm s) = ms_tx s"
  by (simp add: record_audio_def)

lemma keepalive_turn_split:
  assumes "ms_tx s = TxRunning a" "ms_running s" "at_punches a \<noteq> 0 \<or> ms_muted s"
    and "audio_draw w Keepalive (replicate (pcm_samples_per_packet (ms_codec s)) 0) s = (Some p, s1)"
    and "seal w Keepalive p s1 = (ds, s2)"
  shows "map fst (fst (keepalive_turn w s)) = ds"
  using assms
  by (auto simp: keepalive_turn_def keepalive_packet_def audio_draw_def seal_def send_or_clear_def tx_protect_def
      case_prod_unfold Let_def split: option.splits)

lemma mic_packet_split:
  assumes "ms_tx s = TxRunning a" "audio_draw w Microphone pcm s = (Some p, s1)" "seal w Microphone p s1 = (ds, s2)"
  shows "map fst (fst (mic_packet w (at_encoder a, s) pcm)) = ds"
  using assms
  by (auto simp: mic_packet_def audio_draw_def seal_def tx_protect_def case_prod_unfold Let_def
      split: option.splits sum.splits)

section \<open>Every step\<close>











section \<open>Properties\<close>






end
