(* ===== verification/Session_Invariant.thy ===== *)
theory Session_Invariant
  imports Session_Remote
begin

text \<open>
  What holds of every session of \<^verbatim>\<open>src/src/session.rs\<close> at any time: the buffers of the threads are bounded, the
  voice processor and the jitter buffer keep their invariants, the digits have no more than five packets
  left; and when a thread stops for good.
\<close>

section \<open>Well-formed sessions\<close>

definition resampler_for :: "u32 \<Rightarrow> u32 \<Rightarrow> nat \<Rightarrow> 'r StreamResampler \<Rightarrow> bool" where
  "resampler_for from_rate to_rate chunk res \<longleftrightarrow>
    sr_from_rate res = from_rate \<and> sr_to_rate res = to_rate \<and> sr_chunk_size res = chunk"

definition tx_ok :: "CodecType \<Rightarrow> ('e, 'r) AudioTx \<Rightarrow> bool" where
  "tx_ok codec a \<longleftrightarrow> at_punches a \<le> 5 \<and> length (at_pending_pcm a) < pcm_samples_per_packet codec \<and>
    length (at_sample_buffer a) < max 1 (native_samples_per_frame codec (at_native_rate a)) \<and>
    resampler_for (at_native_rate a) (word_of_nat (pcm_rate codec)) (native_samples_per_frame codec (at_native_rate a))
      (at_resampler a)"

definition rx_ok :: "CodecType \<Rightarrow> ('d, 'r) AudioRx \<Rightarrow> bool" where
  "rx_ok codec a \<longleftrightarrow> jb_inv (session_jitter_config codec) (ar_jitter a) \<and>
    length (ar_sample_buffer a) \<le> max_buffer_samples (ar_native_rate a) \<and>
    resampler_for (word_of_nat (pcm_rate codec)) (ar_native_rate a) (pcm_samples_per_packet codec) (ar_resampler a)"

definition voice_ok :: "('e, 'd, 'r, 'b) world \<Rightarrow> 'b voice_call \<Rightarrow> bool" where
  "voice_ok w call \<longleftrightarrow> (\<exists>cfg. voice_inv (w_apm w) cfg call)"

definition task_ok :: "DtmfTask \<Rightarrow> bool" where
  "task_ok task \<longleftrightarrow> length (dt_packets task) \<le> 5 \<and> dt_event_code task \<le> 11"

fun tx_thread_ok :: "CodecType \<Rightarrow> 'b voice_call \<Rightarrow> ('e, 'r) tx_thread \<Rightarrow> bool" where
  "tx_thread_ok codec call (TxRunning a) \<longleftrightarrow> tx_ok codec a \<and> call_capture call \<noteq> None"
| "tx_thread_ok codec call _ \<longleftrightarrow> True"

fun rx_thread_ok :: "CodecType \<Rightarrow> 'b voice_call \<Rightarrow> ('d, 'r) rx_thread \<Rightarrow> bool" where
  "rx_thread_ok codec call (RxRunning a) \<longleftrightarrow> rx_ok codec a \<and> call_render call \<noteq> None"
| "rx_thread_ok codec call _ \<longleftrightarrow> True"

definition session_ok :: "('e, 'd, 'r, 'b) world \<Rightarrow> ('e, 'd, 'r, 'b) MediaSession \<Rightarrow> bool" where
  "session_ok w s \<longleftrightarrow> voice_ok w (ms_voice s) \<and> ms_dtmf_clock_rate s \<noteq> 0 \<and> list_all task_ok (ms_dtmf_tasks s) \<and>
    tx_thread_ok (ms_codec s) (ms_voice s) (ms_tx s) \<and> rx_thread_ok (ms_codec s) (ms_voice s) (ms_rx s)"

text \<open>A predicate that is kept is an effect.\<close>

interpretation keeping: effect "\<lambda>s _ s'. P s \<longrightarrow> P s'" for P :: "'s \<Rightarrow> bool"
  by unfold_locales auto

text \<open>Only these fields matter, which are in the frame of a packet.\<close>

lemma session_ok_same:
  assumes "session_ok w s" "ms_voice s' = ms_voice s" "ms_dtmf_clock_rate s' = ms_dtmf_clock_rate s"
    "ms_dtmf_tasks s' = ms_dtmf_tasks s" "ms_codec s' = ms_codec s" "ms_tx s' = ms_tx s" "ms_rx s' = ms_rx s"
  shows "session_ok w s'"
  using assms by (simp add: session_ok_def)

lemma session_ok_frame: "session_ok w s \<Longrightarrow> packet_frame s' = packet_frame s \<Longrightarrow> session_ok w s'"
  by (erule session_ok_same) (simp_all add: frame_defs)

lemma samples_per_packet_pos: "0 < pcm_samples_per_packet codec"
  by (cases codec) (simp_all add: pcm_samples_per_packet_def PACKET_DURATION_MS_def)

section \<open>The components\<close>

lemma voice_step_paths:
  assumes "voice_step lib call op = Some (out, call')"
  shows "(call_capture call \<noteq> None \<longrightarrow> call_capture call' \<noteq> None) \<and> (call_render call \<noteq> None \<longrightarrow> call_render call' \<noteq> None) \<and>
    (op = OpenCapture rate \<longrightarrow> call_capture call' \<noteq> None) \<and> (op = OpenRender rate \<longrightarrow> call_render call' \<noteq> None)"
  using assms by (cases op) (auto split: option.splits Option.bind_splits prod.splits)

lemma voice_ok_step: "voice_ok w call \<Longrightarrow> voice_step (w_apm w) call op = Some (out, call') \<Longrightarrow> voice_ok w call'"
  using voice_step_inv [of "w_apm w" _ call op] unfolding voice_ok_def by (metis option.inject prod.inject)

lemma voice_total: "voice_ok w call \<Longrightarrow> \<exists>out call'. voice_step (w_apm w) call op = Some (out, call')"
  using voice_step_inv unfolding voice_ok_def by blast

lemma resampler_for_process:
  "resampler_for f t n res \<Longrightarrow> resampler_process rubato res xs = Some (ys, res') \<Longrightarrow> resampler_for f t n res'"
  by (auto simp: resampler_for_def resampler_process_def split: if_splits Option.bind_splits)

lemma resampler_for_new: "StreamResampler_new new_poly f t n = Some res \<Longrightarrow> resampler_for f t n res"
  by (auto simp: resampler_for_def StreamResampler_new_def)

lemma queue_playback_bound: "queue_playback n queue xs = Some queue' \<Longrightarrow> length queue' \<le> n"
  by (auto simp: queue_playback_def Let_def split: if_splits)

lemma queue_playback_None: "queue_playback n queue xs = None \<longleftrightarrow> n < length xs"
  by (auto simp: queue_playback_def Let_def)

lemma mic_chunk_bounds:
  assumes "mic_chunk w (res, pending, enc, s) chunk = Some (out, res', pending', enc', s')" "resampler_for f t n res"
  shows "resampler_for f t n res' \<and> length pending' < pcm_samples_per_packet (ms_codec s) \<and> ms_codec s' = ms_codec s"
proof -
  from assms(1) obtain resampled where r: "resampler_process (w_rubato w) res chunk = Some (resampled, res')"
    and d: "drain (pcm_samples_per_packet (ms_codec s)) (\<lambda>es pcm. Some (mic_packet w es pcm)) (enc, s\<lparr>ms_tx_level := rms_level chunk\<rparr>)
      (pending @ f32_to_i16 resampled) = Some (out, (enc', s'), pending')" by (rule mic_chunk_drain)
  have "ms_codec s' = ms_codec s"
    using steady_mic_chunk [OF assms(1)] by (simp add: steady_def frame_defs)
  with drain_rest [OF d] resampler_for_process [OF assms(2) r] show ?thesis by simp
qed

section \<open>Every turn keeps a session well formed\<close>

lemma voice_change_ok:
  assumes "session_ok w s" "voice_step (w_apm w) (ms_voice s) op = Some (out, voice)"
  shows "session_ok w (s\<lparr>ms_voice := voice\<rparr>)"
proof -
  have "call_capture (ms_voice s) \<noteq> None \<longrightarrow> call_capture voice \<noteq> None" "call_render (ms_voice s) \<noteq> None \<longrightarrow> call_render voice \<noteq> None"
    using voice_step_paths [OF assms(2)] by simp_all
  then show ?thesis using assms(1) voice_ok_step [OF _ assms(2)]
    by (cases "ms_tx s"; cases "ms_rx s") (simp_all add: session_ok_def)
qed

lemma mic_ok:
  assumes "session_ok w s" "mic_callback w samples s = Some (out, s')"
  shows "session_ok w s'"
proof (cases "\<exists>a. ms_tx s = TxRunning a \<and> ms_running s \<and> \<not> ms_muted s")
  case False
  with assms show ?thesis
    by (auto simp: mic_callback_def session_ok_def tx_ok_def split: tx_thread.splits if_splits)
next
  case True
  then obtain a where a: "ms_tx s = TxRunning a" "ms_running s" "\<not> ms_muted s" by blast
  let ?n = "native_samples_per_frame (ms_codec s) (at_native_rate a)" and ?r = "resampler_for (at_native_rate a)
    (word_of_nat (pcm_rate (ms_codec s))) (native_samples_per_frame (ms_codec s) (at_native_rate a))"
  show ?thesis
  proof (rule mic_callback_works [OF assms(2) a])
    fix voice0 o0 voice cleaned res pending enc s1 buffer
    assume v: "(if at_was_muted a then voice_step (w_apm w) (ms_voice s) ResetCapture else Some ([], ms_voice s)) = Some (o0, voice0)"
        "voice_step (w_apm w) voice0 (Mic samples) = Some (cleaned, voice)"
      and d: "drain ?n (mic_chunk w) (at_resampler a, at_pending_pcm a, at_encoder a, s\<lparr>ms_voice := voice\<rparr>)
          (at_sample_buffer a @ cleaned) = Some (out, (res, pending, enc, s1), buffer)"
      and s': "s' = s1\<lparr>ms_tx := TxRunning (a\<lparr>at_was_muted := False, at_sample_buffer := buffer, at_resampler := res,
          at_pending_pcm := pending, at_encoder := enc\<rparr>)\<rparr>"
      and st: "steady (s\<lparr>ms_voice := voice\<rparr>) out s1"
    have "session_ok w (s\<lparr>ms_voice := voice0\<rparr>)"
    proof (cases "at_was_muted a")
      case True
      then show ?thesis using v(1) by (intro voice_change_ok [OF assms(1), of ResetCapture o0]) simp
    next
      case False
      then have "voice0 = ms_voice s" using v(1) by simp
      then show ?thesis using assms(1) by simp
    qed
    from voice_change_ok [OF this, of "Mic samples" cleaned voice] v(2) have ok: "session_ok w (s\<lparr>ms_voice := voice\<rparr>)" by simp
    have tx: "tx_ok (ms_codec s) a" using assms(1) a by (simp add: session_ok_def)
    let ?inv = "\<lambda>(res, pending, enc :: 'a, t :: ('a, 'b, 'c, 'd) MediaSession).
      ?r res \<and> length pending < pcm_samples_per_packet (ms_codec s) \<and> ms_codec t = ms_codec s"
    have "?inv (at_resampler a, at_pending_pcm a, at_encoder a, s\<lparr>ms_voice := voice\<rparr>) \<longrightarrow> ?inv (res, pending, enc, s1)"
      by (rule keeping.drain_effect [where v = "\<lambda>x. x" and g = "\<lambda>x. x" and P = ?inv, OF _ _ _ d])
         (auto dest: mic_chunk_bounds)
    then have "?r res" "length pending < pcm_samples_per_packet (ms_codec s)" using tx by (simp_all add: tx_ok_def)
    with tx drain_rest [OF d] have tx': "tx_ok (ms_codec s) (a\<lparr>at_was_muted := False, at_sample_buffer := buffer,
        at_resampler := res, at_pending_pcm := pending, at_encoder := enc\<rparr>)" by (simp add: tx_ok_def)
    have "packet_frame s1 = packet_frame (s\<lparr>ms_voice := voice\<rparr>)" using st by (simp add: steady_def)
    with ok tx' a(1) show "session_ok w s'" by (simp add: s' session_ok_def frame_defs)
  qed
qed

lemma keepalive_ok:
  assumes "session_ok w s" "keepalive_turn w s = (out, s')"
  shows "session_ok w s'"
proof (cases "ms_tx s")
  case (TxRunning a)
  obtain out1 enc s1 where p: "keepalive_packet w (at_encoder a, s) = (out1, enc, s1)" by (metis prod.collapse)
  have "packet_frame s1 = packet_frame s" using steady_keepalive_packet [OF p] by (simp add: steady_def)
  then show ?thesis using assms TxRunning
    by (auto simp: keepalive_turn_def p Let_def session_ok_def frame_defs tx_ok_def split: if_splits)
qed (use assms in \<open>simp_all add: keepalive_turn_def\<close>)

lemma digit_packets_len: "length (digit_packets (dtmf_durations rate)) = 5"
  by (simp add: digit_packets_def dtmf_durations_def upt_rec Let_def)

lemma session_code_bound: "session_event_code digit = Some e \<Longrightarrow> e \<le> 11"
  unfolding session_event_code_def by (drule map_of_SomeD) auto

lemma dtmf_ok:
  assumes "session_ok w s" "dtmf_step w i s = (out, s')"
  shows "session_ok w s'"
proof (cases "i < length (ms_dtmf_tasks s) \<and> dt_packets (ms_dtmf_tasks s ! i) \<noteq> []")
  case True
  define task where "task = ms_dtmf_tasks s ! i"
  obtain marker is_end duration rest where t: "dt_packets task = (marker, is_end, duration) # rest"
    using True by (cases "dt_packets task") (auto simp: task_def)
  define s1 where "s1 = s\<lparr>ms_dtmf_tasks := (ms_dtmf_tasks s)[i := task\<lparr>dt_packets := rest\<rparr>], ms_tx_seq := ms_tx_seq s + 1\<rparr>"
  obtain d s2 where d: "send_or_clear w (telephone_event_packet (dt_payload_type task) (ms_tx_seq s) (dt_timestamp task)
    (ms_ssrc s) (dt_event_code task) 10 marker is_end duration) s1 = (d, s2)" by fastforce
  have "s' = s2" using assms(2) True t d by (simp add: dtmf_step_def Let_def s1_def flip: task_def)
  moreover have "list_all task_ok (ms_dtmf_tasks s1)"
  proof -
    have all: "list_all task_ok (ms_dtmf_tasks s)" using assms(1) by (simp add: session_ok_def)
    have "task_ok task" using all True by (simp add: task_def list_all_length)
    then have "task_ok (task\<lparr>dt_packets := rest\<rparr>)" using t by (simp add: task_ok_def)
    then show ?thesis using all set_update_subset_insert [of "ms_dtmf_tasks s" i "task\<lparr>dt_packets := rest\<rparr>"]
      by (auto simp: s1_def list_all_iff)
  qed
  then have "session_ok w s1" using assms(1) by (simp add: session_ok_def s1_def)
  ultimately show ?thesis using session_ok_frame [OF _ send_or_clear_frame [OF d]] by simp
next
  case False
  then have "s' = s" using assms(2) by (auto simp: dtmf_step_def Let_def split: list.splits if_splits)
  then show ?thesis using assms(1) by simp
qed

lemma receive_rtp_ok:
  assumes "receive_rtp rtp len now wall a s = (a', s')" "rx_ok codec a"
  shows "rx_ok codec a'"
  using assms
  by (auto simp: receive_rtp_def count_received_def track_transit_def receive_packet_def rx_ok_def case_prod_unfold Let_def
      intro: jb_inv_push split: option.splits if_splits)

lemma rx_loop_head_ok: "session_ok w s \<Longrightarrow> session_ok w (rx_loop_head s)"
  by (simp add: rx_loop_head_def session_ok_def)

lemma datagram_ok:
  assumes "session_ok w s"
  shows "session_ok w (rx_datagram w datagram from_addr now wall s)"
proof (cases "ms_rx s")
  case (RxRunning a)
  let ?d = "take RTP_BUFFER datagram"
  obtain r s1 where u: "rx_unprotect (unprotect_rtp (w_ks w) (w_mac w)) ?d (learn_remote from_addr s) = (r, s1)" by fastforce
  have "session_ok w (learn_remote from_addr s)" using assms by (simp add: learn_remote_def session_ok_def)
  then have ok: "session_ok w s1" using session_ok_frame [OF _ rx_unprotect_frame [OF u]] by simp
  have rx1: "ms_rx s1 = RxRunning a"
    using rx_unprotect_frame [OF u] RxRunning by (simp add: frame_defs learn_remote_def split: if_splits)
  show ?thesis
  proof (cases r)
    case (Inr rtp)
    obtain a2 s2 where r: "receive_rtp rtp (length ?d) now wall a s1 = (a2, s2)" by fastforce
    have "session_ok w s2" "ms_rx s2 = RxRunning a" "ms_codec s2 = ms_codec s1"
      using session_ok_frame [OF ok receive_frame [OF r]] receive_frame [OF r] rx1 by (simp_all add: frame_defs)
    then have "session_ok w (s2\<lparr>ms_rx := RxRunning a2\<rparr>)"
      using receive_rtp_ok [OF r, of "ms_codec s1"] by (simp add: session_ok_def)
    then show ?thesis using RxRunning Inr r by (simp add: rx_datagram_def u Let_def rx_loop_head_ok)
  qed (use ok RxRunning in \<open>simp add: rx_datagram_def u Let_def rx_loop_head_ok\<close>)
qed (use assms in \<open>simp_all add: rx_datagram_def\<close>)

lemma decode_packet_ok: "decode_packet w codec pkt a = (pcm, a') \<Longrightarrow> a' = a\<lparr>ar_decoder := ar_decoder a'\<rparr>"
  by (auto simp: decode_packet_def case_prod_unfold Let_def)

text \<open>A tick of the playout timer: what the packet at hand is after decoding and resampling.\<close>

definition tick_samples ::
  "('e, 'd, 'r, 'b) world \<Rightarrow> CodecType \<Rightarrow> BufferedPacket \<Rightarrow> ('d, 'r) AudioRx \<Rightarrow> (f32 list \<times> 'r StreamResampler) option" where
  "tick_samples w codec pkt a =
    resampler_process (w_rubato w) (ar_resampler a) (i16_to_f32 (fst (decode_packet w codec pkt a)))"

lemma decode_packet_resampler:
  "ar_resampler (snd (decode_packet w codec pkt a)) = ar_resampler a"
  "ar_sample_buffer (snd (decode_packet w codec pkt a)) = ar_sample_buffer a"
  "ar_native_rate (snd (decode_packet w codec pkt a)) = ar_native_rate a"
  "ar_jitter (snd (decode_packet w codec pkt a)) = ar_jitter a"
  by (simp_all add: decode_packet_def case_prod_unfold Let_def)

lemma playout_cases:
  assumes "ms_rx s = RxRunning a" "pop_at (ar_jitter a) now = Some (popped, jitter)"
  shows "playout_tick w now s =
    (case popped of
       None \<Rightarrow> Some (rx_loop_head (s\<lparr>ms_rx := RxRunning (a\<lparr>ar_jitter := jitter\<rparr>)\<rparr>))
     | Some pkt \<Rightarrow>
        do { (resampled, res) \<leftarrow> tick_samples w (ms_codec s) pkt (a\<lparr>ar_jitter := jitter\<rparr>);
             queue \<leftarrow> queue_playback (max_buffer_samples (ar_native_rate a)) (ar_sample_buffer a) resampled;
             let (pcm, b) = decode_packet w (ms_codec s) pkt (a\<lparr>ar_jitter := jitter\<rparr>);
                 t = record_audio RxSide pcm s in
             Some (rx_loop_head
               ((if i16_to_f32 pcm = [] then t else t\<lparr>ms_rx_level := rms_level (i16_to_f32 pcm)\<rparr>)
                \<lparr>ms_rx := RxRunning (b\<lparr>ar_resampler := res, ar_sample_buffer := queue\<rparr>)\<rparr>)) })"
proof (cases popped)
  case (Some pkt)
  obtain pcm b where d: "decode_packet w (ms_codec s) pkt (a\<lparr>ar_jitter := jitter\<rparr>) = (pcm, b)" by fastforce
  note f = decode_packet_resampler [of w "ms_codec s" pkt "a\<lparr>ar_jitter := jitter\<rparr>", unfolded d snd_conv]
  show ?thesis using f
    by (simp add: playout_tick_def assms Some d tick_samples_def Let_def split: Option.bind_splits prod.split)
qed (simp add: playout_tick_def assms Let_def)

lemma playout_ok:
  assumes "session_ok w s" "playout_tick w now s = Some s'"
  shows "session_ok w s'"
proof (cases "ms_rx s")
  case (RxRunning a)
  have rx: "rx_ok (ms_codec s) a" "call_render (ms_voice s) \<noteq> None" using assms(1) RxRunning by (simp_all add: session_ok_def)
  obtain popped jitter where p: "pop_at (ar_jitter a) now = Some (popped, jitter)"
    using assms(2) RxRunning by (cases "pop_at (ar_jitter a) now") (auto simp: playout_tick_def)
  have j: "jb_inv (session_jitter_config (ms_codec s)) jitter" using rx(1) jb_inv_pop [OF _ p] by (simp add: rx_ok_def)
  show ?thesis
  proof (cases popped)
    case None
    then show ?thesis using assms RxRunning j rx
      by (auto simp: playout_cases [OF RxRunning p] intro!: rx_loop_head_ok) (simp add: session_ok_def rx_ok_def)
  next
    case (Some pkt)
    obtain pcm b where d: "decode_packet w (ms_codec s) pkt (a\<lparr>ar_jitter := jitter\<rparr>) = (pcm, b)" by fastforce
    note f = decode_packet_resampler [of w "ms_codec s" pkt "a\<lparr>ar_jitter := jitter\<rparr>", unfolded d snd_conv]
    from assms(2) Some obtain resampled res queue t where
      r: "tick_samples w (ms_codec s) pkt (a\<lparr>ar_jitter := jitter\<rparr>) = Some (resampled, res)"
      and q: "queue_playback (max_buffer_samples (ar_native_rate a)) (ar_sample_buffer a) resampled = Some queue"
      and s': "s' = rx_loop_head (t\<lparr>ms_rx := RxRunning (b\<lparr>ar_resampler := res, ar_sample_buffer := queue\<rparr>)\<rparr>)"
      and t: "t = record_audio RxSide pcm s \<or> t = (record_audio RxSide pcm s)\<lparr>ms_rx_level := rms_level (i16_to_f32 pcm)\<rparr>"
      by (auto simp: playout_cases [OF RxRunning p] d Let_def split: Option.bind_splits)
    have "packet_frame t = packet_frame s" using t record_audio_frame [of RxSide pcm s] by (auto simp: frame_defs)
    moreover have "rx_ok (ms_codec s) (b\<lparr>ar_resampler := res, ar_sample_buffer := queue\<rparr>)"
      using f j rx(1) queue_playback_bound [OF q] resampler_for_process r
      by (auto simp: rx_ok_def tick_samples_def)
    ultimately have "session_ok w (t\<lparr>ms_rx := RxRunning (b\<lparr>ar_resampler := res, ar_sample_buffer := queue\<rparr>)\<rparr>)"
      using assms(1) rx(2) by (simp add: session_ok_def frame_defs)
    then show ?thesis unfolding s' by (rule rx_loop_head_ok)
  qed
qed (use assms in \<open>simp_all add: playout_tick_def\<close>)

lemma mic_open_ok:
  assumes "session_ok w s" "audio_tx_open w host s = Some s'"
  shows "session_ok w s'"
proof (cases "ms_tx s")
  case (TxStarting enc name)
  show ?thesis
  proof (cases "session_input host name")
    case (Inr x)
    obtain d rate where x: "x = (d, rate)" by fastforce
    from assms(2) TxStarting Inr x obtain res out voice where
      r: "StreamResampler_new (w_new_poly w) rate (word_of_nat (pcm_rate (ms_codec s))) (native_samples_per_frame (ms_codec s) rate) = Some res"
      and v: "voice_step (w_apm w) (ms_voice s) (OpenCapture rate) = Some (out, voice)"
      and s': "s' = s\<lparr>ms_voice := voice, ms_tx := (case input_stream_error d of
                      Some e \<Rightarrow> TxFailed e
                    | None \<Rightarrow> TxRunning
                       \<lparr>at_native_rate = rate, at_was_muted = False, at_sample_buffer = [], at_resampler = res,
                        at_pending_pcm = [], at_encoder = enc, at_punches = 5\<rparr>)\<rparr>"
      by (simp add: audio_tx_open_def del: voice_step.simps split: Option.bind_splits prod.splits)
    have "tx_ok (ms_codec s) \<lparr>at_native_rate = rate, at_was_muted = False, at_sample_buffer = [], at_resampler = res,
        at_pending_pcm = [], at_encoder = enc, at_punches = 5\<rparr>"
      using resampler_for_new [OF r] by (simp add: tx_ok_def samples_per_packet_pos)
    moreover have "call_capture voice \<noteq> None" using voice_step_paths [OF v, of rate] by simp
    ultimately show ?thesis using voice_change_ok [OF assms(1) v]
      by (simp add: s' session_ok_def split: option.split)
  qed (use assms TxStarting in \<open>auto simp: audio_tx_open_def session_ok_def\<close>)
qed (use assms in \<open>simp_all add: audio_tx_open_def\<close>)

lemma speaker_open_ok:
  assumes "session_ok w s" "audio_rx_open w host s = Some s'"
  shows "session_ok w s'"
proof (cases "ms_rx s")
  case (RxStarting dec name)
  show ?thesis
  proof (cases "session_output host name")
    case (Inr x)
    obtain d rate where x: "x = (d, rate)" by fastforce
    from assms(2) RxStarting Inr x obtain out voice where
      v: "voice_step (w_apm w) (ms_voice s) (OpenRender rate) = Some (out, voice)"
      and s': "(case output_stream_error d of
          Some e \<Rightarrow> Some (s\<lparr>ms_voice := voice, ms_rx := RxFailed e\<rparr>)
        | None \<Rightarrow> do { res \<leftarrow> StreamResampler_new (w_new_poly w) (word_of_nat (pcm_rate (ms_codec s))) rate (pcm_samples_per_packet (ms_codec s));
            Some (rx_loop_head (s\<lparr>ms_voice := voice, ms_rx := RxRunning
                   \<lparr>ar_native_rate = rate, ar_decoder = dec,
                    ar_jitter = JitterBuffer_new (session_jitter_config (ms_codec s)), ar_last_transit = None,
                    ar_first_seq = None, ar_other_pts_seen = [], ar_resampler = res, ar_sample_buffer = [],
                    ar_playback_started = False\<rparr>\<rparr>)) }) = Some s'"
      by (simp add: audio_rx_open_def del: voice_step.simps split: Option.bind_split_asm prod.splits)
    have ok: "session_ok w (s\<lparr>ms_voice := voice\<rparr>)" by (rule voice_change_ok [OF assms(1) v])
    have render: "call_render voice \<noteq> None" using voice_step_paths [OF v, of rate] by simp
    show ?thesis
    proof (cases "output_stream_error d")
      case None
      with s' obtain res where r: "StreamResampler_new (w_new_poly w) (word_of_nat (pcm_rate (ms_codec s))) rate
          (pcm_samples_per_packet (ms_codec s)) = Some res"
        and s2: "s' = rx_loop_head (s\<lparr>ms_voice := voice, ms_rx := RxRunning
                   \<lparr>ar_native_rate = rate, ar_decoder = dec,
                    ar_jitter = JitterBuffer_new (session_jitter_config (ms_codec s)), ar_last_transit = None,
                    ar_first_seq = None, ar_other_pts_seen = [], ar_resampler = res, ar_sample_buffer = [],
                    ar_playback_started = False\<rparr>\<rparr>)"
        by (auto split: Option.bind_splits)
      show ?thesis unfolding s2
        by (rule rx_loop_head_ok) (use ok render resampler_for_new [OF r] in \<open>simp add: session_ok_def rx_ok_def jb_inv_new\<close>)
    qed (use ok s' in \<open>auto simp: session_ok_def\<close>)
  qed (use assms RxStarting in \<open>auto simp: audio_rx_open_def session_ok_def\<close>)
qed (use assms in \<open>simp_all add: audio_rx_open_def\<close>)

lemma speaker_ok:
  assumes "session_ok w s" "speaker_callback w n s = Some (out, s')"
  shows "session_ok w s'"
proof (cases "ms_rx s")
  case (RxRunning a)
  obtain samples queue started where q:
    "fill_playback n (pre_buffer_samples (ar_native_rate a)) (ar_sample_buffer a, ar_playback_started a) = (samples, queue, started)"
    by (metis prod.collapse)
  from assms(2) RxRunning q obtain o1 voice where
    v: "voice_step (w_apm w) (ms_voice s) (Speaker samples) = Some (o1, voice)"
    and s': "s' = s\<lparr>ms_voice := voice, ms_rx := RxRunning (a\<lparr>ar_sample_buffer := queue, ar_playback_started := started\<rparr>)\<rparr>"
    by (auto simp: speaker_callback_def simp del: voice_step.simps split: Option.bind_splits)
  have "length queue \<le> length (ar_sample_buffer a)" using q by (auto simp: fill_playback_def split: if_splits)
  then have "rx_ok (ms_codec s) (a\<lparr>ar_sample_buffer := queue, ar_playback_started := started\<rparr>)"
    using assms(1) RxRunning by (simp add: session_ok_def rx_ok_def)
  moreover have "call_render voice \<noteq> None" using assms(1) RxRunning voice_step_paths [OF v, of 0] by (simp add: session_ok_def)
  ultimately show ?thesis using voice_change_ok [OF assms(1) v] by (simp add: s' session_ok_def)
qed (use assms in \<open>simp_all add: speaker_callback_def\<close>)

lemma send_dtmf_ok: "session_ok w s \<Longrightarrow> session_ok w (send_dtmf digit s)"
  using session_code_bound [of digit]
  by (auto simp: send_dtmf_def session_ok_def task_ok_def digit_packets_len Let_def split: option.splits)

lemma session_ok_step:
  assumes ok: "session_ok w s" and step: "session_step w s e = Some (outs, s')"
  shows "session_ok w s'"
proof (cases e)
  case (RtcpTurn unix incoming)
  then show ?thesis using step session_ok_frame [OF ok] rtcp_frame [of w unix incoming s]
    by (cases "rtcp_turn w unix incoming s") auto
next
  case KeepaliveTurn
  then show ?thesis using step keepalive_ok [OF ok] by (cases "keepalive_turn w s") auto
next
  case (DtmfTurn i)
  then show ?thesis using step dtmf_ok [OF ok] by (cases "dtmf_step w i s") auto
next
  case (SetDtmfClockRate rate)
  then show ?thesis using step ok by (auto simp: set_dtmf_clock_rate_def session_ok_def split: if_splits)
qed (use step in \<open>auto simp: set_mute_def set_conference_mode_def set_dtmf_payload_type_def set_audio_payload_type_def
       session_stats_def case_prod_unfold Let_def start_recording_def stop_recording_def session_stop_def
       intro: mic_open_ok [OF ok] speaker_open_ok [OF ok] mic_ok [OF ok] speaker_ok [OF ok] datagram_ok [OF ok]
         playout_ok [OF ok] send_dtmf_ok [OF ok] session_ok_same [OF ok]
       split: option.splits sum.splits\<close>)

lemma session_ok_run: "session_ok w s \<Longrightarrow> session_run w s es = Some (outs, s') \<Longrightarrow> session_ok w s'"
proof (induction es arbitrary: s outs)
  case (Cons e es)
  then obtain out s1 rest where "session_step w s e = Some (out, s1)" "session_run w s1 es = Some (rest, s')"
    by (auto split: Option.bind_splits)
  with Cons.IH session_ok_step [OF Cons.prems(1)] show ?case by blast
qed simp

lemma session_ok_start:
  assumes "session_start w sys port remote codec tx_ctx rx_ctx mic speaker voice = Inr s"
  shows "session_ok w s"
proof -
  have "voice_ok w (new_call (w_apm w) voice)" using voice_inv_new unfolding voice_ok_def by blast
  with assms show ?thesis
    by (auto simp: session_start_def session_ok_def split: option.splits sum.splits)
qed

end
