(* ===== verification/Session_Progress.thy ===== *)
theory Session_Progress
  imports Session_Invariant Device_Properties
begin

text \<open>
  When a thread of a session of \<^verbatim>\<open>src/src/session.rs\<close> is lost: the turns that do not return are just those of a
  resampler that cannot be made, of a microphone of zero samples per second, and of a packet that
  decodes to more than the playback queue holds.
\<close>

section \<open>The frame of the microphone is not empty\<close>

lemma fp_round_at_least:
  assumes "pow2 k \<le> x" "- 1074 \<le> k"
  shows "fp_round F64 x = PInf \<or> (\<exists>r. fp_round F64 x = Fin r \<and> pow2 k \<le> r)"
proof -
  have "pow2 k \<le> round_rat 53 (- 1022) x"
    by (rule round_ge_exact [where m = 1 and k = k]) (use assms in simp_all)
  moreover from this have "0 < round_rat 53 (- 1022) x" by (rule less_le_trans [OF pow2_pos])
  ultimately show ?thesis by (simp add: fp_round_def F64_def Let_def)
qed

lemma fp_round_at_most:
  assumes "0 < x" "x \<le> pow2 k" "- 1074 \<le> k" "k < 1023"
  shows "\<exists>r. fp_round F64 x = Fin r \<and> r \<le> pow2 k"
proof -
  have le: "round_rat 53 (- 1022) x \<le> pow2 k"
    by (rule round_le_exact [where m = 1 and k = k]) (use assms in simp_all)
  have "\<not> (round_rat 53 (- 1022) x \<noteq> 0 \<and> ilog2 \<bar>round_rat 53 (- 1022) x\<bar> > 1023)"
  proof (cases "0 < round_rat 53 (- 1022) x")
    case True
    then have "round_rat 53 (- 1022) x < pow2 (k + 1)" using le pow2_strict [of k "k + 1"] by linarith
    then show ?thesis using ilog2_le [OF True, of k] True assms(4) by simp
  next
    case False
    have "nearest_even (of_int 0) \<le> nearest_even (x / q)" if "0 < q" for q
      by (rule nearest_even_mono) (use assms(1) that in simp)
    then have "0 \<le> round_rat 53 (- 1022) x" using assms(1) unfolding nearest_even_of_int by (simp add: round_rat_def Let_def less_imp_le)
    then show ?thesis using False by simp
  qed
  then have "fp_round F64 x = Fin (round_rat 53 (- 1022) x)"
    by (simp only: fp_round_def F64_def fp_format.simps Let_def if_False)
  then show ?thesis using le by simp
qed

lemma native_samples_pos:
  assumes "rate \<noteq> 0"
  shows "0 < native_samples_per_frame codec rate"
proof -
  have rate: "0 < unat rate" "unat rate < 2 ^ 32"
    using assms unsigned_less [of rate, where 'a = nat] by (auto simp: unsigned_eq_0_iff intro: Nat.gr0I)
  have small: "f64_of_nat (pcm_rate codec) = Fin (of_nat (pcm_rate codec))" "f64_of_nat (unat rate) = Fin (of_nat (unat rate))"
    "f64_of_nat (pcm_samples_per_packet codec) = Fin (of_nat (pcm_samples_per_packet codec))"
    using rate by (simp_all add: f64_of_nat_exact del: of_nat_unat)
      (cases codec; simp add: f64_of_nat_exact pcm_samples_per_packet_def PACKET_DURATION_MS_def)+
  have pcm: "8000 \<le> pcm_rate codec" "pcm_rate codec \<le> 48000" by (cases codec; simp)+
  define q :: rat where "q = of_nat (pcm_rate codec) / of_nat (unat rate)"
  have rat: "(1 :: rat) \<le> of_nat (unat rate)" "(of_nat (unat rate) :: rat) \<le> 4294967296"
    "(8000 :: rat) \<le> of_nat (pcm_rate codec)" "of_nat (pcm_rate codec) \<le> (48000 :: rat)"
  proof -
    show "(1 :: rat) \<le> of_nat (unat rate)" using rate(1) by (metis One_nat_def Suc_leI of_nat_1 of_nat_le_iff)
    show "(of_nat (unat rate) :: rat) \<le> 4294967296" using rate(2) of_nat_le_iff [of "unat rate" 4294967296, where 'a = rat] by simp
    show "(8000 :: rat) \<le> of_nat (pcm_rate codec)" "of_nat (pcm_rate codec) \<le> (48000 :: rat)"
      using pcm of_nat_le_iff [of 8000 "pcm_rate codec", where 'a = rat] of_nat_le_iff [of "pcm_rate codec" 48000, where 'a = rat]
      by simp_all
  qed
  have q: "pow2 (- 32) \<le> q" "q \<le> pow2 16" "0 < q"
    using rat by (simp_all add: q_def pow2_def field_simps)
  obtain r where r: "fp_round F64 q = Fin r" "r \<le> pow2 16" using fp_round_at_most [OF q(3,2)] by auto
  then have r0: "pow2 (- 32) \<le> r" using fp_round_at_least [OF q(1)] by auto
  have ratio: "fp_div F64 (f64_of_nat (pcm_rate codec)) (f64_of_nat (unat rate)) = Fin r"
    using r(1) rat by (simp add: small q_def)
  have rp: "0 < r" by (rule less_le_trans [OF pow2_pos r0])
  have "pow2 (- 16) \<le> of_nat (pcm_samples_per_packet codec) / r"
  proof -
    have "(1 :: rat) \<le> of_nat (pcm_samples_per_packet codec)"
      using samples_per_packet_pos [of codec] by (metis One_nat_def Suc_leI of_nat_1 of_nat_le_iff)
    then show ?thesis using r(2) rp by (simp add: pow2_def field_simps)
  qed
  from fp_round_at_least [OF this] consider "fp_div F64 (f64_of_nat (pcm_samples_per_packet codec)) (Fin r) = PInf" |
    x where "fp_div F64 (f64_of_nat (pcm_samples_per_packet codec)) (Fin r) = Fin x" "0 < x"
    using rp less_le_trans [OF pow2_pos] by (auto simp: small(3))
  then show ?thesis
  proof cases
    case 1
    then show ?thesis by (simp add: native_samples_per_frame_def ratio Let_def as_usize_def fp_ceil_def)
  next
    case 2
    then have "0 < \<lceil>x\<rceil>" by simp
    then show ?thesis using 2(1) by (simp add: native_samples_per_frame_def ratio Let_def as_usize_def fp_ceil_def trunc_rat_def)
  qed
qed

lemma native_samples_zero: "native_samples_per_frame codec 0 = 0"
  by (cases codec) (simp_all add: native_samples_per_frame_def Let_def f64_of_nat_exact fp_inf_def as_usize_def fp_ceil_def
      trunc_rat_def pcm_samples_per_packet_def PACKET_DURATION_MS_def)

section \<open>The fallback of the resampler fits in memory\<close>

lemma round_ceil_le:
  assumes "0 < x" "x \<le> pow2 (int k)" "k < 1000"
  shows "as_usize (fp_ceil (fp_round F64 x)) \<le> 2 ^ k"
proof -
  obtain r where r: "fp_round F64 x = Fin r" "r \<le> pow2 (int k)"
    using fp_round_at_most [OF assms(1,2)] assms(3) by auto
  then have "\<lceil>r\<rceil> \<le> 2 ^ k" unfolding pow2_nat by (simp add: ceiling_le_iff)
  then have "trunc_rat (of_int \<lceil>r\<rceil>) \<le> 2 ^ k" by (simp add: trunc_rat_def)
  then have "fp_to_int 0 (2 ^ 64 - 1) (fp_ceil (Fin r)) \<le> 2 ^ k" by (simp add: fp_ceil_def)
  then have "nat (fp_to_int 0 (2 ^ 64 - 1) (fp_ceil (Fin r))) \<le> nat (2 ^ k)" by (rule nat_mono)
  then show ?thesis by (simp add: r(1) as_usize_def nat_power_eq)
qed

text \<open>A quotient of two floats that are whole numbers, and what divides by it.\<close>

lemma quotient_at_least:
  assumes "0 < a" "a < 2 ^ 53" "0 < b" "b < 2 ^ 53" "b \<le> a * 2 ^ k" "k < 1000"
  shows "\<exists>r. fp_div F64 (f64_of_nat a) (f64_of_nat b) = Fin r \<and> pow2 (- int k) \<le> r"
proof -
  define q :: rat where "q = of_nat a / of_nat b"
  have "of_nat b \<le> (of_nat (a * 2 ^ k) :: rat)" using assms(5) of_nat_le_iff by blast
  moreover have p: "pow2 (- int k) = 1 / 2 ^ k" by (simp add: pow2_def)
  ultimately have q0: "pow2 (- int k) \<le> q" unfolding q_def p using assms(3) by (simp add: field_simps)
  have "(of_nat a :: rat) \<le> of_nat (2 ^ 53)" using assms(2) by (simp only: of_nat_le_iff less_imp_le)
  moreover have "(1 :: rat) \<le> of_nat b" using assms(3) by (metis One_nat_def Suc_leI of_nat_1 of_nat_le_iff)
  ultimately have q1: "0 < q" "q \<le> pow2 53" using assms(1,3) by (simp_all add: q_def pow2_def field_simps)
  obtain r where r: "fp_round F64 q = Fin r" using fp_round_at_most [OF q1] by auto
  moreover have "pow2 (- int k) \<le> r" using fp_round_at_least [OF q0] assms(6) r by auto
  moreover have "of_nat b \<noteq> (0 :: rat)" using assms(3) by simp
  ultimately show ?thesis using assms(2,4) by (simp add: f64_of_nat_exact q_def)
qed

lemma divided_length:
  assumes "n \<le> 2 ^ m" "pow2 (- int k) \<le> r" "m < 53" "m + k < 1000"
  shows "as_usize (fp_ceil (fp_div F64 (f64_of_nat n) (Fin r))) \<le> 2 ^ (m + k)"
proof (cases "n = 0")
  case False
  have r: "0 < r" by (rule less_le_trans [OF pow2_pos assms(2)])
  have "of_nat n \<le> (2 ^ m :: rat)" using assms(1) of_nat_le_iff [of n "2 ^ m", where 'a = rat] by simp
  also have "\<dots> = pow2 (int (m + k)) * pow2 (- int k)" by (simp flip: pow2_add) (simp add: pow2_def)
  also have "\<dots> \<le> pow2 (int (m + k)) * r" by (rule mult_left_mono [OF assms(2)]) (simp add: less_imp_le)
  finally have "of_nat n / r \<le> pow2 (int (m + k))" using r by (simp add: field_simps)
  moreover have "0 < of_nat n / r" using r False by simp
  ultimately have "as_usize (fp_ceil (fp_round F64 (of_nat n / r))) \<le> 2 ^ (m + k)" using assms(4) by (intro round_ceil_le)
  moreover have "n < 2 ^ 53" using assms(1,3) by (meson le_less_trans one_less_numeral_iff power_strict_increasing semiring_norm(76))
  ultimately show ?thesis using r by (simp add: f64_of_nat_exact)
next
  case True
  have r: "r \<noteq> 0" using less_le_trans [OF pow2_pos assms(2)] by simp
  show ?thesis using r fp_round_int_F64 [of 0]
    by (simp add: True f64_of_nat_exact as_usize_def fp_ceil_def trunc_rat_def)
qed

lemma linear_total:
  assumes "length chunk \<le> 2 ^ 30" "0 < unat f" "unat t \<le> unat f * 2 ^ 30"
  shows "\<exists>out. resample_linear_simple chunk f t = Some out"
proof (cases "unat t = 0")
  case True
  have n: "length chunk < 2 ^ 53" "unat f < 2 ^ 53" using assms(1) unsigned_less [of f, where 'a = nat] by simp_all
  have "fp_div F64 (f64_of_nat (unat f)) (f64_of_nat (unat t)) = PInf"
    using assms(2) n(2) unfolding True by (simp add: f64_of_nat_exact fp_inf_def del: of_nat_unat)
  then show ?thesis using n(1)
    by (simp add: resample_linear_simple_def Let_def f64_of_nat_exact as_usize_def fp_ceil_def trunc_rat_def)
next
  case False
  have "unat f < 2 ^ 53" "unat t < 2 ^ 53"
    using unsigned_less [of f, where 'a = nat] unsigned_less [of t, where 'a = nat] by simp_all
  with quotient_at_least [OF assms(2) _ _ _ assms(3)] False obtain r where
    r: "fp_div F64 (f64_of_nat (unat f)) (f64_of_nat (unat t)) = Fin r" "pow2 (- int 30) \<le> r" by auto
  have "as_usize (fp_ceil (fp_div F64 (f64_of_nat (length chunk)) (Fin r))) \<le> 2 ^ (30 + 30)"
    by (rule divided_length [OF assms(1) r(2)]) simp_all
  then show ?thesis by (simp add: resample_linear_simple_def Let_def r(1))
qed

lemma native_samples_at_most: "native_samples_per_frame codec rate \<le> 2 ^ 30"
proof (cases "rate = 0")
  case False
  have rate: "0 < unat rate" "unat rate < 2 ^ 32"
    using False unsigned_less [of rate, where 'a = nat] by (auto simp: unsigned_eq_0_iff intro: Nat.gr0I)
  have pcm: "8000 \<le> pcm_rate codec" "pcm_rate codec \<le> 48000" by (cases codec; simp)+
  have "0 < pcm_rate codec" "pcm_rate codec < 2 ^ 53" "unat rate < 2 ^ 53" "unat rate \<le> pcm_rate codec * 2 ^ 20"
    using pcm rate by simp_all
  from quotient_at_least [OF this(1,2) rate(1) this(3,4)] obtain r where
    r: "fp_div F64 (f64_of_nat (pcm_rate codec)) (f64_of_nat (unat rate)) = Fin r" "pow2 (- int 20) \<le> r" by auto
  have "pcm_samples_per_packet codec \<le> 2 ^ 10" by (cases codec) (simp_all add: pcm_samples_per_packet_def PACKET_DURATION_MS_def)
  from divided_length [OF this r(2)] show ?thesis by (simp add: native_samples_per_frame_def r(1) Let_def)
qed (simp add: native_samples_zero)

section \<open>Loops that end\<close>

lemma drain_total:
  assumes "0 < n" "P s" "\<And>s x. P s \<Longrightarrow> length x = n \<Longrightarrow> \<exists>out s'. f s x = Some (out, s') \<and> P s'"
  shows "\<exists>out s' rest. drain n f s xs = Some (out, s', rest)"
proof -
  have "\<exists>out s'. fold_units f s xs = Some (out, s')" if "P s" "\<forall>x\<in>set xs. length x = n" for s and xs
    using that
  proof (induction xs arbitrary: s)
    case (Cons x xs)
    then have "length x = n" by simp
    from assms(3) [OF Cons.prems(1) this] obtain y t where t: "f s x = Some (y, t)" "P t" by blast
    from Cons.IH [OF t(2)] Cons.prems(2) t(1) show ?case by auto
  qed simp
  then show ?thesis using assms(1,2) frames_of_spec [OF assms(1), of xs] by (fastforce simp: drain_frames)
qed

text \<open>A resampler returns whatever the library answers: a chunk that it refuses is interpolated here.\<close>

definition rates_fit :: "u32 \<Rightarrow> u32 \<Rightarrow> nat \<Rightarrow> bool" where
  "rates_fit f t n \<longleftrightarrow> 0 < n \<and> n \<le> 2 ^ 30 \<and> 0 < unat f \<and> unat t \<le> unat f * 2 ^ 30"

lemma resampler_total:
  assumes "resampler_for f t n res" "rates_fit f t n"
  shows "\<exists>out res'. resampler_process rubato res xs = Some (out, res')"
proof -
  have n: "sr_chunk_size res = n" "sr_from_rate res = f" "sr_to_rate res = t" using assms(1) by (simp_all add: resampler_for_def)
  have "\<exists>out r'. resample_chunk rubato f t r x = Some (out, r') \<and> True" if "length x = n" for r x
  proof -
    have "length x \<le> 2 ^ 30" "0 < unat f" "unat t \<le> unat f * 2 ^ 30" using assms(2) that unfolding rates_fit_def by blast+
    then obtain out where "resample_linear_simple x f t = Some out" using linear_total by blast
    then show ?thesis by (auto simp: resample_chunk_def split: prod.split sum.split)
  qed
  moreover have "0 < n" using assms(2) by (simp add: rates_fit_def)
  ultimately have "\<exists>out s' rest. drain n (resample_chunk rubato f t) (sr_resampler res) (sr_remainder res @ xs) = Some (out, s', rest)"
    by (intro drain_total [where P = "\<lambda>_. True"]) simp_all
  then show ?thesis by (auto simp: resampler_process_def n)
qed

lemma mic_chunk_total:
  assumes "resampler_for f t n res" "rates_fit f t n"
  shows "\<exists>out res' pending' enc' s'. mic_chunk w (res, pending, enc, s) chunk = Some (out, res', pending', enc', s')"
proof -
  obtain resampled res' where r: "resampler_process (w_rubato w) res chunk = Some (resampled, res')"
    using resampler_total [OF assms] by blast
  have "\<exists>out es' rest. drain (pcm_samples_per_packet (ms_codec s)) (\<lambda>es pcm. Some (mic_packet w es pcm))
      (enc, s\<lparr>ms_tx_level := rms_level chunk\<rparr>) (pending @ f32_to_i16 resampled) = Some (out, es', rest)"
    by (rule drain_total [where P = "\<lambda>_. True", OF samples_per_packet_pos]) (simp, metis surj_pair)
  then show ?thesis using r by (auto simp: mic_chunk_def Let_def)
qed

lemma mic_total:
  assumes ok: "session_ok w s" and a: "ms_tx s = TxRunning a" "at_native_rate a \<noteq> 0"
  shows "mic_callback w samples s \<noteq> None"
proof (cases "ms_running s \<and> \<not> ms_muted s")
  case True
  let ?n = "native_samples_per_frame (ms_codec s) (at_native_rate a)"
  have v: "voice_ok w (ms_voice s)" using ok by (simp add: session_ok_def)
  obtain o0 voice0 where v0:
    "(if at_was_muted a then voice_step (w_apm w) (ms_voice s) ResetCapture else Some ([], ms_voice s)) = Some (o0, voice0)"
    "voice_ok w voice0"
  proof (cases "at_was_muted a")
    case True
    with voice_total [OF v, of ResetCapture] that voice_ok_step [OF v, of ResetCapture] show ?thesis by (metis (full_types))
  qed (use that v in simp)
  obtain cleaned voice where v1: "voice_step (w_apm w) voice0 (Mic samples) = Some (cleaned, voice)"
    using voice_total [OF v0(2)] by blast
  have res: "resampler_for (at_native_rate a) (word_of_nat (pcm_rate (ms_codec s))) ?n (at_resampler a)"
    using ok a(1) by (simp add: session_ok_def tx_ok_def)
  note n = native_samples_pos [OF a(2), of "ms_codec s"]
  have "0 < unat (at_native_rate a)" using a(2) by (simp add: unsigned_eq_0_iff neq0_conv [symmetric])
  then have fit: "rates_fit (at_native_rate a) (word_of_nat (pcm_rate (ms_codec s))) ?n"
    using n native_samples_at_most [of "ms_codec s" "at_native_rate a"] by (cases "ms_codec s") (simp_all add: rates_fit_def)
  have "\<exists>out st rest. drain ?n (mic_chunk w) (at_resampler a, at_pending_pcm a, at_encoder a, s\<lparr>ms_voice := voice\<rparr>)
      (at_sample_buffer a @ cleaned) = Some (out, st, rest)"
  proof (rule drain_total [where P = "\<lambda>st. resampler_for (at_native_rate a) (word_of_nat (pcm_rate (ms_codec s))) ?n (fst st)", OF n])
    fix st :: "'c StreamResampler \<times> pcm \<times> 'a \<times> ('a, 'b, 'c, 'd) MediaSession" and chunk
    assume P: "resampler_for (at_native_rate a) (word_of_nat (pcm_rate (ms_codec s))) ?n (fst st)"
    obtain res pending enc t where st: "st = (res, pending, enc, t)" by (metis prod.collapse)
    from mic_chunk_total [OF _ fit, of res w pending enc t chunk] P mic_chunk_bounds [of w res pending enc t chunk]
    show "\<exists>out st'. mic_chunk w st chunk = Some (out, st') \<and>
        resampler_for (at_native_rate a) (word_of_nat (pcm_rate (ms_codec s))) ?n (fst st')"
      unfolding st by (metis fst_conv)
  qed (use res in simp)
  then show ?thesis using True a(1) v0(1) v1 by (fastforce simp: mic_callback_def)
qed (use a in \<open>auto simp: mic_callback_def\<close>)

section \<open>The turns that do not return\<close>

text \<open>The resampler of a device that opens cannot be made.\<close>

definition open_fails :: "('e, 'd, 'r, 'b) world \<Rightarrow> ('e, 'd, 'r, 'b) MediaSession \<Rightarrow> session_event \<Rightarrow> bool" where
  "open_fails w s e =
    (case e of
       OpenMic host \<Rightarrow>
        (case ms_tx s of
           TxStarting _ name \<Rightarrow>
            (case session_input host name of
               Inl _ \<Rightarrow> False
             | Inr (_, rate) \<Rightarrow> Option.is_none (StreamResampler_new (w_new_poly w) rate (word_of_nat (pcm_rate (ms_codec s)))
                 (native_samples_per_frame (ms_codec s) rate)))
         | _ \<Rightarrow> False)
     | OpenSpeaker host \<Rightarrow>
        (case ms_rx s of
           RxStarting _ name \<Rightarrow>
            (case session_output host name of
               Inl _ \<Rightarrow> False
             | Inr (d, rate) \<Rightarrow> Option.is_none (output_stream_error d) \<and>
                 Option.is_none (StreamResampler_new (w_new_poly w) (word_of_nat (pcm_rate (ms_codec s))) rate
                   (pcm_samples_per_packet (ms_codec s))))
         | _ \<Rightarrow> False)
     | _ \<Rightarrow> False)"

text \<open>A microphone of zero samples per second.\<close>

definition mic_spins :: "('e, 'd, 'r, 'b) MediaSession \<Rightarrow> session_event \<Rightarrow> bool" where
  "mic_spins s e =
    (case e of
       MicData _ \<Rightarrow> (case ms_tx s of TxRunning a \<Rightarrow> at_native_rate a = 0 \<and> ms_running s \<and> \<not> ms_muted s | _ \<Rightarrow> False)
     | _ \<Rightarrow> False)"

text \<open>A packet of more samples than the queue holds.\<close>

definition tick_overflows :: "('e, 'd, 'r, 'b) world \<Rightarrow> ('e, 'd, 'r, 'b) MediaSession \<Rightarrow> session_event \<Rightarrow> bool" where
  "tick_overflows w s e =
    (case e of
       PlayoutTick now \<Rightarrow>
        (case ms_rx s of
           RxRunning a \<Rightarrow>
            (case pop_at (ar_jitter a) now of
               Some (Some pkt, jitter) \<Rightarrow>
                (case tick_samples w (ms_codec s) pkt (a\<lparr>ar_jitter := jitter\<rparr>) of
                   Some (samples, _) \<Rightarrow> max_buffer_samples (ar_native_rate a) < length samples
                 | None \<Rightarrow> False)
             | _ \<Rightarrow> False)
         | _ \<Rightarrow> False)
     | _ \<Rightarrow> False)"

lemma voice_returns:
  assumes "session_ok w s"
  obtains out voice where "voice_step (w_apm w) (ms_voice s) op = Some (out, voice)"
  using voice_total [of w "ms_voice s" op] assms unfolding session_ok_def by blast

lemma mic_open_fails:
  assumes "session_ok w s"
  shows "audio_tx_open w host s = None \<longleftrightarrow> open_fails w s (OpenMic host)"
proof (cases "ms_tx s")
  case (TxStarting enc name)
  show ?thesis
  proof (cases "session_input host name")
    case (Inr x)
    obtain d rate where x: "x = (d, rate)" by fastforce
    obtain out voice where v: "voice_step (w_apm w) (ms_voice s) (OpenCapture rate) = Some (out, voice)"
      using voice_returns [OF assms] .
    show ?thesis
      by (cases "StreamResampler_new (w_new_poly w) rate (word_of_nat (pcm_rate (ms_codec s)))
          (native_samples_per_frame (ms_codec s) rate)")
         (simp_all add: audio_tx_open_def open_fails_def TxStarting Inr x v del: voice_step.simps)
  qed (simp add: audio_tx_open_def open_fails_def TxStarting)
qed (simp_all add: audio_tx_open_def open_fails_def)

lemma speaker_open_fails:
  assumes "session_ok w s"
  shows "audio_rx_open w host s = None \<longleftrightarrow> open_fails w s (OpenSpeaker host)"
proof (cases "ms_rx s")
  case (RxStarting dec name)
  show ?thesis
  proof (cases "session_output host name")
    case (Inr x)
    obtain d rate where x: "x = (d, rate)" by fastforce
    obtain out voice where v: "voice_step (w_apm w) (ms_voice s) (OpenRender rate) = Some (out, voice)"
      using voice_returns [OF assms] .
    show ?thesis
      by (cases "StreamResampler_new (w_new_poly w) (word_of_nat (pcm_rate (ms_codec s))) rate
          (pcm_samples_per_packet (ms_codec s))"; cases "output_stream_error d")
         (simp_all add: audio_rx_open_def open_fails_def RxStarting Inr x v del: voice_step.simps)
  qed (simp add: audio_rx_open_def open_fails_def RxStarting)
qed (simp_all add: audio_rx_open_def open_fails_def)

lemma mic_stops:
  assumes "session_ok w s"
  shows "mic_callback w samples s = None \<longleftrightarrow> mic_spins s (MicData samples)"
proof (cases "\<exists>a. ms_tx s = TxRunning a \<and> at_native_rate a = 0 \<and> ms_running s \<and> \<not> ms_muted s")
  case True
  then show ?thesis by (auto simp: mic_callback_def mic_spins_def native_samples_zero drain_zero split: Option.bind_splits)
next
  case False
  have "mic_callback w samples s \<noteq> None"
  proof (cases "ms_tx s")
    case (TxRunning a)
    then show ?thesis using mic_total [OF assms TxRunning] False
      by (cases "at_native_rate a = 0") (auto simp: mic_callback_def)
  qed (simp_all add: mic_callback_def)
  then show ?thesis using False by (auto simp: mic_spins_def split: tx_thread.splits)
qed

lemma speaker_total:
  assumes "session_ok w s"
  shows "speaker_callback w n s \<noteq> None"
proof (cases "ms_rx s")
  case (RxRunning a)
  obtain samples queue started where q:
    "fill_playback n (pre_buffer_samples (ar_native_rate a)) (ar_sample_buffer a, ar_playback_started a) = (samples, queue, started)"
    by (metis prod.collapse)
  obtain out voice where "voice_step (w_apm w) (ms_voice s) (Speaker samples) = Some (out, voice)"
    using voice_returns [OF assms] .
  then show ?thesis by (simp add: speaker_callback_def RxRunning q del: voice_step.simps)
qed (simp_all add: speaker_callback_def)

lemma jitter_total: "jb_inv (session_jitter_config codec) b \<Longrightarrow> pop_at b now \<noteq> None"
proof -
  assume inv: "jb_inv (session_jitter_config codec) b"
  have "adapt_delay c \<noteq> None" if "config c = config b" for c
    using adapt_delay_some [of c] inv that by (auto simp: jb_inv_def session_jitter_config_def mode_ok_def)
  moreover have "config (snd (pop_play b1 t now)) = config b" if "pop_start b now = Some (t0, b1)" for b1 t0 t
    using pop_start_inv [OF inv that] pop_play_fields(3) [of b1 t now] by simp
  ultimately show ?thesis by (auto simp: pop_at_def case_prod_unfold Let_def split: option.split)
qed

lemma speaker_rates_fit: "rates_fit (word_of_nat (pcm_rate codec)) rate (pcm_samples_per_packet codec)"
  using unsigned_less [of rate, where 'a = nat]
  by (cases codec) (simp_all add: rates_fit_def pcm_samples_per_packet_def PACKET_DURATION_MS_def)

lemma playout_stops:
  assumes "session_ok w s"
  shows "playout_tick w now s = None \<longleftrightarrow> tick_overflows w s (PlayoutTick now)"
proof (cases "ms_rx s")
  case (RxRunning a)
  have rx: "rx_ok (ms_codec s) a" using assms(1) RxRunning by (simp add: session_ok_def)
  obtain popped jitter where p: "pop_at (ar_jitter a) now = Some (popped, jitter)"
    using jitter_total [of "ms_codec s" "ar_jitter a" now] rx by (auto simp: rx_ok_def)
  show ?thesis
  proof (cases popped)
    case (Some pkt)
    have "resampler_for (word_of_nat (pcm_rate (ms_codec s))) (ar_native_rate a) (pcm_samples_per_packet (ms_codec s))
        (ar_resampler (a\<lparr>ar_jitter := jitter\<rparr>))" using rx by (simp add: rx_ok_def)
    from resampler_total [OF this speaker_rates_fit] obtain samples res where
      t: "tick_samples w (ms_codec s) pkt (a\<lparr>ar_jitter := jitter\<rparr>) = Some (samples, res)"
      unfolding tick_samples_def by blast
    show ?thesis using queue_playback_None [of "max_buffer_samples (ar_native_rate a)" "ar_sample_buffer a" samples]
      by (auto simp: playout_cases [OF RxRunning p] Some t tick_overflows_def RxRunning p case_prod_unfold Let_def
          split: Option.bind_split)
  qed (simp add: playout_cases [OF RxRunning p] tick_overflows_def RxRunning p)
qed (simp_all add: playout_tick_def tick_overflows_def)

text \<open>C6: what a session holds is well formed at any time.  Whatever turns its threads, its tasks, the network
  and the application have taken, the voice processor and the jitter buffer keep their invariants, less
  than a packet of samples waits to be encoded and less than a device frame before it, the
  playback queue holds at most half a second, the resamplers are between the rates of their
  devices and the codec, and a digit has at most five packets left and one of the twelve codes.\<close>

theorem session_well_formed:
  assumes "session_start w sys port remote codec tx_ctx rx_ctx mic speaker voice = Inr s0"
    and "session_run w s0 es = Some (outs, s)"
  shows "session_ok w s"
  using session_ok_run [OF session_ok_start [OF assms(1)] assms(2)] .

theorem session_well_formed_witness:
  "\<exists>s0 outs s. demo_start None = Inr s0 \<and> session_run demo_world s0 demo_events = Some (outs, s) \<and> session_ok demo_world s"
proof -
  obtain s0 where s0: "demo_start None = Inr s0" using demo_start_Inr by blast
  obtain outs s where run: "session_run demo_world s0 demo_events = Some (outs, s)" using demo_run [OF s0] by blast
  from session_well_formed [OF s0 [unfolded demo_start_def] run] s0 run show ?thesis by blast
qed

text \<open>C7: when a turn does not return.  In any state that a session reaches, whatever the library that resamples
  answers, a turn ends in a panic or never ends just when a device opens for whose
  rate no resampler can be made, when the microphone has zero samples per second, or when the
  playout timer takes a packet that decodes to more than half a second.\<close>

theorem session_stops_only:
  assumes "session_start w sys port remote codec tx_ctx rx_ctx mic speaker voice = Inr s0"
    and "session_run w s0 es = Some (outs, s)"
  shows "session_step w s e = None \<longleftrightarrow> open_fails w s e \<or> mic_spins s e \<or> tick_overflows w s e"
proof -
  have ok: "session_ok w s" using session_ok_run [OF session_ok_start [OF assms(1)] assms(2)] .
  show ?thesis
  proof (cases e)
    case (OpenMic host)
    then show ?thesis using mic_open_fails [OF ok, of host] by (simp add: mic_spins_def tick_overflows_def)
  next
    case (OpenSpeaker host)
    then show ?thesis using speaker_open_fails [OF ok, of host] by (simp add: mic_spins_def tick_overflows_def)
  next
    case (MicData samples)
    then show ?thesis using mic_stops [OF ok, of samples] by (simp add: open_fails_def tick_overflows_def)
  next
    case (PlayoutTick now)
    then show ?thesis using playout_stops [OF ok, of now] by (simp add: open_fails_def mic_spins_def)
  qed (use speaker_total [OF ok] in \<open>simp_all add: open_fails_def mic_spins_def tick_overflows_def\<close>)
qed

theorem session_stops_only_witness:
  "\<exists>s0 outs s. demo_start None = Inr s0 \<and> session_run demo_world s0 demo_events = Some (outs, s) \<and>
    session_step demo_world s (SetMute True) \<noteq> None \<and> \<not> tick_overflows demo_world s (SetMute True)"
proof -
  obtain s0 where s0: "demo_start None = Inr s0" using demo_start_Inr by blast
  obtain outs s where run: "session_run demo_world s0 demo_events = Some (outs, s)" using demo_run [OF s0] by blast
  from session_stops_only [OF s0 [unfolded demo_start_def] run, of "SetMute True"] s0 run show ?thesis by auto
qed

end
