(* ===== verification/G729_Fields.thy ===== *)
theory G729_Fields
  imports G729_Properties
begin

text \<open>
  What the decoder of \<^verbatim>\<open>src/src/codec/g729.rs\<close> reads of a frame that the encoder has packed, and that
  silence stays silent, whatever the cosine computes.
\<close>

section \<open>The bits of a frame\<close>

lemma mask_numerals:
  "(0x07 :: 'a :: len word) = mask 3" "(0x0F :: 'a :: len word) = mask 4" "(0x1F :: 'a :: len word) = mask 5"
  "(0x01 :: 'a :: len word) = mask 1" "(0xFF :: 'a :: len word) = mask 8" "(0x1FFF :: 'a :: len word) = mask 13"
  by (simp_all add: mask_eq_exp_minus_1)

text \<open>The byte with half the pitch, the gain and the first bit of the pulses of the second subframe.\<close>

definition field_byte :: "u8 \<Rightarrow> u8 \<Rightarrow> u8 \<Rightarrow> u8" where
  "field_byte p g f = push_bit 4 (p AND 0x0F) OR push_bit 1 (g AND 0x07) OR (f AND 0x01)"

lemma bit_field_byte:
  "bit (field_byte p g f) n \<longleftrightarrow> n < 8 \<and> (4 \<le> n \<and> bit p (n - 4) \<or> 1 \<le> n \<and> n < 4 \<and> bit g (n - 1) \<or> n = 0 \<and> bit f 0)"
proof -
  have "bit (push_bit 4 (p AND 0x0F) OR push_bit k (g AND 0x07) OR (f AND 0x01)) n \<longleftrightarrow>
    n < 8 \<and> (4 \<le> n \<and> bit p (n - 4) \<or> 1 \<le> n \<and> n < 4 \<and> bit g (n - 1) \<or> n = 0 \<and> bit f 0)" if "k = 1" for k
    unfolding mask_numerals bit_or_iff bit_and_iff bit_push_bit_iff bit_mask_iff using that by (auto dest: bit_imp_le_length)
  then show ?thesis by (simp only: field_byte_def)
qed

lemma gain_bits_first: "drop_bit 5 (push_bit 5 (g AND 0x07) OR (f AND 0x1F)) AND 0x07 = (g AND 0x07 :: u8)"
  unfolding mask_numerals by (rule bit_word_eqI) (auto simp: bit_simps)

lemma pulse_bits_first:
  "push_bit 8 (ucast ((push_bit 5 (g AND 0x07) OR (ucast (drop_bit 8 (f AND 0x1FFF)) AND 0x1F)) AND 0x1F :: u8)) OR
    ucast (ucast ((f AND 0x1FFF) AND 0xFF) :: u8) = (f AND 0x1FFF :: u16)"
  unfolding mask_numerals by (rule bit_word_eqI) (auto simp: bit_simps)

lemma gain_code_first: "drop_bit 4 (push_bit 4 (g AND 0x0F) OR (drop_bit 4 p AND 0x0F)) AND 0x0F = (g AND 0x0F :: u8)"
  unfolding mask_numerals by (rule bit_word_eqI) (auto simp: bit_simps)

lemma pitch_bits_high: "(push_bit 4 (g AND 0x0F) OR (drop_bit 4 p AND 0x0F)) AND 0x0F = (drop_bit 4 p :: u8)"
  unfolding mask_numerals by (rule bit_word_eqI) (simp only: bit_simps, auto dest: bit_imp_le_length)

lemma pitch_bits_low: "drop_bit 4 (field_byte p g f) = p AND 0x0F"
  unfolding mask_numerals by (rule bit_word_eqI) (auto simp: bit_simps bit_field_byte dest: bit_imp_le_length)

lemma gain_bits_second: "drop_bit 1 (field_byte p g f) AND 0x07 = g AND 0x07"
proof -
  have "drop_bit k (field_byte p g f) AND 0x07 = g AND 0x07" if "k = 1" for k
    unfolding mask_numerals using that by (intro bit_word_eqI) (auto simp: bit_simps bit_field_byte dest: bit_imp_le_length)
  then show ?thesis by simp
qed

lemma pulse_bits_second:
  "push_bit 12 (ucast (field_byte p g (ucast (drop_bit 12 (f AND 0x1FFF))) AND 0x01)) OR
    push_bit 4 (ucast (ucast (drop_bit 4 (f AND 0x1FFF) AND 0xFF) :: u8)) OR
    ucast (drop_bit 4 (ucast (push_bit 4 ((f AND 0x1FFF) AND 0x0F)) OR h AND 0x0F :: u8)) = (f AND 0x1FFF :: u16)"
  (is "?a OR ?b OR ?c = _")
proof -
  have a: "bit (ucast (field_byte p g (ucast (drop_bit 12 (f AND 0x1FFF))) AND 0x01) :: u16) n \<longleftrightarrow> n = 0 \<and> bit f 12" for n
    unfolding mask_numerals by (auto simp: bit_simps bit_field_byte)
  have b: "bit (ucast (ucast (drop_bit 4 (f AND 0x1FFF) AND 0xFF) :: u8) :: u16) n \<longleftrightarrow> n < 8 \<and> bit f (n + 4)" for n
    unfolding mask_numerals by (auto simp: bit_simps add.commute)
  have c: "bit ?c n \<longleftrightarrow> n < 4 \<and> bit f n" for n unfolding mask_numerals by (auto simp: bit_simps)
  show ?thesis
  proof (rule bit_word_eqI)
    fix n assume n: "n < LENGTH(16)"
    have "bit ?a n \<longleftrightarrow> n = 12 \<and> bit f 12" using n unfolding bit_push_bit_iff a by auto
    moreover have "bit ?b n \<longleftrightarrow> 4 \<le> n \<and> n < 12 \<and> bit f n" using n unfolding bit_push_bit_iff b by auto
    moreover have "bit (f AND 0x1FFF) n \<longleftrightarrow> n < 13 \<and> bit f n" unfolding mask_numerals bit_and_iff bit_mask_iff using n by auto
    ultimately show "bit (?a OR ?b OR ?c) n = bit (f AND 0x1FFF) n" unfolding bit_or_iff c by (cases "n = 12") auto
  qed
qed

lemma gain_code_second: "(ucast (push_bit 4 (f AND 0x0F)) OR (h AND 0x0F)) AND 0x0F = (h AND 0x0F :: u8)" for f :: u16
  unfolding mask_numerals by (rule bit_word_eqI) (auto simp: bit_simps)

text \<open>What \<^verbatim>\<open>a | b + PITCH_MIN\<close> loses of a lag: the bit that the sum carries into the other half.\<close>

definition lost_lag :: "nat \<Rightarrow> nat" where
  "lost_lag n = (if n mod 16 < 12 then n div 16 mod 2 * 16 else n div 32 mod 2 * 32)"

lemma second_lag_halves:
  assumes "h < 8" "l < 16"
  shows "(push_bit 4 h OR (l + PITCH_MIN)) + lost_lag (16 * h + l) = 16 * h + l + PITCH_MIN"
proof -
  have "list_all (\<lambda>h. list_all (\<lambda>l. (push_bit 4 h OR (l + PITCH_MIN)) + lost_lag (16 * h + l) = 16 * h + l + PITCH_MIN) [0, 1, 2, 3, 4, 5, 6, 7, 8, 9, 10, 11, 12, 13, 14, 15])
      [0, 1, 2, 3, 4, 5, 6, 7]"
    by (simp add: lost_lag_def PITCH_MIN_def)
  moreover have "h \<in> set [0, 1, 2, 3, 4, 5, 6, 7]" "l \<in> set [0, 1, 2, 3, 4, 5, 6, 7, 8, 9, 10, 11, 12, 13, 14, 15]"
    using assms unfolding list.set insert_iff empty_iff by presburger+
  ultimately show ?thesis unfolding list_all_iff by blast
qed

lemma second_lag:
  assumes "p \<le> (127 :: u8)"
  shows "(push_bit 4 (unat (drop_bit 4 p)) OR (unat (p AND 0x0F) + PITCH_MIN)) + lost_lag (unat p) = unat p + PITCH_MIN"
proof -
  have h: "unat (drop_bit 4 p) = unat p div 16" unfolding unat_drop_bit_eq by (simp add: drop_bit_eq_div)
  have l: "unat (p AND 0x0F) = unat p mod 16"
    unfolding mask_numerals take_bit_eq_mask [symmetric] unsigned_take_bit_eq by (simp add: take_bit_eq_mod)
  have "unat p \<le> 127" using assms by (simp add: word_le_nat_alt)
  then show ?thesis unfolding h l using second_lag_halves [of "unat p div 16" "unat p mod 16"] by simp
qed


section \<open>What the decoder reads\<close>

lemma pack_frame:
  "pack_subframe 1 c1 (pack_subframe 0 c0 [ind, ind', 0, 0, 0, 0, 0, 0, 0, 0]) =
    [ind, ind', sf_pitch c0,
     push_bit 5 (sf_gain_p c0) OR (ucast (drop_bit 8 (sf_fixed c0)) AND 0x1F),
     ucast (sf_fixed c0 AND 0xFF),
     push_bit 4 (sf_gain_c c0) OR (drop_bit 4 (sf_pitch c1) AND 0x0F),
     push_bit 4 (sf_pitch c1 AND 0x0F) OR push_bit 1 (sf_gain_p c1) OR (ucast (drop_bit 12 (sf_fixed c1)) AND 0x01),
     ucast (drop_bit 4 (sf_fixed c1) AND 0xFF),
     ucast (push_bit 4 (sf_fixed c1 AND 0x0F)) OR sf_gain_c c1, 0]"
  by (simp add: pack_subframe_def numeral_eq_Suc)

text \<open>The values that a subframe codes stay within their bits.\<close>

lemma min_and:
  fixes x :: u8
  shows "min x 7 = min x 7 AND 0x07" "min x 15 = min x 15 AND 0x0F"
proof -
  have "unat (min x 7) < 2 ^ 3" "unat (min x 15) < 2 ^ 4" by (auto simp: min_def word_le_nat_alt)
  then have "take_bit 3 (min x 7) = min x 7" "take_bit 4 (min x 15) = min x 15"
    unfolding word_unat_eq_iff unsigned_take_bit_eq by (simp_all only: take_bit_nat_eq_self)
  then show "min x 7 = min x 7 AND 0x07" "min x 15 = min x 15 AND 0x0F"
    by (simp_all add: take_bit_eq_mask mask_eq_exp_minus_1)
qed

lemma code_subframe_fields:
  assumes "code_subframe gain energy x lag = Some c" "PITCH_MIN \<le> lag" "lag \<le> PITCH_MAX"
  shows "unat (sf_pitch c) = lag - PITCH_MIN" "sf_pitch c \<le> 127"
    "sf_gain_p c = min (saturating_u8 (fp_mul F32 gain (Fin 4))) 7" "sf_gain_p c = sf_gain_p c AND 0x07"
    "sf_fixed c = word_of_int (fp_to_int 0 65535 (fp_mul F32 x (Fin 1000))) AND 0x1FFF" "sf_fixed c = sf_fixed c AND 0x1FFF"
    "sf_gain_c c = min (saturating_u8 (fp_div F32 energy (Fin 1000))) 15" "sf_gain_c c = sf_gain_c c AND 0x0F"
proof -
  have c: "c = \<lparr>sf_pitch = min (word_of_nat (lag - PITCH_MIN)) 127,
        sf_gain_p = min (saturating_u8 (fp_mul F32 gain (Fin 4))) 7,
        sf_fixed = word_of_int (fp_to_int 0 65535 (fp_mul F32 x (Fin 1000))) AND 0x1FFF,
        sf_gain_c = min (saturating_u8 (fp_div F32 energy (Fin 1000))) 15\<rparr>"
    using assms(1,2) by (simp add: code_subframe_def)
  have l: "lag - PITCH_MIN \<le> 123" using assms(3) by (simp add: g729_sizes)
  then have u: "unat (word_of_nat (lag - PITCH_MIN) :: u8) = lag - PITCH_MIN" by (simp add: unat_of_nat)
  then have "(word_of_nat (lag - PITCH_MIN) :: u8) \<le> 127" unfolding word_le_nat_alt using l by simp
  then have "sf_pitch c = word_of_nat (lag - PITCH_MIN)" by (simp add: c)
  with u \<open>_ \<le> 127\<close> show "unat (sf_pitch c) = lag - PITCH_MIN" "sf_pitch c \<le> 127" by simp_all
  show "sf_gain_p c = min (saturating_u8 (fp_mul F32 gain (Fin 4))) 7" "sf_gain_p c = sf_gain_p c AND 0x07"
    "sf_gain_c c = min (saturating_u8 (fp_div F32 energy (Fin 1000))) 15" "sf_gain_c c = sf_gain_c c AND 0x0F"
    using min_and by (simp_all add: c)
  show "sf_fixed c = word_of_int (fp_to_int 0 65535 (fp_mul F32 x (Fin 1000))) AND 0x1FFF" "sf_fixed c = sf_fixed c AND 0x1FFF"
    by (simp_all add: c)
qed

lemma unpack_pack_first:
  assumes "sf_gain_p c0 = sf_gain_p c0 AND 0x07" "sf_fixed c0 = sf_fixed c0 AND 0x1FFF" "sf_gain_c c0 = sf_gain_c c0 AND 0x0F"
  shows "unpack_subframe 0 (pack_subframe 1 c1 (pack_subframe 0 c0 [ind, ind', 0, 0, 0, 0, 0, 0, 0, 0])) =
    (unat (sf_pitch c0) + PITCH_MIN, gain_pitch (sf_gain_p c0), sf_fixed c0, gain_code (sf_gain_c c0))"
  using gain_bits_first [of "sf_gain_p c0" "ucast (drop_bit 8 (sf_fixed c0))"] pulse_bits_first [of "sf_gain_p c0" "sf_fixed c0"]
    gain_code_first [of "sf_gain_c c0" "sf_pitch c1"]
  unfolding assms [symmetric] by (simp add: pack_frame [unfolded One_nat_def] unpack_subframe_def)

lemma unpack_second:
  "unpack_subframe 1 [b0, b1, b2, b3, b4, b5, b6, b7, b8, b9] =
    (push_bit 4 (unat (b5 AND 0x0F)) OR (unat (drop_bit 4 b6) + PITCH_MIN),
     gain_pitch (drop_bit 1 b6 AND 0x07),
     push_bit 12 (ucast (b6 AND 0x01)) OR push_bit 4 (ucast b7) OR ucast (drop_bit 4 b8),
     gain_code (b8 AND 0x0F))"
  by (simp add: unpack_subframe_def)

lemma unpack_pack_second:
  assumes "sf_gain_p c1 = sf_gain_p c1 AND 0x07" "sf_fixed c1 = sf_fixed c1 AND 0x1FFF" "sf_gain_c c1 = sf_gain_c c1 AND 0x0F"
    "sf_gain_c c0 = sf_gain_c c0 AND 0x0F" "sf_pitch c1 \<le> 127"
  shows "unpack_subframe 1 (pack_subframe 1 c1 (pack_subframe 0 c0 [ind, ind', 0, 0, 0, 0, 0, 0, 0, 0])) =
    (unat (sf_pitch c1) + PITCH_MIN - lost_lag (unat (sf_pitch c1)), gain_pitch (sf_gain_p c1), sf_fixed c1, gain_code (sf_gain_c c1))"
proof -
  let ?b6 = "field_byte (sf_pitch c1) (sf_gain_p c1) (ucast (drop_bit 12 (sf_fixed c1)))"
  have b6: "push_bit 4 (sf_pitch c1 AND 0x0F) OR push_bit 1 (sf_gain_p c1) OR (ucast (drop_bit 12 (sf_fixed c1)) AND 0x01) = ?b6"
    unfolding field_byte_def assms(1) [symmetric] ..
  have lag: "push_bit 4 (unat (drop_bit 4 (sf_pitch c1))) OR (unat (sf_pitch c1 AND 0x0F) + PITCH_MIN) =
      unat (sf_pitch c1) + PITCH_MIN - lost_lag (unat (sf_pitch c1))"
    using second_lag [OF assms(5)] by linarith
  have pulses: "push_bit 12 (ucast (?b6 AND 0x01)) OR push_bit 4 (ucast (ucast (drop_bit 4 (sf_fixed c1) AND 0xFF) :: u8)) OR
      ucast (drop_bit 4 (ucast (push_bit 4 (sf_fixed c1 AND 0x0F)) OR sf_gain_c c1)) = sf_fixed c1"
    using pulse_bits_second [of "sf_pitch c1" "sf_gain_p c1" "sf_fixed c1" "sf_gain_c c1"]
    unfolding assms(2) [symmetric] assms(3) [symmetric] .
  have gains: "(push_bit 4 (sf_gain_c c0) OR (drop_bit 4 (sf_pitch c1) AND 0x0F)) AND 0x0F = drop_bit 4 (sf_pitch c1)"
    "drop_bit 1 ?b6 AND 0x07 = sf_gain_p c1" "(ucast (push_bit 4 (sf_fixed c1 AND 0x0F)) OR sf_gain_c c1) AND 0x0F = sf_gain_c c1"
    using pitch_bits_high [of "sf_gain_c c0" "sf_pitch c1"] gain_bits_second [of "sf_pitch c1" "sf_gain_p c1"]
      gain_code_second [of "sf_fixed c1" "sf_gain_c c1"]
    unfolding assms(1) [symmetric] assms(3) [symmetric] assms(4) [symmetric] by simp_all
  show ?thesis unfolding pack_frame b6 unpack_second gains pitch_bits_low lag pulses ..
qed


text \<open>C29: what the decoder reads of a frame.  Whatever the cosine computes, the encoder packs 80 samples
  into ten bytes of which the decoder reads the pitch lag, the gains and the pulses of the first
  half as they were coded; both halves have searched the same history, which ends before the frame.
  Of the second half all is read back but the lag: what \<open>lost_lag\<close> says is missing, 16 or 32
  samples for half of the lags.\<close>

theorem g729_fields:
  fixes cosf :: "fp \<Rightarrow> fp" and enc :: G729Encoder
  defines "half \<equiv> \<lambda>xs x lag gain.
    (lag, gain_pitch (min (saturating_u8 (fp_mul F32 gain (Fin 4))) 7),
     word_of_int (fp_to_int 0 65535 (fp_mul F32 x (Fin 1000))) AND 0x1FFF :: u16,
     gain_code (min (saturating_u8 (fp_div F32 (fp_sqrt F32 (fp_sum F32 (map (\<lambda>x. fp_mul F32 x x) xs))) (Fin 1000))) 15))"
  assumes "g729_enc_ok enc" "length samples = FRAME_SIZE"
  shows "\<exists>frame enc' lag0 gain0 lag1 gain1.
    encode_frame cosf samples enc = Some (frame, enc') \<and> length frame = FRAME_BYTES \<and>
    pitch_search (take SUBFRAME_SIZE samples) (ge_prev_samples enc) = Some (lag0, gain0) \<and>
    pitch_search (drop SUBFRAME_SIZE samples) (ge_prev_samples enc) = Some (lag1, gain1) \<and>
    unpack_subframe 0 frame = half (take SUBFRAME_SIZE samples) (samples ! 0) lag0 gain0 \<and>
    unpack_subframe 1 frame =
      half (drop SUBFRAME_SIZE samples) (samples ! SUBFRAME_SIZE) (lag1 - lost_lag (lag1 - PITCH_MIN)) gain1"
proof -
  obtain lag0 gain0 c0 lag1 gain1 c1 ind ind' enc' where f:
    "pitch_search (take SUBFRAME_SIZE samples) (ge_prev_samples enc) = Some (lag0, gain0)"
    "pitch_search (drop SUBFRAME_SIZE samples) (ge_prev_samples enc) = Some (lag1, gain1)"
    and l: "PITCH_MIN \<le> lag0" "lag0 \<le> PITCH_MAX" "PITCH_MIN \<le> lag1" "lag1 \<le> PITCH_MAX"
    and c: "code_subframe gain0 (fp_sqrt F32 (fp_sum F32 (map (\<lambda>x. fp_mul F32 x x) (take SUBFRAME_SIZE samples)))) (samples ! 0) lag0 = Some c0"
      "code_subframe gain1 (fp_sqrt F32 (fp_sum F32 (map (\<lambda>x. fp_mul F32 x x) (drop SUBFRAME_SIZE samples)))) (samples ! SUBFRAME_SIZE) lag1 =
        Some c1"
    and e: "encode_frame cosf samples enc = Some (pack_subframe 1 c1 (pack_subframe 0 c0 [ind, ind', 0, 0, 0, 0, 0, 0, 0, 0]), enc')"
    by (rule encode_frame_total [OF assms(2,3), of cosf]) blast
  note c0 = code_subframe_fields [OF c(1) l(1,2)] and c1 = code_subframe_fields [OF c(2) l(3,4)]
  from e f unpack_pack_first [OF c0(4,6,8), of c1 ind ind'] unpack_pack_second [OF c1(4,6,8) c0(8) c1(2), of ind ind']
  show ?thesis
    by (intro exI conjI) (assumption | use l in \<open>simp add: half_def c0(1,3,5,7) c1(1,3,5,7) FRAME_BYTES_def\<close>)+
qed

theorem g729_fields_witness:
  "\<exists>frame enc'. encode_frame (\<lambda>x. x) (replicate FRAME_SIZE (Fin 0)) G729Encoder_new = Some (frame, enc') \<and>
    length frame = FRAME_BYTES \<and> lost_lag (36 - PITCH_MIN) = 16"
  using g729_fields [OF g729_enc_ok_new length_replicate, of "\<lambda>x. x" "Fin 0"] by (auto simp: lost_lag_def PITCH_MIN_def)

end
