(* ===== verification/G729_Filter.thy ===== *)
theory G729_Filter
  imports G729_Fields
begin

text \<open>
  The synthesis filter of \<^verbatim>\<open>src/src/codec/g729.rs\<close> as a machine that takes one sample of excitation and
  remembers ten samples of output, and what it makes of silence.
\<close>

section \<open>The filter sample by sample\<close>

text \<open>The last ten outputs, the oldest first.\<close>

definition filter_step :: "fp list \<Rightarrow> fp list \<Rightarrow> fp \<Rightarrow> fp" where
  "filter_step a hist e =
    fold (\<lambda>j sum. fp_sub F32 sum (fp_mul F32 (a ! j) (hist ! (LPC_ORDER - j)))) [1..<LPC_ORDER + 1] e"

fun run_filter :: "fp list \<Rightarrow> fp list \<Rightarrow> fp list \<Rightarrow> fp list \<times> fp list" where
  "run_filter a hist [] = ([], hist)"
| "run_filter a hist (e # es) =
    (let y = filter_step a hist e; (ys, hist) = run_filter a (tl hist @ [y]) es in (y # ys, hist))"

lemma run_filter_append:
  "run_filter a hist (es @ es') =
    (let (ys, hist) = run_filter a hist es; (ys', hist) = run_filter a hist es' in (ys @ ys', hist))"
  by (induction es arbitrary: hist) (simp_all add: case_prod_unfold Let_def)

lemma run_filter_length [simp]: "length (fst (run_filter a hist es)) = length es"
  by (induction es arbitrary: hist) (simp_all add: case_prod_unfold Let_def)

lemma run_filter_hist: "hist \<noteq> [] \<Longrightarrow> snd (run_filter a hist es) = drop (length es) (hist @ fst (run_filter a hist es))"
proof (induction es arbitrary: hist)
  case (Cons e es)
  have "tl hist @ [filter_step a hist e] \<noteq> []" by simp
  from Cons.IH [OF this] Cons.prems show ?case by (cases hist) (simp_all add: case_prod_unfold Let_def)
qed simp

lemma synthesis_sample_step:
  assumes "length mem = LPC_ORDER" "take i output = fst (run_filter a mem es)" "length es = i" "i \<le> length output"
  shows "synthesis_sample a mem e i output = filter_step a (snd (run_filter a mem es)) e"
proof -
  let ?ys = "fst (run_filter a mem es)"
  have m: "mem \<noteq> []" using assms(1) by (auto simp: LPC_ORDER_def)
  have "(if j \<le> i then output ! (i - j) else mem ! (LPC_ORDER - j + i)) = snd (run_filter a mem es) ! (LPC_ORDER - j)"
    if j: "j \<in> set [1..<LPC_ORDER + 1]" for j
  proof -
    have l: "length (mem @ ?ys) = LPC_ORDER + i" using assms(1,3) by simp
    have "snd (run_filter a mem es) ! (LPC_ORDER - j) = (mem @ ?ys) ! (i + (LPC_ORDER - j))"
      unfolding run_filter_hist [OF m] assms(3) using l j by (subst nth_drop) simp_all
    also have "\<dots> = (if j \<le> i then ?ys ! (i - j) else mem ! (LPC_ORDER - j + i))"
      using j assms(1) by (auto simp: nth_append add.commute)
    also have "\<dots> = (if j \<le> i then output ! (i - j) else mem ! (LPC_ORDER - j + i))"
      unfolding assms(2) [symmetric] using j by auto
    finally show ?thesis by simp
  qed
  then show ?thesis unfolding synthesis_sample_def filter_step_def by (intro fold_cong) simp_all
qed

lemma synthesis_outputs:
  assumes "length mem = LPC_ORDER" "length output = length exc" "k \<le> length exc"
  shows "length (fold (\<lambda>i output. output[i := synthesis_sample a mem (exc ! i) i output]) [0..<k] output) = length exc \<and>
    take k (fold (\<lambda>i output. output[i := synthesis_sample a mem (exc ! i) i output]) [0..<k] output) =
      fst (run_filter a mem (take k exc))"
  using assms(3)
proof (induction k)
  case (Suc k)
  let ?out = "fold (\<lambda>i output. output[i := synthesis_sample a mem (exc ! i) i output]) [0..<k] output"
  have IH: "length ?out = length exc" "take k ?out = fst (run_filter a mem (take k exc))" using Suc by simp_all
  have t: "take (Suc k) exc = take k exc @ [exc ! k]" using Suc.prems by (simp add: take_Suc_conv_app_nth)
  have s: "synthesis_sample a mem (exc ! k) k ?out = filter_step a (snd (run_filter a mem (take k exc))) (exc ! k)"
    by (rule synthesis_sample_step [OF assms(1) IH(2)]) (use Suc.prems IH(1) in simp_all)
  show ?case using IH Suc.prems by (simp add: t s run_filter_append case_prod_unfold Let_def take_Suc_conv_app_nth)
qed (use assms(2) in simp)

lemma fold_memory:
  assumes "length mem = LPC_ORDER" "LPC_ORDER \<le> n" "length output = n"
  shows "fold (\<lambda>i mem. if i < n then mem[LPC_ORDER - 1 - i := output ! (n - 1 - i)] else mem) [0..<LPC_ORDER] mem =
    drop (n - LPC_ORDER) output"
proof -
  obtain m0 m1 m2 m3 m4 m5 m6 m7 m8 m9 where m: "mem = [m0, m1, m2, m3, m4, m5, m6, m7, m8, m9]"
    using assms(1) by (auto simp: LPC_ORDER_def length_Suc_conv numeral_eq_Suc)
  obtain k where n: "n = k + LPC_ORDER" using assms(2) by (metis add.commute le_Suc_ex)
  show ?thesis
  proof (rule nth_equalityI)
    fix i assume "i < length (fold (\<lambda>i mem. if i < n then mem[LPC_ORDER - 1 - i := output ! (n - 1 - i)] else mem) [0..<LPC_ORDER] mem)"
    then have "i < 10" by (simp add: LPC_ORDER_def upt_rec m split: if_splits)
    then have "i = 0 \<or> i = 1 \<or> i = 2 \<or> i = 3 \<or> i = 4 \<or> i = 5 \<or> i = 6 \<or> i = 7 \<or> i = 8 \<or> i = 9" by arith
    then show "fold (\<lambda>i mem. if i < n then mem[LPC_ORDER - 1 - i := output ! (n - 1 - i)] else mem) [0..<LPC_ORDER] mem ! i =
        drop (n - LPC_ORDER) output ! i"
      unfolding n assms(3) by (elim disjE) (simp_all add: LPC_ORDER_def upt_rec m nth_drop assms(3) n numeral_eq_Suc)
  qed (use assms in \<open>simp add: LPC_ORDER_def upt_rec m\<close>)
qed

lemma synthesis_filter_run:
  assumes "length mem = LPC_ORDER" "LPC_ORDER \<le> length exc" "length output = length exc"
  shows "synthesis_filter exc a mem output = run_filter a mem exc"
proof -
  define out where "out = fold (\<lambda>i output. output[i := synthesis_sample a mem (exc ! i) i output]) [0..<length exc] output"
  have t: "length out = length exc \<and> take (length exc) out = fst (run_filter a mem exc)"
    using synthesis_outputs [OF assms(1,3) order_refl, of a] unfolding out_def [symmetric] by simp
  then have o: "length out = length exc" "out = fst (run_filter a mem exc)" by (metis, metis take_all order_refl)
  have "mem \<noteq> []" using assms(1) by (auto simp: LPC_ORDER_def)
  from run_filter_hist [OF this, of a exc] have r: "snd (run_filter a mem exc) = drop (length exc - LPC_ORDER) out"
    unfolding o(2) using assms(1,2) by simp
  have "synthesis_filter exc a mem output = (out, drop (length exc - LPC_ORDER) out)"
    unfolding synthesis_filter_def Let_def out_def [symmetric] fold_memory [OF assms(1,2) o(1)] ..
  then show ?thesis unfolding r [symmetric] by (simp add: o(2) prod_eq_iff)
qed

section \<open>Silence\<close>

text \<open>Zero, or NaN where the predictor is not finite: what the filter makes of zeros.\<close>

definition quiet :: "fp \<Rightarrow> bool" where
  "quiet y \<longleftrightarrow> y = Fin 0 \<or> y = NaN"

lemma fp_round_zero [simp]: "fp_round F 0 = Fin 0"
  by (simp add: fp_round_def round_rat_def)

lemma quiet_mul: "quiet y \<Longrightarrow> quiet (fp_mul F c y)"
  by (cases c) (auto simp: quiet_def fp_inf_def)

lemma quiet_sub: "quiet x \<Longrightarrow> quiet y \<Longrightarrow> quiet (fp_sub F x y)"
  by (auto simp: quiet_def fp_sub_def)

lemma quiet_step:
  assumes "length hist = LPC_ORDER" "list_all quiet hist" "quiet e"
  shows "quiet (filter_step a hist e)"
proof -
  have "quiet (fold (\<lambda>j sum. fp_sub F32 sum (fp_mul F32 (a ! j) (hist ! (LPC_ORDER - j)))) js e)"
    if "\<forall>j\<in>set js. quiet (hist ! (LPC_ORDER - j))" "quiet e" for js e
    using that by (induction js arbitrary: e) (simp_all add: quiet_sub quiet_mul)
  moreover have "\<forall>j\<in>set [1..<LPC_ORDER + 1]. quiet (hist ! (LPC_ORDER - j))"
    using assms(1,2) by (auto simp: list_all_length)
  ultimately show ?thesis unfolding filter_step_def using assms(3) by blast
qed

lemma quiet_run:
  "length hist = LPC_ORDER \<Longrightarrow> list_all quiet hist \<Longrightarrow> list_all quiet es \<Longrightarrow>
    list_all quiet (fst (run_filter a hist es)) \<and> list_all quiet (snd (run_filter a hist es)) \<and>
    length (snd (run_filter a hist es)) = LPC_ORDER"
proof (induction es arbitrary: hist)
  case (Cons e es)
  let ?h = "tl hist @ [filter_step a hist e]"
  have y: "quiet (filter_step a hist e)" by (rule quiet_step) (use Cons.prems in simp_all)
  have "length ?h = LPC_ORDER" "list_all quiet ?h" using Cons.prems y
    by (simp_all add: LPC_ORDER_def) (cases hist; simp)
  from Cons.IH [OF this] Cons.prems(3) y show ?case by (simp add: case_prod_unfold Let_def)
qed simp

lemma clip_quiet: "quiet y \<Longrightarrow> clip_sample y = 0"
proof -
  have "\<lfloor>1 / 2 :: rat\<rfloor> = 0" by (simp add: floor_eq_iff)
  then show "quiet y \<Longrightarrow> ?thesis" by (auto simp: quiet_def clip_sample_def fp_clamp_def i16_of_int_def trunc_rat_def)
qed

text \<open>A decoder with nothing in its memories, whatever its frequencies.\<close>

definition g729_silent :: "G729Decoder \<Rightarrow> bool" where
  "g729_silent dec \<longleftrightarrow> length (gd_mem_syn dec) = LPC_ORDER \<and> list_all quiet (gd_mem_syn dec) \<and>
    gd_prev_exc dec = replicate (PITCH_MAX + FRAME_SIZE) (Fin 0)"

definition empty_frame :: "bytes \<Rightarrow> bool" where
  "empty_frame data \<longleftrightarrow> length data = FRAME_BYTES \<and> drop 2 data = replicate 8 0"

lemma replicate_update: "(replicate n x)[i := x] = replicate n x"
  by (metis length_replicate list_update_beyond list_update_id not_le nth_replicate)

lemma replicate_updates: "fold (\<lambda>i xs. xs[f i := replicate k x ! g i]) is (replicate n x) = replicate n x"
  if "\<forall>i\<in>set is. g i < k"
  using that by (induction "is") (simp_all add: replicate_update)

lemma push_silence: "push_excitation (replicate SUBFRAME_SIZE x) (replicate (PITCH_MAX + FRAME_SIZE) x) = replicate (PITCH_MAX + FRAME_SIZE) x"
proof -
  have "drop SUBFRAME_SIZE (replicate (PITCH_MAX + FRAME_SIZE) x) @
      drop (length (replicate (PITCH_MAX + FRAME_SIZE) x) - SUBFRAME_SIZE) (replicate (PITCH_MAX + FRAME_SIZE) x) =
    replicate (PITCH_MAX + FRAME_SIZE) x" by (simp add: g729_sizes flip: replicate_add)
  then show ?thesis unfolding push_excitation_def by (simp add: replicate_updates)
qed

lemma unpack_empty:
  "empty_frame data \<Longrightarrow> \<exists>lag. unpack_subframe sf data = (lag, Fin 0, 0, Fin 0)"
proof -
  assume e: "empty_frame data"
  then have "data ! (2 + i) = 0" if "i < 8" for i
    using that nth_drop [of 2 data i] by (simp add: empty_frame_def FRAME_BYTES_def)
  from this [of 0] this [of 1] this [of 2] this [of 3] this [of 4] this [of 5] this [of 6]
  show ?thesis by (simp add: unpack_subframe_def gain_pitch_def gain_code_def fp_of_int_def)
qed

end
