(* ===== verification/G729_Silence.thy ===== *)
theory G729_Silence
  imports G729_Filter
begin

text \<open>
  Two properties of \<^verbatim>\<open>src/src/codec/g729.rs\<close> that do not depend on its cosine: whole frames are all that
  counts, and silence stays silent.
\<close>

section \<open>The decoder on empty frames\<close>

lemma fp_mul_zero [simp]: "fp_mul F (Fin x) (Fin 0) = Fin 0" "fp_mul F (Fin 0) (Fin x) = Fin 0"
  by simp_all

lemma adaptive_silence: "adaptive_exc (replicate n (Fin 0)) lag (Fin 0) = replicate SUBFRAME_SIZE (Fin 0)"
proof -
  have "adaptive_exc (replicate n (Fin 0)) lag (Fin 0) = map (\<lambda>i. Fin 0) [0..<SUBFRAME_SIZE]"
    unfolding adaptive_exc_def Let_def by (intro map_cong) simp_all
  then show ?thesis by (simp add: map_replicate_const)
qed

lemma pulses_silence: "add_pulses fixed_idx (Fin 0) (replicate SUBFRAME_SIZE (Fin 0)) = replicate SUBFRAME_SIZE (Fin 0)"
proof -
  have "fold (\<lambda>(pos, sign) exc. if pos < SUBFRAME_SIZE then exc[pos := fp_add F32 (exc ! pos) (fp_mul F32 (Fin 0) sign)] else exc)
      ps (replicate SUBFRAME_SIZE (Fin 0)) = replicate SUBFRAME_SIZE (Fin 0)"
    if "\<forall>(pos, sign)\<in>set ps. \<exists>x. sign = Fin x" for ps
    using that by (induction ps) (auto simp: replicate_update)
  then show ?thesis unfolding add_pulses_def by (auto simp: pulse_signs_def pulse_positions_def)
qed

lemma decode_subframe_silence:
  assumes "g729_silent dec" "empty_frame data"
  shows "list_all quiet (fst (decode_subframe a data sf dec)) \<and> g729_silent (snd (decode_subframe a data sf dec))"
proof -
  obtain lag where u: "unpack_subframe sf data = (lag, Fin 0, 0, Fin 0)" using unpack_empty [OF assms(2)] by blast
  let ?exc = "replicate SUBFRAME_SIZE (Fin 0)"
  have m: "length (gd_mem_syn dec) = LPC_ORDER" "list_all quiet (gd_mem_syn dec)"
    "gd_prev_exc dec = replicate (PITCH_MAX + FRAME_SIZE) (Fin 0)" using assms(1) by (simp_all add: g729_silent_def)
  have f: "synthesis_filter ?exc a (gd_mem_syn dec) ?exc = run_filter a (gd_mem_syn dec) ?exc"
    by (rule synthesis_filter_run [OF m(1)]) (simp_all add: g729_sizes)
  have "list_all quiet ?exc" by (simp add: list_all_iff quiet_def)
  from quiet_run [OF m(1,2) this, of a] show ?thesis
    by (simp add: decode_subframe_def u m(3) adaptive_silence pulses_silence f g729_silent_def push_silence case_prod_unfold Let_def)
qed

lemma decode_frame_parts:
  assumes "\<not> length f < FRAME_BYTES" "dequantize_lsp [f ! 0, f ! 1] dec = (lsp, dec1)"
  shows "decode_frame cosf f dec =
    (fst (decode_subframe (lsp_to_lpc cosf lsp) f 0 dec1) @
       fst (decode_subframe (lsp_to_lpc cosf lsp) f 1 (snd (decode_subframe (lsp_to_lpc cosf lsp) f 0 dec1))),
     snd (decode_subframe (lsp_to_lpc cosf lsp) f 1 (snd (decode_subframe (lsp_to_lpc cosf lsp) f 0 dec1))))"
  unfolding decode_frame_def assms(2) Let_def using assms(1) by (simp add: case_prod_unfold)

lemma decode_empty_frames:
  "g729_silent dec \<Longrightarrow> \<forall>f\<in>set fs. empty_frame f \<Longrightarrow>
    fst (decode_frames cosf dec fs) = replicate (length fs * FRAME_SIZE) 0"
proof (induction fs arbitrary: dec)
  case (Cons f fs)
  have e: "empty_frame f" using Cons.prems(2) by simp
  obtain lsp where q: "dequantize_lsp [f ! 0, f ! 1] dec = (lsp, dec\<lparr>gd_prev_lsp := lsp\<rparr>)"
    by (simp add: dequantize_lsp_def Let_def)
  let ?a = "lsp_to_lpc cosf lsp"
  have d: "g729_silent (dec\<lparr>gd_prev_lsp := lsp\<rparr>)" using Cons.prems(1) by (simp add: g729_silent_def)
  note s0 = decode_subframe_silence [OF d e, of ?a 0]
  note s1 = decode_subframe_silence [OF conjunct2 [OF s0] e, of ?a 1]
  have "\<not> length f < FRAME_BYTES" using e by (simp add: empty_frame_def)
  note fr = decode_frame_parts [OF this q, of cosf]
  from fr have 1: "list_all quiet (fst (decode_frame cosf f dec))" "g729_silent (snd (decode_frame cosf f dec))"
    using s0 s1 by simp_all
  have "map clip_sample (fst (decode_frame cosf f dec)) = replicate FRAME_SIZE 0"
    using 1(1) decode_frame_length [of cosf f dec]
    by (intro replicate_eqI) (auto simp: list_all_iff clip_quiet)
  with Cons.IH [OF 1(2)] Cons.prems(2) show ?case
    by (simp add: decode_samples_def case_prod_unfold Let_def replicate_add)
qed simp

lemma g729_silent_new: "g729_silent G729Decoder_new"
  by (simp add: g729_silent_def G729Decoder_new_def list_all_iff quiet_def)

section \<open>The encoder on silence\<close>

lemma lag_sums_silence:
  "\<forall>i\<in>set is. i < n \<and> i \<le> lag \<Longrightarrow> lag < m \<Longrightarrow>
    lag_sums (replicate n (Fin 0)) (replicate m (Fin 0)) lag is (Fin 0) (Fin 0) = Some (Fin 0, Fin 0)"
proof (induction "is")
  case (Cons i "is")
  have i: "i < n" "i \<le> lag" using Cons.prems by simp_all
  have "index (replicate m (Fin 0)) (int (length (replicate m (Fin 0))) - int lag - 1 + int i) = Some (Fin 0)"
    unfolding index_def using i Cons.prems(2) by simp
  moreover have "index (replicate n (Fin 0)) (int i) = Some (Fin 0)" using i by (simp add: index_nth)
  ultimately show ?case using Cons by simp
qed simp

lemma search_silence:
  "\<forall>lag\<in>set lags. lag < m \<Longrightarrow>
    search_lags (replicate SUBFRAME_SIZE (Fin 0)) (replicate m (Fin 0)) lags best best_corr = Some (best, best_corr)"
proof (induction lags)
  case (Cons lag lags)
  have "\<not> fp_lt (f32_lit 1 10000000000) (Fin 0)" by code_simp
  moreover have "lag_sums (replicate SUBFRAME_SIZE (Fin 0)) (replicate m (Fin 0)) lag [0..<min SUBFRAME_SIZE (lag + 1)] (Fin 0) (Fin 0) =
      Some (Fin 0, Fin 0)" by (rule lag_sums_silence) (use Cons.prems in auto)
  ultimately show ?case unfolding search_lags.simps using Cons by simp
qed simp

lemma pitch_silence:
  "pitch_search (replicate SUBFRAME_SIZE (Fin 0)) (replicate (FRAME_SIZE + PITCH_MAX) (Fin 0)) = Some (PITCH_MIN, Fin 0)"
proof -
  have "fp_min (fp_max F32_MIN (Fin 0)) (f32_lit 12 10) = Fin 0" by code_simp
  moreover have "search_lags (replicate SUBFRAME_SIZE (Fin 0)) (replicate (FRAME_SIZE + PITCH_MAX) (Fin 0))
      [PITCH_MIN..<min PITCH_MAX (length (replicate (FRAME_SIZE + PITCH_MAX) (Fin 0 :: fp)) - 1) + 1] PITCH_MIN F32_MIN =
    Some (PITCH_MIN, F32_MIN)" by (rule search_silence) (simp add: g729_sizes)
  ultimately show ?thesis by (simp add: pitch_search_def)
qed

lemma fp_sum_silence: "fp_sum F (replicate n (Fin 0)) = Fin 0"
proof -
  have "fold (\<lambda>x s. fp_add F s x) (replicate n (Fin 0)) (Fin 0) = Fin 0" by (induction n) simp_all
  then show ?thesis by (simp add: fp_sum_def)
qed

lemma code_silence:
  "code_subframe (Fin 0) (fp_sqrt F32 (fp_sum F32 (map (\<lambda>x. fp_mul F32 x x) (replicate n (Fin 0))))) (Fin 0) PITCH_MIN =
    Some \<lparr>sf_pitch = 0, sf_gain_p = 0, sf_fixed = 0, sf_gain_c = 0\<rparr>"
  by (simp add: code_subframe_def fp_sum_silence saturating_u8_def trunc_rat_def)

lemma push_history_silence:
  "push_history (replicate FRAME_SIZE x) (replicate (FRAME_SIZE + PITCH_MAX) x) = replicate (FRAME_SIZE + PITCH_MAX) x"
proof -
  have "drop FRAME_SIZE (replicate (FRAME_SIZE + PITCH_MAX) x) @
      drop (length (replicate (FRAME_SIZE + PITCH_MAX) x) - FRAME_SIZE) (replicate (FRAME_SIZE + PITCH_MAX) x) =
    replicate (FRAME_SIZE + PITCH_MAX) x" by (simp add: g729_sizes flip: replicate_add)
  then show ?thesis unfolding push_history_def by (simp add: replicate_updates)
qed

lemma encode_frame_silence:
  assumes "ge_prev_samples enc = replicate (FRAME_SIZE + PITCH_MAX) (Fin 0)"
  obtains frame enc' where "encode_frame cosf (replicate FRAME_SIZE (Fin 0)) enc = Some (frame, enc')" "empty_frame frame"
    "ge_prev_samples enc' = replicate (FRAME_SIZE + PITCH_MAX) (Fin 0)"
proof -
  let ?z = "replicate FRAME_SIZE (Fin 0)"
  have ok: "g729_enc_ok enc" by (simp add: g729_enc_ok_def assms)
  have h: "take SUBFRAME_SIZE ?z = replicate SUBFRAME_SIZE (Fin 0)" "drop SUBFRAME_SIZE ?z = replicate SUBFRAME_SIZE (Fin 0)"
    "?z ! 0 = Fin 0" "?z ! SUBFRAME_SIZE = Fin 0" by (simp_all add: g729_sizes)
  let ?c = "\<lparr>sf_pitch = 0, sf_gain_p = 0, sf_fixed = 0, sf_gain_c = 0\<rparr>"
  obtain lag0 gain0 c0 lag1 gain1 c1 ind ind' enc' where
    p: "pitch_search (take SUBFRAME_SIZE ?z) (ge_prev_samples enc) = Some (lag0, gain0)"
      "pitch_search (drop SUBFRAME_SIZE ?z) (ge_prev_samples enc) = Some (lag1, gain1)"
    and c: "code_subframe gain0 (fp_sqrt F32 (fp_sum F32 (map (\<lambda>x. fp_mul F32 x x) (take SUBFRAME_SIZE ?z)))) (?z ! 0) lag0 = Some c0"
      "code_subframe gain1 (fp_sqrt F32 (fp_sum F32 (map (\<lambda>x. fp_mul F32 x x) (drop SUBFRAME_SIZE ?z)))) (?z ! SUBFRAME_SIZE) lag1 = Some c1"
    and e: "encode_frame cosf ?z enc = Some (pack_subframe 1 c1 (pack_subframe 0 c0 [ind, ind', 0, 0, 0, 0, 0, 0, 0, 0]), enc')"
      "ge_prev_samples enc' = push_history ?z (ge_prev_samples enc)"
    by (rule encode_frame_total [OF ok length_replicate, of "Fin 0" cosf]) blast
  have "lag0 = PITCH_MIN" "gain0 = Fin 0" "lag1 = PITCH_MIN" "gain1 = Fin 0"
    using p unfolding h assms pitch_silence by simp_all
  then have "c0 = ?c" "c1 = ?c" using c unfolding h by (simp_all only: code_silence option.inject)
  then have f: "pack_subframe 1 c1 (pack_subframe 0 c0 [ind, ind', 0, 0, 0, 0, 0, 0, 0, 0]) = [ind, ind', 0, 0, 0, 0, 0, 0, 0, 0]"
    unfolding pack_frame by simp
  show ?thesis
    by (rule that [OF e(1)]) (simp_all only: f e(2) assms push_history_silence, simp add: empty_frame_def FRAME_BYTES_def numeral_eq_Suc)
qed

lemma encode_silence:
  "ge_prev_samples enc = replicate (FRAME_SIZE + PITCH_MAX) (Fin 0) \<Longrightarrow>
    \<exists>frames enc'. fold_units (encode_samples cosf) enc (replicate n (replicate FRAME_SIZE 0)) = Some (concat frames, enc') \<and>
      length frames = n \<and> (\<forall>f\<in>set frames. empty_frame f)"
proof (induction n arbitrary: enc)
  case (Suc n)
  obtain frame enc1 where f: "encode_frame cosf (replicate FRAME_SIZE (Fin 0)) enc = Some (frame, enc1)" "empty_frame frame"
    "ge_prev_samples enc1 = replicate (FRAME_SIZE + PITCH_MAX) (Fin 0)" by (rule encode_frame_silence [OF Suc.prems])
  from Suc.IH [OF f(3)] obtain frames enc' where
    "fold_units (encode_samples cosf) enc1 (replicate n (replicate FRAME_SIZE 0)) = Some (concat frames, enc')"
    "length frames = n" "\<forall>f\<in>set frames. empty_frame f" by blast
  moreover have "encode_samples cosf enc (replicate FRAME_SIZE 0) = Some (frame, enc1)"
    using f(1) by (simp add: encode_samples_def fp_of_int_def)
  ultimately show ?case
    using f(2) by (intro exI [of _ "frame # frames"] exI [of _ enc']) simp
qed (simp add: exI [of _ "[]"])

lemma frames_of_concat:
  "0 < n \<Longrightarrow> \<forall>f\<in>set fs. length f = n \<Longrightarrow> frames_of n (concat fs) = fs"
  by (induction fs) (simp_all add: frames_of_short frames_of_frame frames_of_take)

lemma frames_of_replicate: "0 < n \<Longrightarrow> frames_of n (replicate k x) = replicate (k div n) (replicate n x)"
proof (induction k rule: less_induct)
  case (less k)
  show ?case
  proof (cases "k < n")
    case False
    then have "k div n = Suc ((k - n) div n)" using less.prems by (simp add: le_div_geq)
    with False less show ?thesis by (simp add: frames_of_take)
  qed (simp add: frames_of_short)
qed

section \<open>The properties\<close>

text \<open>Silence stays silent.  Of any number of zero samples the encoder takes the whole frames, and the
  decoder makes zeros of them, as many, whatever the cosine computes.\<close>

lemma g729_silence:
  "\<exists>out enc'. G729Encoder_encode cosf G729Encoder_new (replicate n 0) = Some (n div FRAME_SIZE * FRAME_SIZE, out, enc') \<and>
    length out = n div FRAME_SIZE * FRAME_BYTES \<and>
    fst (G729Decoder_decode cosf G729Decoder_new out) = replicate (n div FRAME_SIZE * FRAME_SIZE) 0"
proof -
  have "ge_prev_samples G729Encoder_new = replicate (FRAME_SIZE + PITCH_MAX) (Fin 0)" by (simp add: G729Encoder_new_def)
  from encode_silence [OF this, of cosf "n div FRAME_SIZE"] obtain frames enc' where
    e: "fold_units (encode_samples cosf) G729Encoder_new (replicate (n div FRAME_SIZE) (replicate FRAME_SIZE 0)) = Some (concat frames, enc')"
      "length frames = n div FRAME_SIZE" "\<forall>f\<in>set frames. empty_frame f" by blast
  have l: "\<forall>f\<in>set frames. length f = FRAME_BYTES" using e(3) by (simp add: empty_frame_def)
  then have "length (concat frames) = length frames * FRAME_BYTES" by (induction frames) simp_all
  moreover have "frames_of FRAME_SIZE (replicate n 0) = replicate (n div FRAME_SIZE) (replicate FRAME_SIZE (0 :: i16))"
    by (rule frames_of_replicate) (simp add: FRAME_SIZE_def)
  moreover have "frames_of FRAME_BYTES (concat frames) = frames" using l by (intro frames_of_concat) (simp_all add: FRAME_BYTES_def)
  ultimately show ?thesis
    using decode_empty_frames [OF g729_silent_new e(3), of cosf] e(1,2)
    by (simp add: G729Encoder_encode_units G729Decoder_decode_frames)
qed

text \<open>C30: the codec works in whole frames.  Whatever the cosine computes, an encoder fed buffers of whole
  frames never stops, makes ten bytes of every 80 samples, and the cuts do not matter; the decoder
  returns 80 samples for every ten bytes, and neither do the cuts there.\<close>

theorem g729_frames:
  assumes "\<forall>p\<in>set ps. FRAME_SIZE dvd length p"
  shows "\<exists>outs enc' pcms dec'. code_packets (g729_encode cosf) G729Encoder_new ps = Some (outs, enc') \<and>
    g729_encode cosf G729Encoder_new (concat ps) = Some (concat outs, enc') \<and>
    map length outs = map (\<lambda>p. length p div 8) ps \<and>
    code_packets (\<lambda>dec bs. Some (G729Decoder_decode cosf dec bs)) G729Decoder_new outs = Some (pcms, dec') \<and>
    G729Decoder_decode cosf G729Decoder_new (concat outs) = (concat pcms, dec') \<and>
    map length pcms = map length ps"
proof -
  obtain outs enc' where e: "code_packets (g729_encode cosf) G729Encoder_new ps = Some (outs, enc')"
    "map length outs = map (\<lambda>p. length p div FRAME_SIZE * FRAME_BYTES) ps"
    "g729_encode cosf G729Encoder_new (concat ps) = Some (concat outs, enc')"
    using g729_enc.packets_framed [OF g729_enc_ok_new assms] by blast
  have o: "\<forall>p\<in>set outs. FRAME_BYTES dvd length p"
  proof
    fix p assume "p \<in> set outs"
    then have "length p \<in> set (map length outs)" by simp
    then show "FRAME_BYTES dvd length p" unfolding e(2) by auto
  qed
  obtain pcms dec' where d: "code_packets (\<lambda>dec bs. Some (G729Decoder_decode cosf dec bs)) G729Decoder_new outs = Some (pcms, dec')"
    "map length pcms = map (\<lambda>p. length p div FRAME_BYTES * FRAME_SIZE) outs"
    "Some (G729Decoder_decode cosf G729Decoder_new (concat outs)) = Some (concat pcms, dec')"
    using g729_dec.packets_framed [OF TrueI o] by blast
  have p: "length p div FRAME_SIZE * FRAME_BYTES = length p div 8" "length p div 8 div FRAME_BYTES * FRAME_SIZE = length p"
    if "p \<in> set ps" for p
    using assms that by (auto simp: g729_sizes elim!: dvdE)
  have m: "map length outs = map (\<lambda>p. length p div 8) ps" unfolding e(2) using p by simp
  have "map length pcms = map (\<lambda>n. n div FRAME_BYTES * FRAME_SIZE) (map length outs)" unfolding d(2) by simp
  also have "\<dots> = map length ps" unfolding m using p(2) by simp
  finally show ?thesis using e(1,3) d(1,3) m by auto
qed

theorem g729_frames_witness:
  "\<exists>outs enc'. code_packets (g729_encode (\<lambda>x. x)) G729Encoder_new [replicate 160 5, replicate 80 7] = Some (outs, enc') \<and>
    map length outs = [20, 10]"
  using g729_frames [of "[replicate 160 5, replicate 80 7]" "\<lambda>x. x"] by (force simp: FRAME_SIZE_def)

end
