(* ===== verification/Float_Bounds.thy ===== *)
theory Float_Bounds
  imports Float_Ops
begin

text \<open>
  How far an operation on \<^verbatim>\<open>f32\<close> values is from the exact one, and enclosures of results that are not
  exact.
\<close>

section \<open>The error of rounding\<close>

lemma nearest_even_error: "\<bar>of_int (nearest_even y) - y\<bar> \<le> 1 / 2"
proof -
  have "of_int (floor y) \<le> y" "y < of_int (floor y) + 1" by linarith+
  then show ?thesis unfolding nearest_even_def Let_def by (auto simp: abs_le_iff)
qed

lemma round_rat_error:
  "\<bar>round_rat p emin x - x\<bar> \<le> (\<bar>x\<bar> + pow2 emin) * pow2 (- int p)"
proof (cases "x = 0")
  case True
  then show ?thesis by (simp add: round_rat_def less_imp_le)
next
  case False
  define e where "e = max (ilog2 \<bar>x\<bar>) emin"
  define q where "q = pow2 (e - int p + 1)"
  have q: "0 < q" by (simp add: q_def)
  have "pow2 e \<le> \<bar>x\<bar> + pow2 emin"
    using ilog2_bounds [of "\<bar>x\<bar>"] False pow2_pos [of emin]
    unfolding e_def max_def by (cases "ilog2 \<bar>x\<bar> \<le> emin") (simp, simp del: pow2_pos add: add_increasing2 less_imp_le)
  moreover have "q / 2 = pow2 e * pow2 (- int p)"
    using pow2_add [of e "- int p"] pow2_add [of "e - int p" 1] by (simp add: q_def pow2_def [of 1])
  ultimately have "q / 2 \<le> (\<bar>x\<bar> + pow2 emin) * pow2 (- int p)" by (simp add: mult_right_mono less_imp_le)
  moreover have "\<bar>round_rat p emin x - x\<bar> \<le> q / 2"
  proof -
    have "round_rat p emin x - x = (of_int (nearest_even (x / q)) - x / q) * q"
      using False q by (simp add: round_rat_def Let_def left_diff_distrib flip: e_def q_def)
    then have "\<bar>round_rat p emin x - x\<bar> = \<bar>of_int (nearest_even (x / q)) - x / q\<bar> * q" using q by (simp add: abs_mult)
    also have "\<dots> \<le> 1 / 2 * q" using nearest_even_error q by (intro mult_right_mono) simp_all
    finally show ?thesis by simp
  qed
  ultimately show ?thesis by linarith
qed

text \<open>A rounded result is close, or it is infinite.\<close>

lemma F32_round_cases:
  obtains r where "\<bar>r - x\<bar> \<le> (\<bar>x\<bar> + 1 / 2 ^ 126) / 2 ^ 24" "fp_round F32 x = Fin r" "\<bar>r\<bar> < 2 ^ 128"
  | "fp_round F32 x \<in> {PInf, MInf}"
proof (cases "fp_round F32 x \<in> {PInf, MInf}")
  case False
  define r where "r = round_rat 24 (- 126) x"
  have f: "fp_round F32 x = Fin r" "r \<noteq> 0 \<Longrightarrow> ilog2 \<bar>r\<bar> \<le> 127"
    using False by (auto simp: fp_round_def F32_def Let_def r_def split: if_splits)
  have "\<bar>r\<bar> < 2 ^ 128"
  proof (cases "r = 0")
    case False
    have "\<bar>r\<bar> < pow2 (ilog2 \<bar>r\<bar> + 1)" using ilog2_bounds [of "\<bar>r\<bar>"] False by simp
    also have "\<dots> \<le> pow2 128" using f(2) [OF False] by simp
    finally show ?thesis by (simp add: pow2_def)
  qed simp
  moreover have "\<bar>r - x\<bar> \<le> (\<bar>x\<bar> + 1 / 2 ^ 126) / 2 ^ 24"
    using round_rat_error [of 24 "- 126" x] by (simp add: r_def pow2_def)
  ultimately show ?thesis using that f(1) by blast
qed (use that in blast)

lemma round_finite:
  assumes "\<bar>x\<bar> \<le> 2 ^ 126" "24 \<le> fp_prec F" "fp_emin F \<le> - 126" "127 \<le> fp_emax F"
  obtains r where "fp_round F x = Fin r" "\<bar>r - x\<bar> \<le> (\<bar>x\<bar> + 1 / 2 ^ 126) / 2 ^ 24"
proof -
  define r where "r = round_rat (fp_prec F) (fp_emin F) x"
  have "\<bar>r - x\<bar> \<le> (\<bar>x\<bar> + pow2 (fp_emin F)) * pow2 (- int (fp_prec F))" using round_rat_error by (simp add: r_def)
  also have "\<dots> \<le> (\<bar>x\<bar> + pow2 (- 126)) * pow2 (- 24)"
    using assms(2,3) by (intro mult_mono add_left_mono) (simp_all add: less_imp_le add_nonneg_pos)
  finally have e: "\<bar>r - x\<bar> \<le> (\<bar>x\<bar> + 1 / 2 ^ 126) / 2 ^ 24" by (simp add: pow2_def)
  also have "\<dots> \<le> \<bar>x\<bar> + 1" by simp
  finally have "\<bar>r\<bar> \<le> 2 * \<bar>x\<bar> + 1" by linarith
  also have "\<dots> < 2 ^ 128" using assms(1) by simp
  also have "\<dots> = pow2 128" by (simp add: pow2_def)
  also have "\<dots> \<le> pow2 (fp_emax F + 1)" using assms(4) by (simp only: pow2_le_iff)
  finally have b: "\<bar>r\<bar> < pow2 (fp_emax F + 1)" .
  have "\<not> (r \<noteq> 0 \<and> ilog2 \<bar>r\<bar> > fp_emax F)"
  proof
    assume "r \<noteq> 0 \<and> ilog2 \<bar>r\<bar> > fp_emax F"
    then have "pow2 (fp_emax F + 1) \<le> pow2 (ilog2 \<bar>r\<bar>)" "pow2 (ilog2 \<bar>r\<bar>) \<le> \<bar>r\<bar>"
      using ilog2_bounds [of "\<bar>r\<bar>"] by simp_all
    with b show False by linarith
  qed
  then have "fp_round F x = Fin r" by (auto simp: fp_round_def r_def Let_def)
  with e show ?thesis using that by blast
qed

lemma round_formats [simp]: "24 \<le> fp_prec F32" "fp_emin F32 \<le> - 126" "127 \<le> fp_emax F32"
  "24 \<le> fp_prec F64" "fp_emin F64 \<le> - 126" "127 \<le> fp_emax F64"
  by (simp_all add: F32_def F64_def)

section \<open>Enclosures\<close>

definition near :: "fp \<Rightarrow> rat \<Rightarrow> rat \<Rightarrow> bool" where
  "near x c e \<longleftrightarrow> (\<exists>r. x = Fin r \<and> \<bar>r - c\<bar> \<le> e)"

lemma near_round:
  assumes "\<bar>x - c\<bar> \<le> e" "\<bar>c\<bar> + e \<le> 15"
    and "24 \<le> fp_prec F" "fp_emin F \<le> - 126" "127 \<le> fp_emax F"
  shows "near (fp_round F x) c (e + (\<bar>c\<bar> + e + 1) / 2 ^ 24)"
proof -
  have x: "\<bar>x\<bar> \<le> \<bar>c\<bar> + e" using assms(1) by linarith
  with assms(2) have "\<bar>x\<bar> \<le> 2 ^ 126" by simp
  then obtain r where r: "fp_round F x = Fin r" "\<bar>r - x\<bar> \<le> (\<bar>x\<bar> + 1 / 2 ^ 126) / 2 ^ 24"
    using assms(3-5) by (rule round_finite)
  have "(1 :: rat) / 2 ^ 126 \<le> 1" by simp
  with x have "(\<bar>x\<bar> + 1 / 2 ^ 126) / 2 ^ 24 \<le> (\<bar>c\<bar> + e + 1) / 2 ^ 24" by (intro divide_right_mono add_mono) simp_all
  with r(2) assms(1) have "\<bar>r - c\<bar> \<le> e + (\<bar>c\<bar> + e + 1) / 2 ^ 24" by linarith
  with r(1) show ?thesis unfolding near_def by blast
qed

lemma near_weaken: "near x c e \<Longrightarrow> \<bar>c - c'\<bar> + e \<le> e' \<Longrightarrow> near x c' e'"
  unfolding near_def by (elim exE conjE) (intro exI conjI, assumption, linarith)

lemma near_round_const:
  assumes "\<bar>x - c\<bar> \<le> e" "\<bar>c\<bar> + e \<le> 7"
    and "24 \<le> fp_prec F" "fp_emin F \<le> - 126" "127 \<le> fp_emax F"
  shows "near (fp_round F x) c (e + 1 / 2 ^ 21)"
proof (rule near_weaken [OF near_round [OF assms(1) _ assms(3-5)]])
  show "\<bar>c\<bar> + e \<le> 15" using assms(2) by simp
next
  have "(\<bar>c\<bar> + e + 1) / 2 ^ 24 \<le> 8 / 2 ^ 24" using assms(2) by (intro divide_right_mono) simp_all
  also have "(8 :: rat) / 2 ^ 24 = 1 / 2 ^ 21" by simp
  finally show "\<bar>c - c\<bar> + (e + (\<bar>c\<bar> + e + 1) / 2 ^ 24) \<le> e + 1 / 2 ^ 21" by simp
qed

lemma product_error:
  fixes r s c d :: rat
  assumes "\<bar>r - c\<bar> \<le> e" "\<bar>s - d\<bar> \<le> f"
  shows "\<bar>r * s - c * d\<bar> \<le> \<bar>c\<bar> * f + e * \<bar>d\<bar> + e * f"
proof -
  have "\<bar>r * s - c * d\<bar> = \<bar>c * (s - d) + ((r - c) * d + (r - c) * (s - d))\<bar>" by (simp add: algebra_simps)
  also have "\<dots> \<le> \<bar>c * (s - d)\<bar> + (\<bar>(r - c) * d\<bar> + \<bar>(r - c) * (s - d)\<bar>)"
    by (rule order_trans [OF abs_triangle_ineq add_left_mono [OF abs_triangle_ineq]])
  also have "\<dots> \<le> \<bar>c\<bar> * f + (e * \<bar>d\<bar> + e * f)"
    unfolding abs_mult using assms by (intro add_mono mult_mono) (auto intro: order_trans [OF abs_ge_zero])
  finally show ?thesis by (simp add: add.assoc)
qed

text \<open>A step of a polynomial recursion: a product, added.\<close>

lemma near_mul_add:
  assumes "near x c e" "near y c' e'" "near t d f"
    and "\<bar>c' * d\<bar> + (\<bar>c'\<bar> * f + e' * \<bar>d\<bar> + e' * f) \<le> 7"
    and "\<bar>c + c' * d\<bar> + (e + (\<bar>c'\<bar> * f + e' * \<bar>d\<bar> + e' * f + 1 / 2 ^ 21)) \<le> 7"
  shows "near (fp_add F32 x (fp_mul F32 y t)) (c + c' * d) (e + (\<bar>c'\<bar> * f + e' * \<bar>d\<bar> + e' * f) + 1 / 2 ^ 20)"
proof -
  obtain r r' s where r: "x = Fin r" "\<bar>r - c\<bar> \<le> e" "y = Fin r'" "\<bar>r' - c'\<bar> \<le> e'" "t = Fin s" "\<bar>s - d\<bar> \<le> f"
    using assms(1-3) by (auto simp: near_def)
  obtain p where p: "fp_round F32 (r' * s) = Fin p" "\<bar>p - c' * d\<bar> \<le> \<bar>c'\<bar> * f + e' * \<bar>d\<bar> + e' * f + 1 / 2 ^ 21"
    using near_round_const [OF product_error [OF r(4,6)] assms(4), of F32, OF round_formats(1-3)] unfolding near_def by blast
  from r(2) p(2) have "\<bar>r + p - (c + c' * d)\<bar> \<le> e + (\<bar>c'\<bar> * f + e' * \<bar>d\<bar> + e' * f + 1 / 2 ^ 21)" by linarith
  from near_round_const [OF this assms(5), of F32] show ?thesis by (simp add: r(1,3,5) p(1) add.assoc)
qed


lemma half_bound: "m = c / 2 \<Longrightarrow> c + (e + k) \<le> 13 \<Longrightarrow> 0 \<le> e \<Longrightarrow> k' \<le> k / 2 \<Longrightarrow> m + (e / 2 + k') \<le> (7 :: rat)"
  by linarith

lemma near_midpoint:
  assumes "near x c e" "near y d f" "\<bar>c + d\<bar> + (e + f + 1 / 2 ^ 19) \<le> 13"
  shows "near (f32_midpoint x y) ((c + d) / 2) ((e + f) / 2 + 1 / 2 ^ 19)"
proof -
  obtain r s where r: "x = Fin r" "\<bar>r - c\<bar> \<le> e" "y = Fin s" "\<bar>s - d\<bar> \<le> f" using assms(1,2) by (auto simp: near_def)
  then have sum: "\<bar>r + s - (c + d)\<bar> \<le> e + f" by linarith
  have "(0 :: rat) \<le> 1 / 2 ^ 19" by simp
  with assms(3) have b: "\<bar>c + d\<bar> + (e + f) \<le> 15" by linarith
  from near_round [OF sum this, of F64]
  obtain p where p: "fp_round F64 (r + s) = Fin p" "\<bar>p - (c + d)\<bar> \<le> e + f + (\<bar>c + d\<bar> + (e + f) + 1) / 2 ^ 24"
    unfolding near_def by auto
  have "(\<bar>c + d\<bar> + (e + f) + 1) / 2 ^ 24 \<le> 16 / 2 ^ 24" using b by (intro divide_right_mono) simp_all
  also have "(16 :: rat) / 2 ^ 24 = 1 / 2 ^ 20" by simp
  finally have p2: "\<bar>p - (c + d)\<bar> \<le> e + f + 1 / 2 ^ 20" using p(2) by linarith
  have "\<bar>p / 2 - (c + d) / 2\<bar> = \<bar>p - (c + d)\<bar> / 2" by (simp flip: diff_divide_distrib)
  also have "\<dots> \<le> (e + f + 1 / 2 ^ 20) / 2" using p2 by (rule divide_right_mono) simp
  also have "\<dots> = (e + f) / 2 + 1 / 2 ^ 21" by (simp add: add_divide_distrib)
  finally have h1: "\<bar>p / 2 - (c + d) / 2\<bar> \<le> (e + f) / 2 + 1 / 2 ^ 21" .
  have ef: "0 \<le> e + f" using order_trans [OF abs_ge_zero r(2)] order_trans [OF abs_ge_zero r(4)] by simp
  have s: "\<bar>(c + d) / 2\<bar> = \<bar>c + d\<bar> / 2" "(1 :: rat) / 2 ^ 21 \<le> 1 / 2 ^ 19 / 2" by simp_all
  have h2: "\<bar>(c + d) / 2\<bar> + ((e + f) / 2 + 1 / 2 ^ 21) \<le> 7" by (rule half_bound [OF s(1) assms(3) ef s(2)])
  obtain q where q: "fp_round F64 (p / 2) = Fin q" "\<bar>q - (c + d) / 2\<bar> \<le> (e + f) / 2 + 1 / 2 ^ 21 + 1 / 2 ^ 21"
    using near_round_const [OF h1 h2, of F64] unfolding near_def by auto
  have "(1 :: rat) / 2 ^ 21 + 1 / 2 ^ 21 \<le> 1 / 2 ^ 19 / 2" by simp
  from half_bound [OF s(1) assms(3) ef this]
  have "\<bar>(c + d) / 2\<bar> + ((e + f) / 2 + 1 / 2 ^ 21 + 1 / 2 ^ 21) \<le> 7" by (simp only: add.assoc)
  from near_round_const [OF q(2) this, of F32, OF round_formats(1-3)]
  have "near (fp_round F32 q) ((c + d) / 2) ((e + f) / 2 + 1 / 2 ^ 19)" by (rule near_weaken) simp
  then show ?thesis by (simp add: f32_midpoint_def r p(1) q(1))
qed

end
