(* ===== verification/G729_Predictor.thy ===== *)
theory G729_Predictor
  imports G729_Properties Float_Bounds
begin

text \<open>
  The predictor that the decoder of \<^verbatim>\<open>src/src/codec/g729.rs\<close> computes from the frequencies it starts with.
  The cosine is only assumed to be accurate to two units in the last place of values below one; its
  values at the ten mean frequencies, in multiples of a eleventh of \<open>\<pi>\<close>, follow from the series.
\<close>

definition accurate_cos :: "(fp \<Rightarrow> fp) \<Rightarrow> bool" where
  "accurate_cos cosf \<longleftrightarrow>
    (\<forall>x. 0 \<le> x \<and> x \<le> 13176795 / 4194304 \<longrightarrow> (\<exists>c. cosf (Fin x) = Fin c \<and> \<bar>real_of_rat c - cos (real_of_rat x)\<bar> \<le> 1 / 2 ^ 23))"

section \<open>The cosine of the mean frequencies\<close>

definition cos_poly :: "real \<Rightarrow> real" where
  "cos_poly y = 1 - y / 2 + y ^ 2 / 24 - y ^ 3 / 720 + y ^ 4 / 40320 - y ^ 5 / 3628800 + y ^ 6 / 479001600 -
    y ^ 7 / 87178291200 + y ^ 8 / 20922789888000 - y ^ 9 / 6402373705728000"

lemma cos_series: "\<bar>cos x - cos_poly (x * x)\<bar> \<le> (x * x) ^ 10 / 2432902008176640000" for x :: real
proof -
  obtain t where t: "cos x = (\<Sum>m<20. cos_coeff m * x ^ m) + cos (t + 1 / 2 * real 20 * pi) / fact 20 * x ^ 20"
    using Maclaurin_cos_expansion [of x 20] by blast
  have "(\<Sum>m<20. cos_coeff m * x ^ m) = cos_poly (x * x)"
    by (simp add: cos_poly_def cos_coeff_def lessThan_nat_numeral fact_numeral flip: power2_eq_square power_mult)
  then have "\<bar>cos x - cos_poly (x * x)\<bar> = \<bar>cos (t + 1 / 2 * real 20 * pi)\<bar> / fact 20 * x ^ 20"
    unfolding t by (simp add: abs_mult power_even_abs)
  also have "\<dots> \<le> 1 / fact 20 * x ^ 20" by (intro mult_right_mono divide_right_mono abs_cos_le_one) simp_all
  also have "\<dots> = (x * x) ^ 10 / 2432902008176640000"
    by (simp add: fact_numeral flip: power2_eq_square power_mult)
  finally show ?thesis .
qed

lemma LSP_MEAN_values:
  "LSP_MEAN = map Fin [1197889 / 4194304, 9583129 / 16777216, 14374685 / 16777216, 9583121 / 8388608, 11978907 / 8388608,
    14374685 / 8388608, 16770463 / 8388608, 9583125 / 4194304, 5390507 / 2097152, 11978903 / 4194304]"
  using F32_nearest [of "285599 / 1000000" 25 9583112] F32_nearest [of "571199 / 1000000" 24 9583129]
    F32_nearest [of "428399 / 500000" 24 14374685] F32_nearest [of "1142397 / 1000000" 23 9583121]
    F32_nearest [of "1427997 / 1000000" 23 11978907] F32_nearest [of "428399 / 250000" 23 14374685]
    F32_nearest [of "399839 / 200000" 23 16770463] F32_nearest [of "456959 / 200000" 22 9583125]
    F32_nearest [of "1285197 / 500000" 22 10781014] F32_nearest [of "2855993 / 1000000" 22 11978903]
  by (simp add: LSP_MEAN_def f32_lit_def)

lemma cos_near: "\<bar>cos_poly (x * x) - c\<bar> + (x * x) ^ 10 / 2432902008176640000 \<le> 1 / 10 ^ 8 \<Longrightarrow> \<bar>cos x - c\<bar> \<le> 1 / 10 ^ 8" for x :: real
  using cos_series [of x] by linarith

text \<open>Eight digits of each.\<close>

definition MEAN_COS :: "rat list" where
  "MEAN_COS =
    [95949307 / 100000000, 16825067 / 20000000, 32743037 / 50000000, 41541527 / 100000000, 14231451 / 100000000,
     - 14231483 / 100000000, - 4154147 / 10000000, - 65486103 / 100000000, - 21031339 / 25000000, - 95949289 / 100000000]"

lemma mean_cos_0: "\<bar>cos (real_of_rat (1197889 / 4194304)) - of_rat (95949307 / 100000000)\<bar> \<le> 1 / 10 ^ 8"
  by (rule cos_near) (simp add: cos_poly_def power_divide of_rat_divide of_rat_minus)

lemma mean_cos_1: "\<bar>cos (real_of_rat (9583129 / 16777216)) - of_rat (16825067 / 20000000)\<bar> \<le> 1 / 10 ^ 8"
  by (rule cos_near) (simp add: cos_poly_def power_divide of_rat_divide of_rat_minus)

lemma mean_cos_2: "\<bar>cos (real_of_rat (14374685 / 16777216)) - of_rat (32743037 / 50000000)\<bar> \<le> 1 / 10 ^ 8"
  by (rule cos_near) (simp add: cos_poly_def power_divide of_rat_divide of_rat_minus)

lemma mean_cos_3: "\<bar>cos (real_of_rat (9583121 / 8388608)) - of_rat (41541527 / 100000000)\<bar> \<le> 1 / 10 ^ 8"
  by (rule cos_near) (simp add: cos_poly_def power_divide of_rat_divide of_rat_minus)

lemma mean_cos_4: "\<bar>cos (real_of_rat (11978907 / 8388608)) - of_rat (14231451 / 100000000)\<bar> \<le> 1 / 10 ^ 8"
  by (rule cos_near) (simp add: cos_poly_def power_divide of_rat_divide of_rat_minus)

lemma mean_cos_5: "\<bar>cos (real_of_rat (14374685 / 8388608)) - of_rat (- 14231483 / 100000000)\<bar> \<le> 1 / 10 ^ 8"
  by (rule cos_near) (simp add: cos_poly_def power_divide of_rat_divide of_rat_minus)

lemma mean_cos_6: "\<bar>cos (real_of_rat (16770463 / 8388608)) - of_rat (- 4154147 / 10000000)\<bar> \<le> 1 / 10 ^ 8"
  by (rule cos_near) (simp add: cos_poly_def power_divide of_rat_divide of_rat_minus)

lemma mean_cos_7: "\<bar>cos (real_of_rat (9583125 / 4194304)) - of_rat (- 65486103 / 100000000)\<bar> \<le> 1 / 10 ^ 8"
  by (rule cos_near) (simp add: cos_poly_def power_divide of_rat_divide of_rat_minus)

lemma mean_cos_8: "\<bar>cos (real_of_rat (5390507 / 2097152)) - of_rat (- 21031339 / 25000000)\<bar> \<le> 1 / 10 ^ 8"
  by (rule cos_near) (simp add: cos_poly_def power_divide of_rat_divide of_rat_minus)

lemma mean_cos_9: "\<bar>cos (real_of_rat (11978903 / 4194304)) - of_rat (- 95949289 / 100000000)\<bar> \<le> 1 / 10 ^ 8"
  by (rule cos_near) (simp add: cos_poly_def power_divide of_rat_divide of_rat_minus)

lemma near_of_cos:
  assumes "accurate_cos cosf" "0 \<le> x" "x \<le> 13176795 / 4194304" "\<bar>cos (of_rat x) - of_rat c\<bar> \<le> (1 :: real) / 10 ^ 8"
  shows "near (cosf (Fin x)) c (1 / 2 ^ 23 + 1 / 10 ^ 8)"
proof -
  obtain r where r: "cosf (Fin x) = Fin r" "\<bar>of_rat r - cos (of_rat x)\<bar> \<le> (1 :: real) / 2 ^ 23"
    using assms(1-3) unfolding accurate_cos_def by blast
  have "\<bar>of_rat r - of_rat c\<bar> \<le> (1 :: real) / 2 ^ 23 + 1 / 10 ^ 8" using r(2) assms(4) by linarith
  then have "of_rat \<bar>r - c\<bar> \<le> (of_rat (1 / 2 ^ 23 + 1 / 10 ^ 8) :: real)"
    by (simp add: of_rat_diff of_rat_add of_rat_divide of_rat_power flip: abs_of_rat del: abs_of_rat)
  then have "\<bar>r - c\<bar> \<le> 1 / 2 ^ 23 + 1 / 10 ^ 8" by (simp only: of_rat_less_eq)
  with r(1) show ?thesis unfolding near_def by blast
qed

lemma near_mean_cos:
  assumes "accurate_cos cosf" "i < LPC_ORDER"
  shows "near (cosf (LSP_MEAN ! i)) (MEAN_COS ! i) (1 / 2 ^ 23 + 1 / 10 ^ 8)"
proof -
  have "i = 0 \<or> i = 1 \<or> i = 2 \<or> i = 3 \<or> i = 4 \<or> i = 5 \<or> i = 6 \<or> i = 7 \<or> i = 8 \<or> i = 9"
    using assms(2) unfolding LPC_ORDER_def by arith
  then show ?thesis
  proof (elim disjE)
    assume "i = 0"
    then show ?thesis using near_of_cos [OF assms(1) _ _ mean_cos_0] by (simp add: LSP_MEAN_values MEAN_COS_def)
  next
    assume "i = 1"
    then show ?thesis using near_of_cos [OF assms(1) _ _ mean_cos_1] by (simp add: LSP_MEAN_values MEAN_COS_def)
  next
    assume "i = 2"
    then show ?thesis using near_of_cos [OF assms(1) _ _ mean_cos_2] by (simp add: LSP_MEAN_values MEAN_COS_def)
  next
    assume "i = 3"
    then show ?thesis using near_of_cos [OF assms(1) _ _ mean_cos_3] by (simp add: LSP_MEAN_values MEAN_COS_def)
  next
    assume "i = 4"
    then show ?thesis using near_of_cos [OF assms(1) _ _ mean_cos_4] by (simp add: LSP_MEAN_values MEAN_COS_def)
  next
    assume "i = 5"
    then show ?thesis using near_of_cos [OF assms(1) _ _ mean_cos_5] by (simp add: LSP_MEAN_values MEAN_COS_def)
  next
    assume "i = 6"
    then show ?thesis using near_of_cos [OF assms(1) _ _ mean_cos_6] by (simp add: LSP_MEAN_values MEAN_COS_def)
  next
    assume "i = 7"
    then show ?thesis using near_of_cos [OF assms(1) _ _ mean_cos_7] by (simp add: LSP_MEAN_values MEAN_COS_def)
  next
    assume "i = 8"
    then show ?thesis using near_of_cos [OF assms(1) _ _ mean_cos_8] by (simp add: LSP_MEAN_values MEAN_COS_def)
  next
    assume "i = 9"
    then show ?thesis using near_of_cos [OF assms(1) _ _ mean_cos_9] by (simp add: LSP_MEAN_values MEAN_COS_def)
  qed
qed

section \<open>The filter of the mean frequencies\<close>

text \<open>An enclosure of a value: its centre and its radius; \<open>None\<close> where the values would become too large.\<close>

definition encloses :: "fp \<Rightarrow> rat \<times> rat \<Rightarrow> bool" where
  "encloses x b \<longleftrightarrow> near x (fst b) (snd b)"

fun bound_step :: "rat \<times> rat \<Rightarrow> rat \<times> rat \<Rightarrow> rat \<times> rat \<Rightarrow> (rat \<times> rat) option" where
  "bound_step (d, f) (c, e) (c', e') =
    (let g = \<bar>c'\<bar> * f + e' * \<bar>d\<bar> + e' * f in
     if \<bar>c' * d\<bar> + g \<le> 7 \<and> \<bar>c + c' * d\<bar> + (e + (g + 1 / 2097152)) \<le> 7 then Some (c + c' * d, e + g + 1 / 1048576) else None)"

fun bound_steps :: "rat \<times> rat \<Rightarrow> nat list \<Rightarrow> (rat \<times> rat) list \<Rightarrow> (rat \<times> rat) list option" where
  "bound_steps t [] bs = Some bs"
| "bound_steps t (j # js) bs =
    (case bound_step t (bs ! j) (bs ! (j - 1)) of None \<Rightarrow> None | Some b \<Rightarrow> bound_steps t js (bs[j := b]))"

fun bound_factors :: "nat \<Rightarrow> (rat \<times> rat) list \<Rightarrow> (rat \<times> rat) list \<Rightarrow> (rat \<times> rat) list option" where
  "bound_factors i [] bs = Some bs"
| "bound_factors i (t # ts) bs =
    (case bound_steps t (rev [1..<i + 2]) bs of None \<Rightarrow> None | Some bs \<Rightarrow> bound_factors (i + 1) ts bs)"

lemma bound_step_encloses:
  assumes "encloses x b" "encloses y b'" "encloses z t" "bound_step t b b' = Some r"
  shows "encloses (fp_add F32 x (fp_mul F32 y z)) r"
proof -
  obtain c e c' e' d f where b: "b = (c, e)" "b' = (c', e')" "t = (d, f)" by (metis surj_pair)
  show ?thesis
    using near_mul_add [of x c e y c' e' z d f] assms unfolding b encloses_def by (auto simp: Let_def split: if_splits)
qed

lemma bound_steps_encloses:
  "list_all2 encloses p bs \<Longrightarrow> encloses t b \<Longrightarrow> \<forall>j\<in>set js. j < length p \<Longrightarrow> bound_steps b js bs = Some bs' \<Longrightarrow>
    list_all2 encloses (fold (\<lambda>j p. p[j := fp_add F32 (p ! j) (fp_mul F32 (p ! (j - 1)) t)]) js p) bs'"
proof (induction js arbitrary: p bs)
  case (Cons j js)
  obtain r where r: "bound_step b (bs ! j) (bs ! (j - 1)) = Some r" "bound_steps b js (bs[j := r]) = Some bs'"
    using Cons.prems(4) by (auto split: option.splits)
  have "encloses (p ! j) (bs ! j)" "encloses (p ! (j - 1)) (bs ! (j - 1))"
    using Cons.prems(1,3) by (auto simp: list_all2_conv_all_nth)
  from bound_step_encloses [OF this Cons.prems(2) r(1)]
  have "list_all2 encloses (p[j := fp_add F32 (p ! j) (fp_mul F32 (p ! (j - 1)) t)]) (bs[j := r])"
    using Cons.prems(1) by (intro list_all2_update_cong) simp_all
  from Cons.IH [OF this Cons.prems(2) _ r(2)] Cons.prems(3) show ?case by simp
qed simp

lemma bound_factors_encloses:
  "list_all2 encloses p bs \<Longrightarrow> length p = LPC_ORDER div 2 + 1 \<Longrightarrow> i + length ws \<le> LPC_ORDER div 2 \<Longrightarrow>
    list_all2 (\<lambda>w t. encloses (fp_mul F32 (Fin (- 2)) (cosf w)) t) ws ts \<Longrightarrow> bound_factors i ts bs = Some bs' \<Longrightarrow>
    list_all2 encloses (fold (\<lambda>(i, w). mul_factor cosf w i) (zip [i..<i + length ws] ws) p) bs'"
proof (induction ws arbitrary: i ts p bs)
  case (Cons w ws)
  obtain t ts' where ts: "ts = t # ts'" using Cons.prems(4) by (auto simp: list_all2_Cons1)
  obtain bs1 where b: "bound_steps t (rev [1..<i + 2]) bs = Some bs1" "bound_factors (i + 1) ts' bs1 = Some bs'"
    using Cons.prems(5) by (auto simp: ts split: option.splits)
  have t: "encloses (fp_mul F32 (Fin (- 2)) (cosf w)) t" using Cons.prems(4) by (simp add: ts)
  have "\<forall>j\<in>set (rev [1..<i + 2]). j < length p" using Cons.prems(2,3) by (auto simp: LPC_ORDER_def)
  from bound_steps_encloses [OF Cons.prems(1) t this b(1)] have m: "list_all2 encloses (mul_factor cosf w i p) bs1"
    unfolding mul_factor_def .
  have l: "length (mul_factor cosf w i p) = LPC_ORDER div 2 + 1"
    using Cons.prems(2) by (simp add: mul_factor_def fold_update_length)
  have "i + 1 + length ws \<le> LPC_ORDER div 2" "list_all2 (\<lambda>w t. encloses (fp_mul F32 (Fin (- 2)) (cosf w)) t) ws ts'"
    using Cons.prems(3,4) by (simp_all add: ts)
  from Cons.IH [OF m l this b(2)] show ?case by (simp add: upt_conv_Cons del: upt_Suc)
qed simp


definition mean_factors :: "nat \<Rightarrow> (rat \<times> rat) list" where
  "mean_factors k = map (\<lambda>i. (- 2 * MEAN_COS ! (2 * i + k), 1 / 2097152)) [0..<5]"

lemma mean_factor_encloses:
  assumes "accurate_cos cosf" "i < LPC_ORDER"
  shows "encloses (fp_mul F32 (Fin (- 2)) (cosf (LSP_MEAN ! i))) (- 2 * MEAN_COS ! i, 1 / 2097152)"
proof -
  obtain r where r: "cosf (LSP_MEAN ! i) = Fin r" "\<bar>r - MEAN_COS ! i\<bar> \<le> 1 / 2 ^ 23 + 1 / 10 ^ 8"
    using near_mean_cos [OF assms] unfolding near_def by blast
  have "i = 0 \<or> i = 1 \<or> i = 2 \<or> i = 3 \<or> i = 4 \<or> i = 5 \<or> i = 6 \<or> i = 7 \<or> i = 8 \<or> i = 9"
    using assms(2) unfolding LPC_ORDER_def by arith
  then have c: "\<bar>MEAN_COS ! i\<bar> \<le> 1" by (elim disjE) (simp_all add: MEAN_COS_def)
  have "\<bar>- 2 * r - - 2 * MEAN_COS ! i\<bar> = 2 * \<bar>r - MEAN_COS ! i\<bar>" by (simp add: abs_if)
  also have "\<dots> \<le> 2 * (1 / 2 ^ 23 + 1 / 10 ^ 8)" using r(2) by simp
  finally have d: "\<bar>- 2 * r - - 2 * MEAN_COS ! i\<bar> \<le> 2 * (1 / 2 ^ 23 + 1 / 10 ^ 8)" .
  have m: "\<bar>- 2 * MEAN_COS ! i\<bar> \<le> 2" using c by (simp add: abs_mult)
  then have "\<bar>- 2 * MEAN_COS ! i\<bar> + 2 * (1 / 2 ^ 23 + 1 / 10 ^ 8) \<le> 15" by simp
  from near_round [OF d this, of F32, OF round_formats(1-3)]
  have n: "near (fp_round F32 (- 2 * r)) (- 2 * MEAN_COS ! i)
      (2 * (1 / 2 ^ 23 + 1 / 10 ^ 8) + (\<bar>- 2 * MEAN_COS ! i\<bar> + 2 * (1 / 2 ^ 23 + 1 / 10 ^ 8) + 1) / 2 ^ 24)" .
  have "(\<bar>- 2 * MEAN_COS ! i\<bar> + 2 * (1 / 2 ^ 23 + 1 / 10 ^ 8) + 1) / 2 ^ 24 \<le> (2 + 2 * (1 / 2 ^ 23 + 1 / 10 ^ 8) + 1) / (2 ^ 24 :: rat)"
    using m by (intro divide_right_mono add_right_mono) simp_all
  moreover have "2 * (1 / 2 ^ 23 + 1 / 10 ^ 8) + (2 + 2 * (1 / 2 ^ 23 + 1 / 10 ^ 8) + 1) / 2 ^ 24 \<le> (1 / 2097152 :: rat)" by simp
  ultimately have "\<bar>- 2 * MEAN_COS ! i - (- 2 * MEAN_COS ! i)\<bar> + (2 * (1 / 2 ^ 23 + 1 / 10 ^ 8) +
      (\<bar>- 2 * MEAN_COS ! i\<bar> + 2 * (1 / 2 ^ 23 + 1 / 10 ^ 8) + 1) / 2 ^ 24) \<le> 1 / 2097152"
    unfolding diff_self abs_zero by linarith
  from near_weaken [OF n this] r(1) show ?thesis by (simp add: encloses_def)
qed

text \<open>The exact filter would be \<open>1 - 4 z\<^sup>2 + 3 z\<^sup>4\<close>.\<close>

definition mean_filter :: "rat list" where
  "mean_filter = [1, 0, - 4, 0, 3, 0, 0, 0, 0, 0, 0]"

definition bounds_meet :: "(rat \<times> rat) list \<Rightarrow> (rat \<times> rat) list \<Rightarrow> nat \<Rightarrow> rat \<Rightarrow> bool" where
  "bounds_meet ps qs i a =
    (case (ps ! i, qs ! i) of
       ((c, e), (d, f)) \<Rightarrow> \<bar>c + d\<bar> + (e + f + 1 / 524288) \<le> 13 \<and> \<bar>(c + d) / 2 - a\<bar> + ((e + f) / 2 + 1 / 524288) \<le> 1 / 16384)"

lemma bound_mean_factors:
  "\<exists>ps qs. bound_factors 0 (mean_factors 0) [(1, 0), (0, 0), (0, 0), (0, 0), (0, 0), (0, 0)] = Some ps \<and>
    bound_factors 0 (mean_factors 1) [(1, 0), (0, 0), (0, 0), (0, 0), (0, 0), (0, 0)] = Some qs \<and>
    bounds_meet ps qs 1 0 \<and> bounds_meet ps qs 2 (- 4) \<and> bounds_meet ps qs 3 0 \<and> bounds_meet ps qs 4 3 \<and> bounds_meet ps qs 5 0"
  by (simp add: mean_factors_def MEAN_COS_def upt_rec bounds_meet_def)


lemma mean_polynomial:
  assumes "accurate_cos cosf" "k < 2" "bound_factors 0 (mean_factors k) [(1, 0), (0, 0), (0, 0), (0, 0), (0, 0), (0, 0)] = Some bs"
  shows "list_all2 encloses (fold (\<lambda>i. mul_factor cosf (LSP_MEAN ! (2 * i + k)) i) [0..<5] ((replicate 6 (Fin 0))[0 := Fin 1])) bs"
proof -
  let ?ws = "map (\<lambda>i. LSP_MEAN ! (2 * i + k)) [0..<5]"
  have "list_all2 encloses ((replicate 6 (Fin 0))[0 := Fin 1]) [(1, 0), (0, 0), (0, 0), (0, 0), (0, 0), (0, 0)]"
    by (simp add: encloses_def near_def numeral_eq_Suc)
  moreover have "list_all2 (\<lambda>w t. encloses (fp_mul F32 (Fin (- 2)) (cosf w)) t) ?ws (mean_factors k)"
    unfolding mean_factors_def using assms(2)
    using mean_factor_encloses [OF assms(1)] by (simp add: list_all2_conv_all_nth LPC_ORDER_def)
  moreover have "length ((replicate 6 (Fin 0))[0 := Fin 1 :: fp]) = LPC_ORDER div 2 + 1" "0 + length ?ws \<le> LPC_ORDER div 2"
    by (simp_all add: LPC_ORDER_def)
  ultimately have "list_all2 encloses (fold (\<lambda>(i, w). mul_factor cosf w i) (zip [0..<0 + length ?ws] ?ws) ((replicate 6 (Fin 0))[0 := Fin 1])) bs"
    using bound_factors_encloses [of _ _ 0 ?ws cosf "mean_factors k" bs] assms(3) by blast
  then show ?thesis by (simp add: upt_rec)
qed

lemma fold_pair: "fold (\<lambda>i (p, q). (f i p, g i q)) is (p, q) = (fold f is p, fold g is q)"
  by (induction "is" arbitrary: p q) simp_all

lemma bounds_meet_near:
  assumes "bounds_meet ps qs i a" "encloses (p ! i) (ps ! i)" "encloses (q ! i) (qs ! i)"
  shows "near (f32_midpoint (p ! i) (q ! i)) a (1 / 16384)"
proof -
  obtain c e d f where b: "ps ! i = (c, e)" "qs ! i = (d, f)" by (metis surj_pair)
  show ?thesis
    by (rule near_weaken [OF near_midpoint [of "p ! i" c e "q ! i" d f]])
      (use assms in \<open>simp_all add: b bounds_meet_def encloses_def\<close>)
qed

lemma mean_filter_near:
  assumes "accurate_cos cosf"
  shows "length (lsp_to_lpc cosf LSP_MEAN) = 11 \<and> lsp_to_lpc cosf LSP_MEAN ! 0 = Fin 1 \<and>
    (\<forall>i\<in>{1..10}. near (lsp_to_lpc cosf LSP_MEAN ! i) (mean_filter ! i) (1 / 16384))"
proof -
  obtain ps qs where b: "bound_factors 0 (mean_factors 0) [(1, 0), (0, 0), (0, 0), (0, 0), (0, 0), (0, 0)] = Some ps"
    "bound_factors 0 (mean_factors 1) [(1, 0), (0, 0), (0, 0), (0, 0), (0, 0), (0, 0)] = Some qs"
    and m: "bounds_meet ps qs 1 0" "bounds_meet ps qs 2 (- 4)" "bounds_meet ps qs 3 0" "bounds_meet ps qs 4 3" "bounds_meet ps qs 5 0"
    using bound_mean_factors by blast
  define p where "p = fold (\<lambda>i. mul_factor cosf (LSP_MEAN ! (2 * i + 0)) i) [0..<5] ((replicate 6 (Fin 0))[0 := Fin 1])"
  define q where "q = fold (\<lambda>i. mul_factor cosf (LSP_MEAN ! (2 * i + 1)) i) [0..<5] ((replicate 6 (Fin 0))[0 := Fin 1])"
  have e: "list_all2 encloses p ps" "list_all2 encloses q qs"
    unfolding p_def q_def using mean_polynomial [OF assms _ b(1)] mean_polynomial [OF assms _ b(2)] by simp_all
  have l: "length p = 6" "length q = 6" by (simp_all add: p_def q_def mul_factor_def fold_update_length upt_rec)
  have n: "near (f32_midpoint (p ! i) (q ! i)) a (1 / 16384)" if "bounds_meet ps qs i a" "i < 6" for i a
    using bounds_meet_near [OF that(1)] e l that(2) by (auto simp: list_all2_conv_all_nth)
  have f: "lsp_to_lpc cosf LSP_MEAN = Fin 1 # map (\<lambda>i. f32_midpoint (p ! min i 5) (q ! min i 5)) [1..<11]"
    by (simp add: lsp_to_lpc_def LPC_ORDER_def fold_pair p_def q_def mult.commute add.commute Let_def)
  have "near (lsp_to_lpc cosf LSP_MEAN ! i) (mean_filter ! i) (1 / 16384)" if "i \<in> {1..10}" for i
  proof -
    have "i = 1 \<or> i = 2 \<or> i = 3 \<or> i = 4 \<or> i = 5 \<or> i = 6 \<or> i = 7 \<or> i = 8 \<or> i = 9 \<or> i = 10"
      using that unfolding atLeastAtMost_iff by presburger
    moreover have "lsp_to_lpc cosf LSP_MEAN ! i = f32_midpoint (p ! min i 5) (q ! min i 5)" using that by (auto simp: f nth_Cons')
    ultimately show ?thesis
      using n [OF m(1)] n [OF m(2)] n [OF m(3)] n [OF m(4)] n [OF m(5)] by (elim disjE) (simp_all add: mean_filter_def)
  qed
  then show ?thesis by (simp add: f)
qed

end
