(* ===== verification/G729_Growth.thy ===== *)
theory G729_Growth
  imports G729_Silence G729_Predictor
begin

text \<open>
  What the synthesis filter of \<^verbatim>\<open>src/src/codec/g729.rs\<close> does with the frequencies it starts with: its
  exact form has a root of three, so that a pulse grows by a factor of three every other sample,
  until it overflows and everything becomes NaN.
\<close>

section \<open>Values that are not finite\<close>

definition nonfinite :: "fp \<Rightarrow> bool" where
  "nonfinite x \<longleftrightarrow> x \<noteq> NaN \<longrightarrow> x = PInf \<or> x = MInf"

lemma finite_cases: "nonfinite x \<or> (\<exists>r. x = Fin r)"
  by (cases x) (simp_all add: nonfinite_def)

lemma nonfinite_mul: "nonfinite y \<Longrightarrow> nonfinite (fp_mul F (Fin a) y)"
  by (cases y) (auto simp: nonfinite_def fp_inf_def)

lemma nonfinite_sub: "nonfinite x \<or> nonfinite y \<Longrightarrow> nonfinite (fp_sub F x y)"
  by (cases x; cases y) (auto simp: nonfinite_def fp_sub_def)

lemma NaN_mul: "fp_mul F (Fin a) NaN = NaN"
  by simp

lemma NaN_sub: "x = NaN \<or> y = NaN \<Longrightarrow> fp_sub F x y = NaN"
  by (cases x; cases y) (auto simp: fp_sub_def)

text \<open>Along a sum they stay.\<close>

definition differences :: "(nat \<Rightarrow> fp) \<Rightarrow> nat list \<Rightarrow> fp \<Rightarrow> fp" where
  "differences v js e = fold (\<lambda>j sum. fp_sub F32 sum (v j)) js e"

lemma differences_append: "differences v (js @ js') e = differences v js' (differences v js e)"
  by (simp add: differences_def)

lemma differences_Cons: "differences v (j # js) e = differences v js (fp_sub F32 e (v j))"
  by (simp add: differences_def)

lemma differences_nonfinite: "nonfinite e \<or> (\<exists>j\<in>set js. nonfinite (v j)) \<Longrightarrow> nonfinite (differences v js e)"
proof (induction js arbitrary: e)
  case (Cons j js)
  have "nonfinite (fp_sub F32 e (v j)) \<or> (\<exists>j\<in>set js. nonfinite (v j))" using Cons.prems nonfinite_sub by auto
  from Cons.IH [OF this] show ?case by (simp add: differences_Cons)
qed (simp add: differences_def)

lemma differences_NaN: "e = NaN \<or> (\<exists>j\<in>set js. v j = NaN) \<Longrightarrow> differences v js e = NaN"
proof (induction js arbitrary: e)
  case (Cons j js)
  have "fp_sub F32 e (v j) = NaN \<or> (\<exists>j\<in>set js. v j = NaN)" using Cons.prems NaN_sub by auto
  from Cons.IH [OF this] show ?case by (simp add: differences_Cons)
qed (simp add: differences_def)

text \<open>An infinite sum stays as it is, or becomes NaN.\<close>

lemma differences_infinite: "e \<in> {PInf, MInf, NaN} \<Longrightarrow> differences v js e \<in> {e, NaN}"
proof (induction js arbitrary: e)
  case (Cons j js)
  have s: "fp_sub F32 e (v j) \<in> {e, NaN}" using Cons.prems by (cases "v j") (auto simp: fp_sub_def)
  with Cons.prems have "fp_sub F32 e (v j) \<in> {PInf, MInf, NaN}" by auto
  from Cons.IH [OF this] s show ?case by (auto simp: differences_Cons)
qed (simp add: differences_def)

lemma filter_step_differences:
  "filter_step a hist e = differences (\<lambda>j. fp_mul F32 (a ! j) (hist ! (LPC_ORDER - j))) [1..<LPC_ORDER + 1] e"
  by (simp add: filter_step_def differences_def)

section \<open>How close the computed sum is\<close>

text \<open>Close to a centre, or not finite.\<close>

definition about :: "fp \<Rightarrow> rat \<Rightarrow> rat \<Rightarrow> bool" where
  "about x c d \<longleftrightarrow> nonfinite x \<or> (\<exists>r. x = Fin r \<and> \<bar>r - c\<bar> \<le> d)"

lemma about_weaken: "about x c d \<Longrightarrow> c = c' \<Longrightarrow> d \<le> d' \<Longrightarrow> about x c' d'"
  by (auto simp: about_def)

lemma about_round:
  assumes "\<bar>x - c\<bar> \<le> d" "\<bar>c\<bar> + d \<le> 16 * s" "1 \<le> s"
  shows "about (fp_round F32 x) c (d + s / 2 ^ 19)"
proof (cases rule: F32_round_cases [of x])
  case (1 r)
  have "\<bar>x\<bar> + 1 / 2 ^ 126 \<le> \<bar>c\<bar> + d + 1" using assms(1) by (intro add_mono) (linarith, simp)
  also have "\<dots> \<le> 32 * s" using assms(2,3) by linarith
  finally have "(\<bar>x\<bar> + 1 / 2 ^ 126) / 2 ^ 24 \<le> 32 * s / 2 ^ 24" by (rule divide_right_mono) simp
  also have "\<dots> = s / 2 ^ 19" by simp
  finally have "\<bar>r - x\<bar> \<le> s / 2 ^ 19" using 1(1) by (rule order_trans [rotated])
  with assms(1) have "\<bar>r - c\<bar> \<le> d + s / 2 ^ 19" by linarith
  with 1(2) show ?thesis unfolding about_def by blast
qed (auto simp: about_def nonfinite_def)

lemma about_sub:
  assumes "about x c d" "about y c' d'" "\<bar>c - c'\<bar> + (d + d') \<le> 16 * s" "1 \<le> s"
  shows "about (fp_sub F32 x y) (c - c') (d + d' + s / 2 ^ 19)"
proof (cases "nonfinite x \<or> nonfinite y")
  case True
  then show ?thesis using nonfinite_sub by (simp add: about_def)
next
  case False
  then obtain r r' where r: "x = Fin r" "\<bar>r - c\<bar> \<le> d" "y = Fin r'" "\<bar>r' - c'\<bar> \<le> d'" using assms(1,2) by (auto simp: about_def)
  then have "\<bar>r + - r' - (c - c')\<bar> \<le> d + d'" by linarith
  from about_round [OF this assms(3,4)] show ?thesis by (simp add: r fp_sub_def)
qed

lemma about_mul:
  assumes "near x c e" "y = Fin h" "\<bar>h\<bar> \<le> k * s" "\<bar>c * h\<bar> + e * k * s \<le> 16 * s" "1 \<le> s"
  shows "about (fp_mul F32 x y) (c * h) (e * k * s + s / 2 ^ 19)"
proof -
  obtain r where r: "x = Fin r" "\<bar>r - c\<bar> \<le> e" using assms(1) by (auto simp: near_def)
  have "r * h - c * h = (r - c) * h" by (simp add: left_diff_distrib)
  then have "\<bar>r * h - c * h\<bar> = \<bar>r - c\<bar> * \<bar>h\<bar>" by (simp add: abs_mult)
  also have "\<dots> \<le> e * (k * s)" using r(2) assms(3) by (intro mult_mono) (auto intro: order_trans [OF abs_ge_zero])
  finally have "\<bar>r * h - c * h\<bar> \<le> e * k * s" by (simp add: mult.assoc)
  from about_round [OF this assms(4,5)] show ?thesis by (simp add: r(1) assms(2))
qed

lemma differences_about:
  assumes "1 \<le> s"
  shows "\<forall>j\<in>set js. about (v j) (T j) (D j) \<and> 0 \<le> D j \<Longrightarrow> about e c d \<Longrightarrow>
    \<bar>c\<bar> + d + (\<Sum>j\<leftarrow>js. \<bar>T j\<bar> + D j + s / 2 ^ 19) \<le> 16 * s \<Longrightarrow>
    about (differences v js e) (c - (\<Sum>j\<leftarrow>js. T j)) (d + (\<Sum>j\<leftarrow>js. D j + s / 2 ^ 19))"
proof (induction js arbitrary: e c d)
  case (Cons j js)
  have v: "about (v j) (T j) (D j)" "0 \<le> D j" using Cons.prems(1) by simp_all
  have k: "0 \<le> s / 2 ^ 19" using assms by simp
  have rest: "0 \<le> (\<Sum>j\<leftarrow>js. \<bar>T j\<bar> + D j + s / 2 ^ 19)"
    using Cons.prems(1) k by (intro sum_list_nonneg) auto
  have b: "\<bar>c\<bar> + d + (\<bar>T j\<bar> + D j + s / 2 ^ 19) + (\<Sum>j\<leftarrow>js. \<bar>T j\<bar> + D j + s / 2 ^ 19) \<le> 16 * s"
    using Cons.prems(3) by (simp add: add.assoc)
  have t: "\<bar>c - T j\<bar> \<le> \<bar>c\<bar> + \<bar>T j\<bar>" by (rule abs_triangle_ineq4)
  have "\<bar>c - T j\<bar> + (d + D j) \<le> 16 * s" using b rest k t by linarith
  note 1 = about_sub [OF Cons.prems(2) v(1) this assms]
  have "\<bar>c - T j\<bar> + (d + D j + s / 2 ^ 19) + (\<Sum>j\<leftarrow>js. \<bar>T j\<bar> + D j + s / 2 ^ 19) \<le> 16 * s" using b t by linarith
  from Cons.IH [OF _ 1 this] Cons.prems(1) show ?case by (simp add: differences_Cons algebra_simps)
qed (simp add: differences_def)

definition unstable :: "fp list \<Rightarrow> bool" where
  "unstable a \<longleftrightarrow> (\<forall>j\<in>{1..10}. near (a ! j) (mean_filter ! j) (1 / 16384))"

lemma filter_step_about:
  assumes a: "unstable a" and h: "\<And>j. j \<in> {1..10} \<Longrightarrow> \<exists>r. hist ! (10 - j) = Fin r \<and> \<bar>r\<bar> \<le> 16 * s"
    and h2: "hist ! 8 = Fin r2" "\<bar>r2\<bar> \<le> s" and h4: "hist ! 6 = Fin r4" "\<bar>r4\<bar> \<le> s"
    and e: "e = Fin c" "\<bar>c\<bar> \<le> s" and s: "1 \<le> s"
  shows "about (filter_step a hist e) (c + 4 * r2 - 3 * r4) (s / 125)"
proof -
  let ?v = "\<lambda>j. fp_mul F32 (a ! j) (hist ! (10 - j))"
  let ?T = "\<lambda>j :: nat. if j = 2 then - 4 * r2 else if j = 4 then 3 * r4 else 0"
  let ?D = "\<lambda>j :: nat. (if j = 2 \<or> j = 4 then s / 16384 else s / 1024) + s / 2 ^ 19"
  have v: "about (?v j) (?T j) (?D j)" if j: "j \<in> {1..10}" for j
  proof -
    have n: "near (a ! j) (mean_filter ! j) (1 / 16384)" using a j by (simp add: unstable_def)
    consider "j = 2" | "j = 4" | "j \<noteq> 2" "j \<noteq> 4" by blast
    then show ?thesis
    proof cases
      case 1
      have "\<bar>- 4 * r2\<bar> + 1 / 16384 * 1 * s \<le> 16 * s" using h2(2) s by (simp add: abs_mult)
      with about_mul [of "a ! j" "- 4" "1 / 16384" "hist ! (10 - j)" r2 1 s] n h2 s 1 show ?thesis by (simp add: mean_filter_def)
    next
      case 2
      have "\<bar>3 * r4\<bar> + 1 / 16384 * 1 * s \<le> 16 * s" using h4(2) s by (simp add: abs_mult)
      with about_mul [of "a ! j" 3 "1 / 16384" "hist ! (10 - j)" r4 1 s] n h4 s 2 show ?thesis by (simp add: mean_filter_def)
    next
      case 3
      have "j = 1 \<or> j = 3 \<or> j = 5 \<or> j = 6 \<or> j = 7 \<or> j = 8 \<or> j = 9 \<or> j = 10"
        using j 3 unfolding atLeastAtMost_iff by presburger
      then have m: "mean_filter ! j = 0" by (elim disjE) (simp_all add: mean_filter_def)
      obtain r where r: "hist ! (10 - j) = Fin r" "\<bar>r\<bar> \<le> 16 * s" using h [OF j] by blast
      from about_mul [OF n r, unfolded m] s show ?thesis using 3 by simp
    qed
  qed
  have l: "[1..<LPC_ORDER + 1] = [1, 2, 3, 4, 5, 6, 7, 8, 9, 10]" by (simp add: LPC_ORDER_def upt_rec)
  have D: "(\<Sum>j\<leftarrow>[1, 2, 3, 4, 5, 6, 7, 8, 9, 10]. ?D j + s / 2 ^ 19) = 8 * (s / 1024) + 2 * (s / 16384) + 20 * (s / 2 ^ 19)" by simp
  have "(\<Sum>j\<leftarrow>[1, 2, 3, 4, 5, 6, 7, 8, 9, 10]. \<bar>?T j\<bar> + ?D j + s / 2 ^ 19) =
      4 * \<bar>r2\<bar> + 3 * \<bar>r4\<bar> + (8 * (s / 1024) + 2 * (s / 16384) + 20 * (s / 2 ^ 19))" by (simp add: abs_mult)
  also have "\<dots> \<le> 8 * s" using h2(2) h4(2) s by simp
  finally have total: "\<bar>c\<bar> + 0 + (\<Sum>j\<leftarrow>[1, 2, 3, 4, 5, 6, 7, 8, 9, 10]. \<bar>?T j\<bar> + ?D j + s / 2 ^ 19) \<le> 16 * s" using e(2) s by simp
  have vs: "\<forall>j\<in>set [1, 2, 3, 4, 5, 6, 7, 8, 9, 10]. about (?v j) (?T j) (?D j) \<and> 0 \<le> ?D j"
  proof (intro ballI conjI)
    fix j assume "j \<in> set [1, 2, 3, 4, 5, 6, 7, 8, 9, 10 :: nat]"
    then have "j \<in> {1..10}" by auto
    then show "about (?v j) (?T j) (?D j)" by (rule v)
    show "0 \<le> ?D j" using s by simp
  qed
  have "about e c 0" by (simp add: about_def e(1))
  from differences_about [OF s vs this total]
  have "about (differences ?v [1, 2, 3, 4, 5, 6, 7, 8, 9, 10] e)
      (c - (\<Sum>j\<leftarrow>[1, 2, 3, 4, 5, 6, 7, 8, 9, 10]. ?T j)) (0 + (\<Sum>j\<leftarrow>[1, 2, 3, 4, 5, 6, 7, 8, 9, 10]. ?D j + s / 2 ^ 19))"
    .
  moreover have "c - (\<Sum>j\<leftarrow>[1, 2, 3, 4, 5, 6, 7, 8, 9, 10]. ?T j) = c + 4 * r2 - 3 * r4" by simp
  moreover have "0 + (8 * (s / 1024) + 2 * (s / 16384) + 20 * (s / 2 ^ 19)) \<le> s / 125" using s by simp
  ultimately have "about (differences ?v [1, 2, 3, 4, 5, 6, 7, 8, 9, 10] e) (c + 4 * r2 - 3 * r4) (s / 125)"
    unfolding D by (rule about_weaken)
  then show ?thesis unfolding filter_step_differences l unfolding LPC_ORDER_def .
qed

section \<open>A pulse grows\<close>

text \<open>The outputs of a filter that starts at rest, and what it remembers at each.\<close>

definition rest :: "fp list" where
  "rest = replicate LPC_ORDER (Fin 0)"

definition outputs :: "fp list \<Rightarrow> fp list \<Rightarrow> nat \<Rightarrow> fp" where
  "outputs a es m = fst (run_filter a rest es) ! m"

definition before :: "(nat \<Rightarrow> fp) \<Rightarrow> nat \<Rightarrow> nat \<Rightarrow> fp" where
  "before y m j = (if j \<le> m then y (m - j) else Fin 0)"

lemma run_filter_at:
  assumes "hist \<noteq> []" "m < length es"
  shows "fst (run_filter a hist es) ! m = filter_step a (drop m (hist @ take m (fst (run_filter a hist es)))) (es ! m)"
proof -
  have es: "es = take m es @ es ! m # drop (Suc m) es" using assms(2) by (simp add: id_take_nth_drop)
  have f: "fst (run_filter a hist es) =
      fst (run_filter a hist (take m es)) @
      filter_step a (snd (run_filter a hist (take m es))) (es ! m) #
      fst (run_filter a (tl (snd (run_filter a hist (take m es))) @ [filter_step a (snd (run_filter a hist (take m es))) (es ! m)])
        (drop (Suc m) es))"
    by (subst es) (simp only: run_filter_append run_filter.simps Let_def case_prod_unfold fst_conv snd_conv)
  have l: "length (fst (run_filter a hist (take m es))) = m" using assms(2) by simp
  have "snd (run_filter a hist (take m es)) = drop m (hist @ take m (fst (run_filter a hist es)))"
    using run_filter_hist [OF assms(1), of a "take m es"] assms(2) by (simp add: f)
  then show ?thesis by (subst f) (use assms(2) in \<open>simp add: nth_append l\<close>)
qed

lemma outputs_at:
  assumes "m < length es"
  obtains hist where "outputs a es m = filter_step a hist (es ! m)" "\<And>j. j \<in> {1..10} \<Longrightarrow> hist ! (10 - j) = before (outputs a es) m j"
proof -
  let ?ys = "fst (run_filter a rest es)"
  let ?h = "drop m (rest @ take m ?ys)"
  have r: "rest \<noteq> []" "length rest = 10" by (simp_all add: rest_def LPC_ORDER_def)
  have ly: "length (take m ?ys) = m" using assms by simp
  have "?h ! (10 - j) = before (outputs a es) m j" if j: "j \<in> {1..10}" for j
  proof -
    have "?h ! (10 - j) = (rest @ take m ?ys) ! (m + (10 - j))" using r(2) ly j by (intro nth_drop) simp
    also have "\<dots> = before (outputs a es) m j"
    proof (cases "j \<le> m")
      case True
      then have "m + (10 - j) = length rest + (m - j)" using j r(2) by simp
      then have "(rest @ take m ?ys) ! (m + (10 - j)) = take m ?ys ! (m - j)" by (simp only: nth_append_length_plus)
      with True j show ?thesis by (simp add: before_def outputs_def)
    next
      case False
      then have "m + (10 - j) < length rest" using j r(2) by simp
      then have "(rest @ take m ?ys) ! (m + (10 - j)) = Fin 0" by (simp add: nth_append rest_def)
      with False show ?thesis by (simp add: before_def)
    qed
    finally show ?thesis .
  qed
  moreover have "outputs a es m = filter_step a ?h (es ! m)"
    unfolding outputs_def by (rule run_filter_at [OF r(1) assms])
  ultimately show ?thesis using that by blast
qed

text \<open>One step: the sign is kept, and the new value is four times the last but one less three times the one before.\<close>

definition size_of :: "fp \<Rightarrow> rat" where
  "size_of y = (case y of Fin r \<Rightarrow> - r | _ \<Rightarrow> 0)"

lemma outputs_grow:
  assumes a: "unstable a" and m: "m < length es" and y: "outputs a es m = Fin y"
    and e: "es ! m = Fin c" "\<bar>c\<bar> \<le> s" and s: "1 \<le> s"
    and h: "\<And>j. j \<in> {1..10} \<Longrightarrow> \<exists>r. before (outputs a es) m j = Fin r \<and> \<bar>r\<bar> \<le> 16 * s"
    and h2: "before (outputs a es) m 2 = Fin r2" "\<bar>r2\<bar> \<le> s" and h4: "before (outputs a es) m 4 = Fin r4" "\<bar>r4\<bar> \<le> s"
  shows "\<bar>y - (c + 4 * r2 - 3 * r4)\<bar> \<le> s / 125"
proof -
  obtain hist where hist: "outputs a es m = filter_step a hist (es ! m)"
    "\<And>j. j \<in> {1..10} \<Longrightarrow> hist ! (10 - j) = before (outputs a es) m j" using outputs_at [OF m] by blast
  have "\<exists>r. hist ! (10 - j) = Fin r \<and> \<bar>r\<bar> \<le> 16 * s" if "j \<in> {1..10}" for j using h [OF that] hist(2) [OF that] by simp
  moreover have "hist ! 8 = Fin r2" "hist ! 6 = Fin r4" using hist(2) [of 2] hist(2) [of 4] h2(1) h4(1) by simp_all
  ultimately have "about (filter_step a hist (es ! m)) (c + 4 * r2 - 3 * r4) (s / 125)"
    using filter_step_about [OF a _ _ h2(2) _ h4(2) e s] by blast
  then show ?thesis using y hist(1) by (auto simp: about_def nonfinite_def)
qed

lemma ratio_bound: "p \<le> 78 \<Longrightarrow> 1008 * (303 / 100) ^ (p + 1) \<le> 16 * (992 * (297 / 100) ^ p :: rat)"
proof -
  assume p: "p \<le> 78"
  have "(101 / 99 :: rat) ^ p \<le> (101 / 99) ^ 78" by (rule power_increasing [OF p]) simp
  also have "\<dots> \<le> 5" by (simp add: power_divide)
  finally have "(101 / 99) ^ p * (297 / 100) ^ p \<le> 5 * (297 / 100 :: rat) ^ p" by (rule mult_right_mono) simp
  then have "(303 / 100 :: rat) ^ p \<le> 5 * (297 / 100) ^ p" by (simp flip: power_mult_distrib)
  moreover have "0 \<le> (297 / 100 :: rat) ^ p" by simp
  ultimately show ?thesis unfolding power_add power_one_right by linarith
qed

lemma filter_step_limit: "filter_step a hist e = Fin r \<Longrightarrow> \<bar>r\<bar> < 2 ^ 128"
proof -
  assume f: "filter_step a hist e = Fin r"
  have l: "[1..<LPC_ORDER + 1] = [1..<LPC_ORDER] @ [LPC_ORDER]" by (simp add: LPC_ORDER_def upt_rec)
  obtain x y where "fp_sub F32 x y = Fin r"
    using f unfolding filter_step_differences l differences_append by (auto simp: differences_def)
  then obtain u where "fp_round F32 u = Fin r" by (cases x; cases y) (auto simp: fp_sub_def)
  then show "\<bar>r\<bar> < 2 ^ 128" by (cases rule: F32_round_cases [of u]) auto
qed

text \<open>Two samples down, two up: what the pulses of a frame can look like.\<close>

definition pulse :: "fp list \<Rightarrow> bool" where
  "pulse es \<longleftrightarrow> 4 \<le> length es \<and> es ! 0 = Fin (- 1000) \<and> es ! 1 = Fin (- 1000) \<and> es ! 2 = Fin 1000 \<and> es ! 3 = Fin 1000 \<and>
    (\<forall>m. 4 \<le> m \<longrightarrow> m < length es \<longrightarrow> es ! m = Fin 0)"

definition in_step :: "(nat \<Rightarrow> rat) \<Rightarrow> nat \<Rightarrow> bool" where
  "in_step z m \<longleftrightarrow> 992 * (297 / 100) ^ (m div 2) \<le> z m \<and> z m \<le> 1008 * (303 / 100) ^ (m div 2) \<and>
    (2 \<le> m \<longrightarrow> 297 / 100 * z (m - 2) \<le> z m \<and> z m \<le> 303 / 100 * z (m - 2))"

lemma in_step_ratio:
  assumes "2 \<le> m" "in_step z (m - 2)" "297 / 100 * z (m - 2) \<le> z m" "z m \<le> 303 / 100 * z (m - 2)"
  shows "in_step z m"
proof -
  obtain k where m: "m = k + 2" using assms(1) by (metis add.commute le_Suc_ex)
  then have d: "m div 2 = Suc (k div 2)" by simp
  have z: "992 * (297 / 100) ^ (k div 2) \<le> z k" "z k \<le> 1008 * (303 / 100) ^ (k div 2)"
    using assms(2) by (simp_all add: in_step_def m)
  have "992 * (297 / 100) ^ (m div 2) \<le> 297 / 100 * z k" unfolding d power_Suc using z(1) by linarith
  moreover have "303 / 100 * z k \<le> 1008 * (303 / 100) ^ (m div 2)" unfolding d power_Suc using z(2) by linarith
  ultimately show ?thesis using assms(3,4) by (simp add: in_step_def m)
qed

text \<open>All the values that the filter remembers are of the order of the last but one.\<close>

lemma in_step_history:
  assumes "\<And>k. k < m \<Longrightarrow> in_step z k" "4 \<le> m" "m < 160" "j \<in> {1..10}" "j \<le> m"
  shows "0 \<le> z (m - j) \<and> z (m - j) \<le> 16 * z (m - 2) \<and> 992 \<le> z (m - 2)"
proof -
  let ?p = "(m - 2) div 2"
  have lo: "992 * (297 / 100) ^ ?p \<le> z (m - 2)" using assms(1) [of "m - 2"] assms(2) by (simp add: in_step_def)
  have "m - j \<le> m - 1" using assms(4) by (intro diff_le_mono2) simp
  then have "(m - j) div 2 \<le> (m - 1) div 2" by (rule div_le_mono)
  also have "\<dots> \<le> ?p + 1" using assms(2) by simp
  finally have "(m - j) div 2 \<le> ?p + 1" .
  then have "(303 / 100 :: rat) ^ ((m - j) div 2) \<le> (303 / 100) ^ (?p + 1)" by (rule power_increasing) simp
  moreover have "z (m - j) \<le> 1008 * (303 / 100) ^ ((m - j) div 2)" "992 * (297 / 100) ^ ((m - j) div 2) \<le> z (m - j)"
    using assms(1) [of "m - j"] assms(2,4) by (simp_all add: in_step_def)
  moreover have "1008 * (303 / 100) ^ (?p + 1) \<le> 16 * (992 * (297 / 100) ^ ?p :: rat)" using assms(3) by (intro ratio_bound) simp
  ultimately have "z (m - j) \<le> 16 * z (m - 2)" using lo by linarith
  moreover have "0 \<le> (297 / 100 :: rat) ^ ((m - j) div 2)" by simp
  then have "0 \<le> z (m - j)" using \<open>992 * (297 / 100) ^ ((m - j) div 2) \<le> z (m - j)\<close> by linarith
  moreover have "1 \<le> (297 / 100 :: rat) ^ ?p" by (rule one_le_power) simp
  then have "992 \<le> z (m - 2)" using lo by linarith
  ultimately show ?thesis by blast
qed

lemma before_value:
  assumes "\<And>k. k < m \<Longrightarrow> outputs a es k = Fin (- z k)" "j \<in> {1..10}"
  shows "before (outputs a es) m j = Fin (if j \<le> m then - z (m - j) else 0)"
proof (cases "j \<le> m")
  case True
  then have "m - j < m" using assms(2) by simp
  from assms(1) [OF this] True show ?thesis by (simp add: before_def)
qed (simp add: before_def)

lemma before_bound:
  assumes "\<And>k. k < m \<Longrightarrow> outputs a es k = Fin (- z k)" "j \<in> {1..10}" "j \<le> m \<Longrightarrow> 0 \<le> z (m - j) \<and> z (m - j) \<le> b" "0 \<le> b"
  shows "\<exists>r. before (outputs a es) m j = Fin r \<and> \<bar>r\<bar> \<le> b"
proof -
  have "before (outputs a es) m j = Fin (if j \<le> m then - z (m - j) else 0)" by (rule before_value [OF assms(1,2)])
  moreover have "\<bar>if j \<le> m then - z (m - j) else 0\<bar> \<le> b" using assms(3,4) by simp
  ultimately show ?thesis by blast
qed

lemma grows_late:
  assumes "unstable a" "pulse es" "4 \<le> m" "m < 160" "m < length es" "outputs a es m = Fin (- z m)"
    and f: "\<And>k. k < m \<Longrightarrow> outputs a es k = Fin (- z k)" and i: "\<And>k. k < m \<Longrightarrow> in_step z k"
  shows "in_step z m"
proof -
  let ?s = "z (m - 2)"
  have h: "0 \<le> z (m - j) \<and> z (m - j) \<le> 16 * ?s \<and> 992 \<le> ?s" if "j \<in> {1..10}" "j \<le> m" for j
    using in_step_history [OF i assms(3,4) that] by blast
  have s: "992 \<le> ?s" using h [of 2] assms(3) by simp
  have r: "297 / 100 * z (m - 4) \<le> ?s" "?s \<le> 303 / 100 * z (m - 4)" "0 \<le> z (m - 4)"
    using i [of "m - 2"] h [of 4] assms(3) by (auto simp: in_step_def)
  have "\<bar>- z m - (0 + 4 * (- ?s) - 3 * (- z (m - 4)))\<bar> \<le> ?s / 125"
  proof (rule outputs_grow [OF assms(1,5,6)])
    show "es ! m = Fin 0" using assms(2,3,5) by (simp add: pulse_def)
    show "\<exists>r. before (outputs a es) m j = Fin r \<and> \<bar>r\<bar> \<le> 16 * ?s" if "j \<in> {1..10}" for j
      by (rule before_bound [OF f that]) (use h [OF that] s in auto)
    show "before (outputs a es) m 2 = Fin (- ?s)" "before (outputs a es) m 4 = Fin (- z (m - 4))"
      using before_value [of m a es z 2] before_value [of m a es z 4] f assms(3) by simp_all
  qed (use s r in auto)
  then have "4 * ?s - 3 * z (m - 4) - ?s / 125 \<le> z m" "z m \<le> 4 * ?s - 3 * z (m - 4) + ?s / 125"
    unfolding abs_le_iff by linarith+
  with r s have "297 / 100 * ?s \<le> z m" "z m \<le> 303 / 100 * ?s" by linarith+
  moreover have "in_step z (m - 2)" "2 \<le> m" using i assms(3) by simp_all
  ultimately show ?thesis using in_step_ratio by blast
qed

lemma grows_early:
  assumes "unstable a" "pulse es" "m < 4" "outputs a es m = Fin (- z m)"
    and f: "\<And>k. k < m \<Longrightarrow> outputs a es k = Fin (- z k)" and i: "\<And>k. k < m \<Longrightarrow> in_step z k"
  shows "in_step z m"
proof -
  have l: "m < length es" using assms(2,3) by (simp add: pulse_def)
  have small: "0 \<le> z k \<and> z k \<le> 3055" if "k < m" for k
  proof -
    have "k = 0 \<or> k = 1 \<or> k = 2" using that assms(3) by arith
    then show ?thesis using i [OF that] by (auto simp: in_step_def numeral_eq_Suc)
  qed
  have h: "\<exists>r. before (outputs a es) m j = Fin r \<and> \<bar>r\<bar> \<le> 16 * 1008" if "j \<in> {1..10}" for j
    by (rule before_bound [OF f that]) (use small [of "m - j"] that in auto)
  show ?thesis
  proof (cases "m < 2")
    case True
    have c: "es ! m = Fin (- 1000)" using True assms(2) by (auto simp: pulse_def less_2_cases_iff)
    have b: "before (outputs a es) m 2 = Fin 0" "before (outputs a es) m 4 = Fin 0"
      using before_value [of m a es z 2] before_value [of m a es z 4] f True by simp_all
    have "\<bar>- z m - (- 1000 + 4 * 0 - 3 * 0)\<bar> \<le> 1000 / 125"
    proof (rule outputs_grow [OF assms(1) l assms(4) c _ _ _ b(1) _ b(2)])
      show "\<exists>r. before (outputs a es) m j = Fin r \<and> \<bar>r\<bar> \<le> 16 * 1000" if "j \<in> {1..10}" for j
        by (rule before_bound [OF f that]) (use small [of "m - j"] that in auto)
    qed simp_all
    then show ?thesis using True by (auto simp: in_step_def abs_le_iff)
  next
    case False
    have c: "es ! m = Fin 1000"
    proof -
      have "m = 2 \<or> m = 3" using False assms(3) by arith
      then show ?thesis using assms(2) by (auto simp: pulse_def)
    qed
    have m2: "m - 2 < m" "(m - 2) div 2 = 0" using False assms(3) by simp_all
    have z: "992 \<le> z (m - 2)" "z (m - 2) \<le> 1008" using i [OF m2(1)] m2(2) by (auto simp: in_step_def)
    have b: "before (outputs a es) m 2 = Fin (- z (m - 2))" "before (outputs a es) m 4 = Fin 0"
      using before_value [of m a es z 2] before_value [of m a es z 4] f False assms(3) by simp_all
    have "\<bar>- z m - (1000 + 4 * (- z (m - 2)) - 3 * 0)\<bar> \<le> 1008 / 125"
      by (rule outputs_grow [OF assms(1) l assms(4) c _ _ h b(1) _ b(2)]) (use z in simp_all)
    then have "4 * z (m - 2) - 1000 - 1008 / 125 \<le> z m" "z m \<le> 4 * z (m - 2) - 1000 + 1008 / 125"
      unfolding abs_le_iff by linarith+
    with z have "297 / 100 * z (m - 2) \<le> z m" "z m \<le> 303 / 100 * z (m - 2)" by linarith+
    moreover have "2 \<le> m" using False by simp
    ultimately show ?thesis using in_step_ratio i [OF m2(1)] by blast
  qed
qed

lemma grows:
  assumes "unstable a" "pulse es" "n \<le> 160" "n \<le> length es" "\<And>m. m < n \<Longrightarrow> \<not> nonfinite (outputs a es m)"
  shows "m < n \<Longrightarrow> in_step (\<lambda>k. size_of (outputs a es k)) m"
proof (induction m rule: less_induct)
  case (less m)
  have f: "outputs a es k = Fin (- size_of (outputs a es k))" if "k \<le> m" for k
    using assms(5) [of k] finite_cases [of "outputs a es k"] that less.prems by (auto simp: size_of_def)
  have i: "in_step (\<lambda>k. size_of (outputs a es k)) k" if "k < m" for k using less that by simp
  show ?case
  proof (cases "m < 4")
    case True
    show ?thesis by (rule grows_early [OF assms(1,2) True]) (use f i in auto)
  next
    case False
    show ?thesis by (rule grows_late [OF assms(1,2)]) (use False less.prems assms(3,4) f i in auto)
  qed
qed

end
