(* ===== verification/G729_Deaf.thy ===== *)
theory G729_Deaf
  imports G729_Growth
begin

text \<open>
  One audible frame is enough for the decoder of \<^verbatim>\<open>src/src/codec/g729.rs\<close> to fall silent for good: its
  filter overflows, and NaN in its memory never goes away.
\<close>

section \<open>Overflow\<close>

lemma overflows:
  assumes "unstable a" "pulse es" "160 \<le> length es"
  shows "\<exists>m<160. nonfinite (outputs a es m)"
proof (rule ccontr)
  assume "\<not> ?thesis"
  then have n: "\<And>m. m < 160 \<Longrightarrow> \<not> nonfinite (outputs a es m)" by blast
  have "in_step (\<lambda>k. size_of (outputs a es k)) 159" using grows [OF assms(1,2) order_refl assms(3) n] by simp
  then have z: "992 * (297 / 100) ^ 79 \<le> size_of (outputs a es 159)" by (simp add: in_step_def)
  obtain r where r: "outputs a es 159 = Fin r" using n [of 159] finite_cases by auto
  have "159 < length es" using assms(3) by simp
  then obtain hist where "outputs a es 159 = filter_step a hist (es ! 159)" using outputs_at by blast
  then have "\<bar>r\<bar> < 2 ^ 128" using r filter_step_limit by metis
  moreover have "(2 :: rat) ^ 128 \<le> 992 * (297 / 100) ^ 79" by (simp add: power_divide)
  ultimately show False using z r by (simp add: size_of_def)
qed

lemma unstable_taps:
  assumes "unstable a"
  obtains r1 r2 r4 where "a ! 1 = Fin r1" "a ! 2 = Fin r2" "r2 < 0" "a ! 4 = Fin r4" "0 < r4"
proof -
  have "near (a ! 1) 0 (1 / 16384)" "near (a ! 2) (- 4) (1 / 16384)" "near (a ! 4) 3 (1 / 16384)"
    using assms unfolding unstable_def
    by (force simp: mean_filter_def dest: bspec [of _ _ 1] bspec [of _ _ 2] bspec [of _ _ 4])+
  then obtain r1 r2 r4 where r: "a ! 1 = Fin r1" "a ! 2 = Fin r2" "\<bar>r2 - - 4\<bar> \<le> 1 / 16384" "a ! 4 = Fin r4" "\<bar>r4 - 3\<bar> \<le> 1 / 16384"
    by (auto simp: near_def)
  from r(3,5) have "r2 < 0" "0 < r4" unfolding abs_le_iff by linarith+
  with r that show ?thesis by blast
qed

lemma outputs_differences:
  assumes "m < length es"
  shows "outputs a es m = differences (\<lambda>j. fp_mul F32 (a ! j) (before (outputs a es) m j)) [1..<11] (es ! m)"
proof -
  obtain hist where h: "outputs a es m = filter_step a hist (es ! m)"
    "\<And>j. j \<in> {1..10} \<Longrightarrow> hist ! (10 - j) = before (outputs a es) m j" using outputs_at [OF assms] by blast
  show ?thesis unfolding h(1) filter_step_differences unfolding differences_def LPC_ORDER_def
    by (intro fold_cong) (use h(2) in auto)
qed

lemma stays:
  assumes "unstable a" "Suc m < length es"
  shows "nonfinite (outputs a es m) \<Longrightarrow> nonfinite (outputs a es (Suc m))"
    and "outputs a es m = NaN \<Longrightarrow> outputs a es (Suc m) = NaN"
proof -
  obtain r1 where r: "a ! 1 = Fin r1" using assms(1) by (rule unstable_taps)
  have b: "before (outputs a es) (Suc m) 1 = outputs a es m" by (simp add: before_def)
  have j: "1 \<in> set [1..<11 :: nat]" by simp
  show "nonfinite (outputs a es m) \<Longrightarrow> nonfinite (outputs a es (Suc m))"
    unfolding outputs_differences [OF assms(2)]
    by (rule differences_nonfinite, rule disjI2, rule bexI [OF _ j]) (simp only: r b nonfinite_mul)
  show "outputs a es m = NaN \<Longrightarrow> outputs a es (Suc m) = NaN"
    unfolding outputs_differences [OF assms(2)]
    by (rule differences_NaN, rule disjI2, rule bexI [OF _ j]) (simp only: r b NaN_mul)
qed

lemma stays_from:
  assumes "unstable a" "m \<le> n" "n < length es"
  shows "nonfinite (outputs a es m) \<Longrightarrow> nonfinite (outputs a es n)" "outputs a es m = NaN \<Longrightarrow> outputs a es n = NaN"
proof -
  have "n < length es \<longrightarrow> (nonfinite (outputs a es m) \<longrightarrow> nonfinite (outputs a es n)) \<and> (outputs a es m = NaN \<longrightarrow> outputs a es n = NaN)"
    using assms(2) by (induction rule: dec_induct) (use stays [OF assms(1)] in auto)
  with assms(3) show "nonfinite (outputs a es m) \<Longrightarrow> nonfinite (outputs a es n)" "outputs a es m = NaN \<Longrightarrow> outputs a es n = NaN" by auto
qed

text \<open>Two terms of opposite infinite sign.\<close>

lemma sub_opposite:
  "y \<in> {PInf, MInf} \<Longrightarrow> r < 0 \<Longrightarrow> fp_sub F32 x (fp_mul F32 (Fin r) y) \<in> {y, NaN}"
  "y \<in> {PInf, MInf} \<Longrightarrow> 0 < r \<Longrightarrow> x \<in> {y, NaN} \<Longrightarrow> fp_sub F32 x (fp_mul F32 (Fin r) y) = NaN"
  by (cases x; auto simp: fp_sub_def fp_inf_def)+

lemma NaN_comes:
  assumes a: "unstable a" and m: "m + 4 < length es" and f: "nonfinite (outputs a es m)"
  shows "outputs a es (m + 4) = NaN"
proof (cases "outputs a es m = NaN \<or> outputs a es (m + 2) = NaN")
  case True
  then show ?thesis using stays_from(2) [OF a _ m, of m] stays_from(2) [OF a _ m, of "m + 2"] by auto
next
  case False
  let ?y = "outputs a es"
  obtain r1 r2 r4 where r: "a ! 1 = Fin r1" "a ! 2 = Fin r2" "r2 < 0" "a ! 4 = Fin r4" "0 < r4" using a by (rule unstable_taps)
  let ?v = "\<lambda>m j. fp_mul F32 (a ! j) (before ?y m j)"
  have l: "[1..<11] = [1] @ 2 # [3..<11 :: nat]" "[1..<11] = [1] @ 2 # [3] @ 4 # [5..<11 :: nat]" by (simp_all add: upt_rec)
  have y: "?y m \<in> {PInf, MInf}" using f False by (auto simp: nonfinite_def)
  have 2: "m + 2 < length es" using m by simp
  have "?y (m + 2) = differences (?v (m + 2)) [3..<11]
      (fp_sub F32 (differences (?v (m + 2)) [1] (es ! (m + 2))) (fp_mul F32 (Fin r2) (?y m)))"
    by (subst outputs_differences [OF 2]) (simp only: l(1) differences_append differences_Cons r(2) before_def, simp)
  moreover have "fp_sub F32 (differences (?v (m + 2)) [1] (es ! (m + 2))) (fp_mul F32 (Fin r2) (?y m)) \<in> {?y m, NaN}"
    by (rule sub_opposite(1) [OF y r(3)])
  ultimately have same: "?y (m + 2) = ?y m"
    using differences_infinite [of "fp_sub F32 (differences (?v (m + 2)) [1] (es ! (m + 2))) (fp_mul F32 (Fin r2) (?y m))"
        "?v (m + 2)" "[3..<11]"] y False by auto
  let ?e = "fp_sub F32 (differences (?v (m + 4)) [1] (es ! (m + 4))) (fp_mul F32 (Fin r2) (?y (m + 2)))"
  have e: "?e \<in> {?y m, NaN}" unfolding same by (rule sub_opposite(1) [OF y r(3)])
  have "?y (m + 4) = differences (?v (m + 4)) [5..<11]
      (fp_sub F32 (differences (?v (m + 4)) [3] ?e) (fp_mul F32 (Fin r4) (?y m)))"
    by (subst outputs_differences [OF m]) (simp only: l(2) differences_append differences_Cons r(2,4) before_def, simp)
  moreover have "differences (?v (m + 4)) [3] ?e \<in> {?y m, NaN}"
    using differences_infinite [of ?e "?v (m + 4)" "[3]"] e y by auto
  then have "fp_sub F32 (differences (?v (m + 4)) [3] ?e) (fp_mul F32 (Fin r4) (?y m)) = NaN"
    by (rule sub_opposite(2) [OF y r(5)])
  ultimately show ?thesis using differences_NaN by auto
qed

lemma becomes_NaN:
  assumes "unstable a" "pulse es" "164 \<le> n" "n < length es"
  shows "outputs a es n = NaN"
proof -
  obtain m where m: "m < 160" "nonfinite (outputs a es m)" using overflows [OF assms(1,2)] assms(3,4) by auto
  have "outputs a es (m + 4) = NaN" by (rule NaN_comes [OF assms(1) _ m(2)]) (use m(1) assms(3,4) in simp)
  then show ?thesis using stays_from(2) [OF assms(1) _ assms(4), of "m + 4"] m(1) assms(3) by simp
qed

section \<open>A deaf decoder\<close>

definition deaf :: "G729Decoder \<Rightarrow> bool" where
  "deaf dec \<longleftrightarrow> gd_mem_syn dec = replicate LPC_ORDER NaN"

lemma fp_mul_NaN [simp]: "fp_mul F x NaN = NaN"
  by (cases x) simp_all

lemma filter_step_NaN: "filter_step a (replicate LPC_ORDER NaN) e = NaN"
  unfolding filter_step_differences by (rule differences_NaN) (auto simp: LPC_ORDER_def)

lemma run_filter_NaN: "run_filter a (replicate LPC_ORDER NaN) es = (replicate (length es) NaN, replicate LPC_ORDER NaN)"
proof (induction es)
  case (Cons e es)
  have "tl (replicate LPC_ORDER NaN) @ [NaN] = replicate LPC_ORDER NaN" by (simp add: LPC_ORDER_def numeral_eq_Suc)
  with Cons show ?case by (simp add: filter_step_NaN)
qed simp

lemma exc_length: "length (add_pulses fixed_idx g (adaptive_exc prev lag gain)) = SUBFRAME_SIZE"
proof -
  have "length (fold (\<lambda>(pos, sign) exc. if pos < SUBFRAME_SIZE then exc[pos := fp_add F32 (exc ! pos) (fp_mul F32 g sign)] else exc) ps xs) =
    length xs" for ps xs
    by (induction ps arbitrary: xs) auto
  then show ?thesis by (simp add: add_pulses_def adaptive_exc_def)
qed

lemma decode_subframe_run:
  assumes "length (gd_mem_syn dec) = LPC_ORDER"
  shows "\<exists>exc. length exc = SUBFRAME_SIZE \<and> fst (decode_subframe a data sf dec) = fst (run_filter a (gd_mem_syn dec) exc) \<and>
    gd_mem_syn (snd (decode_subframe a data sf dec)) = snd (run_filter a (gd_mem_syn dec) exc)"
proof -
  obtain lag gain fixed_idx g where u: "unpack_subframe sf data = (lag, gain, fixed_idx, g)" by (metis surj_pair)
  let ?exc = "add_pulses fixed_idx g (adaptive_exc (gd_prev_exc dec) lag gain)"
  have "synthesis_filter ?exc a (gd_mem_syn dec) (replicate SUBFRAME_SIZE (Fin 0)) = run_filter a (gd_mem_syn dec) ?exc"
    by (rule synthesis_filter_run [OF assms]) (simp_all add: exc_length, simp add: g729_sizes)
  then show ?thesis
    by (intro exI [of _ ?exc]) (simp add: exc_length decode_subframe_def u Let_def case_prod_unfold)
qed

lemma decode_subframe_deaf:
  assumes "deaf dec"
  shows "fst (decode_subframe a data sf dec) = replicate SUBFRAME_SIZE NaN" "deaf (snd (decode_subframe a data sf dec))"
  using decode_subframe_run [of dec a data sf] assms by (auto simp: deaf_def run_filter_NaN)

lemma decode_frames_deaf:
  "deaf dec \<Longrightarrow> fst (decode_frames cosf dec fs) = replicate (length fs * FRAME_SIZE) 0"
proof (induction fs arbitrary: dec)
  case (Cons f fs)
  obtain lsp where q: "dequantize_lsp [f ! 0, f ! 1] dec = (lsp, dec\<lparr>gd_prev_lsp := lsp\<rparr>)"
    by (simp add: dequantize_lsp_def Let_def)
  have d: "deaf (dec\<lparr>gd_prev_lsp := lsp\<rparr>)" using Cons.prems by (simp add: deaf_def)
  have "map clip_sample (fst (decode_frame cosf f dec)) = replicate FRAME_SIZE 0 \<and> deaf (snd (decode_frame cosf f dec))"
  proof (cases "length f < FRAME_BYTES")
    case True
    have "clip_sample (Fin 0) = 0" by (rule clip_quiet) (simp add: quiet_def)
    with True Cons.prems show ?thesis by (simp add: decode_frame_def)
  next
    case False
    have "clip_sample NaN = 0" by (rule clip_quiet) (simp add: quiet_def)
    moreover have "SUBFRAME_SIZE + SUBFRAME_SIZE = FRAME_SIZE" by (simp add: g729_sizes)
    ultimately show ?thesis
      unfolding decode_frame_parts [OF False q] using decode_subframe_deaf d by (simp flip: replicate_add)
  qed
  with Cons.IH [of "snd (decode_frame cosf f dec)"] show ?case
    by (simp add: decode_samples_def case_prod_unfold Let_def replicate_add)
qed simp

section \<open>On the way there\<close>

text \<open>Ten bytes with one pulse of each position, and ten bytes with none; neither moves the frequencies.\<close>

definition loud_frame :: bytes where "loud_frame = [0x77, 0x77, 0, 0, 0, 0xF0, 0, 0, 0, 0]"
definition still_frame :: bytes where "still_frame = [0x77, 0x77, 0, 0, 0, 0, 0, 0, 0, 0]"

lemma mean_kept:
  assumes "gd_prev_lsp dec = LSP_MEAN"
  shows "dequantize_lsp [0x77, 0x77] dec = (LSP_MEAN, dec)"
proof -
  have "lsp_delta [0x77, 0x77] 0 = Fin 0" "lsp_delta [0x77, 0x77] 1 = Fin 0" "lsp_delta [0x77, 0x77] 2 = Fin 0"
    "lsp_delta [0x77, 0x77] 3 = Fin 0" by code_simp+
  then have "fold order_lsp [1..<LPC_ORDER] (fold (\<lambda>i lsp. lsp[i := fp_clamp (Fin 0) F32_PI (fp_add F32 (LSP_MEAN ! i) (lsp_delta [0x77, 0x77] i))])
      [0..<4] LSP_MEAN) = LSP_MEAN"
    using F32_dyadic [of 1197889 22] F32_dyadic [of 9583129 24] F32_dyadic [of 14374685 24] F32_dyadic [of 9583121 23]
    by (simp add: LSP_MEAN_values LPC_ORDER_def upt_rec F32_PI_def fp_clamp_def order_lsp_def fp_le_def numeral_eq_Suc)
  moreover have "dec\<lparr>gd_prev_lsp := LSP_MEAN\<rparr> = dec" using assms by (cases dec) simp
  ultimately show ?thesis unfolding dequantize_lsp_def assms Let_def by simp
qed

lemma unpack_loud: "unpack_subframe 0 loud_frame = (PITCH_MIN, Fin 0, 0, Fin 1000)"
  by code_simp

lemma unpack_still:
  "unpack_subframe 1 loud_frame = (PITCH_MIN, Fin 0, 0, Fin 0)" "unpack_subframe 0 still_frame = (PITCH_MIN, Fin 0, 0, Fin 0)"
  "unpack_subframe 1 still_frame = (PITCH_MIN, Fin 0, 0, Fin 0)"
  by code_simp+

definition pulses :: "fp list" where
  "pulses = [Fin (- 1000), Fin (- 1000), Fin 1000, Fin 1000] @ replicate 36 (Fin 0)"

lemma add_loud: "add_pulses 0 (Fin 1000) (replicate SUBFRAME_SIZE (Fin 0)) = pulses"
  by code_simp

definition all_finite :: "fp list \<Rightarrow> bool" where
  "all_finite xs \<longleftrightarrow> (\<forall>x\<in>set xs. \<exists>r. x = Fin r)"

lemma adaptive_off: "all_finite prev \<Longrightarrow> adaptive_exc prev lag (Fin 0) = replicate SUBFRAME_SIZE (Fin 0)"
proof -
  assume "all_finite prev"
  then have "\<exists>r. prev ! i = Fin r" if "i < length prev" for i
    using that by (simp add: all_finite_def)
  then have "fp_mul F32 (Fin 0) (prev ! i) = Fin 0" if "i < length prev" for i using that by fastforce
  then have "adaptive_exc prev lag (Fin 0) = map (\<lambda>i. Fin 0) [0..<SUBFRAME_SIZE]"
    unfolding adaptive_exc_def Let_def by (intro map_cong) simp_all
  then show ?thesis by (simp add: map_replicate_const)
qed

lemma push_finite:
  assumes "all_finite exc" "all_finite prev" "length exc = SUBFRAME_SIZE"
  shows "all_finite (push_excitation exc prev)"
proof -
  have "all_finite (fold (\<lambda>i prev. prev[f i := exc ! i]) is xs)" if "all_finite xs" "\<forall>i\<in>set is. i < SUBFRAME_SIZE" for f "is" xs
    using that
  proof (induction "is" arbitrary: xs)
    case (Cons i "is")
    have "\<exists>r. exc ! i = Fin r" using Cons.prems(2) assms(1,3) nth_mem [of i exc] by (auto simp: all_finite_def)
    then have "all_finite (xs[f i := exc ! i])" using Cons.prems(1) set_update_subset_insert [of xs "f i" "exc ! i"] by (auto simp: all_finite_def)
    with Cons show ?case by simp
  qed simp
  moreover have "all_finite (drop SUBFRAME_SIZE prev @ drop (length prev - SUBFRAME_SIZE) prev)"
    using assms(2) by (auto simp: all_finite_def dest: in_set_dropD)
  ultimately show ?thesis unfolding push_excitation_def by simp
qed

text \<open>A decoder that has run the filter over some excitation since it started.\<close>

definition has_run :: "(fp \<Rightarrow> fp) \<Rightarrow> fp list \<Rightarrow> G729Decoder \<Rightarrow> bool" where
  "has_run cosf es dec \<longleftrightarrow> gd_prev_lsp dec = LSP_MEAN \<and> all_finite (gd_prev_exc dec) \<and>
    gd_mem_syn dec = snd (run_filter (lsp_to_lpc cosf LSP_MEAN) rest es)"

lemma run_filter_memory: "length (snd (run_filter a rest es)) = LPC_ORDER"
  by (subst run_filter_hist) (simp_all add: rest_def LPC_ORDER_def)

lemma subframe_runs:
  assumes "has_run cosf es dec" "unpack_subframe sf data = (lag, Fin 0, 0, Fin g)" "all_finite exc" "length exc = SUBFRAME_SIZE"
    and "add_pulses 0 (Fin g) (replicate SUBFRAME_SIZE (Fin 0)) = exc"
  shows "has_run cosf (es @ exc) (snd (decode_subframe (lsp_to_lpc cosf LSP_MEAN) data sf dec)) \<and>
    fst (decode_subframe (lsp_to_lpc cosf LSP_MEAN) data sf dec) = fst (run_filter (lsp_to_lpc cosf LSP_MEAN) (gd_mem_syn dec) exc)"
proof -
  let ?a = "lsp_to_lpc cosf LSP_MEAN"
  have e: "add_pulses 0 (Fin g) (adaptive_exc (gd_prev_exc dec) lag (Fin 0)) = exc"
    using assms(1,5) adaptive_off by (simp add: has_run_def)
  have "length (gd_mem_syn dec) = LPC_ORDER" using assms(1) by (simp add: has_run_def run_filter_memory)
  then have f: "synthesis_filter exc ?a (gd_mem_syn dec) (replicate SUBFRAME_SIZE (Fin 0)) = run_filter ?a (gd_mem_syn dec) exc"
    by (rule synthesis_filter_run) (simp_all add: assms(4), simp add: g729_sizes)
  have "decode_subframe ?a data sf dec = (fst (run_filter ?a (gd_mem_syn dec) exc),
      dec\<lparr>gd_mem_syn := snd (run_filter ?a (gd_mem_syn dec) exc), gd_prev_exc := push_excitation exc (gd_prev_exc dec),
          gd_prev_gain_pitch := Fin 0, gd_prev_gain_code := Fin g\<rparr>)"
    unfolding decode_subframe_def assms(2) by (simp add: e f case_prod_unfold Let_def)
  then show ?thesis
    using assms(1) push_finite [OF assms(3) _ assms(4)] by (simp add: has_run_def run_filter_append case_prod_unfold Let_def)
qed

lemma frame_runs:
  assumes "has_run cosf es dec" "length f = FRAME_BYTES" "f ! 0 = 0x77" "f ! 1 = 0x77"
    and "unpack_subframe 0 f = (lag, Fin 0, 0, Fin g)" "unpack_subframe 1 f = (lag', Fin 0, 0, Fin g')"
    and "all_finite exc" "length exc = SUBFRAME_SIZE" "add_pulses 0 (Fin g) (replicate SUBFRAME_SIZE (Fin 0)) = exc"
    and "all_finite exc'" "length exc' = SUBFRAME_SIZE" "add_pulses 0 (Fin g') (replicate SUBFRAME_SIZE (Fin 0)) = exc'"
  shows "has_run cosf (es @ exc @ exc') (snd (decode_frame cosf f dec)) \<and>
    fst (decode_frame cosf f dec) = fst (run_filter (lsp_to_lpc cosf LSP_MEAN) (gd_mem_syn dec) (exc @ exc'))"
proof -
  let ?a = "lsp_to_lpc cosf LSP_MEAN"
  let ?dec = "snd (decode_subframe ?a f 0 dec)"
  have 1: "has_run cosf (es @ exc) ?dec" "fst (decode_subframe ?a f 0 dec) = fst (run_filter ?a (gd_mem_syn dec) exc)"
    using subframe_runs [OF assms(1,5,7-9)] by simp_all
  have 2: "has_run cosf ((es @ exc) @ exc') (snd (decode_subframe ?a f 1 ?dec))"
    "fst (decode_subframe ?a f 1 ?dec) = fst (run_filter ?a (gd_mem_syn ?dec) exc')"
    using subframe_runs [OF 1(1) assms(6,10-12)] by simp_all
  have "gd_mem_syn ?dec = snd (run_filter ?a (gd_mem_syn dec) exc)"
    using 1(1) assms(1) by (simp add: has_run_def run_filter_append case_prod_unfold Let_def)
  moreover have "dequantize_lsp [f ! 0, f ! 1] dec = (LSP_MEAN, dec)"
    unfolding assms(3,4) using assms(1) by (intro mean_kept) (simp add: has_run_def)
  ultimately show ?thesis
    using 1 2 assms(2) by (simp add: decode_frame_parts run_filter_append case_prod_unfold Let_def)
qed

lemma loud_runs:
  assumes "has_run cosf es dec"
  shows "has_run cosf (es @ pulses @ replicate SUBFRAME_SIZE (Fin 0)) (snd (decode_frame cosf loud_frame dec))"
    and "fst (decode_frame cosf loud_frame dec) =
      fst (run_filter (lsp_to_lpc cosf LSP_MEAN) (gd_mem_syn dec) (pulses @ replicate SUBFRAME_SIZE (Fin 0)))"
proof -
  have f: "length loud_frame = FRAME_BYTES" "loud_frame ! 0 = 0x77" "loud_frame ! 1 = 0x77"
    by (simp_all add: loud_frame_def FRAME_BYTES_def)
  have p: "all_finite pulses" "length pulses = SUBFRAME_SIZE" "all_finite (replicate SUBFRAME_SIZE (Fin 0))"
    by (simp_all add: all_finite_def pulses_def SUBFRAME_SIZE_def)
  show "has_run cosf (es @ pulses @ replicate SUBFRAME_SIZE (Fin 0)) (snd (decode_frame cosf loud_frame dec))"
    "fst (decode_frame cosf loud_frame dec) =
      fst (run_filter (lsp_to_lpc cosf LSP_MEAN) (gd_mem_syn dec) (pulses @ replicate SUBFRAME_SIZE (Fin 0)))"
    using frame_runs [OF assms f unpack_loud unpack_still(1) p(1,2) add_loud p(3) length_replicate pulses_silence] by simp_all
qed

lemma still_runs:
  assumes "has_run cosf es dec"
  shows "has_run cosf (es @ replicate FRAME_SIZE (Fin 0)) (snd (decode_frame cosf still_frame dec))"
proof -
  have f: "length still_frame = FRAME_BYTES" "still_frame ! 0 = 0x77" "still_frame ! 1 = 0x77"
    by (simp_all add: still_frame_def FRAME_BYTES_def)
  have p: "all_finite (replicate SUBFRAME_SIZE (Fin 0))" by (simp add: all_finite_def)
  have "SUBFRAME_SIZE + SUBFRAME_SIZE = FRAME_SIZE" by (simp add: g729_sizes)
  then show ?thesis
    using frame_runs [OF assms f unpack_still(2,3) p length_replicate pulses_silence p length_replicate pulses_silence]
    by (simp flip: replicate_add)
qed

lemma has_run_new: "has_run cosf [] G729Decoder_new"
  by (simp add: has_run_def G729Decoder_new_def all_finite_def rest_def)

text \<open>After three frames the whole memory of the filter is past the overflow.\<close>

lemma has_run_deaf:
  assumes "accurate_cos cosf" "has_run cosf es dec" "pulse es" "174 \<le> length es"
  shows "deaf dec"
proof -
  let ?a = "lsp_to_lpc cosf LSP_MEAN"
  let ?n = "length es"
  have u: "unstable ?a" using mean_filter_near [OF assms(1)] by (simp add: unstable_def)
  have m: "gd_mem_syn dec = drop ?n (rest @ fst (run_filter ?a rest es))"
    using assms(2) by (simp add: has_run_def run_filter_hist rest_def LPC_ORDER_def)
  have r: "length rest = 10" by (simp add: rest_def LPC_ORDER_def)
  have "gd_mem_syn dec ! k = NaN" if k: "k < 10" for k
  proof -
    have "gd_mem_syn dec ! k = fst (run_filter ?a rest es) ! (?n + k - 10)"
      unfolding m using k r assms(4) by (simp add: nth_append)
    also have "\<dots> = NaN" using becomes_NaN [OF u assms(3), of "?n + k - 10"] k assms(4) by (simp add: outputs_def)
    finally show ?thesis .
  qed
  moreover have "length (gd_mem_syn dec) = 10" unfolding m using r by simp
  ultimately show ?thesis unfolding deaf_def LPC_ORDER_def by (intro nth_equalityI) simp_all
qed

lemma rest_step: "filter_step a rest (Fin (- 1000)) = Fin (- 1000)" if "unstable a"
proof -
  have m: "fp_mul F32 (a ! j) (Fin 0) = Fin 0" if j: "j \<in> set [1..<11]" for j
  proof -
    have "near (a ! j) (mean_filter ! j) (1 / 16384)" using \<open>unstable a\<close> j by (simp add: unstable_def)
    then show ?thesis by (auto simp: near_def)
  qed
  have s: "fp_sub F32 (Fin (- 1000)) (Fin 0) = Fin (- 1000)" by code_simp
  have "filter_step a rest (Fin (- 1000)) = differences (\<lambda>j. Fin 0) [1..<11] (Fin (- 1000))"
    unfolding filter_step_differences differences_def LPC_ORDER_def
    by (intro fold_cong) (use m in \<open>auto simp: rest_def LPC_ORDER_def\<close>)
  also have "\<dots> = Fin (- 1000)" unfolding differences_def by (simp add: upt_rec s)
  finally show ?thesis .
qed

lemma frames_of_blocks:
  "frames_of FRAME_BYTES loud_frame = [loud_frame]"
  "frames_of FRAME_BYTES (loud_frame @ still_frame @ still_frame) = [loud_frame, still_frame, still_frame]"
  using frames_of_concat [of FRAME_BYTES "[loud_frame]"] frames_of_concat [of FRAME_BYTES "[loud_frame, still_frame, still_frame]"]
  by (simp_all add: FRAME_BYTES_def loud_frame_def still_frame_def)

text \<open>C9: A G.729 decoder goes deaf.  With any cosine that is right to two units in the last place, a new
  decoder that receives one frame with pulses and unchanged frequencies plays it (its first sample is -1000); but
  its synthesis filter is then unstable (close to \<open>1 - 4 z\<^sup>2 + 3 z\<^sup>4\<close>, with a root of \<open>1 - 3 z\<^sup>2\<close>), and after
  two more frames with no excitation at all its memory has overflowed to NaN: from then on
  whatever packet it gets decodes to silence, for the rest of the call.\<close>

theorem g729_goes_deaf:
  assumes "accurate_cos cosf"
  shows "hd (fst (G729Decoder_decode cosf G729Decoder_new loud_frame)) = i16_of_int (- 1000) \<and>
    (\<forall>encoded. fst (G729Decoder_decode cosf
        (snd (G729Decoder_decode cosf G729Decoder_new (loud_frame @ still_frame @ still_frame))) encoded) =
      replicate (length encoded div FRAME_BYTES * FRAME_SIZE) 0)"
proof (intro conjI allI)
  let ?a = "lsp_to_lpc cosf LSP_MEAN"
  have u: "unstable ?a" using mean_filter_near [OF assms] by (simp add: unstable_def)
  have "fst (decode_frame cosf loud_frame G729Decoder_new) = fst (run_filter ?a rest (pulses @ replicate SUBFRAME_SIZE (Fin 0)))"
    using loud_runs(2) [OF has_run_new] by (simp add: G729Decoder_new_def rest_def)
  then obtain ys where y: "fst (decode_frame cosf loud_frame G729Decoder_new) = Fin (- 1000) # ys"
    by (simp add: pulses_def rest_step [OF u] case_prod_unfold Let_def)
  have c: "clip_sample (Fin (- 1000)) = i16_of_int (- 1000)" by code_simp
  show "hd (fst (G729Decoder_decode cosf G729Decoder_new loud_frame)) = i16_of_int (- 1000)"
    by (simp add: G729Decoder_decode_frames frames_of_blocks decode_samples_def case_prod_unfold Let_def y c)
next
  fix encoded
  let ?dec = "snd (G729Decoder_decode cosf G729Decoder_new (loud_frame @ still_frame @ still_frame))"
  let ?es = "(pulses @ replicate SUBFRAME_SIZE (Fin 0)) @ replicate FRAME_SIZE (Fin 0) @ replicate FRAME_SIZE (Fin 0)"
  have "has_run cosf ?es ?dec"
    using still_runs [OF still_runs [OF loud_runs(1) [OF has_run_new]]]
    by (simp add: G729Decoder_decode_frames frames_of_blocks decode_samples_def case_prod_unfold Let_def)
  moreover have "pulse ?es" by (auto simp: pulse_def pulses_def nth_append nth_Cons')
  moreover have "174 \<le> length ?es" by (simp add: pulses_def g729_sizes)
  ultimately have "deaf ?dec" using has_run_deaf [OF assms] by blast
  then show "fst (G729Decoder_decode cosf ?dec encoded) = replicate (length encoded div FRAME_BYTES * FRAME_SIZE) 0"
    using decode_frames_deaf frames_of_spec [of FRAME_BYTES encoded] by (simp add: G729Decoder_decode_frames FRAME_BYTES_def)
qed

text \<open>The series of the cosine, up to its eighteenth power, is accurate enough.\<close>

definition series_cos :: "fp \<Rightarrow> fp" where
  "series_cos x =
    (case x of
       Fin r \<Rightarrow>
         let y = r * r in
         Fin (1 - y / 2 + y ^ 2 / 24 - y ^ 3 / 720 + y ^ 4 / 40320 - y ^ 5 / 3628800 + y ^ 6 / 479001600 -
           y ^ 7 / 87178291200 + y ^ 8 / 20922789888000 - y ^ 9 / 6402373705728000)
     | _ \<Rightarrow> NaN)"

lemma series_cos_accurate: "accurate_cos series_cos"
proof -
  have "\<exists>c. series_cos (Fin x) = Fin c \<and> \<bar>real_of_rat c - cos (real_of_rat x)\<bar> \<le> 1 / 2 ^ 23"
    if x: "0 \<le> x" "x \<le> 13176795 / 4194304" for x
  proof -
    let ?x = "real_of_rat x"
    obtain c where c: "series_cos (Fin x) = Fin c" "real_of_rat c = cos_poly (?x * ?x)"
      by (simp add: series_cos_def Let_def cos_poly_def of_rat_add of_rat_diff of_rat_divide of_rat_mult of_rat_power)
    have "x \<le> 315 / 100" using x(2) by simp
    then have "?x \<le> real_of_rat (315 / 100)" "real_of_rat 0 \<le> ?x" using x(1) unfolding of_rat_less_eq by simp_all
    then have b: "?x \<le> 315 / 100" "0 \<le> ?x" by (simp_all add: of_rat_divide)
    then have "?x * ?x \<le> (315 / 100) * (315 / 100)" by (intro mult_mono) simp_all
    then have "(?x * ?x) ^ 10 \<le> ((315 / 100) * (315 / 100)) ^ 10" using b by (intro power_mono) simp_all
    then have "(?x * ?x) ^ 10 / 2432902008176640000 \<le> ((315 / 100) * (315 / 100)) ^ 10 / 2432902008176640000"
      by (rule divide_right_mono) simp
    also have "\<dots> \<le> 1 / 2 ^ 23" by (simp add: power_divide)
    finally have "\<bar>cos ?x - cos_poly (?x * ?x)\<bar> \<le> 1 / 2 ^ 23" using cos_series [of ?x] by linarith
    with c show ?thesis by (auto simp: abs_minus_commute)
  qed
  then show ?thesis unfolding accurate_cos_def by blast
qed

theorem g729_goes_deaf_witness:
  "hd (fst (G729Decoder_decode series_cos G729Decoder_new loud_frame)) = i16_of_int (- 1000) \<and>
    fst (G729Decoder_decode series_cos
        (snd (G729Decoder_decode series_cos G729Decoder_new (loud_frame @ still_frame @ still_frame))) (loud_frame @ loud_frame)) =
      replicate 160 0"
proof -
  have "length (loud_frame @ loud_frame) div FRAME_BYTES * FRAME_SIZE = 160"
    by (simp add: loud_frame_def FRAME_BYTES_def FRAME_SIZE_def)
  with g729_goes_deaf [OF series_cos_accurate] show ?thesis by metis
qed

end
