(* ===== verification/Spec2Isabelle.thy ===== *)
theory Spec2Isabelle
  imports Srtp_Properties Rtcp Rtp_Stats Stun Codec G711 G722 Call_Codecs Jitter_Refinement Frame_Accumulator Resample Recorder Device_Properties Session_Digits Session_Tasks Session_Progress G729_Deaf G729_Fields
begin

text \<open>
  A verification development for rtp-engine, a Rust library for RTP media sessions: packets,
  SRTP, statistics, a jitter buffer, codecs, STUN, a headless media stream and the audio
  plumbing around them.  All file names are relative to the repository.

  \<^bold>\<open>The program.\<close>  An RTP datagram comes in through \<^verbatim>\<open>src/stream.rs\<close> (or the device session
  \<^verbatim>\<open>src/session.rs\<close>), is opened by \<^verbatim>\<open>src/srtp.rs\<close>, parsed by \<^verbatim>\<open>src/rtp/header.rs\<close>, and waits in
  \<^verbatim>\<open>src/jitter.rs\<close> until a tick of 20 ms hands it to a decoder of \<^verbatim>\<open>src/codec\<close>; the other
  way a frame of PCM is encoded, given a header, protected and sent.  \<^verbatim>\<open>src/rtp\<close> also counts what
  arrives and writes RTCP reports, \<^verbatim>\<open>src/stun.rs\<close> finds the public address, \<^verbatim>\<open>src/codec/mod.rs\<close>
  reads the codec out of an SDP description.

  \<^bold>\<open>How it is modelled.\<close>  A struct is a \<^verbatim>\<open>record\<close> with the fields of the source, an enum a
  \<^verbatim>\<open>datatype\<close>, \<^verbatim>\<open>uN\<close> and \<^verbatim>\<open>iN\<close> values are words (signed arithmetic that must not overflow is on
  integers with the checks written out in \<^verbatim>\<open>Checked_Int\<close>), a method takes the state and returns
  its result with the state after it, on the error paths too.  A \<^verbatim>\<open>Result\<close> is a sum with the error
  on the left; \<open>None\<close> is a panic or a loop that does not end, where the source has one.  The clock,
  random numbers, sockets, files and foreign libraries (AES and HMAC, rubato, libopus) are
  arguments.  \<^verbatim>\<open>f32\<close> and \<^verbatim>\<open>f64\<close> are rational numbers rounded as IEEE 754 demands
  (\<^verbatim>\<open>Ieee_Float\<close>), without the sign of zero, which nothing modelled here looks at.

  \<^bold>\<open>The theories.\<close>
    \<^item> \<^verbatim>\<open>Rtp_Prelude\<close>: byte, word and slice lemmas; \<^verbatim>\<open>Text_Utils\<close>: the string functions of Rust;
      \<^verbatim>\<open>Errors\<close>: \<^verbatim>\<open>src/error.rs\<close>.
    \<^item> \<^verbatim>\<open>Wire_Format\<close> (the contract of a self-delimiting header) and \<^verbatim>\<open>Rtp_Header\<close>
      (\<^verbatim>\<open>src/rtp/header.rs\<close>, which interprets it): parsing and serialising are inverse both ways.
    \<^item> \<^verbatim>\<open>Replay_Window\<close>, \<^verbatim>\<open>Srtp_Crypto\<close>, \<^verbatim>\<open>Srtp_Context\<close>: the state and the operations of
      \<^verbatim>\<open>src/srtp.rs\<close>.  \<^verbatim>\<open>Srtp_Receive\<close>, \<^verbatim>\<open>Srtp_Transport\<close>, \<^verbatim>\<open>Srtp_Properties\<close>: nothing is accepted
      twice, an error changes nothing, what was protected is recovered through loss and
      reordering, key stream positions are not reused, the tables stay bounded, and the one order
      of packets in which the rollover counter goes wrong.
    \<^item> \<^verbatim>\<open>Rtcp\<close>: the reports of \<^verbatim>\<open>src/rtp/rtcp.rs\<close>.  \<^verbatim>\<open>Seq_Numbers\<close>, \<^verbatim>\<open>Rtp_Stats\<close>: extended
      sequence numbers, loss and jitter of \<^verbatim>\<open>src/rtp/stats.rs\<close>.
    \<^item> \<^verbatim>\<open>Ordered_Map\<close> (an interface of bounded ordered maps), \<^verbatim>\<open>Jitter_Buffer\<close>, \<^verbatim>\<open>Jitter_Properties\<close>:
      \<^verbatim>\<open>src/jitter.rs\<close> with its invariant over all sequences of operations, playout in order,
      repair of reordering, the bounds of the adaptive delay.  \<^verbatim>\<open>Jitter_Refinement\<close>: the abstract buffer
      that the code implements, by a simulation over all sequences of arrivals and ticks in which no
      number is ambiguous.
    \<^item> \<^verbatim>\<open>Codec\<close>: payload types, rates and SDP negotiation of \<^verbatim>\<open>src/codec/mod.rs\<close>.  \<^verbatim>\<open>Pcm\<close>,
      \<^verbatim>\<open>Checked_Int\<close> and the interfaces of \<^verbatim>\<open>Audio_Codec\<close> (coders that may be fed in packets), on
      which \<^verbatim>\<open>G711\<close> (\<^verbatim>\<open>src/codec/g711.rs\<close>) and \<^verbatim>\<open>G722\<close> (\<^verbatim>\<open>src/codec/g722.rs\<close>) rest: the error
      bound of both laws, and that the two ends of G.722 stay in step without an overflow.
    \<^item> \<^verbatim>\<open>Float_Ops\<close>, \<^verbatim>\<open>G729_Encoder\<close>, \<^verbatim>\<open>G729_Decoder\<close>: \<^verbatim>\<open>src/codec/g729.rs\<close>, with the cosine as an argument.
      \<^verbatim>\<open>G729_Properties\<close>, \<^verbatim>\<open>G729_Fields\<close>: neither coder stops, and what the decoder reads of a frame.
      \<^verbatim>\<open>G729_Filter\<close>, \<^verbatim>\<open>G729_Silence\<close>: the filter as a run over samples, silence, and packets of any number
      of frames.  \<^verbatim>\<open>Float_Bounds\<close> (how far rounding leads), \<^verbatim>\<open>G729_Predictor\<close>, \<^verbatim>\<open>G729_Growth\<close>,
      \<^verbatim>\<open>G729_Deaf\<close>: the filter that the decoder starts with is unstable, and one frame with pulses
      overflows it for good.
    \<^item> \<^verbatim>\<open>Opus_Codec\<close>: \<^verbatim>\<open>src/codec/opus_codec.rs\<close> over the functions of libopus.
    \<^item> \<^verbatim>\<open>Stun\<close>: \<^verbatim>\<open>src/stun.rs\<close>, from the bytes of a response to the choice of a server.
    \<^item> \<^verbatim>\<open>Media_Codecs\<close> (the boxed codecs), \<^verbatim>\<open>Stream_Core\<close>: all of \<^verbatim>\<open>src/stream.rs\<close>, with the
      receiving loop over a given sequence of wake-ups.  \<^verbatim>\<open>Stream_Properties\<close>: drops and the trusted
      source.  \<^verbatim>\<open>Stream_Playout\<close>: the frame clock and the report of silence.  \<^verbatim>\<open>Stream_Digits\<close>: a
      digit is heard once.  \<^verbatim>\<open>Stream_Call\<close>: a call from frames to frames, over headers, reordering,
      jitter buffer and codecs.  \<^verbatim>\<open>Stream_Losses\<close>: the same call when packets are lost.  \<^verbatim>\<open>Call_Codecs\<close>:
      the table of all codecs, and the payloads that each makes of 20 ms.
    \<^item> \<^verbatim>\<open>Frame_Buffers\<close> (cutting a stream into frames, and the interface of coders that wait for
      the rest of one), \<^verbatim>\<open>Frame_Accumulator\<close> (\<^verbatim>\<open>src/audio_proc/frame.rs\<close>), \<^verbatim>\<open>Samples\<close> and \<^verbatim>\<open>Resample\<close>
      (\<^verbatim>\<open>src/resample.rs\<close>), \<^verbatim>\<open>Recorder\<close> (\<^verbatim>\<open>src/recorder.rs\<close>): the buffers do not matter, what the
      conversions lose, and recordings that a WAV reader takes back.
    \<^item> \<^verbatim>\<open>Voice_Processor\<close>, \<^verbatim>\<open>Voice_Properties\<close>: \<^verbatim>\<open>src/audio_proc/processor.rs\<close>, the state that the two
      paths of a call share: when echo cancellation starts, what the library is asked for, and that
      no sample of the microphone is lost or repeated.
    \<^item> \<^verbatim>\<open>Devices\<close>, \<^verbatim>\<open>Device_Properties\<close>: \<^verbatim>\<open>src/device.rs\<close> over the answers of the host.
    \<^item> \<^verbatim>\<open>Float_Sqrt\<close>, \<^verbatim>\<open>Session_State\<close>, \<^verbatim>\<open>Session_Send\<close>, \<^verbatim>\<open>Session_Receive\<close>, \<^verbatim>\<open>Session_Steps\<close>:
      \<^verbatim>\<open>src/session.rs\<close> as one state that the audio threads, the keepalive, the digit tasks, the RTCP task
      and the application change in turn; \<open>session_step\<close> is one turn, and a run is any sequence of them.
      \<^verbatim>\<open>Session_Stream\<close>: all that a session sends is one stream; its locale
      \<open>effect\<close> is what a turn may do to a session, and carries over to runs.  \<^verbatim>\<open>Session_Tasks\<close>: the sending
      tasks at a finer grain, each drawing its sequence number in one step and taking the lock of the SRTP context in
      a later one; a peer opens what they send.  \<^verbatim>\<open>Session_Remote\<close>: where the packets go.  \<^verbatim>\<open>Session_Digits\<close>: what becomes of digits, up to the stream that hears them.
      \<^verbatim>\<open>Session_Invariant\<close>: what every session keeps of its buffers.  \<^verbatim>\<open>Session_Progress\<close>: which turns do
      not return.

  \<^bold>\<open>Bounds.\<close>  No definition runs on fuel.  Loops of the source that could fail to end are
  \<open>partial_function\<close>s (\<open>drain\<close>), and where they end is proved.  Properties state the bounds they
  need as hypotheses: sequences of fewer than \<open>2\<^sup>1\<^sup>5\<close> packets where 16 bit numbers are told apart,
  32 bit sizes of a WAV file, the size of the jitter buffer.  The cosine of \<^verbatim>\<open>f32\<close> is arbitrary where its
  value does not matter, and assumed right to two units in the last place where it does (\<open>accurate_cos\<close>).

  \<^bold>\<open>Not modelled.\<close>  \<^verbatim>\<open>src/lib.rs\<close> has no code of its own.  What foreign libraries compute (AES and HMAC,
  rubato, libopus, the audio host) is an argument, with what is used of it as a hypothesis.  A turn of a thread of the session is
  one step of \<open>session_step\<close>; only \<open>task_step\<close> splits the sending ones between the sequence number and the lock of
  the SRTP context, not between the sequence number, the timestamp and the encoder.  Logging, \<^verbatim>\<open>Debug\<close> output, tests and documentation have no model.
\<close>

end
